(* ===== verification/Prelude.thy ===== *)
theory Prelude
  imports Complex_Main "HOL-Library.Word"
begin

text \<open>
  Shared types, error values and helper lemmas of the development.

  Machine integers keep their width: \<open>u8\<close>, \<open>u16\<close>, \<open>u32\<close>, \<open>u64\<close> are words of
  HOL-Library.Word, and \<open>size_t\<close> is 32 bits wide, the width of the ESP32-S3 the firmware runs
  on. A byte buffer is a list of \<open>u8\<close>. Times and rates, \<open>double\<close> in the source, are exact
  rationals (\<open>secs\<close>): floating-point rounding is not modelled.

  Every \<open>throw\<close> of the source is a value \<open>Inl\<close> of a \<open>fault\<close>. Two faults stand for what C++
  leaves without an exception: \<open>Undefined\<close> is undefined behaviour (a read outside the buffer),
  \<open>Stack_overflow\<close> a recursion deeper than the call stack.
\<close>

unbundle bit_operations_syntax

type_synonym u8 = "8 word"
type_synonym u16 = "16 word"
type_synonym u32 = "32 word"
type_synonym u64 = "64 word"
type_synonym usize = "32 word"
type_synonym bytes = "u8 list"
type_synonym secs = rat

named_theorems buf_simps "reads of a byte buffer behind a prefix"
named_theorems inv_intros "preservation facts of the component invariants"

section \<open>Errors as values\<close>

datatype fault =
    Runtime_error
  | Invalid_argument
  | Length_error
  | Logic_error
  | Out_of_range
  | Undefined
  | Stack_overflow

type_synonym 'a res = "fault + 'a"

definition rbind :: "'a res \<Rightarrow> ('a \<Rightarrow> 'b res) \<Rightarrow> 'b res" where
  "rbind m f = (case m of Inl e \<Rightarrow> Inl e | Inr x \<Rightarrow> f x)"

definition rguard :: "bool \<Rightarrow> fault \<Rightarrow> unit res" where
  "rguard b e = (if b then Inr () else Inl e)"

lemma rbind_Inl [simp]: "rbind (Inl e) f = Inl e"
  by (simp add: rbind_def)

lemma rbind_Inr [simp]: "rbind (Inr x) f = f x"
  by (simp add: rbind_def)

lemma rbind_eq_Inr: "rbind m f = Inr y \<longleftrightarrow> (\<exists>x. m = Inr x \<and> f x = Inr y)"
  by (cases m) auto

lemma rbind_eq_Inl: "rbind m f = Inl e \<longleftrightarrow> m = Inl e \<or> (\<exists>x. m = Inr x \<and> f x = Inl e)"
  by (cases m) auto

lemma rbind_assoc: "rbind (rbind m f) g = rbind m (\<lambda>x. rbind (f x) g)"
  by (cases m) auto

lemma rguard_eq_Inr [simp]: "rguard b e = Inr u \<longleftrightarrow> b"
  by (simp add: rguard_def)

lemma rguard_eq_Inl [simp]: "rguard b e = Inl e' \<longleftrightarrow> \<not> b \<and> e' = e"
  by (auto simp: rguard_def)

lemma rguard_True [simp]: "rguard True e = Inr ()"
  by (simp add: rguard_def)

lemma rguard_False [simp]: "rguard False e = Inl e"
  by (simp add: rguard_def)

lemma not_isl_projr: "\<not> isl r \<Longrightarrow> r = Inr (projr r)"
  by (cases r) simp_all

section \<open>Searching and updating lists\<close>

text \<open>The first position that satisfies a test: the \<open>for\<close> loops over slots of the source.\<close>

fun first_index :: "('a \<Rightarrow> bool) \<Rightarrow> 'a list \<Rightarrow> nat option" where
  "first_index P [] = None"
| "first_index P (x # xs) = (if P x then Some 0 else map_option Suc (first_index P xs))"

lemma first_index_None: "first_index P xs = None \<longleftrightarrow> (\<forall>x \<in> set xs. \<not> P x)"
  by (induction xs) auto

lemma first_index_Some:
  "first_index P xs = Some i \<Longrightarrow> i < length xs \<and> P (xs ! i) \<and> (\<forall>j < i. \<not> P (xs ! j))"
proof (induction xs arbitrary: i)
  case Nil
  then show ?case by simp
next
  case (Cons x xs)
  show ?case
  proof (cases "P x")
    case True
    with Cons.prems show ?thesis by simp
  next
    case False
    with Cons.prems obtain k where k: "first_index P xs = Some k" "i = Suc k"
      by auto
    from Cons.IH [OF k(1)] k(2) False show ?thesis
      by (auto simp: less_Suc_eq_0_disj)
  qed
qed

lemma first_index_SomeI:
  "i < length xs \<Longrightarrow> P (xs ! i) \<Longrightarrow> (\<And>j. j < i \<Longrightarrow> \<not> P (xs ! j)) \<Longrightarrow> first_index P xs = Some i"
proof (induction xs arbitrary: i)
  case Nil
  then show ?case by simp
next
  case (Cons x xs)
  show ?case
  proof (cases i)
    case 0
    with Cons.prems show ?thesis by simp
  next
    case (Suc k)
    have "\<not> P x" using Cons.prems(3) [of 0] Suc by simp
    moreover have "first_index P xs = Some k"
    proof (rule Cons.IH)
      show "k < length xs" "P (xs ! k)" using Cons.prems(1,2) Suc by simp_all
      show "\<not> P (xs ! j)" if "j < k" for j using Cons.prems(3) [of "Suc j"] that Suc by simp
    qed
    ultimately show ?thesis using Suc by simp
  qed
qed

lemma first_index_append:
  "first_index P (xs @ ys) =
     (case first_index P xs of Some i \<Rightarrow> Some i
      | None \<Rightarrow> map_option (\<lambda>i. i + length xs) (first_index P ys))"
  by (induction xs) (auto split: option.splits simp: option.map_comp comp_def option.map_ident)

text \<open>The number of elements that satisfy a test: the counting loops of the source.\<close>

definition count_if :: "('a \<Rightarrow> bool) \<Rightarrow> 'a list \<Rightarrow> nat" where
  "count_if P xs = length (filter P xs)"

lemma count_if_Nil [simp]: "count_if P [] = 0"
  by (simp add: count_if_def)

lemma count_if_Cons [simp]: "count_if P (x # xs) = (if P x then Suc (count_if P xs) else count_if P xs)"
  by (simp add: count_if_def)

lemma count_if_append [simp]: "count_if P (xs @ ys) = count_if P xs + count_if P ys"
  by (simp add: count_if_def)

lemma count_if_le: "count_if P xs \<le> length xs"
  by (simp add: count_if_def)

lemma count_if_update:
  "i < length xs \<Longrightarrow>
   count_if P (xs[i := y]) + (if P (xs ! i) then 1 else 0) = count_if P xs + (if P y then 1 else 0)"
proof (induction xs arbitrary: i)
  case Nil
  then show ?case by simp
next
  case (Cons x xs)
  show ?case
  proof (cases i)
    case 0
    then show ?thesis by simp
  next
    case (Suc k)
    with Cons.IH [of k] Cons.prems show ?thesis by simp
  qed
qed

lemma count_if_eq_length: "count_if P xs = length xs \<longleftrightarrow> (\<forall>x \<in> set xs. P x)"
proof (induction xs)
  case (Cons x xs)
  then show ?case using count_if_le [of P xs] by auto
qed simp

lemma count_if_eq_0: "count_if P xs = 0 \<longleftrightarrow> (\<forall>x \<in> set xs. \<not> P x)"
  by (induction xs) auto

text \<open>Keeping at most the first \<open>n\<close> bytes, padding with zero bytes: \<open>std::vector::resize\<close>.\<close>

definition resize_to :: "nat \<Rightarrow> bytes \<Rightarrow> bytes" where
  "resize_to n xs = take n xs @ replicate (n - length xs) 0"

lemma length_resize_to [simp]: "length (resize_to n xs) = n"
  by (simp add: resize_to_def)

lemma resize_to_le: "n \<le> length xs \<Longrightarrow> resize_to n xs = take n xs"
  by (simp add: resize_to_def)

section \<open>Big-endian integers\<close>

text \<open>
  The byte \<open>(v >> 8 i) & 0xff\<close> of a word, and the shift-and-or loop that reads bytes back. The
  step lemma is the one fact all the round trips of the wire formats rest on.
\<close>

definition byte_at :: "nat \<Rightarrow> 'a::len word \<Rightarrow> u8" where
  "byte_at i v = ucast (drop_bit (i * 8) v AND 0xff)"

definition be_bytes :: "nat \<Rightarrow> 'a::len word \<Rightarrow> bytes" where
  "be_bytes k v = map (\<lambda>i. byte_at i v) (rev [0..<k])"

definition be_word :: "bytes \<Rightarrow> 'a::len word" where
  "be_word bs = fold (\<lambda>b r. push_bit 8 r OR ucast b) bs 0"

lemma length_be_bytes [simp]: "length (be_bytes k v) = k"
  by (simp add: be_bytes_def)

lemma mask_8: "(0xff :: 'a::len word) = mask 8"
  by (simp add: mask_eq_exp_minus_1)

lemma byte_step:
  fixes v :: "'a::len word"
  assumes "8 \<le> LENGTH('a)"
  shows "push_bit 8 (drop_bit (Suc k * 8) v) OR ucast (byte_at k v) = drop_bit (k * 8) v"
proof (rule bit_word_eqI)
  fix n
  assume n: "n < LENGTH('a)"
  show "bit (push_bit 8 (drop_bit (Suc k * 8) v) OR ucast (byte_at k v)) n =
        bit (drop_bit (k * 8) v) n"
  proof (cases "n < 8")
    case True
    with assms n show ?thesis by (simp add: byte_at_def mask_8 bit_simps)
  next
    case False
    then have eq: "Suc k * 8 + (n - 8) = k * 8 + n" by simp
    from False n show ?thesis
      using eq by (auto simp: byte_at_def mask_8 bit_simps ac_simps)
  qed
qed

lemma be_word_be_bytes_aux:
  fixes v :: "'a::len word"
  assumes "8 \<le> LENGTH('a)"
  shows "fold (\<lambda>b r. push_bit 8 r OR ucast b) (be_bytes k v) (drop_bit (k * 8) v) = v"
proof (induction k)
  case 0
  show ?case by (simp add: be_bytes_def)
next
  case (Suc k)
  have "be_bytes (Suc k) v = byte_at k v # be_bytes k v"
    by (simp add: be_bytes_def)
  then show ?case using Suc byte_step [OF assms, of k v] by simp
qed

lemma be_word_be_bytes [simp]:
  fixes v :: "'a::len word"
  assumes "8 \<le> LENGTH('a)" and "LENGTH('a) \<le> k * 8"
  shows "be_word (be_bytes k v) = v"
proof -
  have "drop_bit (k * 8) v = 0"
    using assms(2) by (intro bit_word_eqI) (auto simp: bit_simps dest: bit_imp_le_length)
  then show ?thesis
    using be_word_be_bytes_aux [OF assms(1), of k v] by (simp add: be_word_def)
qed

lemma unat_less: "unat (w :: 'a::len word) < 2 ^ LENGTH('a)"
  by (fact unsigned_less)

lemma unat_inc:
  fixes w x :: "'a::len word"
  assumes "w < x"
  shows "unat (w + 1) = unat w + 1"
proof -
  have "Suc (unat w) \<le> unat x" using assms by (simp add: word_less_nat_alt)
  then have "Suc (unat w) < 2 ^ LENGTH('a)" using unat_less le_less_trans by blast
  then show ?thesis by (simp add: unat_word_ariths(1))
qed

lemma unat_dec:
  fixes w x :: "'a::len word"
  assumes "x < w"
  shows "unat (w - 1) = unat w - 1"
proof -
  have "0 < unat w" using assms by (simp add: word_less_nat_alt)
  then have "1 \<le> w" by (simp add: word_le_nat_alt)
  then show ?thesis by (simp add: unat_sub)
qed

lemma of_nat_unat_less: "n < 2 ^ LENGTH('a::len) \<Longrightarrow> unat (of_nat n :: 'a word) = n"
  by (simp add: unat_of_nat)

text \<open>A property of every byte is checked by evaluation at 256 values.\<close>

lemma all_bytes: "\<forall>k \<in> set [0..<256]. P (of_nat k :: u8) \<Longrightarrow> P w"
proof -
  assume all: "\<forall>k \<in> set [0..<256]. P (of_nat k :: u8)"
  have "unat w \<in> set [0..<256]" using unat_less [of w] by simp
  from bspec [OF all this] show "P w" by simp
qed

section \<open>Reading memory\<close>

definition rd :: "bytes \<Rightarrow> nat \<Rightarrow> u8 res" where
  "rd p i = (if i < length p then Inr (p ! i) else Inl Undefined)"

definition rd_block :: "bytes \<Rightarrow> nat \<Rightarrow> nat \<Rightarrow> bytes res" where
  "rd_block p i k = (if i + k \<le> length p then Inr (take k (drop i p)) else Inl Undefined)"

lemma rd_Nil [simp]: "rd [] i = Inl Undefined"
  by (simp add: rd_def)

lemma rd_Cons_0 [simp]: "rd (x # xs) 0 = Inr x"
  by (simp add: rd_def)

lemma rd_Cons_Suc [simp]: "rd (x # xs) (Suc i) = rd xs i"
  by (simp add: rd_def)

lemma rd_Cons_numeral [simp]: "rd (x # xs) (numeral k) = rd xs (pred_numeral k)"
  by (simp add: rd_def)

lemma rd_in [simp]: "i < length p \<Longrightarrow> rd p i = Inr (p ! i)"
  by (simp add: rd_def)

lemma rd_eq_Inr: "rd p i = Inr b \<longleftrightarrow> i < length p \<and> b = p ! i"
  by (auto simp: rd_def)

lemma rd_block_in [simp]: "i + k \<le> length p \<Longrightarrow> rd_block p i k = Inr (take k (drop i p))"
  by (simp add: rd_block_def)

section \<open>Wire codecs\<close>

text \<open>
  The contract between an encoder and the cursor-based decoder of its format: on a buffer that
  starts with the encoding of \<open>x\<close>, the decoder returns \<open>x\<close> (as its reader sees it, \<open>view x\<close>) and
  exactly the number of bytes the encoding has. \<open>ok\<close> is what the format can carry.
\<close>

locale wire_codec =
  fixes enc :: "'a \<Rightarrow> bytes"
    and dec :: "bytes \<Rightarrow> usize \<Rightarrow> ('b \<times> usize) res"
    and view :: "'a \<Rightarrow> 'b"
    and ok :: "'a \<Rightarrow> bool"
  assumes dec_enc: "ok x \<Longrightarrow> length (enc x) \<le> unat n \<Longrightarrow>
    dec (enc x @ rest) n = Inr (view x, of_nat (length (enc x)))"
begin

lemma dec_at:
  assumes "ok x" and "raw = pre @ enc x @ rest" and "length raw < 2 ^ 32"
  shows "dec (drop (unat (of_nat (length pre) :: usize)) raw)
      (of_nat (length raw) - of_nat (length pre)) = Inr (view x, of_nat (length (enc x)))"
proof -
  have len: "length pre + length (enc x) \<le> length raw" using assms(2) by simp
  have u: "unat (of_nat (length pre) :: usize) = length pre"
    using len assms(3) by (intro of_nat_unat_less) simp
  have "(of_nat (length raw) - of_nat (length pre) :: usize) = of_nat (length raw - length pre)"
    using len by (simp add: of_nat_diff)
  moreover have "unat (of_nat (length raw - length pre) :: usize) = length raw - length pre"
    using assms(3) by (intro of_nat_unat_less) simp
  ultimately show ?thesis
    using u assms(1) len dec_enc [of x "of_nat (length raw - length pre)" rest]
    by (simp add: assms(2))
qed

lemma unambiguous:
  assumes "ok x" "ok y" and "enc x @ r = enc y @ s" and "length (enc x @ r) < 2 ^ 32"
  shows "view x = view y \<and> length (enc x) = length (enc y)"
proof -
  have u: "unat (of_nat (length (enc x @ r)) :: usize) = length (enc x @ r)"
    using assms(4) by (intro of_nat_unat_less) simp
  have ly: "length (enc y) \<le> length (enc x @ r)" using arg_cong [OF assms(3), of length] by simp
  have "dec (enc x @ r) (of_nat (length (enc x @ r))) = Inr (view x, of_nat (length (enc x)))"
    using assms(1) u by (intro dec_enc) simp_all
  moreover have "dec (enc y @ s) (of_nat (length (enc x @ r))) = Inr (view y, of_nat (length (enc y)))"
    using assms(2) u ly by (intro dec_enc) simp_all
  ultimately have "view x = view y" "(of_nat (length (enc x)) :: usize) = of_nat (length (enc y))"
    using assms(3) by auto
  moreover have "unat (of_nat (length (enc x)) :: usize) = length (enc x)"
    "unat (of_nat (length (enc y)) :: usize) = length (enc y)"
    using assms(4) ly by (simp_all add: of_nat_unat_less)
  ultimately show ?thesis by metis
qed

end

end
