(* ===== verification/MsgPack.thy ===== *)
theory MsgPack
  imports Prelude
begin

text \<open>
  The msgpack shim, \<open>MsgPack.h\<close>: the packers, and the unpackers over a raw pointer and a length.

  A packer appends to its \<open>out\<close> vector and never reads it, so the model of a packer returns the
  bytes it appends. An unpacker gets a pointer \<open>p\<close> and the number \<open>n\<close> of bytes it may read; the
  model passes the memory from \<open>p\<close> to the end of the buffer \<open>p\<close> points into, as a list, and \<open>n\<close> at
  the width of \<open>size_t\<close>. Reading past the list is \<open>Undefined\<close>; nothing forces \<open>n\<close> to agree with the
  list, just as nothing forces a C++ caller to pass a length its buffer has. Pointer arithmetic
  \<open>p + off\<close> is \<open>drop\<close>. An unpacker returns its value and the number of bytes consumed.
\<close>

section \<open>Big-endian fields\<close>

definition get_be16 :: "bytes \<Rightarrow> nat \<Rightarrow> u16 res" where
  "get_be16 p i = rbind (rd p i) (\<lambda>a. rbind (rd p (i + 1)) (\<lambda>b.
     Inr (push_bit 8 (ucast a) OR ucast b)))"

definition get_be32 :: "bytes \<Rightarrow> nat \<Rightarrow> u32 res" where
  "get_be32 p i = rbind (rd p i) (\<lambda>a. rbind (rd p (i + 1)) (\<lambda>b.
     rbind (rd p (i + 2)) (\<lambda>c. rbind (rd p (i + 3)) (\<lambda>d.
     Inr (push_bit 24 (ucast a) OR push_bit 16 (ucast b) OR push_bit 8 (ucast c) OR ucast d)))))"

text \<open>The eight-byte loop \<open>r = (r << 8) | p[i + k]\<close> the 64-bit readers share.\<close>

definition get_be64 :: "bytes \<Rightarrow> nat \<Rightarrow> u64 res" where
  "get_be64 p i = rbind (rd_block p i 8) (\<lambda>bs. Inr (be_word bs))"

definition put_be16 :: "u16 \<Rightarrow> bytes" where
  "put_be16 v = [ucast (drop_bit 8 v), ucast (v AND 0xff)]"

definition put_be32 :: "u32 \<Rightarrow> bytes" where
  "put_be32 v = [ucast (drop_bit 24 v AND 0xff), ucast (drop_bit 16 v AND 0xff),
                 ucast (drop_bit 8 v AND 0xff), ucast (v AND 0xff)]"

lemma put_be16_be: "put_be16 v = be_bytes 2 v"
proof -
  have "ucast (drop_bit 8 v) = (byte_at 1 v :: u8)"
    by (rule bit_word_eqI) (auto simp: byte_at_def mask_8 bit_simps)
  then show ?thesis by (simp add: put_be16_def be_bytes_def byte_at_def numeral_2_eq_2)
qed

lemma put_be32_be: "put_be32 v = be_bytes 4 v"
  by (simp add: put_be32_def be_bytes_def byte_at_def numeral_eq_Suc)

lemma length_put_be16 [simp]: "length (put_be16 v) = 2"
  by (simp add: put_be16_be)

lemma length_put_be32 [simp]: "length (put_be32 v) = 4"
  by (simp add: put_be32_be)

lemma take_drop_map: "i + k \<le> length p \<Longrightarrow> take k (drop i p) = map (\<lambda>j. p ! (i + j)) [0..<k]"
  by (rule nth_equalityI) auto

lemma get_be16_word:
  "i + 2 \<le> length p \<Longrightarrow> get_be16 p i = Inr (be_word (take 2 (drop i p)))"
  by (simp add: get_be16_def be_word_def take_drop_map numeral_2_eq_2)

lemma get_be32_word:
  "i + 4 \<le> length p \<Longrightarrow> get_be32 p i = Inr (be_word (take 4 (drop i p)))"
proof -
  assume i: "i + 4 \<le> length p"
  have "[0..<4] = [0, 1, 2, 3 :: nat]" by (simp add: upt_conv_Cons)
  with i show ?thesis
    by (simp add: get_be32_def be_word_def take_drop_map push_bit_or or.assoc)
qed

lemma get_be64_word:
  "i + 8 \<le> length p \<Longrightarrow> get_be64 p i = Inr (be_word (take 8 (drop i p)))"
  by (simp add: get_be64_def)

lemmas get_be_word = get_be16_word get_be32_word get_be64_word

lemma get_put_be [simp]:
  "get_be16 (t # put_be16 v @ rest) (Suc 0) = Inr v"
  "get_be32 (t # put_be32 w @ rest) (Suc 0) = Inr w"
  "get_be64 (t # be_bytes 8 u @ rest) (Suc 0) = Inr u"
  by (simp_all add: get_be_word put_be16_be put_be32_be)

section \<open>Packers\<close>

text \<open>A \<open>double\<close> is its IEEE bit pattern, which is all \<open>memcpy\<close> looks at.\<close>

definition pack_double :: "u64 \<Rightarrow> bytes" where
  "pack_double bits = 0xcb # be_bytes 8 bits"

definition pack_bin :: "bytes \<Rightarrow> bytes" where
  "pack_bin d =
    (let n = length d in
     (if n \<le> 0xff then [0xc4, of_nat n]
      else if n \<le> 0xffff then 0xc5 # put_be16 (of_nat n)
      else 0xc6 # put_be32 (of_nat n)) @ d)"

definition pack_array_header :: "usize \<Rightarrow> bytes" where
  "pack_array_header n =
    (if n \<le> 15 then [0x90 OR ucast n]
     else if n \<le> 0xffff then 0xdc # put_be16 (ucast n)
     else 0xdd # put_be32 n)"

definition pack_map_header :: "usize \<Rightarrow> bytes" where
  "pack_map_header n =
    (if n \<le> 15 then [0x80 OR ucast n]
     else if n \<le> 0xffff then 0xde # put_be16 (ucast n)
     else 0xdf # put_be32 n)"

definition pack_nil :: bytes where
  "pack_nil = [0xc0]"

definition pack_bool :: "bool \<Rightarrow> bytes" where
  "pack_bool v = [if v then 0xc3 else 0xc2]"

definition pack_uint :: "u64 \<Rightarrow> bytes" where
  "pack_uint v =
    (if v \<le> 0x7f then [ucast v]
     else if v \<le> 0xff then [0xcc, ucast v]
     else if v \<le> 0xffff then 0xcd # put_be16 (ucast v)
     else if v \<le> 0xffffffff then 0xce # put_be32 (ucast v)
     else 0xcf # be_bytes 8 v)"

text \<open>The \<open>int64_t\<close> argument is the word read as signed.\<close>

definition pack_int :: "u64 \<Rightarrow> bytes" where
  "pack_int v =
    (if 0 \<le> sint v then pack_uint v
     else if -32 \<le> sint v then [0xe0 OR ucast (v + 32)]
     else if -128 \<le> sint v then [0xd0, ucast v]
     else if -32768 \<le> sint v then 0xd1 # put_be16 (ucast v)
     else if -2147483648 \<le> sint v then 0xd2 # put_be32 (ucast v)
     else 0xd3 # be_bytes 8 v)"

definition pack_fixstr :: "bytes \<Rightarrow> bytes res" where
  "pack_fixstr s =
    (if length s > 31 then Inl Runtime_error else Inr ((0xa0 OR of_nat (length s)) # s))"

definition pack_str :: "bytes \<Rightarrow> bytes" where
  "pack_str s =
    (let n = length s in
     (if n \<le> 31 then [0xa0 OR of_nat n]
      else if n \<le> 0xff then [0xd9, of_nat n]
      else if n \<le> 0xffff then 0xda # put_be16 (of_nat n)
      else 0xdb # put_be32 (of_nat n)) @ s)"

section \<open>Unpackers\<close>

definition unpack_uint :: "bytes \<Rightarrow> usize \<Rightarrow> (u64 \<times> usize) res" where
  "unpack_uint p n =
    (if n < 1 then Inl Runtime_error
     else rbind (rd p 0) (\<lambda>t.
       if t AND 0x80 = 0 then Inr (ucast t, 1)
       else if t = 0xcc then
         (if n < 2 then Inl Runtime_error else rbind (rd p 1) (\<lambda>b. Inr (ucast b, 2)))
       else if t = 0xcd then
         (if n < 3 then Inl Runtime_error else rbind (get_be16 p 1) (\<lambda>w. Inr (ucast w, 3)))
       else if t = 0xce then
         (if n < 5 then Inl Runtime_error else rbind (get_be32 p 1) (\<lambda>w. Inr (ucast w, 5)))
       else if t = 0xcf then
         (if n < 9 then Inl Runtime_error else rbind (get_be64 p 1) (\<lambda>w. Inr (w, 9)))
       else Inl Runtime_error))"

text \<open>
  The length fields of the three blob widths, which every variable-length reader repeats: the
  header's size and the payload's length, after the check that the field itself is there.
\<close>

definition hdr8 :: "bytes \<Rightarrow> usize \<Rightarrow> (usize \<times> usize) res" where
  "hdr8 p n = (if n < 2 then Inl Runtime_error else rbind (rd p 1) (\<lambda>b. Inr (2, ucast b)))"

definition hdr16 :: "bytes \<Rightarrow> usize \<Rightarrow> (usize \<times> usize) res" where
  "hdr16 p n = (if n < 3 then Inl Runtime_error else rbind (get_be16 p 1) (\<lambda>w. Inr (3, ucast w)))"

definition hdr32 :: "bytes \<Rightarrow> usize \<Rightarrow> (usize \<times> usize) res" where
  "hdr32 p n = (if n < 5 then Inl Runtime_error else rbind (get_be32 p 1) (\<lambda>w. Inr (5, w)))"

text \<open>
  The check of the payload and the copy. \<open>hdr + len\<close> is computed at 32 bits and wraps for a length
  near \<open>2 ^ 32\<close>; the copy then asks a container for more than its \<open>max_size\<close> and throws.
\<close>

definition take_blob :: "bytes \<Rightarrow> usize \<Rightarrow> usize \<times> usize \<Rightarrow> (bytes \<times> usize) res" where
  "take_blob p n hl =
    (let (h, len) = hl in
     if n < h + len then Inl Runtime_error
     else if 0x80000000 \<le> len then Inl Length_error
     else rbind (rd_block p (unat h) (unat len)) (\<lambda>bs. Inr (bs, h + len)))"

definition unpack_str :: "bytes \<Rightarrow> usize \<Rightarrow> (bytes \<times> usize) res" where
  "unpack_str p n =
    (if n < 1 then Inl Runtime_error
     else rbind (rd p 0) (\<lambda>t. rbind
       (if t AND 0xe0 = 0xa0 then Inr (1, ucast (t AND 0x1f))
        else if t = 0xd9 then hdr8 p n
        else if t = 0xda then hdr16 p n
        else if t = 0xdb then hdr32 p n
        else Inl Runtime_error)
       (take_blob p n)))"

definition unpack_bin :: "bytes \<Rightarrow> usize \<Rightarrow> (bytes \<times> usize) res" where
  "unpack_bin p n =
    (if n < 1 then Inl Runtime_error
     else rbind (rd p 0) (\<lambda>t. rbind
       (if t = 0xc4 then hdr8 p n
        else if t = 0xc5 then hdr16 p n
        else if t = 0xc6 then hdr32 p n
        else Inl Runtime_error)
       (take_blob p n)))"

text \<open>The two container headers return the element count and the bytes read.\<close>

definition unpack_map_header :: "bytes \<Rightarrow> usize \<Rightarrow> (usize \<times> usize) res" where
  "unpack_map_header p n =
    (if n < 1 then Inl Runtime_error
     else rbind (rd p 0) (\<lambda>t.
       if t AND 0xf0 = 0x80 then Inr (ucast (t AND 0x0f), 1)
       else if t = 0xde then
         (if n < 3 then Inl Runtime_error else rbind (get_be16 p 1) (\<lambda>w. Inr (ucast w, 3)))
       else if t = 0xdf then
         (if n < 5 then Inl Runtime_error else rbind (get_be32 p 1) (\<lambda>w. Inr (w, 5)))
       else Inl Runtime_error))"

definition unpack_array_header :: "bytes \<Rightarrow> usize \<Rightarrow> (usize \<times> usize) res" where
  "unpack_array_header p n =
    (if n < 1 then Inl Runtime_error
     else rbind (rd p 0) (\<lambda>t.
       if t AND 0xf0 = 0x90 then Inr (ucast (t AND 0x0f), 1)
       else if t = 0xdc then
         (if n < 3 then Inl Runtime_error else rbind (get_be16 p 1) (\<lambda>w. Inr (ucast w, 3)))
       else if t = 0xdd then
         (if n < 5 then Inl Runtime_error else rbind (get_be32 p 1) (\<lambda>w. Inr (w, 5)))
       else Inl Runtime_error))"

definition unpack_double :: "bytes \<Rightarrow> usize \<Rightarrow> (u64 \<times> usize) res" where
  "unpack_double p n =
    (if n < 9 then Inl Runtime_error
     else rbind (rd p 0) (\<lambda>t.
       if t \<noteq> 0xcb then Inl Runtime_error
       else rbind (get_be64 p 1) (\<lambda>w. Inr (w, 9))))"

definition unpack_bool :: "bytes \<Rightarrow> usize \<Rightarrow> (bool \<times> usize) res" where
  "unpack_bool p n =
    (if n < 1 then Inl Runtime_error
     else rbind (rd p 0) (\<lambda>t.
       if t = 0xc2 then Inr (False, 1)
       else if t = 0xc3 then Inr (True, 1)
       else Inl Runtime_error))"

text \<open>
  The \<open>double\<close> a number becomes: a float64 or a float32 by its bits, or the conversion of an
  integer (exact below \<open>2 ^ 53\<close>).
\<close>

datatype mpnum = Float64 u64 | Float32 u32 | Of_int int

definition unpack_number :: "bytes \<Rightarrow> usize \<Rightarrow> (mpnum \<times> usize) res" where
  "unpack_number p n =
    (if n < 1 then Inl Runtime_error
     else rbind (rd p 0) (\<lambda>t.
       if t = 0xcb then rbind (unpack_double p n) (\<lambda>(w, k). Inr (Float64 w, k))
       else if t = 0xca then
         (if n < 5 then Inl Runtime_error else rbind (get_be32 p 1) (\<lambda>w. Inr (Float32 w, 5)))
       else if t AND 0xe0 = 0xe0 then Inr (Of_int (sint t), 1)
       else if t = 0xd0 then
         (if n < 2 then Inl Runtime_error else rbind (rd p 1) (\<lambda>b. Inr (Of_int (sint b), 2)))
       else if t = 0xd1 then
         (if n < 3 then Inl Runtime_error else rbind (get_be16 p 1) (\<lambda>w. Inr (Of_int (sint w), 3)))
       else if t = 0xd2 then
         (if n < 5 then Inl Runtime_error else rbind (get_be32 p 1) (\<lambda>w. Inr (Of_int (sint w), 5)))
       else if t = 0xd3 then
         (if n < 9 then Inl Runtime_error else rbind (get_be64 p 1) (\<lambda>w. Inr (Of_int (sint w), 9)))
       else rbind (unpack_uint p n) (\<lambda>(u, k). Inr (Of_int (uint u), k))))"

section \<open>Skipping a value\<close>

text \<open>
  One iteration of a container's loop steps over one nested value at \<open>p + off\<close>, with \<open>n - off\<close>
  bytes left; the subtraction wraps when \<open>off\<close> has passed \<open>n\<close>. A map's loop body does it twice.
\<close>

fun skip_loop :: "(bytes \<Rightarrow> usize \<Rightarrow> usize res) \<Rightarrow> bytes \<Rightarrow> usize \<Rightarrow> nat \<Rightarrow> usize \<Rightarrow> usize res" where
  "skip_loop f p n 0 off = Inr off"
| "skip_loop f p n (Suc k) off =
     rbind (f (drop (unat off) p) (n - off)) (\<lambda>d. skip_loop f p n k (off + d))"

text \<open>The first argument bounds the depth of the recursion: the call stack.\<close>

fun skip_value :: "nat \<Rightarrow> bytes \<Rightarrow> usize \<Rightarrow> usize res" where
  "skip_value 0 p n = Inl Stack_overflow"
| "skip_value (Suc d) p n =
    (if n < 1 then Inl Runtime_error
     else rbind (rd p 0) (\<lambda>t.
       if t = 0xc0 \<or> t = 0xc2 \<or> t = 0xc3 then Inr 1
       else if t AND 0x80 = 0 then Inr 1
       else if t AND 0xe0 = 0xe0 then Inr 1
       else if t = 0xcc \<or> t = 0xd0 then Inr 2
       else if t = 0xcd \<or> t = 0xd1 then Inr 3
       else if t = 0xce \<or> t = 0xd2 \<or> t = 0xca then Inr 5
       else if t = 0xcf \<or> t = 0xd3 \<or> t = 0xcb then Inr 9
       else if t AND 0xe0 = 0xa0 then Inr (1 + ucast (t AND 0x1f))
       else if t = 0xd9 \<or> t = 0xc4 then rbind (hdr8 p n) (\<lambda>(h, len). Inr (h + len))
       else if t = 0xda \<or> t = 0xc5 then rbind (hdr16 p n) (\<lambda>(h, len). Inr (h + len))
       else if t = 0xdb \<or> t = 0xc6 then rbind (hdr32 p n) (\<lambda>(h, len). Inr (h + len))
       else if t AND 0xf0 = 0x90 \<or> t = 0xdc \<or> t = 0xdd then
         rbind (unpack_array_header p n) (\<lambda>(count, off).
           skip_loop (skip_value d) p n (unat count) off)
       else if t AND 0xf0 = 0x80 \<or> t = 0xde \<or> t = 0xdf then
         rbind (unpack_map_header p n) (\<lambda>(count, off).
           skip_loop (skip_value d) p n (2 * unat count) off)
       else Inl Runtime_error))"

definition unpack_one_bin :: "bytes \<Rightarrow> usize \<Rightarrow> (bytes \<times> usize) res" where
  "unpack_one_bin p n =
    (if 1 \<le> n then rbind (rd p 0) (\<lambda>t. if t = 0xc0 then Inr ([], 1) else unpack_bin p n)
     else unpack_bin p n)"

definition unpack_blob_or_object :: "nat \<Rightarrow> bytes \<Rightarrow> usize \<Rightarrow> (bytes \<times> usize) res" where
  "unpack_blob_or_object d p n =
    (if n < 1 then Inl Runtime_error
     else rbind (rd p 0) (\<lambda>t.
       if t = 0xc0 then Inr ([], 1)
       else if t AND 0xe0 = 0xa0 then take_blob p n (1, ucast (t AND 0x1f))
       else if t = 0xd9 \<or> t = 0xc4 then rbind (hdr8 p n) (take_blob p n)
       else if t = 0xda \<or> t = 0xc5 then rbind (hdr16 p n) (take_blob p n)
       else if t = 0xdb \<or> t = 0xc6 then rbind (hdr32 p n) (take_blob p n)
       else rbind (skip_value d p n) (\<lambda>k.
         if k > n then Inl Runtime_error
         else if 0x80000000 \<le> k then Inl Length_error
         else rbind (rd_block p 0 (unat k)) (\<lambda>bs. Inr (bs, k)))))"

section \<open>Tags\<close>

text \<open>
  The small tags carry a length in their low bits. All are checked by evaluation over the range of
  the length, once, and used at every reader.
\<close>

lemma le_15_cases: "n \<le> 15 \<Longrightarrow> \<exists>k < 16. (n :: 'a::len word) = of_nat k"
proof -
  assume n: "n \<le> 15"
  have "unat n \<le> unat (15 :: 'a word)" using n by (simp add: word_le_nat_alt)
  also have "\<dots> \<le> 15" by (metis unat_of_nat of_nat_numeral mod_less_eq_dividend)
  finally show ?thesis by (intro exI [of _ "unat n"]) simp
qed

lemma fix_tags:
  "\<forall>k \<in> set [0..<16].
     (0x90 OR of_nat k :: u8) AND 0xf0 = 0x90 \<and> (0x90 OR of_nat k :: u8) AND 0x0f = of_nat k \<and>
     (0x80 OR of_nat k :: u8) AND 0xf0 = 0x80 \<and> (0x80 OR of_nat k :: u8) AND 0x0f = of_nat k \<and>
     (\<forall>t \<in> set [0x90 OR of_nat k, 0x80 OR of_nat k :: u8].
        t \<notin> set [0xc0, 0xc2, 0xc3, 0xcc, 0xd0, 0xcd, 0xd1, 0xce, 0xd2, 0xca, 0xcf, 0xd3, 0xcb,
                 0xd9, 0xc4, 0xda, 0xc5, 0xdb, 0xc6] \<and>
        t AND 0x80 \<noteq> 0 \<and> t AND 0xe0 \<noteq> 0xe0 \<and> t AND 0xe0 \<noteq> 0xa0)"
  by code_simp

lemma str_tags:
  "\<forall>k \<in> set [0..<32].
     (0xa0 OR of_nat k :: u8) AND 0xe0 = 0xa0 \<and> (0xa0 OR of_nat k :: u8) AND 0x1f = of_nat k \<and>
     (0xa0 OR of_nat k :: u8) \<notin> set [0xc0, 0xc2, 0xc3, 0xcc, 0xd0, 0xcd, 0xd1, 0xce, 0xd2, 0xca,
        0xcf, 0xd3, 0xcb] \<and>
     (0xa0 OR of_nat k :: u8) AND 0x80 \<noteq> 0"
  by code_simp

lemma fix_array_tag: "k < 16 \<Longrightarrow> (0x90 OR of_nat k :: u8) AND 0xf0 = 0x90"
  and fix_array_len: "k < 16 \<Longrightarrow> (0x90 OR of_nat k :: u8) AND 0x0f = of_nat k"
  and fix_map_tag: "k < 16 \<Longrightarrow> (0x80 OR of_nat k :: u8) AND 0xf0 = 0x80"
  and fix_map_len: "k < 16 \<Longrightarrow> (0x80 OR of_nat k :: u8) AND 0x0f = of_nat k"
  using fix_tags by simp_all

lemma fix_box_not:
  "k < 16 \<Longrightarrow> t \<in> set [0x90 OR of_nat k, 0x80 OR of_nat k :: u8] \<Longrightarrow>
   t \<notin> set [0xc0, 0xc2, 0xc3, 0xcc, 0xd0, 0xcd, 0xd1, 0xce, 0xd2, 0xca, 0xcf, 0xd3, 0xcb,
            0xd9, 0xc4, 0xda, 0xc5, 0xdb, 0xc6] \<and>
   t AND 0x80 \<noteq> 0 \<and> t AND 0xe0 \<noteq> 0xe0 \<and> t AND 0xe0 \<noteq> 0xa0"
  using fix_tags by (metis atLeastLessThan_iff le0 set_upt)

lemma fix_str_tag: "k < 32 \<Longrightarrow> (0xa0 OR of_nat k :: u8) AND 0xe0 = 0xa0"
  and fix_str_len: "k < 32 \<Longrightarrow> (0xa0 OR of_nat k :: u8) AND 0x1f = of_nat k"
  and fix_str_not: "k < 32 \<Longrightarrow> (0xa0 OR of_nat k :: u8) \<notin> set [0xc0, 0xc2, 0xc3, 0xcc, 0xd0, 0xcd,
        0xd1, 0xce, 0xd2, 0xca, 0xcf, 0xd3, 0xcb]"
  and fix_str_high: "k < 32 \<Longrightarrow> (0xa0 OR of_nat k :: u8) AND 0x80 \<noteq> 0"
  using str_tags by simp_all

lemmas fix_simps = fix_array_tag fix_array_len fix_map_tag fix_map_len
  fix_str_tag fix_str_len

lemma ucast_of_nat_small:
  "k < 2 ^ LENGTH('a) \<Longrightarrow> (ucast (of_nat k :: 'a::len word) :: 'b::len word) = of_nat k"
  by (simp add: unsigned_of_nat take_bit_nat_eq_self)

section \<open>Reading back what a packer wrote\<close>

lemma hdr8_hit [simp]: "2 \<le> unat n \<Longrightarrow> hdr8 (t # b # rest) n = Inr (2, ucast b)"
  by (simp add: hdr8_def word_less_nat_alt)

lemma hdr16_hit [simp]: "3 \<le> unat n \<Longrightarrow> hdr16 (t # put_be16 v @ rest) n = Inr (3, ucast v)"
  by (simp add: hdr16_def word_less_nat_alt)

lemma hdr32_hit [simp]: "5 \<le> unat n \<Longrightarrow> hdr32 (t # put_be32 v @ rest) n = Inr (5, v)"
  by (simp add: hdr32_def word_less_nat_alt)

lemma take_blob_hit:
  assumes "h + length bs \<le> unat n" and "length bs < 2 ^ 31" and "length pre = h"
  shows "take_blob (pre @ bs @ rest) n (of_nat h, of_nat (length bs)) =
         Inr (bs, of_nat (h + length bs))"
proof -
  have lt: "h + length bs < 2 ^ 32"
    using assms(1) unat_less [of n] by simp
  then have u: "unat (of_nat h :: usize) = h" "unat (of_nat (length bs) :: usize) = length bs"
    "unat (of_nat h + of_nat (length bs) :: usize) = h + length bs"
    using of_nat_unat_less [where 'a = 32, of "h + length bs"] by (simp_all add: of_nat_unat_less)
  have "\<not> n < of_nat h + of_nat (length bs)" using assms(1) u(3) by (simp add: word_less_nat_alt)
  moreover have "\<not> (0x80000000 :: usize) \<le> of_nat (length bs)"
    using assms(2) u(2) by (simp add: word_le_nat_alt)
  ultimately show ?thesis
    using assms(3) u by (simp add: take_blob_def)
qed

lemmas take_blob_1 = take_blob_hit [of 1 _ _ "[t]" for t, simplified]
lemmas take_blob_2 = take_blob_hit [of 2 _ _ "[t, b]" for t b, simplified]
lemmas take_blob_3 = take_blob_hit [of 3 _ _ "t # put_be16 v" for t v, simplified]
lemmas take_blob_5 = take_blob_hit [of 5 _ _ "t # put_be32 v" for t v, simplified]
lemmas take_blobs = take_blob_1 take_blob_2 take_blob_3 take_blob_5

lemma length_pack_bin:
  "length (pack_bin d) = length d + (if length d \<le> 255 then 2 else if length d \<le> 65535 then 3 else 5)"
  by (simp add: pack_bin_def Let_def)

lemma length_pack_str:
  "length (pack_str d) = length d +
     (if length d \<le> 31 then 1 else if length d \<le> 255 then 2 else if length d \<le> 65535 then 3 else 5)"
  by (simp add: pack_str_def Let_def)

lemma unpack_pack_bin:
  assumes "length d < 2 ^ 31" and "length (pack_bin d) \<le> unat n"
  shows "unpack_bin (pack_bin d @ rest) n = Inr (d, of_nat (length (pack_bin d)))"
  using assms
  by (simp add: unpack_bin_def length_pack_bin pack_bin_def Let_def word_less_nat_alt
      ucast_of_nat_small take_blobs split: if_splits)

lemma unpack_pack_str:
  assumes "length d < 2 ^ 31" and "length (pack_str d) \<le> unat n"
  shows "unpack_str (pack_str d @ rest) n = Inr (d, of_nat (length (pack_str d)))"
proof (cases "length d \<le> 31")
  case True
  with assms show ?thesis
    by (simp add: unpack_str_def length_pack_str pack_str_def Let_def word_less_nat_alt
        ucast_of_nat_small take_blobs fix_simps)
next
  case False
  with assms show ?thesis
    by (simp add: unpack_str_def length_pack_str pack_str_def Let_def word_less_nat_alt
        ucast_of_nat_small take_blobs split: if_splits)
qed

text \<open>Narrowing an integer that fits and widening it again gives it back.\<close>

lemma ucast_back:
  fixes v :: "'a::len word"
  assumes "unat v < 2 ^ LENGTH('b::len)"
  shows "(ucast (ucast v :: 'b word) :: 'a word) = v"
proof -
  have "(ucast (of_nat (unat v) :: 'b word) :: 'a word) = of_nat (unat v)"
    using assms by (rule ucast_of_nat_small)
  then show ?thesis by simp
qed

lemma sint_ucast_back:
  fixes v :: "'a::len word"
  assumes "LENGTH('b::len) \<le> LENGTH('a)"
    and "- (2 ^ (LENGTH('b) - 1)) \<le> sint v" and "sint v < 2 ^ (LENGTH('b) - 1)"
  shows "sint (ucast v :: 'b word) = sint v"
proof -
  have "sint (ucast v :: 'b word) = signed_take_bit (LENGTH('b) - 1) (uint v)"
    by (simp add: sint_uint unsigned_ucast_eq unsigned_take_bit_eq signed_take_bit_take_bit)
  also have "\<dots> = signed_take_bit (LENGTH('b) - 1) (sint v)"
    using assms(1) by (simp add: sint_uint signed_take_bit_signed_take_bit min_def)
  also have "\<dots> = sint v" using assms(2,3) by (simp add: signed_take_bit_int_eq_self)
  finally show ?thesis .
qed

lemma fixint_tags: "\<forall>k \<in> set [0..<128]. (of_nat k :: u8) AND 0x80 = 0"
  by code_simp

lemma fixint_tag: "unat v < 128 \<Longrightarrow> (ucast v :: u8) AND 0x80 = 0"
proof -
  assume "unat v < 128"
  then have "unat v \<in> set [0..<128]" by simp
  from bspec [OF fixint_tags this] show ?thesis by simp
qed

lemma negint_tags:
  "\<forall>k \<in> set [0..<32]. (0xe0 OR of_nat k :: u8) AND 0xe0 = 0xe0 \<and>
     sint (0xe0 OR of_nat k :: u8) = int k - 32 \<and>
     (0xe0 OR of_nat k :: u8) \<notin> set [0xcb, 0xca]"
  by code_simp

lemma unpack_pack_uint:
  assumes "length (pack_uint v) \<le> unat n"
  shows "unpack_uint (pack_uint v @ rest) n = Inr (v, of_nat (length (pack_uint v)))"
proof (cases "v \<le> 0x7f")
  case True
  with assms show ?thesis
    by (simp add: unpack_uint_def pack_uint_def word_less_nat_alt word_le_nat_alt fixint_tag ucast_back)
next
  case False
  with assms show ?thesis
    by (simp add: unpack_uint_def pack_uint_def word_less_nat_alt word_le_nat_alt ucast_back
        split: if_splits)
qed

lemma unpack_pack_array:
  assumes "length (pack_array_header c) \<le> unat n"
  shows "unpack_array_header (pack_array_header c @ rest) n =
    Inr (c, of_nat (length (pack_array_header c)))"
proof (cases "c \<le> 15")
  case True
  then obtain k where "k < 16" "c = of_nat k" using le_15_cases by blast
  with assms show ?thesis
    by (simp add: unpack_array_header_def pack_array_header_def word_less_nat_alt word_le_nat_alt
        of_nat_unat_less ucast_of_nat_small fix_simps)
next
  case False
  with assms show ?thesis
    by (simp add: unpack_array_header_def pack_array_header_def word_less_nat_alt word_le_nat_alt
        ucast_back split: if_splits)
qed

lemma unpack_pack_map:
  assumes "length (pack_map_header c) \<le> unat n"
  shows "unpack_map_header (pack_map_header c @ rest) n =
    Inr (c, of_nat (length (pack_map_header c)))"
proof (cases "c \<le> 15")
  case True
  then obtain k where "k < 16" "c = of_nat k" using le_15_cases by blast
  with assms show ?thesis
    by (simp add: unpack_map_header_def pack_map_header_def word_less_nat_alt word_le_nat_alt
        of_nat_unat_less ucast_of_nat_small fix_simps)
next
  case False
  with assms show ?thesis
    by (simp add: unpack_map_header_def pack_map_header_def word_less_nat_alt word_le_nat_alt
        ucast_back split: if_splits)
qed

lemma length_pack_double [simp]: "length (pack_double v) = 9"
  by (simp add: pack_double_def)

lemma length_pack_bool [simp]: "length (pack_bool v) = 1"
  by (simp add: pack_bool_def)

lemma unpack_pack_double:
  "9 \<le> unat n \<Longrightarrow> unpack_double (pack_double v @ rest) n = Inr (v, 9)"
  by (simp add: unpack_double_def pack_double_def word_less_nat_alt)

lemma unpack_pack_bool:
  "1 \<le> unat n \<Longrightarrow> unpack_bool (pack_bool v @ rest) n = Inr (v, 1)"
  by (simp add: unpack_bool_def pack_bool_def word_less_nat_alt)

lemmas unpack_pack = unpack_pack_uint unpack_pack_array unpack_pack_map unpack_pack_double
  unpack_pack_bool unpack_pack_bin unpack_pack_str

section \<open>Skipping an encoded value\<close>

text \<open>The values of the format, and their encoding by the packers: the specification of a skip.\<close>

datatype mpv =
    MNil
  | MBool bool
  | MUint u64
  | MInt u64
  | MFloat u32
  | MDouble u64
  | MStr bytes
  | MBin bytes
  | MArr "mpv list"
  | MMap "(mpv \<times> mpv) list"

fun mp_enc :: "mpv \<Rightarrow> bytes" where
  "mp_enc MNil = pack_nil"
| "mp_enc (MBool b) = pack_bool b"
| "mp_enc (MUint v) = pack_uint v"
| "mp_enc (MInt v) = pack_int v"
| "mp_enc (MFloat v) = 0xca # put_be32 v"
| "mp_enc (MDouble v) = pack_double v"
| "mp_enc (MStr s) = pack_str s"
| "mp_enc (MBin d) = pack_bin d"
| "mp_enc (MArr vs) = pack_array_header (of_nat (length vs)) @ concat (map mp_enc vs)"
| "mp_enc (MMap kvs) = pack_map_header (of_nat (length kvs)) @
     concat (map (\<lambda>(k, v). mp_enc k @ mp_enc v) kvs)"

fun mp_depth :: "mpv \<Rightarrow> nat" where
  "mp_depth (MArr vs) = Suc (foldr max (map mp_depth vs) 0)"
| "mp_depth (MMap kvs) = Suc (foldr max (map (\<lambda>(k, v). max (mp_depth k) (mp_depth v)) kvs) 0)"
| "mp_depth v = 1"

lemma skip_box:
  "k < 16 \<Longrightarrow> 1 \<le> unat n \<Longrightarrow>
     skip_value (Suc d) ((0x90 OR of_nat k) # rest) n =
     skip_loop (skip_value d) ((0x90 OR of_nat k) # rest) n k 1"
  "k < 16 \<Longrightarrow> 1 \<le> unat n \<Longrightarrow>
     skip_value (Suc d) ((0x80 OR of_nat k) # rest) n =
     skip_loop (skip_value d) ((0x80 OR of_nat k) # rest) n (2 * k) 1"
proof -
  assume k: "k < 16" and n: "1 \<le> unat n"
  note not_90 = fix_box_not [OF k, of "0x90 OR of_nat k", simplified]
  note not_80 = fix_box_not [OF k, of "0x80 OR of_nat k", simplified]
  have no_clash: "(0x80 OR of_nat k :: u8) AND 0xf0 \<noteq> 0x90 \<and>
      (0x80 OR of_nat k :: u8) \<noteq> 0xdc \<and> (0x80 OR of_nat k :: u8) \<noteq> 0xdd"
    using fix_map_tag [OF k] by auto
  have c: "unat (ucast (of_nat k :: u8) :: usize) = k"
    using k by (simp add: ucast_of_nat_small of_nat_unat_less)
  show "skip_value (Suc d) ((0x90 OR of_nat k) # rest) n =
     skip_loop (skip_value d) ((0x90 OR of_nat k) # rest) n k 1"
    using not_90 k n c
    by (simp add: fix_simps unpack_array_header_def word_less_nat_alt)
  show "skip_value (Suc d) ((0x80 OR of_nat k) # rest) n =
     skip_loop (skip_value d) ((0x80 OR of_nat k) # rest) n (2 * k) 1"
    using not_80 no_clash k n c
    by (simp add: fix_simps unpack_map_header_def word_less_nat_alt)
qed

lemma skip_array_header:
  assumes "length (pack_array_header c) \<le> unat n"
  shows "skip_value (Suc d) (pack_array_header c @ rest) n =
    skip_loop (skip_value d) (pack_array_header c @ rest) n (unat c)
      (of_nat (length (pack_array_header c)))"
proof (cases "c \<le> 15")
  case True
  then obtain k where "k < 16" "c = of_nat k" using le_15_cases by blast
  with assms True show ?thesis
    by (simp add: pack_array_header_def skip_box ucast_of_nat_small of_nat_unat_less del: skip_value.simps)
next
  case False
  with assms show ?thesis
    by (simp add: unpack_array_header_def pack_array_header_def word_less_nat_alt word_le_nat_alt
        ucast_back split: if_splits)
qed

lemma skip_map_header:
  assumes "length (pack_map_header c) \<le> unat n"
  shows "skip_value (Suc d) (pack_map_header c @ rest) n =
    skip_loop (skip_value d) (pack_map_header c @ rest) n (2 * unat c)
      (of_nat (length (pack_map_header c)))"
proof (cases "c \<le> 15")
  case True
  then obtain k where "k < 16" "c = of_nat k" using le_15_cases by blast
  with assms True show ?thesis
    by (simp add: pack_map_header_def skip_box ucast_of_nat_small of_nat_unat_less del: skip_value.simps)
next
  case False
  with assms show ?thesis
    by (simp add: unpack_map_header_def pack_map_header_def word_less_nat_alt word_le_nat_alt
        ucast_back split: if_splits)
qed

lemma skip_uint:
  assumes "length (pack_uint v) \<le> unat n"
  shows "skip_value (Suc d) (pack_uint v @ rest) n = Inr (of_nat (length (pack_uint v)))"
proof (cases "v \<le> 0x7f")
  case True
  with assms show ?thesis
    by (simp add: pack_uint_def word_less_nat_alt word_le_nat_alt fixint_tag)
next
  case False
  with assms show ?thesis
    by (simp add: pack_uint_def word_less_nat_alt word_le_nat_alt split: if_splits)
qed

lemma negint_form:
  fixes v :: u64
  assumes "-32 \<le> sint v" and "sint v < 0"
  obtains k where "k < 32" and "int k = sint v + 32" and "(ucast (v + 32) :: u8) = of_nat k"
proof -
  define k where "k = nat (sint v + 32)"
  have k: "k < 32" "int k = sint v + 32" using assms by (auto simp: k_def)
  have "v + 32 = of_int (sint v + 32)" by simp
  also have "\<dots> = of_nat k" using k(2) by (metis of_int_of_nat_eq)
  finally have "(ucast (v + 32) :: u8) = of_nat k" using k(1) by (simp add: ucast_of_nat_small)
  with k show ?thesis using that by blast
qed

lemma negint_tag:
  fixes v :: u64
  assumes "-32 \<le> sint v" and "sint v < 0"
  shows "(0xe0 OR ucast (v + 32) :: u8) AND 0xe0 = 0xe0"
    and "sint (0xe0 OR ucast (v + 32) :: u8) = sint v"
    and "0xe0 OR ucast (v + 32) \<notin> set [0xcb, 0xca :: u8]"
proof -
  obtain k where k: "k < 32" "int k = sint v + 32" "(ucast (v + 32) :: u8) = of_nat k"
    using negint_form [OF assms] by blast
  then have "k \<in> set [0..<32]" by simp
  from bspec [OF negint_tags this] k
  show "(0xe0 OR ucast (v + 32) :: u8) AND 0xe0 = 0xe0"
    and "sint (0xe0 OR ucast (v + 32) :: u8) = sint v"
    and "0xe0 OR ucast (v + 32) \<notin> set [0xcb, 0xca :: u8]"
    by auto
qed

lemma skip_int:
  assumes "length (pack_int v) \<le> unat n"
  shows "skip_value (Suc d) (pack_int v @ rest) n = Inr (of_nat (length (pack_int v)))"
proof (cases "0 \<le> sint v")
  case True
  then show ?thesis using assms skip_uint [of v n d rest] by (simp add: pack_int_def)
next
  case False
  show ?thesis
  proof (cases "-32 \<le> sint v")
    case True
    let ?t = "0xe0 OR ucast (v + 32) :: u8"
    have t: "?t AND 0xe0 = 0xe0" using negint_tag(1) True False by simp
    have "rd (?t # rest) 0 = Inr ?t" by simp
    then show ?thesis using assms False True t
      by (auto simp: pack_int_def word_less_nat_alt)
  next
    case False
    with \<open>\<not> 0 \<le> sint v\<close> assms show ?thesis
      by (simp add: pack_int_def word_less_nat_alt split: if_splits)
  qed
qed

lemma skip_str:
  assumes "length (pack_str s) \<le> unat n"
  shows "skip_value (Suc d) (pack_str s @ rest) n = Inr (of_nat (length (pack_str s)))"
proof (cases "length s \<le> 31")
  case True
  then have k: "length s < 32" by simp
  have "(0xa0 OR of_nat (length s) :: u8) AND 0xe0 \<noteq> 0xe0" using fix_str_tag [OF k] by auto
  with assms True fix_str_not [OF k] fix_str_high [OF k] show ?thesis
    by (simp add: length_pack_str pack_str_def Let_def word_less_nat_alt fix_simps ucast_of_nat_small)
next
  case False
  with assms show ?thesis
    by (simp add: length_pack_str pack_str_def Let_def word_less_nat_alt ucast_of_nat_small
        split: if_splits)
qed

lemma skip_bin:
  assumes "length (pack_bin s) \<le> unat n"
  shows "skip_value (Suc d) (pack_bin s @ rest) n = Inr (of_nat (length (pack_bin s)))"
  using assms
  by (simp add: length_pack_bin pack_bin_def Let_def word_less_nat_alt ucast_of_nat_small
      split: if_splits)

lemma skip_loop_concat:
  assumes "\<And>e rest' m. e \<in> set es \<Longrightarrow> length e \<le> unat m \<Longrightarrow> f (e @ rest') m = Inr (of_nat (length e))"
    and "length pre + length (concat es) \<le> unat n"
  shows "skip_loop f (pre @ concat es @ rest) n (length es) (of_nat (length pre)) =
    Inr (of_nat (length pre + length (concat es)))"
  using assms
proof (induction es arbitrary: pre)
  case Nil
  then show ?case by simp
next
  case (Cons e es)
  have pre: "length pre < 2 ^ 32" using Cons.prems(2) unat_less [of n] by simp
  have u: "unat (of_nat (length pre) :: usize) = length pre"
    using pre by (simp add: of_nat_unat_less)
  then have le: "of_nat (length pre) \<le> n" using Cons.prems(2) by (simp add: word_le_nat_alt)
  have m: "unat (n - of_nat (length pre)) = unat n - length pre"
    using u le by (simp add: unat_sub)
  have hit: "f (e @ concat es @ rest) (n - of_nat (length pre)) = Inr (of_nat (length e))"
    using Cons.prems m by simp
  have "skip_loop f ((pre @ e) @ concat es @ rest) n (length es) (of_nat (length (pre @ e))) =
    Inr (of_nat (length (pre @ e) + length (concat es)))"
    by (rule Cons.IH) (use Cons.prems in auto)
  then show ?case using hit u by (simp add: add.assoc)
qed

lemma concat_pairs:
  "concat (map (\<lambda>(k, v). f k @ f v) kvs) = concat (map f (concat (map (\<lambda>(k, v). [k, v]) kvs)))"
  by (induction kvs) auto

lemma length_pairs: "length (concat (map (\<lambda>(k, v). [k, v]) kvs)) = 2 * length kvs"
  by (induction kvs) auto

lemma length_pack_pos: "1 \<le> length (pack_uint v)" "1 \<le> length (pack_int v)"
  "1 \<le> length (pack_array_header c)" "1 \<le> length (pack_map_header c)"
  "1 \<le> length (pack_str s)" "1 \<le> length (pack_bin s)"
  by (simp_all add: pack_uint_def pack_int_def pack_array_header_def pack_map_header_def
      length_pack_str length_pack_bin)

lemma mp_enc_pos: "1 \<le> length (mp_enc v)"
proof (cases v)
  case (MArr vs)
  then show ?thesis using length_pack_pos(3) [of "of_nat (length vs)"] by simp
next
  case (MMap kvs)
  then show ?thesis using length_pack_pos(4) [of "of_nat (length kvs)"] by simp
qed (use length_pack_pos in \<open>auto simp: pack_nil_def pack_bool_def pack_double_def\<close>)

lemma length_le_concat: "(\<And>v. v \<in> set vs \<Longrightarrow> 1 \<le> length (f v)) \<Longrightarrow> length vs \<le> length (concat (map f vs))"
  by (induction vs) (auto, force)

lemma foldr_max_le: "foldr max xs (0::nat) \<le> d \<longleftrightarrow> (\<forall>x \<in> set xs. x \<le> d)"
  by (induction xs) auto

lemma skip_enc:
  "mp_depth v \<le> d \<Longrightarrow> length (mp_enc v) \<le> unat n \<Longrightarrow>
   skip_value d (mp_enc v @ rest) n = Inr (of_nat (length (mp_enc v)))"
proof (induction d arbitrary: v n rest)
  case 0
  then show ?case by (cases v) auto
next
  case (Suc d)
  show ?case
  proof (cases v)
    case (MArr vs)
    let ?h = "pack_array_header (of_nat (length vs))" and ?es = "map mp_enc vs"
    have len: "length ?h + length (concat ?es) \<le> unat n" using Suc.prems(2) MArr by simp
    have "length vs < 2 ^ 32"
      using len length_le_concat [of vs mp_enc] mp_enc_pos unat_less [of n] by fastforce
    then have c: "unat (of_nat (length vs) :: usize) = length ?es" by (simp add: of_nat_unat_less)
    have "skip_loop (skip_value d) (?h @ concat ?es @ rest) n (length ?es) (of_nat (length ?h)) =
      Inr (of_nat (length ?h + length (concat ?es)))"
    proof (rule skip_loop_concat [OF _ len])
      fix e rest' and m :: usize
      assume "e \<in> set ?es" "length e \<le> unat m"
      then show "skip_value d (e @ rest') m = Inr (of_nat (length e))"
        using Suc.IH Suc.prems(1) MArr by (auto simp: foldr_max_le)
    qed
    then show ?thesis using MArr len c by (simp add: skip_array_header del: skip_value.simps)
  next
    case (MMap kvs)
    let ?h = "pack_map_header (of_nat (length kvs))"
    let ?vs = "concat (map (\<lambda>(k, v). [k, v]) kvs)"
    let ?es = "map mp_enc ?vs"
    have enc: "mp_enc v = ?h @ concat ?es" using MMap by (simp add: concat_pairs)
    have len: "length ?h + length (concat ?es) \<le> unat n" using Suc.prems(2) enc by simp
    have "2 * length kvs < 2 ^ 32"
      using len length_le_concat [of ?vs mp_enc] mp_enc_pos unat_less [of n]
      by (fastforce simp: length_pairs)
    then have c: "2 * unat (of_nat (length kvs) :: usize) = length ?es"
      by (simp add: of_nat_unat_less length_pairs)
    have dep: "mp_depth w \<le> d" if "w \<in> set ?vs" for w
      using Suc.prems(1) MMap that by (auto simp: foldr_max_le)
    have "skip_loop (skip_value d) (?h @ concat ?es @ rest) n (length ?es) (of_nat (length ?h)) =
      Inr (of_nat (length ?h + length (concat ?es)))"
    proof (rule skip_loop_concat [OF _ len])
      fix e rest' and m :: usize
      assume e: "e \<in> set ?es" "length e \<le> unat m"
      then obtain w where "w \<in> set ?vs" "e = mp_enc w" by auto
      then show "skip_value d (e @ rest') m = Inr (of_nat (length e))"
        using Suc.IH [OF dep] e(2) by blast
    qed
    then show ?thesis using len c unfolding enc
      by (simp add: skip_map_header del: skip_value.simps)
  qed (use Suc.prems in \<open>auto simp: skip_uint skip_int skip_str skip_bin pack_nil_def pack_bool_def
      pack_double_def word_less_nat_alt simp del: skip_value.simps, auto simp: word_less_nat_alt\<close>)
qed

section \<open>The round-trip contract\<close>

definition payload_view :: "mpv \<Rightarrow> bytes" where
  "payload_view v = (case v of MNil \<Rightarrow> [] | MStr s \<Rightarrow> s | MBin b \<Rightarrow> b | _ \<Rightarrow> mp_enc v)"

definition skip_unit :: "nat \<Rightarrow> bytes \<Rightarrow> usize \<Rightarrow> (unit \<times> usize) res" where
  "skip_unit d p n = rbind (skip_value d p n) (\<lambda>k. Inr ((), k))"

text \<open>A payload element that is no blob: its tag leaves \<open>unpack_blob_or_object\<close> no blob branch.\<close>

definition blob_tag :: "u8 \<Rightarrow> bool" where
  "blob_tag t \<longleftrightarrow> t = 0xc0 \<or> t AND 0xe0 = 0xa0 \<or> t \<in> set [0xd9, 0xc4, 0xda, 0xc5, 0xdb, 0xc6]"

lemma not_blob_box:
  "k < 16 \<Longrightarrow> \<not> blob_tag (0x90 OR of_nat k)" "k < 16 \<Longrightarrow> \<not> blob_tag (0x80 OR of_nat k)"
  using fix_box_not [of k "0x90 OR of_nat k"] fix_box_not [of k "0x80 OR of_nat k"]
  by (simp_all add: blob_tag_def)

lemma not_blob_headers:
  "\<not> blob_tag (hd (pack_array_header c @ rest))" "\<not> blob_tag (hd (pack_map_header c @ rest))"
proof -
  have *: "\<not> blob_tag (0x90 OR ucast c)" "\<not> blob_tag (0x80 OR ucast c)" if le: "c \<le> 15"
  proof -
    obtain k where k: "k < 16" "c = of_nat k" using le_15_cases [OF le] by blast
    then show "\<not> blob_tag (0x90 OR ucast c)" "\<not> blob_tag (0x80 OR ucast c)"
      using not_blob_box by (simp_all add: ucast_of_nat_small)
  qed
  show "\<not> blob_tag (hd (pack_array_header c @ rest))" "\<not> blob_tag (hd (pack_map_header c @ rest))"
    using * by (auto simp: pack_array_header_def pack_map_header_def) (simp_all add: blob_tag_def)
qed

lemma fixint_tags_blob: "\<forall>k \<in> set [0..<128]. \<not> blob_tag (of_nat k)"
  by code_simp

lemma negint_tags_blob: "\<forall>k \<in> set [0..<32]. \<not> blob_tag (0xe0 OR of_nat k)"
  by code_simp

lemma not_blob_uint: "\<not> blob_tag (hd (pack_uint v @ rest))"
proof (cases "v \<le> 0x7f")
  case True
  then have "unat v \<in> set [0..<128]" by (simp add: word_le_nat_alt)
  from bspec [OF fixint_tags_blob this] True show ?thesis by (simp add: pack_uint_def)
qed (simp add: pack_uint_def blob_tag_def)

lemma not_blob_int: "\<not> blob_tag (hd (pack_int v @ rest))"
proof -
  have *: "\<not> blob_tag (0xe0 OR ucast (v + 32))" if neg: "-32 \<le> sint v" "sint v < 0"
  proof -
    obtain k where k: "k < 32" "(ucast (v + 32) :: u8) = of_nat k"
      using negint_form [OF neg] by blast
    then have "k \<in> set [0..<32]" by simp
    from bspec [OF negint_tags_blob this] k(2) show ?thesis by simp
  qed
  show ?thesis using not_blob_uint [of v rest] * by (simp add: pack_int_def) (simp add: blob_tag_def)
qed

lemma unpack_object:
  assumes "\<not> blob_tag (hd (mp_enc v))" and "mp_depth v \<le> d"
    and "length (mp_enc v) \<le> unat n" and "length (mp_enc v) < 2 ^ 31"
  shows "unpack_blob_or_object d (mp_enc v @ rest) n = Inr (mp_enc v, of_nat (length (mp_enc v)))"
proof -
  obtain t bs where t: "mp_enc v = t # bs" using mp_enc_pos [of v] by (cases "mp_enc v") auto
  have u: "unat (of_nat (length (mp_enc v)) :: usize) = length (mp_enc v)"
    using assms(4) by (simp add: of_nat_unat_less)
  have "\<not> of_nat (length (mp_enc v)) > n" "\<not> (0x80000000 :: usize) \<le> of_nat (length (mp_enc v))"
    using u assms(3,4) by (simp_all add: word_less_nat_alt word_le_nat_alt)
  moreover have "skip_value d (t # bs @ rest) n = Inr (of_nat (length (mp_enc v)))"
    using skip_enc [OF assms(2,3), of rest] t by simp
  moreover have "rd_block (t # bs @ rest) 0 (length (mp_enc v)) = Inr (mp_enc v)"
    using t by simp
  moreover have "\<not> n < 1" using assms(3) t by (simp add: word_less_nat_alt)
  ultimately show ?thesis
    using assms(1) u t by (simp add: unpack_blob_or_object_def blob_tag_def)
qed

lemma unpack_payload:
  assumes "mp_depth v \<le> d" and "length (mp_enc v) \<le> unat n" and "length (mp_enc v) < 2 ^ 31"
  shows "unpack_blob_or_object d (mp_enc v @ rest) n =
    Inr (payload_view v, of_nat (length (mp_enc v)))"
proof (cases v)
  case MNil
  with assms show ?thesis
    by (simp add: unpack_blob_or_object_def payload_view_def pack_nil_def word_less_nat_alt)
next
  case (MStr s)
  show ?thesis
  proof (cases "length s \<le> 31")
    case True
    with assms MStr show ?thesis using fix_str_not [of "length s"]
      by (simp add: unpack_blob_or_object_def payload_view_def length_pack_str pack_str_def Let_def
        word_less_nat_alt ucast_of_nat_small take_blobs fix_simps)
  next
    case False
    with assms MStr show ?thesis
      by (simp add: unpack_blob_or_object_def payload_view_def length_pack_str pack_str_def Let_def
        word_less_nat_alt ucast_of_nat_small take_blobs split: if_splits)
  qed
next
  case (MBin s)
  with assms show ?thesis
    by (simp add: unpack_blob_or_object_def payload_view_def length_pack_bin pack_bin_def Let_def
        word_less_nat_alt ucast_of_nat_small take_blobs split: if_splits)
qed (use assms unpack_object [of v d n rest] not_blob_headers not_blob_uint [of _ "[]"]
      not_blob_int [of _ "[]"] in
      \<open>simp_all add: payload_view_def pack_bool_def pack_double_def blob_tag_def\<close>)

interpretation uint_codec: wire_codec pack_uint unpack_uint id "\<lambda>_. True"
  by unfold_locales (simp add: unpack_pack_uint)

interpretation double_codec: wire_codec pack_double unpack_double id "\<lambda>_. True"
  by unfold_locales (simp add: unpack_pack_double)

interpretation bool_codec: wire_codec pack_bool unpack_bool id "\<lambda>_. True"
  by unfold_locales (simp add: unpack_pack_bool)

interpretation bin_codec: wire_codec pack_bin unpack_bin id "\<lambda>d. length d < 2 ^ 31"
  by unfold_locales (simp add: unpack_pack_bin)

interpretation str_codec: wire_codec pack_str unpack_str id "\<lambda>d. length d < 2 ^ 31"
  by unfold_locales (simp add: unpack_pack_str)

interpretation array_codec: wire_codec pack_array_header unpack_array_header id "\<lambda>_. True"
  by unfold_locales (simp add: unpack_pack_array)

interpretation map_codec: wire_codec pack_map_header unpack_map_header id "\<lambda>_. True"
  by unfold_locales (simp add: unpack_pack_map)

interpretation skip_codec: wire_codec mp_enc "skip_unit d" "\<lambda>_. ()" "\<lambda>v. mp_depth v \<le> d" for d
  by unfold_locales (simp add: skip_unit_def skip_enc)

interpretation payload_codec: wire_codec mp_enc "unpack_blob_or_object d" payload_view
    "\<lambda>v. mp_depth v \<le> d \<and> length (mp_enc v) < 2 ^ 31" for d
  by unfold_locales (simp add: unpack_payload)

section \<open>Numbers\<close>

definition number_tags :: "u8 list" where
  "number_tags = [0xcb, 0xca, 0xd0, 0xd1, 0xd2, 0xd3]"

lemma number_uint_sint: "0 \<le> sint v \<Longrightarrow> uint v = sint v" for v :: u64
  using sint_less [of v] by (simp add: uint_sint take_bit_int_eq_self)

lemma fixint_number_tags:
  "\<forall>k \<in> set [0..<128]. of_nat k \<notin> set number_tags \<and> (of_nat k :: u8) AND 0xe0 \<noteq> 0xe0"
  unfolding number_tags_def by code_simp

lemma number_uint_tag:
  obtains t bs where "pack_uint v = t # bs" "t \<notin> set number_tags" "t AND 0xe0 \<noteq> 0xe0"
proof (cases "v \<le> 0x7f")
  case True
  then have "unat v \<in> set [0..<128]" by (simp add: word_le_nat_alt)
  from bspec [OF fixint_number_tags this] True show ?thesis
    by (intro that [of "ucast v" "[]"]) (simp_all add: pack_uint_def)
next
  case False
  then show ?thesis
    by (intro that [of "hd (pack_uint v)" "tl (pack_uint v)"])
      (simp_all add: pack_uint_def number_tags_def)
qed

lemma number_negative:
  assumes "sint v < 0" and "length (pack_int v) \<le> unat n"
  shows "unpack_number (pack_int v @ rest) n = Inr (Of_int (sint v), of_nat (length (pack_int v)))"
proof (cases "-32 \<le> sint v")
  case True
  note t = negint_tag [OF True assms(1)]
  show ?thesis
    using assms True t by (simp add: pack_int_def unpack_number_def word_less_nat_alt)
next
  case False
  with assms show ?thesis
    by (simp add: pack_int_def unpack_number_def word_less_nat_alt sint_ucast_back split: if_splits)
qed

text \<open>an integer of any sign packed by \<open>pack_int\<close> reads back as a number with the same value,
  whichever of the eight encodings was chosen, and the reader consumes exactly what was written.\<close>

lemma pack_int_number:
  assumes "length (pack_int v) \<le> unat n"
  shows "unpack_number (pack_int v @ rest) n = Inr (Of_int (sint v), of_nat (length (pack_int v)))"
proof (cases "0 \<le> sint v")
  case True
  then have eq: "uint v = sint v" by (rule number_uint_sint)
  have "unpack_uint (pack_uint v @ rest) n = Inr (v, of_nat (length (pack_uint v)))"
    using assms True by (intro unpack_pack_uint) (simp add: pack_int_def)
  moreover obtain t bs where "pack_uint v = t # bs" "t \<notin> set number_tags" "t AND 0xe0 \<noteq> 0xe0"
    by (rule number_uint_tag)
  moreover have "\<not> n < 1"
    using assms length_pack_pos(2) [of v] by (simp add: word_less_nat_alt)
  ultimately show ?thesis
    using True eq by (simp add: unpack_number_def pack_int_def number_tags_def)
next
  case False
  then show ?thesis using assms number_negative by simp
qed

lemma pack_int_number_witness:
  "unpack_number (pack_int (- 200) @ [7]) 20 = Inr (Of_int (- 200), 3)"
proof -
  have len: "length (pack_int (- 200)) = 3" by code_simp
  have "sint (- 200 :: u64) = - 200" by code_simp
  then show ?thesis using pack_int_number [of "- 200" 20 "[7]"] len by simp
qed

section \<open>Bounds of the readers\<close>

definition safe :: "'a res \<Rightarrow> bool" where
  "safe r \<longleftrightarrow> r \<noteq> Inl Undefined"

lemma safe_simps [simp]:
  "safe (Inr x)" "safe (Inl Runtime_error)" "safe (Inl Length_error)"
  by (simp_all add: safe_def)

lemma safe_bind: "safe m \<Longrightarrow> (\<And>x. m = Inr x \<Longrightarrow> safe (f x)) \<Longrightarrow> safe (rbind m f)"
  by (cases m) (auto simp: safe_def)

lemma safe_rd: "i < length p \<Longrightarrow> safe (rd p i)"
  by simp

lemma safe_get: "i + 1 < length p \<Longrightarrow> safe (get_be16 p i)" "i + 3 < length p \<Longrightarrow> safe (get_be32 p i)"
  "i + 7 < length p \<Longrightarrow> safe (get_be64 p i)"
  by (simp_all add: get_be16_def get_be32_def get_be64_def)

lemma safe_hdr:
  assumes "unat n \<le> length p"
  shows "safe (hdr8 p n)" "safe (hdr16 p n)" "safe (hdr32 p n)"
  using assms by (auto simp: hdr8_def hdr16_def hdr32_def word_less_nat_alt intro!: safe_bind safe_get safe_rd)

lemma safe_take_blob:
  assumes "unat n \<le> length p" and "unat h \<le> 5"
  shows "safe (take_blob p n (h, len))"
proof (cases "0x80000000 \<le> len")
  case True
  then show ?thesis by (simp add: take_blob_def)
next
  case False
  then have "unat len < 2 ^ 31" by (simp add: word_le_nat_alt)
  then have "unat (h + len) = unat h + unat len"
    using assms(2) by (subst unat_add_lem [symmetric]) simp
  then show ?thesis using assms
    by (auto simp: take_blob_def word_less_nat_alt intro!: safe_bind)
qed

lemma hdr_size: "hdr8 p n = Inr (h, l) \<Longrightarrow> unat h \<le> 5" "hdr16 p n = Inr (h, l) \<Longrightarrow> unat h \<le> 5"
  "hdr32 p n = Inr (h, l) \<Longrightarrow> unat h \<le> 5"
  by (auto simp: hdr8_def hdr16_def hdr32_def rbind_eq_Inr split: if_splits)

lemma safe_readers:
  assumes n: "unat n \<le> length p"
  shows "unpack_uint p n \<noteq> Inl Undefined" "unpack_str p n \<noteq> Inl Undefined"
    "unpack_bin p n \<noteq> Inl Undefined" "unpack_one_bin p n \<noteq> Inl Undefined"
    "unpack_map_header p n \<noteq> Inl Undefined" "unpack_array_header p n \<noteq> Inl Undefined"
    "unpack_double p n \<noteq> Inl Undefined" "unpack_bool p n \<noteq> Inl Undefined"
    "unpack_number p n \<noteq> Inl Undefined"
proof -
  note defs = word_less_nat_alt
  have u: "safe (unpack_uint p n)"
    using n by (auto simp: unpack_uint_def defs intro!: safe_bind safe_get safe_rd)
  have d: "safe (unpack_double p n)"
    using n by (auto simp: unpack_double_def defs intro!: safe_bind safe_get safe_rd)
  have s: "safe (unpack_str p n)"
    using n by (auto simp: unpack_str_def defs intro!: safe_bind safe_rd safe_hdr safe_take_blob
        dest: hdr_size split: if_splits)
  have b: "safe (unpack_bin p n)"
    using n by (auto simp: unpack_bin_def defs intro!: safe_bind safe_rd safe_hdr safe_take_blob
        dest: hdr_size split: if_splits)
  have ob: "safe (unpack_one_bin p n)"
    using n b by (auto simp: unpack_one_bin_def word_le_nat_alt intro!: safe_bind safe_rd)
  have mh: "safe (unpack_map_header p n)"
    using n by (auto simp: unpack_map_header_def defs intro!: safe_bind safe_get safe_rd)
  have ah: "safe (unpack_array_header p n)"
    using n by (auto simp: unpack_array_header_def defs intro!: safe_bind safe_get safe_rd)
  have bo: "safe (unpack_bool p n)"
    using n by (auto simp: unpack_bool_def defs intro!: safe_bind safe_rd)
  have nu: "safe (unpack_number p n)"
    using n u d by (auto simp: unpack_number_def defs intro!: safe_bind safe_get safe_rd)
  show "unpack_uint p n \<noteq> Inl Undefined" "unpack_str p n \<noteq> Inl Undefined"
    "unpack_bin p n \<noteq> Inl Undefined" "unpack_one_bin p n \<noteq> Inl Undefined"
    "unpack_map_header p n \<noteq> Inl Undefined" "unpack_array_header p n \<noteq> Inl Undefined"
    "unpack_double p n \<noteq> Inl Undefined" "unpack_bool p n \<noteq> Inl Undefined"
    "unpack_number p n \<noteq> Inl Undefined"
    using u d s b ob mh ah bo nu by (simp_all add: safe_def)
qed

text \<open>the strict readers stay inside the buffer. For any bytes and any claimed length \<open>n\<close> that the
  buffer really has, none of them reads outside it, whatever tag and length fields an attacker puts
  there (\<open>skip_value\<close> and the payload reader are not on this list: see \<open>skip_value_overread\<close>).\<close>

lemma strict_readers_in_bounds:
  assumes "unat n \<le> length p"
  shows "unpack_uint p n \<noteq> Inl Undefined \<and> unpack_str p n \<noteq> Inl Undefined \<and>
    unpack_bin p n \<noteq> Inl Undefined \<and> unpack_one_bin p n \<noteq> Inl Undefined \<and>
    unpack_map_header p n \<noteq> Inl Undefined \<and> unpack_array_header p n \<noteq> Inl Undefined \<and>
    unpack_double p n \<noteq> Inl Undefined \<and> unpack_bool p n \<noteq> Inl Undefined \<and>
    unpack_number p n \<noteq> Inl Undefined"
  using assms by (simp add: safe_readers)

lemma strict_readers_in_bounds_witness: "unpack_bin [0xc5, 0, 9] 3 \<noteq> Inl Undefined"
  using strict_readers_in_bounds [of 3 "[0xc5, 0, 9]"] by simp

text \<open>
  \<open>skip_value\<close> checks none of the lengths it adds up. An array whose first element claims more bytes
  than there are moves \<open>off\<close> past \<open>n\<close>; \<open>n - off\<close> wraps, and the next element is read outside the
  buffer.
\<close>

lemma skip_pair:
  "1 \<le> unat n \<Longrightarrow> skip_value (Suc d) (0x92 # rest) n =
     rbind (skip_value d rest (n - 1)) (\<lambda>k.
       rbind (skip_value d (drop (unat (1 + k)) (0x92 # rest)) (n - (1 + k))) (\<lambda>l. Inr (1 + k + l)))"
  using skip_box(1) [of 2 n d rest] by (simp add: numeral_2_eq_2 del: skip_value.simps)

lemma skip_str8: "2 \<le> unat n \<Longrightarrow> skip_value (Suc d) (0xd9 # b # rest) n = Inr (2 + ucast b)"
  by (simp add: word_less_nat_alt)

lemma skip_str32:
  "5 \<le> unat n \<Longrightarrow> skip_value (Suc d) (0xdb # put_be32 v @ rest) n = Inr (5 + v)"
  by (simp add: word_less_nat_alt)

lemma skip_value_overread: "skip_value (Suc (Suc d)) [0x92, 0xd9, 0xff] 3 = Inl Undefined"
  using skip_str8 [where n = 2 and b = "0xff" and rest = "[]"]
  by (simp add: skip_pair del: skip_value.simps(2)) simp

text \<open>C39: \<open>skip_value\<close> does not end on every input. With a length near \<open>2 ^ 32\<close> the 32-bit \<open>off\<close> wraps to 0,
  and the second element of the array is the array itself: six bytes exhaust a call stack of any depth.\<close>

lemma skip_value_recursion: "skip_value d [0x92, 0xdb, 0xff, 0xff, 0xff, 0xfa] 6 = Inl Stack_overflow"
proof (induction d)
  case 0
  show ?case by simp
next
  case (Suc d)
  have s: "skip_value d [0xdb, 0xff, 0xff, 0xff, 0xfa] 5 = Inr 0xffffffff" if "d = Suc e" for e
    using skip_str32 [where n = 5 and v = "0xfffffffa" and rest = "[]"] that by (simp add: put_be32_def del: skip_value.simps)
  have wrap: "1 + 0xffffffff = (0 :: usize)" by simp
  have step: "skip_value (Suc d) [0x92, 0xdb, 0xff, 0xff, 0xff, 0xfa] 6 =
     rbind (skip_value d [0xdb, 0xff, 0xff, 0xff, 0xfa] 5) (\<lambda>k.
       rbind (skip_value d (drop (unat (1 + k)) [0x92, 0xdb, 0xff, 0xff, 0xff, 0xfa]) (6 - (1 + k)))
         (\<lambda>l. Inr (1 + k + l)))"
    using skip_pair [where n = 6 and rest = "[0xdb, 0xff, 0xff, 0xff, 0xfa]"]
    by (simp del: skip_value.simps)
  show ?case
  proof (cases d)
    case (Suc e)
    from s [OF Suc] Suc.IH show ?thesis unfolding step by (simp only: rbind_Inr rbind_Inl wrap) simp
  next
    case 0
    then show ?thesis unfolding step by simp
  qed
qed

end
