(* ===== verification/MsgPackObj.thy ===== *)
theory MsgPackObj
  imports MsgPack
begin

text \<open>
  The classes of \<open>MsgPack.h\<close> over the shim's functions: \<open>Packer\<close>, \<open>Unpacker\<close> with the REQUEST and
  RESPONSE envelopes, \<open>MapReader\<close> and \<open>ArrayReader\<close>. A reader object lives on its caller's stack and
  dies with it when a call throws, so an operation returns the new reader or a fault. The argument
  \<open>d\<close> of the operations that skip values is the depth of the call stack \<open>skip_value\<close> may use.
\<close>

section \<open>Packer\<close>

text \<open>The overload set of \<open>pack_one\<close>, one constructor per overload.\<close>

datatype parg =
    P_double u64
  | P_bin bytes
  | P_nil
  | P_bool bool
  | P_str bytes
  | P_signed u64
  | P_unsigned u64

fun pack_one :: "parg \<Rightarrow> bytes" where
  "pack_one (P_double v) = pack_double v"
| "pack_one (P_bin b) = pack_bin b"
| "pack_one P_nil = pack_nil"
| "pack_one (P_bool v) = pack_bool v"
| "pack_one (P_str s) = pack_str s"
| "pack_one (P_signed v) = pack_int v"
| "pack_one (P_unsigned v) = pack_uint v"

definition packer_serialize :: "bytes \<Rightarrow> parg list \<Rightarrow> bytes" where
  "packer_serialize buf args = buf @ concat (map pack_one args)"

definition packer_to_array :: "bytes \<Rightarrow> parg list \<Rightarrow> bytes" where
  "packer_to_array buf args =
     (buf @ pack_array_header (of_nat (length args))) @ concat (map pack_one args)"

section \<open>Unpacker\<close>

record unpacker =
  up_raw :: bytes
  up_off :: usize

definition unpacker_feed :: "bytes \<Rightarrow> unpacker" where
  "unpacker_feed p = \<lparr>up_raw = p, up_off = 0\<rparr>"

text \<open>\<open>_raw.data() + _off\<close> and \<open>_raw.size() - _off\<close>, the span every read starts from.\<close>

definition up_p :: "unpacker \<Rightarrow> bytes" where
  "up_p u = drop (unat (up_off u)) (up_raw u)"

definition up_n :: "unpacker \<Rightarrow> usize" where
  "up_n u = of_nat (length (up_raw u)) - up_off u"

definition up_step :: "unpacker \<Rightarrow> usize \<Rightarrow> unpacker" where
  "up_step u k = u\<lparr>up_off := up_off u + k\<rparr>"

definition open_array :: "usize \<Rightarrow> unpacker \<Rightarrow> (usize \<times> unpacker) res" where
  "open_array least u =
    (if up_off u > of_nat (length (up_raw u)) then Inl Runtime_error
     else rbind (unpack_array_header (up_p u) (up_n u)) (\<lambda>(count, k).
       if count < least then Inl Runtime_error else Inr (count, up_step u k)))"

definition consume_double :: "unpacker \<Rightarrow> (u64 \<times> unpacker) res" where
  "consume_double u = rbind (unpack_double (up_p u) (up_n u)) (\<lambda>(v, k). Inr (v, up_step u k))"

definition consume_bin :: "unpacker \<Rightarrow> (bytes \<times> unpacker) res" where
  "consume_bin u = rbind (unpack_one_bin (up_p u) (up_n u)) (\<lambda>(v, k). Inr (v, up_step u k))"

definition consume_payload :: "nat \<Rightarrow> unpacker \<Rightarrow> (bytes \<times> unpacker) res" where
  "consume_payload d u =
    rbind (unpack_blob_or_object d (up_p u) (up_n u)) (\<lambda>(v, k). Inr (v, up_step u k))"

text \<open>\<open>deserialize\<close> at the two types the firmware uses it at.\<close>

definition deserialize_double :: "unpacker \<Rightarrow> (u64 \<times> unpacker) res" where
  "deserialize_double u =
    (if up_off u > of_nat (length (up_raw u)) then Inl Runtime_error else consume_double u)"

definition deserialize_bin :: "unpacker \<Rightarrow> (bytes \<times> unpacker) res" where
  "deserialize_bin u =
    (if up_off u > of_nat (length (up_raw u)) then Inl Runtime_error else consume_bin u)"

fun skip_rest :: "nat \<Rightarrow> nat \<Rightarrow> unpacker \<Rightarrow> unpacker res" where
  "skip_rest d 0 u = Inr u"
| "skip_rest d (Suc k) u =
     rbind (skip_value d (up_p u) (up_n u)) (\<lambda>l. skip_rest d k (up_step u l))"

definition from_request :: "nat \<Rightarrow> unpacker \<Rightarrow> ((u64 \<times> bytes \<times> bytes) \<times> unpacker) res" where
  "from_request d u =
    rbind (open_array 3 u) (\<lambda>(count, u).
    rbind (consume_double u) (\<lambda>(requested_at, u).
    rbind (consume_bin u) (\<lambda>(path_hash, u).
    rbind (consume_payload d u) (\<lambda>(payload, u).
    rbind (skip_rest d (unat count - 3) u) (\<lambda>u.
    Inr ((requested_at, path_hash, payload), u))))))"

definition from_response :: "nat \<Rightarrow> unpacker \<Rightarrow> ((bytes \<times> bytes) \<times> unpacker) res" where
  "from_response d u =
    rbind (open_array 2 u) (\<lambda>(count, u).
    rbind (consume_bin u) (\<lambda>(request_id, u).
    rbind (consume_payload d u) (\<lambda>(payload, u).
    rbind (skip_rest d (unat count - 2) u) (\<lambda>u.
    Inr ((request_id, payload), u)))))"

section \<open>MapReader and ArrayReader\<close>

record map_reader =
  mr_p :: bytes
  mr_n :: usize
  mr_off :: usize
  mr_count :: usize
  mr_seen :: usize
  mr_pending :: bool
  mr_key :: bytes

definition map_reader_init :: "bytes \<Rightarrow> usize \<Rightarrow> map_reader res" where
  "map_reader_init p n =
    rbind (unpack_map_header p n) (\<lambda>(count, k).
      Inr \<lparr>mr_p = p, mr_n = n, mr_off = k, mr_count = count, mr_seen = 0, mr_pending = False,
           mr_key = []\<rparr>)"

definition mr_value_ptr :: "map_reader \<Rightarrow> bytes" where
  "mr_value_ptr r = drop (unat (mr_off r)) (mr_p r)"

definition mr_value_len :: "map_reader \<Rightarrow> usize" where
  "mr_value_len r = mr_n r - mr_off r"

definition mr_next :: "map_reader \<Rightarrow> (bool \<times> map_reader) res" where
  "mr_next r =
    (if mr_seen r \<ge> mr_count r then Inr (False, r)
     else let r = r\<lparr>mr_seen := mr_seen r + 1\<rparr> in
       rbind (unpack_str (mr_value_ptr r) (mr_value_len r)) (\<lambda>(k, l).
         Inr (True, r\<lparr>mr_off := mr_off r + l, mr_key := k, mr_pending := True\<rparr>)))"

definition mr_key_is :: "map_reader \<Rightarrow> bytes \<Rightarrow> bool" where
  "mr_key_is r k \<longleftrightarrow> mr_key r = k"

definition mr_take :: "map_reader \<Rightarrow> usize \<Rightarrow> map_reader" where
  "mr_take r k = r\<lparr>mr_off := mr_off r + k, mr_pending := False\<rparr>"

text \<open>The four typed readers differ only in the unpacker they hand the span to.\<close>

definition mr_value :: "(bytes \<Rightarrow> usize \<Rightarrow> ('a \<times> usize) res) \<Rightarrow> map_reader \<Rightarrow> ('a \<times> map_reader) res" where
  "mr_value f r = rbind (f (mr_value_ptr r) (mr_value_len r)) (\<lambda>(v, k). Inr (v, mr_take r k))"

definition mr_value_str :: "map_reader \<Rightarrow> (bytes \<times> map_reader) res" where
  "mr_value_str = mr_value unpack_str"

definition mr_value_bool :: "map_reader \<Rightarrow> (bool \<times> map_reader) res" where
  "mr_value_bool = mr_value unpack_bool"

definition mr_value_num :: "map_reader \<Rightarrow> (mpnum \<times> map_reader) res" where
  "mr_value_num = mr_value unpack_number"

definition mr_value_bin :: "map_reader \<Rightarrow> (bytes \<times> map_reader) res" where
  "mr_value_bin = mr_value unpack_bin"

definition mr_skip_value :: "nat \<Rightarrow> map_reader \<Rightarrow> map_reader res" where
  "mr_skip_value d r =
    rbind (skip_value d (mr_value_ptr r) (mr_value_len r)) (\<lambda>k. Inr (mr_take r k))"

definition mr_value_is_nil :: "map_reader \<Rightarrow> bool res" where
  "mr_value_is_nil r =
    (if mr_off r < mr_n r then rbind (rd (mr_p r) (unat (mr_off r))) (\<lambda>t. Inr (t = 0xc0))
     else Inr False)"

text \<open>The loop of \<open>finish\<close>: a key and a value per remaining pair.\<close>

definition mr_finish :: "nat \<Rightarrow> map_reader \<Rightarrow> map_reader res" where
  "mr_finish d r =
    rbind (if mr_pending r then mr_skip_value d r else Inr r) (\<lambda>r.
    rbind (skip_loop (skip_value d) (mr_p r) (mr_n r) (2 * unat (mr_count r - mr_seen r)) (mr_off r))
      (\<lambda>off. Inr (r\<lparr>mr_off := off, mr_seen := mr_count r\<rparr>)))"

record array_reader =
  ar_p :: bytes
  ar_n :: usize
  ar_off :: usize
  ar_count :: usize
  ar_seen :: usize

definition array_reader_init :: "bytes \<Rightarrow> usize \<Rightarrow> array_reader res" where
  "array_reader_init p n =
    rbind (unpack_array_header p n) (\<lambda>(count, k).
      Inr \<lparr>ar_p = p, ar_n = n, ar_off = k, ar_count = count, ar_seen = 0\<rparr>)"

definition ar_next :: "array_reader \<Rightarrow> bool \<times> array_reader" where
  "ar_next r =
    (if ar_seen r \<ge> ar_count r then (False, r) else (True, r\<lparr>ar_seen := ar_seen r + 1\<rparr>))"

definition ar_advance :: "array_reader \<Rightarrow> usize \<Rightarrow> array_reader" where
  "ar_advance r k = r\<lparr>ar_off := ar_off r + k\<rparr>"

definition ar_value_ptr :: "array_reader \<Rightarrow> bytes" where
  "ar_value_ptr r = drop (unat (ar_off r)) (ar_p r)"

definition ar_value_len :: "array_reader \<Rightarrow> usize" where
  "ar_value_len r = ar_n r - ar_off r"

definition ar_skip_value :: "nat \<Rightarrow> array_reader \<Rightarrow> array_reader res" where
  "ar_skip_value d r =
    rbind (skip_value d (ar_value_ptr r) (ar_value_len r)) (\<lambda>k. Inr (ar_advance r k))"

section \<open>Reading an object behind a prefix\<close>

definition upk :: "bytes \<Rightarrow> bytes \<Rightarrow> unpacker" where
  "upk raw pre = \<lparr>up_raw = raw, up_off = of_nat (length pre)\<rparr>"

lemma upk_end: "raw = x \<Longrightarrow> upk raw x = \<lparr>up_raw = raw, up_off = of_nat (length raw)\<rparr>"
  by (simp add: upk_def)

lemma unpacker_feed_upk: "unpacker_feed raw = upk raw []"
  by (simp add: unpacker_feed_def upk_def)

context wire_codec
begin

lemma read_at:
  assumes "ok x" and "raw = pre @ enc x @ rest" and "length raw < 2 ^ 32"
  shows "dec (up_p (upk raw pre)) (up_n (upk raw pre)) = Inr (view x, of_nat (length (enc x)))"
  using dec_at [OF assms] by (simp add: up_p_def up_n_def upk_def)

lemma cursor_at: "up_step (upk raw pre) (of_nat (length (enc x))) = upk raw (pre @ enc x)"
  by (simp add: up_step_def upk_def)

end

lemma consume_double_at:
  assumes "raw = pre @ pack_double v @ rest" and "length raw < 2 ^ 32"
  shows "consume_double (upk raw pre) = Inr (v, upk raw (pre @ pack_double v))"
  using double_codec.read_at [OF TrueI assms] double_codec.cursor_at [of raw pre v]
  by (simp add: consume_double_def)

lemma unpack_one_bin_pack:
  assumes "length d < 2 ^ 31" and "length (pack_bin d) \<le> unat n"
  shows "unpack_one_bin (pack_bin d @ rest) n = Inr (d, of_nat (length (pack_bin d)))"
proof -
  obtain t bs where t: "pack_bin d = t # bs" "t \<noteq> 0xc0"
    by (rule that [of "hd (pack_bin d)" "tl (pack_bin d)"]) (simp_all add: pack_bin_def Let_def)
  have "rd (pack_bin d @ rest) 0 = Inr t" using t(1) by simp
  then show ?thesis
    using unpack_pack_bin [OF assms, of rest] t(2) by (simp add: unpack_one_bin_def)
qed

interpretation one_bin_codec: wire_codec pack_bin unpack_one_bin id "\<lambda>d. length d < 2 ^ 31"
  by unfold_locales (simp add: unpack_one_bin_pack)

lemma consume_bin_at:
  assumes "raw = pre @ pack_bin b @ rest" and "length raw < 2 ^ 31"
  shows "consume_bin (upk raw pre) = Inr (b, upk raw (pre @ pack_bin b))"
proof -
  have "length b < 2 ^ 31" using assms by (simp add: length_pack_bin)
  from one_bin_codec.read_at [OF this assms(1)] one_bin_codec.cursor_at [of raw pre b] assms(2)
  show ?thesis by (simp add: consume_bin_def)
qed

lemma consume_payload_at:
  assumes "raw = pre @ mp_enc v @ rest" and "length raw < 2 ^ 31" and "mp_depth v \<le> d"
  shows "consume_payload d (upk raw pre) = Inr (payload_view v, upk raw (pre @ mp_enc v))"
proof -
  have "mp_depth v \<le> d \<and> length (mp_enc v) < 2 ^ 31" using assms by simp
  from payload_codec.read_at [OF this assms(1)] payload_codec.cursor_at [of raw pre v] assms(2)
  show ?thesis by (simp add: consume_payload_def)
qed

lemma open_array_at:
  assumes "raw = pack_array_header c @ rest" and "length raw < 2 ^ 32" and "least \<le> c"
  shows "open_array least (unpacker_feed raw) = Inr (c, upk raw (pack_array_header c))"
  using array_codec.read_at [OF TrueI, of raw "[]" c rest] array_codec.cursor_at [of raw "[]" c] assms
  by (simp add: open_array_def unpacker_feed_upk leD) (simp add: upk_def)

lemma skip_rest_at:
  assumes "raw = pre @ concat (map mp_enc vs) @ rest" and "length raw < 2 ^ 32"
    and "\<forall>v \<in> set vs. mp_depth v \<le> d"
  shows "skip_rest d (length vs) (upk raw pre) = Inr (upk raw (pre @ concat (map mp_enc vs)))"
  using assms
proof (induction vs arbitrary: pre)
  case Nil
  then show ?case by simp
next
  case (Cons v vs)
  let ?cur = "upk raw pre"
  have ok: "mp_depth v \<le> d" and raw: "raw = pre @ mp_enc v @ concat (map mp_enc vs) @ rest"
    using Cons.prems by simp_all
  from skip_codec.read_at [where d = d, OF ok raw Cons.prems(2)]
  have "skip_value d (up_p ?cur) (up_n ?cur) = Inr (of_nat (length (mp_enc v)))"
    by (auto simp: skip_unit_def rbind_eq_Inr)
  moreover have "skip_rest d (length vs) (upk raw (pre @ mp_enc v)) =
      Inr (upk raw ((pre @ mp_enc v) @ concat (map mp_enc vs)))"
    using Cons.prems by (intro Cons.IH) simp_all
  ultimately show ?case by (simp add: skip_codec.cursor_at)
qed

section \<open>The REQUEST and RESPONSE envelopes\<close>

fun mp_of :: "parg \<Rightarrow> mpv" where
  "mp_of (P_double v) = MDouble v"
| "mp_of (P_bin b) = MBin b"
| "mp_of P_nil = MNil"
| "mp_of (P_bool v) = MBool v"
| "mp_of (P_str s) = MStr s"
| "mp_of (P_signed v) = MInt v"
| "mp_of (P_unsigned v) = MUint v"

lemma pack_one_mp: "pack_one a = mp_enc (mp_of a)"
  by (cases a) simp_all

lemma mp_depth_of [simp]: "mp_depth (mp_of a) = 1"
  by (cases a) simp_all

lemma packer_to_array_mp: "packer_to_array [] args = mp_enc (MArr (map mp_of args))"
proof -
  have "pack_one = mp_enc \<circ> mp_of" by (rule ext) (simp add: pack_one_mp)
  then show ?thesis by (simp add: packer_to_array_def)
qed

lemma array_count:
  assumes "length (mp_enc (MArr vs)) < 2 ^ 32"
  shows "unat (of_nat (length vs) :: usize) = length vs"
proof -
  have "length vs \<le> length (concat (map mp_enc vs))"
    using mp_enc_pos by (intro length_le_concat) simp
  then show ?thesis using assms by (intro of_nat_unat_less) simp
qed

text \<open>the REQUEST decoder reads every request that is an array whose first two members are a float64 and
  a bin, with a payload and any number of further members as the writers of \<open>MsgPack.h\<close> encode values: nil,
  booleans, integers, floats, strings, binaries, arrays and maps in their shortest form, nested no deeper
  than the stack allows, in less than 2^31 bytes. An extension type is no such value; \<open>skip_value\<close> throws on it. It
  returns the timestamp and the path hash unchanged, the payload as the bytes of a blob or as the
  element's own encoding, skips the members it does not know, and ends at the last byte.\<close>

lemma from_request_reads:
  assumes "raw = mp_enc (MArr (MDouble t # MBin h # v # ws))"
    and "length raw < 2 ^ 31" and "mp_depth v \<le> d" and "\<forall>w \<in> set ws. mp_depth w \<le> d"
  shows "from_request d (unpacker_feed raw) =
    Inr ((t, h, payload_view v), \<lparr>up_raw = raw, up_off = of_nat (length raw)\<rparr>)"
proof -
  let ?vs = "MDouble t # MBin h # v # ws"
  let ?hdr = "pack_array_header (of_nat (length ?vs))"
  have raw: "raw = ?hdr @ pack_double t @ pack_bin h @ mp_enc v @ concat (map mp_enc ws) @ []"
    using assms(1) by simp
  have small: "length raw < 2 ^ 32" using assms(2) by simp
  have c: "unat (of_nat (length ?vs) :: usize) = length ?vs"
    using array_count [of ?vs] small assms(1) by simp
  then have "3 \<le> (of_nat (length ?vs) :: usize)" by (simp add: word_le_nat_alt)
  from open_array_at [OF raw small this]
  have a: "open_array 3 (unpacker_feed raw) = Inr (of_nat (length ?vs), upk raw ?hdr)" .
  have b: "consume_double (upk raw ?hdr) = Inr (t, upk raw (?hdr @ pack_double t))"
    by (rule consume_double_at [OF _ small]) (use raw in simp)
  have e: "consume_bin (upk raw (?hdr @ pack_double t)) =
      Inr (h, upk raw ((?hdr @ pack_double t) @ pack_bin h))"
    by (rule consume_bin_at [OF _ assms(2)]) (use raw in simp)
  have f: "consume_payload d (upk raw ((?hdr @ pack_double t) @ pack_bin h)) =
      Inr (payload_view v, upk raw (((?hdr @ pack_double t) @ pack_bin h) @ mp_enc v))"
    by (rule consume_payload_at [OF _ assms(2,3)]) (use raw in simp)
  have g: "skip_rest d (length ws) (upk raw (((?hdr @ pack_double t) @ pack_bin h) @ mp_enc v)) =
      Inr (upk raw ((((?hdr @ pack_double t) @ pack_bin h) @ mp_enc v) @ concat (map mp_enc ws)))"
    by (rule skip_rest_at [OF _ small assms(4)]) (use raw in simp)
  have end_eq: "upk raw ((((?hdr @ pack_double t) @ pack_bin h) @ mp_enc v) @ concat (map mp_enc ws)) =
      \<lparr>up_raw = raw, up_off = of_nat (length raw)\<rparr>"
    by (rule upk_end) (use raw in simp)
  have k: "unat (of_nat (length ?vs) :: usize) - 3 = length ws" using c by simp
  show ?thesis
    unfolding from_request_def a rbind_Inr prod.case b e f k g end_eq by (rule refl)
qed

lemma from_request_reads_witness:
  "let raw = [0x94, 0xcb, 0, 0, 0, 0, 0, 0, 0, 5, 0xc4, 2, 1, 2, 0xa1, 65, 0xc0] in
   from_request 1 (unpacker_feed raw) = Inr ((5, [1, 2], [65]), \<lparr>up_raw = raw, up_off = 17\<rparr>)"
proof -
  have "[0x94, 0xcb, 0, 0, 0, 0, 0, 0, 0, 5, 0xc4, 2, 1, 2, 0xa1, 65, 0xc0] =
      mp_enc (MArr [MDouble 5, MBin [1, 2], MStr [65], MNil])" by code_simp
  from from_request_reads [OF this, of 1] show ?thesis
    by (simp add: payload_view_def)
qed

text \<open>the RESPONSE decoder, in the same way, returns the request id and the payload of every
  response whose first member is a bin.\<close>

lemma from_response_reads:
  assumes "raw = mp_enc (MArr (MBin h # v # ws))"
    and "length raw < 2 ^ 31" and "mp_depth v \<le> d" and "\<forall>w \<in> set ws. mp_depth w \<le> d"
  shows "from_response d (unpacker_feed raw) =
    Inr ((h, payload_view v), \<lparr>up_raw = raw, up_off = of_nat (length raw)\<rparr>)"
proof -
  let ?vs = "MBin h # v # ws"
  let ?hdr = "pack_array_header (of_nat (length ?vs))"
  have raw: "raw = ?hdr @ pack_bin h @ mp_enc v @ concat (map mp_enc ws) @ []"
    using assms(1) by simp
  have small: "length raw < 2 ^ 32" using assms(2) by simp
  have c: "unat (of_nat (length ?vs) :: usize) = length ?vs"
    using array_count [of ?vs] small assms(1) by simp
  then have "2 \<le> (of_nat (length ?vs) :: usize)" by (simp add: word_le_nat_alt)
  from open_array_at [OF raw small this]
  have a: "open_array 2 (unpacker_feed raw) = Inr (of_nat (length ?vs), upk raw ?hdr)" .
  have e: "consume_bin (upk raw ?hdr) = Inr (h, upk raw (?hdr @ pack_bin h))"
    by (rule consume_bin_at [OF _ assms(2)]) (use raw in simp)
  have f: "consume_payload d (upk raw (?hdr @ pack_bin h)) =
      Inr (payload_view v, upk raw ((?hdr @ pack_bin h) @ mp_enc v))"
    by (rule consume_payload_at [OF _ assms(2,3)]) (use raw in simp)
  have g: "skip_rest d (length ws) (upk raw ((?hdr @ pack_bin h) @ mp_enc v)) =
      Inr (upk raw (((?hdr @ pack_bin h) @ mp_enc v) @ concat (map mp_enc ws)))"
    by (rule skip_rest_at [OF _ small assms(4)]) (use raw in simp)
  have end_eq: "upk raw (((?hdr @ pack_bin h) @ mp_enc v) @ concat (map mp_enc ws)) =
      \<lparr>up_raw = raw, up_off = of_nat (length raw)\<rparr>"
    by (rule upk_end) (use raw in simp)
  have k: "unat (of_nat (length ?vs) :: usize) - 2 = length ws" using c by simp
  show ?thesis
    unfolding from_response_def a rbind_Inr prod.case e f k g end_eq by (rule refl)
qed

lemma from_response_reads_witness:
  "let raw = [0x92, 0xc4, 1, 9, 0x91, 3] in
   from_response 2 (unpacker_feed raw) = Inr (([9], [0x91, 3]), \<lparr>up_raw = raw, up_off = 6\<rparr>)"
proof -
  have enc: "[0x92, 0xc4, 1, 9, 0x91, 3] = mp_enc (MArr [MBin [9], MArr [MUint 3]])"
    and view: "payload_view (MArr [MUint 3]) = [0x91, 3]" by code_simp+
  from from_response_reads [OF enc, of 2] view show ?thesis by simp
qed

text \<open>
  What the firmware's own \<open>Packer::to_array\<close> writes is such an array.
\<close>

lemma request_envelope_packed:
  "packer_to_array [] (P_double t # P_bin h # a # ws) =
     mp_enc (MArr (MDouble t # MBin h # mp_of a # map mp_of ws))"
  by (simp add: packer_to_array_mp)

text \<open>
  A truncated string as payload, followed by a fourth member, makes \<open>skip_rest\<close> read outside the
  received buffer: the member's length is added to \<open>_off\<close> without being compared with the size.
\<close>

lemma from_request_overread:
  "from_request 8 (unpacker_feed
     ([0x95] @ pack_double 0 @ pack_bin [] @ pack_nil @ [0xd9, 0xff])) = Inl Undefined"
  by code_simp

section \<open>Walking a map\<close>

text \<open>
  The loop the class comment prescribes, with a body that skips every value: it collects each key and
  the bytes of its value, and returns the reader at the end of the map.
\<close>

fun mr_walk :: "nat \<Rightarrow> nat \<Rightarrow> map_reader \<Rightarrow> ((bytes \<times> bytes) list \<times> map_reader) res" where
  "mr_walk d 0 r = Inr ([], r)"
| "mr_walk d (Suc k) r =
     rbind (mr_next r) (\<lambda>(more, r1).
       if \<not> more then Inr ([], r1)
       else rbind (mr_skip_value d r1) (\<lambda>r2.
         rbind (mr_walk d k r2) (\<lambda>(ps, r3).
           Inr ((mr_key r1, take (unat (mr_off r2 - mr_off r1)) (mr_value_ptr r1)) # ps, r3))))"

definition mr_at :: "bytes \<Rightarrow> bytes \<Rightarrow> nat \<Rightarrow> nat \<Rightarrow> bool \<Rightarrow> bytes \<Rightarrow> map_reader" where
  "mr_at raw pre c s pend key =
     \<lparr>mr_p = raw, mr_n = of_nat (length raw), mr_off = of_nat (length pre), mr_count = of_nat c,
      mr_seen = of_nat s, mr_pending = pend, mr_key = key\<rparr>"

lemma mr_next_at:
  assumes "raw = pre @ pack_str k @ rest" and "length raw < 2 ^ 31" and "s < c" and "c < 2 ^ 32"
  shows "mr_next (mr_at raw pre c s pend key) =
    Inr (True, mr_at raw (pre @ pack_str k) c (Suc s) True k)"
proof -
  have "length k < 2 ^ 31" using assms(1,2) by (simp add: length_pack_str)
  from str_codec.dec_at [OF this assms(1)] assms(2)
  have "unpack_str (drop (unat (of_nat (length pre) :: usize)) raw)
      (of_nat (length raw) - of_nat (length pre)) = Inr (k, of_nat (length (pack_str k)))" by simp
  moreover have "\<not> (of_nat c :: usize) \<le> of_nat s"
    using assms(3,4) by (simp add: word_le_nat_alt of_nat_unat_less)
  ultimately show ?thesis
    by (simp add: mr_next_def mr_at_def mr_value_ptr_def mr_value_len_def Let_def add.commute)
qed

lemma mr_skip_at:
  assumes "raw = pre @ mp_enc v @ rest" and "length raw < 2 ^ 31" and "mp_depth v \<le> d"
  shows "mr_skip_value d (mr_at raw pre c s pend key) = Inr (mr_at raw (pre @ mp_enc v) c s False key)"
  using skip_codec.dec_at [where d = d, OF assms(3,1)] assms(2)
  by (auto simp: mr_skip_value_def mr_at_def mr_value_ptr_def mr_value_len_def mr_take_def skip_unit_def
      rbind_eq_Inr)

lemma mr_span_at:
  assumes "raw = pre @ e @ rest" and "length raw < 2 ^ 31"
  shows "take (unat (mr_off (mr_at raw (pre @ e) c s p' k') - mr_off (mr_at raw pre c s p k)))
    (mr_value_ptr (mr_at raw pre c s p k)) = e"
proof -
  have "unat (of_nat (length e) :: usize) = length e" "unat (of_nat (length pre) :: usize) = length pre"
    using assms by (simp_all add: of_nat_unat_less)
  then show ?thesis using assms(1) by (simp add: mr_at_def mr_value_ptr_def)
qed

lemma mr_walk_at:
  assumes "raw = pre @ concat (map (\<lambda>(k, v). pack_str k @ mp_enc v) kvs) @ rest"
    and "length raw < 2 ^ 31" and "s + length kvs = c" and "c < 2 ^ 32"
    and "\<forall>(k, v) \<in> set kvs. mp_depth v \<le> d"
  shows "\<exists>pend key. mr_walk d (length kvs) (mr_at raw pre c s pd ky) =
    Inr (map (\<lambda>(k, v). (k, mp_enc v)) kvs,
      mr_at raw (pre @ concat (map (\<lambda>(k, v). pack_str k @ mp_enc v) kvs)) c c pend key)"
  using assms
proof (induction kvs arbitrary: pre s pd ky)
  case Nil
  then show ?case by auto
next
  case (Cons kv kvs)
  obtain k v where kv: "kv = (k, v)" by (cases kv)
  let ?tl = "concat (map (\<lambda>(k, v). pack_str k @ mp_enc v) kvs)"
  have raw: "raw = pre @ pack_str k @ mp_enc v @ ?tl @ rest" using Cons.prems(1) kv by simp
  then have raw': "raw = (pre @ pack_str k) @ mp_enc v @ ?tl @ rest"
    and raw'': "raw = ((pre @ pack_str k) @ mp_enc v) @ ?tl @ rest" by simp_all
  have "s < c" using Cons.prems(3) by simp
  note n = mr_next_at [OF raw Cons.prems(2) this Cons.prems(4)]
  have "mp_depth v \<le> d" using Cons.prems(5) kv by auto
  note sk = mr_skip_at [OF raw' Cons.prems(2) this]
  note sp = mr_span_at [OF raw' Cons.prems(2)]
  obtain pend key where "mr_walk d (length kvs)
      (mr_at raw ((pre @ pack_str k) @ mp_enc v) c (Suc s) False k) =
    Inr (map (\<lambda>(k, v). (k, mp_enc v)) kvs,
      mr_at raw (((pre @ pack_str k) @ mp_enc v) @ ?tl) c c pend key)"
    using Cons.IH [OF raw'' Cons.prems(2) _ Cons.prems(4)] Cons.prems(3,5) by fastforce
  moreover have "mr_key (mr_at raw p' c s' True k) = k" for p' s' by (simp add: mr_at_def)
  ultimately have "\<exists>pend key. mr_walk d (length (kv # kvs)) (mr_at raw pre c s pd ky) =
    Inr (map (\<lambda>(k, v). (k, mp_enc v)) (kv # kvs),
      mr_at raw (((pre @ pack_str k) @ mp_enc v) @ ?tl) c c pend key)"
    using n sk sp kv by (auto simp del: append_assoc)
  moreover have "pre @ concat (map (\<lambda>(k, v). pack_str k @ mp_enc v) (kv # kvs)) =
      ((pre @ pack_str k) @ mp_enc v) @ ?tl" by (simp add: kv)
  ultimately show ?case by simp
qed

text \<open>walking a map with \<open>MapReader\<close> visits every pair once, in the order of the wire, with its key
  and exactly the bytes of its value (nested maps and arrays included, keys the caller does not know
  among them), and leaves the cursor on the first byte after the map.\<close>

lemma map_reader_walks:
  assumes "raw = mp_enc (MMap (map (\<lambda>(k, v). (MStr k, v)) kvs)) @ rest"
    and "length raw < 2 ^ 31" and "\<forall>(k, v) \<in> set kvs. mp_depth v \<le> d"
  shows "\<exists>r r'. map_reader_init raw (of_nat (length raw)) = Inr r \<and>
    mr_walk d (length kvs) r = Inr (map (\<lambda>(k, v). (k, mp_enc v)) kvs, r') \<and>
    mr_off r' = of_nat (length raw - length rest) \<and> mr_next r' = Inr (False, r')"
proof -
  let ?hdr = "pack_map_header (of_nat (length kvs))"
  let ?tl = "concat (map (\<lambda>(k, v). pack_str k @ mp_enc v) kvs)"
  have mapeq: "map (\<lambda>(k, v). mp_enc k @ mp_enc v) (map (\<lambda>(k, v). (MStr k, v)) kvs) =
      map (\<lambda>(k, v). pack_str k @ mp_enc v) kvs" by (simp add: case_prod_beta)
  have raw: "raw = ?hdr @ ?tl @ rest" using assms(1) by (simp add: mapeq del: map_map)
  have "length kvs \<le> length ?tl"
    by (rule length_le_concat) (use length_pack_pos(5) in \<open>auto simp: trans_le_add1\<close>)
  then have kvs: "length kvs < 2 ^ 32" using raw assms(2) by simp
  have init: "map_reader_init raw (of_nat (length raw)) =
      Inr (mr_at raw ?hdr (length kvs) 0 False [])"
    using map_codec.dec_at [OF TrueI, of raw "[]" "of_nat (length kvs)" "?tl @ rest"] raw assms(2)
    by (simp add: map_reader_init_def mr_at_def)
  obtain pend key where walk: "mr_walk d (length kvs) (mr_at raw ?hdr (length kvs) 0 False []) =
      Inr (map (\<lambda>(k, v). (k, mp_enc v)) kvs, mr_at raw (?hdr @ ?tl) (length kvs) (length kvs) pend key)"
    using mr_walk_at [OF raw assms(2) _ kvs assms(3), of 0 False "[]"] by auto
  have "length (?hdr @ ?tl) = length raw - length rest" using raw by simp
  then have off: "mr_off (mr_at raw (?hdr @ ?tl) (length kvs) (length kvs) pend key) =
      of_nat (length raw - length rest)" by (simp add: mr_at_def)
  have fin: "mr_next (mr_at raw (?hdr @ ?tl) (length kvs) (length kvs) pend key) =
      Inr (False, mr_at raw (?hdr @ ?tl) (length kvs) (length kvs) pend key)"
    by (simp add: mr_next_def mr_at_def)
  show ?thesis using init walk off fin by blast
qed

lemma map_reader_walks_witness:
  "\<exists>r r'. map_reader_init [0x81, 0xa1, 110, 5, 0xff] 5 = Inr r \<and>
    mr_walk 1 1 r = Inr ([([110], [5])], r') \<and> mr_off r' = 4 \<and> mr_next r' = Inr (False, r')"
proof -
  have "mp_enc (MMap [(MStr [110], MUint 5)]) = [0x81, 0xa1, 110, 5]" "mp_enc (MUint 5) = [5]"
    by code_simp+
  then show ?thesis
    using map_reader_walks [of "[0x81, 0xa1, 110, 5, 0xff]" "[([110], MUint 5)]" "[0xff]" 1]
    by simp
qed

end
