(* ===== verification/RnsTypes.thy ===== *)
theory RnsTypes
  imports Prelude
begin

text \<open>
  The enumerations and constants of \<open>Type.h\<close> that the packet, channel and resource layers share, and
  the slicing operations of the \<open>Bytes\<close> class on its value, a list of bytes.
\<close>

section \<open>Enumerations\<close>

datatype dest_type = SINGLE | GROUP | PLAIN | LINK

datatype packet_type = DATA | ANNOUNCE | LINKREQUEST | PROOF

datatype header_type = HEADER_1 | HEADER_2

datatype context_flag = FLAG_UNSET | FLAG_SET

datatype transport_type = BROADCAST | TRANSPORT | RELAY | TUNNEL | TT_NONE

datatype link_status = PENDING | HANDSHAKE | ACTIVE | STALE | CLOSED

datatype receipt_status = R_FAILED | R_SENT | R_DELIVERED | R_CULLED

fun dest_code :: "dest_type \<Rightarrow> u8" where
  "dest_code SINGLE = 0"
| "dest_code GROUP = 1"
| "dest_code PLAIN = 2"
| "dest_code LINK = 3"

fun packet_code :: "packet_type \<Rightarrow> u8" where
  "packet_code DATA = 0"
| "packet_code ANNOUNCE = 1"
| "packet_code LINKREQUEST = 2"
| "packet_code PROOF = 3"

fun header_code :: "header_type \<Rightarrow> u8" where
  "header_code HEADER_1 = 0"
| "header_code HEADER_2 = 1"

fun cflag_code :: "context_flag \<Rightarrow> u8" where
  "cflag_code FLAG_UNSET = 0"
| "cflag_code FLAG_SET = 1"

fun transport_code :: "transport_type \<Rightarrow> u8" where
  "transport_code BROADCAST = 0"
| "transport_code TRANSPORT = 1"
| "transport_code RELAY = 2"
| "transport_code TUNNEL = 3"
| "transport_code TT_NONE = 0xff"

text \<open>The casts back, at the widths the header fields have.\<close>

definition dest_of_code :: "u8 \<Rightarrow> dest_type" where
  "dest_of_code w = (if w = 0 then SINGLE else if w = 1 then GROUP else if w = 2 then PLAIN else LINK)"

definition packet_of_code :: "u8 \<Rightarrow> packet_type" where
  "packet_of_code w =
    (if w = 0 then DATA else if w = 1 then ANNOUNCE else if w = 2 then LINKREQUEST else PROOF)"

definition header_of_code :: "u8 \<Rightarrow> header_type" where
  "header_of_code w = (if w = 0 then HEADER_1 else HEADER_2)"

definition cflag_of_code :: "u8 \<Rightarrow> context_flag" where
  "cflag_of_code w = (if w = 0 then FLAG_UNSET else FLAG_SET)"

definition transport_of_code :: "u8 \<Rightarrow> transport_type" where
  "transport_of_code w = (if w = 0 then BROADCAST else TRANSPORT)"

text \<open>Packet contexts keep the byte: \<open>unpack\<close> casts any received byte to the enumeration.\<close>

abbreviation (input) "CONTEXT_NONE \<equiv> 0x00 :: u8"
abbreviation (input) "RESOURCE \<equiv> 0x01 :: u8"
abbreviation (input) "RESOURCE_ADV \<equiv> 0x02 :: u8"
abbreviation (input) "RESOURCE_REQ \<equiv> 0x03 :: u8"
abbreviation (input) "RESOURCE_HMU \<equiv> 0x04 :: u8"
abbreviation (input) "RESOURCE_PRF \<equiv> 0x05 :: u8"
abbreviation (input) "RESOURCE_ICL \<equiv> 0x06 :: u8"
abbreviation (input) "RESOURCE_RCL \<equiv> 0x07 :: u8"
abbreviation (input) "CACHE_REQUEST \<equiv> 0x08 :: u8"
abbreviation (input) "CTX_REQUEST \<equiv> 0x09 :: u8"
abbreviation (input) "CTX_RESPONSE \<equiv> 0x0a :: u8"
abbreviation (input) "CTX_CHANNEL \<equiv> 0x0e :: u8"
abbreviation (input) "KEEPALIVE \<equiv> 0xfa :: u8"
abbreviation (input) "LRPROOF \<equiv> 0xff :: u8"

section \<open>Constants\<close>

definition MTU :: u16 where "MTU = 500"
definition TRUNCATED_HASHLENGTH :: nat where "TRUNCATED_HASHLENGTH = 128"
definition DESTINATION_LENGTH :: nat where "DESTINATION_LENGTH = TRUNCATED_HASHLENGTH div 8"
definition HEADER_MINSIZE :: nat where "HEADER_MINSIZE = 2 + 1 + (TRUNCATED_HASHLENGTH div 8) * 1"
definition HEADER_MAXSIZE :: nat where "HEADER_MAXSIZE = 2 + 1 + (TRUNCATED_HASHLENGTH div 8) * 2"
definition IFAC_MIN_SIZE :: nat where "IFAC_MIN_SIZE = 1"
definition MDU :: nat where "MDU = unat MTU - HEADER_MAXSIZE - IFAC_MIN_SIZE"
definition HASHLENGTH :: nat where "HASHLENGTH = 256"
definition SIGLENGTH :: nat where "SIGLENGTH = 256 * 2"
definition EXPL_LENGTH :: nat where "EXPL_LENGTH = HASHLENGTH div 8 + SIGLENGTH div 8"
definition IMPL_LENGTH :: nat where "IMPL_LENGTH = SIGLENGTH div 8"
definition TOKEN_OVERHEAD :: nat where "TOKEN_OVERHEAD = 48"
definition AES128_BLOCKSIZE :: nat where "AES128_BLOCKSIZE = 16"
definition LINK_MDU :: nat where
  "LINK_MDU = ((unat MTU - IFAC_MIN_SIZE - HEADER_MINSIZE - TOKEN_OVERHEAD) div AES128_BLOCKSIZE)
     * AES128_BLOCKSIZE - 1"
definition ENCRYPTED_MDU :: nat where
  "ENCRYPTED_MDU = ((MDU - TOKEN_OVERHEAD - (256 * 2) div 16) div AES128_BLOCKSIZE)
     * AES128_BLOCKSIZE - 1"
definition TIMEOUT_PER_HOP :: nat where "TIMEOUT_PER_HOP = 6"
definition TRAFFIC_TIMEOUT_MIN_MS :: nat where "TRAFFIC_TIMEOUT_MIN_MS = 5"
definition PATHFINDER_M :: nat where "PATHFINDER_M = 128"

lemmas const_defs = MTU_def TRUNCATED_HASHLENGTH_def DESTINATION_LENGTH_def HEADER_MINSIZE_def
  HEADER_MAXSIZE_def IFAC_MIN_SIZE_def MDU_def HASHLENGTH_def SIGLENGTH_def EXPL_LENGTH_def
  IMPL_LENGTH_def TOKEN_OVERHEAD_def AES128_BLOCKSIZE_def LINK_MDU_def ENCRYPTED_MDU_def
  TIMEOUT_PER_HOP_def TRAFFIC_TIMEOUT_MIN_MS_def PATHFINDER_M_def

lemma const_values:
  "DESTINATION_LENGTH = 16" "HEADER_MINSIZE = 19" "HEADER_MAXSIZE = 35" "MDU = 464"
  "EXPL_LENGTH = 96" "IMPL_LENGTH = 64" "LINK_MDU = 431" "ENCRYPTED_MDU = 383" "unat MTU = 500"
  by (simp_all add: const_defs)

section \<open>Slices of a byte string\<close>

text \<open>\<open>left\<close>, \<open>right\<close> and the two forms of \<open>mid\<close>, which clip their arguments to the size.\<close>

definition bleft :: "nat \<Rightarrow> bytes \<Rightarrow> bytes" where
  "bleft k b = (let k = (if k > length b then length b else k) in take k b)"

definition bright :: "nat \<Rightarrow> bytes \<Rightarrow> bytes" where
  "bright k b = (let k = (if k > length b then length b else k) in drop (length b - k) b)"

definition bmid :: "nat \<Rightarrow> bytes \<Rightarrow> bytes" where
  "bmid i b = (if i \<ge> length b then [] else drop i b)"

definition bmid_len :: "nat \<Rightarrow> nat \<Rightarrow> bytes \<Rightarrow> bytes" where
  "bmid_len i k b =
    (if i \<ge> length b then []
     else let remaining = length b - i; k = (if k > remaining then remaining else k) in
       take k (drop i b))"

lemma bleft_eq: "bleft k b = take k b"
  by (simp add: bleft_def Let_def)

lemma bright_eq: "bright k b = drop (length b - k) b"
  by (auto simp: bright_def Let_def)

lemma bmid_eq: "bmid i b = drop i b"
  by (simp add: bmid_def)

lemma bmid_len_eq: "bmid_len i k b = take k (drop i b)"
  by (auto simp: bmid_len_def Let_def)

lemmas slice_simps = bleft_eq bright_eq bmid_eq bmid_len_eq

end
