(* ===== verification/Packet.thy ===== *)
theory Packet
  imports RnsTypes
begin

text \<open>
  Packets and their receipts: \<open>Packet.cpp\<close> and \<open>Packet.h\<close>.

  A \<open>Packet\<close> is a handle on a shared object, and so are the \<open>Destination\<close> and the \<open>Link\<close> it points to;
  the record holds the fields of the objects, and an operation that changes the link returns it inside
  the packet. \<open>None\<close> is a handle constructed from \<open>NONE\<close>. An operation that throws returns the state the
  throw leaves behind together with the fault. What the packet layer calls outside itself enters as
  the environment \<open>penv\<close>: SHA-256 and the Ed25519 check (mbedtls and donna), the encryption of the
  destination or link, the transport's answer to an outbound packet and its view of the path.
  The diagnostic dumps and the log are not modelled.
\<close>

section \<open>State\<close>

record ident =
  id_sig_pub :: bytes
  id_has_prv :: bool

record dest =
  de_hash :: bytes
  de_type :: dest_type
  de_ident :: "ident option"

record lnk =
  ln_id :: bytes
  ln_status :: link_status
  ln_mtu :: u16
  ln_mdu :: u16
  ln_rtt :: secs
  ln_ttf :: u8
  ln_last_outbound :: secs
  ln_last_proof :: secs
  ln_tx :: u16
  ln_txbytes :: u16
  ln_peer_sig_pub :: bytes

record receipt =
  rc_hash :: bytes
  rc_truncated_hash :: bytes
  rc_sent_at :: secs
  rc_proved :: bool
  rc_status :: receipt_status
  rc_dest :: dest
  rc_delivery_cb :: bool
  rc_concluded_at :: secs
  rc_timeout :: "16 word"
  rc_hops :: u8
  rc_rssi :: "secs option"
  rc_snr :: "secs option"
  rc_deliveries :: nat

text \<open>
  \<open>rc_deliveries\<close> counts the calls of the delivery callback, the receipt's only effect on the program
  around it; a signal strength of \<open>None\<close> is the NaN of a non-radio interface.
\<close>

record packet =
  pk_dest :: "dest option"
  pk_dlink :: "lnk option"
  pk_link :: "lnk option"
  pk_header_type :: header_type
  pk_transport_type :: transport_type
  pk_dest_type :: dest_type
  pk_packet_type :: packet_type
  pk_context :: u8
  pk_context_flag :: context_flag
  pk_flags :: u8
  pk_hops :: u8
  pk_packed :: bool
  pk_sent :: bool
  pk_create_receipt :: bool
  pk_from_packed :: bool
  pk_truncated :: bool
  pk_encrypted :: bool
  pk_receipt :: "receipt option"
  pk_mtu :: u16
  pk_rssi :: "secs option"
  pk_snr :: "secs option"
  pk_packet_hash :: bytes
  pk_dest_hash :: bytes
  pk_transport_id :: bytes
  pk_raw :: bytes
  pk_data :: bytes
  pk_header :: bytes
  pk_ciphertext :: bytes

record penv =
  en_hash :: "bytes \<Rightarrow> bytes"
  en_verify :: "bytes \<Rightarrow> bytes \<Rightarrow> bytes \<Rightarrow> bool"
  en_dest_encrypt :: "dest \<Rightarrow> bytes \<Rightarrow> bytes res"
  en_link_encrypt :: "lnk \<Rightarrow> bytes \<Rightarrow> bytes res"
  en_outbound :: "packet \<Rightarrow> packet \<times> bool"
  en_first_hop_timeout :: "bytes \<Rightarrow> secs"
  en_hops_to :: "bytes \<Rightarrow> u8"

text \<open>The members of a fresh packet object.\<close>

definition packet_object :: packet where
  "packet_object = \<lparr>pk_dest = None, pk_dlink = None, pk_link = None, pk_header_type = HEADER_1,
     pk_transport_type = BROADCAST, pk_dest_type = SINGLE, pk_packet_type = DATA,
     pk_context = CONTEXT_NONE, pk_context_flag = FLAG_UNSET, pk_flags = 0, pk_hops = 0,
     pk_packed = False, pk_sent = False, pk_create_receipt = False, pk_from_packed = False,
     pk_truncated = False, pk_encrypted = False, pk_receipt = None, pk_mtu = MTU, pk_rssi = None,
     pk_snr = None, pk_packet_hash = [], pk_dest_hash = [], pk_transport_id = [], pk_raw = [],
     pk_data = [], pk_header = [], pk_ciphertext = []\<rparr>"

section \<open>Flags\<close>

definition flag_byte :: "header_type \<Rightarrow> context_flag \<Rightarrow> transport_type \<Rightarrow> dest_type \<Rightarrow> packet_type \<Rightarrow> u8" where
  "flag_byte ht cf tt dt pt =
     push_bit 6 (header_code ht) OR push_bit 5 (cflag_code cf) OR push_bit 4 (transport_code tt) OR
     push_bit 2 (dest_code dt) OR packet_code pt"

definition get_packed_flags :: "packet \<Rightarrow> u8 res" where
  "get_packed_flags p =
    (if pk_context p = LRPROOF then
       Inr (flag_byte (pk_header_type p) (pk_context_flag p) (pk_transport_type p) LINK (pk_packet_type p))
     else case pk_dest p of
       None \<Rightarrow> Inl Logic_error
     | Some d \<Rightarrow> Inr (flag_byte (pk_header_type p) (pk_context_flag p) (pk_transport_type p) (de_type d)
         (pk_packet_type p)))"

definition unpack_flags :: "u8 \<Rightarrow> packet \<Rightarrow> packet" where
  "unpack_flags flags p = p\<lparr>
     pk_header_type := header_of_code (drop_bit 6 (flags AND 0x40)),
     pk_context_flag := cflag_of_code (drop_bit 5 (flags AND 0x20)),
     pk_transport_type := transport_of_code (drop_bit 4 (flags AND 0x10)),
     pk_dest_type := dest_of_code (drop_bit 2 (flags AND 0x0c)),
     pk_packet_type := packet_of_code (flags AND 0x03)\<rparr>"

section \<open>Construction\<close>

text \<open>
  A link's \<open>hash()\<close> and \<open>link_id()\<close> are assigned together and always equal, hence one field \<open>ln_id\<close>.
  The constructor of an outgoing packet; with no destination it takes \<open>data\<close> as a received packet's
  raw bytes. \<open>packet_from_raw\<close> is the one-argument constructor.
\<close>

definition packet_new ::
    "dest option \<Rightarrow> bytes \<Rightarrow> packet_type \<Rightarrow> u8 \<Rightarrow> transport_type \<Rightarrow> header_type \<Rightarrow> bytes \<Rightarrow> bool \<Rightarrow>
     context_flag \<Rightarrow> packet res" where
  "packet_new destination d pt ctx tt ht tid cr cf =
    (case destination of
       Some _ \<Rightarrow>
         let p = packet_object\<lparr>pk_dest := destination, pk_header_type := ht, pk_packet_type := pt,
                   pk_transport_type := tt, pk_context := ctx, pk_context_flag := cf,
                   pk_transport_id := tid, pk_data := d\<rparr>;
             p = (if length (pk_data p) > MDU
                  then p\<lparr>pk_truncated := True, pk_data := resize_to MDU (pk_data p)\<rparr> else p)
         in rbind (get_packed_flags p) (\<lambda>fl. Inr (p\<lparr>pk_flags := fl, pk_create_receipt := cr\<rparr>))
     | None \<Rightarrow> Inr (packet_object\<lparr>pk_raw := d, pk_packed := True, pk_from_packed := True,
                 pk_create_receipt := False\<rparr>))"

definition packet_from_raw :: "bytes \<Rightarrow> packet" where
  "packet_from_raw raw = packet_object\<lparr>pk_raw := raw\<rparr>"

definition packet_new_link ::
    "lnk \<Rightarrow> bytes \<Rightarrow> packet_type \<Rightarrow> u8 \<Rightarrow> context_flag \<Rightarrow> packet res" where
  "packet_new_link l d pt ctx cf =
    rbind (packet_new (Some \<lparr>de_hash = ln_id l, de_type = LINK, de_ident = None\<rparr>) d pt ctx BROADCAST
             HEADER_1 [] True cf) (\<lambda>p.
      let p = p\<lparr>pk_dlink := Some l, pk_mtu := ln_mtu l\<rparr> in
      rbind (get_packed_flags p) (\<lambda>fl. Inr (p\<lparr>pk_flags := fl\<rparr>)))"

section \<open>Hashes\<close>

definition hashable_part :: "packet \<Rightarrow> bytes res" where
  "hashable_part p =
    rbind (rd (pk_raw p) 0) (\<lambda>b.
      Inr ((b AND 0x0f) #
        (if pk_header_type p = HEADER_2 then bmid (TRUNCATED_HASHLENGTH div 8 + 2) (pk_raw p)
         else bmid 2 (pk_raw p))))"

definition get_hash :: "penv \<Rightarrow> packet \<Rightarrow> bytes res" where
  "get_hash e p = rbind (hashable_part p) (\<lambda>h. Inr (en_hash e h))"

definition get_truncated_hash :: "penv \<Rightarrow> packet \<Rightarrow> bytes res" where
  "get_truncated_hash e p =
     rbind (hashable_part p) (\<lambda>h. Inr (bleft (TRUNCATED_HASHLENGTH div 8) (en_hash e h)))"

definition update_hash :: "penv \<Rightarrow> packet \<Rightarrow> packet res" where
  "update_hash e p = rbind (get_hash e p) (\<lambda>h. Inr (p\<lparr>pk_packet_hash := h\<rparr>))"

text \<open>The destination that routes a proof back to the sender of the proved packet.\<close>

definition proof_destination :: "penv \<Rightarrow> packet \<Rightarrow> dest res" where
  "proof_destination e p = rbind (get_hash e p) (\<lambda>h.
     Inr \<lparr>de_hash = bleft (TRUNCATED_HASHLENGTH div 8) h, de_type = SINGLE, de_ident = None\<rparr>)"

section \<open>Packing\<close>

text \<open>The payloads that go out as they are: the chain of exceptions under \<open>HEADER_1\<close>.\<close>

definition plain_payload :: "packet \<Rightarrow> dest \<Rightarrow> bool" where
  "plain_payload p d \<longleftrightarrow>
     pk_packet_type p = ANNOUNCE \<or> pk_packet_type p = LINKREQUEST \<or>
     (pk_packet_type p = PROOF \<and> pk_context p = RESOURCE_PRF) \<or>
     (pk_packet_type p = PROOF \<and> de_type d = LINK) \<or>
     pk_context p = RESOURCE \<or> pk_context p = KEEPALIVE \<or> pk_context p = CACHE_REQUEST"

definition pack_finish :: "penv \<Rightarrow> packet \<Rightarrow> packet \<times> fault option" where
  "pack_finish e p =
    (let p = p\<lparr>pk_header := pk_header p @ [pk_context p]\<rparr>;
         p = p\<lparr>pk_raw := pk_header p @ pk_ciphertext p\<rparr>
     in if length (pk_raw p) > unat (pk_mtu p) then (p, Some Length_error)
        else let p = p\<lparr>pk_packed := True\<rparr> in
          case update_hash e p of Inl f \<Rightarrow> (p, Some f) | Inr p \<Rightarrow> (p, None))"

definition pack :: "penv \<Rightarrow> packet \<Rightarrow> packet \<times> fault option" where
  "pack e p =
    (case pk_dest p of
       None \<Rightarrow> (p, Some Logic_error)
     | Some d \<Rightarrow>
       let p = p\<lparr>pk_dest_hash := de_hash d, pk_header := [], pk_encrypted := False\<rparr>;
           p = p\<lparr>pk_header := pk_header p @ [pk_flags p, pk_hops p]\<rparr>
       in if pk_context p = LRPROOF then
            (case pk_dlink p of
               None \<Rightarrow> (p, Some Invalid_argument)
             | Some l \<Rightarrow>
                 pack_finish e (p\<lparr>pk_header := pk_header p @ ln_id l, pk_ciphertext := pk_data p\<rparr>))
          else if pk_header_type p = HEADER_1 then
            let p = p\<lparr>pk_header := pk_header p @ de_hash d\<rparr> in
            if plain_payload p d then pack_finish e (p\<lparr>pk_ciphertext := pk_data p\<rparr>)
            else
              (case (case pk_dlink p of Some l \<Rightarrow> en_link_encrypt e l (pk_data p)
                     | None \<Rightarrow> en_dest_encrypt e d (pk_data p)) of
                 Inl f \<Rightarrow> (p, Some f)
               | Inr c \<Rightarrow> pack_finish e (p\<lparr>pk_ciphertext := c, pk_encrypted := True\<rparr>))
          else if pk_transport_id p = [] then (p, Some Invalid_argument)
          else
            let p = p\<lparr>pk_header := pk_header p @ pk_transport_id p @ de_hash d\<rparr> in
            pack_finish e (if pk_packet_type p = ANNOUNCE then p\<lparr>pk_ciphertext := pk_data p\<rparr> else p))"

section \<open>Unpacking\<close>

text \<open>\<open>unpack\<close> catches its own exceptions: a malformed packet is \<open>False\<close>, with the fields set so far.\<close>

definition unpack :: "penv \<Rightarrow> packet \<Rightarrow> packet \<times> bool" where
  "unpack e p =
    (if length (pk_raw p) < HEADER_MINSIZE then (p, False)
     else
       let raw = pk_raw p;
           p = unpack_flags (raw ! 0) (p\<lparr>pk_flags := raw ! 0, pk_hops := raw ! 1\<rparr>)
       in if pk_header_type p = HEADER_2 \<and> length raw < HEADER_MAXSIZE then (p, False)
          else
            let p = (if pk_header_type p = HEADER_2 then
                       p\<lparr>pk_transport_id := take DESTINATION_LENGTH (drop 2 raw),
                         pk_dest_hash := take DESTINATION_LENGTH (drop (DESTINATION_LENGTH + 2) raw),
                         pk_context := raw ! (2 * DESTINATION_LENGTH + 2),
                         pk_data := drop (2 * DESTINATION_LENGTH + 3) raw,
                         pk_encrypted := False\<rparr>
                     else
                       p\<lparr>pk_transport_id := [],
                         pk_dest_hash := take DESTINATION_LENGTH (drop 2 raw),
                         pk_context := raw ! (DESTINATION_LENGTH + 2),
                         pk_data := drop (DESTINATION_LENGTH + 3) raw,
                         pk_encrypted := False\<rparr>);
                p = p\<lparr>pk_packed := False\<rparr>
            in case update_hash e p of Inl f \<Rightarrow> (p, False) | Inr p \<Rightarrow> (p, True))"

section \<open>Sending\<close>

definition link_sent :: "secs \<Rightarrow> nat \<Rightarrow> lnk \<Rightarrow> lnk" where
  "link_sent now n l = l\<lparr>ln_last_outbound := now, ln_tx := ln_tx l + 1,
     ln_txbytes := ln_txbytes l + of_nat n\<rparr>"

text \<open>
  \<open>send\<close> returns the packet's receipt, or no receipt where no interface took the packet. A packet
  without a destination is a null dereference at its first line.
\<close>

definition send_out :: "penv \<Rightarrow> packet \<Rightarrow> packet \<times> receipt option res" where
  "send_out e p =
    (let (p, ok) = en_outbound e p in
     if ok then let p = p\<lparr>pk_sent := True\<rparr> in (p, Inr (pk_receipt p))
     else (p\<lparr>pk_sent := False, pk_receipt := None\<rparr>, Inr None))"

definition send :: "penv \<Rightarrow> secs \<Rightarrow> packet \<Rightarrow> packet \<times> receipt option res" where
  "send e now p =
    (if pk_sent p then (p, Inl Logic_error)
     else case pk_dest p of
       None \<Rightarrow> (p, Inl Undefined)
     | Some d \<Rightarrow>
       (case (if de_type d = LINK then
                (case pk_dlink p of
                   None \<Rightarrow> Inl Invalid_argument
                 | Some l \<Rightarrow>
                     if ln_status l = CLOSED then Inl Runtime_error
                     else Inr (p\<lparr>pk_dlink := Some (link_sent now (length (pk_data p)) l)\<rparr>))
              else Inr p) of
          Inl f \<Rightarrow> (p, Inl f)
        | Inr p \<Rightarrow>
            if \<not> pk_packed p then
              (case pack e p of
                 (p, Some f) \<Rightarrow> (p, Inl f)
               | (p, None) \<Rightarrow> send_out e p)
            else send_out e p))"

definition resend :: "penv \<Rightarrow> packet \<Rightarrow> packet \<times> bool res" where
  "resend e p =
    (if \<not> pk_sent p then (p, Inl Logic_error)
     else case pack e p of
       (p, Some f) \<Rightarrow> (p, Inl f)
     | (p, None) \<Rightarrow>
         let (p, ok) = en_outbound e p in
         if ok then (p, Inr True) else (p\<lparr>pk_sent := False\<rparr>, Inr False))"

text \<open>What \<open>prove\<close> asks for: a proof by the destination's identity, by the link, or nothing.\<close>

datatype prove_action = By_identity ident | By_link lnk | No_proof

definition prove :: "packet \<Rightarrow> prove_action" where
  "prove p =
    (if pk_from_packed p \<and> pk_dest p \<noteq> None then
       (case de_ident (the (pk_dest p)) of
          Some i \<Rightarrow> if id_has_prv i then By_identity i else No_proof
        | None \<Rightarrow> No_proof)
     else if pk_from_packed p \<and> pk_link p \<noteq> None then By_link (the (pk_link p))
     else No_proof)"

section \<open>Flags survive the header byte\<close>

definition wire_transport :: "transport_type \<Rightarrow> bool" where
  "wire_transport tt \<longleftrightarrow> tt = BROADCAST \<or> tt = TRANSPORT"

lemma flag_fields_all:
  "\<forall>ht \<in> set [HEADER_1, HEADER_2]. \<forall>cf \<in> set [FLAG_UNSET, FLAG_SET].
   \<forall>tt \<in> set [BROADCAST, TRANSPORT]. \<forall>dt \<in> set [SINGLE, GROUP, PLAIN, LINK].
   \<forall>pt \<in> set [DATA, ANNOUNCE, LINKREQUEST, PROOF]. let fl = flag_byte ht cf tt dt pt in
     header_of_code (drop_bit 6 (fl AND 0x40)) = ht \<and> cflag_of_code (drop_bit 5 (fl AND 0x20)) = cf \<and>
     transport_of_code (drop_bit 4 (fl AND 0x10)) = tt \<and> dest_of_code (drop_bit 2 (fl AND 0x0c)) = dt \<and>
     packet_of_code (fl AND 0x03) = pt \<and> fl AND 0x80 = 0"
  by code_simp

lemma header_bit_all:
  "\<forall>k \<in> set [0..<256]. header_of_code (drop_bit 6 ((of_nat k :: u8) AND 0x40)) = HEADER_2 \<longleftrightarrow>
     (of_nat k :: u8) AND 0x40 \<noteq> 0"
  by code_simp

lemma header_bit: "header_of_code (drop_bit 6 (w AND 0x40)) = HEADER_2 \<longleftrightarrow> w AND 0x40 \<noteq> 0"
  by (rule all_bytes [OF header_bit_all])

lemma flag_fields:
  assumes "wire_transport tt"
  shows "header_of_code (drop_bit 6 (flag_byte ht cf tt dt pt AND 0x40)) = ht \<and>
     cflag_of_code (drop_bit 5 (flag_byte ht cf tt dt pt AND 0x20)) = cf \<and>
     transport_of_code (drop_bit 4 (flag_byte ht cf tt dt pt AND 0x10)) = tt \<and>
     dest_of_code (drop_bit 2 (flag_byte ht cf tt dt pt AND 0x0c)) = dt \<and>
     packet_of_code (flag_byte ht cf tt dt pt AND 0x03) = pt \<and> flag_byte ht cf tt dt pt AND 0x80 = 0"
proof -
  have "ht \<in> set [HEADER_1, HEADER_2]" by (cases ht) simp_all
  moreover have "cf \<in> set [FLAG_UNSET, FLAG_SET]" by (cases cf) simp_all
  moreover have "tt \<in> set [BROADCAST, TRANSPORT]" using assms by (auto simp: wire_transport_def)
  moreover have "dt \<in> set [SINGLE, GROUP, PLAIN, LINK]" by (cases dt) simp_all
  moreover have "pt \<in> set [DATA, ANNOUNCE, LINKREQUEST, PROOF]" by (cases pt) simp_all
  ultimately show ?thesis using flag_fields_all unfolding Let_def by blast
qed

lemma unpack_flag_byte:
  assumes "wire_transport tt"
  shows "unpack_flags (flag_byte ht cf tt dt pt) p = p\<lparr>pk_header_type := ht, pk_context_flag := cf,
    pk_transport_type := tt, pk_dest_type := dt, pk_packet_type := pt\<rparr>"
  using flag_fields [OF assms, of ht cf dt pt] by (simp add: unpack_flags_def)

section \<open>What a successful pack leaves\<close>

text \<open>The address part of the header.\<close>

definition address :: "packet \<Rightarrow> dest \<Rightarrow> bytes" where
  "address p d =
    (if pk_context p = LRPROOF then (case pk_dlink p of Some l \<Rightarrow> ln_id l | None \<Rightarrow> [])
     else if pk_header_type p = HEADER_1 then de_hash d
     else pk_transport_id p @ de_hash d)"

lemma pack_finish_ok:
  assumes "pack_finish e p = (q, None)"
  shows "pk_raw q = pk_header p @ [pk_context p] @ pk_ciphertext p \<and>
    length (pk_raw q) \<le> unat (pk_mtu p) \<and> pk_packed q \<and> get_hash e q = Inr (pk_packet_hash q) \<and>
    (\<exists>h. q = p\<lparr>pk_header := pk_header p @ [pk_context p],
         pk_raw := pk_header p @ [pk_context p] @ pk_ciphertext p, pk_packed := True,
         pk_packet_hash := h\<rparr>)"
  using assms
  by (auto simp: pack_finish_def Let_def update_hash_def get_hash_def hashable_part_def rbind_eq_Inr
      rbind_eq_Inl split: if_splits sum.splits)

lemma pack_ok:
  assumes "pack e p = (q, None)"
  obtains d where "pk_dest p = Some d"
    and "pk_raw q = [pk_flags p, pk_hops p] @ address p d @ [pk_context p] @ pk_ciphertext q"
    and "length (pk_raw q) \<le> unat (pk_mtu p)" and "pk_packed q"
    and "get_hash e q = Inr (pk_packet_hash q)"
    and "pk_dest q = Some d" "pk_dlink q = pk_dlink p" "pk_header_type q = pk_header_type p"
      "pk_transport_id q = pk_transport_id p" "pk_context q = pk_context p" "pk_data q = pk_data p"
      "pk_dest_hash q = de_hash d" "pk_flags q = pk_flags p" "pk_hops q = pk_hops p"
    and "pk_context p = LRPROOF \<longrightarrow> pk_dlink p \<noteq> None"
    and "pk_context p \<noteq> LRPROOF \<and> pk_header_type p = HEADER_2 \<longrightarrow> pk_transport_id p \<noteq> []"
proof -
  from assms obtain d where d: "pk_dest p = Some d"
    by (auto simp: pack_def split: option.splits)
  show thesis
  proof (rule that [OF d])
  qed (use assms d in \<open>auto simp: pack_def Let_def address_def split: option.splits if_splits sum.splits
      dest!: pack_finish_ok\<close>)
qed

section \<open>Round trip over the wire\<close>

text \<open>The shape of a received packet, by the header type in its first byte.\<close>

lemma unpack_header1:
  assumes "raw = [fl, hops] @ dh @ [ctx] @ body" and "length dh = 16"
    and "header_of_code (drop_bit 6 (fl AND 0x40)) = HEADER_1"
  shows "unpack e (packet_from_raw raw) =
    ((unpack_flags fl (packet_from_raw raw))\<lparr>pk_flags := fl, pk_hops := hops, pk_transport_id := [],
       pk_dest_hash := dh, pk_context := ctx, pk_data := body, pk_encrypted := False, pk_packed := False,
       pk_packet_hash := en_hash e ((fl AND 0x0f) # dh @ [ctx] @ body)\<rparr>, True)"
  using assms
  by (simp add: unpack_def packet_from_raw_def packet_object_def unpack_flags_def const_defs
      update_hash_def get_hash_def hashable_part_def Let_def slice_simps nth_append numeral_2_eq_2
      numeral_3_eq_3)

lemma unpack_header2:
  assumes "raw = [fl, hops] @ tid @ dh @ [ctx] @ body" and "length tid = 16" and "length dh = 16"
    and "header_of_code (drop_bit 6 (fl AND 0x40)) = HEADER_2"
  shows "unpack e (packet_from_raw raw) =
    ((unpack_flags fl (packet_from_raw raw))\<lparr>pk_flags := fl, pk_hops := hops, pk_transport_id := tid,
       pk_dest_hash := dh, pk_context := ctx, pk_data := body, pk_encrypted := False, pk_packed := False,
       pk_packet_hash := en_hash e ((fl AND 0x0f) # dh @ [ctx] @ body)\<rparr>, True)"
  using assms
  by (simp add: unpack_def packet_from_raw_def packet_object_def unpack_flags_def const_defs
      update_hash_def get_hash_def hashable_part_def Let_def slice_simps nth_append numeral_2_eq_2
      numeral_3_eq_3)

text \<open>
  What the constructor guarantees and \<open>pack\<close> relies on: flags computed from the fields, addresses of the
  wire's length, a transport type the one bit can hold, and one address for a link proof.
\<close>

definition packable :: "packet \<Rightarrow> dest \<Rightarrow> bool" where
  "packable p d \<longleftrightarrow> pk_dest p = Some d \<and> get_packed_flags p = Inr (pk_flags p) \<and>
     wire_transport (pk_transport_type p) \<and>
     (if pk_context p = LRPROOF
      then pk_header_type p = HEADER_1 \<and> (\<forall>l. pk_dlink p = Some l \<longrightarrow> length (ln_id l) = 16)
      else length (de_hash d) = 16 \<and> (pk_header_type p = HEADER_2 \<longrightarrow> length (pk_transport_id p) = 16))"

definition wire_dest_type :: "packet \<Rightarrow> dest \<Rightarrow> dest_type" where
  "wire_dest_type p d = (if pk_context p = LRPROOF then LINK else de_type d)"

definition wire_dest_hash :: "packet \<Rightarrow> dest \<Rightarrow> bytes" where
  "wire_dest_hash p d =
    (if pk_context p = LRPROOF then (case pk_dlink p of Some l \<Rightarrow> ln_id l | None \<Rightarrow> []) else de_hash d)"

lemma packable_flags:
  "packable p d \<Longrightarrow> pk_flags p = flag_byte (pk_header_type p) (pk_context_flag p) (pk_transport_type p)
     (wire_dest_type p d) (pk_packet_type p)"
  by (auto simp: packable_def get_packed_flags_def wire_dest_type_def split: if_splits)

lemma pack_unpack_fields:
  assumes "packable p d" and "pack e p = (q, None)"
  shows "\<exists>r. unpack e (packet_from_raw (pk_raw q)) = (r, True) \<and>
    pk_header_type r = pk_header_type p \<and> pk_context_flag r = pk_context_flag p \<and>
    pk_transport_type r = pk_transport_type p \<and> pk_dest_type r = wire_dest_type p d \<and>
    pk_packet_type r = pk_packet_type p \<and> pk_hops r = pk_hops p \<and>
    pk_transport_id r = (if pk_header_type p = HEADER_2 then pk_transport_id p else []) \<and>
    pk_dest_hash r = wire_dest_hash p d \<and> pk_context r = pk_context p \<and>
    pk_data r = pk_ciphertext q \<and> pk_packet_hash r = pk_packet_hash q"
proof -
  note ok = pack_ok [OF assms(2)]
  from assms(1) have d: "pk_dest p = Some d" by (simp add: packable_def)
  have raw: "pk_raw q = [pk_flags p, pk_hops p] @ address p d @ [pk_context p] @ pk_ciphertext q"
    and hash: "get_hash e q = Inr (pk_packet_hash q)" and ht: "pk_header_type q = pk_header_type p"
    and link: "pk_context p = LRPROOF \<longrightarrow> pk_dlink p \<noteq> None"
    using ok d by (metis option.inject)+
  let ?fl = "pk_flags p"
  note fl = packable_flags [OF assms(1)]
  have wt: "wire_transport (pk_transport_type p)" using assms(1) by (simp add: packable_def)
  have htc: "header_of_code (drop_bit 6 (?fl AND 0x40)) = pk_header_type p"
    using flag_fields [OF wt] fl by simp
  have uf: "unpack_flags ?fl r = r\<lparr>pk_header_type := pk_header_type p,
      pk_context_flag := pk_context_flag p, pk_transport_type := pk_transport_type p,
      pk_dest_type := wire_dest_type p d, pk_packet_type := pk_packet_type p\<rparr>" for r
    using unpack_flag_byte [OF wt] fl by simp
  show ?thesis
  proof (cases "pk_header_type p")
    case HEADER_1
    have addr: "address p d = wire_dest_hash p d" "length (wire_dest_hash p d) = 16"
      using assms(1) link HEADER_1
      by (auto simp: address_def wire_dest_hash_def packable_def split: if_splits option.splits)
    have "pk_packet_hash q = en_hash e ((?fl AND 0x0f) # wire_dest_hash p d @ [pk_context p] @ pk_ciphertext q)"
      using hash raw ht HEADER_1 addr(1)
      by (auto simp: get_hash_def hashable_part_def slice_simps)
    then show ?thesis
      using unpack_header1 [of "pk_raw q" ?fl "pk_hops p" "wire_dest_hash p d" "pk_context p" "pk_ciphertext q" e]
        raw addr htc HEADER_1 by (simp add: uf)
  next
    case HEADER_2
    then have ctx: "pk_context p \<noteq> LRPROOF" using assms(1) by (auto simp: packable_def split: if_splits)
    have addr: "address p d = pk_transport_id p @ wire_dest_hash p d"
      "length (wire_dest_hash p d) = 16" "length (pk_transport_id p) = 16"
      using assms(1) HEADER_2 ctx by (auto simp: address_def wire_dest_hash_def packable_def)
    have "pk_packet_hash q = en_hash e ((?fl AND 0x0f) # wire_dest_hash p d @ [pk_context p] @ pk_ciphertext q)"
      using hash raw ht HEADER_2 addr
      by (auto simp: get_hash_def hashable_part_def slice_simps TRUNCATED_HASHLENGTH_def)
    then show ?thesis
      using unpack_header2 [of "pk_raw q" ?fl "pk_hops p" "pk_transport_id p" "wire_dest_hash p d"
          "pk_context p" "pk_ciphertext q" e] raw addr htc HEADER_2 by (simp add: uf)
  qed
qed

text \<open>C30: a packet that packs is read back by the receiver as it was built: header, context flag,
  transport, destination and packet type, hop count, addresses and context are the sender's, the data
  is the sender's ciphertext, and both ends compute the same packet hash, the name by which proofs and
  receipts refer to the packet.\<close>

lemma pack_unpack_roundtrip:
  assumes "packable p d" and "pack e p = (q, None)"
  shows "\<exists>r. unpack e (packet_from_raw (pk_raw q)) = (r, True) \<and>
    pk_header_type r = pk_header_type p \<and> pk_context_flag r = pk_context_flag p \<and>
    pk_transport_type r = pk_transport_type p \<and> pk_dest_type r = wire_dest_type p d \<and>
    pk_packet_type r = pk_packet_type p \<and> pk_hops r = pk_hops p \<and>
    pk_transport_id r = (if pk_header_type p = HEADER_2 then pk_transport_id p else []) \<and>
    pk_dest_hash r = wire_dest_hash p d \<and> pk_context r = pk_context p \<and>
    pk_data r = pk_ciphertext q \<and> pk_packet_hash r = pk_packet_hash q"
  by (rule pack_unpack_fields [OF assms])

text \<open>An environment and a packet for the concrete instances.\<close>

definition sample_env :: penv where
  "sample_env = \<lparr>en_hash = \<lambda>b. take 32 (b @ replicate 32 0),
     en_verify = \<lambda>k s m. k = [1] \<and> s = replicate 64 2, en_dest_encrypt = \<lambda>d b. Inr (0 # b),
     en_link_encrypt = \<lambda>l b. Inr (1 # b), en_outbound = \<lambda>p. (p, True),
     en_first_hop_timeout = \<lambda>_. 6, en_hops_to = \<lambda>_. 2\<rparr>"

definition sample_dest :: dest where
  "sample_dest = \<lparr>de_hash = replicate 16 3, de_type = SINGLE,
     de_ident = Some \<lparr>id_sig_pub = [1], id_has_prv = False\<rparr>\<rparr>"

definition sample_packet :: packet where
  "sample_packet = packet_object\<lparr>pk_dest := Some sample_dest, pk_context_flag := FLAG_SET,
     pk_flags := 0x20, pk_data := [7, 8]\<rparr>"

lemma sample_packable: "packable sample_packet sample_dest"
  by (simp add: packable_def sample_packet_def sample_dest_def packet_object_def get_packed_flags_def
      wire_transport_def flag_byte_def)

lemma pack_unpack_roundtrip_witness:
  "\<exists>q r. pack sample_env sample_packet = (q, None) \<and>
     unpack sample_env (packet_from_raw (pk_raw q)) = (r, True) \<and> pk_context_flag r = FLAG_SET \<and>
     pk_dest_hash r = replicate 16 3 \<and> pk_data r = [0, 7, 8]"
proof -
  have "snd (pack sample_env sample_packet) = None" by code_simp
  then obtain q where q: "pack sample_env sample_packet = (q, None)"
    by (cases "pack sample_env sample_packet") simp
  have "pk_ciphertext (fst (pack sample_env sample_packet)) = [0, 7, 8]" by code_simp
  moreover have "pk_context_flag sample_packet = FLAG_SET" by code_simp
  moreover have "wire_dest_hash sample_packet sample_dest = replicate 16 3" by code_simp
  ultimately show ?thesis
    using pack_unpack_roundtrip [OF sample_packable q] q by auto
qed

text \<open>\<open>unpack\<close> accepts exactly the packets that hold a whole header: 19 bytes, or 35 when the header
  type bit announces two addresses. What it accepts it splits without loss.\<close>

lemma unpack_accepts:
  "snd (unpack e (packet_from_raw raw)) =
     (19 \<le> length raw \<and> (raw ! 0 AND 0x40 = 0 \<or> 35 \<le> length raw))"
proof -
  have "header_of_code (drop_bit 6 (w AND 0x40)) = HEADER_2 \<longleftrightarrow> w AND 0x40 \<noteq> 0" for w
    by (rule header_bit)
  then show ?thesis
    by (auto simp: unpack_def packet_from_raw_def packet_object_def unpack_flags_def const_values
        update_hash_def get_hash_def hashable_part_def Let_def rd_def)
qed

text \<open>the packet hash does not depend on the route. A transport node that takes a packet on by
  writing its next hop's address in front of the destination, and changes the flags above the low
  nibble and the hop count, leaves the hash every node computes unchanged.\<close>

lemma hash_in_transport:
  assumes "length tid = 16" and "length dh = 16" and "fl' AND 0x0f = fl AND 0x0f"
    and "fl AND 0x40 = 0" and "fl' AND 0x40 = 0x40"
  shows "pk_packet_hash (fst (unpack e (packet_from_raw ([fl', hops'] @ tid @ dh @ [ctx] @ body)))) =
    pk_packet_hash (fst (unpack e (packet_from_raw ([fl, hops] @ dh @ [ctx] @ body))))"
proof -
  have "header_of_code (drop_bit 6 (fl AND 0x40)) = HEADER_1"
    "header_of_code (drop_bit 6 (fl' AND 0x40)) = HEADER_2"
    using assms(4,5) by (simp_all add: header_of_code_def)
  then show ?thesis
    using assms(1-3) unpack_header1 [OF refl assms(2)] unpack_header2 [OF refl assms(1,2)]
    by simp
qed

lemma hash_in_transport_witness:
  "pk_packet_hash (fst (unpack sample_env
      (packet_from_raw ([0x51, 4] @ replicate 16 9 @ replicate 16 3 @ [0] @ [7])))) =
    pk_packet_hash (fst (unpack sample_env (packet_from_raw ([0x01, 1] @ replicate 16 3 @ [0] @ [7]))))"
proof -
  have "(0x51 :: u8) AND 0x0f = 0x01 AND 0x0f" "(0x01 :: u8) AND 0x40 = 0" "(0x51 :: u8) AND 0x40 = 0x40"
    by code_simp+
  from hash_in_transport [OF _ _ this, of "replicate 16 9" "replicate 16 3"] show ?thesis by simp
qed

end
