(* ===== verification/Receipt.thy ===== *)
theory Receipt
  imports Packet
begin

text \<open>
  \<open>PacketReceipt\<close>: construction, the two proof validations, the timeout check, and the state machine
  they form. The delivery callback runs inside the validation that settles the receipt and its own
  exceptions are caught there; the model counts the calls.
\<close>

section \<open>Construction\<close>

text \<open>
  The timeout is an \<open>int16_t\<close>: C++ truncates the seconds towards zero, and a value outside the type's
  range is undefined behaviour.
\<close>

definition trunc_rat :: "secs \<Rightarrow> int" where
  "trunc_rat x = (if 0 \<le> x then \<lfloor>x\<rfloor> else \<lceil>x\<rceil>)"

definition to_int16 :: "secs \<Rightarrow> u16 res" where
  "to_int16 x =
    (if - 32768 \<le> trunc_rat x \<and> trunc_rat x \<le> 32767 then Inr (of_int (trunc_rat x))
     else Inl Undefined)"

definition receipt_object :: "secs \<Rightarrow> dest \<Rightarrow> receipt" where
  "receipt_object now d = \<lparr>rc_hash = [], rc_truncated_hash = [], rc_sent_at = now, rc_proved = False,
     rc_status = R_SENT, rc_dest = d, rc_delivery_cb = False, rc_concluded_at = 0, rc_timeout = 0,
     rc_hops = 0, rc_rssi = None, rc_snr = None, rc_deliveries = 0\<rparr>"

definition receipt_new :: "penv \<Rightarrow> secs \<Rightarrow> packet \<Rightarrow> receipt res" where
  "receipt_new e now p =
    (case pk_dest p of
       None \<Rightarrow> Inl Invalid_argument
     | Some d \<Rightarrow>
       rbind (get_hash e p) (\<lambda>h. rbind (get_truncated_hash e p) (\<lambda>th.
         let rc = (receipt_object now d)\<lparr>rc_hash := h, rc_truncated_hash := th\<rparr> in
         if de_type d = LINK then
           (case pk_dlink p of
              None \<Rightarrow> Inl Invalid_argument
            | Some l \<Rightarrow>
                rbind (to_int16 (max (ln_rtt l * of_nat (unat (ln_ttf l)))
                                     (of_nat TRAFFIC_TIMEOUT_MIN_MS / 1000)))
                  (\<lambda>t. Inr (rc\<lparr>rc_timeout := t\<rparr>)))
         else
           rbind (to_int16 (en_first_hop_timeout e (de_hash d))) (\<lambda>t.
             Inr (rc\<lparr>rc_timeout := t + of_nat (TIMEOUT_PER_HOP * unat (en_hops_to e (de_hash d)))\<rparr>)))))"

section \<open>Timeout\<close>

definition set_timeout :: "u16 \<Rightarrow> receipt \<Rightarrow> receipt" where
  "set_timeout t rc = rc\<lparr>rc_timeout := t\<rparr>"

definition set_delivery_callback :: "receipt \<Rightarrow> receipt" where
  "set_delivery_callback rc = rc\<lparr>rc_delivery_cb := True\<rparr>"

definition get_rtt :: "receipt \<Rightarrow> secs" where
  "get_rtt rc = rc_concluded_at rc - rc_sent_at rc"

definition is_timed_out :: "secs \<Rightarrow> receipt \<Rightarrow> bool" where
  "is_timed_out now rc \<longleftrightarrow> rc_sent_at rc + of_int (sint (rc_timeout rc)) < now"

definition check_timeout :: "secs \<Rightarrow> receipt \<Rightarrow> receipt" where
  "check_timeout now rc =
    (if rc_status rc = R_SENT \<and> is_timed_out now rc then
       rc\<lparr>rc_status := (if rc_timeout rc = - 1 then R_CULLED else R_FAILED), rc_concluded_at := now\<rparr>
     else rc)"

section \<open>Proofs\<close>

text \<open>\<open>Link::rtt_sample\<close> and \<open>Link::last_proof\<close>.\<close>

definition rtt_sample :: "secs \<Rightarrow> lnk \<Rightarrow> lnk" where
  "rtt_sample s l =
    (if s \<le> 0 then l
     else if ln_rtt l \<le> 0 then l\<lparr>ln_rtt := s\<rparr>
     else l\<lparr>ln_rtt := ln_rtt l + 0.25 * (s - ln_rtt l)\<rparr>)"

definition last_proof :: "secs \<Rightarrow> lnk \<Rightarrow> lnk" where
  "last_proof t l = l\<lparr>ln_last_proof := t\<rparr>"

text \<open>The four assignments of a valid proof, with the callback.\<close>

definition settle :: "secs \<Rightarrow> receipt \<Rightarrow> receipt" where
  "settle now rc =
    (let rc = rc\<lparr>rc_status := R_DELIVERED, rc_proved := True, rc_concluded_at := now\<rparr> in
     if rc_delivery_cb rc then rc\<lparr>rc_deliveries := rc_deliveries rc + 1\<rparr> else rc)"

definition validate_link_proof :: "penv \<Rightarrow> secs \<Rightarrow> bytes \<Rightarrow> lnk \<Rightarrow> receipt \<Rightarrow> receipt \<times> lnk \<times> bool" where
  "validate_link_proof e now proof l rc =
    (let proof_hash = bleft (HASHLENGTH div 8) proof;
         signature = bmid_len (HASHLENGTH div 8) (SIGLENGTH div 8) proof
     in if proof_hash = rc_hash rc then
          if en_verify e (ln_peer_sig_pub l) signature (rc_hash rc) then
            (settle now rc,
             last_proof now (rtt_sample (now - rc_sent_at rc) l), True)
          else (rc, l, False)
        else (rc, l, False))"

definition validate_proof :: "penv \<Rightarrow> secs \<Rightarrow> bytes \<Rightarrow> receipt \<Rightarrow> receipt \<times> bool" where
  "validate_proof e now proof rc =
    (if length proof = EXPL_LENGTH then
       let proof_hash = bleft (HASHLENGTH div 8) proof;
           signature = bmid_len (HASHLENGTH div 8) (SIGLENGTH div 8) proof
       in if proof_hash = rc_hash rc then
            (case de_ident (rc_dest rc) of
               None \<Rightarrow> (rc, False)
             | Some i \<Rightarrow>
                 if en_verify e (id_sig_pub i) signature (rc_hash rc) then (settle now rc, True)
                 else (rc, False))
          else (rc, False)
     else if length proof = IMPL_LENGTH then
       (case de_ident (rc_dest rc) of
          None \<Rightarrow> (rc, False)
        | Some i \<Rightarrow>
            let signature = bleft (SIGLENGTH div 8) proof in
            if en_verify e (id_sig_pub i) signature (rc_hash rc) then (settle now rc, True)
            else (rc, False))
     else (rc, False))"

text \<open>The proof packet's signal is copied onto the receipt first; its link decides the check.\<close>

definition validate_proof_packet ::
    "penv \<Rightarrow> secs \<Rightarrow> packet \<Rightarrow> receipt \<Rightarrow> receipt \<times> packet \<times> bool" where
  "validate_proof_packet e now pp rc =
    (let rc = rc\<lparr>rc_hops := pk_hops pp, rc_rssi := pk_rssi pp, rc_snr := pk_snr pp\<rparr> in
     case pk_link pp of
       Some l \<Rightarrow>
         let (rc, l, ok) = validate_link_proof e now (pk_data pp) l rc in
         (rc, pp\<lparr>pk_link := Some l\<rparr>, ok)
     | None \<Rightarrow>
         let (rc, ok) = validate_proof e now (pk_data pp) rc in (rc, pp, ok))"

text \<open>\<open>Packet::validate_proof\<close> and \<open>Packet::validate_proof_packet\<close>: the packet's own receipt.\<close>

definition packet_validate_proof :: "penv \<Rightarrow> secs \<Rightarrow> bytes \<Rightarrow> packet \<Rightarrow> packet \<times> bool" where
  "packet_validate_proof e now proof p =
    (case pk_receipt p of
       None \<Rightarrow> (p, False)
     | Some rc \<Rightarrow> let (rc, ok) = validate_proof e now proof rc in (p\<lparr>pk_receipt := Some rc\<rparr>, ok))"

definition packet_validate_proof_packet ::
    "penv \<Rightarrow> secs \<Rightarrow> packet \<Rightarrow> packet \<Rightarrow> packet \<times> packet \<times> bool" where
  "packet_validate_proof_packet e now pp p =
    (case pk_receipt p of
       None \<Rightarrow> (p, pp, False)
     | Some rc \<Rightarrow>
         let (rc, pp, ok) = validate_proof_packet e now pp rc in (p\<lparr>pk_receipt := Some rc\<rparr>, pp, ok))"

section \<open>The state machine\<close>

text \<open>
  What can happen to a receipt while it is alive, in any order and at any times. \<open>K\<close> holds the peer
  signing keys of the links whose proofs are handed to it.
\<close>

inductive rc_step :: "penv \<Rightarrow> bytes set \<Rightarrow> receipt \<Rightarrow> receipt \<Rightarrow> bool" for e K where
  rc_timeout: "rc_step e K rc (check_timeout now rc)"
| rc_set_timeout: "rc_step e K rc (set_timeout t rc)"
| rc_set_callback: "rc_step e K rc (set_delivery_callback rc)"
| rc_proof: "rc_step e K rc (fst (validate_proof e now proof rc))"
| rc_link_proof: "ln_peer_sig_pub l \<in> K \<Longrightarrow> rc_step e K rc (fst (validate_link_proof e now proof l rc))"
| rc_packet_proof: "(\<forall>l. pk_link pp = Some l \<longrightarrow> ln_peer_sig_pub l \<in> K) \<Longrightarrow>
    rc_step e K rc (fst (validate_proof_packet e now pp rc))"

inductive rc_reach :: "penv \<Rightarrow> bytes set \<Rightarrow> receipt \<Rightarrow> receipt \<Rightarrow> bool" for e K where
  rc_here: "rc_reach e K rc rc"
| rc_more: "rc_reach e K rc rc' \<Longrightarrow> rc_step e K rc' rc'' \<Longrightarrow> rc_reach e K rc rc''"

inductive_cases rc_step_cases: "rc_step e K rc rc'"

text \<open>
  A receipt is delivered exactly when it is proved, and then a signature over its packet's hash verified
  under the key of its own destination or of one of those links.
\<close>

definition signers :: "bytes set \<Rightarrow> dest \<Rightarrow> bytes set" where
  "signers K d = K \<union> (case de_ident d of Some i \<Rightarrow> {id_sig_pub i} | None \<Rightarrow> {})"

definition signed :: "penv \<Rightarrow> bytes set \<Rightarrow> dest \<Rightarrow> bytes \<Rightarrow> bool" where
  "signed e K d h \<longleftrightarrow> (\<exists>key \<in> signers K d. \<exists>sig. en_verify e key sig h)"

definition rc_ok :: "penv \<Rightarrow> bytes set \<Rightarrow> dest \<Rightarrow> bytes \<Rightarrow> receipt \<Rightarrow> bool" where
  "rc_ok e K d h rc \<longleftrightarrow> rc_hash rc = h \<and> rc_dest rc = d \<and> (rc_status rc = R_DELIVERED \<longleftrightarrow> rc_proved rc) \<and>
     (rc_proved rc \<longrightarrow> signed e K d h) \<and> (0 < rc_deliveries rc \<longrightarrow> rc_proved rc)"

lemma rc_ok_settle [inv_intros]: "rc_ok e K d h rc \<Longrightarrow> signed e K d h \<Longrightarrow> rc_ok e K d h (settle now rc)"
  by (auto simp: rc_ok_def settle_def Let_def)

lemma rc_ok_timeout [inv_intros]: "rc_ok e K d h rc \<Longrightarrow> rc_ok e K d h (check_timeout now rc)"
  by (auto simp: rc_ok_def check_timeout_def)

lemma rc_ok_set_timeout [inv_intros]: "rc_ok e K d h rc \<Longrightarrow> rc_ok e K d h (set_timeout t rc)"
  by (auto simp: rc_ok_def set_timeout_def)

lemma rc_ok_set_callback [inv_intros]: "rc_ok e K d h rc \<Longrightarrow> rc_ok e K d h (set_delivery_callback rc)"
  by (auto simp: rc_ok_def set_delivery_callback_def)

lemma rc_ok_signal [inv_intros]:
  "rc_ok e K d h rc \<Longrightarrow> rc_ok e K d h (rc\<lparr>rc_hops := a, rc_rssi := b, rc_snr := c\<rparr>)"
  by (simp add: rc_ok_def)

lemma rc_ok_link_proof [inv_intros]:
  assumes "rc_ok e K d h rc" and "ln_peer_sig_pub l \<in> K"
  shows "rc_ok e K d h (fst (validate_link_proof e now proof l rc))"
proof (cases "bleft (HASHLENGTH div 8) proof = rc_hash rc \<and>
    en_verify e (ln_peer_sig_pub l) (bmid_len (HASHLENGTH div 8) (SIGLENGTH div 8) proof) (rc_hash rc)")
  case True
  then have "signed e K d h" using assms by (auto simp: signed_def signers_def rc_ok_def)
  then show ?thesis using True assms(1) by (simp add: validate_link_proof_def Let_def rc_ok_settle)
qed (use assms(1) in \<open>auto simp: validate_link_proof_def Let_def\<close>)

lemma validate_proof_cases:
  "fst (validate_proof e now proof rc) = rc \<or>
   (\<exists>i sig. de_ident (rc_dest rc) = Some i \<and> en_verify e (id_sig_pub i) sig (rc_hash rc) \<and>
      fst (validate_proof e now proof rc) = settle now rc)"
  by (auto simp: validate_proof_def Let_def split: option.splits)

lemma rc_ok_proof [inv_intros]:
  assumes "rc_ok e K d h rc"
  shows "rc_ok e K d h (fst (validate_proof e now proof rc))"
  using validate_proof_cases [of e now "proof" rc]
proof (elim disjE exE conjE)
  fix i sig
  assume "de_ident (rc_dest rc) = Some i" "en_verify e (id_sig_pub i) sig (rc_hash rc)"
  then have "signed e K d h" using assms by (auto simp: signed_def signers_def rc_ok_def)
  moreover assume "fst (validate_proof e now proof rc) = settle now rc"
  ultimately show ?thesis using assms by (simp add: rc_ok_settle)
qed (use assms in simp)

lemma rc_ok_packet_proof [inv_intros]:
  assumes "rc_ok e K d h rc" and "\<forall>l. pk_link pp = Some l \<longrightarrow> ln_peer_sig_pub l \<in> K"
  shows "rc_ok e K d h (fst (validate_proof_packet e now pp rc))"
proof -
  let ?rc = "rc\<lparr>rc_hops := pk_hops pp, rc_rssi := pk_rssi pp, rc_snr := pk_snr pp\<rparr>"
  have ok: "rc_ok e K d h ?rc" using assms(1) by (rule rc_ok_signal)
  show ?thesis
  proof (cases "pk_link pp")
    case None
    then show ?thesis using rc_ok_proof [OF ok, of now "pk_data pp"]
      by (simp add: validate_proof_packet_def Let_def case_prod_beta)
  next
    case (Some l)
    then show ?thesis using rc_ok_link_proof [OF ok, of l now "pk_data pp"] assms(2)
      by (simp add: validate_proof_packet_def Let_def case_prod_beta)
  qed
qed

lemma rc_ok_step: "rc_step e K rc rc' \<Longrightarrow> rc_ok e K d h rc \<Longrightarrow> rc_ok e K d h rc'"
  by (erule rc_step_cases) (auto intro: inv_intros)

lemma rc_ok_reach: "rc_reach e K rc rc' \<Longrightarrow> rc_ok e K d h rc \<Longrightarrow> rc_ok e K d h rc'"
  by (induction rule: rc_reach.induct) (auto intro: rc_ok_step)

text \<open>Delivery is final: no timeout and no bad proof takes it back.\<close>

lemma settle_status [simp]: "rc_status (settle now rc) = R_DELIVERED"
  by (simp add: settle_def Let_def)

lemma delivered_step: "rc_step e K rc rc' \<Longrightarrow> rc_status rc = R_DELIVERED \<Longrightarrow> rc_status rc' = R_DELIVERED"
  by (erule rc_step_cases)
    (auto simp: check_timeout_def set_timeout_def set_delivery_callback_def validate_proof_def
      validate_link_proof_def validate_proof_packet_def Let_def split: option.splits prod.splits)

lemma delivered_reach: "rc_reach e K rc rc' \<Longrightarrow> rc_status rc = R_DELIVERED \<Longrightarrow> rc_status rc' = R_DELIVERED"
  by (induction rule: rc_reach.induct) (auto intro: delivered_step)

lemma receipt_new_ok:
  "receipt_new e now p = Inr rc \<Longrightarrow>
     \<exists>d. pk_dest p = Some d \<and> get_hash e p = Inr (rc_hash rc) \<and> rc_ok e K d (rc_hash rc) rc"
  by (auto simp: receipt_new_def rbind_eq_Inr rc_ok_def receipt_object_def Let_def
      split: option.splits if_splits)

text \<open>C1: a delivery is never claimed without proof. Whatever sequence of timeouts, callbacks and proofs,
  valid or forged, a receipt goes through after \<open>receipt_new\<close>, it reports DELIVERED, and has called the
  delivery callback, only if a signature over the hash of its own packet verified under the key of the
  packet's destination or of a link the proof came over; and once delivered it stays delivered.\<close>

lemma receipt_delivery_sound:
  assumes "receipt_new e t0 p = Inr rc0" and "rc_reach e K rc0 rc" and "rc_reach e K rc rc'"
  shows "(rc_status rc = R_DELIVERED \<or> 0 < rc_deliveries rc \<longrightarrow>
      (\<exists>d h. pk_dest p = Some d \<and> get_hash e p = Inr h \<and> signed e K d h)) \<and>
    (rc_status rc = R_DELIVERED \<longrightarrow> rc_status rc' = R_DELIVERED)"
proof -
  obtain d where d: "pk_dest p = Some d" "get_hash e p = Inr (rc_hash rc0)" "rc_ok e K d (rc_hash rc0) rc0"
    using receipt_new_ok [OF assms(1)] by blast
  from rc_ok_reach [OF assms(2) d(3)] d(1,2) delivered_reach [OF assms(3)]
  show ?thesis by (auto simp: rc_ok_def)
qed

lemma receipt_delivery_sound_witness:
  "\<exists>rc. rc_reach sample_env {} (projr (receipt_new sample_env 0 (sample_packet\<lparr>pk_raw := replicate 19 0\<rparr>))) rc \<and>
     rc_status rc = R_DELIVERED \<and> (\<exists>h. signed sample_env {} sample_dest h)"
proof -
  let ?p = "sample_packet\<lparr>pk_raw := replicate 19 0\<rparr>"
  let ?start = "projr (receipt_new sample_env 0 ?p)"
  let ?settled = "fst (validate_proof sample_env 9 (replicate 64 2) ?start)"
  have "\<not> isl (receipt_new sample_env 0 ?p)" by code_simp
  then have r: "receipt_new sample_env 0 ?p = Inr ?start" by (rule not_isl_projr)
  have reach: "rc_reach sample_env {} ?start ?settled" by (rule rc_more [OF rc_here rc_proof])
  have del: "rc_status ?settled = R_DELIVERED" by code_simp
  have "pk_dest ?p = Some sample_dest" by (simp add: sample_packet_def)
  with receipt_delivery_sound [OF r reach rc_here] reach del show ?thesis by auto
qed

text \<open>a valid proof settles a waiting receipt, in both forms the network carries: the explicit proof
  (packet hash and signature) and the implicit one (the signature alone). The receipt is then delivered
  and proved, concluded now, and its callback has run once more.\<close>

lemma valid_proof_settles:
  assumes "de_ident (rc_dest rc) = Some i" and "en_verify e (id_sig_pub i) sig (rc_hash rc)"
    and "length sig = 64" and "pf = sig \<or> pf = rc_hash rc @ sig \<and> length (rc_hash rc) = 32"
    and "rc_delivery_cb rc"
  shows "validate_proof e now pf rc = (rc\<lparr>rc_status := R_DELIVERED, rc_proved := True,
    rc_concluded_at := now, rc_deliveries := rc_deliveries rc + 1\<rparr>, True)"
  using assms
  by (auto simp: validate_proof_def settle_def Let_def const_values HASHLENGTH_def SIGLENGTH_def slice_simps)

lemma valid_proof_settles_witness:
  "rc_status (fst (validate_proof sample_env 9 (replicate 64 2)
     (set_delivery_callback (receipt_object 0 sample_dest)))) = R_DELIVERED"
  using valid_proof_settles [of "set_delivery_callback (receipt_object 0 sample_dest)"
      "\<lparr>id_sig_pub = [1], id_has_prv = False\<rparr>" sample_env "replicate 64 2" "replicate 64 2" 9]
  by (simp add: set_delivery_callback_def receipt_object_def sample_dest_def sample_env_def)

text \<open>the receipt of a packet over a fast link times out at once. Its timeout is computed as a
  fraction of a second (at least 5 ms) but stored in an \<open>int16_t\<close>, so whenever round trip time and
  factor multiply to less than a second the stored timeout is 0 and the first check after the send
  fails the receipt, however early it comes.\<close>

lemma fast_link_receipt_fails:
  assumes "receipt_new e t0 p = Inr rc" and "pk_dest p = Some d" and "de_type d = LINK"
    and "pk_dlink p = Some l" and "ln_rtt l * of_nat (unat (ln_ttf l)) < 1" and "t0 < now"
  shows "rc_timeout rc = 0 \<and> rc_status (check_timeout now rc) = R_FAILED"
proof -
  let ?x = "max (ln_rtt l * of_nat (unat (ln_ttf l))) (of_nat TRAFFIC_TIMEOUT_MIN_MS / 1000)"
  have "0 \<le> ?x" "?x < 1" using assms(5) by (simp_all add: TRAFFIC_TIMEOUT_MIN_MS_def max_def)
  then have "\<lfloor>?x\<rfloor> = 0" by (simp add: floor_eq_iff)
  then have "to_int16 ?x = Inr 0" using \<open>0 \<le> ?x\<close> by (simp add: to_int16_def trunc_rat_def)
  then have "rc_timeout rc = 0 \<and> rc_status rc = R_SENT \<and> rc_sent_at rc = t0"
    using assms(1-4) by (auto simp: receipt_new_def rbind_eq_Inr receipt_object_def Let_def)
  then show ?thesis using assms(6) by (simp add: check_timeout_def is_timed_out_def)
qed

lemma fast_link_receipt_fails_witness:
  "\<exists>rc. receipt_new sample_env 10 (sample_packet\<lparr>pk_raw := replicate 19 0,
      pk_dest := Some \<lparr>de_hash = replicate 16 3, de_type = LINK, de_ident = None\<rparr>,
      pk_dlink := Some \<lparr>ln_id = replicate 16 3, ln_status = ACTIVE, ln_mtu = 500, ln_mdu = 431, ln_rtt = 1 / 10,
        ln_ttf = 6, ln_last_outbound = 0, ln_last_proof = 0, ln_tx = 0, ln_txbytes = 0,
        ln_peer_sig_pub = []\<rparr>\<rparr>) = Inr rc \<and> rc_status (check_timeout (10 + 1 / 100) rc) = R_FAILED"
proof -
  let ?l = "\<lparr>ln_id = replicate 16 3, ln_status = ACTIVE, ln_mtu = 500, ln_mdu = 431, ln_rtt = 1 / 10,
        ln_ttf = 6, ln_last_outbound = 0, ln_last_proof = 0, ln_tx = 0, ln_txbytes = 0,
        ln_peer_sig_pub = []\<rparr>"
  let ?d = "\<lparr>de_hash = replicate 16 3, de_type = LINK, de_ident = None\<rparr>"
  let ?p = "sample_packet\<lparr>pk_raw := replicate 19 0, pk_dest := Some ?d, pk_dlink := Some ?l\<rparr>"
  have "\<not> isl (receipt_new sample_env 10 ?p)" by code_simp
  then have r: "receipt_new sample_env 10 ?p = Inr (projr (receipt_new sample_env 10 ?p))"
    by (rule not_isl_projr)
  from fast_link_receipt_fails [OF r, of ?d ?l "10 + 1 / 100"] r show ?thesis by auto
qed

end
