(* ===== verification/Channel.thy ===== *)
theory Channel
  imports Receipt
begin

text \<open>
  The reliable message channel over a link, \<open>Channel.cpp\<close>: the sender's ring with its window, the
  poll that retransmits, and the receiver that puts envelopes in order.

  An envelope of the sender's ring holds its packet and through it the packet's receipt, which proofs
  and timeouts change between polls. All packets share the channel's link; the model hands the link to
  a packet operation and takes it back. The receive callback is the list of messages handed to it.
  A \<open>Channel\<close> without an object does nothing in every operation and is not modelled.
\<close>

section \<open>State\<close>

definition MSGTYPE_RAW :: u16 where "MSGTYPE_RAW = 0x0100"
definition WINDOW :: u16 where "WINDOW = 2"
definition WINDOW_MIN :: u16 where "WINDOW_MIN = 2"
definition WINDOW_MIN_LIMIT_MEDIUM :: u16 where "WINDOW_MIN_LIMIT_MEDIUM = 5"
definition WINDOW_MIN_LIMIT_FAST :: u16 where "WINDOW_MIN_LIMIT_FAST = 16"
definition WINDOW_MAX_SLOW :: u16 where "WINDOW_MAX_SLOW = 5"
definition WINDOW_MAX_MEDIUM :: u16 where "WINDOW_MAX_MEDIUM = 12"
definition WINDOW_MAX_FAST :: u16 where "WINDOW_MAX_FAST = 48"
definition WINDOW_FLEXIBILITY :: u16 where "WINDOW_FLEXIBILITY = 4"
definition FAST_RATE_THRESHOLD :: u16 where "FAST_RATE_THRESHOLD = 10"
definition RTT_FAST :: secs where "RTT_FAST = 0.18"
definition RTT_MEDIUM :: secs where "RTT_MEDIUM = 0.75"
definition WINDOW_MAX :: u16 where "WINDOW_MAX = WINDOW_MAX_FAST"
definition SEQ_MAX :: int where "SEQ_MAX = 0xffff"
definition SEQ_MODULUS :: nat where "SEQ_MODULUS = 0x10000"
definition MAX_TRIES :: nat where "MAX_TRIES = 5"

lemmas channel_consts = WINDOW_def WINDOW_MIN_def WINDOW_MIN_LIMIT_MEDIUM_def WINDOW_MIN_LIMIT_FAST_def
  WINDOW_MAX_SLOW_def WINDOW_MAX_MEDIUM_def WINDOW_MAX_FAST_def WINDOW_FLEXIBILITY_def
  FAST_RATE_THRESHOLD_def RTT_FAST_def RTT_MEDIUM_def WINDOW_MAX_def SEQ_MAX_def SEQ_MODULUS_def
  MAX_TRIES_def

record envelope =
  ev_seq :: u16
  ev_msgtype :: u16
  ev_raw :: bytes
  ev_packet :: "packet option"
  ev_tries :: nat
  ev_deadline :: secs

record channel =
  ch_link :: lnk
  ch_tx :: "envelope list"
  ch_rx :: "envelope list"
  ch_next_seq :: u16
  ch_next_rx :: u16
  ch_window :: u16
  ch_window_max :: u16
  ch_window_min :: u16
  ch_flex :: u16
  ch_fast_rounds :: u16
  ch_medium_rounds :: u16
  ch_cb :: bool

definition channel_new :: "lnk \<Rightarrow> channel" where
  "channel_new l = \<lparr>ch_link = l, ch_tx = [], ch_rx = [], ch_next_seq = 0, ch_next_rx = 0,
     ch_window = WINDOW, ch_window_max = WINDOW_MAX_SLOW, ch_window_min = WINDOW_MIN,
     ch_flex = WINDOW_FLEXIBILITY, ch_fast_rounds = 0, ch_medium_rounds = 0, ch_cb = False\<rparr>"

definition set_receive_callback :: "bool \<Rightarrow> channel \<Rightarrow> channel" where
  "set_receive_callback cb c = c\<lparr>ch_cb := cb\<rparr>"

section \<open>The window\<close>

definition window_open :: "channel \<Rightarrow> channel" where
  "window_open c =
    (let c = (if ch_window c < ch_window_max c then c\<lparr>ch_window := ch_window c + 1\<rparr> else c);
         rtt = ln_rtt (ch_link c)
     in if rtt = 0 then c
        else if rtt > RTT_FAST then
          let c = c\<lparr>ch_fast_rounds := 0\<rparr> in
          if rtt > RTT_MEDIUM then c\<lparr>ch_medium_rounds := 0\<rparr>
          else
            let c = c\<lparr>ch_medium_rounds := ch_medium_rounds c + 1\<rparr> in
            if ch_window_max c < WINDOW_MAX_MEDIUM \<and> ch_medium_rounds c = FAST_RATE_THRESHOLD
            then c\<lparr>ch_window_max := WINDOW_MAX_MEDIUM, ch_window_min := WINDOW_MIN_LIMIT_MEDIUM\<rparr>
            else c
        else
          let c = c\<lparr>ch_fast_rounds := ch_fast_rounds c + 1\<rparr> in
          if ch_window_max c < WINDOW_MAX_FAST \<and> ch_fast_rounds c = FAST_RATE_THRESHOLD
          then c\<lparr>ch_window_max := WINDOW_MAX_FAST, ch_window_min := WINDOW_MIN_LIMIT_FAST\<rparr>
          else c)"

definition window_close :: "channel \<Rightarrow> channel" where
  "window_close c =
    (if ch_window c \<le> ch_window_min c then c
     else
       let c = c\<lparr>ch_window := ch_window c - 1\<rparr> in
       if ch_window_max c > ch_window_min c + ch_flex c
       then c\<lparr>ch_window_max := ch_window_max c - 1\<rparr> else c)"

text \<open>The retry interval of an envelope, with \<open>n\<close> envelopes in the ring.\<close>

definition channel_timeout_time :: "secs \<Rightarrow> nat \<Rightarrow> nat \<Rightarrow> secs" where
  "channel_timeout_time rtt n tries =
    (let base = max (rtt * 2.5) 0.025; factor = (3 / 2) ^ (tries - 1)
     in factor * base * (of_nat n + 1.5))"

section \<open>Sending\<close>

definition link_get_mdu :: "lnk \<Rightarrow> u16" where
  "link_get_mdu l = (if ln_status l = ACTIVE \<or> ln_status l = STALE then ln_mdu l else 0)"

definition channel_mdu :: "channel \<Rightarrow> u16" where
  "channel_mdu c = (let m = link_get_mdu (ch_link c) in if m \<le> 6 then 0 else m - 6)"

definition outstanding :: "channel \<Rightarrow> nat" where
  "outstanding c = length (ch_tx c)"

definition env_status :: "envelope \<Rightarrow> receipt_status" where
  "env_status v =
    (case ev_packet v of None \<Rightarrow> R_FAILED
     | Some p \<Rightarrow> (case pk_receipt p of None \<Rightarrow> R_FAILED | Some r \<Rightarrow> rc_status r))"

definition undelivered :: "envelope \<Rightarrow> bool" where
  "undelivered v \<longleftrightarrow> env_status v \<noteq> R_DELIVERED"

definition is_ready_to_send :: "channel \<Rightarrow> bool" where
  "is_ready_to_send c \<longleftrightarrow>
     ln_status (ch_link c) = ACTIVE \<and> count_if undelivered (ch_tx c) < unat (ch_window c)"

definition envelope_header :: "u16 \<Rightarrow> u16 \<Rightarrow> u16 \<Rightarrow> bytes" where
  "envelope_header mt seq len =
     [ucast (drop_bit 8 mt), ucast (mt AND 0xff), ucast (drop_bit 8 seq), ucast (seq AND 0xff),
      ucast (drop_bit 8 len), ucast (len AND 0xff)]"

text \<open>The link is shared: a packet operation runs on the channel's link and leaves it changed.\<close>

definition with_link :: "channel \<Rightarrow> packet \<Rightarrow> packet" where
  "with_link c p = p\<lparr>pk_dlink := Some (ch_link c)\<rparr>"

definition link_back :: "packet \<Rightarrow> channel \<Rightarrow> channel" where
  "link_back p c = (case pk_dlink p of Some l \<Rightarrow> c\<lparr>ch_link := l\<rparr> | None \<Rightarrow> c)"

definition channel_send :: "penv \<Rightarrow> secs \<Rightarrow> u16 \<Rightarrow> bytes \<Rightarrow> channel \<Rightarrow> channel \<times> bool res" where
  "channel_send e now mt d c =
    (if \<not> is_ready_to_send c then (c, Inr False)
     else
       let seq = ch_next_seq c;
           raw = envelope_header mt seq (of_nat (length d)) @ d;
           mdu = link_get_mdu (ch_link c)
       in if mdu = 0 \<or> length raw > unat mdu then (c, Inr False)
          else
            let c = c\<lparr>ch_next_seq := ch_next_seq c + 1\<rparr> in
            (case packet_new_link (ch_link c) raw DATA CTX_CHANNEL FLAG_UNSET of
               Inl f \<Rightarrow> (c, Inl f)
             | Inr p \<Rightarrow>
                 (case send e now (with_link c p) of
                    (p, Inl f) \<Rightarrow> (link_back p c, Inl f)
                  | (p, Inr _) \<Rightarrow>
                      let c = link_back p c;
                          v = \<lparr>ev_seq = seq, ev_msgtype = MSGTYPE_RAW, ev_raw = raw,
                               ev_packet = Some p, ev_tries = 1,
                               ev_deadline = now + channel_timeout_time (ln_rtt (ch_link c))
                                                     (length (ch_tx c)) 1\<rparr>
                      in (c\<lparr>ch_tx := ch_tx c @ [v]\<rparr>, Inr True))))"

definition channel_shutdown :: "channel \<Rightarrow> channel" where
  "channel_shutdown c = c\<lparr>ch_cb := False, ch_tx := [], ch_rx := []\<rparr>"

section \<open>Polling\<close>

text \<open>
  How a poll ends: at the end of the ring, in the teardown of the link (the channel is already shut
  down then), or in an exception of a resend.
\<close>

datatype poll_end = Poll_done | Poll_torn | Poll_throw fault

fun poll_loop :: "penv \<Rightarrow> secs \<Rightarrow> channel \<Rightarrow> envelope list \<Rightarrow> envelope list \<Rightarrow> channel \<times> poll_end" where
  "poll_loop e now c kept [] = (c\<lparr>ch_tx := kept\<rparr>, Poll_done)"
| "poll_loop e now c kept (v # rest) =
    (if env_status v = R_DELIVERED then poll_loop e now (window_open c) kept rest
     else if now \<ge> ev_deadline v \<or> env_status v = R_CULLED then
       (if ev_tries v \<ge> MAX_TRIES then (channel_shutdown c, Poll_torn)
        else
          let v = v\<lparr>ev_tries := ev_tries v + 1\<rparr>;
              c = window_close c;
              wait = channel_timeout_time (ln_rtt (ch_link c)) (length kept + 1 + length rest) (ev_tries v)
          in case ev_packet v of
               None \<Rightarrow> poll_loop e now c (kept @ [v\<lparr>ev_deadline := now + wait\<rparr>]) rest
             | Some p \<Rightarrow>
                 (case resend e (with_link c p) of
                    (p, Inl f) \<Rightarrow>
                      ((link_back p c)\<lparr>ch_tx := kept @ v\<lparr>ev_packet := Some p\<rparr> # rest\<rparr>, Poll_throw f)
                  | (p, Inr _) \<Rightarrow>
                      poll_loop e now (link_back p c)
                        (kept @ [v\<lparr>ev_packet := Some p, ev_deadline := now + wait\<rparr>]) rest))
     else poll_loop e now c (kept @ [v]) rest)"

definition channel_poll :: "penv \<Rightarrow> secs \<Rightarrow> channel \<Rightarrow> channel \<times> poll_end" where
  "channel_poll e now c = poll_loop e now c [] (ch_tx c)"

section \<open>Receiving\<close>

fun rx_emplace :: "envelope list \<Rightarrow> envelope \<Rightarrow> u16 \<Rightarrow> envelope list option" where
  "rx_emplace [] v nr = Some [v]"
| "rx_emplace (x # xs) v nr =
    (if ev_seq v = ev_seq x then None
     else if ev_seq v < ev_seq x \<and> \<not> (uint nr - uint (ev_seq v) > SEQ_MAX div 2) then Some (v # x # xs)
     else map_option (Cons x) (rx_emplace xs v nr))"

text \<open>The delivery loop: one envelope per round, found from the front of the ring.\<close>

function rx_deliver :: "channel \<Rightarrow> (u16 \<times> bytes) list \<Rightarrow> channel \<times> (u16 \<times> bytes) list" where
  "rx_deliver c out =
    (case first_index (\<lambda>x. ev_seq x = ch_next_rx c) (ch_rx c) of
       None \<Rightarrow> (c, out)
     | Some i \<Rightarrow>
         let v = ch_rx c ! i in
         rx_deliver (c\<lparr>ch_rx := take i (ch_rx c) @ drop (Suc i) (ch_rx c),
                      ch_next_rx := ch_next_rx c + 1\<rparr>)
           (if ch_cb c then out @ [(ev_msgtype v, ev_raw v)] else out))"
  by pat_completeness auto
termination
  by (relation "measure (\<lambda>(c, out). length (ch_rx c))") (auto dest: first_index_Some)

declare rx_deliver.simps [simp del]

definition be_u16 :: "u8 \<Rightarrow> u8 \<Rightarrow> u16" where
  "be_u16 a b = push_bit 8 (ucast a) OR ucast b"

text \<open>The guard against sequence numbers outside the receive window.\<close>

definition seq_invalid :: "u16 \<Rightarrow> u16 \<Rightarrow> bool" where
  "seq_invalid nr seq \<longleftrightarrow>
     seq < nr \<and> (let overflow = nr + WINDOW_MAX in if overflow < nr then seq > overflow else True)"

definition channel_receive :: "bytes \<Rightarrow> channel \<Rightarrow> channel \<times> (u16 \<times> bytes) list" where
  "channel_receive raw c =
    (if length raw < 6 then (c, [])
     else
       let msgtype = be_u16 (raw ! 0) (raw ! 1);
           seq = be_u16 (raw ! 2) (raw ! 3);
           len = be_u16 (raw ! 4) (raw ! 5);
           avail = length raw - 6;
           len = (if unat len > avail then of_nat avail else len)
       in if seq_invalid (ch_next_rx c) seq then (c, [])
          else
            let v = \<lparr>ev_seq = seq, ev_msgtype = msgtype, ev_raw = take (unat len) (drop 6 raw),
                     ev_packet = None, ev_tries = 0, ev_deadline = 0\<rparr>
            in case rx_emplace (ch_rx c) v (ch_next_rx c) of
                 None \<Rightarrow> (c, [])
               | Some ring \<Rightarrow> rx_deliver (c\<lparr>ch_rx := ring\<rparr>) [])"

section \<open>Sender invariants\<close>

definition window_ok :: "channel \<Rightarrow> bool" where
  "window_ok c \<longleftrightarrow> 2 \<le> unat (ch_window c) \<and> unat (ch_window c) \<le> unat (ch_window_max c) \<and>
     unat (ch_window_max c) \<le> 48 \<and> ch_flex c = 4 \<and> ch_window_min c \<in> {2, 5, 16} \<and>
     unat (ch_window_min c) + 3 \<le> unat (ch_window_max c)"

definition chan_ok :: "channel \<Rightarrow> bool" where
  "chan_ok c \<longleftrightarrow> window_ok c \<and> (\<forall>v \<in> set (ch_tx c). 1 \<le> ev_tries v \<and> ev_tries v \<le> MAX_TRIES) \<and>
     count_if undelivered (ch_tx c) \<le> 48"

lemma window_ok_new [inv_intros]: "window_ok (channel_new l)"
  by (simp add: window_ok_def channel_new_def channel_consts)

lemma window_ok_open [inv_intros]: "window_ok c \<Longrightarrow> window_ok (window_open c)"
  by (auto simp: window_ok_def window_open_def Let_def channel_consts word_less_nat_alt unat_inc)

lemma window_ok_close [inv_intros]: "window_ok c \<Longrightarrow> window_ok (window_close c)"
  by (auto simp: window_ok_def window_close_def Let_def word_less_nat_alt unat_dec not_le)

text \<open>One envelope of the ring, before and after a poll that did not end early.\<close>

definition due :: "secs \<Rightarrow> envelope \<Rightarrow> bool" where
  "due now v \<longleftrightarrow> now \<ge> ev_deadline v \<or> env_status v = R_CULLED"

definition polled :: "secs \<Rightarrow> envelope \<Rightarrow> envelope \<Rightarrow> bool" where
  "polled now v w \<longleftrightarrow> ev_seq w = ev_seq v \<and> ev_raw w = ev_raw v \<and> ev_msgtype w = ev_msgtype v \<and>
     now < ev_deadline w \<and>
     (if due now v then ev_tries v < MAX_TRIES \<and> ev_tries w = ev_tries v + 1 else w = v)"

lemma channel_timeout_pos: "0 < channel_timeout_time rtt n tries"
proof -
  have "0 < max (rtt * 2.5) (0.025 :: secs)" by (simp add: less_max_iff_disj)
  moreover have "0 < (3 / 2 :: secs) ^ (tries - 1)" by simp
  moreover have "0 < (of_nat n + 1.5 :: secs)"
    by (rule add_nonneg_pos) simp_all
  ultimately show ?thesis by (simp add: channel_timeout_time_def Let_def)
qed

lemma link_back_window [simp]: "window_ok (link_back p c) = window_ok c"
  by (auto simp: link_back_def window_ok_def split: option.splits)

lemma window_ok_tx [simp]: "window_ok (c\<lparr>ch_tx := x\<rparr>) = window_ok c"
  by (simp add: window_ok_def)

text \<open>The four things that can happen to the envelope the loop has reached.\<close>

lemma poll_step:
  obtains (gone) "\<not> undelivered v"
      "poll_loop e now c kept (v # rest) = poll_loop e now (window_open c) kept rest"
  | (torn) "undelivered v" "due now v" "MAX_TRIES \<le> ev_tries v"
      "poll_loop e now c kept (v # rest) = (channel_shutdown c, Poll_torn)"
  | (thrown) c1 v1 f where "undelivered v" "window_ok c \<longrightarrow> window_ok c1"
      "ev_tries v < MAX_TRIES" "ev_tries v1 = ev_tries v + 1"
      "poll_loop e now c kept (v # rest) = (c1\<lparr>ch_tx := kept @ v1 # rest\<rparr>, Poll_throw f)"
  | (more) c1 v1 where "undelivered v" "window_ok c \<longrightarrow> window_ok c1" "polled now v v1"
      "poll_loop e now c kept (v # rest) = poll_loop e now c1 (kept @ [v1]) rest"
proof (cases "undelivered v")
  case False
  then show thesis using gone by (simp add: undelivered_def)
next
  case True
  then have st: "env_status v \<noteq> R_DELIVERED" by (simp add: undelivered_def)
  show thesis
  proof (cases "due now v")
    case False
    then have "polled now v v" by (auto simp: polled_def due_def)
    moreover have "poll_loop e now c kept (v # rest) = poll_loop e now c (kept @ [v]) rest"
      using False st by (simp add: due_def)
    ultimately show thesis using more [of c v] True by simp
  next
    case d: True
    show thesis
    proof (cases "MAX_TRIES \<le> ev_tries v")
      case True
      then show thesis using torn \<open>undelivered v\<close> d st by (simp add: due_def)
    next
      case False
      let ?v = "v\<lparr>ev_tries := Suc (ev_tries v)\<rparr>" and ?c = "window_close c"
      let ?wait = "channel_timeout_time (ln_rtt (ch_link ?c)) (Suc (length kept + length rest)) (ev_tries ?v)"
      have w: "window_ok c \<longrightarrow> window_ok ?c" by (simp add: inv_intros)
      have pos: "now < now + ?wait" using channel_timeout_pos by simp
      have step: "poll_loop e now c kept (v # rest) = (case ev_packet ?v of
            None \<Rightarrow> poll_loop e now ?c (kept @ [?v\<lparr>ev_deadline := now + ?wait\<rparr>]) rest
          | Some p \<Rightarrow> (case resend e (with_link ?c p) of
              (p, Inl f) \<Rightarrow> ((link_back p ?c)\<lparr>ch_tx := kept @ ?v\<lparr>ev_packet := Some p\<rparr> # rest\<rparr>, Poll_throw f)
            | (p, Inr _) \<Rightarrow> poll_loop e now (link_back p ?c)
                (kept @ [?v\<lparr>ev_packet := Some p, ev_deadline := now + ?wait\<rparr>]) rest))"
        using False st d by (simp add: due_def Let_def not_le)
      show thesis
      proof (cases "ev_packet v")
        case None
        then show thesis
          using more [OF \<open>undelivered v\<close> w, of "?v\<lparr>ev_deadline := now + ?wait\<rparr>"] step pos False d
          by (simp add: polled_def)
      next
        case (Some p)
        obtain p' r where r: "resend e (with_link ?c p) = (p', r)" by (cases "resend e (with_link ?c p)")
        show thesis
        proof (cases r)
          case (Inl f)
          then show thesis
            using thrown [OF \<open>undelivered v\<close>, of "link_back p' ?c" "?v\<lparr>ev_packet := Some p'\<rparr>" f]
              w step Some r False by simp
        next
          case (Inr b)
          then show thesis
            using more [OF \<open>undelivered v\<close>, of "link_back p' ?c"
                "?v\<lparr>ev_packet := Some p', ev_deadline := now + ?wait\<rparr>"] w step Some r pos False d
            by (simp add: polled_def)
        qed
      qed
    qed
  qed
qed

text \<open>what a poll does. One that ends normally removes exactly the delivered envelopes, retries
  exactly the undelivered ones whose deadline has passed (or whose receipt was culled), each once and
  only while it has tries left, leaves the rest untouched and in order, and leaves no deadline in the
  past. One that tears the link down does so for an undelivered envelope that was due and had used all
  its tries, and leaves both rings empty.\<close>

lemma poll_functional:
  assumes "channel_poll e now c = (c', fin)"
  shows "(fin = Poll_done \<and> list_all2 (polled now) (filter undelivered (ch_tx c)) (ch_tx c')) \<or>
    (fin = Poll_torn \<and> ch_tx c' = [] \<and> ch_rx c' = [] \<and>
       (\<exists>v \<in> set (ch_tx c). undelivered v \<and> due now v \<and> MAX_TRIES \<le> ev_tries v)) \<or>
    (\<exists>f. fin = Poll_throw f)"
proof -
  have "poll_loop e now c kept rest = (c', fin) \<Longrightarrow> list_all2 (polled now) kept0 kept \<Longrightarrow>
    (fin = Poll_done \<and> list_all2 (polled now) (kept0 @ filter undelivered rest) (ch_tx c')) \<or>
    (fin = Poll_torn \<and> ch_tx c' = [] \<and> ch_rx c' = [] \<and>
       (\<exists>v \<in> set rest. undelivered v \<and> due now v \<and> MAX_TRIES \<le> ev_tries v)) \<or>
    (\<exists>f. fin = Poll_throw f)" for c kept kept0 rest
  proof (induction rest arbitrary: c kept kept0)
    case Nil
    then show ?case by auto
  next
    case (Cons v rest)
    show ?case
    proof (rule poll_step [of v e now c kept rest])
      fix c1 v1
      assume "undelivered v" "polled now v v1"
        "poll_loop e now c kept (v # rest) = poll_loop e now c1 (kept @ [v1]) rest"
      with Cons.IH [of c1 "kept @ [v1]" "kept0 @ [v]"] Cons.prems show ?thesis
        by (auto simp: list_all2_appendI)
    next
      assume "undelivered v" "due now v" "MAX_TRIES \<le> ev_tries v"
        "poll_loop e now c kept (v # rest) = (channel_shutdown c, Poll_torn)"
      then show ?thesis using Cons.prems by (auto simp: channel_shutdown_def)
    next
      assume "\<not> undelivered v"
        "poll_loop e now c kept (v # rest) = poll_loop e now (window_open c) kept rest"
      with Cons.IH [of "window_open c" kept kept0] Cons.prems show ?thesis by auto
    next
      fix c1 v1 f
      assume "poll_loop e now c kept (v # rest) = (c1\<lparr>ch_tx := kept @ v1 # rest\<rparr>, Poll_throw f)"
      then show ?thesis using Cons.prems by auto
    qed
  qed
  from this [of c "[]" "ch_tx c" "[]"] assms show ?thesis by (simp add: channel_poll_def)
qed

definition sample_lnk :: lnk where
  "sample_lnk = \<lparr>ln_id = replicate 16 3, ln_status = ACTIVE, ln_mtu = 500, ln_mdu = 431, ln_rtt = 1,
     ln_ttf = 6, ln_last_outbound = 0, ln_last_proof = 0, ln_tx = 0, ln_txbytes = 0,
     ln_peer_sig_pub = [1]\<rparr>"

definition sample_envelope :: envelope where
  "sample_envelope = \<lparr>ev_seq = 0, ev_msgtype = MSGTYPE_RAW, ev_raw = [], ev_packet = None, ev_tries = 1,
     ev_deadline = 3\<rparr>"

lemma poll_functional_witness:
  "let c = (channel_new sample_lnk)\<lparr>ch_tx := [sample_envelope]\<rparr>; c' = fst (channel_poll sample_env 5 c) in
     list_all2 (polled 5) (filter undelivered (ch_tx c)) (ch_tx c')"
proof -
  let ?c = "(channel_new sample_lnk)\<lparr>ch_tx := [sample_envelope]\<rparr>"
  have "snd (channel_poll sample_env 5 ?c) = Poll_done"
    by (simp add: channel_poll_def sample_envelope_def env_status_def MAX_TRIES_def Let_def)
  then show ?thesis
    using poll_functional [of sample_env 5 ?c "fst (channel_poll sample_env 5 ?c)" Poll_done]
    by (simp add: Let_def prod_eq_iff)
qed

lemma poll_loop_ok:
  "window_ok c \<Longrightarrow> (\<forall>v \<in> set (kept @ rest). 1 \<le> ev_tries v \<and> ev_tries v \<le> MAX_TRIES) \<Longrightarrow>
   count_if undelivered (kept @ rest) \<le> 48 \<Longrightarrow> chan_ok (fst (poll_loop e now c kept rest))"
proof (induction rest arbitrary: c kept)
  case Nil
  then show ?case by (simp add: chan_ok_def)
next
  case (Cons v rest)
  show ?case
  proof (rule poll_step [of v e now c kept rest])
    assume "\<not> undelivered v"
      "poll_loop e now c kept (v # rest) = poll_loop e now (window_open c) kept rest"
    then show ?thesis using Cons by (simp add: inv_intros)
  next
    assume "poll_loop e now c kept (v # rest) = (channel_shutdown c, Poll_torn)"
    then show ?thesis using Cons.prems(1) by (simp add: chan_ok_def channel_shutdown_def window_ok_def)
  next
    fix c1 v1 f
    assume "undelivered v" "window_ok c \<longrightarrow> window_ok c1" "ev_tries v < MAX_TRIES"
      "ev_tries v1 = ev_tries v + 1"
      "poll_loop e now c kept (v # rest) = (c1\<lparr>ch_tx := kept @ v1 # rest\<rparr>, Poll_throw f)"
    then show ?thesis using Cons.prems by (auto simp: chan_ok_def)
  next
    fix c1 v1
    assume "undelivered v" "window_ok c \<longrightarrow> window_ok c1" "polled now v v1"
      "poll_loop e now c kept (v # rest) = poll_loop e now c1 (kept @ [v1]) rest"
    then show ?thesis using Cons.prems by (auto intro!: Cons.IH simp: polled_def split: if_splits)
  qed
qed

lemma chan_ok_poll [inv_intros]: "chan_ok c \<Longrightarrow> chan_ok (fst (channel_poll e now c))"
  unfolding channel_poll_def by (rule poll_loop_ok) (simp_all add: chan_ok_def)

lemma chan_ok_link_back [simp]: "chan_ok (link_back p c) = chan_ok c"
  by (auto simp: link_back_def chan_ok_def window_ok_def split: option.splits)

lemma chan_ok_seq [simp]: "chan_ok (c\<lparr>ch_next_seq := s\<rparr>) = chan_ok c"
  by (simp add: chan_ok_def window_ok_def)

lemma link_back_tx [simp]: "ch_tx (link_back p c) = ch_tx c"
  by (auto simp: link_back_def split: option.splits)

lemma chan_ok_push:
  assumes "chan_ok c" and "xs = ch_tx c" and "count_if undelivered xs < 48" and "ev_tries v = 1"
  shows "chan_ok (c\<lparr>ch_tx := xs @ [v]\<rparr>)"
  using assms by (auto simp: chan_ok_def MAX_TRIES_def)

lemma ready_bound: "chan_ok c \<Longrightarrow> is_ready_to_send c \<Longrightarrow> count_if undelivered (ch_tx c) < 48"
  by (simp add: chan_ok_def window_ok_def is_ready_to_send_def)

lemma chan_ok_send [inv_intros]: "chan_ok c \<Longrightarrow> chan_ok (fst (channel_send e now mt d c))"
  using ready_bound [of c]
  by (auto simp: channel_send_def Let_def split: sum.splits prod.splits intro!: chan_ok_push)

text \<open>Receiving touches the receiver's half only.\<close>

definition tx_half :: "channel \<Rightarrow> channel" where
  "tx_half c = c\<lparr>ch_rx := [], ch_next_rx := 0\<rparr>"

lemma tx_half_deliver: "tx_half (fst (rx_deliver c out)) = tx_half c"
proof (induction c out rule: rx_deliver.induct)
  case (1 c out)
  have upd: "tx_half (c\<lparr>ch_rx := r, ch_next_rx := n\<rparr>) = tx_half c" for r n by (simp add: tx_half_def)
  show ?case
  proof (cases "first_index (\<lambda>x. ev_seq x = ch_next_rx c) (ch_rx c)")
    case None
    then show ?thesis by (subst rx_deliver.simps) simp
  next
    case (Some i)
    from 1 [OF Some refl] show ?thesis by (subst rx_deliver.simps) (simp add: Some Let_def upd)
  qed
qed

lemma tx_half_receive: "tx_half (fst (channel_receive raw c)) = tx_half c"
proof -
  have "tx_half (c\<lparr>ch_rx := ring\<rparr>) = tx_half c" for ring by (simp add: tx_half_def)
  then show ?thesis
    using tx_half_deliver by (simp add: channel_receive_def Let_def split: option.splits)
qed

lemma chan_ok_tx_half: "chan_ok (tx_half c) = chan_ok c"
  by (simp add: chan_ok_def window_ok_def tx_half_def)

lemma chan_ok_receive [inv_intros]: "chan_ok c \<Longrightarrow> chan_ok (fst (channel_receive raw c))"
  by (metis chan_ok_tx_half tx_half_receive)

text \<open>
  The life of a channel: its operations in any order and at any times, whatever the link does to its
  own state, and proofs and timeouts arriving at the receipts of the packets in flight.
\<close>

inductive ch_step :: "penv \<Rightarrow> bytes set \<Rightarrow> channel \<Rightarrow> channel \<Rightarrow> bool" for e K where
  ch_sent: "ch_step e K c (fst (channel_send e now mt d c))"
| ch_polled: "ch_step e K c (fst (channel_poll e now c))"
| ch_received: "ch_step e K c (fst (channel_receive raw c))"
| ch_shut: "ch_step e K c (channel_shutdown c)"
| ch_set_cb: "ch_step e K c (set_receive_callback cb c)"
| ch_link_moved: "ch_step e K c (c\<lparr>ch_link := l\<rparr>)"
| ch_receipt: "i < length (ch_tx c) \<Longrightarrow> ev_packet (ch_tx c ! i) = Some p \<Longrightarrow> pk_receipt p = Some r \<Longrightarrow>
    rc_step e K r r' \<Longrightarrow>
    ch_step e K c (c\<lparr>ch_tx := (ch_tx c)[i := (ch_tx c ! i)\<lparr>ev_packet := Some (p\<lparr>pk_receipt := Some r'\<rparr>)\<rparr>]\<rparr>)"

inductive ch_reach :: "penv \<Rightarrow> bytes set \<Rightarrow> channel \<Rightarrow> channel \<Rightarrow> bool" for e K where
  ch_here: "ch_reach e K c c"
| ch_more: "ch_reach e K c c' \<Longrightarrow> ch_step e K c' c'' \<Longrightarrow> ch_reach e K c c''"

lemma chan_ok_receipt:
  assumes ok: "chan_ok c" and i: "i < length (ch_tx c)" and p: "ev_packet (ch_tx c ! i) = Some p"
    and r: "pk_receipt p = Some r" and st: "rc_step e K r r'"
  shows "chan_ok (c\<lparr>ch_tx := (ch_tx c)[i := (ch_tx c ! i)\<lparr>ev_packet := Some (p\<lparr>pk_receipt := Some r'\<rparr>)\<rparr>]\<rparr>)"
proof -
  let ?w = "(ch_tx c ! i)\<lparr>ev_packet := Some (p\<lparr>pk_receipt := Some r'\<rparr>)\<rparr>"
  have "undelivered ?w \<Longrightarrow> undelivered (ch_tx c ! i)"
    using delivered_step [OF st] p r by (auto simp: undelivered_def env_status_def)
  then have "count_if undelivered ((ch_tx c)[i := ?w]) \<le> count_if undelivered (ch_tx c)"
    using count_if_update [OF i, of undelivered ?w] by (auto split: if_splits)
  moreover have "\<forall>v \<in> set ((ch_tx c)[i := ?w]). 1 \<le> ev_tries v \<and> ev_tries v \<le> MAX_TRIES"
  proof
    fix v
    assume "v \<in> set ((ch_tx c)[i := ?w])"
    then have "v = ?w \<or> v \<in> set (ch_tx c)" using set_update_subset_insert by fastforce
    then show "1 \<le> ev_tries v \<and> ev_tries v \<le> MAX_TRIES" using ok i by (auto simp: chan_ok_def)
  qed
  ultimately show ?thesis using ok by (simp add: chan_ok_def)
qed

lemma chan_ok_shutdown [inv_intros]: "chan_ok c \<Longrightarrow> chan_ok (channel_shutdown c)"
  by (simp add: chan_ok_def channel_shutdown_def window_ok_def)

lemma chan_ok_set_cb [inv_intros]: "chan_ok c \<Longrightarrow> chan_ok (set_receive_callback cb c)"
  by (simp add: chan_ok_def set_receive_callback_def window_ok_def)

lemma chan_ok_link [inv_intros]: "chan_ok c \<Longrightarrow> chan_ok (c\<lparr>ch_link := l\<rparr>)"
  by (simp add: chan_ok_def window_ok_def)

lemma chan_ok_step: "ch_step e K c c' \<Longrightarrow> chan_ok c \<Longrightarrow> chan_ok c'"
proof (induction rule: ch_step.induct)
  case (ch_receipt i c p r r')
  then show ?case by (intro chan_ok_receipt)
qed (auto intro: inv_intros)

text \<open>C40: the sender's bounds, over everything that can happen in a channel's life. The window stays
  between 2 and the ceiling, the ceiling at most 48 and at least 3 above the floor, at most 48 envelopes
  are ever unproved at a time, and no envelope is transmitted more than five times.\<close>

lemma channel_bounds:
  assumes "ch_reach e K (channel_new l) c"
  shows "2 \<le> unat (ch_window c) \<and> unat (ch_window c) \<le> unat (ch_window_max c) \<and>
    unat (ch_window_max c) \<le> 48 \<and> unat (ch_window_min c) + 3 \<le> unat (ch_window_max c) \<and>
    count_if undelivered (ch_tx c) \<le> 48 \<and> list_all (\<lambda>v. 1 \<le> ev_tries v \<and> ev_tries v \<le> 5) (ch_tx c)"
proof -
  have "chan_ok (channel_new l)" by (simp add: chan_ok_def inv_intros) (simp add: channel_new_def)
  with assms have "chan_ok c" by (induction rule: ch_reach.induct) (auto intro: chan_ok_step)
  then show ?thesis by (simp add: chan_ok_def window_ok_def MAX_TRIES_def list_all_iff)
qed

lemma channel_bounds_witness:
  "unat (ch_window (fst (channel_send sample_env 0 7 [1, 2] (channel_new sample_lnk)))) \<le> 48"
proof -
  let ?c = "fst (channel_send sample_env 0 7 [1, 2] (channel_new sample_lnk))"
  have "ch_reach sample_env {} (channel_new sample_lnk) ?c" by (rule ch_more [OF ch_here ch_sent])
  from channel_bounds [OF this] show ?thesis by simp
qed

text \<open>
  A resend assumes its packet was sent. When no interface took the packet at the first send, or at the
  previous resend, the next retry throws out of the poll instead of trying again.
\<close>

lemma poll_throws_unsent:
  assumes "ch_tx c = v # rest" and "ev_packet v = Some p" and "\<not> pk_sent p" and "undelivered v"
    and "due now v" and "ev_tries v < MAX_TRIES"
  shows "snd (channel_poll e now c) = Poll_throw Logic_error"
  using assms by (simp add: channel_poll_def undelivered_def due_def resend_def with_link_def Let_def not_le)

end
