(* ===== verification/ChannelOrder.thy ===== *)
theory ChannelOrder
  imports Channel
begin

text \<open>
  What the channel promises its receiver: whatever the network does to the order and number of the
  envelopes, the messages come out once each and in the order they were sent. The abstract
  specification is the set of message indices that have arrived, and the first index missing from it.
\<close>

section \<open>The abstract receiver\<close>

text \<open>The first index that has not arrived.\<close>

definition gap :: "nat list \<Rightarrow> nat" where
  "gap A = (case first_index (\<lambda>n. n \<notin> set A) [0..<Suc (length A)] of Some n \<Rightarrow> n | None \<Rightarrow> 0)"

lemma gap_props: "gap A \<notin> set A \<and> (\<forall>j < gap A. j \<in> set A)"
proof -
  have "\<exists>n \<in> set [0..<Suc (length A)]. n \<notin> set A"
  proof (rule ccontr)
    assume "\<not> ?thesis"
    then have "set [0..<Suc (length A)] \<subseteq> set A" by blast
    then have "card (set [0..<Suc (length A)]) \<le> card (set A)" by (rule card_mono [OF finite_set])
    then show False using card_length [of A] by simp
  qed
  then obtain i where i: "first_index (\<lambda>n. n \<notin> set A) [0..<Suc (length A)] = Some i"
    using first_index_None [of "\<lambda>n. n \<notin> set A" "[0..<Suc (length A)]"] by (metis option.exhaust)
  from first_index_Some [OF i] have *: "i < Suc (length A)" "[0..<Suc (length A)] ! i \<notin> set A"
    "\<forall>j < i. [0..<Suc (length A)] ! j \<in> set A" by auto
  then have "i \<notin> set A" "\<forall>j < i. j \<in> set A" by (auto simp del: upt_Suc)
  moreover have "gap A = i" using i by (simp add: gap_def del: upt_Suc)
  ultimately show ?thesis by simp
qed

lemma gap_unique: "n \<notin> set A \<Longrightarrow> \<forall>j < n. j \<in> set A \<Longrightarrow> gap A = n"
  using gap_props [of A] by (metis linorder_neqE_nat)

lemma gap_Nil [simp]: "gap [] = 0"
  by (rule gap_unique) simp_all

section \<open>Envelopes on the wire\<close>

type_synonym messages = "nat \<Rightarrow> u16 \<times> bytes"

definition wire_of :: "messages \<Rightarrow> nat \<Rightarrow> bytes" where
  "wire_of msgs i =
     envelope_header (fst (msgs i)) (of_nat i) (of_nat (length (snd (msgs i)))) @ snd (msgs i)"

definition rx_env :: "messages \<Rightarrow> nat \<Rightarrow> envelope" where
  "rx_env msgs i = \<lparr>ev_seq = of_nat i, ev_msgtype = fst (msgs i), ev_raw = snd (msgs i),
     ev_packet = None, ev_tries = 0, ev_deadline = 0\<rparr>"

lemma rx_env_sel [simp]:
  "ev_seq (rx_env msgs i) = of_nat i" "ev_msgtype (rx_env msgs i) = fst (msgs i)"
  "ev_raw (rx_env msgs i) = snd (msgs i)"
  by (simp_all add: rx_env_def)

lemma be_u16_split: "be_u16 (ucast (drop_bit 8 w)) (ucast (w AND 0xff)) = w"
  by (rule bit_word_eqI) (auto simp: be_u16_def mask_8 bit_simps)

lemma receive_wire:
  assumes "length (snd (msgs i)) < 65536"
  shows "channel_receive (wire_of msgs i) c =
    (if seq_invalid (ch_next_rx c) (of_nat i) then (c, [])
     else case rx_emplace (ch_rx c) (rx_env msgs i) (ch_next_rx c) of
       None \<Rightarrow> (c, []) | Some ring \<Rightarrow> rx_deliver (c\<lparr>ch_rx := ring\<rparr>) [])"
proof -
  have "unat (of_nat (length (snd (msgs i))) :: u16) = length (snd (msgs i))"
    using assms by (simp add: of_nat_unat_less)
  then show ?thesis
    by (simp add: channel_receive_def wire_of_def envelope_header_def be_u16_split Let_def rx_env_def)
qed

section \<open>The ring as a sorted list of indices\<close>

text \<open>Within the first epoch a sequence number is the index itself.\<close>

definition epoch :: nat where
  "epoch = 65488"

lemma of_nat_u16_eq:
  "i < 65536 \<Longrightarrow> j < 65536 \<Longrightarrow> (of_nat i :: u16) = of_nat j \<longleftrightarrow> i = j"
proof -
  assume "i < 65536" "j < 65536"
  then have "unat (of_nat i :: u16) = i" "unat (of_nat j :: u16) = j" by (simp_all add: of_nat_unat_less)
  then show ?thesis by metis
qed

lemma of_nat_u16_less:
  "i < 65536 \<Longrightarrow> j < 65536 \<Longrightarrow> (of_nat i :: u16) < of_nat j \<longleftrightarrow> i < j"
  by (simp add: word_less_nat_alt of_nat_unat_less)

lemma seq_invalid_epoch:
  assumes "i < epoch" and "n < epoch"
  shows "seq_invalid (of_nat n) (of_nat i) \<longleftrightarrow> i < n"
proof -
  have "(of_nat n :: u16) + WINDOW_MAX = of_nat (n + 48)" by (simp add: channel_consts)
  then have "\<not> (of_nat n :: u16) + WINDOW_MAX < of_nat n"
    using assms by (simp add: of_nat_u16_less epoch_def del: of_nat_add)
  then show ?thesis using assms by (simp add: seq_invalid_def of_nat_u16_less epoch_def)
qed

lemma emplace_sorted:
  "sorted_wrt (<) idx \<Longrightarrow> \<forall>j \<in> set idx. j < 65536 \<Longrightarrow> i < 65536 \<Longrightarrow> n \<le> i \<Longrightarrow>
   rx_emplace (map (rx_env msgs) idx) (rx_env msgs i) (of_nat n) =
     (if i \<in> set idx then None else Some (map (rx_env msgs) (insort i idx)))"
proof (induction idx)
  case Nil
  then show ?case by simp
next
  case (Cons j js)
  have "uint (of_nat n :: u16) \<le> uint (of_nat i :: u16)"
    using Cons.prems(3,4) by (simp add: word_le_def [symmetric] word_le_nat_alt of_nat_unat_less)
  then have cond: "\<not> uint (of_nat n :: u16) - uint (of_nat i :: u16) > SEQ_MAX div 2"
    by (simp add: SEQ_MAX_def)
  show ?case
    using Cons cond by (auto simp: rx_env_def of_nat_u16_eq of_nat_u16_less dest: less_asym)
qed

lemma sorted_insort_strict:
  "sorted_wrt (<) xs \<Longrightarrow> x \<notin> set xs \<Longrightarrow> sorted_wrt (<) (insort x xs)" for xs :: "nat list"
  by (induction xs) (auto simp: set_insort_key)

lemma deliver_sorted:
  "sorted_wrt (<) idx \<Longrightarrow> \<forall>j \<in> set idx. n \<le> j \<and> j < epoch \<Longrightarrow> n < epoch \<Longrightarrow>
   ch_rx c = map (rx_env msgs) idx \<Longrightarrow> ch_next_rx c = of_nat n \<Longrightarrow> ch_cb c \<Longrightarrow>
   \<exists>m idx'. rx_deliver c out =
       (c\<lparr>ch_rx := map (rx_env msgs) idx', ch_next_rx := of_nat m\<rparr>, out @ map msgs [n..<m]) \<and>
     n \<le> m \<and> m \<le> epoch \<and> (\<forall>j. n \<le> j \<and> j < m \<longrightarrow> j \<in> set idx) \<and> m \<notin> set idx \<and>
     sorted_wrt (<) idx' \<and> set idx' = {j \<in> set idx. m < j}"
proof (induction idx arbitrary: n c out)
  case Nil
  then have "rx_deliver c out = (c\<lparr>ch_rx := [], ch_next_rx := of_nat n\<rparr>, out)"
    by (subst rx_deliver.simps) simp
  then show ?case using Nil.prems by (intro exI [of _ n] exI [of _ "[]"]) simp
next
  case (Cons j js)
  have j: "n \<le> j" "j < epoch" using Cons.prems(2) by auto
  show ?case
  proof (cases "j = n")
    case True
    let ?c = "c\<lparr>ch_rx := map (rx_env msgs) js, ch_next_rx := of_nat (Suc n)\<rparr>"
    have hd: "ev_seq (rx_env msgs j) = ch_next_rx c" using True Cons.prems(5) by simp
    have step: "rx_deliver c out = rx_deliver ?c (out @ [msgs n])"
      using hd Cons.prems(4-6) True
      by (subst rx_deliver.simps) (simp add: Let_def add.commute)
    have later: "\<forall>k \<in> set js. Suc n \<le> k \<and> k < epoch" using Cons.prems(1,2) True by auto
    show ?thesis
    proof (cases "Suc n < epoch")
      case True
      have "sorted_wrt (<) js" using Cons.prems(1) by simp
      from Cons.IH [OF this later True, of ?c "out @ [msgs n]"] Cons.prems(6)
      obtain m idx' where m: "rx_deliver ?c (out @ [msgs n]) =
          (?c\<lparr>ch_rx := map (rx_env msgs) idx', ch_next_rx := of_nat m\<rparr>,
            (out @ [msgs n]) @ map msgs [Suc n..<m])"
        "Suc n \<le> m" "m \<le> epoch" "\<forall>k. Suc n \<le> k \<and> k < m \<longrightarrow> k \<in> set js" "m \<notin> set js"
        "sorted_wrt (<) idx'" "set idx' = {k \<in> set js. m < k}" by auto
      have "[n..<m] = n # [Suc n..<m]" using m(2) by (simp add: upt_conv_Cons)
      moreover have "\<forall>k. n \<le> k \<and> k < m \<longrightarrow> k \<in> set (j # js)"
        using m(4) \<open>j = n\<close> by (metis Suc_leI le_neq_implies_less list.set_intros)
      ultimately show ?thesis
        using step m \<open>j = n\<close> by (intro exI [of _ m] exI [of _ idx']) auto
    next
      case False
      then have "js = []" using later by (cases js) auto
      moreover have "rx_deliver ?c (out @ [msgs n]) = (?c, out @ [msgs n])"
        using \<open>js = []\<close> by (subst rx_deliver.simps) simp
      ultimately show ?thesis
        using step \<open>j = n\<close> Cons.prems(3) by (intro exI [of _ "Suc n"] exI [of _ "[]"]) auto
    qed
  next
    case False
    then have "\<forall>k \<in> set (j # js). k \<noteq> n \<and> k < epoch" using Cons.prems(1,2) j by fastforce
    then have "\<forall>x \<in> set (ch_rx c). ev_seq x \<noteq> ch_next_rx c"
      using Cons.prems(3-5) by (auto simp: of_nat_u16_eq epoch_def)
    then have "rx_deliver c out = (c, out)"
      by (subst rx_deliver.simps) (simp add: first_index_None [THEN iffD2])
    moreover have "n \<notin> set (j # js)" "{k \<in> set (j # js). n < k} = set (j # js)"
      using Cons.prems(1,2) False j by fastforce+
    ultimately show ?thesis
      using Cons.prems by (intro exI [of _ n] exI [of _ "j # js"]) auto
  qed
qed

section \<open>The simulation\<close>

definition rx_rel :: "messages \<Rightarrow> nat list \<Rightarrow> channel \<Rightarrow> bool" where
  "rx_rel msgs A c \<longleftrightarrow> ch_cb c \<and> ch_next_rx c = of_nat (gap A) \<and>
     (\<exists>idx. ch_rx c = map (rx_env msgs) idx \<and> sorted_wrt (<) idx \<and> set idx = {j \<in> set A. gap A < j})"

lemma rx_rel_new: "rx_rel msgs [] (set_receive_callback True (channel_new l))"
  by (simp add: rx_rel_def set_receive_callback_def channel_new_def)

text \<open>One arrival: the concrete receiver does what the abstract one does.\<close>

lemma receive_step:
  assumes rel: "rx_rel msgs A c" and A: "\<forall>j \<in> set (A @ [i]). Suc j < epoch"
    and len: "length (snd (msgs i)) < 65536"
  shows "\<exists>c'. channel_receive (wire_of msgs i) c = (c', map msgs [gap A..<gap (A @ [i])]) \<and>
    rx_rel msgs (A @ [i]) c'"
proof -
  obtain idx where idx: "ch_cb c" "ch_next_rx c = of_nat (gap A)" "ch_rx c = map (rx_env msgs) idx"
    "sorted_wrt (<) idx" "set idx = {j \<in> set A. gap A < j}"
    using rel by (auto simp: rx_rel_def)
  note gap = gap_props [of A]
  have gap_lt: "gap A < epoch"
  proof (cases "gap A")
    case (Suc g)
    then have "g \<in> set A" using gap by simp
    then show ?thesis using A Suc by simp
  qed (simp add: epoch_def)
  have i: "i < epoch" using A by (simp add: Suc_lessD)
  have recv: "channel_receive (wire_of msgs i) c =
    (if i < gap A then (c, []) else case rx_emplace (map (rx_env msgs) idx) (rx_env msgs i) (of_nat (gap A)) of
       None \<Rightarrow> (c, []) | Some ring \<Rightarrow> rx_deliver (c\<lparr>ch_rx := ring\<rparr>) [])"
    using receive_wire [of msgs i c] len idx(2,3) seq_invalid_epoch [OF i gap_lt] by simp
  have bound: "\<forall>j \<in> set idx. j < 65536" "i < 65536"
    using idx(5) A i by (auto simp: epoch_def)
  show ?thesis
  proof (cases "i < gap A \<or> i \<in> set idx")
    case True
    then have "i \<in> set A" using gap idx(5) by auto
    then have sets: "set (A @ [i]) = set A" and g: "gap (A @ [i]) = gap A"
      using gap by (auto intro!: gap_unique)
    have "rx_emplace (map (rx_env msgs) idx) (rx_env msgs i) (of_nat (gap A)) = None" if "\<not> i < gap A"
      using emplace_sorted [OF idx(4) bound] True that by auto
    then have "channel_receive (wire_of msgs i) c = (c, [])" using recv by simp
    then show ?thesis using rel sets g by (simp add: rx_rel_def)
  next
    case False
    then have ge: "gap A \<le> i" and new: "i \<notin> set idx" by auto
    then have "i \<notin> set A" using gap idx(5) by (cases "i = gap A") auto
    let ?idx = "insort i idx"
    let ?c = "c\<lparr>ch_rx := map (rx_env msgs) ?idx\<rparr>"
    have "rx_emplace (map (rx_env msgs) idx) (rx_env msgs i) (of_nat (gap A)) = Some (map (rx_env msgs) ?idx)"
      using emplace_sorted [OF idx(4) bound] new ge by simp
    then have run: "channel_receive (wire_of msgs i) c = rx_deliver ?c []" using recv ge by simp
    have range: "\<forall>j \<in> set ?idx. gap A \<le> j \<and> j < epoch"
      using ge i A idx(5) by (auto simp: set_insort_key Suc_lessD)
    obtain m idx' where m: "rx_deliver ?c [] =
          (?c\<lparr>ch_rx := map (rx_env msgs) idx', ch_next_rx := of_nat m\<rparr>, map msgs [gap A..<m])"
        "gap A \<le> m" "\<forall>j. gap A \<le> j \<and> j < m \<longrightarrow> j \<in> set ?idx" "m \<notin> set ?idx"
        "sorted_wrt (<) idx'" "set idx' = {j \<in> set ?idx. m < j}"
      using deliver_sorted [OF sorted_insort_strict [OF idx(4) new] range gap_lt, of ?c msgs "[]"]
        idx(1,2) by auto
    have g: "gap (A @ [i]) = m"
    proof (rule gap_unique)
      show "m \<notin> set (A @ [i])"
        using m(2,4) gap idx(5) by (cases "m = gap A") (auto simp: set_insort_key)
      show "\<forall>j < m. j \<in> set (A @ [i])"
      proof (intro allI impI)
        fix j
        assume "j < m"
        then have "j < gap A \<or> j \<in> set ?idx" using m(3) by (metis linorder_not_le)
        then show "j \<in> set (A @ [i])" using gap idx(5) by (auto simp: set_insort_key)
      qed
    qed
    have "set idx' = {j \<in> set (A @ [i]). m < j}"
      unfolding m(6) set_insort_key idx(5) using m(2) ge by auto
    then show ?thesis using run m(1,5) g idx(1) by (auto simp: rx_rel_def)
  qed
qed

fun receive_all :: "bytes list \<Rightarrow> channel \<Rightarrow> channel \<times> (u16 \<times> bytes) list" where
  "receive_all [] c = (c, [])"
| "receive_all (w # ws) c =
    (let (c, out) = channel_receive w c; (c, out') = receive_all ws c in (c, out @ out'))"

lemma gap_mono: "gap A \<le> gap (A @ B)"
  using gap_props [of A] gap_props [of "A @ B"] by (metis Un_iff linorder_not_le set_append)

lemma receive_all_rel:
  "rx_rel msgs A c \<Longrightarrow> \<forall>j \<in> set (A @ is). Suc j < epoch \<Longrightarrow> \<forall>i. length (snd (msgs i)) < 65536 \<Longrightarrow>
   snd (receive_all (map (wire_of msgs) is) c) = map msgs [gap A..<gap (A @ is)]"
proof (induction "is" arbitrary: A c)
  case Nil
  then show ?case by simp
next
  case (Cons i "is")
  from Cons.prems have "\<forall>j \<in> set (A @ [i]). Suc j < epoch" by simp
  from receive_step [OF Cons.prems(1) this] Cons.prems(3)
  obtain c' where c': "channel_receive (wire_of msgs i) c = (c', map msgs [gap A..<gap (A @ [i])])"
    "rx_rel msgs (A @ [i]) c'" by blast
  have "snd (receive_all (map (wire_of msgs) is) c') = map msgs [gap (A @ [i])..<gap ((A @ [i]) @ is)]"
    by (rule Cons.IH [OF c'(2)]) (use Cons.prems in simp_all)
  moreover have "[gap A..<gap (A @ [i])] @ [gap (A @ [i])..<gap ((A @ [i]) @ is)] =
      [gap A..<gap ((A @ [i]) @ is)]"
    using gap_mono [of A "[i]"] gap_mono [of "A @ [i]" "is"] by (metis le_Suc_ex upt_add_eq_append)
  ultimately show ?case
    using c'(1) by (simp add: case_prod_beta Let_def flip: map_append)
qed

text \<open>C2: messages are delivered once each and in order. Let a sender number its messages from 0, and let
  the envelopes reach a fresh channel in any order, any number of times each, or not at all: what the
  channel hands to its callback is the sequence of messages up to, and excluding, the first one of
  which no envelope has arrived. (The statement covers the first 65,487 sequence numbers, where the
  16-bit counter has not come around; see \<open>stale_after_wrap\<close>.)\<close>

lemma in_order_exactly_once:
  assumes "\<forall>i \<in> set is. i < 65487" and "\<forall>i. length (snd (msgs i)) < 65536"
  shows "snd (receive_all (map (wire_of msgs) is) (set_receive_callback True (channel_new l))) =
    map msgs [0..<gap is]"
  using receive_all_rel [OF rx_rel_new, of "is" msgs l] assms by (simp add: epoch_def)

lemma in_order_exactly_once_witness:
  "snd (receive_all (map (wire_of (\<lambda>i. (7, [of_nat i]))) [2, 0, 0, 1])
     (set_receive_callback True (channel_new sample_lnk))) = [(7, [0]), (7, [1]), (7, [2])]"
proof -
  have "gap [2, 0, 0, 1] = 3" by code_simp
  moreover have "[0..<3] = [0, 1, 2 :: nat]" by (simp add: upt_conv_Cons)
  ultimately show ?thesis
    using in_order_exactly_once [of "[2, 0, 0, 1]" "\<lambda>i. (7, [of_nat i])" sample_lnk] by simp
qed

text \<open>a late copy survives the wrap of the counter. After a whole epoch the receiver expects number 0
  again, and a repeat of an envelope of the end of the old epoch (a retransmission whose proof was lost)
  is taken for a future message and kept. When the receiver comes to its number, an epoch later, the old
  message is handed to the callback a second time, in the place of the message that belongs there.\<close>

lemma stale_after_wrap:
  assumes "\<forall>i. length (snd (msgs i)) < 65536" and "ch_cb c" and "ch_rx c = []" and "ch_next_rx c = 0"
  shows "channel_receive (wire_of msgs 65535) c = (c\<lparr>ch_rx := [rx_env msgs 65535]\<rparr>, []) \<and>
    snd (channel_receive (wire_of msgs 131070) (c\<lparr>ch_rx := [rx_env msgs 65535], ch_next_rx := 65534\<rparr>)) =
      [msgs 131070, msgs 65535]"
proof
  have "\<not> seq_invalid 0 (of_nat 65535)" by (simp add: seq_invalid_def)
  then show "channel_receive (wire_of msgs 65535) c = (c\<lparr>ch_rx := [rx_env msgs 65535]\<rparr>, [])"
    using assms by (simp add: receive_wire) (subst rx_deliver.simps, simp)
  let ?c = "c\<lparr>ch_rx := [rx_env msgs 65535], ch_next_rx := 65534\<rparr>"
  have "\<not> seq_invalid 65534 (of_nat 131070)" by (simp add: seq_invalid_def)
  moreover have "rx_emplace [rx_env msgs 65535] (rx_env msgs 131070) 65534 =
      Some [rx_env msgs 131070, rx_env msgs 65535]"
    by (simp add: SEQ_MAX_def)
  ultimately show "snd (channel_receive (wire_of msgs 131070) ?c) = [msgs 131070, msgs 65535]"
    using assms
    by (simp add: receive_wire) (subst rx_deliver.simps, simp add: Let_def, subst rx_deliver.simps, simp add: Let_def,
      subst rx_deliver.simps, simp)
qed

lemma stale_after_wrap_witness:
  "snd (channel_receive (wire_of (\<lambda>i. (7, [of_nat (i mod 251)])) 131070)
     ((set_receive_callback True (channel_new sample_lnk))\<lparr>
        ch_rx := [rx_env (\<lambda>i. (7, [of_nat (i mod 251)])) 65535], ch_next_rx := 65534\<rparr>)) =
   [(7, [of_nat (131070 mod 251)]), (7, [of_nat (65535 mod 251)])]"
  using stale_after_wrap [of "\<lambda>i. (7, [of_nat (i mod 251)])" "set_receive_callback True (channel_new sample_lnk)"]
  by (simp add: set_receive_callback_def channel_new_def)

end
