(* ===== verification/DirRec.thy ===== *)
theory DirRec
  imports Prelude
begin

text \<open>
  The packed records of the directory store (\<open>Directory.cpp\<close>, \<open>Directory.h\<close>): guard record,
  directory record, blob slot, their zeroed values, the eviction class and order of a directory
  record, and the ranking of slots. A record keeps its multi-byte integers at their width and its
  byte arrays as lists; \<open>dir_ok\<close> says the lists have the lengths of the C arrays.

  The pools are lists of slots. What the operations need of a pool is the locale \<open>slot_pool\<close>: a
  test for used slots, a key, and a wipe that makes a slot unused. It is interpreted on the three
  pools.
\<close>

section \<open>Constants\<close>

abbreviation (input) "F_USED \<equiv> 0x01 :: u8"
abbreviation (input) "F_ROUTE \<equiv> 0x02 :: u8"
abbreviation (input) "F_EDGE \<equiv> 0x04 :: u8"
abbreviation (input) "F_PUBKEY \<equiv> 0x08 :: u8"

abbreviation (input) "PRESENT_MASK \<equiv> 0xFF :: u32"
abbreviation (input) "PERSIST_MASK \<equiv> 0xFF00 :: u32"
abbreviation (input) "BLOB_MASK \<equiv> 0xFF0000 :: u32"
abbreviation (input) "ANSWER_FOR \<equiv> 0x1000000 :: u32"

abbreviation (input) "CAT_UNCLAIMED \<equiv> 2 :: u8"
abbreviation (input) "CAT_EPH_LAPSED \<equiv> 3 :: u8"
abbreviation (input) "CAT_EPH_LIVE \<equiv> 4 :: u8"
abbreviation (input) "CAT_EDGE \<equiv> 5 :: u8"
abbreviation (input) "CAT_PERSIST \<equiv> 6 :: u8"
abbreviation (input) "CAT_IN_USE \<equiv> 7 :: u8"
abbreviation (input) "CAT_COUNT \<equiv> 8 :: u8"

abbreviation (input) "DEFAULT_DECAY_S \<equiv> 86400 :: u32"
abbreviation (input) "PATH_LAST_USED_STALE \<equiv> 172800 :: u32"
abbreviation (input) "ALIVE_RESOLUTION_S \<equiv> 10 :: u32"

section \<open>Records\<close>

record guard_rec =
  g_dest4 :: u32
  g_emitted :: u32
  g_age :: u16
  g_fp :: "bytes list"
  g_cursor :: u8
  g_flags :: u8

record dir_rec =
  d_dest :: bytes
  d_pubkey :: bytes
  d_name_hash :: bytes
  d_last_heard :: u32
  d_hops :: u8
  d_flags :: u8
  d_claims :: u32
  d_received_from :: bytes
  d_iface_hash :: bytes
  d_expires :: u32
  d_last_used :: u32
  d_timestamp :: u32
  d_seq :: u16
  d_prio :: u8
  d_pad :: u8
  d_claim_touch :: u32
  d_claim_decay :: u32
  d_last_alive :: u32

record blob_rec =
  b_dest :: bytes
  b_len :: u16
  b_flags :: u16
  b_raw :: bytes

definition zeros :: "nat \<Rightarrow> bytes" where
  "zeros n = replicate n 0"

lemma length_zeros [simp]: "length (zeros n) = n"
  by (simp add: zeros_def)

definition guard_zero :: guard_rec where
  "guard_zero = \<lparr> g_dest4 = 0, g_emitted = 0, g_age = 0, g_fp = replicate 4 (zeros 4),
     g_cursor = 0, g_flags = 0 \<rparr>"

definition dir_zero :: dir_rec where
  "dir_zero = \<lparr> d_dest = zeros 16, d_pubkey = zeros 64, d_name_hash = zeros 10, d_last_heard = 0,
     d_hops = 0, d_flags = 0, d_claims = 0, d_received_from = zeros 16, d_iface_hash = zeros 16,
     d_expires = 0, d_last_used = 0, d_timestamp = 0, d_seq = 0, d_prio = 0, d_pad = 0,
     d_claim_touch = 0, d_claim_decay = 0, d_last_alive = 0 \<rparr>"

definition blob_zero :: "nat \<Rightarrow> blob_rec" where
  "blob_zero sz = \<lparr> b_dest = zeros 16, b_len = 0, b_flags = 0, b_raw = zeros (sz - 20) \<rparr>"

definition guard_used :: "guard_rec \<Rightarrow> bool" where
  "guard_used g \<longleftrightarrow> g_flags g AND 1 \<noteq> 0"

definition dir_used :: "dir_rec \<Rightarrow> bool" where
  "dir_used r \<longleftrightarrow> d_flags r AND F_USED \<noteq> 0"

definition has_route :: "dir_rec \<Rightarrow> bool" where
  "has_route r \<longleftrightarrow> d_flags r AND F_ROUTE \<noteq> 0"

definition has_pubkey :: "dir_rec \<Rightarrow> bool" where
  "has_pubkey r \<longleftrightarrow> d_flags r AND F_PUBKEY \<noteq> 0"

definition blob_used :: "blob_rec \<Rightarrow> bool" where
  "blob_used b \<longleftrightarrow> b_flags b AND 1 \<noteq> 0"

text \<open>A wipe that leaves the sequence counter alone.\<close>

definition rec_clear :: "dir_rec \<Rightarrow> dir_rec" where
  "rec_clear r = dir_zero \<lparr> d_seq := d_seq r \<rparr>"

text \<open>The lengths of the arrays of a directory record.\<close>

definition dir_ok :: "dir_rec \<Rightarrow> bool" where
  "dir_ok r \<longleftrightarrow> length (d_dest r) = 16 \<and> length (d_pubkey r) = 64 \<and> length (d_name_hash r) = 10 \<and>
     length (d_received_from r) = 16 \<and> length (d_iface_hash r) = 16"

definition blob_ok :: "nat \<Rightarrow> blob_rec \<Rightarrow> bool" where
  "blob_ok sz b \<longleftrightarrow> length (b_dest b) = 16 \<and> length (b_raw b) = sz - 20"

lemma dir_zero_ok [simp]: "dir_ok dir_zero"
  by (simp add: dir_ok_def dir_zero_def)

lemma rec_clear_ok [simp]: "dir_ok (rec_clear r)"
  by (simp add: rec_clear_def dir_ok_def dir_zero_def)

lemma blob_zero_ok [simp]: "blob_ok sz (blob_zero sz)"
  by (simp add: blob_ok_def blob_zero_def)

lemma unused_zero [simp]:
  "\<not> dir_used dir_zero" "\<not> dir_used (rec_clear r)" "\<not> blob_used (blob_zero sz)"
  "\<not> guard_used guard_zero"
  by (simp_all add: dir_used_def rec_clear_def dir_zero_def blob_used_def blob_zero_def
      guard_used_def guard_zero_def)

section \<open>Eviction class and order\<close>

definition dir_static_prio :: "dir_rec \<Rightarrow> u8" where
  "dir_static_prio r =
    (if d_claims r AND ANSWER_FOR \<noteq> 0 then CAT_PERSIST
     else if d_claims r AND PRESENT_MASK \<noteq> 0
       then (if d_claims r AND PERSIST_MASK \<noteq> 0 then CAT_PERSIST else CAT_EPH_LIVE)
     else if d_flags r AND F_EDGE \<noteq> 0 then CAT_EDGE
     else CAT_UNCLAIMED)"

definition dir_category :: "dir_rec \<Rightarrow> u32 \<Rightarrow> u8" where
  "dir_category r now =
    (let cat = (if d_prio r \<noteq> 0 then d_prio r else dir_static_prio r);
         decay = (if d_claim_decay r \<noteq> 0 then d_claim_decay r else DEFAULT_DECAY_S);
         cat = (if cat = CAT_EPH_LIVE \<and> now - d_claim_touch r > decay then CAT_EPH_LAPSED else cat)
     in if has_route r \<and> d_last_used r \<noteq> 0 \<and> now - d_last_used r < PATH_LAST_USED_STALE
        then CAT_IN_USE else cat)"

definition dir_order :: "dir_rec \<Rightarrow> u8 \<Rightarrow> u32" where
  "dir_order r cat =
    (if cat = CAT_IN_USE then d_last_used r
     else if cat = CAT_EPH_LAPSED \<or> cat = CAT_EPH_LIVE then d_claim_touch r
     else if cat = CAT_PERSIST
       then (if d_claims r AND PRESENT_MASK \<noteq> 0 then d_claim_touch r else d_last_heard r)
     else d_last_heard r)"

text \<open>The ranking key, most valuable greatest; the slot index makes the order total.\<close>

datatype rank = Rank (r_cat: u8) (r_order: u32) (r_slot: nat)

definition rank_less :: "rank \<Rightarrow> rank \<Rightarrow> bool" where
  "rank_less a b = (if r_cat a \<noteq> r_cat b then r_cat a < r_cat b
     else if r_order a \<noteq> r_order b then r_order a < r_order b
     else r_slot a < r_slot b)"

instantiation rank :: linorder
begin

definition less_rank :: "rank \<Rightarrow> rank \<Rightarrow> bool" where
  "less_rank a b = rank_less a b"

definition less_eq_rank :: "rank \<Rightarrow> rank \<Rightarrow> bool" where
  "less_eq_rank a b \<longleftrightarrow> rank_less a b \<or> a = b"

instance
proof
  fix a b c :: rank
  show "a < b \<longleftrightarrow> a \<le> b \<and> \<not> b \<le> a"
    by (cases a; cases b) (auto simp: less_rank_def less_eq_rank_def rank_less_def)
  show "a \<le> a" by (simp add: less_eq_rank_def)
  show "a \<le> b \<Longrightarrow> b \<le> c \<Longrightarrow> a \<le> c"
    by (cases a; cases b; cases c)
       (auto simp: less_eq_rank_def rank_less_def split: if_splits)
  show "a \<le> b \<Longrightarrow> b \<le> a \<Longrightarrow> a = b"
    by (cases a; cases b) (auto simp: less_eq_rank_def rank_less_def split: if_splits)
  show "a \<le> b \<or> b \<le> a"
    by (cases a; cases b) (auto simp: less_eq_rank_def rank_less_def)
qed

end

lemma rank_less_iff: "Rank c u i < Rank d v j \<longleftrightarrow> c < d \<or> c = d \<and> (u < v \<or> u = v \<and> i < j)"
  by (auto simp: less_rank_def rank_less_def)

definition rank_at :: "u32 \<Rightarrow> dir_rec \<Rightarrow> nat \<Rightarrow> rank" where
  "rank_at now r i = Rank (dir_category r now) (dir_order r (dir_category r now)) i"

lemma rank_at_slot [simp]: "r_slot (rank_at now r i) = i"
  by (simp add: rank_at_def)

section \<open>Pools of slots\<close>

definition slot_find :: "('r \<Rightarrow> bool) \<Rightarrow> ('r \<Rightarrow> 'k) \<Rightarrow> 'k \<Rightarrow> 'r list \<Rightarrow> nat option" where
  "slot_find used key k xs = first_index (\<lambda>r. used r \<and> key r = k) xs"

definition slot_free :: "('r \<Rightarrow> bool) \<Rightarrow> 'r list \<Rightarrow> nat option" where
  "slot_free used xs = first_index (\<lambda>r. \<not> used r) xs"

text \<open>At most one used slot per key.\<close>

definition uniq :: "('r \<Rightarrow> bool) \<Rightarrow> ('r \<Rightarrow> 'k) \<Rightarrow> 'r list \<Rightarrow> bool" where
  "uniq used key xs \<longleftrightarrow> distinct (map key (filter used xs))"

lemma uniq_nth:
  "uniq used key xs \<longleftrightarrow>
     (\<forall>i < length xs. \<forall>j < length xs. used (xs ! i) \<longrightarrow> used (xs ! j) \<longrightarrow>
        key (xs ! i) = key (xs ! j) \<longrightarrow> i = j)" (is "_ \<longleftrightarrow> ?R xs")
proof (induction xs)
  case Nil
  then show ?case by (simp add: uniq_def)
next
  case (Cons x xs)
  have "uniq used key (x # xs) \<longleftrightarrow>
      (used x \<longrightarrow> (\<forall>y \<in> set xs. used y \<longrightarrow> key y \<noteq> key x)) \<and> uniq used key xs"
    by (auto simp: uniq_def image_iff)
  also have "\<dots> \<longleftrightarrow>
      (used x \<longrightarrow> (\<forall>j < length xs. used (xs ! j) \<longrightarrow> key (xs ! j) \<noteq> key x)) \<and> uniq used key xs"
    by (simp add: all_set_conv_all_nth)
  also have "\<dots> \<longleftrightarrow> ?R (x # xs)"
    unfolding Cons.IH by (simp add: All_less_Suc2) (rule iffI; elim conjE; intro conjI allI impI; simp; fastforce)
  finally show ?case .
qed

lemma uniqD:
  "uniq used key xs \<Longrightarrow> i < length xs \<Longrightarrow> j < length xs \<Longrightarrow> used (xs ! i) \<Longrightarrow> used (xs ! j) \<Longrightarrow>
   key (xs ! i) = key (xs ! j) \<Longrightarrow> i = j"
  by (auto simp: uniq_nth)

lemma slot_find_SomeD:
  assumes "slot_find used key k xs = Some i"
  shows "i < length xs" and "used (xs ! i)" and "key (xs ! i) = k"
  using first_index_Some [OF assms [unfolded slot_find_def]] by auto

lemma slot_find_None: "slot_find used key k xs = None \<longleftrightarrow> (\<forall>r \<in> set xs. used r \<longrightarrow> key r \<noteq> k)"
  by (auto simp: slot_find_def first_index_None)

lemma slot_free_SomeD:
  assumes "slot_free used xs = Some i"
  shows "i < length xs" and "\<not> used (xs ! i)"
  using first_index_Some [OF assms [unfolded slot_free_def]] by auto

lemma slot_free_None: "slot_free used xs = None \<longleftrightarrow> (\<forall>r \<in> set xs. used r)"
  by (auto simp: slot_free_def first_index_None)

lemma slot_find_uniq:
  assumes "uniq used key xs" and "i < length xs" "used (xs ! i)" "key (xs ! i) = k"
  shows "slot_find used key k xs = Some i"
  unfolding slot_find_def
proof (rule first_index_SomeI)
  show "\<not> (used (xs ! j) \<and> key (xs ! j) = k)" if "j < i" for j
    using uniqD [OF assms(1), of j i] assms that by auto
qed (use assms in simp_all)

locale slot_pool =
  fixes used :: "'r \<Rightarrow> bool"
    and key :: "'r \<Rightarrow> 'k"
    and wipe :: "'r \<Rightarrow> 'r"
  assumes wiped: "\<not> used (wipe r)"
begin

lemma uniq_wipe:
  assumes "uniq used key xs"
  shows "uniq used key (xs[i := wipe (xs ! i)])"
proof (cases "i < length xs")
  case True
  then show ?thesis using assms wiped by (simp add: uniq_nth nth_list_update)
qed (use assms in \<open>simp add: list_update_beyond\<close>)

lemma uniq_put:
  assumes "uniq used key xs" and "i < length xs"
    and "\<And>j. j < length xs \<Longrightarrow> j \<noteq> i \<Longrightarrow> used (xs ! j) \<Longrightarrow> key (xs ! j) \<noteq> key r"
  shows "uniq used key (xs[i := r])"
  unfolding uniq_nth
proof (intro allI impI)
  fix a b
  assume ab: "a < length (xs[i := r])" "b < length (xs[i := r])" "used (xs[i := r] ! a)"
    "used (xs[i := r] ! b)" "key (xs[i := r] ! a) = key (xs[i := r] ! b)"
  then show "a = b"
    using assms(2) assms(3) [of a] assms(3) [of b] uniqD [OF assms(1), of a b]
    by (cases "a = i"; cases "b = i") simp_all
qed

lemma uniq_same:
  assumes "uniq used key xs" and "i < length xs" "used (xs ! i)" "key r = key (xs ! i)"
  shows "uniq used key (xs[i := r])"
proof (rule uniq_put [OF assms(1,2)])
  show "key (xs ! j) \<noteq> key r" if "j < length xs" "j \<noteq> i" "used (xs ! j)" for j
    using uniqD [OF assms(1), of i j] assms that by auto
qed

lemma uniq_fresh:
  assumes "uniq used key xs" and "slot_find used key (key r) xs = None"
  shows "uniq used key (xs[i := r])"
proof (cases "i < length xs")
  case True
  with assms show ?thesis by (intro uniq_put) (auto simp: slot_find_None)
qed (use assms in \<open>simp add: list_update_beyond\<close>)

lemma find_put:
  assumes "uniq used key (xs[i := r])" and "i < length xs" "used r"
  shows "slot_find used key (key r) (xs[i := r]) = Some i"
  using assms by (intro slot_find_uniq) auto

lemma find_other:
  assumes "i < length xs" and "used (xs ! i) \<Longrightarrow> key (xs ! i) \<noteq> k" and "used r \<Longrightarrow> key r \<noteq> k"
  shows "slot_find used key k (xs[i := r]) = slot_find used key k xs"
proof -
  let ?P = "\<lambda>r. used r \<and> key r = k"
  have P: "?P (xs[i := r] ! j) \<longleftrightarrow> ?P (xs ! j)" if "j < length xs" for j
    using assms that by (auto simp: nth_list_update)
  show ?thesis
  proof (cases "first_index ?P xs")
    case None
    then have "first_index ?P (xs[i := r]) = None"
      unfolding first_index_None set_conv_nth using P by fastforce
    with None show ?thesis by (simp add: slot_find_def)
  next
    case (Some j)
    from first_index_Some [OF Some] have "first_index ?P (xs[i := r]) = Some j"
      using P by (intro first_index_SomeI) (simp_all)
    with Some show ?thesis by (simp add: slot_find_def)
  qed
qed

lemma find_wiped:
  assumes "uniq used key xs" and "i < length xs" "used (xs ! i)"
  shows "slot_find used key (key (xs ! i)) (xs[i := wipe (xs ! i)]) = None"
  unfolding slot_find_None
proof (intro ballI impI)
  fix r
  assume "r \<in> set (xs[i := wipe (xs ! i)])" and u: "used r"
  then obtain j where j: "j < length xs" "r = xs[i := wipe (xs ! i)] ! j"
    by (auto simp: in_set_conv_nth)
  with u wiped have "j \<noteq> i" using assms(2) by auto
  with j u uniqD [OF assms(1), of j i] assms show "key r \<noteq> key (xs ! i)" by auto
qed

lemma count_wipe:
  assumes "i < length xs" "used (xs ! i)"
  shows "Suc (count_if used (xs[i := wipe (xs ! i)])) = count_if used xs"
  using count_if_update [of i xs used "wipe (xs ! i)"] assms wiped by simp

lemma free_after_wipe:
  assumes "i < length xs"
  shows "\<exists>j. slot_free used (xs[i := wipe (xs ! i)]) = Some j"
proof -
  have "wipe (xs ! i) \<in> set (xs[i := wipe (xs ! i)])" using assms by (rule set_update_memI)
  then have "slot_free used (xs[i := wipe (xs ! i)]) \<noteq> None"
    using wiped by (auto simp: slot_free_None)
  then show ?thesis by simp
qed

end

interpretation dirs: slot_pool dir_used d_dest rec_clear
  by unfold_locales simp

interpretation blobs: slot_pool blob_used b_dest "\<lambda>b. blob_zero sz" for sz
  by unfold_locales simp

interpretation guards: slot_pool guard_used g_dest4 "\<lambda>g. guard_zero"
  by unfold_locales simp

section \<open>Choosing a slot by its rank\<close>

text \<open>
  The select-min loop of the two evictions: a slot replaces the victim when its category is lower,
  or equal with a lower order. On ranks it is the least element.
\<close>

fun select_min :: "('r \<Rightarrow> (u8 \<times> u32) option) \<Rightarrow> 'r list \<Rightarrow> nat \<Rightarrow> (nat \<times> u8 \<times> u32) option
    \<Rightarrow> (nat \<times> u8 \<times> u32) option" where
  "select_min f [] i best = best"
| "select_min f (r # rs) i best = select_min f rs (Suc i)
    (case f r of None \<Rightarrow> best
     | Some (cat, ord) \<Rightarrow>
        (case best of None \<Rightarrow> Some (i, cat, ord)
         | Some (v, vcat, vord) \<Rightarrow>
             if cat < vcat \<or> cat = vcat \<and> ord < vord then Some (i, cat, ord) else best))"

definition key_at :: "('r \<Rightarrow> (u8 \<times> u32) option) \<Rightarrow> 'r list \<Rightarrow> nat \<Rightarrow> rank option" where
  "key_at f xs i = (if i < length xs then map_option (\<lambda>(c, u). Rank c u i) (f (xs ! i)) else None)"

lemma select_min_aux:
  assumes "select_min f (drop i xs) i best = res" and "i \<le> length xs"
    and "case best of None \<Rightarrow> \<forall>j < i. key_at f xs j = None
       | Some (v, c, u) \<Rightarrow> v < i \<and> key_at f xs v = Some (Rank c u v) \<and>
           (\<forall>j < i. \<forall>k. key_at f xs j = Some k \<longrightarrow> Rank c u v \<le> k)"
  shows "case res of None \<Rightarrow> \<forall>j. key_at f xs j = None
     | Some (v, c, u) \<Rightarrow> key_at f xs v = Some (Rank c u v) \<and>
           (\<forall>j k. key_at f xs j = Some k \<longrightarrow> Rank c u v \<le> k)"
  using assms
proof (induction "length xs - i" arbitrary: i best)
  case 0
  then have "i = length xs" by simp
  with 0 show ?case
    by (auto simp: key_at_def split: option.splits prod.splits if_splits)
next
  case (Suc m)
  then have i: "i < length xs" by simp
  then have d: "drop i xs = xs ! i # drop (Suc i) xs" by (simp add: Cons_nth_drop_Suc)
  let ?b = "case f (xs ! i) of None \<Rightarrow> best
     | Some (cat, ord) \<Rightarrow>
        (case best of None \<Rightarrow> Some (i, cat, ord)
         | Some (v, vcat, vord) \<Rightarrow>
             if cat < vcat \<or> cat = vcat \<and> ord < vord then Some (i, cat, ord) else best)"
  show ?case
  proof (rule Suc.hyps(1) [of "Suc i" ?b])
    show "m = length xs - Suc i" "Suc i \<le> length xs" using Suc.hyps(2) i by simp_all
    show "select_min f (drop (Suc i) xs) (Suc i) ?b = res" using Suc.prems(1) by (simp add: d)
    show "case ?b of None \<Rightarrow> \<forall>j < Suc i. key_at f xs j = None
       | Some (v, c, u) \<Rightarrow> v < Suc i \<and> key_at f xs v = Some (Rank c u v) \<and>
           (\<forall>j < Suc i. \<forall>k. key_at f xs j = Some k \<longrightarrow> Rank c u v \<le> k)"
    proof (cases "f (xs ! i)")
      case None
      then have "key_at f xs i = None" by (simp add: key_at_def)
      with None Suc.prems(3) show ?thesis
        by (auto simp: less_Suc_eq split: option.splits)
    next
      case (Some p)
      obtain cat ord where p: "p = (cat, ord)" by (cases p)
      have ki: "key_at f xs i = Some (Rank cat ord i)" using Some p i by (simp add: key_at_def)
      show ?thesis
      proof (cases best)
        case None
        with Some p ki Suc.prems(3) show ?thesis by (auto simp: less_Suc_eq)
      next
        case (Some q)
        obtain v c u where q: "q = (v, c, u)" by (cases q)
        have inv: "v < i" "key_at f xs v = Some (Rank c u v)"
          "\<forall>j < i. \<forall>k. key_at f xs j = Some k \<longrightarrow> Rank c u v \<le> k"
          using Suc.prems(3) Some q by auto
        show ?thesis
        proof (cases "cat < c \<or> cat = c \<and> ord < u")
          case True
          then have "Rank cat ord i \<le> Rank c u v"
            using inv(1) by (auto simp: rank_less_iff less_imp_le)
          with True \<open>f (xs ! i) = Some p\<close> p Some q ki inv show ?thesis
            by (auto simp: less_Suc_eq intro: order_trans)
        next
          case False
          then have "Rank c u v \<le> Rank cat ord i"
            using inv(1) by (auto simp: rank_less_iff not_less le_less)
          with False \<open>f (xs ! i) = Some p\<close> p Some q ki inv show ?thesis
            by (auto simp: less_Suc_eq)
        qed
      qed
    qed
  qed
qed

lemma select_min_None:
  assumes "select_min f xs 0 None = None" and "r \<in> set xs"
  shows "f r = None"
proof -
  have *: "key_at f xs j = None" for j
    using select_min_aux [of f 0 xs None None] assms(1) by simp
  obtain i where "i < length xs" "xs ! i = r" using assms(2) by (auto simp: in_set_conv_nth)
  with * [of i] show ?thesis by (simp add: key_at_def)
qed

lemma select_min_Some:
  assumes "select_min f xs 0 None = Some (v, c, u)"
  shows "v < length xs" and "f (xs ! v) = Some (c, u)"
    and "\<And>j d w. j < length xs \<Longrightarrow> f (xs ! j) = Some (d, w) \<Longrightarrow> Rank c u v \<le> Rank d w j"
proof -
  have *: "key_at f xs v = Some (Rank c u v)"
    "\<And>j k. key_at f xs j = Some k \<Longrightarrow> Rank c u v \<le> k"
    using select_min_aux [of f 0 xs None "Some (v, c, u)"] assms by simp_all
  show "v < length xs" "f (xs ! v) = Some (c, u)"
    using *(1) by (auto simp: key_at_def split: if_splits)
  show "Rank c u v \<le> Rank d w j" if "j < length xs" "f (xs ! j) = Some (d, w)" for j d w
    using *(2) [of j "Rank d w j"] that by (simp add: key_at_def)
qed

section \<open>The store\<close>

record rdir_stats =
  guard_drop_fp :: u32
  guard_drop_emitted :: u32
  guard_bypass :: u32
  guard_resets :: u32
  evict_guard :: u32
  evict_dir :: "u32 list"
  evict_blob :: u32
  recall_miss :: u32
  seq_retries :: u32
  snapshots :: u32

record rdir =
  s_ready :: bool
  s_guard :: "guard_rec list"
  s_dir :: "dir_rec list"
  s_blob :: "blob_rec list"
  s_blob_slot_sz :: u16
  s_blob_units :: u8
  s_stats :: rdir_stats
  s_generation :: u32

definition stats_zero :: rdir_stats where
  "stats_zero = \<lparr> guard_drop_fp = 0, guard_drop_emitted = 0, guard_bypass = 0, guard_resets = 0,
     evict_guard = 0, evict_dir = replicate 8 0, evict_blob = 0, recall_miss = 0, seq_retries = 0,
     snapshots = 0 \<rparr>"

abbreviation upd_stats :: "(rdir_stats \<Rightarrow> rdir_stats) \<Rightarrow> rdir \<Rightarrow> rdir" where
  "upd_stats f st \<equiv> st \<lparr> s_stats := f (s_stats st) \<rparr>"

abbreviation guard_find :: "rdir \<Rightarrow> u32 \<Rightarrow> nat option" where
  "guard_find st d4 \<equiv> slot_find guard_used g_dest4 d4 (s_guard st)"

abbreviation dir_find :: "rdir \<Rightarrow> bytes \<Rightarrow> nat option" where
  "dir_find st dest \<equiv> slot_find dir_used d_dest dest (s_dir st)"

abbreviation blob_find :: "rdir \<Rightarrow> bytes \<Rightarrow> nat option" where
  "blob_find st dest \<equiv> slot_find blob_used b_dest dest (s_blob st)"

end
