(* ===== verification/DirStore.thy ===== *)
theory DirStore
  imports DirRec
begin

text \<open>
  The directory and blob pools (\<open>Directory.cpp\<close>): write sessions, eviction, allocation, ingest,
  use and liveness stamps, route clearing, forget, claims, seeded keys and the readers. The clock is
  read once per operation (\<open>now\<close>). Readers are the ones of the writer's own task here, which never
  meet a write in flight; \<open>DirSeqlock\<close> has the readers of the other tasks.
\<close>

section \<open>Write sessions\<close>

definition write_begin :: "dir_rec \<Rightarrow> dir_rec" where
  "write_begin r = r \<lparr> d_seq := d_seq r OR 1 \<rparr>"

definition write_end :: "dir_rec \<Rightarrow> dir_rec" where
  "write_end r = r \<lparr> d_seq := (d_seq r + 1) AND NOT 1 \<rparr>"

text \<open>A session on slot \<open>i\<close> with the payload writes \<open>f\<close>; closing it bumps the generation.\<close>

definition write_rec :: "nat \<Rightarrow> (dir_rec \<Rightarrow> dir_rec) \<Rightarrow> rdir \<Rightarrow> rdir" where
  "write_rec i f st = st \<lparr> s_dir := (s_dir st)[i := write_end (f (write_begin (s_dir st ! i)))],
     s_generation := s_generation st + 1 \<rparr>"

section \<open>Eviction\<close>

definition dir_used_n :: "rdir \<Rightarrow> nat" where
  "dir_used_n st = count_if dir_used (s_dir st)"

definition blob_used_n :: "rdir \<Rightarrow> nat" where
  "blob_used_n st = count_if blob_used (s_blob st)"

definition blob_free :: "nat \<Rightarrow> rdir \<Rightarrow> rdir" where
  "blob_free i st = st \<lparr> s_blob := (s_blob st)[i := blob_zero (unat (s_blob_slot_sz st))],
     s_generation := s_generation st + 1 \<rparr>"

definition dir_key :: "u32 \<Rightarrow> dir_rec \<Rightarrow> (u8 \<times> u32) option" where
  "dir_key now r =
    (if \<not> dir_used r then None else Some (dir_category r now, dir_order r (dir_category r now)))"

definition evict_one_dir :: "u32 \<Rightarrow> rdir \<Rightarrow> rdir option" where
  "evict_one_dir now st =
    (case select_min (dir_key now) (s_dir st) 0 None of
       None \<Rightarrow> None
     | Some (v, vcat, vord) \<Rightarrow>
        let st = (case blob_find st (d_dest (s_dir st ! v)) of
                    None \<Rightarrow> st
                  | Some b \<Rightarrow> upd_stats (\<lambda>s. s \<lparr> evict_blob := evict_blob s + 1 \<rparr>) (blob_free b st));
            st = write_rec v rec_clear st;
            c = unat vcat
        in Some (if vcat < CAT_COUNT
             then upd_stats (\<lambda>s. s \<lparr> evict_dir := (evict_dir s)[c := evict_dir s ! c + 1] \<rparr>) st else st))"

definition blob_key :: "u32 \<Rightarrow> rdir \<Rightarrow> blob_rec \<Rightarrow> (u8 \<times> u32) option" where
  "blob_key now st b =
    (if \<not> blob_used b then None
     else case dir_find st (b_dest b) of
       None \<Rightarrow> Some (0, 0)
     | Some i \<Rightarrow> let r = s_dir st ! i in Some (dir_category r now, dir_order r (dir_category r now)))"

definition evict_one_blob :: "u32 \<Rightarrow> rdir \<Rightarrow> rdir option" where
  "evict_one_blob now st =
    (case select_min (blob_key now st) (s_blob st) 0 None of
       None \<Rightarrow> None
     | Some (v, _, _) \<Rightarrow>
        Some (upd_stats (\<lambda>s. s \<lparr> evict_blob := evict_blob s + 1 \<rparr>) (blob_free v st)))"

text \<open>\<open>while (n > target && evictOne(now)) n--\<close>\<close>

fun evict_loop :: "(rdir \<Rightarrow> rdir option) \<Rightarrow> nat \<Rightarrow> nat \<Rightarrow> rdir \<Rightarrow> rdir" where
  "evict_loop evict target n st =
    (if n > target then (case evict st of None \<Rightarrow> st | Some st' \<Rightarrow> evict_loop evict target (n - 1) st')
     else st)"

declare evict_loop.simps [simp del]

definition rdir_evict_to :: "u32 \<Rightarrow> nat \<Rightarrow> nat \<Rightarrow> rdir \<Rightarrow> rdir" where
  "rdir_evict_to now dir_target blob_target st =
    (if \<not> s_ready st then st
     else let st = evict_loop (evict_one_dir now) dir_target (dir_used_n st) st
          in evict_loop (evict_one_blob now) blob_target (blob_used_n st) st)"

definition dir_alloc :: "u32 \<Rightarrow> rdir \<Rightarrow> (nat \<times> rdir) option" where
  "dir_alloc now st =
    (case slot_free dir_used (s_dir st) of
       Some i \<Rightarrow> Some (i, st)
     | None \<Rightarrow>
        (case evict_one_dir now st of
           None \<Rightarrow> None
         | Some st \<Rightarrow> map_option (\<lambda>i. (i, st)) (slot_free dir_used (s_dir st))))"

definition blob_alloc :: "u32 \<Rightarrow> rdir \<Rightarrow> (nat \<times> rdir) option" where
  "blob_alloc now st =
    (case slot_free blob_used (s_blob st) of
       Some i \<Rightarrow> Some (i, st)
     | None \<Rightarrow>
        (case evict_one_blob now st of
           None \<Rightarrow> None
         | Some st \<Rightarrow> map_option (\<lambda>i. (i, st)) (slot_free blob_used (s_blob st))))"

section \<open>Ingest\<close>

record announce =
  a_pubkey :: "bytes option"
  a_name_hash :: "bytes option"
  a_received_from :: "bytes option"
  a_iface_hash :: "bytes option"
  a_raw :: "bytes option"
  a_raw_len :: u16
  a_hops :: u8
  a_edge :: bool
  a_answer_for :: bool
  a_timestamp :: u32
  a_expires :: u32

definition set_flag :: "u8 \<Rightarrow> dir_rec \<Rightarrow> dir_rec" where
  "set_flag f r = r \<lparr> d_flags := d_flags r OR f \<rparr>"

definition clear_flag :: "u8 \<Rightarrow> dir_rec \<Rightarrow> dir_rec" where
  "clear_flag f r = r \<lparr> d_flags := d_flags r AND NOT f \<rparr>"

definition set_prio :: "dir_rec \<Rightarrow> dir_rec" where
  "set_prio r = r \<lparr> d_prio := dir_static_prio r \<rparr>"

text \<open>The payload writes of an ingest, in the order of the source.\<close>

definition ingest_rec :: "u32 \<Rightarrow> bytes \<Rightarrow> announce \<Rightarrow> dir_rec \<Rightarrow> dir_rec" where
  "ingest_rec now dest a r =
    (let r = r \<lparr> d_dest := dest \<rparr>;
         r = (case a_pubkey a of None \<Rightarrow> r | Some pk \<Rightarrow> set_flag F_PUBKEY (r \<lparr> d_pubkey := pk \<rparr>));
         r = (case a_name_hash a of None \<Rightarrow> r | Some nh \<Rightarrow> r \<lparr> d_name_hash := nh \<rparr>);
         r = r \<lparr> d_last_heard := now, d_hops := a_hops a, d_timestamp := a_timestamp a,
                 d_expires := a_expires a \<rparr>;
         r = (case (a_received_from a, a_iface_hash a) of
                (Some rf, Some ih) \<Rightarrow> set_flag F_ROUTE (r \<lparr> d_received_from := rf, d_iface_hash := ih \<rparr>)
              | _ \<Rightarrow> r);
         r = (if a_edge a then set_flag F_EDGE r else r);
         r = (if a_answer_for a then r \<lparr> d_claims := d_claims r OR ANSWER_FOR \<rparr>
              else r \<lparr> d_claims := d_claims r AND NOT ANSWER_FOR \<rparr>);
         r = set_flag F_USED r
     in set_prio r)"

definition ingest_dir :: "u32 \<Rightarrow> bytes \<Rightarrow> announce \<Rightarrow> rdir \<Rightarrow> rdir option" where
  "ingest_dir now dest a st =
    (case dir_find st dest of
       Some i \<Rightarrow> Some (write_rec i (ingest_rec now dest a) st)
     | None \<Rightarrow>
        (case dir_alloc now st of
           None \<Rightarrow> None
         | Some (i, st) \<Rightarrow> Some (write_rec i (ingest_rec now dest a \<circ> rec_clear) st)))"

definition ingest_blob :: "u32 \<Rightarrow> bytes \<Rightarrow> bytes \<Rightarrow> u16 \<Rightarrow> rdir \<Rightarrow> rdir" where
  "ingest_blob now dest raw len st =
    (if unat len + 20 \<le> unat (s_blob_slot_sz st) then
       (case (case blob_find st dest of Some i \<Rightarrow> Some (i, st) | None \<Rightarrow> blob_alloc now st) of
          None \<Rightarrow> st
        | Some (i, st) \<Rightarrow>
           st \<lparr> s_blob := (s_blob st)[i := \<lparr> b_dest = dest, b_len = len, b_flags = 1,
                    b_raw = take (unat len) raw @ zeros (unat (s_blob_slot_sz st) - 20 - unat len) \<rparr>],
                s_generation := s_generation st + 1 \<rparr>)
     else st)"

definition rdir_ingest :: "u32 \<Rightarrow> bytes \<Rightarrow> announce \<Rightarrow> u8 \<Rightarrow> rdir \<Rightarrow> rdir" where
  "rdir_ingest now dest a layers st =
    (if \<not> s_ready st then st
     else case (if layers AND 1 \<noteq> 0 then ingest_dir now dest a st else Some st) of
       None \<Rightarrow> st
     | Some st \<Rightarrow>
        (case a_raw a of
           Some raw \<Rightarrow> if layers AND 2 \<noteq> 0 \<and> a_raw_len a > 0
             then ingest_blob now dest raw (a_raw_len a) st else st
         | None \<Rightarrow> st))"

section \<open>Stamps, routes, forget\<close>

text \<open>An operation on the record of a destination that does nothing without one.\<close>

definition with_rec :: "bytes \<Rightarrow> (nat \<Rightarrow> dir_rec \<Rightarrow> rdir \<Rightarrow> rdir) \<Rightarrow> rdir \<Rightarrow> rdir" where
  "with_rec dest f st =
    (if \<not> s_ready st then st
     else case dir_find st dest of None \<Rightarrow> st | Some i \<Rightarrow> f i (s_dir st ! i) st)"

definition touch_rec :: "u32 \<Rightarrow> u32 \<Rightarrow> dir_rec \<Rightarrow> dir_rec" where
  "touch_rec now expires r = (let r = r \<lparr> d_last_used := now \<rparr> in
     if expires > d_expires r then r \<lparr> d_expires := expires \<rparr> else r)"

definition rdir_touch_used :: "u32 \<Rightarrow> bytes \<Rightarrow> u32 \<Rightarrow> rdir \<Rightarrow> rdir" where
  "rdir_touch_used now dest expires = with_rec dest (\<lambda>i _. write_rec i (touch_rec now expires))"

definition rdir_mark_alive :: "u32 \<Rightarrow> bytes \<Rightarrow> rdir \<Rightarrow> rdir" where
  "rdir_mark_alive now dest = with_rec dest (\<lambda>i r.
     if d_last_alive r \<noteq> 0 \<and> now - d_last_alive r < ALIVE_RESOLUTION_S then id
     else write_rec i (\<lambda>r. r \<lparr> d_last_alive := now \<rparr>))"

definition clear_route_rec :: "dir_rec \<Rightarrow> dir_rec" where
  "clear_route_rec r =
    (clear_flag F_ROUTE (r \<lparr> d_received_from := zeros 16, d_iface_hash := zeros 16 \<rparr>))
      \<lparr> d_expires := 0, d_last_used := 0, d_hops := 0 \<rparr>"

definition rdir_clear_route :: "bytes \<Rightarrow> rdir \<Rightarrow> bool \<times> rdir" where
  "rdir_clear_route dest st =
    (if \<not> s_ready st then (False, st)
     else case dir_find st dest of
       None \<Rightarrow> (False, st)
     | Some i \<Rightarrow> if \<not> has_route (s_dir st ! i) then (False, st)
         else (True, write_rec i clear_route_rec st))"

fun clear_routes_from :: "nat list \<Rightarrow> rdir \<Rightarrow> nat \<times> rdir" where
  "clear_routes_from [] st = (0, st)"
| "clear_routes_from (i # is) st =
    (if \<not> dir_used (s_dir st ! i) \<or> \<not> has_route (s_dir st ! i) then clear_routes_from is st
     else let (n, st) = clear_routes_from is (write_rec i clear_route_rec st) in (n + 1, st))"

definition rdir_clear_all_routes :: "rdir \<Rightarrow> nat \<times> rdir" where
  "rdir_clear_all_routes st =
    (if \<not> s_ready st then (0, st) else clear_routes_from [0..<length (s_dir st)] st)"

text \<open>Unlike the evictions this wipes the sequence counter too (\<open>memset\<close> of the whole record).\<close>

definition rdir_forget :: "bytes \<Rightarrow> rdir \<Rightarrow> bool \<times> rdir" where
  "rdir_forget dest st =
    (if \<not> s_ready st then (False, st)
     else let blob = blob_find st dest;
              st = (case blob of None \<Rightarrow> st | Some b \<Rightarrow> blob_free b st) in
     case dir_find st dest of
       None \<Rightarrow> (blob \<noteq> None, st)
     | Some i \<Rightarrow> (True, write_rec i (\<lambda>r. dir_zero) st))"

section \<open>Claims and seeded keys\<close>

record claim =
  c_consumer :: u8
  c_klass :: u8
  c_layers :: u8
  c_decay_s :: u32

definition claim_bit :: "u8 \<Rightarrow> u32" where
  "claim_bit consumer = push_bit (unat consumer) 1"

definition claim_rec :: "u32 \<Rightarrow> claim \<Rightarrow> dir_rec \<Rightarrow> dir_rec" where
  "claim_rec now c r =
    (let bit = claim_bit (c_consumer c);
         cl = d_claims r OR bit;
         cl = (if c_klass c = 1 then cl OR push_bit 8 bit else cl AND NOT (push_bit 8 bit));
         cl = (if c_layers c AND 2 \<noteq> 0 then cl OR push_bit 16 bit else cl AND NOT (push_bit 16 bit));
         r = r \<lparr> d_claims := cl \<rparr>;
         r = (if c_decay_s c > d_claim_decay r then r \<lparr> d_claim_decay := c_decay_s c \<rparr> else r)
     in set_prio (r \<lparr> d_claim_touch := now \<rparr>))"

definition fresh_rec :: "u32 \<Rightarrow> bytes \<Rightarrow> dir_rec \<Rightarrow> dir_rec" where
  "fresh_rec now dest r = set_flag F_USED (rec_clear r \<lparr> d_dest := dest \<rparr>) \<lparr> d_last_heard := now \<rparr>"

text \<open>An operation that creates an empty record when there is none.\<close>

definition with_rec_or_new ::
    "u32 \<Rightarrow> bytes \<Rightarrow> (dir_rec \<Rightarrow> dir_rec) \<Rightarrow> (dir_rec \<Rightarrow> dir_rec) \<Rightarrow> rdir \<Rightarrow> rdir" where
  "with_rec_or_new now dest init f st =
    (case dir_find st dest of
       Some i \<Rightarrow> write_rec i f st
     | None \<Rightarrow>
        (case dir_alloc now st of
           None \<Rightarrow> st
         | Some (i, st) \<Rightarrow> write_rec i (f \<circ> init) st))"

definition rdir_claim :: "u32 \<Rightarrow> bytes \<Rightarrow> claim \<Rightarrow> rdir \<Rightarrow> rdir" where
  "rdir_claim now dest c st =
    (if \<not> s_ready st \<or> c_consumer c \<ge> 8 then st
     else with_rec_or_new now dest (fresh_rec now dest) (claim_rec now c) st)"

definition rdir_claim_touch :: "u32 \<Rightarrow> bytes \<Rightarrow> u8 \<Rightarrow> rdir \<Rightarrow> rdir" where
  "rdir_claim_touch now dest consumer st =
    (if consumer \<ge> 8 then st
     else with_rec dest (\<lambda>i r. if d_claims r AND claim_bit consumer = 0 then id
       else write_rec i (\<lambda>r. r \<lparr> d_claim_touch := now \<rparr>)) st)"

definition drop_rec :: "u8 \<Rightarrow> dir_rec \<Rightarrow> dir_rec" where
  "drop_rec consumer r =
    (let bit = claim_bit consumer;
         r = r \<lparr> d_claims := d_claims r AND NOT (bit OR push_bit 8 bit OR push_bit 16 bit) \<rparr>;
         r = (if d_claims r AND PRESENT_MASK = 0 then r \<lparr> d_claim_decay := 0 \<rparr> else r)
     in set_prio r)"

definition rdir_claim_drop :: "bytes \<Rightarrow> u8 \<Rightarrow> rdir \<Rightarrow> rdir" where
  "rdir_claim_drop dest consumer st =
    (if consumer \<ge> 8 then st else with_rec dest (\<lambda>i _. write_rec i (drop_rec consumer)) st)"

definition rdir_seed_pubkey :: "u32 \<Rightarrow> bytes \<Rightarrow> bytes \<Rightarrow> rdir \<Rightarrow> rdir" where
  "rdir_seed_pubkey now dest pk st =
    (if \<not> s_ready st then st
     else with_rec_or_new now dest (set_prio \<circ> fresh_rec now dest)
       (\<lambda>r. set_flag F_PUBKEY (r \<lparr> d_pubkey := pk \<rparr>)) st)"

section \<open>Readers\<close>

record route =
  rt_received_from :: bytes
  rt_iface_hash :: bytes
  rt_hops :: u8
  rt_expires :: u32
  rt_last_used :: u32
  rt_timestamp :: u32

definition fill_route :: "dir_rec \<Rightarrow> route" where
  "fill_route r = \<lparr> rt_received_from = d_received_from r, rt_iface_hash = d_iface_hash r,
     rt_hops = d_hops r, rt_expires = d_expires r, rt_last_used = d_last_used r,
     rt_timestamp = d_timestamp r \<rparr>"

record entry =
  e_dest :: bytes
  e_pubkey :: bytes
  e_name_hash :: bytes
  e_last_heard :: u32
  e_last_alive :: u32
  e_claims :: u32
  e_claim_touch :: u32
  e_hops :: u8
  e_flags :: u8
  e_prio :: u8
  e_has_pubkey :: bool
  e_has_route :: bool
  e_route :: route

definition fill_entry :: "dir_rec \<Rightarrow> entry" where
  "fill_entry r = \<lparr> e_dest = d_dest r, e_pubkey = d_pubkey r, e_name_hash = d_name_hash r,
     e_last_heard = d_last_heard r, e_last_alive = d_last_alive r, e_claims = d_claims r,
     e_claim_touch = d_claim_touch r, e_hops = d_hops r, e_flags = d_flags r, e_prio = d_prio r,
     e_has_pubkey = has_pubkey r, e_has_route = has_route r, e_route = fill_route r \<rparr>"

definition dir_lookup :: "rdir \<Rightarrow> bytes \<Rightarrow> dir_rec option" where
  "dir_lookup st dest = (if \<not> s_ready st then None else map_option (\<lambda>i. s_dir st ! i) (dir_find st dest))"

definition rdir_peek_route :: "bytes \<Rightarrow> rdir \<Rightarrow> route option" where
  "rdir_peek_route dest st =
    (case dir_lookup st dest of
       None \<Rightarrow> None
     | Some r \<Rightarrow> if has_route r then Some (fill_route r) else None)"

definition rdir_peek_pubkey :: "bytes \<Rightarrow> rdir \<Rightarrow> bytes option \<times> rdir" where
  "rdir_peek_pubkey dest st =
    (case dir_lookup st dest of
       None \<Rightarrow> (None, upd_stats (\<lambda>s. s \<lparr> recall_miss := recall_miss s + 1 \<rparr>) st)
     | Some r \<Rightarrow>
        if \<not> has_pubkey r then (None, upd_stats (\<lambda>s. s \<lparr> recall_miss := recall_miss s + 1 \<rparr>) st)
        else (Some (d_pubkey r), st))"

definition rdir_peek_entry :: "bytes \<Rightarrow> rdir \<Rightarrow> entry option" where
  "rdir_peek_entry dest st = map_option fill_entry (dir_lookup st dest)"

definition rdir_has_claim :: "bytes \<Rightarrow> rdir \<Rightarrow> bool" where
  "rdir_has_claim dest st =
    (case dir_lookup st dest of None \<Rightarrow> False | Some r \<Rightarrow> d_claims r AND PRESENT_MASK \<noteq> 0)"

definition rdir_in_use :: "u32 \<Rightarrow> bytes \<Rightarrow> rdir \<Rightarrow> bool" where
  "rdir_in_use now dest st =
    (case dir_lookup st dest of
       None \<Rightarrow> False
     | Some r \<Rightarrow> if \<not> has_route r \<or> d_last_used r = 0 then False
         else now - d_last_used r < PATH_LAST_USED_STALE)"

text \<open>The length comes from the slot, so a copy can run past the slot it is in: that is a fault here.\<close>

definition rdir_copy_blob :: "bytes \<Rightarrow> nat \<Rightarrow> rdir \<Rightarrow> bytes res" where
  "rdir_copy_blob dest cap st =
    (if \<not> s_ready st then Inr []
     else case blob_find st dest of
       None \<Rightarrow> Inr []
     | Some i \<Rightarrow> let b = s_blob st ! i in
         if b_len b = 0 \<or> unat (b_len b) > cap then Inr [] else rd_block (b_raw b) 0 (unat (b_len b)))"

definition rdir_for_each :: "rdir \<Rightarrow> entry list" where
  "rdir_for_each st = (if \<not> s_ready st then [] else map fill_entry (filter dir_used (s_dir st)))"

definition rdir_count :: "rdir \<Rightarrow> nat" where
  "rdir_count st = (if s_ready st then dir_used_n st else 0)"

definition rdir_guard_count :: "rdir \<Rightarrow> nat" where
  "rdir_guard_count st = (if \<not> s_ready st then 0 else count_if guard_used (s_guard st))"

definition rdir_blob_count :: "rdir \<Rightarrow> nat" where
  "rdir_blob_count st = (if s_ready st then blob_used_n st else 0)"

definition rdir_image_bytes :: "rdir \<Rightarrow> nat" where
  "rdir_image_bytes st = (if \<not> s_ready st then 0
     else 16 + dir_used_n st * 160 + blob_used_n st * unat (s_blob_slot_sz st))"

end
