(* ===== verification/DirInv.thy ===== *)
theory DirInv
  imports DirStore
begin

text \<open>
  The invariant of the directory and blob pools and its preservation by every operation of the
  writer: at most one record and one blob per destination, records and slots of their fixed sizes,
  the compiled class of a record (\<open>prio\<close>) always the class its claims and flags mean, sequence
  counters even between sessions, and every blob inside its slot. \<open>dir_step\<close> is one operation,
  \<open>dir_reach\<close> any number of them.
\<close>

section \<open>The invariant\<close>

definition rec_inv :: "dir_rec \<Rightarrow> bool" where
  "rec_inv r \<longleftrightarrow> dir_ok r \<and> (dir_used r \<longrightarrow> d_prio r = dir_static_prio r) \<and> d_seq r AND 1 = 0"

definition slot_inv :: "nat \<Rightarrow> blob_rec \<Rightarrow> bool" where
  "slot_inv sz b \<longleftrightarrow> blob_ok sz b \<and> unat (b_len b) + 20 \<le> sz"

definition store_inv :: "rdir \<Rightarrow> bool" where
  "store_inv st \<longleftrightarrow> uniq dir_used d_dest (s_dir st) \<and> uniq blob_used b_dest (s_blob st) \<and>
     (\<forall>r \<in> set (s_dir st). rec_inv r) \<and>
     (\<forall>b \<in> set (s_blob st). slot_inv (unat (s_blob_slot_sz st)) b) \<and>
     20 \<le> unat (s_blob_slot_sz st)"

text \<open>What no operation of the writer changes.\<close>

definition same_shape :: "rdir \<Rightarrow> rdir \<Rightarrow> bool" where
  "same_shape st st' \<longleftrightarrow> s_ready st' = s_ready st \<and> length (s_dir st') = length (s_dir st) \<and>
     length (s_blob st') = length (s_blob st) \<and> s_blob_slot_sz st' = s_blob_slot_sz st \<and>
     s_guard st' = s_guard st"

lemma same_shape_refl [simp]: "same_shape st st"
  by (simp add: same_shape_def)

lemma same_shape_trans: "same_shape a b \<Longrightarrow> same_shape b c \<Longrightarrow> same_shape a c"
  by (simp add: same_shape_def)

lemma even_clear: "((w :: u16) AND - 2) AND 1 = 0"
proof -
  have "(w AND NOT 1) AND 1 = 0" by (intro bit_word_eqI) (auto simp: bit_simps)
  then show ?thesis by simp
qed

lemma write_end_simps [simp]:
  "d_dest (write_end r) = d_dest r" "d_flags (write_end r) = d_flags r" "d_claims (write_end r) = d_claims r"
  "d_prio (write_end r) = d_prio r" "dir_ok (write_end r) = dir_ok r" "dir_used (write_end r) = dir_used r"
  "d_seq (write_end r) AND 1 = 0" "has_route (write_end r) = has_route r"
  by (simp_all add: write_end_def dir_ok_def dir_used_def even_clear has_route_def)

lemma write_end_views [simp]:
  "dir_static_prio (write_end r) = dir_static_prio r" "dir_category (write_end r) = dir_category r"
  "dir_order (write_end r) = dir_order r" "fill_entry (write_end r) = fill_entry r"
proof -
  show "dir_static_prio (write_end r) = dir_static_prio r"
    by (cases r) (simp only: write_end_def dir_static_prio_def dir_rec.simps)
  show "dir_category (write_end r) = dir_category r"
    by (rule ext, cases r)
       (simp only: write_end_def dir_category_def dir_static_prio_def has_route_def dir_rec.simps)
  show "dir_order (write_end r) = dir_order r"
    by (rule ext, cases r) (simp only: write_end_def dir_order_def dir_rec.simps)
  show "fill_entry (write_end r) = fill_entry r"
    by (cases r)
       (simp only: write_end_def fill_entry_def has_route_def has_pubkey_def fill_route_def dir_rec.simps)
qed

lemma write_begin_simps [simp]:
  "d_dest (write_begin r) = d_dest r" "d_flags (write_begin r) = d_flags r"
  "d_claims (write_begin r) = d_claims r" "d_prio (write_begin r) = d_prio r"
  "dir_ok (write_begin r) = dir_ok r" "dir_used (write_begin r) = dir_used r"
  "dir_static_prio (write_begin r) = dir_static_prio r" "has_route (write_begin r) = has_route r"
  by (simp_all add: write_begin_def dir_ok_def dir_used_def dir_static_prio_def has_route_def)

text \<open>
  A write session keeps the invariant when the payload it leaves is well formed, has its class
  compiled, and is either of the same destination as before, of a destination not held, or unused.
\<close>

lemma write_rec_shape: "same_shape st (write_rec i f st)"
  by (simp add: same_shape_def write_rec_def)

lemma write_rec_inv:
  assumes inv: "store_inv st" and i: "i < length (s_dir st)"
    and r: "r = s_dir st ! i" and r': "r' = f (write_begin (s_dir st ! i))"
    and ok: "dir_ok r'" and prio: "dir_used r' \<Longrightarrow> d_prio r' = dir_static_prio r'"
    and dest: "\<not> dir_used r' \<or> dir_used r \<and> d_dest r' = d_dest r \<or> dir_find st (d_dest r') = None"
  shows "store_inv (write_rec i f st)"
proof -
  have u: "uniq dir_used d_dest (s_dir st)" using inv by (simp add: store_inv_def)
  have "uniq dir_used d_dest ((s_dir st)[i := write_end r'])"
  proof (cases "dir_used r'")
    case False
    then show ?thesis
      using u i by (auto simp: uniq_nth nth_list_update)
  next
    case True
    with dest have "dir_used r \<and> d_dest r' = d_dest r \<or> dir_find st (d_dest r') = None" by simp
    then show ?thesis
      using u i unfolding r
      by (auto intro: dirs.uniq_same dirs.uniq_fresh)
  qed
  moreover have "rec_inv (write_end r')"
    using ok prio by (simp add: rec_inv_def)
  ultimately show ?thesis
    using inv by (auto simp: store_inv_def write_rec_def r' dest: set_update_subset_insert [THEN subsetD])
qed

lemma blob_free_inv: "store_inv st \<Longrightarrow> store_inv (blob_free i st)"
  using blobs.uniq_wipe [where xs = "s_blob st" and sz = "unat (s_blob_slot_sz st)" and i = i]
  by (auto simp: store_inv_def blob_free_def slot_inv_def blob_zero_def blob_ok_def
      dest: set_update_subset_insert [THEN subsetD])

lemma blob_free_shape: "same_shape st (blob_free i st)"
  by (simp add: same_shape_def blob_free_def)

lemma upd_stats_inv [simp]:
  "store_inv (st \<lparr> s_stats := x \<rparr>) = store_inv st" "same_shape st (st \<lparr> s_stats := x \<rparr>)"
  "store_inv (st \<lparr> s_generation := g \<rparr>) = store_inv st" "same_shape st (st \<lparr> s_generation := g \<rparr>)"
  by (simp_all add: store_inv_def same_shape_def)

lemma dir_find_stats [simp]: "dir_used_n (upd_stats f st) = dir_used_n st"
  "blob_used_n (upd_stats f st) = blob_used_n st"
  by (simp_all add: dir_used_n_def blob_used_n_def)

section \<open>Eviction\<close>

lemma dir_key_Some: "dir_key now r = Some (c, u) \<longleftrightarrow>
    dir_used r \<and> c = dir_category r now \<and> u = dir_order r (dir_category r now)"
  by (auto simp: dir_key_def)

lemma dir_key_None [simp]: "dir_key now r = None \<longleftrightarrow> \<not> dir_used r"
  by (auto simp: dir_key_def)

lemma blob_key_None [simp]: "blob_key now st b = None \<longleftrightarrow> \<not> blob_used b"
  by (auto simp: blob_key_def Let_def split: option.splits)

text \<open>One eviction: the victim is the used record of least rank, it is wiped, its blob is freed.\<close>

lemma evict_one_dir_None: "evict_one_dir now st = None \<longleftrightarrow> dir_used_n st = 0"
proof
  assume "evict_one_dir now st = None"
  then have "select_min (dir_key now) (s_dir st) 0 None = None"
    by (auto simp: evict_one_dir_def Let_def split: option.splits)
  from select_min_None [OF this] show "dir_used_n st = 0"
    by (auto simp: dir_used_n_def count_if_eq_0)
next
  assume n: "dir_used_n st = 0"
  show "evict_one_dir now st = None"
  proof (rule ccontr)
    assume "evict_one_dir now st \<noteq> None"
    then obtain v c u where "select_min (dir_key now) (s_dir st) 0 None = Some (v, c, u)"
      by (auto simp: evict_one_dir_def split: option.splits)
    from select_min_Some(1,2) [OF this] n show False
      by (auto simp: dir_key_Some dir_used_n_def count_if_eq_0)
  qed
qed

definition is_victim :: "u32 \<Rightarrow> rdir \<Rightarrow> nat \<Rightarrow> bool" where
  "is_victim now st v \<longleftrightarrow> v < length (s_dir st) \<and> dir_used (s_dir st ! v) \<and>
     (\<forall>j < length (s_dir st). dir_used (s_dir st ! j) \<longrightarrow>
        rank_at now (s_dir st ! v) v \<le> rank_at now (s_dir st ! j) j)"

lemma evict_one_dir_Some:
  assumes "evict_one_dir now st = Some st'"
  obtains v where "is_victim now st v"
    and "s_dir st' = (s_dir st)[v := write_end (rec_clear (write_begin (s_dir st ! v)))]"
    and "s_blob st' = (case blob_find st (d_dest (s_dir st ! v)) of None \<Rightarrow> s_blob st
           | Some b \<Rightarrow> (s_blob st)[b := blob_zero (unat (s_blob_slot_sz st))])"
    and "same_shape st st'"
proof -
  obtain v c u where sel: "select_min (dir_key now) (s_dir st) 0 None = Some (v, c, u)"
    using assms by (auto simp: evict_one_dir_def split: option.splits)
  note s = select_min_Some [OF sel]
  have "is_victim now st v"
    unfolding is_victim_def rank_at_def
    using s by (auto simp: dir_key_Some)
  moreover have "s_dir st' = (s_dir st)[v := write_end (rec_clear (write_begin (s_dir st ! v)))]"
      "s_blob st' = (case blob_find st (d_dest (s_dir st ! v)) of None \<Rightarrow> s_blob st
           | Some b \<Rightarrow> (s_blob st)[b := blob_zero (unat (s_blob_slot_sz st))])"
      "same_shape st st'"
    using assms sel
    by (auto simp: evict_one_dir_def write_rec_def blob_free_def same_shape_def Let_def
        split: option.splits if_splits)
  ultimately show thesis by (rule that)
qed

lemma evict_one_dir_inv:
  assumes inv: "store_inv st" and ev: "evict_one_dir now st = Some st'"
  shows "store_inv st'"
proof -
  obtain v c u where sel: "select_min (dir_key now) (s_dir st) 0 None = Some (v, c, u)"
    using ev by (auto simp: evict_one_dir_def split: option.splits)
  let ?st1 = "case blob_find st (d_dest (s_dir st ! v)) of
                    None \<Rightarrow> st
                  | Some b \<Rightarrow> upd_stats (\<lambda>s. s \<lparr> evict_blob := evict_blob s + 1 \<rparr>) (blob_free b st)"
  have 1: "store_inv ?st1" "s_dir ?st1 = s_dir st"
    using inv blob_free_inv [OF inv] by (auto split: option.splits) (simp add: blob_free_def)
  have "store_inv (write_rec v rec_clear ?st1)"
    by (rule write_rec_inv [OF 1(1) _ refl refl]) (use 1 select_min_Some(1) [OF sel] in auto)
  then show ?thesis
    using ev sel by (auto simp: evict_one_dir_def Let_def split: if_splits)
qed

lemma evict_one_blob_Some:
  assumes "evict_one_blob now st = Some st'"
  obtains v where "v < length (s_blob st)" "blob_used (s_blob st ! v)"
    and "s_dir st' = s_dir st" and "s_blob st' = (s_blob st)[v := blob_zero (unat (s_blob_slot_sz st))]"
    and "same_shape st st'" and "store_inv st \<Longrightarrow> store_inv st'"
proof -
  obtain v c u where sel: "select_min (blob_key now st) (s_blob st) 0 None = Some (v, c, u)"
    using assms by (auto simp: evict_one_blob_def split: option.splits)
  note s = select_min_Some [OF sel]
  show thesis
  proof (rule that)
    show "v < length (s_blob st)" by (rule s)
    show "blob_used (s_blob st ! v)" using s(2) by (auto simp: blob_key_def split: if_splits)
    show "s_dir st' = s_dir st" "s_blob st' = (s_blob st)[v := blob_zero (unat (s_blob_slot_sz st))]"
      "same_shape st st'"
      using assms sel by (auto simp: evict_one_blob_def blob_free_def same_shape_def)
    show "store_inv st'" if "store_inv st"
      using assms sel blob_free_inv [OF that, of v] by (auto simp: evict_one_blob_def)
  qed
qed

lemma evict_one_blob_None: "evict_one_blob now st = None \<longleftrightarrow> blob_used_n st = 0"
proof
  assume "evict_one_blob now st = None"
  then have "select_min (blob_key now st) (s_blob st) 0 None = None"
    by (auto simp: evict_one_blob_def split: option.splits)
  from select_min_None [OF this] show "blob_used_n st = 0"
    by (auto simp: blob_used_n_def count_if_eq_0)
next
  assume n: "blob_used_n st = 0"
  show "evict_one_blob now st = None"
  proof (rule ccontr)
    assume "evict_one_blob now st \<noteq> None"
    then obtain v c u where "select_min (blob_key now st) (s_blob st) 0 None = Some (v, c, u)"
      by (auto simp: evict_one_blob_def split: option.splits)
    from select_min_Some(1,2) [OF this] n show False
      by (auto simp: blob_key_def blob_used_n_def count_if_eq_0 split: if_splits)
  qed
qed

lemma dir_find_cong: "s_dir st' = s_dir st \<Longrightarrow> dir_find st' = dir_find st"
  by (rule ext) simp

text \<open>What an eviction leaves of the lookups.\<close>

lemma evict_one_dir_find:
  assumes inv: "store_inv st" and ev: "evict_one_dir now st = Some st'"
  obtains v where "is_victim now st v"
    and "dir_find st' (d_dest (s_dir st ! v)) = None"
    and "\<And>d. d \<noteq> d_dest (s_dir st ! v) \<Longrightarrow> dir_find st' d = dir_find st d"
    and "\<And>i. i \<noteq> v \<Longrightarrow> s_dir st' ! i = s_dir st ! i" and "\<not> dir_used (s_dir st' ! v)"
    and "Suc (dir_used_n st') = dir_used_n st" and "same_shape st st'"
proof -
  obtain v where v: "is_victim now st v"
      "s_dir st' = (s_dir st)[v := write_end (rec_clear (write_begin (s_dir st ! v)))]" "same_shape st st'"
    using evict_one_dir_Some [OF ev] by metis
  let ?w = "write_end (rec_clear (write_begin (s_dir st ! v)))"
  have vu: "v < length (s_dir st)" "dir_used (s_dir st ! v)" using v(1) by (simp_all add: is_victim_def)
  have u: "uniq dir_used d_dest (s_dir st)" using inv by (simp add: store_inv_def)
  show thesis
  proof (rule that [OF v(1)])
    show "dir_find st' (d_dest (s_dir st ! v)) = None"
      unfolding slot_find_None
    proof (intro ballI impI)
      fix r
      assume "r \<in> set (s_dir st')" "dir_used r"
      then obtain j where j: "j < length (s_dir st)" "r = s_dir st' ! j"
        using v(2) by (auto simp: in_set_conv_nth)
      with \<open>dir_used r\<close> v(2) vu have "j \<noteq> v" by auto
      then show "d_dest r \<noteq> d_dest (s_dir st ! v)"
        using j v(2) \<open>dir_used r\<close> uniqD [OF u, of j v] vu by auto
    qed
    show "dir_find st' d = dir_find st d" if "d \<noteq> d_dest (s_dir st ! v)" for d
      unfolding v(2) by (rule dirs.find_other) (use vu that in auto)
    show "s_dir st' ! i = s_dir st ! i" if "i \<noteq> v" for i using v(2) that by simp
    show "\<not> dir_used (s_dir st' ! v)" using v(2) vu by simp
    show "Suc (dir_used_n st') = dir_used_n st"
      using count_if_update [OF vu(1), of dir_used ?w] vu(2) v(2) by (simp add: dir_used_n_def)
    show "same_shape st st'" by (rule v)
  qed
qed

lemma dir_alloc_Some:
  assumes "dir_alloc now st = Some (i, st')"
  obtains (free) "st' = st" "slot_free dir_used (s_dir st) = Some i"
  | (evict) "slot_free dir_used (s_dir st) = None" "evict_one_dir now st = Some st'"
      "slot_free dir_used (s_dir st') = Some i"
  using assms by (auto simp: dir_alloc_def split: option.splits)

lemma dir_alloc_facts:
  assumes inv: "store_inv st" and al: "dir_alloc now st = Some (i, st')"
  shows "i < length (s_dir st')" and "\<not> dir_used (s_dir st' ! i)" and "store_inv st'"
    and "same_shape st st'" and "dir_find st d = None \<Longrightarrow> dir_find st' d = None"
proof -
  have "i < length (s_dir st') \<and> \<not> dir_used (s_dir st' ! i) \<and> store_inv st' \<and> same_shape st st' \<and>
      (dir_find st d = None \<longrightarrow> dir_find st' d = None)"
    using al
  proof (cases rule: dir_alloc_Some)
    case free
    then show ?thesis using slot_free_SomeD [OF free(2)] inv by simp
  next
    case evict
    obtain v where v: "dir_find st' (d_dest (s_dir st ! v)) = None"
        "\<And>d. d \<noteq> d_dest (s_dir st ! v) \<Longrightarrow> dir_find st' d = dir_find st d" "same_shape st st'"
      using evict_one_dir_find [OF inv evict(2)] by metis
    then show ?thesis
      using slot_free_SomeD [OF evict(3)] evict_one_dir_inv [OF inv evict(2)] by metis
  qed
  then show "i < length (s_dir st')" "\<not> dir_used (s_dir st' ! i)" "store_inv st'" "same_shape st st'"
    "dir_find st d = None \<Longrightarrow> dir_find st' d = None"
    by auto
qed

lemma dir_alloc_total:
  assumes "store_inv st" and "s_dir st \<noteq> []"
  shows "\<exists>i st'. dir_alloc now st = Some (i, st')"
proof (cases "slot_free dir_used (s_dir st)")
  case None
  then have "dir_used_n st = length (s_dir st)"
    by (simp add: dir_used_n_def count_if_eq_length slot_free_None)
  then have "dir_used_n st \<noteq> 0" using assms(2) by simp
  then obtain st' where ev: "evict_one_dir now st = Some st'"
    using evict_one_dir_None [of now st] by (cases "evict_one_dir now st") auto
  obtain v where v: "is_victim now st v" "\<not> dir_used (s_dir st' ! v)" "same_shape st st'"
    using evict_one_dir_find [OF assms(1) ev] by metis
  then have "s_dir st' ! v \<in> set (s_dir st')" by (simp add: is_victim_def same_shape_def)
  then have "slot_free dir_used (s_dir st') \<noteq> None" using v(2) by (auto simp: slot_free_None)
  with None ev show ?thesis by (auto simp: dir_alloc_def)
qed (simp add: dir_alloc_def)

lemma blob_alloc_facts:
  assumes inv: "store_inv st" and al: "blob_alloc now st = Some (i, st')"
  shows "i < length (s_blob st')" and "\<not> blob_used (s_blob st' ! i)" and "store_inv st'"
    and "same_shape st st'" and "s_dir st' = s_dir st"
    and "blob_find st d = None \<Longrightarrow> blob_find st' d = None"
proof -
  have *: "i < length (s_blob st') \<and> \<not> blob_used (s_blob st' ! i) \<and> store_inv st' \<and>
      same_shape st st' \<and> s_dir st' = s_dir st \<and> (blob_find st d = None \<longrightarrow> blob_find st' d = None)"
  proof (cases "slot_free blob_used (s_blob st)")
    case (Some k)
    with al inv slot_free_SomeD [OF Some] show ?thesis by (simp add: blob_alloc_def)
  next
    case None
    then have ev: "evict_one_blob now st = Some st'" and fr: "slot_free blob_used (s_blob st') = Some i"
      using al by (auto simp: blob_alloc_def split: option.splits)
    obtain v where v: "v < length (s_blob st)" "blob_used (s_blob st ! v)" "s_dir st' = s_dir st"
        "s_blob st' = (s_blob st)[v := blob_zero (unat (s_blob_slot_sz st))]" "same_shape st st'" "store_inv st'"
      using evict_one_blob_Some [OF ev] inv by metis
    have "blob_find st' d = None" if "blob_find st d = None"
      using that v(4) by (auto simp: slot_find_None dest: set_update_subset_insert [THEN subsetD])
    with slot_free_SomeD [OF fr] v show ?thesis by blast
  qed
  then show "i < length (s_blob st')" "\<not> blob_used (s_blob st' ! i)" "store_inv st'" "same_shape st st'"
    "s_dir st' = s_dir st" "blob_find st d = None \<Longrightarrow> blob_find st' d = None"
    by auto
qed

end
