(* ===== verification/DirOps.thy ===== *)
theory DirOps
  imports DirInv
begin

text \<open>
  Preservation of the store invariant by every operation of the writer, and the reachable stores.
\<close>

section \<open>Payload writes\<close>

lemma set_flag_simps [simp]:
  "d_dest (set_flag f r) = d_dest r" "d_claims (set_flag f r) = d_claims r"
  "d_prio (set_flag f r) = d_prio r" "d_flags (set_flag f r) = d_flags r OR f"
  "dir_ok (set_flag f r) = dir_ok r" "d_last_heard (set_flag f r) = d_last_heard r"
  by (simp_all add: set_flag_def dir_ok_def)

lemma clear_flag_simps [simp]:
  "d_dest (clear_flag f r) = d_dest r" "d_claims (clear_flag f r) = d_claims r"
  "d_prio (clear_flag f r) = d_prio r" "d_flags (clear_flag f r) = d_flags r AND NOT f"
  "dir_ok (clear_flag f r) = dir_ok r"
  by (simp_all add: clear_flag_def dir_ok_def)

lemma set_prio_simps [simp]:
  "d_dest (set_prio r) = d_dest r" "d_claims (set_prio r) = d_claims r"
  "d_flags (set_prio r) = d_flags r" "dir_ok (set_prio r) = dir_ok r"
  "d_prio (set_prio r) = dir_static_prio (set_prio r)" "dir_used (set_prio r) = dir_used r"
  by (simp_all add: set_prio_def dir_ok_def dir_static_prio_def dir_used_def)

lemma flag_bits:
  "(f OR 1) AND 1 \<noteq> (0 :: u8)" "(f AND NOT 2) AND 1 = f AND (1 :: u8)"
  "(f OR 8) AND 1 = f AND (1 :: u8)" "(f AND NOT 2) AND 4 = f AND (4 :: u8)"
  "(f OR 8) AND 4 = f AND (4 :: u8)"
proof -
  have "(f OR 1) AND 1 = (1 :: u8)" by (simp add: bit.conj_disj_distrib2)
  then show "(f OR 1) AND 1 \<noteq> (0 :: u8)" by simp
  show "(f AND NOT 2) AND 1 = f AND (1 :: u8)" "(f AND NOT 2) AND 4 = f AND (4 :: u8)"
    by (simp_all add: and.assoc)
  show "(f OR 8) AND 1 = f AND (1 :: u8)" "(f OR 8) AND 4 = f AND (4 :: u8)"
    by (simp_all add: bit.conj_disj_distrib2)
qed

text \<open>Scalar fields do not matter for the sizes, the use bit or the static class.\<close>

lemma upd_simps [simp]:
  "dir_ok (r \<lparr> d_claims := c \<rparr>) = dir_ok r" "dir_ok (r \<lparr> d_claim_decay := w \<rparr>) = dir_ok r"
  "dir_ok (r \<lparr> d_claim_touch := w \<rparr>) = dir_ok r" "dir_ok (r \<lparr> d_last_used := w \<rparr>) = dir_ok r"
  "dir_ok (r \<lparr> d_expires := w \<rparr>) = dir_ok r" "dir_ok (r \<lparr> d_last_alive := w \<rparr>) = dir_ok r"
  "dir_used (r \<lparr> d_claims := c \<rparr>) = dir_used r" "dir_used (r \<lparr> d_claim_decay := w \<rparr>) = dir_used r"
  "dir_used (r \<lparr> d_claim_touch := w \<rparr>) = dir_used r" "dir_used (r \<lparr> d_last_used := w \<rparr>) = dir_used r"
  "dir_used (r \<lparr> d_expires := w \<rparr>) = dir_used r" "dir_used (r \<lparr> d_last_alive := w \<rparr>) = dir_used r"
  "dir_static_prio (r \<lparr> d_claim_touch := w \<rparr>) = dir_static_prio r"
  "dir_static_prio (r \<lparr> d_last_used := w \<rparr>) = dir_static_prio r"
  "dir_static_prio (r \<lparr> d_expires := w \<rparr>) = dir_static_prio r"
  "dir_static_prio (r \<lparr> d_last_alive := w \<rparr>) = dir_static_prio r"
  by (simp_all add: dir_ok_def dir_used_def dir_static_prio_def)

definition ann_ok :: "announce \<Rightarrow> bool" where
  "ann_ok a \<longleftrightarrow> pred_option (\<lambda>x. length x = 64) (a_pubkey a) \<and>
     pred_option (\<lambda>x. length x = 10) (a_name_hash a) \<and>
     pred_option (\<lambda>x. length x = 16) (a_received_from a) \<and>
     pred_option (\<lambda>x. length x = 16) (a_iface_hash a) \<and>
     pred_option (\<lambda>x. length x = unat (a_raw_len a)) (a_raw a)"

lemma ingest_rec_facts [simp]:
  "d_dest (ingest_rec now dest a r) = dest" "dir_used (ingest_rec now dest a r)"
  "d_prio (ingest_rec now dest a r) = dir_static_prio (ingest_rec now dest a r)"
  "d_last_heard (ingest_rec now dest a r) = now" "d_hops (ingest_rec now dest a r) = a_hops a"
  "d_timestamp (ingest_rec now dest a r) = a_timestamp a" "d_expires (ingest_rec now dest a r) = a_expires a"
  by (simp_all add: ingest_rec_def Let_def dir_used_def flag_bits set_flag_def set_prio_def
      dir_static_prio_def split: option.splits)

lemma ingest_rec_ok: "ann_ok a \<Longrightarrow> length dest = 16 \<Longrightarrow> dir_ok r \<Longrightarrow> dir_ok (ingest_rec now dest a r)"
  by (auto simp: ingest_rec_def Let_def ann_ok_def dir_ok_def set_flag_def set_prio_def split: option.splits)

lemma fresh_rec_facts [simp]:
  "d_dest (fresh_rec now dest r) = dest" "dir_used (fresh_rec now dest r)"
  "length dest = 16 \<Longrightarrow> dir_ok (fresh_rec now dest r)"
  by (simp_all add: fresh_rec_def dir_used_def flag_bits set_flag_def rec_clear_def dir_zero_def dir_ok_def)

lemma claim_rec_facts [simp]:
  "d_dest (claim_rec now c r) = d_dest r" "dir_used (claim_rec now c r) = dir_used r"
  "d_prio (claim_rec now c r) = dir_static_prio (claim_rec now c r)"
  "dir_ok (claim_rec now c r) = dir_ok r"
  by (simp_all add: claim_rec_def Let_def)

lemma drop_rec_facts [simp]:
  "d_dest (drop_rec c r) = d_dest r" "dir_used (drop_rec c r) = dir_used r"
  "d_prio (drop_rec c r) = dir_static_prio (drop_rec c r)"
  "dir_ok (drop_rec c r) = dir_ok r"
  by (simp_all add: drop_rec_def Let_def)

lemma clear_route_rec_facts [simp]:
  "d_dest (clear_route_rec r) = d_dest r" "dir_used (clear_route_rec r) = dir_used r"
  "d_prio (clear_route_rec r) = d_prio r" "dir_static_prio (clear_route_rec r) = dir_static_prio r"
  "dir_ok r \<Longrightarrow> dir_ok (clear_route_rec r)"
  using flag_bits(2,4) [of "d_flags r"]
  by (simp_all add: clear_route_rec_def clear_flag_def dir_used_def dir_static_prio_def dir_ok_def)

section \<open>Operations\<close>

text \<open>A session on a used record that keeps its destination.\<close>

lemma write_used_inv:
  assumes inv: "store_inv st" and i: "i < length (s_dir st)"
    and f: "\<And>r. d_dest (f r) = d_dest r" "\<And>r. dir_used (f r) = dir_used r"
      "\<And>r. dir_ok r \<Longrightarrow> dir_ok (f r)"
      "\<And>r. dir_used r \<Longrightarrow> d_prio r = dir_static_prio r \<Longrightarrow> d_prio (f r) = dir_static_prio (f r)"
  shows "store_inv (write_rec i f st)"
proof (rule write_rec_inv [OF inv i refl refl])
  have r: "rec_inv (s_dir st ! i)" using inv i by (simp add: store_inv_def)
  show "dir_ok (f (write_begin (s_dir st ! i)))" using r f(3) by (simp add: rec_inv_def)
  show "d_prio (f (write_begin (s_dir st ! i))) = dir_static_prio (f (write_begin (s_dir st ! i)))"
    if "dir_used (f (write_begin (s_dir st ! i)))"
    by (rule f(4)) (use that r f(2) in \<open>simp_all add: rec_inv_def\<close>)
  show "\<not> dir_used (f (write_begin (s_dir st ! i))) \<or> dir_used (s_dir st ! i) \<and>
      d_dest (f (write_begin (s_dir st ! i))) = d_dest (s_dir st ! i) \<or>
      dir_find st (d_dest (f (write_begin (s_dir st ! i)))) = None"
    using f(1,2) by auto
qed

lemma with_rec_inv:
  assumes "store_inv st"
    and "\<And>i r. i < length (s_dir st) \<Longrightarrow> r = s_dir st ! i \<Longrightarrow> store_inv (f i r st) \<and> same_shape st (f i r st)"
  shows "store_inv (with_rec dest f st) \<and> same_shape st (with_rec dest f st)"
  using assms slot_find_SomeD(1) [of dir_used d_dest dest "s_dir st"]
  by (auto simp: with_rec_def split: option.splits)

lemma touch_rec_facts [simp]:
  "d_dest (touch_rec now e r) = d_dest r" "dir_used (touch_rec now e r) = dir_used r"
  "d_prio (touch_rec now e r) = d_prio r" "dir_static_prio (touch_rec now e r) = dir_static_prio r"
  "dir_ok (touch_rec now e r) = dir_ok r"
  by (simp_all add: touch_rec_def Let_def)

lemma write_touch_inv:
  assumes "store_inv st" "i < length (s_dir st)"
  shows "store_inv (write_rec i (touch_rec now expires) st)"
    and "store_inv (write_rec i (\<lambda>r. r \<lparr> d_last_alive := now \<rparr>) st)"
    and "store_inv (write_rec i (\<lambda>r. r \<lparr> d_claim_touch := now \<rparr>) st)"
    and "store_inv (write_rec i (drop_rec consumer) st)" and "store_inv (write_rec i clear_route_rec st)"
proof -
  show "store_inv (write_rec i (touch_rec now expires) st)"
    by (rule write_used_inv [OF assms]) simp_all
  show "store_inv (write_rec i (\<lambda>r. r \<lparr> d_last_alive := now \<rparr>) st)"
    by (rule write_used_inv [OF assms]) simp_all
  show "store_inv (write_rec i (\<lambda>r. r \<lparr> d_claim_touch := now \<rparr>) st)"
    by (rule write_used_inv [OF assms]) simp_all
  show "store_inv (write_rec i (drop_rec consumer) st)"
    by (rule write_used_inv [OF assms]) simp_all
  show "store_inv (write_rec i clear_route_rec st)"
    by (rule write_used_inv [OF assms]) simp_all
qed

lemma with_rec_or_new_inv:
  assumes inv: "store_inv st"
    and f: "\<And>r. d_dest (f r) = d_dest r" "\<And>r. dir_used (f r) = dir_used r"
      "\<And>r. dir_ok r \<Longrightarrow> dir_ok (f r)"
      "\<And>r. dir_used r \<Longrightarrow> d_prio r = dir_static_prio r \<Longrightarrow> d_prio (f r) = dir_static_prio (f r)"
    and ini: "\<And>r. d_dest (init r) = dest" "\<And>r. dir_ok (init r)"
      "\<And>r. d_prio (f (init r)) = dir_static_prio (f (init r))"
  shows "store_inv (with_rec_or_new now dest init f st) \<and>
    same_shape st (with_rec_or_new now dest init f st)"
proof (cases "dir_find st dest")
  case (Some i)
  have "store_inv (write_rec i f st)"
    by (rule write_used_inv [OF inv slot_find_SomeD(1) [OF Some]]) (fact f)+
  with Some write_rec_shape show ?thesis by (simp add: with_rec_or_new_def)
next
  case None
  show ?thesis
  proof (cases "dir_alloc now st")
    case al: (Some p)
    obtain i st' where p: "p = (i, st')" by (cases p)
    note a = dir_alloc_facts [OF inv al [unfolded p]]
    have "store_inv (write_rec i (f \<circ> init) st')"
    proof (rule write_rec_inv [OF a(3,1) refl refl])
      let ?r = "write_begin (s_dir st' ! i)"
      show "dir_ok ((f \<circ> init) ?r)" using f(3) [OF ini(2)] by simp
      show "d_prio ((f \<circ> init) ?r) = dir_static_prio ((f \<circ> init) ?r)" using ini(3) by simp
      have "d_dest ((f \<circ> init) ?r) = dest" using f(1) ini(1) by simp
      then show "\<not> dir_used ((f \<circ> init) ?r) \<or> dir_used (s_dir st' ! i) \<and>
          d_dest ((f \<circ> init) ?r) = d_dest (s_dir st' ! i) \<or>
          dir_find st' (d_dest ((f \<circ> init) ?r)) = None"
        using a(5) [OF None] by simp
    qed
    then show ?thesis
      using None al p a(4) same_shape_trans [OF a(4) write_rec_shape] by (simp add: with_rec_or_new_def)
  qed (use None inv in \<open>simp add: with_rec_or_new_def\<close>)
qed

lemma ingest_dir_inv:
  assumes inv: "store_inv st" and a: "ann_ok a" "length dest = 16" and run: "ingest_dir now dest a st = Some st'"
  shows "store_inv st' \<and> same_shape st st'"
proof (cases "dir_find st dest")
  case (Some i)
  note f = slot_find_SomeD [OF Some]
  have "rec_inv (s_dir st ! i)" using inv f(1) by (simp add: store_inv_def)
  then have "store_inv (write_rec i (ingest_rec now dest a) st)"
    by (intro write_rec_inv [OF inv f(1) refl refl])
       (use f a in \<open>simp_all add: ingest_rec_ok rec_inv_def\<close>)
  with Some run write_rec_shape show ?thesis by (auto simp: ingest_dir_def)
next
  case None
  then obtain i st1 where al: "dir_alloc now st = Some (i, st1)"
      and st': "st' = write_rec i (ingest_rec now dest a \<circ> rec_clear) st1"
    using run by (auto simp: ingest_dir_def split: option.splits)
  note f = dir_alloc_facts [OF inv al]
  have "store_inv st'"
    unfolding st'
    by (intro write_rec_inv [OF f(3,1) refl refl]) (use f(5) [OF None] a in \<open>simp_all add: ingest_rec_ok\<close>)
  with f(4) same_shape_trans [OF f(4) write_rec_shape] show ?thesis by (simp add: st')
qed

lemma ingest_blob_inv:
  assumes inv: "store_inv st" and a: "length dest = 16" "length raw = unat len"
  shows "store_inv (ingest_blob now dest raw len st) \<and> same_shape st (ingest_blob now dest raw len st) \<and>
    s_dir (ingest_blob now dest raw len st) = s_dir st"
proof -
  define pick where
    "pick = (case blob_find st dest of Some i \<Rightarrow> Some (i, st) | None \<Rightarrow> blob_alloc now st)"
  have pick: "i < length (s_blob st1) \<and> store_inv st1 \<and> same_shape st st1 \<and> s_dir st1 = s_dir st \<and>
      (blob_used (s_blob st1 ! i) \<and> b_dest (s_blob st1 ! i) = dest \<or> blob_find st1 dest = None)"
    if "pick = Some (i, st1)" for i st1
  proof (cases "blob_find st dest")
    case (Some k)
    with that slot_find_SomeD [OF Some] inv show ?thesis by (auto simp: pick_def)
  next
    case None
    with that have al: "blob_alloc now st = Some (i, st1)" by (simp add: pick_def)
    from blob_alloc_facts(1-5) [OF inv al] blob_alloc_facts(6) [OF inv al None] show ?thesis by blast
  qed
  show ?thesis
  proof (cases "unat len + 20 \<le> unat (s_blob_slot_sz st) \<and> pick \<noteq> None")
    case False
    then show ?thesis using inv by (cases pick) (auto simp: ingest_blob_def pick_def [symmetric])
  next
    case True
    then obtain i st1 where p: "pick = Some (i, st1)" by auto
    note k = pick [OF p]
    let ?b = "\<lparr> b_dest = dest, b_len = len, b_flags = 1,
                 b_raw = take (unat len) raw @ zeros (unat (s_blob_slot_sz st1) - 20 - unat len) \<rparr>"
    have sz: "s_blob_slot_sz st1 = s_blob_slot_sz st" using k by (simp add: same_shape_def)
    have b: "slot_inv (unat (s_blob_slot_sz st1)) ?b" "blob_used ?b"
      using True a sz by (auto simp: slot_inv_def blob_ok_def blob_used_def)
    have u: "uniq blob_used b_dest (s_blob st1)" using k by (simp add: store_inv_def)
    have "uniq blob_used b_dest ((s_blob st1)[i := ?b])"
      using k by (auto intro: blobs.uniq_same [OF u] blobs.uniq_fresh [OF u])
    then have "store_inv (st1 \<lparr> s_blob := (s_blob st1)[i := ?b], s_generation := s_generation st1 + 1 \<rparr>)"
      using k b by (auto simp: store_inv_def dest: set_update_subset_insert [THEN subsetD])
    moreover have "ingest_blob now dest raw len st =
        st1 \<lparr> s_blob := (s_blob st1)[i := ?b], s_generation := s_generation st1 + 1 \<rparr>"
      using True p sz by (simp add: ingest_blob_def pick_def [symmetric])
    ultimately show ?thesis using k by (simp add: same_shape_def)
  qed
qed

lemma rdir_ingest_inv:
  assumes inv: "store_inv st" and a: "ann_ok a" "length dest = 16"
  shows "store_inv (rdir_ingest now dest a layers st) \<and> same_shape st (rdir_ingest now dest a layers st)"
proof (cases "s_ready st")
  case True
  define r where "r = (if layers AND 1 \<noteq> 0 then ingest_dir now dest a st else Some st)"
  show ?thesis
  proof (cases r)
    case None
    with True inv show ?thesis by (simp add: rdir_ingest_def r_def [symmetric])
  next
    case (Some st1)
    have 1: "store_inv st1 \<and> same_shape st st1"
      using Some ingest_dir_inv [OF inv a, of now st1] inv by (auto simp: r_def split: if_splits)
    show ?thesis
    proof (cases "a_raw a")
      case None
      with True Some 1 show ?thesis by (simp add: rdir_ingest_def r_def [symmetric])
    next
      case raw: (Some raw)
      then have "length raw = unat (a_raw_len a)" using a by (simp add: ann_ok_def)
      from ingest_blob_inv [OF conjunct1 [OF 1] a(2) this, of now] 1 True Some raw show ?thesis
        by (auto simp: rdir_ingest_def r_def [symmetric] intro: same_shape_trans)
    qed
  qed
qed (simp add: rdir_ingest_def inv)

lemma evict_loop_inv:
  assumes step: "\<And>s s'. evict s = Some s' \<Longrightarrow> store_inv s \<Longrightarrow> store_inv s' \<and> same_shape s s'"
  shows "store_inv st \<Longrightarrow> store_inv (evict_loop evict t n st) \<and> same_shape st (evict_loop evict t n st)"
proof (induction n arbitrary: st)
  case 0
  then show ?case by (simp add: evict_loop.simps)
next
  case (Suc n)
  show ?case
  proof (cases "Suc n > t \<and> evict st \<noteq> None")
    case True
    then obtain s' where s': "evict st = Some s'" by auto
    from step [OF s' Suc.prems] Suc.IH [of s'] True s' show ?thesis
      by (auto simp: evict_loop.simps [of _ _ "Suc n"] intro: same_shape_trans)
  next
    case False
    then show ?thesis using Suc.prems by (auto simp: evict_loop.simps [of _ _ "Suc n"] split: option.splits)
  qed
qed

lemma rdir_evict_to_inv:
  assumes "store_inv st"
  shows "store_inv (rdir_evict_to now dt bt st) \<and> same_shape st (rdir_evict_to now dt bt st)"
proof -
  have d: "evict_one_dir now s = Some s' \<Longrightarrow> store_inv s \<Longrightarrow> store_inv s' \<and> same_shape s s'" for s s'
    using evict_one_dir_inv by (metis evict_one_dir_Some)
  have b: "evict_one_blob now s = Some s' \<Longrightarrow> store_inv s \<Longrightarrow> store_inv s' \<and> same_shape s s'" for s s'
    by (metis evict_one_blob_Some)
  let ?st1 = "evict_loop (evict_one_dir now) dt (dir_used_n st) st"
  have 1: "store_inv ?st1 \<and> same_shape st ?st1" using evict_loop_inv [OF d assms] by blast
  have 2: "store_inv (evict_loop (evict_one_blob now) bt (blob_used_n ?st1) ?st1) \<and>
      same_shape ?st1 (evict_loop (evict_one_blob now) bt (blob_used_n ?st1) ?st1)"
    using evict_loop_inv [OF b] 1 by blast
  show ?thesis
    using 1 2 assms by (auto simp: rdir_evict_to_def Let_def intro: same_shape_trans)
qed

lemma rdir_forget_inv:
  assumes inv: "store_inv st"
  shows "store_inv (snd (rdir_forget dest st)) \<and> same_shape st (snd (rdir_forget dest st))"
proof -
  define st1 where "st1 = (case blob_find st dest of None \<Rightarrow> st | Some b \<Rightarrow> blob_free b st)"
  have 1: "store_inv st1" "same_shape st st1" "s_dir st1 = s_dir st"
    using inv blob_free_inv [OF inv] blob_free_shape
    by (auto simp: st1_def split: option.splits) (simp add: blob_free_def)
  show ?thesis
  proof (cases "dir_find st1 dest")
    case None
    with 1 inv show ?thesis by (simp add: rdir_forget_def Let_def st1_def [symmetric])
  next
    case (Some i)
    have "store_inv (write_rec i (\<lambda>r. dir_zero) st1)"
      by (rule write_rec_inv [OF 1(1) slot_find_SomeD(1) [OF Some] refl refl]) simp_all
    with Some 1 inv same_shape_trans [OF 1(2) write_rec_shape] show ?thesis
      by (simp add: rdir_forget_def Let_def st1_def [symmetric])
  qed
qed

lemma clear_routes_inv:
  "store_inv st \<Longrightarrow> \<forall>i \<in> set is. i < length (s_dir st) \<Longrightarrow>
   store_inv (snd (clear_routes_from is st)) \<and> same_shape st (snd (clear_routes_from is st))"
proof (induction "is" arbitrary: st)
  case (Cons i "is")
  have i: "i < length (s_dir st)" using Cons.prems(2) by simp
  let ?st = "write_rec i clear_route_rec st"
  have 1: "store_inv ?st" "same_shape st ?st"
    using write_touch_inv(5) [OF Cons.prems(1) i] write_rec_shape by auto
  have "store_inv (snd (clear_routes_from is ?st)) \<and> same_shape ?st (snd (clear_routes_from is ?st))"
    by (rule Cons.IH [OF 1(1)]) (use Cons.prems(2) 1(2) in \<open>simp add: same_shape_def\<close>)
  then show ?case
    using Cons.IH [OF Cons.prems(1)] Cons.prems(2) same_shape_trans [OF 1(2)]
    by (simp split: prod.splits) fastforce
qed simp

section \<open>Reachable stores\<close>

text \<open>One operation of the writer, with any clock value and any well-sized arguments.\<close>

inductive dir_step :: "rdir \<Rightarrow> rdir \<Rightarrow> bool" where
  ingest: "length dest = 16 \<Longrightarrow> ann_ok a \<Longrightarrow> dir_step st (rdir_ingest now dest a layers st)"
| touch_used: "dir_step st (rdir_touch_used now dest expires st)"
| mark_alive: "dir_step st (rdir_mark_alive now dest st)"
| clear_route: "dir_step st (snd (rdir_clear_route dest st))"
| clear_all: "dir_step st (snd (rdir_clear_all_routes st))"
| forget: "dir_step st (snd (rdir_forget dest st))"
| claim: "length dest = 16 \<Longrightarrow> dir_step st (rdir_claim now dest c st)"
| claim_touch: "dir_step st (rdir_claim_touch now dest consumer st)"
| claim_drop: "dir_step st (rdir_claim_drop dest consumer st)"
| seed: "length dest = 16 \<Longrightarrow> length pk = 64 \<Longrightarrow> dir_step st (rdir_seed_pubkey now dest pk st)"
| evict: "dir_step st (rdir_evict_to now dir_target blob_target st)"

inductive_cases dir_stepE: "dir_step st st'"

inductive dir_reach :: "rdir \<Rightarrow> rdir \<Rightarrow> bool" for st0 where
  start: "dir_reach st0 st0"
| next_op: "dir_reach st0 st \<Longrightarrow> dir_step st st' \<Longrightarrow> dir_reach st0 st'"

lemma dir_step_inv:
  assumes "dir_step st st'" and inv: "store_inv st"
  shows "store_inv st' \<and> same_shape st st'"
  using assms(1)
proof (cases rule: dir_step.cases)
  case (ingest dest a now layers)
  with rdir_ingest_inv [OF inv] show ?thesis by simp
next
  case (touch_used now dest expires)
  then show ?thesis
    using with_rec_inv [OF inv] write_touch_inv(1) [OF inv] write_rec_shape by (simp add: rdir_touch_used_def)
next
  case (mark_alive now dest)
  have "store_inv (with_rec dest (\<lambda>i r. if d_last_alive r \<noteq> 0 \<and> now - d_last_alive r < 10 then id
      else write_rec i (\<lambda>r. r \<lparr> d_last_alive := now \<rparr>)) st) \<and>
    same_shape st (with_rec dest (\<lambda>i r. if d_last_alive r \<noteq> 0 \<and> now - d_last_alive r < 10 then id
      else write_rec i (\<lambda>r. r \<lparr> d_last_alive := now \<rparr>)) st)"
    by (rule with_rec_inv [OF inv]) (use write_touch_inv(2) [OF inv] write_rec_shape inv in auto)
  with mark_alive show ?thesis by (simp add: rdir_mark_alive_def)
next
  case (clear_route dest)
  have "store_inv (snd (rdir_clear_route dest st)) \<and> same_shape st (snd (rdir_clear_route dest st))"
  proof (cases "dir_find st dest")
    case (Some i)
    from write_touch_inv(5) [OF inv slot_find_SomeD(1) [OF Some]] Some inv write_rec_shape
    show ?thesis by (simp add: rdir_clear_route_def)
  qed (simp add: rdir_clear_route_def inv)
  with clear_route show ?thesis by simp
next
  case clear_all
  then show ?thesis
    using clear_routes_inv [OF inv, of "[0..<length (s_dir st)]"] inv by (simp add: rdir_clear_all_routes_def)
next
  case (forget dest)
  with rdir_forget_inv [OF inv] show ?thesis by simp
next
  case (claim dest now c)
  have "store_inv (with_rec_or_new now dest (fresh_rec now dest) (claim_rec now c) st) \<and>
      same_shape st (with_rec_or_new now dest (fresh_rec now dest) (claim_rec now c) st)"
    by (rule with_rec_or_new_inv [OF inv]) (use claim in simp_all)
  with claim inv show ?thesis by (simp add: rdir_claim_def)
next
  case (claim_touch now dest consumer)
  have "store_inv (with_rec dest (\<lambda>i r. if d_claims r AND claim_bit consumer = 0 then id
      else write_rec i (\<lambda>r. r \<lparr> d_claim_touch := now \<rparr>)) st) \<and>
    same_shape st (with_rec dest (\<lambda>i r. if d_claims r AND claim_bit consumer = 0 then id
      else write_rec i (\<lambda>r. r \<lparr> d_claim_touch := now \<rparr>)) st)"
    by (rule with_rec_inv [OF inv]) (use write_touch_inv(3) [OF inv] write_rec_shape inv in auto)
  with claim_touch inv show ?thesis by (simp add: rdir_claim_touch_def)
next
  case (claim_drop dest consumer)
  have "store_inv (with_rec dest (\<lambda>i _. write_rec i (drop_rec consumer)) st) \<and>
      same_shape st (with_rec dest (\<lambda>i _. write_rec i (drop_rec consumer)) st)"
    by (rule with_rec_inv [OF inv]) (use write_touch_inv(4) [OF inv] write_rec_shape in auto)
  with claim_drop inv show ?thesis by (simp add: rdir_claim_drop_def)
next
  case (seed dest pk now)
  let ?f = "\<lambda>r. set_flag F_PUBKEY (r \<lparr> d_pubkey := pk \<rparr>)"
  have ok: "dir_ok (?f r)" if "dir_ok r" for r
    using that seed by (simp add: dir_ok_def set_flag_def)
  have cl: "dir_used (?f r) = dir_used r" "dir_static_prio (?f r) = dir_static_prio r"
    "dir_static_prio (set_prio r) = dir_static_prio r" for r
    using flag_bits(3,5) [of "d_flags r"] by (simp_all add: dir_used_def dir_static_prio_def set_prio_def)
  have "store_inv (with_rec_or_new now dest (set_prio \<circ> fresh_rec now dest) ?f st) \<and>
      same_shape st (with_rec_or_new now dest (set_prio \<circ> fresh_rec now dest) ?f st)"
    by (rule with_rec_or_new_inv [OF inv])
       (use seed ok cl in simp_all)
  with seed inv show ?thesis by (simp add: rdir_seed_pubkey_def)
next
  case (evict now dt bt)
  with rdir_evict_to_inv [OF inv] show ?thesis by simp
qed

lemma dir_reach_inv: "dir_reach st0 st \<Longrightarrow> store_inv st0 \<Longrightarrow> store_inv st \<and> same_shape st0 st"
proof (induction rule: dir_reach.induct)
  case (next_op st st')
  then show ?case using dir_step_inv by (blast intro: same_shape_trans)
qed simp

end
