(* ===== verification/DirGuard.thy ===== *)
theory DirGuard
  imports DirRec
begin

text \<open>
  The guard pool of the directory store: replay and recency suppression of announces
  (\<open>rdirGuardFresh\<close> and its helpers). The four-entry ring behind a cursor byte is shown to be the
  queue of the last four fingerprints; \<open>DirGuardSpec\<close> builds the refinement on that.
\<close>

section \<open>Fingerprints, ring and suppression run\<close>

definition dest4_of :: "bytes \<Rightarrow> u32" where
  "dest4_of dest = (push_bit 24 (ucast (dest ! 0)) OR push_bit 16 (ucast (dest ! 1)) OR
     push_bit 8 (ucast (dest ! 2)) OR ucast (dest ! 3))"

definition fingerprint :: "bytes \<Rightarrow> bytes" where
  "fingerprint blob = take 4 blob"

definition ring_count :: "u8 \<Rightarrow> nat" where
  "ring_count cur = unat (drop_bit 2 cur AND 7)"

definition ring_pos :: "u8 \<Rightarrow> nat" where
  "ring_pos cur = unat (cur AND 3)"

definition ring_has :: "guard_rec \<Rightarrow> bytes \<Rightarrow> bool" where
  "ring_has g fp = (let count = min 4 (ring_count (g_cursor g)) in fp \<in> set (take count (g_fp g)))"

definition cursor_next :: "u8 \<Rightarrow> u8" where
  "cursor_next cur =
    (let pos = cur AND 3; count = drop_bit 2 cur AND 7;
         pos' = (pos + 1) AND 3; count' = (if count < 4 then count + 1 else count)
     in pos' OR push_bit 2 count')"

definition ring_push :: "guard_rec \<Rightarrow> bytes \<Rightarrow> guard_rec" where
  "ring_push g fp = g \<lparr> g_fp := (g_fp g)[ring_pos (g_cursor g) := fp],
     g_cursor := cursor_next (g_cursor g) \<rparr>"

definition run_of :: "guard_rec \<Rightarrow> u8" where
  "run_of g = drop_bit 1 (g_flags g AND 0x06)"

definition run_set :: "guard_rec \<Rightarrow> u8 \<Rightarrow> guard_rec" where
  "run_set g v = g \<lparr> g_flags := (g_flags g AND NOT 0x06) OR push_bit 1 (v AND 0x03) \<rparr>"

section \<open>Allocation and the handler\<close>

text \<open>The first free slot, else the first slot of the greatest age in wrapping minutes.\<close>

fun guard_pick :: "u16 \<Rightarrow> guard_rec list \<Rightarrow> nat \<Rightarrow> (nat \<times> u16) option \<Rightarrow> nat option" where
  "guard_pick now [] i best = map_option fst best"
| "guard_pick now (g # gs) i best =
    (if \<not> guard_used g then Some i
     else let age = now - g_age g in
       guard_pick now gs (Suc i)
         (case best of None \<Rightarrow> Some (i, age)
          | Some (p, oldest) \<Rightarrow> if age > oldest then Some (i, age) else best))"

definition guard_alloc :: "u16 \<Rightarrow> u32 \<Rightarrow> rdir \<Rightarrow> (nat \<times> rdir) option" where
  "guard_alloc now d4 st =
    (case guard_pick now (s_guard st) 0 None of
       None \<Rightarrow> None
     | Some i \<Rightarrow>
        let st = (if guard_used (s_guard st ! i)
                  then upd_stats (\<lambda>s. s \<lparr> evict_guard := evict_guard s + 1 \<rparr>) st else st)
        in Some (i, st \<lparr> s_guard := (s_guard st)[i := guard_zero \<lparr> g_dest4 := d4, g_flags := 1 \<rparr>] \<rparr>))"

definition put_guard :: "nat \<Rightarrow> guard_rec \<Rightarrow> rdir \<Rightarrow> rdir" where
  "put_guard i g st = st \<lparr> s_guard := (s_guard st)[i := g] \<rparr>"

text \<open>\<open>rdirGuardFresh\<close>: the verdict, the value stored in \<open>novel\<close>, the store afterwards.\<close>

definition rdir_guard_fresh ::
    "u16 \<Rightarrow> bytes \<Rightarrow> bytes \<Rightarrow> u32 \<Rightarrow> bool \<Rightarrow> rdir \<Rightarrow> bool \<times> bool \<times> rdir" where
  "rdir_guard_fresh now dest blob emitted bypass st =
    (if \<not> s_ready st \<or> length (s_guard st) = 0 then (True, True, st)
     else let fp = fingerprint blob; d4 = dest4_of dest in
     case guard_find st d4 of
       None \<Rightarrow>
        (case guard_alloc now d4 st of
           None \<Rightarrow> (True, True, st)
         | Some (i, st) \<Rightarrow>
            (True, True, put_guard i
               (ring_push ((s_guard st ! i) \<lparr> g_emitted := emitted, g_age := now \<rparr>) fp) st))
     | Some i \<Rightarrow>
        let g = s_guard st ! i; seen = ring_has g fp; d = sint (emitted - g_emitted g);
            novel = (\<not> seen \<and> d \<ge> 0) in
        if bypass then
          let g = (if \<not> seen then ring_push g fp else g);
              g = (if d > 0 then g \<lparr> g_emitted := emitted \<rparr> else g);
              g = run_set (g \<lparr> g_age := now \<rparr>) 0
          in (True, novel, put_guard i g
               (upd_stats (\<lambda>s. s \<lparr> guard_bypass := guard_bypass s + 1 \<rparr>) st))
        else if seen then
          (False, novel, put_guard i (run_set (g \<lparr> g_age := now \<rparr>) 0)
             (upd_stats (\<lambda>s. s \<lparr> guard_drop_fp := guard_drop_fp s + 1 \<rparr>) st))
        else if d < 0 then
          (let run = run_of g + 1 in
           if run \<ge> 2 then
             (True, novel, put_guard i
                (ring_push (guard_zero \<lparr> g_dest4 := d4, g_flags := 1, g_emitted := emitted,
                    g_age := now \<rparr>) fp)
                (upd_stats (\<lambda>s. s \<lparr> guard_resets := guard_resets s + 1 \<rparr>) st))
           else
             (False, novel, put_guard i (run_set g run \<lparr> g_age := now \<rparr>)
                (upd_stats (\<lambda>s. s \<lparr> guard_drop_emitted := guard_drop_emitted s + 1 \<rparr>) st)))
        else
          (True, novel, put_guard i
             (run_set (ring_push (g \<lparr> g_emitted := emitted, g_age := now \<rparr>) fp) 0) st))"

section \<open>The ring is a queue\<close>

definition cursor_ok :: "u8 \<Rightarrow> bool" where
  "cursor_ok cur \<longleftrightarrow> ring_count cur \<le> 4 \<and> (ring_count cur < 4 \<longrightarrow> ring_pos cur = ring_count cur)"

definition ring_view :: "bytes list \<Rightarrow> nat \<Rightarrow> nat \<Rightarrow> bytes list" where
  "ring_view fps pos count = map (\<lambda>k. fps ! ((pos + 3 - k) mod 4)) [0..<count]"

definition ring_list :: "guard_rec \<Rightarrow> bytes list" where
  "ring_list g = ring_view (g_fp g) (ring_pos (g_cursor g)) (ring_count (g_cursor g))"

definition guard_ok :: "guard_rec \<Rightarrow> bool" where
  "guard_ok g \<longleftrightarrow> cursor_ok (g_cursor g) \<and> length (g_fp g) = 4 \<and> g_flags g AND 0xf8 = 0 \<and> run_of g < 2"

lemma cursor_next_ok:
  "cursor_ok cur \<longrightarrow> cursor_ok (cursor_next cur) \<and>
     ring_pos (cursor_next cur) = (ring_pos cur + 1) mod 4 \<and>
     ring_count (cursor_next cur) = min 4 (ring_count cur + 1)"
proof (rule all_bytes)
  show "\<forall>k \<in> set [0..<256]. cursor_ok (of_nat k :: u8) \<longrightarrow> cursor_ok (cursor_next (of_nat k)) \<and>
     ring_pos (cursor_next (of_nat k)) = (ring_pos (of_nat k) + 1) mod 4 \<and>
     ring_count (cursor_next (of_nat k)) = min 4 (ring_count (of_nat k) + 1)"
    by code_simp
qed

lemma upts:
  "[0..<Suc 0] = [0]" "[0..<2] = [0, Suc 0]" "[0..<3] = [0, Suc 0, 2]" "[0..<4] = [0, Suc 0, 2, 3]"
  by (simp_all add: upt_rec_numeral upt_rec)

lemma upd4:
  "[x, y, z, w][Suc 0 := f] = [x, f, z, w]" "[x, y, z, w][2 := f] = [x, y, f, w]"
  "[x, y, z, w][3 := f] = [x, y, z, f]"
  by (simp_all add: numeral_2_eq_2 numeral_3_eq_3)

lemma ring_pos_less: "ring_pos cur < 4"
  using unat_mono [of "cur AND 3" 4] word_and_le1 [of cur 3]
  by (auto simp: ring_pos_def word_less_nat_alt word_le_nat_alt)

lemma ring_cases:
  assumes "cursor_ok cur"
  shows "(ring_pos cur, ring_count cur) \<in> {(0, 0), (1, 1), (2, 2), (3, 3), (0, 4), (1, 4), (2, 4), (3, 4)}"
proof -
  have "ring_count cur \<le> 4" "ring_count cur < 4 \<longrightarrow> ring_pos cur = ring_count cur"
    using assms by (auto simp: cursor_ok_def)
  moreover have "n < 4 \<Longrightarrow> n = 0 \<or> n = 1 \<or> n = 2 \<or> n = 3" for n :: nat by arith
  from this [OF ring_pos_less [of cur]]
  have "ring_pos cur = 0 \<or> ring_pos cur = 1 \<or> ring_pos cur = 2 \<or> ring_pos cur = 3" .
  ultimately show ?thesis
    by (cases "ring_count cur < 4") auto
qed

lemma view_push:
  assumes "(p, c) \<in> {(0, 0), (1, 1), (2, 2), (3, 3), (0, 4), (1, 4), (2, 4), (3, 4 :: nat)}"
    and "length fps = 4"
  shows "ring_view (fps[p := fp]) ((p + 1) mod 4) (min 4 (c + 1)) = take 4 (fp # ring_view fps p c)"
    and "set (ring_view fps p c) = set (take c fps)"
proof -
  obtain x y z w where fps: "fps = [x, y, z, w]"
    using assms(2) by (auto simp: length_Suc_conv eval_nat_numeral)
  show "ring_view (fps[p := fp]) ((p + 1) mod 4) (min 4 (c + 1)) = take 4 (fp # ring_view fps p c)"
    using assms(1) by (elim insertE emptyE; simp add: ring_view_def fps upts upd4; blast?)
  show "set (ring_view fps p c) = set (take c fps)"
    using assms(1) by (elim insertE emptyE; simp add: ring_view_def fps upts upd4; blast?)
qed

lemma ring_list_push:
  assumes "cursor_ok (g_cursor g)" and "length (g_fp g) = 4"
  shows "ring_list (ring_push g fp) = take 4 (fp # ring_list g)"
  using view_push(1) [OF ring_cases [OF assms(1)] assms(2), of fp] cursor_next_ok [of "g_cursor g"]
    assms(1)
  by (simp add: ring_list_def ring_push_def)

lemma ring_has_list:
  assumes "cursor_ok (g_cursor g)" and "length (g_fp g) = 4"
  shows "ring_has g fp \<longleftrightarrow> fp \<in> set (ring_list g)"
proof -
  have "min 4 (ring_count (g_cursor g)) = ring_count (g_cursor g)"
    using assms(1) by (simp add: cursor_ok_def)
  then show ?thesis
    using view_push(2) [OF ring_cases [OF assms(1)] assms(2)]
    by (simp only: ring_has_def ring_list_def Let_def)
qed

lemma length_ring_list: "cursor_ok (g_cursor g) \<Longrightarrow> length (ring_list g) \<le> 4"
  by (simp add: ring_list_def ring_view_def cursor_ok_def)

text \<open>The flag byte: bit 0 and the run field do not disturb each other.\<close>

definition flags_ok :: "u8 \<Rightarrow> bool" where
  "flags_ok f \<longleftrightarrow> f AND 0xf8 = 0"

definition run_keeps :: "u8 \<Rightarrow> bool" where
  "run_keeps f \<longleftrightarrow> (flags_ok f \<longrightarrow>
     (\<forall>v \<in> set [0, 1 :: u8]. let f' = (f AND NOT 0x06) OR push_bit 1 (v AND 0x03) in
       flags_ok f' \<and> f' AND 1 = f AND 1 \<and> drop_bit 1 (f' AND 0x06) = v))"

lemma run_set_flags: "run_keeps f"
proof (rule all_bytes)
  show "\<forall>k \<in> set [0..<256]. run_keeps (of_nat k)"
    by code_simp
qed

lemma run_set_ok:
  assumes "guard_ok g" and "v = 0 \<or> v = 1"
  shows "guard_ok (run_set g v)" and "run_of (run_set g v) = v"
    and "guard_used (run_set g v) = guard_used g" and "ring_list (run_set g v) = ring_list g"
    and "g_emitted (run_set g v) = g_emitted g" and "g_dest4 (run_set g v) = g_dest4 g"
proof -
  have "v \<in> set [0, 1]" using assms(2) by auto
  then have *: "flags_ok (g_flags (run_set g v))" "g_flags (run_set g v) AND 1 = g_flags g AND 1"
      "run_of (run_set g v) = v"
    using run_set_flags [of "g_flags g"] assms(1)
    by (auto simp: guard_ok_def flags_ok_def run_of_def run_set_def Let_def run_keeps_def)
  show "run_of (run_set g v) = v" by (rule *(3))
  show "guard_used (run_set g v) = guard_used g" using *(2) by (simp add: guard_used_def)
  show "guard_ok (run_set g v)"
    using * assms by (auto simp: guard_ok_def flags_ok_def run_set_def)
  show "ring_list (run_set g v) = ring_list g" "g_emitted (run_set g v) = g_emitted g"
    "g_dest4 (run_set g v) = g_dest4 g"
    by (simp_all add: run_set_def ring_list_def)
qed

lemma ring_push_ok:
  assumes "guard_ok g"
  shows "guard_ok (ring_push g fp)" and "run_of (ring_push g fp) = run_of g"
    and "guard_used (ring_push g fp) = guard_used g"
    and "ring_list (ring_push g fp) = take 4 (fp # ring_list g)"
    and "g_emitted (ring_push g fp) = g_emitted g" and "g_dest4 (ring_push g fp) = g_dest4 g"
  using assms cursor_next_ok [of "g_cursor g"] ring_list_push [of g fp]
  by (simp_all add: guard_ok_def ring_push_def run_of_def guard_used_def)

lemma guard_new_ok:
  "guard_ok (guard_zero \<lparr> g_dest4 := d, g_flags := 1, g_emitted := e, g_age := a \<rparr>)"
  "ring_list (guard_zero \<lparr> g_dest4 := d, g_flags := 1, g_emitted := e, g_age := a \<rparr>) = []"
  "run_of (guard_zero \<lparr> g_dest4 := d, g_flags := 1, g_emitted := e, g_age := a \<rparr>) = 0"
  "guard_used (guard_zero \<lparr> g_dest4 := d, g_flags := 1, g_emitted := e, g_age := a \<rparr>)"
  by (simp_all add: guard_ok_def guard_zero_def ring_list_def ring_view_def run_of_def cursor_ok_def
      ring_count_def ring_pos_def guard_used_def)

end
