(* ===== verification/DirGuardSpec.thy ===== *)
theory DirGuardSpec
  imports DirGuard
begin

text \<open>
  What the guard pool promises: a map from truncated destination hashes to abstract entries, updated
  by \<open>spec_fresh\<close>. The handler \<open>rdir_guard_fresh\<close> implements it as long as a slot is there for the
  destination; the consequences for replayed and for older announces are proved on top.
\<close>

section \<open>Abstract specification\<close>

text \<open>
  An entry is the queue of the last four fingerprints (newest first), the newest emission time and
  the length of the current run of suppressions by emission.
\<close>

record aguard =
  ag_fps :: "bytes list"
  ag_emitted :: u32
  ag_run :: u8

definition spec_fresh :: "bytes \<Rightarrow> u32 \<Rightarrow> bool \<Rightarrow> aguard option \<Rightarrow> bool \<times> bool \<times> aguard" where
  "spec_fresh fp e bypass entry =
    (case entry of
       None \<Rightarrow> (True, True, \<lparr> ag_fps = [fp], ag_emitted = e, ag_run = 0 \<rparr>)
     | Some g \<Rightarrow>
        let seen = fp \<in> set (ag_fps g); d = sint (e - ag_emitted g); novel = (\<not> seen \<and> d \<ge> 0);
            pushed = take 4 (fp # ag_fps g) in
        if bypass then
          (True, novel, \<lparr> ag_fps = (if seen then ag_fps g else pushed),
             ag_emitted = (if d > 0 then e else ag_emitted g), ag_run = 0 \<rparr>)
        else if seen then (False, novel, g \<lparr> ag_run := 0 \<rparr>)
        else if d < 0 then
          (if ag_run g = 0 then (False, novel, g \<lparr> ag_run := 1 \<rparr>)
           else (True, novel, \<lparr> ag_fps = [fp], ag_emitted = e, ag_run = 0 \<rparr>))
        else (True, novel, \<lparr> ag_fps = pushed, ag_emitted = e, ag_run = 0 \<rparr>))"

definition spec_resets :: "bytes \<Rightarrow> u32 \<Rightarrow> bool \<Rightarrow> aguard option \<Rightarrow> bool" where
  "spec_resets fp e bypass entry =
    (case entry of None \<Rightarrow> False
     | Some g \<Rightarrow> \<not> bypass \<and> fp \<notin> set (ag_fps g) \<and> sint (e - ag_emitted g) < 0 \<and> ag_run g \<noteq> 0)"

definition abs_entry :: "guard_rec \<Rightarrow> aguard" where
  "abs_entry g = \<lparr> ag_fps = ring_list g, ag_emitted = g_emitted g, ag_run = run_of g \<rparr>"

definition abs_guard :: "rdir \<Rightarrow> u32 \<Rightarrow> aguard option" where
  "abs_guard st = (\<lambda>d4. map_option (\<lambda>i. abs_entry (s_guard st ! i)) (guard_find st d4))"

definition guard_inv :: "rdir \<Rightarrow> bool" where
  "guard_inv st \<longleftrightarrow> uniq guard_used g_dest4 (s_guard st) \<and>
     (\<forall>g \<in> set (s_guard st). guard_used g \<longrightarrow> guard_ok g)"

lemma abs_guard_put:
  assumes inv: "guard_inv st" and i: "i < length (s_guard st)" and g: "guard_ok g" "guard_used g"
    and old: "guard_used (s_guard st ! i) \<Longrightarrow> g_dest4 (s_guard st ! i) = g_dest4 g"
    and fresh: "\<not> guard_used (s_guard st ! i) \<Longrightarrow> guard_find st (g_dest4 g) = None"
  shows "guard_inv (st \<lparr> s_guard := (s_guard st)[i := g] \<rparr>)"
    and "abs_guard (st \<lparr> s_guard := (s_guard st)[i := g] \<rparr>) = (abs_guard st)(g_dest4 g \<mapsto> abs_entry g)"
proof -
  let ?st = "st \<lparr> s_guard := (s_guard st)[i := g] \<rparr>"
  have u: "uniq guard_used g_dest4 (s_guard st)" using inv by (simp add: guard_inv_def)
  have u': "uniq guard_used g_dest4 ((s_guard st)[i := g])"
  proof (cases "guard_used (s_guard st ! i)")
    case True
    with u i old show ?thesis by (intro guards.uniq_same) simp_all
  next
    case False
    with u fresh show ?thesis by (intro guards.uniq_fresh) simp_all
  qed
  then show "guard_inv ?st"
    using inv g by (auto simp: guard_inv_def dest: set_update_subset_insert [THEN subsetD])
  show "abs_guard ?st = (abs_guard st)(g_dest4 g \<mapsto> abs_entry g)"
  proof
    fix d
    show "abs_guard ?st d = ((abs_guard st)(g_dest4 g \<mapsto> abs_entry g)) d"
    proof (cases "d = g_dest4 g")
      case True
      have "guard_find ?st (g_dest4 g) = Some i"
        using guards.find_put [OF u' i g(2)] by simp
      with True i show ?thesis by (simp add: abs_guard_def)
    next
      case False
      have eq: "guard_find ?st d = guard_find st d"
        using guards.find_other [of i "s_guard st" d g] i old False by auto
      have "j \<noteq> i" if "guard_find st d = Some j" for j
        using slot_find_SomeD [OF that] old False by auto
      with eq False show ?thesis by (cases "guard_find st d") (auto simp: abs_guard_def)
    qed
  qed
qed

text \<open>Choosing a slot: a free one if there is one, else one of the greatest age.\<close>

lemma guard_pick_free:
  "slot_free guard_used gs = Some k \<Longrightarrow> guard_pick now gs i best = Some (i + k)"
proof (induction gs arbitrary: i k best)
  case Nil
  then show ?case by (simp add: slot_free_def)
next
  case (Cons g gs)
  show ?case
  proof (cases "guard_used g")
    case True
    with Cons.prems obtain m where "slot_free guard_used gs = Some m" "k = Suc m"
      by (auto simp: slot_free_def)
    with True show ?thesis using Cons.IH [of m "Suc i"] by (simp add: Let_def)
  qed (use Cons.prems in \<open>simp add: slot_free_def\<close>)
qed

lemma guard_pick_bound:
  "guard_pick now gs i best = Some j \<Longrightarrow> (case best of None \<Rightarrow> True | Some (p, a) \<Rightarrow> p < i) \<Longrightarrow>
   j < i + length gs"
proof (induction gs arbitrary: i best)
  case (Cons g gs)
  then show ?case
    by (fastforce simp: Let_def split: if_splits option.splits prod.splits)
qed (auto split: option.splits)

lemma guard_pick_total:
  "gs \<noteq> [] \<or> best \<noteq> None \<Longrightarrow> \<exists>j. guard_pick now gs i best = Some j"
proof (induction gs arbitrary: i best)
  case (Cons g gs)
  show ?case
  proof (cases "guard_used g")
    case True
    have "\<exists>j. guard_pick now gs (Suc i) (case best of None \<Rightarrow> Some (i, now - g_age g)
          | Some (p, oldest) \<Rightarrow> if now - g_age g > oldest then Some (i, now - g_age g) else best) = Some j"
      by (rule Cons.IH) (auto split: option.splits)
    with True show ?thesis by (simp add: Let_def)
  qed simp
qed auto

lemma guard_alloc_free:
  assumes "slot_free guard_used (s_guard st) = Some i"
  shows "guard_alloc now d4 st = Some (i, st \<lparr> s_guard := (s_guard st)
      [i := guard_zero \<lparr> g_dest4 := d4, g_flags := 1 \<rparr>] \<rparr>)"
  using guard_pick_free [OF assms, of now 0 None] slot_free_SomeD [OF assms]
  by (simp add: guard_alloc_def)

lemma abs_guard_stats [simp]:
  "abs_guard (upd_stats f st) = abs_guard st" "guard_inv (upd_stats f st) = guard_inv st"
  by (simp_all add: abs_guard_def guard_inv_def)

lemma abs_new:
  "abs_entry (ring_push (guard_zero \<lparr> g_dest4 := d, g_flags := 1, g_emitted := e, g_age := a \<rparr>) fp) =
     \<lparr> ag_fps = [fp], ag_emitted = e, ag_run = 0 \<rparr>"
  using ring_push_ok [OF guard_new_ok(1) [where d = d and e = e and a = a], of fp] guard_new_ok [where d = d and e = e and a = a]
  by (simp add: abs_entry_def guard_zero_def)

lemma byte_less_2:
  fixes w :: u8
  assumes "w < 2"
  shows "w = 0 \<or> w = 1"
proof -
  have "unat w < 2" using assms by (simp add: word_less_nat_alt)
  then have "unat w = 0 \<or> unat w = 1" by arith
  then show ?thesis by (simp add: word_unat_eq_iff)
qed

lemma byte_two [simp]: "\<not> (2 :: u8) \<le> 1"
  by (simp add: word_le_nat_alt)

lemma guard_age_ok [simp]:
  "guard_ok (g \<lparr> g_age := a \<rparr>) = guard_ok g" "guard_ok (g \<lparr> g_emitted := e \<rparr>) = guard_ok g"
  "ring_list (g \<lparr> g_age := a \<rparr>) = ring_list g" "ring_list (g \<lparr> g_emitted := e \<rparr>) = ring_list g"
  "run_of (g \<lparr> g_age := a \<rparr>) = run_of g" "run_of (g \<lparr> g_emitted := e \<rparr>) = run_of g"
  "guard_used (g \<lparr> g_age := a \<rparr>) = guard_used g" "guard_used (g \<lparr> g_emitted := e \<rparr>) = guard_used g"
  by (simp_all add: guard_ok_def ring_list_def run_of_def guard_used_def)

text \<open>A destination with an entry: the five branches of the handler.\<close>

lemma fresh_known:
  assumes ready: "s_ready st" and inv: "guard_inv st" and find: "guard_find st (dest4_of dest) = Some i"
  defines "en \<equiv> abs_entry (s_guard st ! i)"
  shows "\<exists>g st0. guard_ok g \<and> guard_used g \<and> g_dest4 g = dest4_of dest \<and>
      s_guard st0 = s_guard st \<and> s_ready st0 = s_ready st \<and>
      guard_resets (s_stats st0) = guard_resets (s_stats st) +
        (if spec_resets (fingerprint blob) e bypass (Some en) then 1 else 0) \<and>
      rdir_guard_fresh now dest blob e bypass st =
        (let (ok, nv, en') = spec_fresh (fingerprint blob) e bypass (Some en)
         in (ok, nv, put_guard i g st0)) \<and>
      abs_entry g = snd (snd (spec_fresh (fingerprint blob) e bypass (Some en)))"
proof -
  let ?g = "s_guard st ! i" and ?fp = "fingerprint blob" and ?d = "sint (e - g_emitted (s_guard st ! i))"
  note f = slot_find_SomeD [OF find]
  have ok: "guard_ok ?g" and u: "guard_used ?g" and d4: "g_dest4 ?g = dest4_of dest"
    using f inv by (auto simp: guard_inv_def)
  have ne: "s_guard st \<noteq> []" using f(1) by auto
  have has: "ring_has ?g ?fp \<longleftrightarrow> ?fp \<in> set (ring_list ?g)"
    using ok ring_has_list by (simp add: guard_ok_def)
  have run: "run_of ?g = 0 \<or> run_of ?g = 1"
  using ok byte_less_2 by (simp add: guard_ok_def)
  note pushes = ring_push_ok [OF ok] and defs = rdir_guard_fresh_def spec_fresh_def spec_resets_def
    Let_def en_def abs_entry_def put_guard_def
  consider (bypass) "bypass" | (seen) "\<not> bypass" "?fp \<in> set (ring_list ?g)"
    | (older) "\<not> bypass" "?fp \<notin> set (ring_list ?g)" "?d < 0" "run_of ?g = 0"
    | (reset) "\<not> bypass" "?fp \<notin> set (ring_list ?g)" "?d < 0" "run_of ?g = 1"
    | (newer) "\<not> bypass" "?fp \<notin> set (ring_list ?g)" "\<not> ?d < 0"
    using run by blast
  then show ?thesis
  proof cases
    case bypass
    let ?h = "(let g = (if \<not> ring_has ?g ?fp then ring_push ?g ?fp else ?g);
        g = (if ?d > 0 then g \<lparr> g_emitted := e \<rparr> else g) in g \<lparr> g_age := now \<rparr>)"
    have h: "guard_ok ?h" "guard_used ?h" "g_dest4 ?h = dest4_of dest"
      using ok u d4 pushes by (simp_all add: Let_def)
    show ?thesis
      by (rule exI [of _ "run_set ?h 0"],
          rule exI [of _ "upd_stats (\<lambda>s. s \<lparr> guard_bypass := guard_bypass s + 1 \<rparr>) st"])
         (use bypass ready ne find h run_set_ok [OF h(1), of 0] pushes has in
           \<open>simp add: defs\<close>)
  next
    case seen
    let ?h = "?g \<lparr> g_age := now \<rparr>"
    have h: "guard_ok ?h" using ok by simp
    show ?thesis
      by (rule exI [of _ "run_set ?h 0"],
          rule exI [of _ "upd_stats (\<lambda>s. s \<lparr> guard_drop_fp := guard_drop_fp s + 1 \<rparr>) st"])
         (use seen ready ne find u d4 run_set_ok [OF h, of 0] has in \<open>simp add: defs\<close>)
  next
    case older
    show ?thesis
      by (rule exI [of _ "run_set ?g 1 \<lparr> g_age := now \<rparr>"],
          rule exI [of _ "upd_stats (\<lambda>s. s \<lparr> guard_drop_emitted := guard_drop_emitted s + 1 \<rparr>) st"])
         (use older ready ne find u d4 run_set_ok [OF ok, of 1] has in \<open>simp add: defs\<close>)
  next
    case reset
    let ?h = "guard_zero \<lparr> g_dest4 := dest4_of dest, g_flags := 1, g_emitted := e, g_age := now \<rparr>"
    show ?thesis
      by (rule exI [of _ "ring_push ?h ?fp"],
          rule exI [of _ "upd_stats (\<lambda>s. s \<lparr> guard_resets := guard_resets s + 1 \<rparr>) st"])
         (use reset ready ne find has guard_new_ok [where d = "dest4_of dest" and e = e and a = now]
            ring_push_ok [OF guard_new_ok(1) [where d = "dest4_of dest" and e = e and a = now], of ?fp]
            abs_new [where d = "dest4_of dest" and e = e and a = now and fp = ?fp] in \<open>simp add: defs\<close>)
  next
    case newer
    let ?h = "ring_push (?g \<lparr> g_emitted := e, g_age := now \<rparr>) ?fp"
    have h: "guard_ok ?h" "guard_used ?h" "g_dest4 ?h = dest4_of dest" "g_emitted ?h = e"
      "ring_list ?h = take 4 (?fp # ring_list ?g)"
      using ok u d4 ring_push_ok [of "?g \<lparr> g_emitted := e, g_age := now \<rparr>" ?fp] by simp_all
    show ?thesis
      by (rule exI [of _ "run_set ?h 0"], rule exI [of _ st])
         (use newer ready ne find h run_set_ok [OF h(1), of 0] has in \<open>simp add: defs\<close>)
  qed
qed

lemma guard_known_step:
  assumes "s_ready st" and inv: "guard_inv st" and en: "abs_guard st (dest4_of dest) = Some en"
    and run: "rdir_guard_fresh now dest blob e bypass st = (ok, nv, st')"
  shows "s_ready st'" and "guard_inv st'" and "length (s_guard st') = length (s_guard st)"
    and "spec_fresh (fingerprint blob) e bypass (Some en) = (ok, nv, the (abs_guard st' (dest4_of dest)))"
    and "abs_guard st' =
      (abs_guard st)(dest4_of dest \<mapsto> snd (snd (spec_fresh (fingerprint blob) e bypass (Some en))))"
    and "guard_resets (s_stats st') = guard_resets (s_stats st) +
      (if spec_resets (fingerprint blob) e bypass (Some en) then 1 else 0)"
proof -
  obtain i where find: "guard_find st (dest4_of dest) = Some i" and eni: "en = abs_entry (s_guard st ! i)"
    using en by (auto simp: abs_guard_def)
  note f = slot_find_SomeD [OF find]
  obtain g st0 where g: "guard_ok g" "guard_used g" "g_dest4 g = dest4_of dest"
      "s_guard st0 = s_guard st" "s_ready st0 = s_ready st"
      "guard_resets (s_stats st0) = guard_resets (s_stats st) +
        (if spec_resets (fingerprint blob) e bypass (Some en) then 1 else 0)"
      "rdir_guard_fresh now dest blob e bypass st =
        (let (ok, nv, en') = spec_fresh (fingerprint blob) e bypass (Some en)
         in (ok, nv, put_guard i g st0))"
      "abs_entry g = snd (snd (spec_fresh (fingerprint blob) e bypass (Some en)))"
    using fresh_known [OF assms(1) inv find] unfolding eni by blast
  have inv0: "guard_inv st0" using inv g(4) by (simp add: guard_inv_def)
  have i: "i < length (s_guard st0)" using f(1) g(4) by simp
  have "g_dest4 (s_guard st0 ! i) = g_dest4 g" "guard_used (s_guard st0 ! i)"
    using f g(3,4) by simp_all
  note put = abs_guard_put [OF inv0 i g(1,2)] this
  have abs0: "abs_guard st0 = abs_guard st" using g(4) by (simp add: abs_guard_def)
  obtain en' where spec: "spec_fresh (fingerprint blob) e bypass (Some en) = (ok, nv, en')"
      and st': "st' = put_guard i g st0"
    using g(7) run by (auto split: prod.splits simp: Let_def)
  show "s_ready st'" "length (s_guard st') = length (s_guard st)"
    using st' g(4,5) assms(1) by (simp_all add: put_guard_def)
  show "guard_inv st'" using put by (simp add: st' put_guard_def)
  show abs': "abs_guard st' =
      (abs_guard st)(dest4_of dest \<mapsto> snd (snd (spec_fresh (fingerprint blob) e bypass (Some en))))"
    using put abs0 g(3,8) by (simp add: st' put_guard_def)
  show "spec_fresh (fingerprint blob) e bypass (Some en) = (ok, nv, the (abs_guard st' (dest4_of dest)))"
    unfolding abs' using spec by simp
  show "guard_resets (s_stats st') = guard_resets (s_stats st) +
      (if spec_resets (fingerprint blob) e bypass (Some en) then 1 else 0)"
    using g(6) by (simp add: st' put_guard_def)
qed

lemma guard_new_step:
  assumes "s_ready st" and inv: "guard_inv st" and en: "abs_guard st (dest4_of dest) = None"
    and free: "slot_free guard_used (s_guard st) = Some i"
    and run: "rdir_guard_fresh now dest blob e bypass st = (ok, nv, st')"
  shows "guard_inv st'" and "spec_fresh (fingerprint blob) e bypass None = (ok, nv, the (abs_guard st' (dest4_of dest)))"
    and "abs_guard st' =
      (abs_guard st)(dest4_of dest \<mapsto> snd (snd (spec_fresh (fingerprint blob) e bypass None)))"
    and "s_ready st'" and "length (s_guard st') = length (s_guard st)"
    and "guard_resets (s_stats st') = guard_resets (s_stats st)"
proof -
  let ?h = "guard_zero \<lparr> g_dest4 := dest4_of dest, g_flags := 1, g_emitted := e, g_age := now \<rparr>"
  let ?g = "ring_push ?h (fingerprint blob)"
  note fr = slot_free_SomeD [OF free]
  note new = guard_new_ok [where d = "dest4_of dest" and e = e and a = now]
  have find: "guard_find st (dest4_of dest) = None" using en by (simp add: abs_guard_def)
  have "s_guard st \<noteq> []" using fr by auto
  then have st': "ok \<and> nv \<and> st' = put_guard i ?g st"
    using run assms(1) find guard_alloc_free [OF free, of now "dest4_of dest"] fr
    by (auto simp: rdir_guard_fresh_def Let_def put_guard_def)
  have g: "guard_ok ?g" "guard_used ?g" "g_dest4 ?g = dest4_of dest"
    using ring_push_ok [OF new(1), of "fingerprint blob"] new by simp_all
  have a: "abs_entry ?g = snd (snd (spec_fresh (fingerprint blob) e bypass None))"
    by (simp add: spec_fresh_def abs_new)
  show "guard_inv st'"
    using abs_guard_put(1) [OF inv fr(1) g(1,2)] fr(2) find g(3) st' by (simp add: put_guard_def)
  show abs': "abs_guard st' =
      (abs_guard st)(dest4_of dest \<mapsto> snd (snd (spec_fresh (fingerprint blob) e bypass None)))"
    using abs_guard_put(2) [OF inv fr(1) g(1,2)] fr(2) find g(3) st' a by (simp add: put_guard_def)
  show "spec_fresh (fingerprint blob) e bypass None = (ok, nv, the (abs_guard st' (dest4_of dest)))"
    unfolding abs' using st' by (simp add: spec_fresh_def)
  show "s_ready st'" "length (s_guard st') = length (s_guard st)"
    "guard_resets (s_stats st') = guard_resets (s_stats st)"
    using st' assms(1) by (simp_all add: put_guard_def)
qed

text \<open>A store with two guard slots, and two destinations, for the witnesses.\<close>

definition sample_rdir :: rdir where
  "sample_rdir = \<lparr> s_ready = True, s_guard = replicate 2 guard_zero, s_dir = replicate 2 dir_zero,
     s_blob = replicate 2 (blob_zero 84), s_blob_slot_sz = 84, s_blob_units = 2,
     s_stats = stats_zero, s_generation = 0 \<rparr>"

definition sample_dest1 :: bytes where
  "sample_dest1 = [1, 2, 3, 4] @ zeros 12"

lemma sample_guard_inv: "guard_inv sample_rdir"
  by (simp add: guard_inv_def sample_rdir_def uniq_def guard_zero_def guard_used_def)

section \<open>A full pool\<close>

lemma guard_pick_oldest_aux:
  assumes "\<forall>g \<in> set gs. guard_used g" and "guard_pick now (drop i gs) i best = Some j" and "i \<le> length gs"
    and "case best of None \<Rightarrow> i = 0
      | Some (p, a) \<Rightarrow> p < i \<and> a = now - g_age (gs ! p) \<and> (\<forall>k < i. now - g_age (gs ! k) \<le> a)"
  shows "j < length gs \<and> (\<forall>k < length gs. now - g_age (gs ! k) \<le> now - g_age (gs ! j))"
  using assms(2-)
proof (induction "length gs - i" arbitrary: i best)
  case 0
  then have "i = length gs" by simp
  with 0 show ?case by (auto split: option.splits prod.splits)
next
  case (Suc m)
  then have i: "i < length gs" by simp
  then have d: "drop i gs = gs ! i # drop (Suc i) gs" by (simp add: Cons_nth_drop_Suc)
  have u: "guard_used (gs ! i)" using assms(1) i by simp
  let ?a = "now - g_age (gs ! i)"
  let ?b = "case best of None \<Rightarrow> Some (i, ?a)
     | Some (p, oldest) \<Rightarrow> if ?a > oldest then Some (i, ?a) else best"
  show ?case
  proof (rule Suc.hyps(1) [of "Suc i" ?b])
    show "m = length gs - Suc i" "Suc i \<le> length gs" using Suc.hyps(2) i by simp_all
    show "guard_pick now (drop (Suc i) gs) (Suc i) ?b = Some j"
      using Suc.prems(1) u by (simp add: d Let_def)
    show "case ?b of None \<Rightarrow> Suc i = 0
      | Some (p, a) \<Rightarrow> p < Suc i \<and> a = now - g_age (gs ! p) \<and> (\<forall>k < Suc i. now - g_age (gs ! k) \<le> a)"
    proof (cases best)
      case None
      with Suc.prems(3) show ?thesis by simp
    next
      case (Some q)
      obtain p a where q: "q = (p, a)" by (cases q)
      have *: "p < i" "a = now - g_age (gs ! p)" "\<And>k. k < i \<Longrightarrow> now - g_age (gs ! k) \<le> a"
        using Suc.prems(3) Some q by auto
      have "now - g_age (gs ! k) \<le> ?a" if "k < i" "a < ?a" for k
        using *(3) [OF that(1)] that(2) by simp
      with * Some q show ?thesis by (auto simp: less_Suc_eq not_less)
    qed
  qed
qed

lemma guard_pick_oldest:
  assumes "slot_free guard_used gs = None" and "guard_pick now gs 0 None = Some j"
  shows "j < length gs" and "k < length gs \<Longrightarrow> now - g_age (gs ! k) \<le> now - g_age (gs ! j)"
  using guard_pick_oldest_aux [of gs now 0 None j] assms by (auto simp: slot_free_None)

lemma abs_guard_replace:
  assumes inv: "guard_inv st" and i: "i < length (s_guard st)" "guard_used (s_guard st ! i)"
    and g: "guard_ok g" "guard_used g" and new: "guard_find st (g_dest4 g) = None"
  shows "guard_inv (st \<lparr> s_guard := (s_guard st)[i := g] \<rparr>)"
    and "abs_guard (st \<lparr> s_guard := (s_guard st)[i := g] \<rparr>) =
      (abs_guard st)(g_dest4 (s_guard st ! i) := None, g_dest4 g \<mapsto> abs_entry g)"
proof -
  let ?g = "s_guard st ! i"
  let ?st = "st \<lparr> s_guard := (s_guard st)[i := guard_zero] \<rparr>"
  have u: "uniq guard_used g_dest4 (s_guard st)" using inv by (simp add: guard_inv_def)
  have inv': "guard_inv ?st"
    using guards.uniq_wipe [OF u, of i] inv
    by (auto simp: guard_inv_def dest: set_update_subset_insert [THEN subsetD])
  have abs': "abs_guard ?st = (abs_guard st)(g_dest4 ?g := None)"
  proof
    fix d
    show "abs_guard ?st d = ((abs_guard st)(g_dest4 ?g := None)) d"
    proof (cases "d = g_dest4 ?g")
      case True
      with guards.find_wiped [OF u i] show ?thesis by (simp add: abs_guard_def)
    next
      case False
      have eq: "guard_find ?st d = guard_find st d"
        using guards.find_other [of i "s_guard st" d guard_zero] i False by simp
      have "j \<noteq> i" if "guard_find st d = Some j" for j
        using slot_find_SomeD [OF that] False by auto
      with eq False show ?thesis by (cases "guard_find st d") (auto simp: abs_guard_def)
    qed
  qed
  have find': "guard_find ?st (g_dest4 g) = None"
    using new u i by (auto simp: slot_find_None dest: set_update_subset_insert [THEN subsetD])
  have same: "?st \<lparr> s_guard := (s_guard ?st)[i := g] \<rparr> = st \<lparr> s_guard := (s_guard st)[i := g] \<rparr>"
    by simp
  show "guard_inv (st \<lparr> s_guard := (s_guard st)[i := g] \<rparr>)"
    using abs_guard_put(1) [OF inv' _ g, of i] i find' unfolding same by simp
  show "abs_guard (st \<lparr> s_guard := (s_guard st)[i := g] \<rparr>) =
      (abs_guard st)(g_dest4 ?g := None, g_dest4 g \<mapsto> abs_entry g)"
    using abs_guard_put(2) [OF inv' _ g, of i] i find' abs' unfolding same by simp
qed

lemma guard_full_step:
  assumes "s_ready st" and inv: "guard_inv st" and en: "abs_guard st (dest4_of dest) = None"
    and full: "slot_free guard_used (s_guard st) = None" and ne: "s_guard st \<noteq> []"
    and run: "rdir_guard_fresh now dest blob e bypass st = (ok, nv, st')"
  obtains v where "v < length (s_guard st)"
    and "\<forall>k < length (s_guard st). now - g_age (s_guard st ! k) \<le> now - g_age (s_guard st ! v)"
    and "ok" and "nv" and "guard_inv st'" and "s_ready st'"
    and "abs_guard st' = (abs_guard st)(g_dest4 (s_guard st ! v) := None,
      dest4_of dest \<mapsto> \<lparr> ag_fps = [fingerprint blob], ag_emitted = e, ag_run = 0 \<rparr>)"
proof -
  let ?h = "guard_zero \<lparr> g_dest4 := dest4_of dest, g_flags := 1, g_emitted := e, g_age := now \<rparr>"
  let ?g = "ring_push ?h (fingerprint blob)"
  obtain v where v: "guard_pick now (s_guard st) 0 None = Some v"
    using guard_pick_total [of "s_guard st" None now 0] ne by auto
  note old = guard_pick_oldest [OF full v]
  have used: "guard_used (s_guard st ! v)" using full old(1) by (simp add: slot_free_None)
  note new = guard_new_ok [where d = "dest4_of dest" and e = e and a = now]
  have find: "guard_find st (dest4_of dest) = None" using en by (simp add: abs_guard_def)
  have st': "ok" "nv" "st' = put_guard v ?g (upd_stats (\<lambda>s. s \<lparr> evict_guard := evict_guard s + 1 \<rparr>) st)"
    using run assms(1) find ne v used old(1)
    by (auto simp: rdir_guard_fresh_def guard_alloc_def Let_def put_guard_def)
  have g: "guard_ok ?g" "guard_used ?g" "g_dest4 ?g = dest4_of dest"
    using ring_push_ok [OF new(1), of "fingerprint blob"] new by simp_all
  let ?st = "upd_stats (\<lambda>s. s \<lparr> evict_guard := evict_guard s + 1 \<rparr>) st"
  have inv2: "guard_inv ?st" using inv by simp
  note rep = abs_guard_replace [of ?st v ?g] inv old(1) used g find
  show thesis
  proof (rule that)
    show "v < length (s_guard st)" by (rule old(1))
    show "\<forall>k < length (s_guard st). now - g_age (s_guard st ! k) \<le> now - g_age (s_guard st ! v)"
      using old(2) by blast
    show "ok" "nv" by (rule st')+
    show "s_ready st'" using assms(1) st'(3) by (simp add: put_guard_def)
    show "guard_inv st'"
      using rep by (simp add: st'(3) put_guard_def)
    show "abs_guard st' = (abs_guard st)(g_dest4 (s_guard st ! v) := None,
      dest4_of dest \<mapsto> \<lparr> ag_fps = [fingerprint blob], ag_emitted = e, ag_run = 0 \<rparr>)"
      using rep by (simp add: st'(3) put_guard_def abs_new)
  qed
qed

text \<open>
  What a pool of fixed size can add to a map: the map that is left to update for a destination is the old one
  while it has the destination or a slot is free, and otherwise the old one without one of its oldest
  entries.
\<close>

definition guard_room :: "u16 \<Rightarrow> u32 \<Rightarrow> rdir \<Rightarrow> (u32 \<Rightarrow> aguard option) \<Rightarrow> bool" where
  "guard_room now d4 st m \<longleftrightarrow>
    (if abs_guard st d4 \<noteq> None \<or> slot_free guard_used (s_guard st) \<noteq> None then m = abs_guard st
     else \<exists>v < length (s_guard st). guard_used (s_guard st ! v) \<and>
       (\<forall>k < length (s_guard st). now - g_age (s_guard st ! k) \<le> now - g_age (s_guard st ! v)) \<and>
       m = (abs_guard st)(g_dest4 (s_guard st ! v) := None))"

text \<open>C28: the guard pool implements a bounded map. The handler computes the verdict and the novelty of the
  abstract specification on the destination's entry, and its new pool stands for the old map with that
  entry put in; when the destination is new and every slot is in use, an entry of the greatest age, and
  no other, has made room for it. The pool invariant is kept.\<close>

theorem guard_refines_spec:
  assumes "s_ready st" "guard_inv st" "s_guard st \<noteq> []"
    and "rdir_guard_fresh now dest blob e bypass st = (ok, nv, st')"
  shows "\<exists>m en. guard_room now (dest4_of dest) st m \<and>
    spec_fresh (fingerprint blob) e bypass (abs_guard st (dest4_of dest)) = (ok, nv, en) \<and>
    abs_guard st' = m(dest4_of dest \<mapsto> en) \<and> guard_inv st' \<and> s_ready st'"
proof (cases "abs_guard st (dest4_of dest)")
  case (Some en)
  from guard_known_step [OF assms(1,2) Some assms(4)] Some show ?thesis
    by (intro exI [of _ "abs_guard st"] exI [of _ "the (abs_guard st' (dest4_of dest))"]) (simp add: guard_room_def)
next
  case None
  show ?thesis
  proof (cases "slot_free guard_used (s_guard st)")
    case (Some i)
    from guard_new_step [OF assms(1,2) None Some assms(4)] None Some show ?thesis
      by (intro exI [of _ "abs_guard st"] exI [of _ "the (abs_guard st' (dest4_of dest))"]) (simp add: guard_room_def)
  next
    case full: None
    from guard_full_step [OF assms(1,2) None full assms(3,4)] obtain v where v: "v < length (s_guard st)"
      "\<forall>k < length (s_guard st). now - g_age (s_guard st ! k) \<le> now - g_age (s_guard st ! v)" "ok" "nv"
      "guard_inv st'" "s_ready st'" "abs_guard st' = (abs_guard st)(g_dest4 (s_guard st ! v) := None,
        dest4_of dest \<mapsto> \<lparr> ag_fps = [fingerprint blob], ag_emitted = e, ag_run = 0 \<rparr>)" by blast
    have "guard_used (s_guard st ! v)" using full v(1) by (simp add: slot_free_None)
    with v None full show ?thesis
      by (intro exI [of _ "(abs_guard st)(g_dest4 (s_guard st ! v) := None)"]
          exI [of _ "\<lparr> ag_fps = [fingerprint blob], ag_emitted = e, ag_run = 0 \<rparr>"])
        (auto simp: guard_room_def spec_fresh_def)
  qed
qed

text \<open>A pool of one slot gives it up to the second destination.\<close>

definition sample_tight :: rdir where
  "sample_tight = snd (snd (rdir_guard_fresh 5 sample_dest1 [9, 9, 9, 9] 100 False
     (sample_rdir \<lparr> s_guard := [guard_zero] \<rparr>)))"

lemma guard_refines_spec_witness:
  "abs_guard (snd (snd (rdir_guard_fresh 6 (replicate 16 0) [8, 8, 8, 8] 101 False sample_tight))) =
     [0 \<mapsto> \<lparr> ag_fps = [[8, 8, 8, 8]], ag_emitted = 101, ag_run = 0 \<rparr>]"
proof -
  let ?one = "sample_rdir \<lparr> s_guard := [guard_zero] \<rparr>"
  let ?in = "\<lparr> ag_fps = [[9, 9, 9, 9]], ag_emitted = 100, ag_run = 0 \<rparr>"
  have d: "dest4_of sample_dest1 = 0x01020304" "dest4_of (replicate 16 0) = 0"
    by (simp_all add: dest4_of_def sample_dest1_def)
  have one: "s_ready ?one" "guard_inv ?one" "s_guard ?one \<noteq> []" "abs_guard ?one = Map.empty"
      "slot_free guard_used (s_guard ?one) \<noteq> None"
    by (auto simp: sample_rdir_def guard_inv_def uniq_def guard_zero_def guard_used_def abs_guard_def slot_find_def
        slot_free_def)
  obtain ok nv where r1: "rdir_guard_fresh 5 sample_dest1 [9, 9, 9, 9] 100 False ?one = (ok, nv, sample_tight)"
    by (cases "rdir_guard_fresh 5 sample_dest1 [9, 9, 9, 9] 100 False ?one") (simp add: sample_tight_def)
  have tight: "abs_guard sample_tight = [0x01020304 \<mapsto> ?in]" "guard_inv sample_tight" "s_ready sample_tight"
    using guard_known_step(1) guard_refines_spec [OF one(1-3) r1] one(4,5)
    by (auto simp: guard_room_def d spec_fresh_def fingerprint_def)
  have g: "length (s_guard sample_tight) = 1" by code_simp
  then have ne: "s_guard sample_tight \<noteq> []" by auto
  have full: "slot_free guard_used (s_guard sample_tight) = None" by code_simp
  have "g_dest4 (s_guard sample_tight ! 0) = 0x01020304" by code_simp
  obtain ok2 nv2 st2 where r2: "rdir_guard_fresh 6 (replicate 16 0) [8, 8, 8, 8] 101 False sample_tight = (ok2, nv2, st2)"
    by (cases "rdir_guard_fresh 6 (replicate 16 0) [8, 8, 8, 8] 101 False sample_tight") auto
  from guard_refines_spec [OF tight(3,2) ne r2]
  have "abs_guard st2 = [0 \<mapsto> \<lparr> ag_fps = [[8, 8, 8, 8]], ag_emitted = 101, ag_run = 0 \<rparr>]"
    using tight(1) g full \<open>g_dest4 (s_guard sample_tight ! 0) = 0x01020304\<close>
    by (auto simp: guard_room_def d spec_fresh_def fingerprint_def)
  with r2 show ?thesis by simp
qed

section \<open>Replays\<close>

text \<open>A run of announces of one destination, as (local minutes, random blob, emission, bypass).\<close>

fun guard_run :: "bytes \<Rightarrow> (u16 \<times> bytes \<times> u32 \<times> bool) list \<Rightarrow> rdir \<Rightarrow> rdir" where
  "guard_run dest [] st = st"
| "guard_run dest ((now, blob, e, bypass) # xs) st =
    guard_run dest xs (snd (snd (rdir_guard_fresh now dest blob e bypass st)))"

lemma spec_keeps:
  assumes "\<not> spec_resets fp' e bypass (Some en)" and "fp \<in> set (take (Suc k) (ag_fps en))"
    and "Suc (Suc k) \<le> 4"
  shows "fp \<in> set (take (Suc (Suc k)) (ag_fps (snd (snd (spec_fresh fp' e bypass (Some en))))))"
proof -
  have "fp \<in> set (take (Suc (Suc k)) (ag_fps en))"
    using assms(2) set_take_subset_set_take [of "Suc k" "Suc (Suc k)" "ag_fps en"] by auto
  moreover have "fp \<in> set (take (Suc (Suc k)) (take 4 (fp' # ag_fps en)))"
    using assms(2,3) by (simp add: min_absorb1)
  ultimately show ?thesis
    using assms(1) by (auto simp: spec_fresh_def spec_resets_def Let_def)
qed

lemma guard_run_keeps:
  assumes "s_ready st" "guard_inv st" "abs_guard st (dest4_of dest) = Some en"
  shows "\<exists>n en'. n \<le> length xs \<and>
    s_ready (guard_run dest xs st) \<and> guard_inv (guard_run dest xs st) \<and>
    abs_guard (guard_run dest xs st) (dest4_of dest) = Some en' \<and>
    guard_resets (s_stats (guard_run dest xs st)) = guard_resets (s_stats st) + of_nat n \<and>
    (n = 0 \<longrightarrow> (\<forall>k. fp \<in> set (take (Suc k) (ag_fps en)) \<longrightarrow> k + length xs \<le> 3 \<longrightarrow>
       fp \<in> set (ag_fps en')))"
  using assms
proof (induction xs arbitrary: st en)
  case Nil
  then show ?case by (auto dest: in_set_takeD)
next
  case (Cons x xs)
  obtain now blob e bypass where x: "x = (now, blob, e, bypass)" by (cases x)
  obtain ok nv st1 where run: "rdir_guard_fresh now dest blob e bypass st = (ok, nv, st1)"
    by (cases "rdir_guard_fresh now dest blob e bypass st") auto
  let ?en1 = "snd (snd (spec_fresh (fingerprint blob) e bypass (Some en)))"
  note step = guard_known_step [OF Cons.prems run]
  have en1: "abs_guard st1 (dest4_of dest) = Some ?en1" using step(5) by simp
  from Cons.IH [OF step(1,2) en1] obtain n en' where IH: "n \<le> length xs"
    "s_ready (guard_run dest xs st1)" "guard_inv (guard_run dest xs st1)"
    "abs_guard (guard_run dest xs st1) (dest4_of dest) = Some en'"
    "guard_resets (s_stats (guard_run dest xs st1)) = guard_resets (s_stats st1) + of_nat n"
    "n = 0 \<longrightarrow> (\<forall>k. fp \<in> set (take (Suc k) (ag_fps ?en1)) \<longrightarrow> k + length xs \<le> 3 \<longrightarrow>
       fp \<in> set (ag_fps en'))"
    by blast
  have eq: "guard_run dest (x # xs) st = guard_run dest xs st1" by (simp add: x run)
  show ?case
  proof (cases "spec_resets (fingerprint blob) e bypass (Some en)")
    case True
    show ?thesis
      by (rule exI [of _ "Suc n"], rule exI [of _ en']) (use IH True step(6) eq in \<open>simp add: ac_simps\<close>)
  next
    case False
    have "fp \<in> set (ag_fps en')"
      if "n = 0" "fp \<in> set (take (Suc k) (ag_fps en))" "k + length (x # xs) \<le> 3" for k
    proof -
      have "fp \<in> set (take (Suc (Suc k)) (ag_fps ?en1))"
        using spec_keeps [OF False that(2)] that(3) by simp
      with IH(6) that(1,3) show ?thesis by auto
    qed
    then show ?thesis
      by (intro exI [of _ n] exI [of _ en']) (use IH False step(6) eq in auto)
  qed
qed

lemma spec_accept_head:
  assumes "spec_fresh fp e False en = (True, nv, en')"
  shows "\<exists>fps. ag_fps en' = fp # fps"
  using assms by (auto simp: spec_fresh_def Let_def split: option.splits if_splits)

lemma fresh_accept_head:
  assumes "s_ready st" "guard_inv st" "s_guard st \<noteq> []"
    and run: "rdir_guard_fresh now dest blob e False st = (True, nv, st1)"
  shows "s_ready st1 \<and> guard_inv st1 \<and>
    (\<exists>en fps. abs_guard st1 (dest4_of dest) = Some en \<and> ag_fps en = fingerprint blob # fps)"
proof (cases "abs_guard st (dest4_of dest)")
  case (Some en)
  note step = guard_known_step [OF assms(1,2) Some run]
  then show ?thesis using spec_accept_head [OF step(4)] by auto
next
  case None
  show ?thesis
  proof (cases "slot_free guard_used (s_guard st)")
    case (Some i)
    note step = guard_new_step [OF assms(1,2) None Some run]
    then show ?thesis using spec_accept_head [OF step(2)] by auto
  next
    case full: None
    show ?thesis
      by (rule guard_full_step [OF assms(1,2) None full assms(3) run]) auto
  qed
qed

text \<open>C29: a replayed announce is suppressed. The guard has a bypass, taken for path responses this node
  waits for, under which every blob is accepted, a replayed one too; this is about announces judged without
  it. Once an announce has been accepted on its own merit, up
  to three further announces of the destination, whatever they are, do not make the guard forget its
  random blob, unless one of them triggers the collision reset: the same blob is refused, and is not
  reported as a new emission.\<close>

theorem replay_suppressed:
  assumes "s_ready st" "guard_inv st" "s_guard st \<noteq> []"
    and "rdir_guard_fresh now dest blob e False st = (True, nv, st1)"
    and "length xs \<le> 3"
    and "guard_resets (s_stats (guard_run dest xs st1)) = guard_resets (s_stats st1)"
    and "fingerprint blob' = fingerprint blob"
  shows "fst (rdir_guard_fresh now' dest blob' e' False (guard_run dest xs st1)) = False \<and>
    fst (snd (rdir_guard_fresh now' dest blob' e' False (guard_run dest xs st1))) = False"
proof -
  obtain en fps where s1: "s_ready st1" "guard_inv st1" "abs_guard st1 (dest4_of dest) = Some en"
      "ag_fps en = fingerprint blob # fps"
    using fresh_accept_head [OF assms(1-4)] by blast
  from guard_run_keeps [OF s1(1-3), of xs "fingerprint blob"] obtain n en' where k:
    "n \<le> length xs" "s_ready (guard_run dest xs st1)" "guard_inv (guard_run dest xs st1)"
    "abs_guard (guard_run dest xs st1) (dest4_of dest) = Some en'"
    "guard_resets (s_stats (guard_run dest xs st1)) = guard_resets (s_stats st1) + of_nat n"
    "n = 0 \<longrightarrow> (\<forall>k. fingerprint blob \<in> set (take (Suc k) (ag_fps en)) \<longrightarrow> k + length xs \<le> 3 \<longrightarrow>
       fingerprint blob \<in> set (ag_fps en'))"
    by blast
  have "(of_nat n :: u32) = 0" using k(5) assms(6) by simp
  moreover have "unat (of_nat n :: u32) = n" using k(1) assms(5) by (intro of_nat_unat_less) simp
  ultimately have "n = 0" by simp
  then have mem: "fingerprint blob' \<in> set (ag_fps en')"
    using k(6) [rule_format, of 0] s1(4) assms(5,7) by simp
  obtain ok nv' st' where run: "rdir_guard_fresh now' dest blob' e' False (guard_run dest xs st1) = (ok, nv', st')"
    by (cases "rdir_guard_fresh now' dest blob' e' False (guard_run dest xs st1)") auto
  from guard_known_step(4) [OF k(2,3,4) run] mem run show ?thesis
    by (simp add: spec_fresh_def Let_def)
qed

theorem replay_suppressed_witness:
  "fst (rdir_guard_fresh 7 sample_dest1 [9, 9, 9, 9] 300 False
     (guard_run sample_dest1 [(6, [8, 8, 8, 8], 200, False), (6, [7, 7, 7, 7], 201, True)]
       (snd (snd (rdir_guard_fresh 5 sample_dest1 [9, 9, 9, 9] 100 False sample_rdir))))) = False"
proof -
  let ?st = "snd (snd (rdir_guard_fresh 5 sample_dest1 [9, 9, 9, 9] 100 False sample_rdir))"
  have run: "rdir_guard_fresh 5 sample_dest1 [9, 9, 9, 9] 100 False sample_rdir = (True, True, ?st)"
    by code_simp
  have r: "guard_resets (s_stats (guard_run sample_dest1
       [(6, [8, 8, 8, 8], 200, False), (6, [7, 7, 7, 7], 201, True)] ?st)) = guard_resets (s_stats ?st)"
    by code_simp
  have ne: "s_ready sample_rdir" "s_guard sample_rdir \<noteq> []"
    by (simp_all add: sample_rdir_def)
  show ?thesis
    by (rule conjunct1 [OF replay_suppressed [OF ne(1) sample_guard_inv ne(2) run _ r refl]]) simp
qed

text \<open>the guard does not starve a destination. If a first announce is refused without its blob
  having been heard (it was older than what is held) and the next one, whatever its emission time,
  carries another unheard blob, that one is accepted.\<close>

theorem no_two_drops:
  assumes "s_ready st" "guard_inv st" "abs_guard st (dest4_of dest) = Some en"
    and "rdir_guard_fresh now dest blob e False st = (False, nv, st1)"
    and "fingerprint blob \<notin> set (ag_fps en)" and "fingerprint blob' \<notin> set (ag_fps en)"
  shows "fst (rdir_guard_fresh now' dest blob' e' False st1)"
proof -
  note s = guard_known_step [OF assms(1-4)]
  have en1: "abs_guard st1 (dest4_of dest) = Some (en \<lparr> ag_run := 1 \<rparr>)"
    using s(4,5) assms(5) by (simp add: spec_fresh_def Let_def split: if_splits)
  obtain ok nv' st' where run: "rdir_guard_fresh now' dest blob' e' False st1 = (ok, nv', st')"
    by (cases "rdir_guard_fresh now' dest blob' e' False st1") auto
  from guard_known_step(4) [OF s(1,2) en1 run] assms(6) run show ?thesis
    by (simp add: spec_fresh_def Let_def split: if_splits)
qed

theorem no_two_drops_witness:
  "fst (rdir_guard_fresh 7 sample_dest1 [7, 7, 7, 7] 51 False
     (snd (snd (rdir_guard_fresh 6 sample_dest1 [8, 8, 8, 8] 50 False
       (snd (snd (rdir_guard_fresh 5 sample_dest1 [9, 9, 9, 9] 100 False sample_rdir)))))))"
proof -
  let ?st = "snd (snd (rdir_guard_fresh 5 sample_dest1 [9, 9, 9, 9] 100 False sample_rdir))"
  let ?st1 = "snd (snd (rdir_guard_fresh 6 sample_dest1 [8, 8, 8, 8] 50 False ?st))"
  have first: "rdir_guard_fresh 5 sample_dest1 [9, 9, 9, 9] 100 False sample_rdir = (True, True, ?st)"
    by code_simp
  have second: "rdir_guard_fresh 6 sample_dest1 [8, 8, 8, 8] 50 False ?st = (False, False, ?st1)"
    by code_simp
  have ne: "s_ready sample_rdir" "s_guard sample_rdir \<noteq> []"
    by (simp_all add: sample_rdir_def)
  have ready: "s_ready ?st" and inv: "guard_inv ?st"
    using fresh_accept_head [OF ne(1) sample_guard_inv ne(2) first] by auto
  have en: "abs_guard ?st (dest4_of sample_dest1) = Some \<lparr> ag_fps = [[9, 9, 9, 9]], ag_emitted = 100, ag_run = 0 \<rparr>"
    unfolding abs_guard_def by code_simp
  show ?thesis
    by (rule no_two_drops [OF ready inv en second]) (simp_all add: fingerprint_def)
qed

end
