(* ===== verification/DirProps.thy ===== *)
theory DirProps
  imports DirOps DirGuardSpec
begin

text \<open>
  What the store promises: the invariant over every history, what an announce stores and what it may
  displace, which record an eviction takes, and what the claims of the consumers do to the class of a
  record.
\<close>

section \<open>Lookups after a write session\<close>

lemma dir_lookup_ready: "s_ready st \<Longrightarrow> dir_lookup st d = map_option (\<lambda>i. s_dir st ! i) (dir_find st d)"
  by (simp add: dir_lookup_def)

lemma lookup_written:
  assumes "store_inv (write_rec i f st)" and "i < length (s_dir st)" and "s_ready st"
    and "dir_used (f (write_begin (s_dir st ! i)))" and "d_dest (f (write_begin (s_dir st ! i))) = dest"
  shows "dir_lookup (write_rec i f st) dest = Some (write_end (f (write_begin (s_dir st ! i))))"
proof -
  let ?r = "write_end (f (write_begin (s_dir st ! i)))"
  have u: "uniq dir_used d_dest ((s_dir st)[i := ?r])"
    using assms(1) by (simp add: store_inv_def write_rec_def)
  have "dir_find (write_rec i f st) dest = Some i"
    using dirs.find_put [OF u assms(2)] assms(4,5) by (simp add: write_rec_def)
  then show ?thesis
    using assms(2,3) by (simp add: dir_lookup_def) (simp add: write_rec_def)
qed

lemma lookup_other:
  assumes "i < length (s_dir st)" and "dir_used (s_dir st ! i) \<Longrightarrow> d_dest (s_dir st ! i) \<noteq> d"
    and "d_dest (f (write_begin (s_dir st ! i))) \<noteq> d"
  shows "dir_lookup (write_rec i f st) d = dir_lookup st d"
proof -
  have eq: "dir_find (write_rec i f st) d = dir_find st d"
    unfolding write_rec_def using assms by (auto intro: dirs.find_other)
  have "j \<noteq> i" if "dir_find st d = Some j" for j
    using slot_find_SomeD [OF that] assms(2) by auto
  with eq show ?thesis
    by (cases "dir_find st d") (auto simp: dir_lookup_def, auto simp: write_rec_def)
qed

lemma lookup_evict:
  assumes "store_inv st" and "evict_one_dir now st = Some st'" and "dir_lookup st' d \<noteq> dir_lookup st d"
  obtains v where "is_victim now st v" "d = d_dest (s_dir st ! v)"
proof -
  obtain v where v: "is_victim now st v"
      "\<And>d. d \<noteq> d_dest (s_dir st ! v) \<Longrightarrow> dir_find st' d = dir_find st d"
      "\<And>i. i \<noteq> v \<Longrightarrow> s_dir st' ! i = s_dir st ! i" "same_shape st st'"
    using evict_one_dir_find [OF assms(1,2)] by metis
  have "d = d_dest (s_dir st ! v)"
  proof (rule ccontr)
    assume d: "d \<noteq> d_dest (s_dir st ! v)"
    have "i \<noteq> v" if "dir_find st d = Some i" for i
      using slot_find_SomeD [OF that] d by auto
    then have "dir_lookup st' d = dir_lookup st d"
      using v(2) [OF d] v(3,4) by (cases "dir_find st d") (auto simp: dir_lookup_def same_shape_def)
    with assms(3) show False by simp
  qed
  with v(1) that show thesis by blast
qed

section \<open>The invariant over every history\<close>

text \<open>C20: whatever the writer does, in whatever order, the store keeps at most one record and one blob
  per destination, every record's eviction class is the one its claims and flags mean, sequence
  counters are even between sessions, every blob fits its slot, and the pools keep their sizes.\<close>

theorem store_invariant:
  assumes "dir_reach st0 st" and "store_inv st0"
  shows "store_inv st \<and> same_shape st0 st"
  using dir_reach_inv [OF assms] .

lemma sample_store_inv: "store_inv sample_rdir"
  by (simp add: store_inv_def sample_rdir_def uniq_def rec_inv_def slot_inv_def)
     (simp add: dir_zero_def blob_zero_def)

definition sample_announce :: announce where
  "sample_announce = \<lparr> a_pubkey = Some (zeros 64), a_name_hash = Some (zeros 10),
     a_received_from = Some (zeros 16), a_iface_hash = Some (zeros 16), a_raw = Some [1, 2, 3],
     a_raw_len = 3, a_hops = 2, a_edge = False, a_answer_for = True, a_timestamp = 50,
     a_expires = 5000 \<rparr>"

lemma sample_announce_ok: "ann_ok sample_announce"
  by (simp add: ann_ok_def sample_announce_def)

lemma sample_dest1_len: "length sample_dest1 = 16"
  by (simp add: sample_dest1_def)

theorem store_invariant_witness:
  "store_inv (rdir_touch_used 120 sample_dest1 9000 (rdir_ingest 100 sample_dest1 sample_announce 3 sample_rdir))"
proof -
  let ?st = "rdir_ingest 100 sample_dest1 sample_announce 3 sample_rdir"
  have "dir_reach sample_rdir ?st"
    by (rule dir_reach.next_op [OF dir_reach.start dir_step.ingest [OF sample_dest1_len sample_announce_ok]])
  then have "dir_reach sample_rdir (rdir_touch_used 120 sample_dest1 9000 ?st)"
    by (rule dir_reach.next_op [OF _ dir_step.touch_used])
  from store_invariant [OF this sample_store_inv] show ?thesis ..
qed

section \<open>Ingest\<close>

lemma blob_alloc_dir:
  "blob_alloc now st = Some (i, st') \<Longrightarrow> s_dir st' = s_dir st \<and> s_ready st' = s_ready st"
  by (auto simp: blob_alloc_def evict_one_blob_def blob_free_def split: option.splits prod.splits)

lemma ingest_blob_dir:
  "s_dir (ingest_blob now dest raw len st) = s_dir st \<and> s_ready (ingest_blob now dest raw len st) = s_ready st"
proof (cases "blob_find st dest")
  case None
  then show ?thesis
    using blob_alloc_dir by (cases "blob_alloc now st") (auto simp: ingest_blob_def)
qed (simp add: ingest_blob_def)

lemma ingest_blob_lookup: "dir_lookup (ingest_blob now dest raw len st) d = dir_lookup st d"
  using ingest_blob_dir by (simp add: dir_lookup_def)

lemma ingest_layers:
  assumes "s_ready st" and "layers AND 1 \<noteq> 0" and "ingest_dir now dest a st = Some st1"
  shows "dir_lookup (rdir_ingest now dest a layers st) d = dir_lookup st1 d"
  using assms ingest_blob_lookup by (auto simp: rdir_ingest_def split: option.splits)

lemma ingest_dir_total:
  assumes "store_inv st" and "s_dir st \<noteq> []"
  shows "\<exists>st'. ingest_dir now dest a st = Some st'"
  using dir_alloc_total [OF assms, of now] by (auto simp: ingest_dir_def split: option.splits)

text \<open>The record an ingest leaves: \<open>old\<close> is the record held before, a wiped one if none was.\<close>

lemma ingest_dir_lookup:
  assumes inv: "store_inv st" and ready: "s_ready st" and a: "ann_ok a" "length dest = 16"
    and run: "ingest_dir now dest a st = Some st1"
  obtains old where "dir_lookup st1 dest = Some (write_end (ingest_rec now dest a old))"
    and "case dir_lookup st dest of Some r \<Rightarrow> old = write_begin r | None \<Rightarrow> \<exists>r. old = rec_clear r"
proof (cases "dir_find st dest")
  case (Some i)
  then have st1: "st1 = write_rec i (ingest_rec now dest a) st" using run by (simp add: ingest_dir_def)
  from ingest_dir_inv [OF inv a run] st1 have "store_inv (write_rec i (ingest_rec now dest a) st)" by simp
  from lookup_written [OF this slot_find_SomeD(1) [OF Some] ready] Some st1 that ready
  show thesis by (simp add: dir_lookup_def)
next
  case None
  then obtain i st2 where al: "dir_alloc now st = Some (i, st2)"
      and st1: "st1 = write_rec i (ingest_rec now dest a \<circ> rec_clear) st2"
    using run by (auto simp: ingest_dir_def split: option.splits)
  note f = dir_alloc_facts [OF inv al]
  from ingest_dir_inv [OF inv a run] st1
  have "store_inv (write_rec i (ingest_rec now dest a \<circ> rec_clear) st2)" by simp
  from lookup_written [OF this f(1)] f(4) ready
  have "dir_lookup st1 dest = Some (write_end (ingest_rec now dest a (rec_clear (write_begin (s_dir st2 ! i)))))"
    by (simp add: st1 same_shape_def)
  with None that ready show thesis by (auto simp: dir_lookup_def)
qed

lemma ingest_rec_claims:
  "d_claims (ingest_rec now dest a r) AND 0xFFFFFF = d_claims r AND 0xFFFFFF"
  "d_claims (ingest_rec now dest a r) AND ANSWER_FOR \<noteq> 0 \<longleftrightarrow> a_answer_for a"
proof -
  have cl: "d_claims (ingest_rec now dest a r) =
      (if a_answer_for a then d_claims r OR ANSWER_FOR else d_claims r AND NOT ANSWER_FOR)"
    by (simp add: ingest_rec_def Let_def set_prio_def set_flag_def split: option.splits)
  show "d_claims (ingest_rec now dest a r) AND 0xFFFFFF = d_claims r AND 0xFFFFFF"
    unfolding cl by (simp add: bit.conj_disj_distrib2 and.assoc)
  show "d_claims (ingest_rec now dest a r) AND ANSWER_FOR \<noteq> 0 \<longleftrightarrow> a_answer_for a"
    unfolding cl by (simp add: bit.conj_disj_distrib2 and.assoc)
qed

lemma ingest_rec_route:
  "a_received_from a = Some rf \<Longrightarrow> a_iface_hash a = Some ih \<Longrightarrow>
    d_received_from (ingest_rec now dest a r) = rf \<and> d_iface_hash (ingest_rec now dest a r) = ih \<and>
    has_route (ingest_rec now dest a r)"
  "a_pubkey a = Some pk \<Longrightarrow>
    d_pubkey (ingest_rec now dest a r) = pk \<and> has_pubkey (ingest_rec now dest a r)"
  by (auto simp: ingest_rec_def Let_def set_prio_def set_flag_def has_route_def has_pubkey_def
      bit.conj_disj_distrib2 or_eq_0_iff split: option.splits)

text \<open>after an announce has been ingested at the directory layer its destination is held, with the
  time, hops, expiry, key and route the announce carries; the claims of the consumers are those held
  before, and the custody bit is exactly what the announce says.\<close>

theorem ingest_stores:
  assumes "store_inv st" "s_ready st" "s_dir st \<noteq> []" "ann_ok a" "length dest = 16"
    and "layers AND 1 \<noteq> 0"
    and "a_pubkey a = Some pk" "a_received_from a = Some rf" "a_iface_hash a = Some ih"
  shows "\<exists>r. dir_lookup (rdir_ingest now dest a layers st) dest = Some r \<and>
    d_last_heard r = now \<and> d_hops r = a_hops a \<and> d_expires r = a_expires a \<and>
    has_pubkey r \<and> d_pubkey r = pk \<and> has_route r \<and> d_received_from r = rf \<and> d_iface_hash r = ih \<and>
    (d_claims r AND ANSWER_FOR \<noteq> 0) = a_answer_for a \<and>
    d_claims r AND 0xFFFFFF =
      (case dir_lookup st dest of Some old \<Rightarrow> d_claims old AND 0xFFFFFF | None \<Rightarrow> 0)"
proof -
  obtain st1 where run: "ingest_dir now dest a st = Some st1"
    using ingest_dir_total [OF assms(1,3)] by blast
  obtain old where r: "dir_lookup st1 dest = Some (write_end (ingest_rec now dest a old))"
      and old: "case dir_lookup st dest of Some r \<Rightarrow> old = write_begin r | None \<Rightarrow> \<exists>r. old = rec_clear r"
    by (rule ingest_dir_lookup [OF assms(1,2,4,5) run])
  have we: "d_last_heard (write_end r) = d_last_heard r" "d_hops (write_end r) = d_hops r"
    "d_expires (write_end r) = d_expires r" "d_pubkey (write_end r) = d_pubkey r"
    "has_pubkey (write_end r) = has_pubkey r" "d_received_from (write_end r) = d_received_from r"
    "d_iface_hash (write_end r) = d_iface_hash r" for r
    by (simp_all add: write_end_def has_pubkey_def)
  have "d_claims old AND 0xFFFFFF =
      (case dir_lookup st dest of Some old \<Rightarrow> d_claims old AND 0xFFFFFF | None \<Rightarrow> 0)"
    using old by (auto simp: rec_clear_def dir_zero_def split: option.splits)
  then show ?thesis
    using ingest_layers [OF assms(2,6) run, of dest] r ingest_rec_claims [of now dest a old]
      ingest_rec_route(1) [OF assms(8,9), of now dest old] ingest_rec_route(2) [OF assms(7), of now dest old]
    by (simp add: we)
qed

theorem ingest_stores_witness:
  "\<exists>r. dir_lookup (rdir_ingest 100 sample_dest1 sample_announce 3 sample_rdir) sample_dest1 = Some r \<and>
    d_last_heard r = 100 \<and> has_route r"
proof -
  have "s_ready sample_rdir" "s_dir sample_rdir \<noteq> []" by (simp_all add: sample_rdir_def)
  moreover have "(3 :: u8) AND 1 \<noteq> 0" by simp
  moreover have "a_pubkey sample_announce = Some (zeros 64)" "a_received_from sample_announce = Some (zeros 16)"
    "a_iface_hash sample_announce = Some (zeros 16)" by (simp_all add: sample_announce_def)
  ultimately show ?thesis
    using ingest_stores [OF sample_store_inv _ _ sample_announce_ok sample_dest1_len] by blast
qed

text \<open>Two more destinations, and a store whose two slots are both taken.\<close>

definition sample_dest2 :: bytes where
  "sample_dest2 = [5, 6, 7, 8] @ zeros 12"

definition sample_dest3 :: bytes where
  "sample_dest3 = [9, 9, 9, 9] @ zeros 12"

definition sample_churn :: announce where
  "sample_churn = sample_announce \<lparr> a_answer_for := False, a_received_from := None, a_raw := None \<rparr>"

definition sample_full :: rdir where
  "sample_full = rdir_ingest 90 sample_dest2 sample_churn 1
     (rdir_ingest 100 sample_dest1 sample_announce 3 sample_rdir)"

lemma sample_dests_len: "length sample_dest2 = 16" "length sample_dest3 = 16"
  by (simp_all add: sample_dest2_def sample_dest3_def)

lemma sample_churn_ok: "ann_ok sample_churn"
  using sample_announce_ok by (simp add: ann_ok_def sample_churn_def)

lemma sample_full_inv: "store_inv sample_full" "s_ready sample_full"
proof -
  have 1: "store_inv (rdir_ingest 100 sample_dest1 sample_announce 3 sample_rdir)"
      "same_shape sample_rdir (rdir_ingest 100 sample_dest1 sample_announce 3 sample_rdir)"
    using rdir_ingest_inv [OF sample_store_inv sample_announce_ok sample_dest1_len] by simp_all
  from rdir_ingest_inv [OF 1(1) sample_churn_ok sample_dests_len(1)]
  have "store_inv sample_full" "same_shape (rdir_ingest 100 sample_dest1 sample_announce 3 sample_rdir) sample_full"
    by (simp_all add: sample_full_def)
  with 1(2) show "store_inv sample_full" "s_ready sample_full"
    by (simp_all add: same_shape_def sample_rdir_def)
qed

text \<open>an announce displaces nothing but the record the store values least. A destination other than
  the announced one keeps its record, unless the announced one was not held, every slot was taken, and
  the destination is the one whose record has the least rank of the pool.\<close>

theorem ingest_displaces_least:
  assumes "store_inv st" "s_ready st" "ann_ok a" "length dest = 16" "d \<noteq> dest"
    and "dir_lookup (rdir_ingest now dest a layers st) d \<noteq> dir_lookup st d"
  shows "\<exists>v. is_victim now st v \<and> d = d_dest (s_dir st ! v) \<and> dir_find st dest = None \<and>
    (\<forall>r \<in> set (s_dir st). dir_used r)"
proof -
  have l: "layers AND 1 \<noteq> 0"
  proof (rule ccontr)
    assume "\<not> layers AND 1 \<noteq> 0"
    then have "dir_lookup (rdir_ingest now dest a layers st) d = dir_lookup st d"
      using assms(2) ingest_blob_lookup by (auto simp: rdir_ingest_def split: option.splits)
    with assms(6) show False by simp
  qed
  obtain st1 where run: "ingest_dir now dest a st = Some st1"
    using assms(2,6) l by (cases "ingest_dir now dest a st") (auto simp: rdir_ingest_def)
  have ne: "dir_lookup st1 d \<noteq> dir_lookup st d"
    using assms(6) ingest_layers [OF assms(2) l run] by simp
  show ?thesis
  proof (cases "dir_find st dest")
    case (Some i)
    have "dir_lookup (write_rec i (ingest_rec now dest a) st) d = dir_lookup st d"
      by (rule lookup_other) (use slot_find_SomeD [OF Some] assms(5) in auto)
    with ne run Some show ?thesis by (simp add: ingest_dir_def)
  next
    case None
    then obtain i st2 where al: "dir_alloc now st = Some (i, st2)"
        and st1: "st1 = write_rec i (ingest_rec now dest a \<circ> rec_clear) st2"
      using run by (auto simp: ingest_dir_def split: option.splits)
    note f = dir_alloc_facts [OF assms(1) al]
    have "dir_lookup st1 d = dir_lookup st2 d"
      unfolding st1 by (rule lookup_other) (use f assms(5) in auto)
    with ne have ne2: "dir_lookup st2 d \<noteq> dir_lookup st d" by simp
    show ?thesis
      using al
    proof (cases rule: dir_alloc_Some)
      case free
      with ne2 show ?thesis by simp
    next
      case evict
      from lookup_evict [OF assms(1) evict(2) ne2] None evict(1) show ?thesis
        by (auto simp: slot_free_None)
    qed
  qed
qed

theorem ingest_displaces_least_witness:
  "\<exists>v. is_victim 110 sample_full v \<and> sample_dest2 = d_dest (s_dir sample_full ! v)"
proof -
  have "dir_lookup (rdir_ingest 110 sample_dest3 sample_churn 1 sample_full) sample_dest2 \<noteq>
      dir_lookup sample_full sample_dest2" by code_simp
  from ingest_displaces_least [OF sample_full_inv sample_churn_ok sample_dests_len(2) _ this]
  show ?thesis by (auto simp: sample_dest2_def sample_dest3_def)
qed

lemma victim_least_category:
  assumes "is_victim now st v" and "j < length (s_dir st)" "dir_used (s_dir st ! j)"
  shows "dir_category (s_dir st ! v) now \<le> dir_category (s_dir st ! j) now"
proof -
  have "rank_at now (s_dir st ! v) v \<le> rank_at now (s_dir st ! j) j"
    using assms by (simp add: is_victim_def)
  then show ?thesis
    by (auto simp: rank_at_def less_eq_rank_def rank_less_def split: if_splits)
qed

text \<open>C24: announce churn cannot evict what the node answers for. While the pool holds any record of a
  lower eviction category, the record of a destination with a custody obligation or a persistent claim
  survives every announce of another destination, unchanged.\<close>

theorem churn_spares_custody:
  assumes "store_inv st" "s_ready st" "ann_ok a" "length dest = 16" "d \<noteq> dest"
    and "dir_lookup st d = Some r" and "d_claims r AND ANSWER_FOR \<noteq> 0"
    and "dir_lookup st d' = Some r'" and "dir_category r' now < CAT_PERSIST"
  shows "dir_lookup (rdir_ingest now dest a layers st) d = Some r"
proof (rule ccontr)
  assume "dir_lookup (rdir_ingest now dest a layers st) d \<noteq> Some r"
  then have "dir_lookup (rdir_ingest now dest a layers st) d \<noteq> dir_lookup st d" using assms(6) by simp
  from ingest_displaces_least [OF assms(1-5) this] obtain v where v: "is_victim now st v" "d = d_dest (s_dir st ! v)"
    by blast
  have u: "uniq dir_used d_dest (s_dir st)" using assms(1) by (simp add: store_inv_def)
  have vv: "v < length (s_dir st)" "dir_used (s_dir st ! v)" using v(1) by (simp_all add: is_victim_def)
  from slot_find_uniq [OF u vv v(2) [symmetric]] assms(2,6) have r: "r = s_dir st ! v"
    by (simp add: dir_lookup_def)
  obtain j where j: "dir_find st d' = Some j" "r' = s_dir st ! j"
    using assms(2,8) by (auto simp: dir_lookup_def)
  have "rec_inv r" using assms(1) vv(1) r by (simp add: store_inv_def)
  then have "d_prio r = CAT_PERSIST"
    using assms(7) vv(2) r by (simp add: rec_inv_def dir_static_prio_def)
  then have "CAT_PERSIST \<le> dir_category r now" by (simp add: dir_category_def Let_def)
  moreover have "dir_category r now \<le> dir_category r' now"
    using victim_least_category [OF v(1) slot_find_SomeD(1,2) [OF j(1)]] r j(2) by simp
  ultimately show False using assms(9) by simp
qed

theorem churn_spares_custody_witness:
  "dir_lookup (rdir_ingest 110 sample_dest3 sample_churn 1 sample_full) sample_dest1 =
     Some (the (dir_lookup sample_full sample_dest1))"
proof -
  let ?r = "the (dir_lookup sample_full sample_dest1)" and ?r' = "the (dir_lookup sample_full sample_dest2)"
  have 1: "dir_lookup sample_full sample_dest1 = Some ?r" and 2: "d_claims ?r AND ANSWER_FOR \<noteq> 0"
    and 3: "dir_lookup sample_full sample_dest2 = Some ?r'" and 4: "dir_category ?r' 110 < CAT_PERSIST"
    by (code_simp, code_simp, code_simp, code_simp)
  have ne: "sample_dest1 \<noteq> sample_dest3" by (simp add: sample_dest1_def sample_dest3_def)
  show ?thesis
    by (rule churn_spares_custody [OF sample_full_inv sample_churn_ok sample_dests_len(2) ne 1 2 3 4])
qed

section \<open>Eviction to a target\<close>

text \<open>The counting contract of an eviction step, and what the loop makes of it.\<close>

locale evictor =
  fixes evict :: "rdir \<Rightarrow> rdir option" and used_n :: "rdir \<Rightarrow> nat" and inv :: "rdir \<Rightarrow> bool"
  assumes evict_None: "evict s = None \<longleftrightarrow> used_n s = 0"
    and evict_Some: "inv s \<Longrightarrow> evict s = Some s' \<Longrightarrow> Suc (used_n s') = used_n s \<and> inv s'"
begin

lemma loop_count:
  "inv s \<Longrightarrow> n = used_n s \<Longrightarrow> used_n (evict_loop evict t n s) = min t n \<and> inv (evict_loop evict t n s)"
proof (induction n arbitrary: s)
  case 0
  then show ?case by (simp add: evict_loop.simps)
next
  case (Suc n)
  then obtain s' where s': "evict s = Some s'" using evict_None [of s] by (cases "evict s") auto
  have eq: "evict_loop evict t (Suc n) s = (if Suc n > t then evict_loop evict t n s' else s)"
    using s' by (simp add: evict_loop.simps [of _ _ "Suc n"])
  have "inv s'" "n = used_n s'" using evict_Some [OF Suc.prems(1) s'] Suc.prems(2) by simp_all
  from Suc.IH [OF this] Suc.prems show ?case
    unfolding eq by (auto simp: min_def)
qed

end

interpretation ed: evictor "evict_one_dir now" dir_used_n store_inv for now
proof
  show "evict_one_dir now s = None \<longleftrightarrow> dir_used_n s = 0" for s by (rule evict_one_dir_None)
  show "Suc (dir_used_n s') = dir_used_n s \<and> store_inv s'"
    if "store_inv s" "evict_one_dir now s = Some s'" for s s'
    using evict_one_dir_find [OF that] evict_one_dir_inv [OF that] by metis
qed

interpretation eb: evictor "evict_one_blob now" blob_used_n store_inv for now
proof
  show "evict_one_blob now s = None \<longleftrightarrow> blob_used_n s = 0" for s by (rule evict_one_blob_None)
  show "Suc (blob_used_n s') = blob_used_n s \<and> store_inv s'"
    if inv: "store_inv s" and ev: "evict_one_blob now s = Some s'" for s s'
  proof -
    obtain v where v: "v < length (s_blob s)" "blob_used (s_blob s ! v)"
        "s_blob s' = (s_blob s)[v := blob_zero (unat (s_blob_slot_sz s))]" "store_inv s'"
      using evict_one_blob_Some [OF ev] inv by metis
    with blobs.count_wipe [OF v(1,2)] show ?thesis by (simp add: blob_used_n_def)
  qed
qed

text \<open>The records an eviction loop leaves are the ones of greatest rank.\<close>

lemma evict_dirs_keep_best:
  "store_inv st \<Longrightarrow> n = dir_used_n st \<Longrightarrow>
   (let st' = evict_loop (evict_one_dir now) t n st in
    length (s_dir st') = length (s_dir st) \<and>
    (\<forall>i < length (s_dir st). dir_used (s_dir st' ! i) \<longrightarrow> s_dir st' ! i = s_dir st ! i) \<and>
    (\<forall>i < length (s_dir st). \<forall>j < length (s_dir st).
       dir_used (s_dir st' ! i) \<longrightarrow> dir_used (s_dir st ! j) \<longrightarrow> \<not> dir_used (s_dir st' ! j) \<longrightarrow>
       rank_at now (s_dir st ! j) j < rank_at now (s_dir st ! i) i))"
proof (induction n arbitrary: st)
  case 0
  then show ?case by (simp add: evict_loop.simps)
next
  case (Suc n)
  show ?case
  proof (cases "Suc n > t")
    case False
    then show ?thesis by (simp add: evict_loop.simps [of _ _ "Suc n"])
  next
    case True
    obtain s1 where s1: "evict_one_dir now st = Some s1"
      using Suc.prems(2) evict_one_dir_None [of now st] by (cases "evict_one_dir now st") auto
    obtain v where v: "is_victim now st v" "\<And>i. i \<noteq> v \<Longrightarrow> s_dir s1 ! i = s_dir st ! i"
        "\<not> dir_used (s_dir s1 ! v)" "Suc (dir_used_n s1) = dir_used_n st" "same_shape st s1"
      using evict_one_dir_find [OF Suc.prems(1) s1] by metis
    have len: "length (s_dir s1) = length (s_dir st)" using v(5) by (simp add: same_shape_def)
    let ?st' = "evict_loop (evict_one_dir now) t n s1"
    have eq: "evict_loop (evict_one_dir now) t (Suc n) st = ?st'"
      using True s1 by (simp add: evict_loop.simps [of _ _ "Suc n"])
    have n1: "n = dir_used_n s1" using v(4) Suc.prems(2) by simp
    note ih = Suc.IH [OF evict_one_dir_inv [OF Suc.prems(1) s1] n1, unfolded Let_def]
    have IH: "length (s_dir ?st') = length (s_dir s1)"
      "\<And>i. i < length (s_dir s1) \<Longrightarrow> dir_used (s_dir ?st' ! i) \<Longrightarrow> s_dir ?st' ! i = s_dir s1 ! i"
      "\<And>i j. i < length (s_dir s1) \<Longrightarrow> j < length (s_dir s1) \<Longrightarrow> dir_used (s_dir ?st' ! i) \<Longrightarrow>
         dir_used (s_dir s1 ! j) \<Longrightarrow> \<not> dir_used (s_dir ?st' ! j) \<Longrightarrow>
         rank_at now (s_dir s1 ! j) j < rank_at now (s_dir s1 ! i) i"
      using ih by blast+
    have nv: "i \<noteq> v" if "i < length (s_dir st)" "dir_used (s_dir ?st' ! i)" for i
      using IH(2) [of i] that len v(3) by auto
    have "rank_at now (s_dir st ! j) j < rank_at now (s_dir st ! i) i"
      if ij: "i < length (s_dir st)" "j < length (s_dir st)" "dir_used (s_dir ?st' ! i)"
        "dir_used (s_dir st ! j)" "\<not> dir_used (s_dir ?st' ! j)" for i j
    proof (cases "j = v")
      case True
      have used: "dir_used (s_dir st ! i)" using IH(2) [of i] ij nv len v(2) by simp
      have "rank_at now (s_dir st ! v) v \<le> rank_at now (s_dir st ! i) i"
        using v(1) ij(1) used by (simp add: is_victim_def)
      moreover have "rank_at now (s_dir st ! v) v \<noteq> rank_at now (s_dir st ! i) i"
        using nv [OF ij(1,3)] by (auto simp: rank_at_def)
      ultimately show ?thesis using True by simp
    next
      case False
      then show ?thesis using IH(3) [of i j] ij nv [OF ij(1,3)] len v(2) by simp
    qed
    moreover have "s_dir ?st' ! i = s_dir st ! i" if "i < length (s_dir st)" "dir_used (s_dir ?st' ! i)" for i
      using IH(2) [of i] that nv len v(2) by simp
    ultimately show ?thesis
      unfolding eq using IH(1) len by (simp add: Let_def)
  qed
qed

text \<open>C33: evicting to a target ends with exactly that many records (fewer if fewer were held) and at most
  the blob target of blobs, and it is a cut: the surviving records are untouched, and every record that
  went ranks strictly below every record that stayed.\<close>

theorem evict_to_cuts:
  assumes "store_inv st" "s_ready st" "st' = rdir_evict_to now dt bt st"
  shows "dir_used_n st' = min dt (dir_used_n st) \<and> blob_used_n st' \<le> bt \<and>
    (\<forall>i < length (s_dir st). dir_used (s_dir st' ! i) \<longrightarrow> s_dir st' ! i = s_dir st ! i) \<and>
    (\<forall>i < length (s_dir st). \<forall>j < length (s_dir st).
       dir_used (s_dir st' ! i) \<longrightarrow> dir_used (s_dir st ! j) \<longrightarrow> \<not> dir_used (s_dir st' ! j) \<longrightarrow>
       rank_at now (s_dir st ! j) j < rank_at now (s_dir st ! i) i)"
proof -
  let ?st1 = "evict_loop (evict_one_dir now) dt (dir_used_n st) st"
  let ?st2 = "evict_loop (evict_one_blob now) bt (blob_used_n ?st1) ?st1"
  have st': "st' = ?st2" using assms(2,3) by (simp add: rdir_evict_to_def Let_def)
  have dirs: "s_dir (evict_loop (evict_one_blob now) bt n s) = s_dir s" for n s
  proof (induction n arbitrary: s)
    case (Suc n)
    show ?case
    proof (cases "evict_one_blob now s")
      case (Some s')
      have "s_dir s' = s_dir s" using evict_one_blob_Some [OF Some] by metis
      with Suc.IH Some show ?thesis by (simp add: evict_loop.simps [of _ _ "Suc n"])
    qed (simp add: evict_loop.simps [of _ _ "Suc n"])
  qed (simp add: evict_loop.simps)
  note d = ed.loop_count [OF assms(1) refl, where now = now and t = dt]
  note b = eb.loop_count [OF d [THEN conjunct2] refl, where now = now and t = bt]
  note best = evict_dirs_keep_best [OF assms(1) refl, where now = now and t = dt, unfolded Let_def]
  have same: "s_dir st' = s_dir ?st1" by (simp add: st' dirs)
  have "dir_used_n st' = min dt (dir_used_n st)" using d by (simp add: dir_used_n_def same)
  moreover have "blob_used_n st' \<le> bt" using b by (simp add: st')
  ultimately show ?thesis using best unfolding same by blast
qed

theorem evict_to_cuts_witness:
  "dir_used_n (rdir_evict_to 110 1 0 sample_full) = min 1 (dir_used_n sample_full)"
  using evict_to_cuts [OF sample_full_inv refl, of 110 1 0] by simp

section \<open>Claims\<close>

lemma claim_bit_iff: "bit (claim_bit c) n \<longleftrightarrow> n = unat c \<and> n < 32"
  by (auto simp: claim_bit_def bit_simps)

text \<open>Dropping a claim clears the three bits of its consumer and no other, whatever the mask.\<close>

lemma drop_claims:
  "d_claims (drop_rec c r) = d_claims r AND NOT (claim_bit c OR push_bit 8 (claim_bit c) OR push_bit 16 (claim_bit c))"
  by (simp add: drop_rec_def Let_def set_prio_def)

text \<open>the claims of two consumers do not interfere. After one consumer dropped its claim, the three
  claim bits of every other consumer, and the custody bit, are what they were.\<close>

theorem drop_keeps_others:
  assumes "c < 8" "c' < 8" "c \<noteq> c'"
  shows "\<forall>k \<in> {unat c', 8 + unat c', 16 + unat c', 24}. bit (d_claims (drop_rec c r)) k = bit (d_claims r) k"
proof -
  have n: "unat c < 8" "unat c' < 8" "unat c \<noteq> unat c'"
    using assms by (simp_all add: word_less_nat_alt word_unat_eq_iff)
  have "bit (d_claims (drop_rec c r)) k = bit (d_claims r) k"
    if "k < 32" "k \<noteq> unat c" "k \<noteq> 8 + unat c" "k \<noteq> 16 + unat c" for k
    using that by (auto simp: drop_claims bit_simps claim_bit_iff)
  then show ?thesis using n by auto
qed

theorem drop_keeps_others_witness:
  "bit (d_claims (drop_rec 2 (dir_zero \<lparr> d_claims := 0x1000505 \<rparr>))) 8"
proof -
  have "(2 :: u8) < 8" "(0 :: u8) < 8" "(2 :: u8) \<noteq> 0" by simp_all
  from drop_keeps_others [OF this, of "dir_zero \<lparr> d_claims := 0x1000505 \<rparr>"]
  have "bit (d_claims (drop_rec 2 (dir_zero \<lparr> d_claims := 0x1000505 \<rparr>))) 8 = bit (0x1000505 :: u32) 8"
    by (simp add: dir_zero_def)
  then show ?thesis by simp
qed

lemma and_range_zero:
  "(x :: u32) AND push_bit m (mask n) = 0 \<longleftrightarrow> (\<forall>k. m \<le> k \<and> k < m + n \<longrightarrow> \<not> bit x k)"
proof
  assume "x AND push_bit m (mask n) = 0"
  then have z: "\<not> bit (x AND push_bit m (mask n)) k" for k by simp
  show "\<forall>k. m \<le> k \<and> k < m + n \<longrightarrow> \<not> bit x k"
  proof (intro allI impI)
    fix k assume "m \<le> k \<and> k < m + n"
    with z [of k] show "\<not> bit x k"
      by (auto simp: bit_simps dest: bit_imp_le_length)
  qed
next
  assume "\<forall>k. m \<le> k \<and> k < m + n \<longrightarrow> \<not> bit x k"
  then show "x AND push_bit m (mask n) = 0"
    by (intro bit_word_eqI) (auto simp: bit_simps)
qed

text \<open>a claim with the default decay does not extend one with a short decay. On a record that carries a
  claim with a decay of \<open>s\<close> seconds, below the default of a day, an ephemeral claim that asks for the
  default leaves the record lapsed \<open>s\<close> seconds after it was made, although the default alone would keep
  it for a day.\<close>

theorem default_decay_is_lost:
  assumes "c_decay_s c = 0" "c_klass c = 0" "c_consumer c < 8" "d_claim_decay r \<noteq> 0"
    and "d_claims r AND PERSIST_MASK = 0" "d_claims r AND ANSWER_FOR = 0" "d_last_used r = 0"
    and "now' - now > d_claim_decay r"
  shows "dir_category (claim_rec now c r) now' = CAT_EPH_LAPSED"
proof -
  let ?b = "claim_bit (c_consumer c)"
  let ?r = "claim_rec now c r"
  have n: "unat (c_consumer c) < 8" using assms(3) by (simp add: word_less_nat_alt)
  define cl where "cl = (d_claims r OR ?b) AND NOT (push_bit 8 ?b)"
  have claims: "d_claims ?r = (if c_layers c AND 2 \<noteq> 0 then cl OR push_bit 16 ?b else cl AND NOT (push_bit 16 ?b))"
    using assms(2) by (simp add: claim_rec_def Let_def set_prio_def cl_def)
  note zero = and_range_zero [of _ 8 8] and_range_zero [of _ 24 1] and_range_zero [of _ 0 8]
  have masks: "PRESENT_MASK = push_bit 0 (mask 8)" "PERSIST_MASK = push_bit 8 (mask 8)"
    "ANSWER_FOR = push_bit 24 (mask 1)"
    by (simp_all add: mask_eq_exp_minus_1 push_bit_eq_mult)
  have old: "\<not> bit (d_claims r) k" if "8 \<le> k \<and> k < 16 \<or> k = 24" for k
    using assms(5,6) that unfolding masks zero by auto
  have bits: "bit (d_claims ?r) k \<longleftrightarrow> bit (d_claims r) k \<or> k = unat (c_consumer c)"
    if "k < 8" for k
    using that n by (auto simp: claims cl_def bit_simps claim_bit_iff)
  have none: "\<not> bit (d_claims ?r) k" if "8 \<le> k \<and> k < 16 \<or> k = 24" for k
    using old [OF that] that n by (auto simp: claims cl_def bit_simps claim_bit_iff)
  have "d_claims ?r AND PERSIST_MASK = 0" "d_claims ?r AND ANSWER_FOR = 0"
    unfolding masks zero using none by auto
  moreover have "d_claims ?r AND PRESENT_MASK \<noteq> 0"
    unfolding masks zero using bits [OF n] n by auto
  ultimately have "dir_static_prio ?r = CAT_EPH_LIVE" by (simp add: dir_static_prio_def)
  then have "d_prio ?r = CAT_EPH_LIVE" by simp
  moreover have "d_claim_decay ?r = d_claim_decay r" "d_claim_touch ?r = now" "d_last_used ?r = 0"
    using assms(1,7) by (simp_all add: claim_rec_def Let_def set_prio_def)
  ultimately show ?thesis using assms(4,8) by (simp add: dir_category_def)
qed

theorem default_decay_is_lost_witness:
  "dir_category (claim_rec 1000 \<lparr> c_consumer = 1, c_klass = 0, c_layers = 1, c_decay_s = 0 \<rparr>
     (claim_rec 1000 \<lparr> c_consumer = 0, c_klass = 0, c_layers = 1, c_decay_s = 60 \<rparr> dir_zero)) 1061 =
   CAT_EPH_LAPSED"
proof -
  let ?c = "\<lparr> c_consumer = 1, c_klass = 0, c_layers = 1, c_decay_s = 0 \<rparr>"
  let ?r = "claim_rec 1000 \<lparr> c_consumer = 0, c_klass = 0, c_layers = 1, c_decay_s = 60 \<rparr> dir_zero"
  have "d_claim_decay ?r \<noteq> 0" "d_claims ?r AND PERSIST_MASK = 0" "d_claims ?r AND ANSWER_FOR = 0"
    "d_last_used ?r = 0" "(1061 :: u32) - 1000 > d_claim_decay ?r"
    by (code_simp, code_simp, code_simp, code_simp, code_simp)
  from default_decay_is_lost [of ?c ?r 1061 1000, OF _ _ _ this] show ?thesis by simp
qed

end
