(* ===== verification/DirSnapshot.thy ===== *)
theory DirSnapshot
  imports DirProps
begin

text \<open>
  The order in which a snapshot writes the store (\<open>dirNextBelow\<close> and the two passes of
  \<open>rdirSnapshot\<close>). The walk by successive maxima, which keeps no visited set, is shown to be the
  descending sort of the ranks, cut where the buffer ends, and that cut to be the one an eviction to
  the same number of records makes.
\<close>

section \<open>The walk\<close>

fun next_below :: "u32 \<Rightarrow> rank option \<Rightarrow> dir_rec list \<Rightarrow> nat \<Rightarrow> rank option \<Rightarrow> rank option" where
  "next_below now hi [] i out = out"
| "next_below now hi (r # rs) i out = next_below now hi rs (Suc i)
    (if \<not> dir_used r then out
     else let k = rank_at now r i in
       if (case hi of None \<Rightarrow> False | Some h \<Rightarrow> \<not> rank_less k h) then out
       else if (case out of None \<Rightarrow> False | Some b \<Rightarrow> \<not> rank_less b k) then out
       else Some k)"

definition dir_next_below :: "u32 \<Rightarrow> rank option \<Rightarrow> rdir \<Rightarrow> rank option" where
  "dir_next_below now hi st = next_below now hi (s_dir st) 0 None"

text \<open>Pass 1: the slots written, best first, while a record fits below \<open>cap\<close>.\<close>

function snap_dirs :: "u32 \<Rightarrow> nat \<Rightarrow> rdir \<Rightarrow> rank option \<Rightarrow> nat \<Rightarrow> nat list" where
  "snap_dirs now cap st k pos =
    (case k of
       None \<Rightarrow> []
     | Some k \<Rightarrow>
        if pos + 160 \<le> cap
        then r_slot k # snap_dirs now cap st (dir_next_below now (Some k) st) (pos + 160)
        else [])"
  by pat_completeness auto

termination
  by (relation "measure (\<lambda>(now, cap, st, k, pos). cap - pos)") auto

declare snap_dirs.simps [simp del]

text \<open>Pass 2: the blob slots of the records written, in the same order, while one fits.\<close>

fun snap_blobs :: "nat \<Rightarrow> rdir \<Rightarrow> bytes list \<Rightarrow> nat \<Rightarrow> nat list" where
  "snap_blobs cap st [] pos = []"
| "snap_blobs cap st (d # ds) pos =
    (if pos + unat (s_blob_slot_sz st) \<le> cap
     then (case blob_find st d of
             None \<Rightarrow> snap_blobs cap st ds pos
           | Some j \<Rightarrow> j # snap_blobs cap st ds (pos + unat (s_blob_slot_sz st)))
     else [])"

definition snap_order :: "u32 \<Rightarrow> nat \<Rightarrow> rdir \<Rightarrow> nat list" where
  "snap_order now cap st = snap_dirs now cap st (dir_next_below now None st) 16"

section \<open>The walk is a sort\<close>

definition ranks :: "u32 \<Rightarrow> rdir \<Rightarrow> rank set" where
  "ranks now st = {rank_at now (s_dir st ! i) i | i. i < length (s_dir st) \<and> dir_used (s_dir st ! i)}"

definition below :: "rank option \<Rightarrow> rank set \<Rightarrow> rank set" where
  "below hi S = (case hi of None \<Rightarrow> S | Some h \<Rightarrow> {k \<in> S. k < h})"

lemma finite_ranks [simp]: "finite (ranks now st)"
proof -
  have "ranks now st \<subseteq> (\<lambda>i. rank_at now (s_dir st ! i) i) ` {..<length (s_dir st)}"
    by (auto simp: ranks_def)
  then show ?thesis by (rule finite_subset) simp
qed

lemma below_finite [simp]: "finite (below hi (ranks now st))"
  by (simp add: below_def split: option.splits)

lemma inj_slot: "inj_on r_slot (ranks now st)"
  by (auto simp: inj_on_def ranks_def)

lemma card_ranks: "card (ranks now st) = dir_used_n st"
proof -
  have "ranks now st = (\<lambda>i. rank_at now (s_dir st ! i) i) ` {i. i < length (s_dir st) \<and> dir_used (s_dir st ! i)}"
    by (auto simp: ranks_def)
  moreover have "inj_on (\<lambda>i. rank_at now (s_dir st ! i) i) A" for A
    by (auto simp: inj_on_def rank_at_def)
  ultimately show ?thesis
    by (simp add: card_image dir_used_n_def count_if_def length_filter_conv_card)
qed

text \<open>What the scan has found after the first \<open>i\<close> slots.\<close>

definition best_upto :: "rank set \<Rightarrow> rank option" where
  "best_upto S = (if S = {} then None else Some (Max S))"

definition ranks_upto :: "u32 \<Rightarrow> rank option \<Rightarrow> dir_rec list \<Rightarrow> nat \<Rightarrow> rank set" where
  "ranks_upto now hi xs i = below hi {rank_at now (xs ! j) j | j. j < i \<and> dir_used (xs ! j)}"

lemma ranks_upto_finite [simp]: "finite (ranks_upto now hi xs i)"
proof -
  have "ranks_upto now hi xs i \<subseteq> (\<lambda>j. rank_at now (xs ! j) j) ` {..<i}"
    by (auto simp: ranks_upto_def below_def split: option.splits)
  then show ?thesis by (rule finite_subset) simp
qed

lemma ranks_upto_Suc:
  "ranks_upto now hi xs (Suc i) = ranks_upto now hi xs i \<union>
     below hi (if dir_used (xs ! i) then {rank_at now (xs ! i) i} else {})"
  by (auto simp: ranks_upto_def below_def less_Suc_eq split: option.splits)

lemma best_insert:
  "finite S \<Longrightarrow> best_upto (insert k S) =
    (case best_upto S of None \<Rightarrow> Some k | Some b \<Rightarrow> if b < k then Some k else Some b)"
  by (auto simp: best_upto_def max_def not_less le_less
      simp del: Max_less_iff Max_le_iff Max_ge_iff Max_gr_iff)

lemma next_below_best:
  "i \<le> length xs \<Longrightarrow> out = best_upto (ranks_upto now hi xs i) \<Longrightarrow>
   next_below now hi (drop i xs) i out = best_upto (ranks_upto now hi xs (length xs))"
proof (induction "length xs - i" arbitrary: i out)
  case 0
  then show ?case by simp
next
  case (Suc m)
  then have i: "i < length xs" by simp
  then have d: "drop i xs = xs ! i # drop (Suc i) xs" by (simp add: Cons_nth_drop_Suc)
  let ?k = "rank_at now (xs ! i) i"
  let ?out = "if \<not> dir_used (xs ! i) then out
     else let k = ?k in
       if (case hi of None \<Rightarrow> False | Some h \<Rightarrow> \<not> rank_less k h) then out
       else if (case out of None \<Rightarrow> False | Some b \<Rightarrow> \<not> rank_less b k) then out
       else Some k"
  have "?out = best_upto (ranks_upto now hi xs (Suc i))"
  proof (cases "dir_used (xs ! i) \<and> (case hi of None \<Rightarrow> True | Some h \<Rightarrow> ?k < h)")
    case True
    then have "ranks_upto now hi xs (Suc i) = insert ?k (ranks_upto now hi xs i)"
      by (auto simp: ranks_upto_Suc below_def split: option.splits)
    with True Suc.prems(2) show ?thesis
      by (auto simp: best_insert less_rank_def split: option.splits)
  next
    case False
    then have "ranks_upto now hi xs (Suc i) = ranks_upto now hi xs i"
      by (auto simp: ranks_upto_Suc below_def split: option.splits)
    with False Suc.prems(2) show ?thesis
      by (auto simp: less_rank_def split: option.splits)
  qed
  with Suc.hyps(1) [of "Suc i" ?out] Suc.hyps(2) i d show ?case by simp
qed

lemma dir_next_below_best: "dir_next_below now hi st = best_upto (below hi (ranks now st))"
proof -
  have "ranks_upto now hi (s_dir st) 0 = {}" by (auto simp: ranks_upto_def below_def split: option.splits)
  then have "next_below now hi (drop 0 (s_dir st)) 0 None =
      best_upto (ranks_upto now hi (s_dir st) (length (s_dir st)))"
    by (intro next_below_best) (simp_all add: best_upto_def)
  then show ?thesis by (simp add: dir_next_below_def ranks_upto_def ranks_def)
qed

lemma sorted_rev_Max:
  assumes "finite (S :: 'a::linorder set)" "S \<noteq> {}"
  shows "rev (sorted_list_of_set S) = Max S # rev (sorted_list_of_set (S - {Max S}))"
proof -
  have "sorted_list_of_set S = sorted_list_of_set (S - {Max S}) @ [Max S]"
  proof (rule sorted_distinct_set_unique)
    show "sorted (sorted_list_of_set (S - {Max S}) @ [Max S])"
      using assms by (auto simp: sorted_append)
    show "set (sorted_list_of_set S) = set (sorted_list_of_set (S - {Max S}) @ [Max S])"
      using assms Max_in by auto
  qed (use assms in simp_all)
  then show ?thesis by simp
qed

lemma below_Max:
  assumes "below hi S \<noteq> {}" "finite (below hi S)"
  shows "below (Some (Max (below hi S))) S = below hi S - {Max (below hi S)}"
proof -
  let ?M = "Max (below hi S)"
  have le: "k \<le> ?M" if "k \<in> below hi S" for k using assms that by simp
  have M: "?M \<in> below hi S" using assms by simp
  have "k \<in> below hi S" if "k \<in> S" "k < ?M" for k
    using M that by (auto simp: below_def split: option.splits)
  then show ?thesis using le by (force simp: below_def split: option.splits)
qed

lemma snap_dirs_sorted:
  "snap_dirs now cap st (best_upto (below hi (ranks now st))) pos =
   map r_slot (take ((cap - pos) div 160) (rev (sorted_list_of_set (below hi (ranks now st)))))"
proof (induction "cap - pos" arbitrary: hi pos rule: less_induct)
  case less
  let ?S = "below hi (ranks now st)"
  show ?case
  proof (cases "?S = {} \<or> \<not> pos + 160 \<le> cap")
    case True
    then show ?thesis
      by (auto simp: snap_dirs.simps [of _ _ _ _ pos] best_upto_def)
  next
    case False
    let ?M = "Max ?S"
    have b: "best_upto ?S = Some ?M" using False by (simp add: best_upto_def)
    have next': "dir_next_below now (Some ?M) st = best_upto (below (Some ?M) (ranks now st))"
      by (rule dir_next_below_best)
    have IH: "snap_dirs now cap st (best_upto (below (Some ?M) (ranks now st))) (pos + 160) =
      map r_slot (take ((cap - (pos + 160)) div 160) (rev (sorted_list_of_set (?S - {?M}))))"
    proof -
      have "cap - (pos + 160) < cap - pos" using False by linarith
      from less.hyps [OF this, of "Some ?M"] False below_Max [of hi "ranks now st"] show ?thesis by simp
    qed
    have "(cap - pos) div 160 = Suc ((cap - (pos + 160)) div 160)"
    proof -
      have eq: "x = y + 160 \<Longrightarrow> x div 160 = Suc (y div 160)" for x y :: nat by simp
      show ?thesis by (rule eq) (use False in linarith)
    qed
    moreover have "rev (sorted_list_of_set ?S) = ?M # rev (sorted_list_of_set (?S - {?M}))"
      using False by (intro sorted_rev_Max) simp_all
    moreover have "snap_dirs now cap st (best_upto ?S) pos = r_slot ?M # snap_dirs now cap st (best_upto (below (Some ?M) (ranks now st))) (pos + 160)"
      unfolding b by (subst snap_dirs.simps) (use False next' in simp)
    ultimately show ?thesis unfolding IH by (simp only: take_Suc_Cons list.map)
  qed
qed

lemma snap_order_sorted:
  "snap_order now cap st =
   map r_slot (take ((cap - 16) div 160) (rev (sorted_list_of_set (ranks now st))))"
  using snap_dirs_sorted [of now cap st None 16]
  by (simp add: snap_order_def dir_next_below_best below_def)

text \<open>a snapshot writes the records in descending rank, the most valuable first, and a buffer too
  short for all of them keeps exactly the first ones that fit: the walk by successive maxima is the
  descending sort of the ranks, truncated.\<close>

theorem snapshot_walk_is_sort:
  "snap_order now cap st =
   map r_slot (take ((cap - 16) div 160) (rev (sorted_list_of_set (ranks now st))))"
  by (rule snap_order_sorted)

lemma snap_slots_used:
  "i \<in> set (snap_order now cap st) \<Longrightarrow> i < length (s_dir st) \<and> dir_used (s_dir st ! i)"
  by (auto simp: snap_order_sorted ranks_def dest!: in_set_takeD)

text \<open>C23: what a snapshot keeps is what an eviction would keep. The slots written into a buffer with room
  for \<open>m\<close> records are exactly the slots still used after evicting to \<open>m\<close> records at the same time.\<close>

theorem snapshot_is_eviction_cut:
  assumes "store_inv st" "s_ready st"
  shows "set (snap_order now cap st) =
    {i. i < length (s_dir st) \<and> dir_used (s_dir (rdir_evict_to now ((cap - 16) div 160) bt st) ! i)}"
proof -
  let ?m = "(cap - 16) div 160"
  let ?st' = "rdir_evict_to now ?m bt st"
  let ?R = "ranks now st"
  define K where "K = set (take ?m (rev (sorted_list_of_set ?R)))"
  define T where "T = (\<lambda>i. rank_at now (s_dir st ! i) i) ` {i. i < length (s_dir st) \<and> dir_used (s_dir ?st' ! i)}"
  note cut = evict_to_cuts [OF assms refl, of now ?m bt]
  have len: "length (s_dir ?st') = length (s_dir st)"
    using rdir_evict_to_inv [OF assms(1), of now ?m bt] by (simp add: same_shape_def)
  have TR: "T \<subseteq> ?R" using cut by (auto simp: T_def ranks_def) metis
  have inj: "inj_on (\<lambda>i. rank_at now (s_dir st ! i) i) A" for A by (auto simp: inj_on_def rank_at_def)
  have cT: "card T = min ?m (card ?R)"
  proof -
    have "card T = dir_used_n ?st'"
      unfolding T_def card_image [OF inj] using len
      by (simp add: dir_used_n_def count_if_def length_filter_conv_card)
    with cut show ?thesis by (simp add: card_ranks)
  qed
  have cK: "card K = min ?m (card ?R)"
    by (simp add: K_def distinct_card card_ranks min.commute)
  have top: "x < y" if xy: "y \<in> T" "x \<in> ?R - T" for x y
  proof -
    obtain i where i: "i < length (s_dir st)" "dir_used (s_dir ?st' ! i)" "y = rank_at now (s_dir st ! i) i"
      using xy(1) by (auto simp: T_def)
    obtain j where j: "j < length (s_dir st)" "dir_used (s_dir st ! j)" "x = rank_at now (s_dir st ! j) j"
      using xy(2) by (auto simp: ranks_def)
    have "\<not> dir_used (s_dir ?st' ! j)" using xy(2) j by (auto simp: T_def)
    with cut i j show ?thesis by blast
  qed
  have topK: "x < y" if xy: "y \<in> K" "x \<in> ?R - K" for x y
  proof -
    let ?L = "rev (sorted_list_of_set ?R)"
    have "x \<in> set (drop ?m ?L)"
    proof -
      have "x \<in> set (take ?m ?L @ drop ?m ?L)" using xy(2) by simp
      with xy(2) show ?thesis unfolding set_append K_def by blast
    qed
    then obtain b where b: "?m + b < length ?L" "x = ?L ! (?m + b)"
      by (auto simp: in_set_conv_nth less_diff_conv add.commute)
    obtain a where a: "a < ?m" "a < length ?L" "y = ?L ! a"
      using xy(1) by (auto simp: K_def in_set_conv_nth)
    have sd: "sorted_wrt (<) (sorted_list_of_set ?R)" by simp
    have "sorted_wrt (>) ?L" using sd by (simp add: sorted_wrt_rev)
    then show ?thesis using a b sorted_wrt_nth_less [of "(>)" ?L a "?m + b"] by simp
  qed
  have KR: "K \<subseteq> ?R" by (auto simp: K_def dest: in_set_takeD)
  have "K = T"
  proof (rule ccontr)
    assume ne: "K \<noteq> T"
    have fin: "finite K" "finite T" by (simp_all add: finite_subset [OF KR] finite_subset [OF TR])
    have "\<not> K \<subseteq> T" using card_subset_eq [OF fin(2)] cK cT ne by auto
    then obtain x where x: "x \<in> K" "x \<notin> T" by blast
    have "\<not> T \<subseteq> K" using card_subset_eq [OF fin(1)] cK cT ne by auto
    then obtain y where y: "y \<in> T" "y \<notin> K" by blast
    from top [of y x] topK [of x y] x y KR TR show False by force
  qed
  moreover have "set (snap_order now cap st) = r_slot ` K"
    by (simp add: snap_order_sorted K_def)
  moreover have "r_slot ` T = {i. i < length (s_dir st) \<and> dir_used (s_dir ?st' ! i)}"
    by (force simp: T_def)
  ultimately show ?thesis by simp
qed

theorem snapshot_is_eviction_cut_witness:
  "set (snap_order 110 176 sample_full) =
    {i. i < length (s_dir sample_full) \<and> dir_used (s_dir (rdir_evict_to 110 1 0 sample_full) ! i)}"
  using snapshot_is_eviction_cut [OF sample_full_inv, of 110 176 0] by simp

end
