(* ===== verification/DirImage.thy ===== *)
theory DirImage
  imports DirSnapshot
begin

text \<open>
  The raw image of the store: the packed layout of a record and of a blob slot (little-endian, the
  byte order of the target), \<open>rdirSnapshot\<close>, \<open>imageLoad\<close> on the bytes of the arena, and
  \<open>rdirInit\<close> with the sizing functions. The loader's slide to the back of the arena is a sequence of
  overlapping moves; it is shown never to read what it has overwritten.
\<close>

section \<open>Packed layouts\<close>

definition le_bytes :: "nat \<Rightarrow> 'a::len word \<Rightarrow> bytes" where
  "le_bytes k v = rev (be_bytes k v)"

definition le_word :: "bytes \<Rightarrow> 'a::len word" where
  "le_word bs = be_word (rev bs)"

lemma length_le_bytes [simp]: "length (le_bytes k v) = k"
  by (simp add: le_bytes_def)

lemma le_word_le_bytes [simp]:
  fixes v :: "'a::len word"
  assumes "8 \<le> LENGTH('a)" and "LENGTH('a) \<le> k * 8"
  shows "le_word (le_bytes k v) = v"
  using assms by (simp add: le_word_def le_bytes_def)

fun split_lens :: "nat list \<Rightarrow> 'a list \<Rightarrow> 'a list list" where
  "split_lens [] bs = []"
| "split_lens (n # ns) bs = take n bs # split_lens ns (drop n bs)"

lemma split_lens_concat: "map length fs = ns \<Longrightarrow> split_lens ns (concat fs @ rest) = fs"
  by (induction ns arbitrary: fs) auto

definition rec_layout :: "nat list" where
  "rec_layout = [16, 64, 10, 4, 1, 1, 4, 16, 16, 4, 4, 4, 2, 1, 1, 4, 4, 4]"

definition rec_fields :: "dir_rec \<Rightarrow> bytes list" where
  "rec_fields r = [d_dest r, d_pubkey r, d_name_hash r, le_bytes 4 (d_last_heard r), [d_hops r],
     [d_flags r], le_bytes 4 (d_claims r), d_received_from r, d_iface_hash r, le_bytes 4 (d_expires r),
     le_bytes 4 (d_last_used r), le_bytes 4 (d_timestamp r), le_bytes 2 (d_seq r), [d_prio r],
     [d_pad r], le_bytes 4 (d_claim_touch r), le_bytes 4 (d_claim_decay r), le_bytes 4 (d_last_alive r)]"

definition rec_bytes :: "dir_rec \<Rightarrow> bytes" where
  "rec_bytes r = concat (rec_fields r)"

definition bytes_rec :: "bytes \<Rightarrow> dir_rec" where
  "bytes_rec bs =
    (let f = (\<lambda>k. split_lens rec_layout bs ! k) in
     \<lparr> d_dest = f 0, d_pubkey = f 1, d_name_hash = f 2, d_last_heard = le_word (f 3),
       d_hops = hd (f 4), d_flags = hd (f 5), d_claims = le_word (f 6), d_received_from = f 7,
       d_iface_hash = f 8, d_expires = le_word (f 9), d_last_used = le_word (f 10),
       d_timestamp = le_word (f 11), d_seq = le_word (f 12), d_prio = hd (f 13), d_pad = hd (f 14),
       d_claim_touch = le_word (f 15), d_claim_decay = le_word (f 16), d_last_alive = le_word (f 17) \<rparr>)"

lemma rec_fields_lens: "dir_ok r \<Longrightarrow> map length (rec_fields r) = rec_layout"
  by (simp add: rec_fields_def rec_layout_def dir_ok_def)

lemma length_rec_bytes: "dir_ok r \<Longrightarrow> length (rec_bytes r) = 160"
  by (simp add: rec_bytes_def rec_fields_def dir_ok_def)

lemma bytes_rec_bytes:
  assumes "dir_ok r"
  shows "bytes_rec (rec_bytes r) = r"
proof -
  have s: "split_lens rec_layout (rec_bytes r) = rec_fields r"
    using split_lens_concat [OF rec_fields_lens [OF assms], of "[]"] by (simp add: rec_bytes_def)
  show ?thesis
    by (simp add: bytes_rec_def s rec_fields_def)
qed

definition blob_bytes :: "blob_rec \<Rightarrow> bytes" where
  "blob_bytes b = concat [b_dest b, le_bytes 2 (b_len b), le_bytes 2 (b_flags b), b_raw b]"

definition bytes_blob :: "nat \<Rightarrow> bytes \<Rightarrow> blob_rec" where
  "bytes_blob sz bs =
    (let f = (\<lambda>k. split_lens [16, 2, 2, sz - 20] bs ! k) in
     \<lparr> b_dest = f 0, b_len = le_word (f 1), b_flags = le_word (f 2), b_raw = f 3 \<rparr>)"

lemma length_blob_bytes: "blob_ok sz b \<Longrightarrow> 20 \<le> sz \<Longrightarrow> length (blob_bytes b) = sz"
  by (simp add: blob_bytes_def blob_ok_def)

lemma bytes_blob_bytes:
  assumes "blob_ok sz b"
  shows "bytes_blob sz (blob_bytes b) = b"
proof -
  have "map length [b_dest b, le_bytes 2 (b_len b), le_bytes 2 (b_flags b), b_raw b] = [16, 2, 2, sz - 20]"
    using assms by (simp add: blob_ok_def)
  from split_lens_concat [OF this, of "[]"]
  have "split_lens [16, 2, 2, sz - 20] (blob_bytes b) =
      [b_dest b, le_bytes 2 (b_len b), le_bytes 2 (b_flags b), b_raw b]"
    by (simp add: blob_bytes_def)
  then show ?thesis by (simp add: bytes_blob_def)
qed

section \<open>Snapshot\<close>

text \<open>The header after its magic: version 2, feature 1, and the sizes and counts.\<close>

definition img_header :: "u16 \<Rightarrow> u16 \<Rightarrow> u16 \<Rightarrow> bytes" where
  "img_header n_dir sz n_blob = [0x52, 0x44, 0x49, 0x52] @ le_bytes 2 (2 :: u16) @ le_bytes 2 (1 :: u16) @
     le_bytes 2 (160 :: u16) @ le_bytes 2 n_dir @ le_bytes 2 sz @ le_bytes 2 n_blob"

lemma length_img_header [simp]: "length (img_header a b c) = 16"
  by (simp add: img_header_def)

definition rdir_snapshot :: "u32 \<Rightarrow> nat \<Rightarrow> rdir \<Rightarrow> bytes \<times> rdir" where
  "rdir_snapshot now cap st =
    (if \<not> s_ready st \<or> cap < 16 then ([], st)
     else let slots = snap_order now cap st;
              n_dir = (of_nat (length slots) :: u16);
              recs = map (\<lambda>i. s_dir st ! i) slots;
              bslots = snap_blobs cap st (map d_dest recs) (16 + 160 * length slots);
              n_blob = (of_nat (length bslots) :: u16)
          in (img_header n_dir (s_blob_slot_sz st) n_blob @ concat (map rec_bytes recs) @
                concat (map (\<lambda>j. blob_bytes (s_blob st ! j)) bslots),
              upd_stats (\<lambda>s. s \<lparr> snapshots := snapshots s + 1 \<rparr>) st))"

section \<open>Loading into the arena\<close>

text \<open>\<open>memmove\<close> and \<open>memset\<close> within the arena: a move reads its source before it writes.\<close>

definition blit :: "nat \<Rightarrow> bytes \<Rightarrow> bytes \<Rightarrow> bytes" where
  "blit off src a = take off a @ src @ drop (off + length src) a"

definition slice :: "nat \<Rightarrow> nat \<Rightarrow> bytes \<Rightarrow> bytes" where
  "slice off n a = take n (drop off a)"

definition mem_move :: "nat \<Rightarrow> nat \<Rightarrow> nat \<Rightarrow> bytes \<Rightarrow> bytes" where
  "mem_move dst src n a = blit dst (slice src n a) a"

definition mem_zero :: "nat \<Rightarrow> nat \<Rightarrow> bytes \<Rightarrow> bytes" where
  "mem_zero off n a = blit off (zeros n) a"

record img_hdr =
  h_magic :: bytes
  h_format :: u16
  h_feature :: u16
  h_dir_slot_sz :: u16
  h_dir_count :: u16
  h_blob_slot_sz :: u16
  h_blob_count :: u16

definition parse_hdr :: "bytes \<Rightarrow> img_hdr" where
  "parse_hdr a =
    (let f = (\<lambda>k. split_lens [4, 2, 2, 2, 2, 2, 2] a ! k) in
     \<lparr> h_magic = f 0, h_format = le_word (f 1), h_feature = le_word (f 2), h_dir_slot_sz = le_word (f 3),
       h_dir_count = le_word (f 4), h_blob_slot_sz = le_word (f 5), h_blob_count = le_word (f 6) \<rparr>)"

text \<open>
  The pool sizes in slots and the blob slot size give the section sizes; \<open>arena\<close> has the image in its
  first \<open>len\<close> bytes. \<open>None\<close> is every early return of the loader.
\<close>

definition image_load :: "nat \<Rightarrow> nat \<Rightarrow> nat \<Rightarrow> u16 \<Rightarrow> nat \<Rightarrow> bytes \<Rightarrow> bytes option" where
  "image_load gslots dslots bslots bsz len arena =
    (let gb = gslots * 28; db = dslots * 160; bb = bslots * unat bsz;
         alloc = gb + db + bb + 16; hdr = parse_hdr arena;
         d_disk = unat (h_dir_count hdr) * 160; b_disk = unat (h_blob_count hdr) * unat bsz;
         expect = 16 + d_disk + b_disk; tail = alloc - expect; src = tail + 16
     in if len < 16 then None
        else if h_magic hdr \<noteq> [0x52, 0x44, 0x49, 0x52] then None
        else if h_format hdr \<noteq> 2 then None
        else if h_dir_slot_sz hdr \<noteq> 160 \<or> h_blob_slot_sz hdr \<noteq> bsz then None
        else if unat (h_dir_count hdr) > dslots \<or> unat (h_blob_count hdr) > bslots then None
        else if len < expect then None
        else
         (let arena = mem_move tail 0 expect arena;
              arena = mem_zero 0 gb arena;
              arena = mem_move gb src d_disk arena;
              arena = mem_zero (gb + d_disk) (db - d_disk) arena;
              src = src + d_disk;
              arena = mem_move (gb + db) src b_disk arena
          in Some (mem_zero (gb + db + b_disk) (bb - b_disk) arena)))"

text \<open>The pools as records: slot \<open>i\<close> of a section of slots of size \<open>sz\<close>.\<close>

definition chunks :: "nat \<Rightarrow> nat \<Rightarrow> bytes \<Rightarrow> bytes list" where
  "chunks sz n bs = map (\<lambda>i. slice (i * sz) sz bs) [0..<n]"

section \<open>Sizing and initialisation\<close>

definition rdir_set_blob_slot_size :: "nat \<Rightarrow> rdir \<Rightarrow> rdir" where
  "rdir_set_blob_slot_size n st =
    (if s_ready st then st
     else let n = (if n < 84 then 84 else n); n = (if n > 2048 then 2048 else n)
          in st \<lparr> s_blob_slot_sz := of_nat ((n + 3) div 4 * 4) \<rparr>)"

definition rdir_set_blob_units :: "u8 \<Rightarrow> rdir \<Rightarrow> rdir" where
  "rdir_set_blob_units units st =
    (if s_ready st then st
     else let units = (if units < 1 then 1 else units); units = (if units > 4 then 4 else units)
          in st \<lparr> s_blob_units := units \<rparr>)"

definition rdir_budget_unit :: "rdir \<Rightarrow> nat" where
  "rdir_budget_unit st = 8 * 28 + 4 * 160 + unat (s_blob_units st) * unat (s_blob_slot_sz st)"

definition rdir_arena_bytes :: "rdir \<Rightarrow> nat" where
  "rdir_arena_bytes st = length (s_guard st) * 28 + length (s_dir st) * 160 +
     length (s_blob st) * unat (s_blob_slot_sz st)"

text \<open>
  The platform's hooks: \<open>alloc\<close> says whether the arena is given, \<open>persisted\<close> is the stored image, if the
  load hook is set and reports one; it fits the buffer it is read into.
\<close>

definition init_units :: "nat \<Rightarrow> rdir \<Rightarrow> nat" where
  "init_units byte_budget st =
    (let units = byte_budget div rdir_budget_unit st; units = (if units < 4 then 4 else units)
     in if units > 2048 then 2048 else units)"

text \<open>The pools over the arena: as loaded, or zeroed.\<close>

definition init_pools :: "nat \<Rightarrow> nat \<Rightarrow> nat \<Rightarrow> bytes option \<Rightarrow> rdir \<Rightarrow> rdir" where
  "init_pools gslots dslots bslots arena st =
    (let sz = unat (s_blob_slot_sz st); st = st \<lparr> s_ready := True, s_guard := replicate gslots guard_zero \<rparr> in
     case arena of
       None \<Rightarrow> st \<lparr> s_dir := replicate dslots dir_zero, s_blob := replicate bslots (blob_zero sz) \<rparr>
     | Some a \<Rightarrow> st \<lparr>
         s_dir := map (\<lambda>c. (bytes_rec c) \<lparr> d_seq := d_seq (bytes_rec c) AND NOT 1 \<rparr>)
           (chunks 160 dslots (drop (gslots * 28) a)),
         s_blob := map (bytes_blob sz) (chunks sz bslots (drop (gslots * 28 + dslots * 160) a)) \<rparr>)"

definition rdir_init :: "(nat \<Rightarrow> bool) \<Rightarrow> bytes option \<Rightarrow> nat \<Rightarrow> rdir \<Rightarrow> bool \<times> rdir" where
  "rdir_init alloc persisted byte_budget st =
    (if s_ready st then (True, st)
     else let units = init_units byte_budget st; st = st \<lparr> s_stats := stats_zero \<rparr>;
              gslots = unat (of_nat (units * 8) :: u16); dslots = unat (of_nat (units * 4) :: u16);
              bslots = unat (of_nat (units * unat (s_blob_units st)) :: u16);
              total = gslots * 28 + dslots * 160 + bslots * unat (s_blob_slot_sz st) + 16
          in if \<not> alloc total then (False, st \<lparr> s_guard := [], s_dir := [], s_blob := [] \<rparr>)
             else (True, init_pools gslots dslots bslots
               (case persisted of None \<Rightarrow> None
                | Some img \<Rightarrow> image_load gslots dslots bslots (s_blob_slot_sz st) (length img)
                    (img @ zeros (total - length img))) st))"

section \<open>The loader does not overwrite what it has yet to read\<close>

lemma length_blit: "off + length src \<le> length a \<Longrightarrow> length (blit off src a) = length a"
  by (simp add: blit_def)

lemma nth_blit:
  "off + length src \<le> length a \<Longrightarrow> i < length a \<Longrightarrow>
   blit off src a ! i = (if off \<le> i \<and> i < off + length src then src ! (i - off) else a ! i)"
  by (auto simp: blit_def nth_append)

lemma length_slice: "off + n \<le> length a \<Longrightarrow> length (slice off n a) = n"
  by (simp add: slice_def)

lemma nth_slice: "off + n \<le> length a \<Longrightarrow> i < n \<Longrightarrow> slice off n a ! i = a ! (off + i)"
  by (simp add: slice_def)

lemma length_move: "src + n \<le> length a \<Longrightarrow> dst + n \<le> length a \<Longrightarrow> length (mem_move dst src n a) = length a"
  by (simp add: mem_move_def length_blit length_slice)

lemma nth_move:
  "src + n \<le> length a \<Longrightarrow> dst + n \<le> length a \<Longrightarrow> i < length a \<Longrightarrow>
   mem_move dst src n a ! i = (if dst \<le> i \<and> i < dst + n then a ! (src + (i - dst)) else a ! i)"
  by (auto simp: mem_move_def nth_blit length_slice nth_slice)

lemma length_zero: "off + n \<le> length a \<Longrightarrow> length (mem_zero off n a) = length a"
  by (simp add: mem_zero_def length_blit)

lemma nth_zero:
  "off + n \<le> length a \<Longrightarrow> i < length a \<Longrightarrow>
   mem_zero off n a ! i = (if off \<le> i \<and> i < off + n then 0 else a ! i)"
  by (auto simp: mem_zero_def nth_blit zeros_def)

text \<open>The six moves of the loader, as a function of the section sizes.\<close>

lemma load_moves:
  fixes a :: bytes
  assumes len: "length a = gb + db + bb + 16" and d: "d \<le> db" and b: "b \<le> bb"
  defines "tail \<equiv> gb + db + bb + 16 - (16 + d + b)"
  defines "a1 \<equiv> mem_move tail 0 (16 + d + b) a"
  defines "a2 \<equiv> mem_zero 0 gb a1"
  defines "a3 \<equiv> mem_move gb (tail + 16) d a2"
  defines "a4 \<equiv> mem_zero (gb + d) (db - d) a3"
  defines "a5 \<equiv> mem_move (gb + db) (tail + 16 + d) b a4"
  defines "a6 \<equiv> mem_zero (gb + db + b) (bb - b) a5"
  shows "\<exists>rest. length rest = 16 \<and>
    a6 = zeros gb @ slice 16 d a @ zeros (db - d) @ slice (16 + d) b a @ zeros (bb - b) @ rest"
proof -
  obtain e where e: "db = d + e" using d by (metis le_Suc_ex)
  have tail: "tail = gb + (db - d) + (bb - b)" using d b by (simp add: tail_def)
  have l1: "length a1 = length a" unfolding a1_def by (rule length_move) (use len d b tail in simp_all)
  have l2: "length a2 = length a" unfolding a2_def using l1 len by (simp add: length_zero)
  have l3: "length a3 = length a" unfolding a3_def
    using l2 len d b tail by (simp add: length_move)
  have l4: "length a4 = length a" unfolding a4_def using l3 len d by (simp add: length_zero)
  have l5: "length a5 = length a" unfolding a5_def
    using l4 len d b tail by (simp add: length_move)
  have l6: "length a6 = length a" unfolding a6_def using l5 len b by (simp add: length_zero)
  have n1: "a1 ! i = (if tail \<le> i \<and> i < tail + (16 + d + b) then a ! (i - tail) else a ! i)" if "i < length a" for i
    unfolding a1_def using that len d b tail by (subst nth_move) simp_all
  have n2: "a2 ! i = (if i < gb then 0 else a1 ! i)" if "i < length a" for i
    unfolding a2_def using that len l1 by (subst nth_zero) simp_all
  have n3: "a3 ! i = (if gb \<le> i \<and> i < gb + d then a2 ! (tail + 16 + (i - gb)) else a2 ! i)"
    if "i < length a" for i
    unfolding a3_def using that len l2 d b tail by (subst nth_move) simp_all
  have n4: "a4 ! i = (if gb + d \<le> i \<and> i < gb + db then 0 else a3 ! i)" if "i < length a" for i
    unfolding a4_def using that len l3 d by (subst nth_zero) simp_all
  have n5: "a5 ! i = (if gb + db \<le> i \<and> i < gb + db + b then a4 ! (tail + 16 + d + (i - (gb + db))) else a4 ! i)"
    if "i < length a" for i
    unfolding a5_def using that len l4 d b tail by (subst nth_move) simp_all
  have n6: "a6 ! i = (if gb + db + b \<le> i \<and> i < gb + db + bb then 0 else a5 ! i)" if "i < length a" for i
    unfolding a6_def using that len l5 b by (subst nth_zero) simp_all
  let ?rest = "drop (gb + db + bb) a6"
  have "a6 = zeros gb @ slice 16 d a @ zeros (db - d) @ slice (16 + d) b a @ zeros (bb - b) @ ?rest"
    (is "_ = ?x")
  proof (rule nth_equalityI)
    show len6: "length a6 = length ?x"
      using l6 len d b by (simp add: length_slice)
    fix i
    assume "i < length a6"
    then have i: "i < length a" by (simp add: l6)
    have ls: "length (slice 16 d a) = d" "length (slice (16 + d) b a) = b"
      using len d b by (simp_all add: length_slice)
    consider "i < gb" | "gb \<le> i" "i < gb + d" | "gb + d \<le> i" "i < gb + db"
      | "gb + db \<le> i" "i < gb + db + b" | "gb + db + b \<le> i" "i < gb + db + bb" | "gb + db + bb \<le> i"
      by linarith
    then show "a6 ! i = ?x ! i"
    proof cases
      case 1
      then show ?thesis using i d b
        by (simp add: n6 n5 n4 n3 n2 nth_append) (simp add: zeros_def)
    next
      case 2
      have k: "tail + 16 + (i - gb) < length a" "\<not> tail + 16 + (i - gb) < gb"
        using 2 len tail d b by simp_all
      have "a6 ! i = a2 ! (tail + 16 + (i - gb))" using 2 i d b by (simp add: n6 n5 n4 n3)
      also have "\<dots> = a ! (16 + (i - gb))" using 2 k tail by (simp add: n2 n1)
      finally show ?thesis
        using 2 ls len d b less_diff_conv2 [OF 2(1), of d] by (simp add: nth_append nth_slice ac_simps)
    next
      case 3
      obtain k where k: "i = gb + d + k" "k < db - d"
      proof -
        obtain k where k: "i = gb + d + k" using 3(1) by (metis le_Suc_ex)
        moreover have "k < db - d" using k 3(2) by linarith
        ultimately show thesis using that by blast
      qed
      then have "?x ! i = 0" using ls by (simp add: nth_append zeros_def)
      moreover have "a6 ! i = 0" using 3 i b by (simp add: n6 n5 n4)
      ultimately show ?thesis by simp
    next
      case 4
      let ?j = "tail + 16 + d + (i - (gb + db))"
      have k: "?j < length a" "gb + db \<le> ?j" using 4 len tail d b by simp_all
      have "a6 ! i = a4 ! ?j" using 4 i b by (simp add: n6 n5)
      also have "\<dots> = a1 ! ?j" using k d by (simp add: n4 n3 n2)
      also have "\<dots> = a ! (16 + d + (i - (gb + db)))"
      proof -
        have "tail \<le> ?j" "?j < tail + (16 + d + b)" "?j - tail = 16 + d + (i - (gb + db))"
          using 4 by linarith+
        then show ?thesis using n1 [OF k(1)] by (simp only: simp_thms if_True)
      qed
      finally have eq: "a6 ! i = a ! (16 + d + (i - (gb + db)))" .
      obtain m where m: "i = gb + db + m" "m < b"
        using 4 by (metis le_Suc_ex add_less_cancel_left)
      have "?x ! i = a ! (16 + d + m)"
        using m ls len b by (simp add: nth_append nth_slice e)
      then show ?thesis using eq m by simp
    next
      case 5
      obtain k where k: "i = gb + db + b + k" using 5(1) by (metis le_Suc_ex)
      then have "k < bb - b" using 5(2) by linarith
      then have "?x ! i = 0" using k ls by (simp add: nth_append zeros_def e)
      moreover have "a6 ! i = 0" using 5 i by (simp add: n6)
      ultimately show ?thesis by simp
    next
      case 6
      obtain k where k: "i = gb + db + bb + k" using 6 by (metis le_Suc_ex)
      obtain f where f: "bb = b + f" using b by (metis le_Suc_ex)
      show ?thesis using i k ls l6 len
        by (simp add: nth_append e f)
    qed
  qed
  moreover have "length ?rest = 16" using l6 len by simp
  ultimately show ?thesis by blast
qed

end
