(* ===== verification/DirRestore.thy ===== *)
theory DirRestore
  imports DirImage
begin

text \<open>
  Snapshot and load together: a store restored from its own image answers every lookup as before, on
  pools of any size that the image fits.
\<close>

section \<open>Sections of equal slots\<close>

lemma chunks_0 [simp]: "chunks sz 0 bs = []"
  by (simp add: chunks_def)

lemma chunks_Suc: "chunks sz (Suc n) bs = take sz bs # chunks sz n (drop sz bs)"
proof -
  have "[0..<Suc n] = 0 # map Suc [0..<n]" by (simp add: upt_conv_Cons map_Suc_upt)
  then show ?thesis by (simp add: chunks_def slice_def comp_def add.commute)
qed

lemma chunks_concat:
  "\<forall>x \<in> set xs. length x = sz \<Longrightarrow> chunks sz (length xs) (concat xs @ rest) = xs"
  by (induction xs) (simp_all add: chunks_Suc)

lemma length_concat_same: "\<forall>x \<in> set xs. length x = sz \<Longrightarrow> length (concat xs) = length xs * sz"
  by (induction xs) simp_all

lemma zeros_add: "zeros (m + n) = zeros m @ zeros n"
  by (simp add: zeros_def replicate_add)

lemma concat_zeros: "concat (replicate k (zeros sz)) = zeros (k * sz)"
proof (induction k)
  case (Suc k)
  then show ?case by (simp add: zeros_add)
qed (simp add: zeros_def)

lemma chunks_padded:
  assumes "\<forall>x \<in> set xs. length x = sz" and "length xs \<le> n"
  shows "chunks sz n (concat xs @ zeros (n * sz - length xs * sz) @ rest) =
    xs @ replicate (n - length xs) (zeros sz)"
proof -
  obtain k where n: "n = length xs + k" using assms(2) by (metis le_Suc_ex)
  let ?ys = "xs @ replicate k (zeros sz)"
  have "n * sz - length xs * sz = k * sz" by (simp add: n add_mult_distrib)
  then have "concat xs @ zeros (n * sz - length xs * sz) @ rest = concat ?ys @ rest"
    by (simp add: concat_zeros)
  moreover have "chunks sz (length ?ys) (concat ?ys @ rest) = ?ys"
    by (rule chunks_concat) (use assms(1) in auto)
  ultimately show ?thesis by (simp add: n)
qed

lemma bytes_rec_zeros: "bytes_rec (zeros 160) = dir_zero"
proof -
  have "rec_bytes dir_zero = zeros 160" by code_simp
  then show ?thesis using bytes_rec_bytes [OF dir_zero_ok] by simp
qed

lemma bytes_blob_zeros:
  assumes "20 \<le> sz"
  shows "bytes_blob sz (zeros sz) = blob_zero sz"
proof -
  have two: "le_bytes 2 (0 :: u16) = zeros 2" by code_simp
  obtain k where k: "sz = 20 + k" using assms by (metis le_Suc_ex)
  have "blob_bytes (blob_zero sz) = zeros 16 @ zeros 2 @ zeros 2 @ zeros (sz - 20)"
    by (simp add: blob_bytes_def blob_zero_def two)
  also have "\<dots> = zeros sz"
  proof -
    have "sz = 16 + (2 + (2 + k))" "sz - 20 = k" by (simp_all add: k)
    then show ?thesis by (simp only: zeros_add)
  qed
  finally show ?thesis using bytes_blob_bytes [OF blob_zero_ok, of sz] by simp
qed

section \<open>Lookups of a pool without duplicates\<close>

lemma lookup_iff:
  assumes "uniq used key xs"
  shows "map_option (\<lambda>i. xs ! i) (slot_find used key k xs) = Some r \<longleftrightarrow> r \<in> set xs \<and> used r \<and> key r = k"
    (is "?L \<longleftrightarrow> ?R")
proof
  assume ?L
  then obtain i where "slot_find used key k xs = Some i" "r = xs ! i" by auto
  with slot_find_SomeD [of used key k xs i] show ?R by auto
next
  assume ?R
  then obtain i where "i < length xs" "r = xs ! i" by (auto simp: in_set_conv_nth)
  with slot_find_uniq [OF assms, of i k] \<open>?R\<close> show ?L by auto
qed

lemma uniq_padded: "(\<And>z. z \<in> set zs \<Longrightarrow> \<not> used z) \<Longrightarrow> uniq used key (xs @ zs) = uniq used key xs"
  by (simp add: uniq_def filter_empty_conv)

lemma uniq_sub:
  assumes "uniq used key xs" and "distinct is" and "\<And>i. i \<in> set is \<Longrightarrow> i < length xs"
  shows "uniq used key (map (\<lambda>i. xs ! i) is)"
  unfolding uniq_nth
proof (intro allI impI)
  fix a b
  assume ab: "a < length (map (\<lambda>i. xs ! i) is)" "b < length (map (\<lambda>i. xs ! i) is)"
    "used (map (\<lambda>i. xs ! i) is ! a)" "used (map (\<lambda>i. xs ! i) is ! b)"
    "key (map (\<lambda>i. xs ! i) is ! a) = key (map (\<lambda>i. xs ! i) is ! b)"
  then have "is ! a = is ! b"
    using uniqD [OF assms(1), of "is ! a" "is ! b"] assms(3) by simp
  then show "a = b" using assms(2) ab(1,2) by (simp add: nth_eq_iff_index_eq)
qed

section \<open>What a snapshot contains\<close>

lemma snap_order_facts:
  shows "distinct (snap_order now cap st)" and "length (snap_order now cap st) \<le> dir_used_n st"
    and "16 + 160 * dir_used_n st \<le> cap \<Longrightarrow>
      set (snap_order now cap st) = {i. i < length (s_dir st) \<and> dir_used (s_dir st ! i)}"
proof -
  let ?L = "rev (sorted_list_of_set (ranks now st))"
  have "inj_on r_slot (set (take n ?L))" for n
    by (rule inj_on_subset [OF inj_slot]) (use set_take_subset in fastforce)
  then show "distinct (snap_order now cap st)"
    by (simp add: snap_order_sorted distinct_map)
  show "length (snap_order now cap st) \<le> dir_used_n st"
    by (simp add: snap_order_sorted card_ranks)
  assume "16 + 160 * dir_used_n st \<le> cap"
  then have "dir_used_n st \<le> (cap - 16) div 160" by simp
  then have "take ((cap - 16) div 160) ?L = ?L" by (simp add: card_ranks)
  then show "set (snap_order now cap st) = {i. i < length (s_dir st) \<and> dir_used (s_dir st ! i)}"
    by (force simp: snap_order_sorted ranks_def)
qed

lemma snap_blobs_used:
  "j \<in> set (snap_blobs cap st ds pos) \<Longrightarrow>
   j < length (s_blob st) \<and> blob_used (s_blob st ! j) \<and> b_dest (s_blob st ! j) \<in> set ds"
proof (induction ds arbitrary: pos)
  case (Cons d ds)
  then show ?case
    using slot_find_SomeD [of blob_used b_dest d "s_blob st"]
    by (auto split: if_splits option.splits)
qed simp

lemma snap_blobs_distinct: "distinct ds \<Longrightarrow> distinct (snap_blobs cap st ds pos)"
proof (induction ds arbitrary: pos)
  case (Cons d ds)
  have "k \<notin> set (snap_blobs cap st ds pos')" if "blob_find st d = Some k" for k pos'
    using snap_blobs_used [of k cap st ds pos'] slot_find_SomeD [OF that] Cons.prems by auto
  then show ?case using Cons by (auto split: option.splits)
qed simp

lemma distinct_used_le:
  assumes "distinct is" and "\<And>i. i \<in> set is \<Longrightarrow> i < length xs \<and> P (xs ! i)"
  shows "length is \<le> count_if P xs"
proof -
  have "set is \<subseteq> {i. i < length xs \<and> P (xs ! i)}" using assms(2) by auto
  from card_mono [OF _ this] show ?thesis
    using distinct_card [OF assms(1)] by (simp add: count_if_def length_filter_conv_card)
qed

lemma parse_img_header:
  "parse_hdr (img_header a b c @ rest) =
    \<lparr> h_magic = [0x52, 0x44, 0x49, 0x52], h_format = 2, h_feature = 1, h_dir_slot_sz = 160,
      h_dir_count = a, h_blob_slot_sz = b, h_blob_count = c \<rparr>"
proof -
  let ?fs = "[[0x52, 0x44, 0x49, 0x52], le_bytes 2 (2 :: u16), le_bytes 2 (1 :: u16), le_bytes 2 (160 :: u16),
    le_bytes 2 a, le_bytes 2 b, le_bytes 2 c]"
  have "map length ?fs = [4, 2, 2, 2, 2, 2, 2]" by simp
  from split_lens_concat [OF this, of rest] show ?thesis
    by (simp add: parse_hdr_def img_header_def)
qed

text \<open>
  Loading a snapshot: the image fits the pools of the loading store, which may be sized differently
  from those of the store that wrote it.
\<close>

lemma load_snapshot:
  assumes inv: "store_inv st" and recs: "recs = map (\<lambda>i. s_dir st ! i) slots"
    and slots: "\<And>i. i \<in> set slots \<Longrightarrow> i < length (s_dir st)"
    and bslots: "\<And>j. j \<in> set bls \<Longrightarrow> j < length (s_blob st)"
    and fit: "length slots \<le> dn" "length bls \<le> bn" "dn < 2 ^ 16" "bn < 2 ^ 16"
    and sz: "sz = unat (s_blob_slot_sz st)"
    and img: "img = img_header (of_nat (length slots)) (s_blob_slot_sz st) (of_nat (length bls)) @
      concat (map rec_bytes recs) @ concat (map (\<lambda>j. blob_bytes (s_blob st ! j)) bls)"
  shows "\<exists>a. image_load gn dn bn (s_blob_slot_sz st) (length img)
        (img @ zeros (gn * 28 + dn * 160 + bn * sz + 16 - length img)) = Some a \<and>
      map bytes_rec (chunks 160 dn (drop (gn * 28) a)) = recs @ replicate (dn - length slots) dir_zero \<and>
      map (bytes_blob sz) (chunks sz bn (drop (gn * 28 + dn * 160) a)) =
        map (\<lambda>j. s_blob st ! j) bls @ replicate (bn - length bls) (blob_zero sz)"
proof -
  let ?D = "concat (map rec_bytes recs)" and ?B = "concat (map (\<lambda>j. blob_bytes (s_blob st ! j)) bls)"
  let ?d = "length slots * 160" and ?b = "length bls * sz"
  let ?total = "gn * 28 + dn * 160 + bn * sz + 16"
  let ?a = "img @ zeros (?total - length img)"
  have dok: "dir_ok r" if "r \<in> set recs" for r
    using inv slots that by (auto simp: recs store_inv_def rec_inv_def)
  have bok: "blob_ok sz (s_blob st ! j)" if "j \<in> set bls" for j
    using inv bslots [OF that] by (simp add: store_inv_def slot_inv_def sz)
  have sz20: "20 \<le> sz" using inv by (simp add: store_inv_def sz)
  have rl: "\<forall>x \<in> set (map rec_bytes recs). length x = 160" using dok length_rec_bytes by auto
  have bl: "\<forall>x \<in> set (map (\<lambda>j. blob_bytes (s_blob st ! j)) bls). length x = sz"
    using bok length_blob_bytes sz20 by auto
  have lD: "length ?D = ?d" using length_concat_same [OF rl] by (simp add: recs)
  have lB: "length ?B = ?b" using length_concat_same [OF bl] by simp
  have limg: "length img = 16 + ?d + ?b" by (simp add: img lD lB)
  have le: "?d \<le> dn * 160" "?b \<le> bn * sz" using fit(1,2) by simp_all
  have la: "length ?a = ?total" unfolding length_append length_zeros limg using le by linarith
  have hdr: "parse_hdr ?a = \<lparr> h_magic = [0x52, 0x44, 0x49, 0x52], h_format = 2, h_feature = 1,
      h_dir_slot_sz = 160, h_dir_count = of_nat (length slots), h_blob_slot_sz = s_blob_slot_sz st,
      h_blob_count = of_nat (length bls) \<rparr>"
    unfolding img by (simp add: parse_img_header)
  have un: "unat (of_nat (length slots) :: u16) = length slots" "unat (of_nat (length bls) :: u16) = length bls"
    using fit by (simp_all add: of_nat_unat_less)
  have sD: "slice 16 ?d ?a = ?D" by (simp add: slice_def img lD)
  have sB: "slice (16 + ?d) ?b ?a = ?B"
    by (simp add: slice_def img lD lB drop_append)
  obtain a rest where rest: "length rest = 16"
    and a: "a = zeros (gn * 28) @ ?D @ zeros (dn * 160 - ?d) @ ?B @ zeros (bn * sz - ?b) @ rest"
    and load: "image_load gn dn bn (s_blob_slot_sz st) (length img) ?a = Some a"
  proof -
    obtain rest where r: "length rest = 16" and
      eq: "mem_zero (gn * 28 + dn * 160 + ?b) (bn * sz - ?b)
       (mem_move (gn * 28 + dn * 160) (?total - (16 + ?d + ?b) + 16 + ?d) ?b
       (mem_zero (gn * 28 + ?d) (dn * 160 - ?d)
       (mem_move (gn * 28) (?total - (16 + ?d + ?b) + 16) ?d
       (mem_zero 0 (gn * 28) (mem_move (?total - (16 + ?d + ?b)) 0 (16 + ?d + ?b) ?a)))))
       = zeros (gn * 28) @ ?D @ zeros (dn * 160 - ?d) @ ?B @ zeros (bn * sz - ?b) @ rest"
      using load_moves [OF la le] unfolding sD sB by blast
    have "image_load gn dn bn (s_blob_slot_sz st) (length img) ?a =
        Some (zeros (gn * 28) @ ?D @ zeros (dn * 160 - ?d) @ ?B @ zeros (bn * sz - ?b) @ rest)"
      unfolding image_load_def Let_def hdr img_hdr.simps un sz [symmetric] eq
      using fit(1,2) limg by simp
    with r that show thesis by blast
  qed
  have "chunks 160 dn (drop (gn * 28) a) = map rec_bytes recs @ replicate (dn - length slots) (zeros 160)"
    using chunks_padded [OF rl, of dn "?B @ zeros (bn * sz - ?b) @ rest"] fit(1) by (simp add: a recs)
  moreover have "map bytes_rec (map rec_bytes recs) = recs"
    using dok bytes_rec_bytes by (simp add: map_idI)
  moreover have "chunks sz bn (drop (gn * 28 + dn * 160) a) =
      map (\<lambda>j. blob_bytes (s_blob st ! j)) bls @ replicate (bn - length bls) (zeros sz)"
  proof -
    have "drop (gn * 28 + dn * 160) a = ?B @ zeros (bn * sz - ?b) @ rest"
      using le by (simp add: a lD)
    then show ?thesis using chunks_padded [OF bl, of bn rest] fit(2) by simp
  qed
  moreover have "map (bytes_blob sz) (map (\<lambda>j. blob_bytes (s_blob st ! j)) bls) = map (\<lambda>j. s_blob st ! j) bls"
    using bok bytes_blob_bytes by simp
  ultimately show ?thesis
    using load by (simp add: bytes_rec_zeros bytes_blob_zeros [OF sz20])
qed

section \<open>Restart\<close>

lemma snap_blobs_all:
  assumes "0 < unat (s_blob_slot_sz st)"
  shows "pos + unat (s_blob_slot_sz st) * length (filter (\<lambda>d. blob_find st d \<noteq> None) ds) \<le> cap \<Longrightarrow>
    snap_blobs cap st ds pos = List.map_filter (blob_find st) ds"
proof (induction ds arbitrary: pos)
  case (Cons d ds)
  show ?case
  proof (cases "blob_find st d")
    case (Some j)
    then show ?thesis
      using Cons.IH [of "pos + unat (s_blob_slot_sz st)"] Cons.prems
      by (simp add: map_filter_simps)
  next
    case None
    show ?thesis
    proof (cases "pos + unat (s_blob_slot_sz st) \<le> cap")
      case True
      with None Cons.IH [of pos] Cons.prems show ?thesis by (simp add: map_filter_simps)
    next
      case False
      have "filter (\<lambda>d. blob_find st d \<noteq> None) ds = []"
      proof (rule ccontr)
        assume "filter (\<lambda>d. blob_find st d \<noteq> None) ds \<noteq> []"
        then have "1 \<le> length (filter (\<lambda>d. blob_find st d \<noteq> None) ds)"
          by (metis One_nat_def Suc_leI length_greater_0_conv)
        then have "unat (s_blob_slot_sz st) * 1 \<le>
            unat (s_blob_slot_sz st) * length (filter (\<lambda>d. blob_find st d \<noteq> None) ds)"
          by (rule mult_le_mono2)
        moreover have eq: "filter (\<lambda>d. blob_find st d \<noteq> None) (d # ds) = filter (\<lambda>d. blob_find st d \<noteq> None) ds"
          using None by simp
        ultimately show False using False Cons.prems unfolding eq by linarith
      qed
      then have "List.map_filter (blob_find st) ds = []"
        by (simp add: List.map_filter_def)
      with None False show ?thesis by (simp add: map_filter_simps)
    qed
  qed
qed (simp add: map_filter_simps)

lemma blob_dests_le:
  assumes "0 < unat (s_blob_slot_sz st)" and "distinct ds"
  shows "length (filter (\<lambda>d. blob_find st d \<noteq> None) ds) \<le> blob_used_n st"
proof -
  let ?n = "length (filter (\<lambda>d. blob_find st d \<noteq> None) ds)"
  let ?l = "snap_blobs (unat (s_blob_slot_sz st) * ?n) st ds 0"
  have "?l = List.map_filter (blob_find st) ds" by (rule snap_blobs_all [OF assms(1)]) simp
  then have "length ?l = ?n" by (simp add: List.map_filter_def)
  moreover have "length ?l \<le> blob_used_n st"
    unfolding blob_used_n_def
    by (rule distinct_used_le [OF snap_blobs_distinct [OF assms(2)]]) (use snap_blobs_used in blast)
  ultimately show ?thesis by simp
qed

lemma copy_blob_lookup:
  "s_ready st \<Longrightarrow> rdir_copy_blob d n st =
    (case map_option (\<lambda>i. s_blob st ! i) (blob_find st d) of None \<Rightarrow> Inr []
     | Some b \<Rightarrow> if b_len b = 0 \<or> unat (b_len b) > n then Inr [] else rd_block (b_raw b) 0 (unat (b_len b)))"
  by (simp add: rdir_copy_blob_def Let_def split: option.splits)

lemma option_eqI: "(\<And>r. a = Some r \<longleftrightarrow> b = Some r) \<Longrightarrow> a = b"
  by (cases a; cases b) auto

text \<open>The two pools of a store restored from a complete snapshot.\<close>

lemma restored_pools:
  assumes inv: "store_inv st" and ready: "s_ready st"
    and cap: "16 + 160 * dir_used_n st + unat (s_blob_slot_sz st) * blob_used_n st \<le> cap"
    and fit: "dir_used_n st \<le> dn" "blob_used_n st \<le> bn" "dn < 2 ^ 16" "bn < 2 ^ 16"
    and sz: "sz = unat (s_blob_slot_sz st)"
  obtains a slots bls where
    "image_load gn dn bn (s_blob_slot_sz st) (length (fst (rdir_snapshot now cap st)))
        (fst (rdir_snapshot now cap st) @
         zeros (gn * 28 + dn * 160 + bn * sz + 16 - length (fst (rdir_snapshot now cap st)))) = Some a"
    and "map bytes_rec (chunks 160 dn (drop (gn * 28) a)) =
      map (\<lambda>i. s_dir st ! i) slots @ replicate (dn - length slots) dir_zero"
    and "map (bytes_blob sz) (chunks sz bn (drop (gn * 28 + dn * 160) a)) =
      map (\<lambda>j. s_blob st ! j) bls @ replicate (bn - length bls) (blob_zero sz)"
    and "distinct slots" and "set slots = {i. i < length (s_dir st) \<and> dir_used (s_dir st ! i)}"
    and "distinct bls" and "\<And>j. j \<in> set bls \<Longrightarrow> j < length (s_blob st) \<and> blob_used (s_blob st ! j)"
    and "\<And>i j. i \<in> set slots \<Longrightarrow> blob_find st (d_dest (s_dir st ! i)) = Some j \<Longrightarrow> j \<in> set bls"
proof -
  define slots where "slots = snap_order now cap st"
  define recs where "recs = map (\<lambda>i. s_dir st ! i) slots"
  define bls where "bls = snap_blobs cap st (map d_dest recs) (16 + 160 * length slots)"
  have sz0: "0 < unat (s_blob_slot_sz st)" using inv by (simp add: store_inv_def)
  have set_slots: "set slots = {i. i < length (s_dir st) \<and> dir_used (s_dir st ! i)}"
    unfolding slots_def by (rule snap_order_facts) (use cap in linarith)
  have dslots: "distinct slots" by (simp add: slots_def snap_order_facts)
  have u: "uniq dir_used d_dest recs"
    unfolding recs_def using inv dslots set_slots by (intro uniq_sub) (auto simp: store_inv_def)
  have "filter dir_used recs = recs"
    using set_slots by (simp add: recs_def filter_id_conv)
  then have dd: "distinct (map d_dest recs)" using u by (simp add: uniq_def)
  have lslots: "length slots \<le> dir_used_n st" by (simp add: slots_def snap_order_facts)
  have room: "16 + 160 * length slots + unat (s_blob_slot_sz st) *
      length (filter (\<lambda>d. blob_find st d \<noteq> None) (map d_dest recs)) \<le> cap"
    using cap lslots mult_le_mono2 [OF blob_dests_le [OF sz0 dd], of "unat (s_blob_slot_sz st)"] by linarith
  have bls: "bls = List.map_filter (blob_find st) (map d_dest recs)"
    unfolding bls_def by (rule snap_blobs_all [OF sz0 room])
  have used: "j < length (s_blob st) \<and> blob_used (s_blob st ! j)" if "j \<in> set bls" for j
    using that snap_blobs_used unfolding bls_def by blast
  have dbls: "distinct bls" unfolding bls_def by (rule snap_blobs_distinct [OF dd])
  have lbls: "length bls \<le> blob_used_n st"
    unfolding blob_used_n_def by (rule distinct_used_le [OF dbls used])
  have img: "fst (rdir_snapshot now cap st) =
      img_header (of_nat (length slots)) (s_blob_slot_sz st) (of_nat (length bls)) @
      concat (map rec_bytes recs) @ concat (map (\<lambda>j. blob_bytes (s_blob st ! j)) bls)"
    unfolding rdir_snapshot_def Let_def slots_def [symmetric] recs_def [symmetric] bls_def [symmetric]
    using ready cap by simp
  obtain a where a: "image_load gn dn bn (s_blob_slot_sz st) (length (fst (rdir_snapshot now cap st)))
        (fst (rdir_snapshot now cap st) @
         zeros (gn * 28 + dn * 160 + bn * sz + 16 - length (fst (rdir_snapshot now cap st)))) = Some a"
      "map bytes_rec (chunks 160 dn (drop (gn * 28) a)) = recs @ replicate (dn - length slots) dir_zero"
      "map (bytes_blob sz) (chunks sz bn (drop (gn * 28 + dn * 160) a)) =
        map (\<lambda>j. s_blob st ! j) bls @ replicate (bn - length bls) (blob_zero sz)"
    using load_snapshot [OF inv recs_def _ _ _ _ fit(3,4) sz img, of gn] set_slots used lslots lbls fit(1,2)
    by auto
  show thesis
  proof (rule that [OF a(1) a(2) [unfolded recs_def] a(3) dslots set_slots dbls used])
    fix i j
    assume "i \<in> set slots" "blob_find st (d_dest (s_dir st ! i)) = Some j"
    then show "j \<in> set bls"
      by (force simp: bls List.map_filter_def recs_def)
  qed auto
qed

lemma seq_even: "rec_inv r \<Longrightarrow> r \<lparr> d_seq := d_seq r AND - 2 \<rparr> = r"
proof -
  assume "rec_inv r"
  then have z: "\<not> bit (d_seq r) 0" by (simp add: rec_inv_def bit_0 and_one_eq odd_iff_mod_2_eq_one)
  have "d_seq r AND NOT 1 = d_seq r"
    by (rule bit_word_eqI) (use z in \<open>auto simp: bit_simps intro: gr0I\<close>)
  then show ?thesis by simp
qed

lemma rec_inv_zero: "rec_inv dir_zero"
  by (simp add: rec_inv_def) (simp add: dir_zero_def)

text \<open>C14: a restart loses nothing that the image held. A store initialised from a snapshot with room for
  everything, on pools that hold as many records and blobs (of the same slot size, whatever the budget),
  answers every directory lookup exactly as the store that wrote it, serves the same announce for every
  destination it knows, and satisfies the store invariant.\<close>

theorem restart_keeps_directory:
  assumes "store_inv st" "s_ready st"
    and "16 + 160 * dir_used_n st + unat (s_blob_slot_sz st) * blob_used_n st \<le> cap"
    and "\<not> s_ready st0" "s_blob_slot_sz st0 = s_blob_slot_sz st"
    and "rdir_init (\<lambda>n. True) (Some (fst (rdir_snapshot now cap st))) budget st0 = (True, st')"
    and "dir_used_n st \<le> length (s_dir st')" "blob_used_n st \<le> length (s_blob st')"
  shows "dir_lookup st' d = dir_lookup st d \<and>
    (dir_lookup st d \<noteq> None \<longrightarrow> rdir_copy_blob d n st' = rdir_copy_blob d n st) \<and> store_inv st'"
proof -
  let ?img = "fst (rdir_snapshot now cap st)"
  define gn where "gn = unat (of_nat (init_units budget st0 * 8) :: u16)"
  define dn where "dn = unat (of_nat (init_units budget st0 * 4) :: u16)"
  define bn where "bn = unat (of_nat (init_units budget st0 * unat (s_blob_units st0)) :: u16)"
  define sz where "sz = unat (s_blob_slot_sz st)"
  have lt: "dn < 2 ^ 16" "bn < 2 ^ 16" unfolding dn_def bn_def
    using unat_less [of "of_nat (init_units budget st0 * 4) :: u16"]
      unat_less [of "of_nat (init_units budget st0 * unat (s_blob_units st0)) :: u16"] by simp_all
  define arena where "arena = image_load gn dn bn (s_blob_slot_sz st) (length ?img)
      (?img @ zeros (gn * 28 + dn * 160 + bn * sz + 16 - length ?img))"
  have st': "st' = init_pools gn dn bn arena (st0 \<lparr> s_stats := stats_zero \<rparr>)"
    using assms(4-6)
    by (simp add: rdir_init_def Let_def gn_def dn_def bn_def sz_def arena_def)
  have len: "length (s_dir st') = dn" "length (s_blob st') = bn"
    by (simp_all add: st' init_pools_def Let_def chunks_def split: option.splits)
  obtain a slots bls where a: "arena = Some a"
    and D: "map bytes_rec (chunks 160 dn (drop (gn * 28) a)) =
      map (\<lambda>i. s_dir st ! i) slots @ replicate (dn - length slots) dir_zero"
    and B: "map (bytes_blob sz) (chunks sz bn (drop (gn * 28 + dn * 160) a)) =
      map (\<lambda>j. s_blob st ! j) bls @ replicate (bn - length bls) (blob_zero sz)"
    and slots: "distinct slots" "set slots = {i. i < length (s_dir st) \<and> dir_used (s_dir st ! i)}"
    and bls: "distinct bls" "\<And>j. j \<in> set bls \<Longrightarrow> j < length (s_blob st) \<and> blob_used (s_blob st ! j)"
      "\<And>i j. i \<in> set slots \<Longrightarrow> blob_find st (d_dest (s_dir st ! i)) = Some j \<Longrightarrow> j \<in> set bls"
    unfolding arena_def
    by (rule restored_pools [OF assms(1-3) _ _ lt sz_def, where gn = gn and now = now])
       (use assms(7,8) len in auto)
  have recs: "rec_inv r" if "r \<in> set (s_dir st)" for r using assms(1) that by (simp add: store_inv_def)
  have sd: "s_dir st' = map (\<lambda>i. s_dir st ! i) slots @ replicate (dn - length slots) dir_zero"
  proof -
    have "s_dir st' = map (\<lambda>r. r \<lparr> d_seq := d_seq r AND NOT 1 \<rparr>) (map bytes_rec (chunks 160 dn (drop (gn * 28) a)))"
      by (simp add: st' a init_pools_def Let_def)
    also have "\<dots> = map (\<lambda>i. s_dir st ! i) slots @ replicate (dn - length slots) dir_zero"
      unfolding D using slots(2) recs by (auto simp: seq_even rec_inv_zero)
    finally show ?thesis .
  qed
  have sb: "s_blob st' = map (\<lambda>j. s_blob st ! j) bls @ replicate (bn - length bls) (blob_zero sz)"
    using B assms(5) by (simp add: st' a init_pools_def Let_def sz_def)
  have ready': "s_ready st'" and sz': "s_blob_slot_sz st' = s_blob_slot_sz st"
    using assms(5) by (simp_all add: st' a init_pools_def Let_def)
  have ud: "uniq dir_used d_dest (s_dir st)" and ub: "uniq blob_used b_dest (s_blob st)"
    using assms(1) by (simp_all add: store_inv_def)
  have ud': "uniq dir_used d_dest (s_dir st')"
    unfolding sd using uniq_sub [OF ud slots(1)] slots(2) by (subst uniq_padded) auto
  have ub': "uniq blob_used b_dest (s_blob st')"
    unfolding sb using uniq_sub [OF ub bls(1)] bls(2) by (subst uniq_padded) auto
  have look: "dir_lookup st' d = dir_lookup st d"
  proof (rule option_eqI)
    fix r
    have "r \<in> set (s_dir st') \<and> dir_used r \<longleftrightarrow> r \<in> set (s_dir st) \<and> dir_used r"
      by (auto simp: sd slots(2) in_set_conv_nth)
    then show "dir_lookup st' d = Some r \<longleftrightarrow> dir_lookup st d = Some r"
      unfolding dir_lookup_ready [OF ready'] dir_lookup_ready [OF assms(2)] lookup_iff [OF ud] lookup_iff [OF ud']
      by blast
  qed
  have blob: "rdir_copy_blob d n st' = rdir_copy_blob d n st" if held: "dir_lookup st d \<noteq> None"
  proof -
    obtain i where i: "dir_find st d = Some i" using held assms(2) by (auto simp: dir_lookup_def)
    note f = slot_find_SomeD [OF i]
    have "map_option (\<lambda>i. s_blob st' ! i) (blob_find st' d) = map_option (\<lambda>i. s_blob st ! i) (blob_find st d)"
    proof (rule option_eqI)
      fix b
      show "map_option (\<lambda>i. s_blob st' ! i) (blob_find st' d) = Some b \<longleftrightarrow>
          map_option (\<lambda>i. s_blob st ! i) (blob_find st d) = Some b"
      proof
        assume "map_option (\<lambda>i. s_blob st' ! i) (blob_find st' d) = Some b"
        then have "b \<in> set (s_blob st')" "blob_used b" "b_dest b = d" unfolding lookup_iff [OF ub'] by auto
        then show "map_option (\<lambda>i. s_blob st ! i) (blob_find st d) = Some b"
          unfolding lookup_iff [OF ub] using bls(2) by (auto simp: sb)
      next
        assume "map_option (\<lambda>i. s_blob st ! i) (blob_find st d) = Some b"
        then obtain j where j: "blob_find st d = Some j" "b = s_blob st ! j" by auto
        have "j \<in> set bls" using bls(3) [of i j] f slots(2) j(1) by simp
        then show "map_option (\<lambda>i. s_blob st' ! i) (blob_find st' d) = Some b"
          unfolding lookup_iff [OF ub'] using slot_find_SomeD [OF j(1)] j(2) by (auto simp: sb)
      qed
    qed
    then show ?thesis using assms(2) ready' by (simp add: copy_blob_lookup)
  qed
  have "slot_inv sz (blob_zero sz)"
    using assms(1) blob_zero_ok [of sz] by (simp add: slot_inv_def store_inv_def sz_def) (simp add: blob_zero_def)
  then have "store_inv st'"
    using ud' ub' sz' recs slots(2) bls(2) assms(1)
    by (auto simp: store_inv_def sd sb sz_def rec_inv_zero)
  with look blob show ?thesis by blast
qed

definition sample_cold :: rdir where
  "sample_cold = sample_rdir \<lparr> s_ready := False, s_guard := [], s_dir := [], s_blob := [] \<rparr>"

lemma init_pools_lens:
  "length (s_guard (init_pools g d b a st)) = g" "length (s_dir (init_pools g d b a st)) = d"
  "length (s_blob (init_pools g d b a st)) = b" "s_blob_slot_sz (init_pools g d b a st) = s_blob_slot_sz st"
  "s_ready (init_pools g d b a st)"
  by (simp_all add: init_pools_def Let_def chunks_def split: option.splits)

theorem restart_keeps_directory_witness:
  "dir_lookup (snd (rdir_init (\<lambda>n. True) (Some (fst (rdir_snapshot 200 1000 sample_full))) 0 sample_cold)) sample_dest1 =
     dir_lookup sample_full sample_dest1"
proof -
  let ?img = "fst (rdir_snapshot 200 1000 sample_full)"
  let ?st' = "snd (rdir_init (\<lambda>n. True) (Some ?img) 0 sample_cold)"
  have cold: "\<not> s_ready sample_cold" "s_blob_slot_sz sample_cold = s_blob_slot_sz sample_full"
    "s_blob_units sample_cold = 2"
    by (simp add: sample_cold_def sample_rdir_def, code_simp, simp add: sample_cold_def sample_rdir_def)
  have units: "init_units 0 sample_cold = 4"
    by (simp add: init_units_def)
  have init: "rdir_init (\<lambda>n. True) (Some ?img) 0 sample_cold = (True, ?st')"
    using cold by (simp add: rdir_init_def Let_def)
  have lens: "length (s_dir ?st') = 16" "length (s_blob ?st') = 8"
    using cold by (simp_all add: rdir_init_def Let_def units init_pools_lens)
  have n: "dir_used_n sample_full \<le> 16" "blob_used_n sample_full \<le> 8"
    "16 + 160 * dir_used_n sample_full + unat (s_blob_slot_sz sample_full) * blob_used_n sample_full \<le> 1000"
    by (code_simp, code_simp, code_simp)
  from restart_keeps_directory [OF sample_full_inv n(3) cold(1,2) init] n lens
  show ?thesis by simp
qed

text \<open>the pools fit the budget. With a blob share of one to four units, the 16-bit slot counts do not
  wrap, the pools hold 8, 4 and that many slots per unit, and with a budget of at least four units of the
  proportion the three pools take no more bytes than the budget.\<close>

theorem init_fits_budget:
  assumes "\<not> s_ready st" "alloc = (\<lambda>n. True)" "unat (s_blob_units st) \<le> 4"
    and "4 * rdir_budget_unit st \<le> budget"
    and "rdir_init alloc persisted budget st = (ok, st')"
  shows "\<exists>u. 4 \<le> u \<and> u \<le> 2048 \<and> length (s_guard st') = 8 * u \<and> length (s_dir st') = 4 * u \<and>
    length (s_blob st') = unat (s_blob_units st) * u \<and> rdir_arena_bytes st' \<le> budget"
proof -
  let ?U = "rdir_budget_unit st" and ?b = "unat (s_blob_units st)"
  let ?u = "init_units budget st"
  have U0: "0 < ?U" by (simp add: rdir_budget_unit_def)
  have four: "4 \<le> budget div ?U" using assms(4) U0 by (simp add: less_eq_div_iff_mult_less_eq)
  have u: "4 \<le> ?u" "?u \<le> 2048" "?u \<le> budget div ?U"
    using four by (simp_all add: init_units_def Let_def)
  have bu: "?u * ?b \<le> 2048 * 4" using u(2) assms(3) by (rule mult_le_mono)
  have w: "unat (of_nat (?u * 8) :: u16) = ?u * 8" "unat (of_nat (?u * 4) :: u16) = ?u * 4"
    "unat (of_nat (?u * ?b) :: u16) = ?u * ?b"
    by (rule of_nat_unat_less; use u bu in simp)+
  have lens: "length (s_guard st') = ?u * 8" "length (s_dir st') = ?u * 4" "length (s_blob st') = ?u * ?b"
    "s_blob_slot_sz st' = s_blob_slot_sz st"
    using assms(1,2,5) w by (auto simp: rdir_init_def Let_def init_pools_lens simp del: of_nat_mult)
  have "rdir_arena_bytes st' = ?u * ?U"
    by (simp add: rdir_arena_bytes_def lens rdir_budget_unit_def algebra_simps)
  also have "\<dots> \<le> (budget div ?U) * ?U" using u(3) by (rule mult_le_mono1)
  also have "\<dots> \<le> budget" by simp
  finally show ?thesis using u lens by (intro exI [of _ ?u]) (simp add: mult.commute)
qed

theorem init_fits_budget_witness:
  "\<exists>u. length (s_dir (snd (rdir_init (\<lambda>n. True) None 100000 sample_cold))) = 4 * u \<and> 4 \<le> u"
proof -
  let ?r = "rdir_init (\<lambda>n. True) None 100000 sample_cold"
  have c: "\<not> s_ready sample_cold" "unat (s_blob_units sample_cold) \<le> 4" "4 * rdir_budget_unit sample_cold \<le> 100000"
    by (simp_all add: sample_cold_def sample_rdir_def rdir_budget_unit_def)
  from init_fits_budget [OF c(1) refl c(2,3), of None "fst ?r" "snd ?r"] show ?thesis by auto
qed

text \<open>
  The loader checks sizes and counts but not the length a blob slot claims. A slot restored with a
  length past its end makes the copy read past the slot.
\<close>

lemma copy_blob_overread:
  assumes "s_ready st" "blob_find st d = Some i" "b_len (s_blob st ! i) \<noteq> 0"
    and "length (b_raw (s_blob st ! i)) < unat (b_len (s_blob st ! i))" "unat (b_len (s_blob st ! i)) \<le> cap"
  shows "rdir_copy_blob d cap st = Inl Undefined"
  using assms by (simp add: rdir_copy_blob_def rd_block_def)

text \<open>Under the store invariant the copy stays in its slot.\<close>

lemma copy_blob_in_slot:
  assumes "store_inv st"
  shows "\<exists>bs. rdir_copy_blob d cap st = Inr bs"
proof (cases "blob_find st d")
  case (Some i)
  then have "slot_inv (unat (s_blob_slot_sz st)) (s_blob st ! i)"
    using assms slot_find_SomeD(1) [OF Some] by (simp add: store_inv_def)
  with Some show ?thesis
    by (auto simp: rdir_copy_blob_def Let_def rd_block_def slot_inv_def blob_ok_def)
qed (simp add: rdir_copy_blob_def)

end
