(* ===== verification/DirSeqlock.thy ===== *)
theory DirSeqlock
  imports DirStore
begin

text \<open>
  The sequence lock of the directory pool: one writer, one reader of another task, interleaved step by
  step on one slot. The writer opens a session, stores bytes, may wipe the record, closes it; the reader
  (\<open>recCopy\<close>) loads the counter, copies byte by byte, loads the counter again, and tries up to eight times.
  An accepted copy is the record as it stood between two sessions, unless the counter the reader loaded was
  0, the value it shows while a wipe has overwritten it, or the record was forgotten in between, which sets the
  counter back for good. Both exceptions are real: a copy torn in each way is derived.
\<close>

text \<open>
  The reader: attempts left; the counter value it loaded, with the ghost facts of that moment (sessions
  opened and records forgotten so far, the payload), and what it has copied; or its outcome, with the counter
  it had loaded and the sessions opened and the forgets since then.
\<close>

datatype reader =
    Trying nat
  | Copying nat u16 nat nat bytes bytes
  | Accepted u16 nat nat bytes bytes
  | Gave_up

text \<open>\<open>q_saved\<close> is the counter \<open>recClear\<close> holds in its local variable while the record is zeroed.\<close>

record seq_slot =
  q_seq :: u16
  q_data :: bytes
  q_writing :: bool
  q_saved :: "u16 option"
  q_sessions :: nat
  q_forgets :: nat
  q_reader :: reader

definition session_open :: "u16 \<Rightarrow> u16" where
  "session_open s = s OR 1"

definition session_close :: "u16 \<Rightarrow> u16" where
  "session_close s = (s + 1) AND NOT 1"

text \<open>One attempt is over: the next one, or a miss.\<close>

definition retry :: "nat \<Rightarrow> reader" where
  "retry n = (if n = 0 then Gave_up else Trying n)"

text \<open>
  The writer's steps and the reader's. A wipe zeroes the counter with the payload: \<open>recClear\<close> puts back the
  one it saved (\<open>w_clear\<close>, \<open>w_restore\<close>), the \<open>memset\<close> of \<open>rdirForget\<close> does not (\<open>w_forget\<close>). The
  counter is one aligned half word, stored at once.
\<close>

inductive seq_step :: "seq_slot \<Rightarrow> seq_slot \<Rightarrow> bool" where
  w_begin: "\<not> q_writing q \<Longrightarrow> seq_step q
     (q \<lparr> q_seq := session_open (q_seq q), q_writing := True, q_sessions := q_sessions q + 1 \<rparr>)"
| w_store: "q_writing q \<Longrightarrow> i < length (q_data q) \<Longrightarrow>
     seq_step q (q \<lparr> q_data := (q_data q)[i := b] \<rparr>)"
| w_clear: "q_writing q \<Longrightarrow> q_saved q = None \<Longrightarrow> seq_step q (q \<lparr> q_seq := 0, q_saved := Some (q_seq q) \<rparr>)"
| w_restore: "q_saved q = Some s \<Longrightarrow> seq_step q (q \<lparr> q_seq := s, q_saved := None \<rparr>)"
| w_forget: "q_writing q \<Longrightarrow> q_saved q = None \<Longrightarrow>
     seq_step q (q \<lparr> q_seq := 0, q_forgets := q_forgets q + 1 \<rparr>)"
| w_end: "q_writing q \<Longrightarrow> q_saved q = None \<Longrightarrow>
     seq_step q (q \<lparr> q_seq := session_close (q_seq q), q_writing := False \<rparr>)"
| r_odd: "q_reader q = Trying (Suc n) \<Longrightarrow> q_seq q AND 1 \<noteq> 0 \<Longrightarrow>
     seq_step q (q \<lparr> q_reader := retry n \<rparr>)"
| r_load: "q_reader q = Trying (Suc n) \<Longrightarrow> q_seq q AND 1 = 0 \<Longrightarrow>
     seq_step q (q \<lparr> q_reader := Copying n (q_seq q) (q_sessions q) (q_forgets q) (q_data q) [] \<rparr>)"
| r_byte: "q_reader q = Copying n s c f d0 buf \<Longrightarrow> length buf < length (q_data q) \<Longrightarrow>
     seq_step q (q \<lparr> q_reader := Copying n s c f d0 (buf @ [q_data q ! length buf]) \<rparr>)"
| r_accept: "q_reader q = Copying n s c f d0 buf \<Longrightarrow> length buf = length (q_data q) \<Longrightarrow> q_seq q = s \<Longrightarrow>
     seq_step q (q \<lparr> q_reader := Accepted s (q_sessions q - c) (q_forgets q - f) d0 buf \<rparr>)"
| r_retry: "q_reader q = Copying n s c f d0 buf \<Longrightarrow> length buf = length (q_data q) \<Longrightarrow> q_seq q \<noteq> s \<Longrightarrow>
     seq_step q (q \<lparr> q_reader := retry n \<rparr>)"

inductive seq_reach :: "seq_slot \<Rightarrow> seq_slot \<Rightarrow> bool" for q0 where
  seq_start: "seq_reach q0 q0"
| seq_next: "seq_reach q0 q \<Longrightarrow> seq_step q q' \<Longrightarrow> seq_reach q0 q'"

text \<open>A slot between sessions, with a reader about to look at it.\<close>

definition seq_initial :: "seq_slot \<Rightarrow> bool" where
  "seq_initial q \<longleftrightarrow> q_seq q AND 1 = 0 \<and> \<not> q_writing q \<and> q_saved q = None \<and> q_reader q = Trying 8"

section \<open>The counter\<close>

text \<open>The counter the writer works on, also while \<open>recClear\<close> has it in hand.\<close>

definition held_counter :: "seq_slot \<Rightarrow> u16" where
  "held_counter q = (case q_saved q of None \<Rightarrow> q_seq q | Some s \<Rightarrow> s)"

lemma held_simps [simp]:
  "held_counter (q\<lparr>q_data := d\<rparr>) = held_counter q" "held_counter (q\<lparr>q_reader := r\<rparr>) = held_counter q"
  "held_counter (q\<lparr>q_seq := x, q_saved := None\<rparr>) = x" "held_counter (q\<lparr>q_seq := x, q_saved := Some y\<rparr>) = y"
  by (simp_all add: held_counter_def split: option.split)

lemma held_idle: "q_saved q = None \<Longrightarrow> held_counter q = q_seq q"
  by (simp add: held_counter_def)

lemma held_new: "q_saved q = None \<Longrightarrow> held_counter (q\<lparr>q_seq := x, q_writing := w, q_sessions := n\<rparr>) = x"
    "q_saved q = None \<Longrightarrow> held_counter (q\<lparr>q_seq := x, q_writing := w\<rparr>) = x"
    "q_saved q = None \<Longrightarrow> held_counter (q\<lparr>q_seq := x, q_forgets := n\<rparr>) = x"
  by (simp_all add: held_counter_def)

lemma held_saved: "q_saved q = Some s \<Longrightarrow> held_counter q = s"
  by (simp add: held_counter_def)

text \<open>\<open>k\<close> sessions after it was \<open>s\<close>, the last of them open or not.\<close>

definition counter_after :: "u16 \<Rightarrow> nat \<Rightarrow> bool \<Rightarrow> u16" where
  "counter_after s k writing = (if writing then s + 2 * of_nat (k - 1) + 1 else s + 2 * of_nat k)"

lemma and_one_even: "(w :: u16) AND 1 = 0 \<longleftrightarrow> even w"
  by (simp add: and_one_eq even_iff_mod_2_eq_zero)

lemma open_even: "even w \<Longrightarrow> session_open w = w + 1"
  by (simp add: session_open_def or_one_eq)

lemma close_odd: "even w \<Longrightarrow> session_close (w + 1) = w + 2"
proof -
  assume e: "even w"
  have "even (w + 2)" using e by simp
  then have z: "\<not> bit (w + 2) 0" by (simp add: bit_0)
  have "(w + 2) AND NOT 1 = w + 2"
    by (rule bit_word_eqI) (use z in \<open>auto simp: bit_simps intro: gr0I\<close>)
  then show ?thesis by (simp add: session_close_def add.assoc)
qed

lemma close_zero: "session_close 0 = 0"
  by (simp add: session_close_def)

lemma counter_back:
  assumes "counter_after s k False = s" and "k < 2 ^ 15"
  shows "k = 0"
proof -
  have "(of_nat (2 * k) :: u16) = 0" using assms(1) by (simp add: counter_after_def)
  moreover have "unat (of_nat (2 * k) :: u16) = 2 * k"
    using assms(2) by (intro of_nat_unat_less) simp
  ultimately have "2 * k = 0" by simp
  then show ?thesis by simp
qed

definition seq_inv :: "seq_slot \<Rightarrow> bool" where
  "seq_inv q \<longleftrightarrow>
     (if q_writing q then odd (held_counter q) \<or> held_counter q = 0 else q_saved q = None \<and> even (q_seq q)) \<and>
     (q_saved q \<noteq> None \<longrightarrow> q_seq q = 0) \<and>
     (case q_reader q of
        Copying n s c f d0 buf \<Rightarrow> even s \<and> c \<le> q_sessions q \<and> f \<le> q_forgets q \<and>
          (s \<noteq> 0 \<and> q_forgets q = f \<longrightarrow> held_counter q = counter_after s (q_sessions q - c) (q_writing q) \<and>
             (q_writing q \<longrightarrow> c < q_sessions q) \<and>
             (q_sessions q = c \<longrightarrow> q_data q = d0 \<and> buf = take (length buf) d0))
      | Accepted s k f d0 buf \<Rightarrow> s \<noteq> 0 \<and> f = 0 \<and> k < 2 ^ 15 \<longrightarrow> buf = d0
      | _ \<Rightarrow> True)"

lemma idle_even: "seq_inv q \<Longrightarrow> even (q_seq q) \<Longrightarrow> q_seq q \<noteq> 0 \<Longrightarrow> \<not> q_writing q \<and> q_saved q = None"
  by (auto simp: seq_inv_def held_counter_def split: if_splits option.splits)

lemma counter_odd: "even s \<Longrightarrow> odd (counter_after s k True)"
  by (simp add: counter_after_def)

lemma seq_inv_step:
  assumes "seq_step q q'" and "seq_inv q"
  shows "seq_inv q'"
  using assms
proof (cases rule: seq_step.cases)
  case w_begin
  then show ?thesis
    using assms(2) by (auto simp: seq_inv_def open_even held_idle held_new counter_after_def Suc_diff_le split: reader.splits)
next
  case (w_store i b)
  then show ?thesis using assms(2) by (auto simp: seq_inv_def held_idle held_new split: reader.splits)
next
  case w_clear
  then show ?thesis using assms(2) by (auto simp: seq_inv_def held_idle held_new split: reader.splits)
next
  case (w_restore s)
  then show ?thesis using assms(2) by (auto simp: seq_inv_def held_saved split: reader.splits if_splits)
next
  case w_forget
  then show ?thesis using assms(2) by (auto simp: seq_inv_def held_idle held_new split: reader.splits)
next
  case w_end
  have odd: "odd (q_seq q) \<or> q_seq q = 0" using assms(2) w_end by (simp add: seq_inv_def held_idle held_new)
  have even: "even (session_close (q_seq q))"
  proof (cases "q_seq q = 0")
    case False
    then have "even (q_seq q - 1)" using odd by simp
    from close_odd [OF this] show ?thesis using \<open>even (q_seq q - 1)\<close> by simp
  qed (simp add: close_zero)
  have close: "session_close (q_seq q) = counter_after s (q_sessions q - c) False"
    if s: "even s" "q_seq q = counter_after s (q_sessions q - c) True" "c < q_sessions q" for s c
  proof -
    obtain k where k: "q_sessions q - c = Suc k" using s(3) by (cases "q_sessions q - c") auto
    have "even (s + 2 * of_nat k)" using s(1) by simp
    from close_odd [OF this] show ?thesis using s(2) k by (simp add: counter_after_def algebra_simps)
  qed
  show ?thesis
    using assms(2) w_end even close by (auto simp: seq_inv_def held_idle held_new split: reader.splits)
next
  case (r_odd n)
  then show ?thesis using assms(2) by (auto simp: seq_inv_def held_idle held_new retry_def split: reader.splits)
next
  case (r_load n)
  have e: "even (q_seq q)" using r_load by (simp add: and_one_even)
  have w: "q_writing q \<longrightarrow> odd (held_counter q) \<or> held_counter q = 0" "\<not> q_writing q \<longrightarrow> q_saved q = None"
    "q_saved q \<noteq> None \<longrightarrow> q_seq q = 0"
    using assms(2) unfolding seq_inv_def by presburger+
  show ?thesis
  proof (cases "q_seq q = 0")
    case True
    then show ?thesis using w r_load by (simp add: seq_inv_def)
  next
    case False
    then have "\<not> q_writing q" "q_saved q = None" using idle_even [OF assms(2) e] by simp_all
    then show ?thesis using e r_load by (simp add: seq_inv_def held_idle counter_after_def)
  qed
next
  case (r_byte n s c f d0 buf)
  then show ?thesis
    using assms(2) by (auto simp: seq_inv_def held_idle held_new take_Suc_conv_app_nth)
next
  case (r_accept n s c f d0 buf)
  have i: "even s" "c \<le> q_sessions q" "f \<le> q_forgets q"
    "s \<noteq> 0 \<Longrightarrow> q_forgets q = f \<Longrightarrow> held_counter q = counter_after s (q_sessions q - c) (q_writing q) \<and>
       (q_sessions q = c \<longrightarrow> q_data q = d0 \<and> buf = take (length buf) d0)"
    using assms(2) r_accept by (auto simp: seq_inv_def)
  have "buf = d0" if "s \<noteq> 0" "q_forgets q - f = 0" "q_sessions q - c < 2 ^ 15"
  proof -
    have idle: "\<not> q_writing q" "q_saved q = None" using idle_even [OF assms(2)] i(1) that(1) r_accept by auto
    have "q_forgets q = f" using that(2) i(3) by simp
    then have "counter_after s (q_sessions q - c) False = s"
      using i(4) that(1) idle r_accept by (simp add: held_idle held_new)
    from counter_back [OF this that(3)] have "q_sessions q = c" using i(2) by simp
    then show ?thesis using i(4) that(1) \<open>q_forgets q = f\<close> r_accept by simp
  qed
  then show ?thesis using assms(2) r_accept by (auto simp: seq_inv_def held_idle held_new)
next
  case (r_retry n s c f d0 buf)
  then show ?thesis using assms(2) by (auto simp: seq_inv_def held_idle held_new retry_def split: reader.splits)
qed

lemma seq_inv_reach: "seq_reach q0 q \<Longrightarrow> seq_initial q0 \<Longrightarrow> seq_inv q"
proof (induction rule: seq_reach.induct)
  case seq_start
  then show ?case by (simp add: seq_inv_def seq_initial_def and_one_even)
next
  case (seq_next q q')
  then show ?case using seq_inv_step by blast
qed

text \<open>C16: a reader accepts no torn record, whatever the writer does. However the writer's sessions, stores and
  wipes and the reader's copy interleave, an accepted copy is the record as it stood, between two sessions,
  when the reader loaded the counter. The code makes three exceptions, all stated: the counter loaded was 0
  (which a wipe in progress also shows), the record was forgotten during the copy (which sets the counter
  back), or \<open>2^15\<close> whole sessions passed during one copy.\<close>

theorem accepted_copy_coherent:
  assumes "seq_reach q0 q" and "seq_initial q0"
    and "q_reader q = Accepted s k f d0 buf" and "s \<noteq> 0" "f = 0" "k < 2 ^ 15"
  shows "buf = d0"
  using seq_inv_reach [OF assms(1,2)] assms(3-6) by (simp add: seq_inv_def)

text \<open>A record of two bytes with its counter at \<open>s\<close>.\<close>

definition torn_start :: "u16 \<Rightarrow> seq_slot" where
  "torn_start s = \<lparr> q_seq = s, q_data = [1, 1], q_writing = False, q_saved = None, q_sessions = 0, q_forgets = 0,
     q_reader = Trying 8 \<rparr>"

lemma torn_initial: "seq_initial (torn_start 0)" "seq_initial (torn_start 2)"
  by (simp_all add: seq_initial_def torn_start_def and_one_even)

text \<open>A session that clears the record passes while the reader waits; the copy taken after it is accepted.\<close>

lemma accepted_copy_coherent_witness:
  "\<exists>q. seq_reach (torn_start 2) q \<and> q_reader q = Accepted 2 0 0 [1, 1] [1, 1] \<and> [1, 1] = ([1, 1] :: bytes)"
proof -
  let ?q1 = "(torn_start 2) \<lparr> q_reader := Copying 7 2 0 0 [1, 1] [] \<rparr>"
  let ?q2 = "(torn_start 2) \<lparr> q_reader := Copying 7 2 0 0 [1, 1] [1] \<rparr>"
  let ?q3 = "(torn_start 2) \<lparr> q_reader := Copying 7 2 0 0 [1, 1] [1, 1] \<rparr>"
  let ?q4 = "(torn_start 2) \<lparr> q_reader := Accepted 2 0 0 [1, 1] [1, 1] \<rparr>"
  have "seq_step (torn_start 2) ?q1" "seq_step ?q1 ?q2" "seq_step ?q2 ?q3" "seq_step ?q3 ?q4"
    using seq_step.r_load [of "torn_start 2" 7] seq_step.r_byte [of ?q1 7 2 0 0 "[1, 1]" "[]"]
      seq_step.r_byte [of ?q2 7 2 0 0 "[1, 1]" "[1]"] seq_step.r_accept [of ?q3 7 2 0 0 "[1, 1]" "[1, 1]"]
    by (simp_all add: torn_start_def and_one_even)
  then have r: "seq_reach (torn_start 2) ?q4" by (meson seq_reach.intros)
  have a: "q_reader ?q4 = Accepted 2 0 0 [1, 1] [1, 1]" by (simp add: torn_start_def)
  have "[1, 1] = ([1, 1] :: bytes)" by (rule accepted_copy_coherent [OF r torn_initial(2) a]) simp_all
  with r a show ?thesis by blast
qed

text \<open>
  The session of \<open>rdirForget\<close> breaks the protocol. Because it zeroes the sequence counter with the
  rest of the record, a reader that loaded the counter at zero accepts, while the session is still open,
  a copy that is neither the record before the forget nor the wiped one.
\<close>

lemma forget_tears_reader:
  "\<exists>q buf. seq_reach (torn_start 0) q \<and> q_reader q = Accepted 0 1 1 [1, 1] buf \<and>
     buf \<noteq> [1, 1] \<and> buf \<noteq> [0, 0]"
proof -
  let ?q1 = "(torn_start 0) \<lparr> q_reader := Copying 7 0 0 0 [1, 1] [] \<rparr>"
  let ?q2 = "(torn_start 0) \<lparr> q_reader := Copying 7 0 0 0 [1, 1] [1] \<rparr>"
  let ?q3 = "?q2 \<lparr> q_seq := 1, q_writing := True, q_sessions := 1 \<rparr>"
  let ?q4 = "?q3 \<lparr> q_data := [1, 0] \<rparr>"
  let ?q5 = "?q4 \<lparr> q_seq := 0, q_forgets := 1 \<rparr>"
  let ?q6 = "?q5 \<lparr> q_reader := Copying 7 0 0 0 [1, 1] [1, 0] \<rparr>"
  let ?q7 = "?q5 \<lparr> q_reader := Accepted 0 1 1 [1, 1] [1, 0] \<rparr>"
  have "seq_step (torn_start 0) ?q1" "seq_step ?q1 ?q2" "seq_step ?q2 ?q3" "seq_step ?q3 ?q4"
    "seq_step ?q4 ?q5" "seq_step ?q5 ?q6" "seq_step ?q6 ?q7"
    using seq_step.r_load [of "torn_start 0" 7] seq_step.r_byte [of ?q1 7 0 0 0 "[1, 1]" "[]"]
      seq_step.w_begin [of ?q2] seq_step.w_store [of ?q3 1 0] seq_step.w_forget [of ?q4]
      seq_step.r_byte [of ?q5 7 0 0 0 "[1, 1]" "[1]"] seq_step.r_accept [of ?q6 7 0 0 0 "[1, 1]" "[1, 0]"]
    by (simp_all add: torn_start_def session_open_def)
  then have r: "seq_reach (torn_start 0) ?q7" by (meson seq_reach.intros)
  show ?thesis
    by (rule exI [of _ ?q7], rule exI [of _ "[1, 0]"]) (use r in \<open>simp add: torn_start_def\<close>)
qed

text \<open>
  So does \<open>recClear\<close> while it has zeroed the counter and not yet put it back: the same torn copy is accepted,
  with no forget.
\<close>

lemma clear_tears_reader:
  "\<exists>q buf. seq_reach (torn_start 0) q \<and> q_reader q = Accepted 0 1 0 [1, 1] buf \<and>
     buf \<noteq> [1, 1] \<and> buf \<noteq> [0, 0]"
proof -
  let ?q1 = "(torn_start 0) \<lparr> q_reader := Copying 7 0 0 0 [1, 1] [] \<rparr>"
  let ?q2 = "(torn_start 0) \<lparr> q_reader := Copying 7 0 0 0 [1, 1] [1] \<rparr>"
  let ?q3 = "?q2 \<lparr> q_seq := 1, q_writing := True, q_sessions := 1 \<rparr>"
  let ?q4 = "?q3 \<lparr> q_data := [1, 0] \<rparr>"
  let ?q5 = "?q4 \<lparr> q_seq := 0, q_saved := Some 1 \<rparr>"
  let ?q6 = "?q5 \<lparr> q_reader := Copying 7 0 0 0 [1, 1] [1, 0] \<rparr>"
  let ?q7 = "?q5 \<lparr> q_reader := Accepted 0 1 0 [1, 1] [1, 0] \<rparr>"
  have "seq_step (torn_start 0) ?q1" "seq_step ?q1 ?q2" "seq_step ?q2 ?q3" "seq_step ?q3 ?q4"
    "seq_step ?q4 ?q5" "seq_step ?q5 ?q6" "seq_step ?q6 ?q7"
    using seq_step.r_load [of "torn_start 0" 7] seq_step.r_byte [of ?q1 7 0 0 0 "[1, 1]" "[]"]
      seq_step.w_begin [of ?q2] seq_step.w_store [of ?q3 1 0] seq_step.w_clear [of ?q4]
      seq_step.r_byte [of ?q5 7 0 0 0 "[1, 1]" "[1]"] seq_step.r_accept [of ?q6 7 0 0 0 "[1, 1]" "[1, 0]"]
    by (simp_all add: torn_start_def session_open_def)
  then have r: "seq_reach (torn_start 0) ?q7" by (meson seq_reach.intros)
  show ?thesis
    by (rule exI [of _ ?q7], rule exI [of _ "[1, 0]"]) (use r in \<open>simp add: torn_start_def\<close>)
qed

text \<open>
  The sessions of the store against this protocol: an eviction's wipe leaves the counter to the
  session, the wipe of a forget does not.
\<close>

lemma store_sessions:
  "d_seq (write_begin r) = session_open (d_seq r)" "d_seq (write_end r) = session_close (d_seq r)"
  "d_seq (rec_clear (write_begin r)) = session_open (d_seq r)"
  "d_seq (ingest_rec now dest a (write_begin r)) = session_open (d_seq r)"
  "d_seq (claim_rec now c (write_begin r)) = session_open (d_seq r)"
  "s_dir (snd (rdir_forget dest st)) ! i = write_end dir_zero"
    if "s_ready st" "dir_find st dest = Some i" "i < length (s_dir st)"
proof -
  show "d_seq (write_begin r) = session_open (d_seq r)" "d_seq (write_end r) = session_close (d_seq r)"
    "d_seq (rec_clear (write_begin r)) = session_open (d_seq r)"
    "d_seq (ingest_rec now dest a (write_begin r)) = session_open (d_seq r)"
    "d_seq (claim_rec now c (write_begin r)) = session_open (d_seq r)"
    by (simp_all add: write_begin_def write_end_def session_open_def session_close_def rec_clear_def
        ingest_rec_def claim_rec_def set_prio_def set_flag_def Let_def split: option.splits)
  show "s_dir (snd (rdir_forget dest st)) ! i = write_end dir_zero"
    using that by (simp add: rdir_forget_def Let_def write_rec_def blob_free_def split: option.splits)
qed

end
