(* ===== verification/ResAdv.thy ===== *)
theory ResAdv
  imports RnsTypes MsgPack
begin

text \<open>
  The resource advertisement: \<open>ResourceFlags\<close> and \<open>ResourceAdvertisement\<close> of \<open>Resource.h\<close>, and their
  codec in \<open>Resource.cpp\<close>, an eleven-member msgpack map. The decoder takes the members in any order
  and steps over those it does not know. \<open>adv_unpack\<close> reads back what \<open>adv_pack\<close> writes.
\<close>

section \<open>Flags\<close>

record rflags =
  fl_encrypted :: bool
  fl_compressed :: bool
  fl_split :: bool
  fl_is_request :: bool
  fl_is_response :: bool
  fl_has_metadata :: bool

definition flags_default :: rflags where
  "flags_default = \<lparr>fl_encrypted = True, fl_compressed = False, fl_split = False, fl_is_request = False,
     fl_is_response = False, fl_has_metadata = False\<rparr>"

definition to_byte :: "rflags \<Rightarrow> u8" where
  "to_byte f =
     (if fl_encrypted f then 0x01 else 0) OR (if fl_compressed f then 0x02 else 0) OR
     (if fl_split f then 0x04 else 0) OR (if fl_is_request f then 0x08 else 0) OR
     (if fl_is_response f then 0x10 else 0) OR (if fl_has_metadata f then 0x20 else 0)"

definition from_byte :: "u8 \<Rightarrow> rflags" where
  "from_byte b = \<lparr>fl_encrypted = (b AND 0x01 \<noteq> 0), fl_compressed = (b AND 0x02 \<noteq> 0),
     fl_split = (b AND 0x04 \<noteq> 0), fl_is_request = (b AND 0x08 \<noteq> 0),
     fl_is_response = (b AND 0x10 \<noteq> 0), fl_has_metadata = (b AND 0x20 \<noteq> 0)\<rparr>"

lemma from_to_byte [simp]: "from_byte (to_byte f) = f"
  by (cases f) (simp add: from_byte_def to_byte_def split: if_split)

section \<open>The advertisement\<close>

record adv =
  ad_t :: u32
  ad_d :: u32
  ad_n :: u32
  ad_i :: u32
  ad_l :: u32
  ad_f :: u8
  ad_h :: bytes
  ad_r :: bytes
  ad_o :: bytes
  ad_m :: bytes
  ad_q :: bytes
  ad_e :: bool
  ad_c :: bool
  ad_s :: bool
  ad_u :: bool
  ad_p :: bool
  ad_x :: bool

definition adv_object :: adv where
  "adv_object = \<lparr>ad_t = 0, ad_d = 0, ad_n = 0, ad_i = 1, ad_l = 1, ad_f = 0, ad_h = [], ad_r = [],
     ad_o = [], ad_m = [], ad_q = [], ad_e = False, ad_c = False, ad_s = False, ad_u = False,
     ad_p = False, ad_x = False\<rparr>"

definition adv_is_request :: "adv \<Rightarrow> bool" where
  "adv_is_request a \<longleftrightarrow> ad_u a \<and> ad_q a \<noteq> []"

definition adv_is_response :: "adv \<Rightarrow> bool" where
  "adv_is_response a \<longleftrightarrow> ad_p a \<and> ad_q a \<noteq> []"

subsection \<open>Packing\<close>

text \<open>The four lambdas of \<open>pack\<close>; \<open>put_key\<close> throws when the key does not fit a fixstr.\<close>

definition put_key :: "bytes \<Rightarrow> bytes \<Rightarrow> bytes res" where
  "put_key k out = rbind (pack_fixstr k) (\<lambda>s. Inr (out @ s))"

definition put_uint :: "bytes \<Rightarrow> u64 \<Rightarrow> bytes \<Rightarrow> bytes res" where
  "put_uint k v out = rbind (put_key k out) (\<lambda>out. Inr (out @ pack_uint v))"

definition put_bin :: "bytes \<Rightarrow> bytes \<Rightarrow> bytes \<Rightarrow> bytes res" where
  "put_bin k b out = rbind (put_key k out) (\<lambda>out. Inr (out @ pack_bin b))"

definition put_bin_or_nil :: "bytes \<Rightarrow> bytes \<Rightarrow> bytes \<Rightarrow> bytes res" where
  "put_bin_or_nil k b out =
     rbind (put_key k out) (\<lambda>out. Inr (out @ (if b \<noteq> [] then pack_bin b else pack_nil)))"

text \<open>The keys are the letters \<open>t d n h r o i l q f m\<close>.\<close>

definition adv_pack :: "adv \<Rightarrow> bytes res" where
  "adv_pack a =
    rbind (put_uint [0x74] (ucast (ad_t a)) (pack_map_header 11)) (\<lambda>out.
    rbind (put_uint [0x64] (ucast (ad_d a)) out) (\<lambda>out.
    rbind (put_uint [0x6e] (ucast (ad_n a)) out) (\<lambda>out.
    rbind (put_bin [0x68] (ad_h a) out) (\<lambda>out.
    rbind (put_bin [0x72] (ad_r a) out) (\<lambda>out.
    rbind (put_bin [0x6f] (ad_o a) out) (\<lambda>out.
    rbind (put_uint [0x69] (ucast (ad_i a)) out) (\<lambda>out.
    rbind (put_uint [0x6c] (ucast (ad_l a)) out) (\<lambda>out.
    rbind (put_bin_or_nil [0x71] (ad_q a) out) (\<lambda>out.
    rbind (put_uint [0x66] (ucast (ad_f a)) out) (\<lambda>out.
    put_bin [0x6d] (ad_m a) out))))))))))"

subsection \<open>Unpacking\<close>

text \<open>The lambdas of \<open>unpack\<close> read at \<open>p + off\<close> with \<open>n_left - off\<close> bytes left and advance \<open>off\<close>.\<close>

definition read_uint_into :: "bytes \<Rightarrow> usize \<Rightarrow> usize \<Rightarrow> (u64 \<times> usize) res" where
  "read_uint_into p n off =
     rbind (unpack_uint (drop (unat off) p) (n - off)) (\<lambda>(v, k). Inr (v, off + k))"

definition read_bin_into :: "bytes \<Rightarrow> usize \<Rightarrow> usize \<Rightarrow> (bytes \<times> usize) res" where
  "read_bin_into p n off =
     rbind (unpack_bin (drop (unat off) p) (n - off)) (\<lambda>(b, k). Inr (b, off + k))"

definition read_bin_or_nil_into :: "bytes \<Rightarrow> usize \<Rightarrow> usize \<Rightarrow> (bytes \<times> usize) res" where
  "read_bin_or_nil_into p n off =
    (if n \<le> off then Inl Runtime_error
     else rbind (rd p (unat off)) (\<lambda>t. if t = 0xc0 then Inr ([], off + 1) else read_bin_into p n off))"

definition adv_skip :: "nat \<Rightarrow> bytes \<Rightarrow> usize \<Rightarrow> usize \<Rightarrow> adv \<Rightarrow> (adv \<times> usize) res" where
  "adv_skip d p n off a =
     rbind (skip_value d (drop (unat off) p) (n - off)) (\<lambda>k. Inr (a, off + k))"

text \<open>The switch of the loop: the integer members, then the byte members, then the rest.\<close>

definition uint_member :: "u8 \<Rightarrow> (u64 \<Rightarrow> adv \<Rightarrow> adv) option" where
  "uint_member c =
    (if c = 0x74 then Some (\<lambda>v a. a\<lparr>ad_t := ucast v\<rparr>)
     else if c = 0x64 then Some (\<lambda>v a. a\<lparr>ad_d := ucast v\<rparr>)
     else if c = 0x6e then Some (\<lambda>v a. a\<lparr>ad_n := ucast v\<rparr>)
     else if c = 0x69 then Some (\<lambda>v a. a\<lparr>ad_i := ucast v\<rparr>)
     else if c = 0x6c then Some (\<lambda>v a. a\<lparr>ad_l := ucast v\<rparr>)
     else if c = 0x66 then Some (\<lambda>v a. a\<lparr>ad_f := ucast v\<rparr>)
     else None)"

definition bin_member :: "u8 \<Rightarrow> (bytes \<Rightarrow> adv \<Rightarrow> adv) option" where
  "bin_member c =
    (if c = 0x68 then Some (\<lambda>b a. a\<lparr>ad_h := b\<rparr>)
     else if c = 0x72 then Some (\<lambda>b a. a\<lparr>ad_r := b\<rparr>)
     else if c = 0x6f then Some (\<lambda>b a. a\<lparr>ad_o := b\<rparr>)
     else if c = 0x6d then Some (\<lambda>b a. a\<lparr>ad_m := b\<rparr>)
     else None)"

definition adv_member :: "nat \<Rightarrow> bytes \<Rightarrow> usize \<Rightarrow> bytes \<Rightarrow> usize \<Rightarrow> adv \<Rightarrow> (adv \<times> usize) res" where
  "adv_member d p n key off a =
    (case key of
       [c] \<Rightarrow>
         (case uint_member c of
            Some s \<Rightarrow> rbind (read_uint_into p n off) (\<lambda>(v, off). Inr (s v a, off))
          | None \<Rightarrow>
              (case bin_member c of
                 Some s \<Rightarrow> rbind (read_bin_into p n off) (\<lambda>(b, off). Inr (s b a, off))
               | None \<Rightarrow>
                   if c = 0x71 then
                     rbind (read_bin_or_nil_into p n off) (\<lambda>(b, off). Inr (a\<lparr>ad_q := b\<rparr>, off))
                   else adv_skip d p n off a))
     | _ \<Rightarrow> adv_skip d p n off a)"

fun adv_members :: "nat \<Rightarrow> bytes \<Rightarrow> usize \<Rightarrow> nat \<Rightarrow> usize \<Rightarrow> adv \<Rightarrow> adv res" where
  "adv_members d p n 0 off a = Inr a"
| "adv_members d p n (Suc k) off a =
     rbind (unpack_str (drop (unat off) p) (n - off)) (\<lambda>(key, j).
       rbind (adv_member d p n key (off + j) a) (\<lambda>(a, off). adv_members d p n k off a))"

definition derive_bits :: "adv \<Rightarrow> adv" where
  "derive_bits a = a\<lparr>
     ad_e := ad_f a AND 0x01 \<noteq> 0,
     ad_c := drop_bit 1 (ad_f a) AND 0x01 \<noteq> 0,
     ad_s := drop_bit 2 (ad_f a) AND 0x01 \<noteq> 0,
     ad_u := drop_bit 3 (ad_f a) AND 0x01 \<noteq> 0,
     ad_p := drop_bit 4 (ad_f a) AND 0x01 \<noteq> 0,
     ad_x := drop_bit 5 (ad_f a) AND 0x01 \<noteq> 0\<rparr>"

definition adv_unpack :: "nat \<Rightarrow> bytes \<Rightarrow> adv res" where
  "adv_unpack d p =
     rbind (unpack_map_header p (of_nat (length p))) (\<lambda>(count, off).
       rbind (adv_members d p (of_nat (length p)) (unat count) off adv_object) (\<lambda>a.
         Inr (derive_bits a)))"

text \<open>The peeks at a packet's decrypted advertisement.\<close>

definition peek_is_request :: "nat \<Rightarrow> bytes \<Rightarrow> bool res" where
  "peek_is_request d p = rbind (adv_unpack d p) (\<lambda>a. Inr (ad_u a \<and> ad_q a \<noteq> []))"

definition peek_is_response :: "nat \<Rightarrow> bytes \<Rightarrow> bool res" where
  "peek_is_response d p = rbind (adv_unpack d p) (\<lambda>a. Inr (ad_p a \<and> ad_q a \<noteq> []))"

definition read_request_id :: "nat \<Rightarrow> bytes \<Rightarrow> bytes res" where
  "read_request_id d p = rbind (adv_unpack d p) (\<lambda>a. Inr (ad_q a))"

definition read_transfer_size :: "nat \<Rightarrow> bytes \<Rightarrow> u32 res" where
  "read_transfer_size d p = rbind (adv_unpack d p) (\<lambda>a. Inr (ad_t a))"

definition read_size :: "nat \<Rightarrow> bytes \<Rightarrow> u32 res" where
  "read_size d p = rbind (adv_unpack d p) (\<lambda>a. Inr (ad_d a))"

section \<open>What the decoder reads\<close>

text \<open>
  A member as a peer may send it: an integer or a blob under one of the known letters, \<open>q\<close> with an id
  or nil, or anything under a key the decoder does not know.
\<close>

datatype item = I_uint u8 u64 | I_bin u8 bytes | I_id bytes | I_other bytes mpv

definition known_key :: "bytes \<Rightarrow> bool" where
  "known_key k \<longleftrightarrow>
     (\<exists>c. k = [c] \<and> (uint_member c \<noteq> None \<or> bin_member c \<noteq> None \<or> c = 0x71))"

fun item_key :: "item \<Rightarrow> bytes" where
  "item_key (I_uint c v) = [c]"
| "item_key (I_bin c b) = [c]"
| "item_key (I_id b) = [0x71]"
| "item_key (I_other k v) = k"

fun item_value :: "item \<Rightarrow> bytes" where
  "item_value (I_uint c v) = pack_uint v"
| "item_value (I_bin c b) = pack_bin b"
| "item_value (I_id b) = (if b \<noteq> [] then pack_bin b else pack_nil)"
| "item_value (I_other k v) = mp_enc v"

definition item_enc :: "item \<Rightarrow> bytes" where
  "item_enc x = pack_str (item_key x) @ item_value x"

fun item_ok :: "nat \<Rightarrow> item \<Rightarrow> bool" where
  "item_ok d (I_uint c v) \<longleftrightarrow> uint_member c \<noteq> None"
| "item_ok d (I_bin c b) \<longleftrightarrow> uint_member c = None \<and> bin_member c \<noteq> None"
| "item_ok d (I_id b) \<longleftrightarrow> True"
| "item_ok d (I_other k v) \<longleftrightarrow> \<not> known_key k \<and> mp_depth v \<le> d"

fun item_set :: "item \<Rightarrow> adv \<Rightarrow> adv" where
  "item_set (I_uint c v) a = the (uint_member c) v a"
| "item_set (I_bin c b) a = the (bin_member c) b a"
| "item_set (I_id b) a = a\<lparr>ad_q := b\<rparr>"
| "item_set (I_other k v) a = a"

lemma pack_str_fixstr: "length k \<le> 31 \<Longrightarrow> pack_fixstr k = Inr (pack_str k)"
  by (simp add: pack_fixstr_def pack_str_def)

lemma read_uint_at:
  assumes "raw = pre @ pack_uint v @ rest" and "length raw < 2 ^ 32"
  shows "read_uint_into raw (of_nat (length raw)) (of_nat (length pre)) =
    Inr (v, of_nat (length (pre @ pack_uint v)))"
  using uint_codec.dec_at [OF TrueI assms] by (simp add: read_uint_into_def)

lemma read_bin_at:
  assumes "raw = pre @ pack_bin b @ rest" and "length raw < 2 ^ 31"
  shows "read_bin_into raw (of_nat (length raw)) (of_nat (length pre)) =
    Inr (b, of_nat (length (pre @ pack_bin b)))"
proof -
  have "length b < 2 ^ 31" using assms by (simp add: length_pack_bin)
  from bin_codec.dec_at [OF this assms(1)] assms(2) show ?thesis by (simp add: read_bin_into_def)
qed

lemma read_id_at:
  assumes raw: "raw = pre @ (if b \<noteq> [] then pack_bin b else pack_nil) @ rest" and len: "length raw < 2 ^ 31"
  shows "read_bin_or_nil_into raw (of_nat (length raw)) (of_nat (length pre)) =
    Inr (b, of_nat (length (pre @ (if b \<noteq> [] then pack_bin b else pack_nil))))"
proof -
  have pos: "length pre < length raw"
    using raw by (auto simp: pack_nil_def pack_bin_def Let_def)
  have u: "unat (of_nat (length pre) :: usize) = length pre"
    "unat (of_nat (length raw) :: usize) = length raw"
    using len pos by (auto intro!: of_nat_unat_less)
  have lt: "\<not> (of_nat (length raw) :: usize) \<le> of_nat (length pre)"
    using u pos by (simp add: word_le_nat_alt)
  show ?thesis
  proof (cases "b = []")
    case True
    then have "rd raw (length pre) = Inr 0xc0" using raw by (simp add: pack_nil_def rd_def nth_append)
    then show ?thesis using True lt u by (simp add: read_bin_or_nil_into_def pack_nil_def)
  next
    case False
    obtain t bs where t: "pack_bin b = t # bs" "t \<noteq> 0xc0"
      by (rule that [of "hd (pack_bin b)" "tl (pack_bin b)"]) (simp_all add: pack_bin_def Let_def)
    have "rd raw (length pre) = Inr t" using raw False t(1) by (simp add: rd_def nth_append)
    moreover have "raw = pre @ pack_bin b @ rest" using raw False by simp
    note read_bin_at [OF this len]
    ultimately show ?thesis using False lt u t(2) by (simp add: read_bin_or_nil_into_def)
  qed
qed

lemma skip_at:
  assumes "raw = pre @ mp_enc v @ rest" and "length raw < 2 ^ 32" and "mp_depth v \<le> d"
  shows "adv_skip d raw (of_nat (length raw)) (of_nat (length pre)) a =
    Inr (a, of_nat (length (pre @ mp_enc v)))"
  using skip_codec.dec_at [OF assms(3) assms(1,2)]
  by (auto simp: adv_skip_def skip_unit_def rbind_eq_Inr)

lemma unknown_key_skips:
  assumes "\<not> known_key k"
  shows "adv_member d p n k off a = adv_skip d p n off a"
proof (cases k)
  case (Cons c cs)
  then show ?thesis
    using assms by (cases cs) (auto simp: adv_member_def known_key_def split: option.split)
qed (simp add: adv_member_def)

lemma member_at:
  assumes raw: "raw = pre @ item_value x @ rest" and len: "length raw < 2 ^ 31" and ok: "item_ok d x"
  shows "adv_member d raw (of_nat (length raw)) (item_key x) (of_nat (length pre)) a =
    Inr (item_set x a, of_nat (length (pre @ item_value x)))"
proof (cases x)
  case (I_uint c v)
  then show ?thesis
    using read_uint_at [of raw pre v rest] raw len ok by (auto simp: adv_member_def)
next
  case (I_bin c b)
  then show ?thesis
    using read_bin_at [of raw pre b rest] raw len ok by (auto simp: adv_member_def)
next
  case (I_id b)
  have "uint_member 0x71 = None" "bin_member 0x71 = None" by code_simp+
  then show ?thesis
    using I_id read_id_at [of raw pre b rest] raw len by (simp add: adv_member_def)
next
  case (I_other k v)
  then show ?thesis
    using skip_at [of raw pre v rest d a] raw len ok by (simp add: unknown_key_skips)
qed

lemma members_at:
  assumes "raw = pre @ concat (map item_enc xs) @ rest" and "length raw < 2 ^ 31"
    and "\<forall>x \<in> set xs. item_ok d x"
  shows "adv_members d raw (of_nat (length raw)) (length xs) (of_nat (length pre)) a =
    Inr (fold item_set xs a)"
  using assms
proof (induction xs arbitrary: pre a)
  case Nil
  then show ?case by simp
next
  case (Cons x xs)
  let ?k = "pack_str (item_key x)"
  have raw: "raw = pre @ ?k @ item_value x @ concat (map item_enc xs) @ rest"
    using Cons.prems(1) by (simp add: item_enc_def [of x])
  have "length (item_key x) < 2 ^ 31" using raw Cons.prems(2) by (simp add: length_pack_str)
  from str_codec.dec_at [OF this raw] Cons.prems(2)
  have key: "unpack_str (drop (unat (of_nat (length pre) :: usize)) raw)
      (of_nat (length raw) - of_nat (length pre)) = Inr (item_key x, of_nat (length ?k))"
    by simp
  have raw': "raw = (pre @ ?k) @ item_value x @ (concat (map item_enc xs) @ rest)"
    using raw by simp
  have ok: "item_ok d x" using Cons.prems(3) by simp
  have rest: "adv_members d raw (of_nat (length raw)) (length xs)
      (of_nat (length ((pre @ ?k) @ item_value x))) (item_set x a) = Inr (fold item_set xs (item_set x a))"
    using Cons.prems raw by (intro Cons.IH) simp_all
  have pos: "(of_nat (length pre) :: usize) + of_nat (length ?k) = of_nat (length (pre @ ?k))" by simp
  have "adv_members d raw (of_nat (length raw)) (length (x # xs)) (of_nat (length pre)) a =
      adv_members d raw (of_nat (length raw)) (length xs)
        (of_nat (length ((pre @ ?k) @ item_value x))) (item_set x a)"
    unfolding list.size(4) add_Suc_right add_0_right adv_members.simps key rbind_Inr prod.case pos
      member_at [OF raw' Cons.prems(2) ok] by simp
  then show ?case using rest by simp
qed

lemma length_item_enc_pos: "1 \<le> length (item_enc x)"
  by (simp add: item_enc_def pack_str_def Let_def)

lemma adv_unpack_items:
  assumes "raw = pack_map_header (of_nat (length xs)) @ concat (map item_enc xs)"
    and "length raw < 2 ^ 31" and "\<forall>x \<in> set xs. item_ok d x"
  shows "adv_unpack d raw = Inr (derive_bits (fold item_set xs adv_object))"
proof -
  let ?hdr = "pack_map_header (of_nat (length xs))"
  have "length xs \<le> length (concat (map item_enc xs))"
    using length_item_enc_pos by (intro length_le_concat) simp
  then have "length xs < 2 ^ 32" using assms(1,2) by simp
  then have c: "unat (of_nat (length xs) :: usize) = length xs" by (intro of_nat_unat_less) simp
  have raw: "raw = [] @ ?hdr @ concat (map item_enc xs)" using assms(1) by simp
  have hdr: "unpack_map_header raw (of_nat (length raw)) = Inr (of_nat (length xs), of_nat (length ?hdr))"
    using map_codec.dec_at [OF TrueI raw] assms(2) by simp
  have "raw = ?hdr @ concat (map item_enc xs) @ []" using assms(1) by simp
  from members_at [OF this assms(2,3)] show ?thesis
    by (simp add: adv_unpack_def hdr c)
qed

section \<open>Round trip\<close>

definition adv_items :: "adv \<Rightarrow> item list" where
  "adv_items a = [I_uint 0x74 (ucast (ad_t a)), I_uint 0x64 (ucast (ad_d a)), I_uint 0x6e (ucast (ad_n a)),
     I_bin 0x68 (ad_h a), I_bin 0x72 (ad_r a), I_bin 0x6f (ad_o a), I_uint 0x69 (ucast (ad_i a)),
     I_uint 0x6c (ucast (ad_l a)), I_id (ad_q a), I_uint 0x66 (ucast (ad_f a)), I_bin 0x6d (ad_m a)]"

lemma adv_pack_items:
  "adv_pack a = Inr (pack_map_header (of_nat (length (adv_items a))) @ concat (map item_enc (adv_items a)))"
  by (simp add: adv_pack_def adv_items_def put_uint_def put_bin_def put_bin_or_nil_def put_key_def
      pack_str_fixstr item_enc_def)

lemma adv_items_ok: "\<forall>x \<in> set (adv_items a). item_ok d x"
proof -
  have "\<forall>c \<in> set [0x74, 0x64, 0x6e, 0x69, 0x6c, 0x66]. uint_member c \<noteq> None"
    and "\<forall>c \<in> set [0x68, 0x72, 0x6f, 0x6d]. uint_member c = None \<and> bin_member c \<noteq> None"
    by (simp_all add: uint_member_def bin_member_def)
  then show ?thesis by (simp add: adv_items_def)
qed

lemma ucast_up_down [simp]:
  "(ucast (ucast (w :: u32) :: u64) :: u32) = w" "(ucast (ucast (b :: u8) :: u64) :: u8) = b"
  by (simp_all add: unsigned_ucast_eq take_bit_word_eq_self)

lemma adv_items_set: "fold item_set (adv_items a) adv_object = a\<lparr>ad_e := False, ad_c := False,
    ad_s := False, ad_u := False, ad_p := False, ad_x := False\<rparr>"
  by (cases a) (simp add: adv_items_def uint_member_def bin_member_def adv_object_def)

lemma adv_items_unknown: "\<forall>y \<in> set ys. \<exists>k v. y = I_other k v \<Longrightarrow> fold item_set ys a = a"
  by (induction ys arbitrary: a) auto

text \<open>The two decompositions of a flags byte agree: the advertisement's bits and the resource's flags.\<close>

definition bits_agree :: "u8 \<Rightarrow> bool" where
  "bits_agree w \<longleftrightarrow>
     from_byte w = \<lparr>fl_encrypted = (w AND 0x01 \<noteq> 0), fl_compressed = (drop_bit 1 w AND 0x01 \<noteq> 0),
       fl_split = (drop_bit 2 w AND 0x01 \<noteq> 0), fl_is_request = (drop_bit 3 w AND 0x01 \<noteq> 0),
       fl_is_response = (drop_bit 4 w AND 0x01 \<noteq> 0), fl_has_metadata = (drop_bit 5 w AND 0x01 \<noteq> 0)\<rparr>"

lemma bits_agree_all: "bits_agree w"
proof (rule all_bytes)
  show "\<forall>k \<in> set [0..<256]. bits_agree (of_nat k)" by code_simp
qed

lemma derive_bits_flags:
  "from_byte (ad_f a) = \<lparr>fl_encrypted = ad_e (derive_bits a), fl_compressed = ad_c (derive_bits a),
     fl_split = ad_s (derive_bits a), fl_is_request = ad_u (derive_bits a),
     fl_is_response = ad_p (derive_bits a), fl_has_metadata = ad_x (derive_bits a)\<rparr>"
  using bits_agree_all [of "ad_f a"] by (simp add: bits_agree_def derive_bits_def)

lemma adv_pack_body: "adv_pack a = Inr raw \<Longrightarrow> drop 1 raw = concat (map item_enc (adv_items a))"
  by (auto simp: adv_pack_items pack_map_header_def adv_items_def)

lemma pack_map_header_11: "pack_map_header 11 = [0x8b]"
  by code_simp

lemma adv_pack_unpack:
  assumes "adv_pack a = Inr raw" and "length raw < 2 ^ 31"
  shows "adv_unpack d raw = Inr (derive_bits a)"
proof -
  have raw: "raw = pack_map_header (of_nat (length (adv_items a))) @ concat (map item_enc (adv_items a))"
    using assms(1) by (simp add: adv_pack_items)
  from adv_unpack_items [OF raw assms(2) adv_items_ok] show ?thesis
    by (simp add: adv_items_set) (simp add: derive_bits_def)
qed

text \<open>C38: an advertisement survives the wire: what \<open>pack\<close> writes, \<open>unpack\<close> returns, every member and the
  six bits of the flags byte, also when the sender's map holds further members under keys this version
  does not know, with values of the kinds and the encodings the writers of \<open>MsgPack.h\<close> produce (nil,
  booleans, integers, floats, strings, binaries, arrays and maps in their shortest form, nested no deeper than
  the stack allows; no extension types, on which \<open>skip_value\<close> throws); those are stepped over exactly.\<close>

lemma adv_roundtrip:
  assumes "adv_pack a = Inr packed"
    and "raw = pack_map_header (of_nat (11 + length ys)) @ drop 1 packed @ concat (map item_enc ys)"
    and "length raw < 2 ^ 31"
    and "\<forall>y \<in> set ys. (\<exists>k v. y = I_other k v) \<and> item_ok d y"
  shows "adv_unpack d raw = Inr (derive_bits a)"
proof -
  have len: "length (adv_items a @ ys) = 11 + length ys" by (simp add: adv_items_def)
  have "raw = pack_map_header (of_nat (length (adv_items a @ ys))) @ concat (map item_enc (adv_items a @ ys))"
    unfolding len assms(2) adv_pack_body [OF assms(1)] by simp
  moreover have "\<forall>x \<in> set (adv_items a @ ys). item_ok d x"
    using adv_items_ok assms(4) by auto
  ultimately have "adv_unpack d raw = Inr (derive_bits (fold item_set (adv_items a @ ys) adv_object))"
    using assms(3) by (intro adv_unpack_items)
  moreover have "fold item_set ys b = b" for b using assms(4) by (intro adv_items_unknown) auto
  ultimately show ?thesis by (simp add: adv_items_set) (simp add: derive_bits_def)
qed

definition sample_adv :: adv where
  "sample_adv = adv_object\<lparr>ad_t := 1000, ad_d := 900, ad_n := 3, ad_h := [1, 2], ad_r := [9], ad_f := 0x11\<rparr>"

lemma adv_roundtrip_witness:
  "adv_unpack 2 (pack_map_header 12 @ drop 1 (projr (adv_pack sample_adv)) @
     item_enc (I_other [122] (MArr [MNil, MUint 5]))) = Inr (sample_adv\<lparr>ad_e := True, ad_p := True\<rparr>)"
proof -
  let ?ys = "[I_other [122] (MArr [MNil, MUint 5])]"
  let ?raw = "pack_map_header 12 @ drop 1 (projr (adv_pack sample_adv)) @ item_enc (I_other [122] (MArr [MNil, MUint 5]))"
  have p: "adv_pack sample_adv = Inr (projr (adv_pack sample_adv))" by (simp add: adv_pack_items)
  have raw: "?raw = pack_map_header (of_nat (11 + length ?ys)) @ drop 1 (projr (adv_pack sample_adv)) @
      concat (map item_enc ?ys)" by simp
  have "length ?raw = 50" by code_simp
  then have len: "length ?raw < 2 ^ 31" by simp
  have "\<forall>y \<in> set ?ys. (\<exists>k v. y = I_other k v) \<and> item_ok 2 y"
    by (simp add: known_key_def uint_member_def bin_member_def)
  from adv_roundtrip [OF p raw len this] have "adv_unpack 2 ?raw = Inr (derive_bits sample_adv)" .
  moreover have "derive_bits sample_adv = sample_adv\<lparr>ad_e := True, ad_p := True\<rparr>" by code_simp
  ultimately show ?thesis by simp
qed

end
