(* ===== verification/Resource.thy ===== *)
theory Resource
  imports ResAdv Packet
begin

text \<open>
  The resource transfer engine: \<open>Resource.cpp\<close> on the state of \<open>ResourceData.h\<close>.

  A resource is sent in parts of \<open>RES_SDU\<close> bytes of its encrypted stream. The receiver pulls them: it
  asks for a window of parts by their four-byte map hashes, and for the next segment of the map
  when it has used up the one it knows. When all parts are there it decrypts, decompresses, compares
  the hash and returns a proof.

  \<open>renv\<close> holds what the engine calls: SHA-256, the link's cipher, libbz2, the packet layer (\<open>re_send\<close> is
  the fault a packet's construction or \<open>send\<close> throws, if it does), the link's state, and whether the
  heap can serve the tables of n parts. An operation returns the state it leaves, with the fault
  when a throw ended it. Fields \<open>rs_out\<close>, \<open>rs_concluded\<close> and \<open>rs_progressed\<close> record what the resource does
  to its surroundings: the packets it has handed over, the statuses its concluded callback has
  seen and the number of progress calls; the callbacks themselves are the application's. The clock is
  read once per operation. Part counts and byte counters are natural numbers (the parts are in
  memory, so no count reaches 2^32), window sizes keep their 32 bits.
\<close>

section \<open>Constants\<close>

definition RES_WINDOW :: usize where "RES_WINDOW = 4"
definition RES_WINDOW_MIN :: usize where "RES_WINDOW_MIN = 2"
definition RES_WINDOW_MAX_SLOW :: usize where "RES_WINDOW_MAX_SLOW = 10"
definition RES_WINDOW_MAX_VERY_SLOW :: usize where "RES_WINDOW_MAX_VERY_SLOW = 4"
definition RES_WINDOW_MAX_FAST :: usize where "RES_WINDOW_MAX_FAST = 75"
definition RES_FAST_RATE_THRESHOLD :: nat where "RES_FAST_RATE_THRESHOLD = 10 - 4 - 2"
definition VERY_SLOW_RATE_THRESHOLD :: nat where "VERY_SLOW_RATE_THRESHOLD = 2"
definition RATE_FAST :: secs where "RATE_FAST = 6250"
definition RATE_VERY_SLOW :: secs where "RATE_VERY_SLOW = 250"
definition RES_WINDOW_FLEXIBILITY :: usize where "RES_WINDOW_FLEXIBILITY = 4"
definition MAPHASH_LEN :: nat where "MAPHASH_LEN = 4"
definition RES_SDU :: nat where "RES_SDU = MDU"
definition RANDOM_HASH_SIZE :: nat where "RANDOM_HASH_SIZE = 4"
definition AUTO_COMPRESS_MAX_SIZE :: nat where "AUTO_COMPRESS_MAX_SIZE = 16 * 1024 * 1024 - 1"
definition PART_TIMEOUT_FACTOR :: nat where "PART_TIMEOUT_FACTOR = 4"
definition PART_TIMEOUT_FACTOR_AFTER_RTT :: nat where "PART_TIMEOUT_FACTOR_AFTER_RTT = 2"
definition PROOF_TIMEOUT_FACTOR :: nat where "PROOF_TIMEOUT_FACTOR = 3"
definition HMU_WAIT_FACTOR :: secs where "HMU_WAIT_FACTOR = 3.5"
definition MAX_RETRIES :: int where "MAX_RETRIES = 16"
definition MAX_ADV_RETRIES :: int where "MAX_ADV_RETRIES = 4"
definition SENDER_GRACE_TIME :: secs where "SENDER_GRACE_TIME = 10"
definition PROCESSING_GRACE :: secs where "PROCESSING_GRACE = 1"
definition RETRY_GRACE_TIME :: secs where "RETRY_GRACE_TIME = 0.25"
definition PER_RETRY_DELAY :: secs where "PER_RETRY_DELAY = 0.5"
definition HASHMAP_IS_NOT_EXHAUSTED :: u8 where "HASHMAP_IS_NOT_EXHAUSTED = 0x00"
definition HASHMAP_IS_EXHAUSTED :: u8 where "HASHMAP_IS_EXHAUSTED = 0xff"
definition ADV_OVERHEAD :: nat where "ADV_OVERHEAD = 134"
definition HASHMAP_MAX_LEN :: nat where "HASHMAP_MAX_LEN = (LINK_MDU - ADV_OVERHEAD) div MAPHASH_LEN"
definition REQ_HASHLIST_MAX :: nat where "REQ_HASHLIST_MAX = 64"

lemma res_const_values:
  "HASHMAP_MAX_LEN = 74" "RES_SDU = 464" "MAPHASH_LEN = 4" "RANDOM_HASH_SIZE = 4"
  by (simp_all add: HASHMAP_MAX_LEN_def ADV_OVERHEAD_def MAPHASH_LEN_def RES_SDU_def RANDOM_HASH_SIZE_def
      const_values)

section \<open>State\<close>

datatype rs_status = RS_NONE | RS_QUEUED | RS_ADVERTISED | RS_TRANSFERRING | RS_AWAITING_PROOF
  | RS_ASSEMBLING | RS_COMPLETE | RS_FAILED | RS_CORRUPT

record rcore =
  rs_hash :: bytes
  rs_request_id :: bytes
  rs_data :: bytes
  rs_status :: rs_status
  rs_size :: nat
  rs_total_size :: nat
  rs_concluded_cb :: bool
  rs_progress_cb :: bool
  rs_outbound :: bool
  rs_parts :: "bytes list"
  rs_hashmap :: bytes
  rs_resource_hash :: bytes
  rs_random_hash :: bytes
  rs_original_hash :: bytes
  rs_expected_proof :: bytes
  rs_map_hashes :: "bytes list"
  rs_hash_known :: "bool list"
  rs_transfer_size :: nat
  rs_data_size :: nat
  rs_total_parts :: nat
  rs_received :: nat
  rs_consec :: int
  rs_hashmap_height :: nat
  rs_waiting_hmu :: bool
  rs_window :: usize
  rs_flags :: rflags
  rs_started_at :: secs
  rs_timeout :: secs

record rwatch = rcore +
  rs_last_activity :: secs
  rs_adv_sent :: secs
  rs_last_part_sent :: secs
  rs_req_sent :: secs
  rs_req_resp :: secs
  rs_rtt :: secs
  rs_retries_left :: int
  rs_timeout_factor :: u8
  rs_part_timeout_factor :: nat
  rs_window_max :: usize
  rs_window_min :: usize
  rs_window_flexibility :: usize
  rs_fast_rate_rounds :: nat
  rs_very_slow_rate_rounds :: nat
  rs_outstanding_parts :: nat

record resource = rwatch +
  rs_req_sent_bytes :: nat
  rs_rtt_rxd_bytes :: nat
  rs_rtt_rxd_bytes_at_part_req :: nat
  rs_req_resp_rtt_rate :: secs
  rs_req_data_rtt_rate :: secs
  rs_eifr :: secs
  rs_part_sent :: "bool list"
  rs_sent_parts :: nat
  rs_req_hashlist :: "bytes list"
  rs_registered :: bool
  rs_out :: "(packet_type \<times> u8 \<times> bytes) list"
  rs_concluded :: "rs_status list"
  rs_progressed :: nat

definition resource_object :: resource where
  "resource_object = \<lparr>rs_hash = [], rs_request_id = [], rs_data = [], rs_status = RS_NONE, rs_size = 0,
     rs_total_size = 0, rs_concluded_cb = False, rs_progress_cb = False, rs_outbound = False,
     rs_parts = [], rs_hashmap = [], rs_resource_hash = replicate 32 0, rs_random_hash = replicate 4 0,
     rs_original_hash = replicate 32 0, rs_expected_proof = [], rs_map_hashes = [], rs_hash_known = [],
     rs_transfer_size = 0, rs_data_size = 0, rs_total_parts = 0, rs_received = 0, rs_consec = -1,
     rs_hashmap_height = 0, rs_waiting_hmu = False, rs_window = RES_WINDOW, rs_flags = flags_default,
     rs_started_at = 0, rs_timeout = 0, rs_last_activity = 0, rs_adv_sent = 0, rs_last_part_sent = 0,
     rs_req_sent = 0, rs_req_resp = -1, rs_rtt = 0, rs_retries_left = 0, rs_timeout_factor = 1,
     rs_part_timeout_factor = PART_TIMEOUT_FACTOR, rs_window_max = RES_WINDOW_MAX_SLOW,
     rs_window_min = RES_WINDOW_MIN, rs_window_flexibility = RES_WINDOW_FLEXIBILITY,
     rs_fast_rate_rounds = 0, rs_very_slow_rate_rounds = 0, rs_outstanding_parts = 0,
     rs_req_sent_bytes = 0, rs_rtt_rxd_bytes = 0, rs_rtt_rxd_bytes_at_part_req = 0,
     rs_req_resp_rtt_rate = 0, rs_req_data_rtt_rate = 0, rs_eifr = 0, rs_part_sent = [],
     rs_sent_parts = 0, rs_req_hashlist = [], rs_registered = False, rs_out = [], rs_concluded = [],
     rs_progressed = 0\<rparr>"

record renv =
  re_hash :: "bytes \<Rightarrow> bytes"
  re_encrypt :: "bytes \<Rightarrow> bytes res"
  re_decrypt :: "bytes \<Rightarrow> bytes"
  re_bz_compress :: "bytes \<Rightarrow> nat \<Rightarrow> bytes option"
  re_bz_decompress :: "bytes \<Rightarrow> nat \<Rightarrow> bytes option"
  re_send :: "packet_type \<Rightarrow> u8 \<Rightarrow> bytes \<Rightarrow> fault option"
  re_link :: lnk
  re_cost :: u16
  re_alloc :: "nat \<Rightarrow> bool"
  re_depth :: nat

type_synonym rstep = "resource \<times> fault option"

definition and_then :: "rstep \<Rightarrow> (resource \<Rightarrow> rstep) \<Rightarrow> rstep" where
  "and_then m f = (case m of (d, Some x) \<Rightarrow> (d, Some x) | (d, None) \<Rightarrow> f d)"

definition emit :: "renv \<Rightarrow> packet_type \<Rightarrow> u8 \<Rightarrow> bytes \<Rightarrow> resource \<Rightarrow> rstep" where
  "emit e pt ctx payload d =
    (case re_send e pt ctx payload of
       Some f \<Rightarrow> (d, Some f)
     | None \<Rightarrow> (d\<lparr>rs_out := rs_out d @ [(pt, ctx, payload)]\<rparr>, None))"

definition call_concluded :: "resource \<Rightarrow> resource" where
  "call_concluded d =
     (if rs_concluded_cb d then d\<lparr>rs_concluded := rs_concluded d @ [rs_status d]\<rparr> else d)"

definition call_progress :: "resource \<Rightarrow> resource" where
  "call_progress d = (if rs_progress_cb d then d\<lparr>rs_progressed := Suc (rs_progressed d)\<rparr> else d)"

section \<open>Hashes and compression\<close>

definition rns_map_hash :: "renv \<Rightarrow> bytes \<Rightarrow> bytes \<Rightarrow> bytes" where
  "rns_map_hash e d rh = take MAPHASH_LEN (re_hash e (d @ rh))"

definition rns_full_hash2 :: "renv \<Rightarrow> bytes \<Rightarrow> bytes \<Rightarrow> bytes" where
  "rns_full_hash2 e a b = re_hash e (a @ b)"

text \<open>
  \<open>re_bz_decompress\<close> is the output of the stream decoder with the given bound, \<open>None\<close> when it does not
  reach the end of the stream within it; \<open>re_bz_compress\<close> the output of the one-shot compressor.
\<close>

definition bz2_stream_decompress :: "renv \<Rightarrow> bytes \<Rightarrow> nat \<Rightarrow> bytes option" where
  "bz2_stream_decompress e b cap =
    (if length b < 4 \<or> b ! 0 \<noteq> 0x42 \<or> b ! 1 \<noteq> 0x5a \<or> b ! 2 \<noteq> 0x68 \<or> b ! 3 < 0x31 \<or> b ! 3 > 0x39 then None
     else re_bz_decompress e b cap)"

definition bz2_decompress :: "renv \<Rightarrow> bytes \<Rightarrow> nat \<Rightarrow> bytes option" where
  "bz2_decompress e b out_size =
    (if out_size = 0 then Some []
     else case bz2_stream_decompress e b out_size of
       None \<Rightarrow> None
     | Some out \<Rightarrow> if length out \<noteq> out_size then None else Some out)"

definition bz2_decompress_bounded :: "renv \<Rightarrow> bytes \<Rightarrow> nat \<Rightarrow> bytes option" where
  "bz2_decompress_bounded e b max_out =
    (if b = [] then Some [] else if max_out = 0 then None else bz2_stream_decompress e b max_out)"

definition bz2_compress :: "renv \<Rightarrow> bytes \<Rightarrow> bytes option" where
  "bz2_compress e b =
    (if b = [] then None
     else case re_bz_compress e b (length b + length b div 100 + 600) of
       None \<Rightarrow> None
     | Some c \<Rightarrow> if length b \<le> length c then None else Some c)"

section \<open>Sending\<close>

definition advertisement :: "resource \<Rightarrow> adv" where
  "advertisement d = adv_object\<lparr>
     ad_t := of_nat (rs_transfer_size d), ad_d := of_nat (rs_data_size d), ad_n := of_nat (rs_total_parts d),
     ad_h := rs_resource_hash d, ad_r := rs_random_hash d, ad_o := rs_original_hash d, ad_i := 1, ad_l := 1,
     ad_q := rs_request_id d,
     ad_m := take (min (rs_total_parts d) HASHMAP_MAX_LEN * MAPHASH_LEN) (rs_hashmap d),
     ad_e := fl_encrypted (rs_flags d), ad_c := fl_compressed (rs_flags d), ad_s := fl_split (rs_flags d),
     ad_u := fl_is_request (rs_flags d), ad_p := fl_is_response (rs_flags d),
     ad_x := fl_has_metadata (rs_flags d), ad_f := to_byte (rs_flags d)\<rparr>"

text \<open>The advertisement's constructor from a resource, which leaves the fields it cannot see at their defaults.\<close>

definition adv_of_resource :: "resource \<Rightarrow> bytes \<Rightarrow> bool \<Rightarrow> adv" where
  "adv_of_resource d q is_response =
    (let a = adv_object\<lparr>ad_t := of_nat (rs_size d), ad_d := of_nat (rs_total_size d), ad_n := 0,
               ad_h := rs_hash d, ad_i := 1, ad_l := 1, ad_q := q\<rparr>;
         a = (if q \<noteq> [] then a\<lparr>ad_p := is_response, ad_u := \<not> is_response\<rparr> else a)
     in a\<lparr>ad_f :=
          (if ad_x a then push_bit 5 1 else 0) OR (if ad_p a then push_bit 4 1 else 0) OR
          (if ad_u a then push_bit 3 1 else 0) OR (if ad_s a then push_bit 2 1 else 0) OR
          (if ad_c a then push_bit 1 1 else 0) OR (if ad_e a then push_bit 0 1 else 0)\<rparr>)"

definition advertise :: "renv \<Rightarrow> secs \<Rightarrow> resource \<Rightarrow> rstep" where
  "advertise e now d =
    (case adv_pack (advertisement d) of
       Inl f \<Rightarrow> (d, Some f)
     | Inr packed \<Rightarrow>
         and_then (emit e DATA RESOURCE_ADV packed d) (\<lambda>d.
           (d\<lparr>rs_adv_sent := now, rs_last_activity := now, rs_rtt := 0, rs_status := RS_ADVERTISED\<rparr>, None)))"

text \<open>The loop over the encrypted stream: part \<open>i\<close> is at most \<open>RES_SDU\<close> bytes from offset \<open>i * RES_SDU\<close>.\<close>

definition part_chunks :: "bytes \<Rightarrow> bytes list" where
  "part_chunks b = map (\<lambda>i. take RES_SDU (drop (i * RES_SDU) b)) [0..<(length b + RES_SDU - 1) div RES_SDU]"

definition init_outbound ::
    "renv \<Rightarrow> secs \<Rightarrow> bytes \<Rightarrow> bytes \<Rightarrow> bytes \<Rightarrow> bool \<Rightarrow> bytes \<Rightarrow> bool \<Rightarrow> bool \<Rightarrow> bool \<Rightarrow> resource \<Rightarrow> rstep" where
  "init_outbound e now srh rh plaintext adv request_id is_request is_response auto_compress d =
    (let packed = (if auto_compress \<and> length plaintext \<le> AUTO_COMPRESS_MAX_SIZE
                   then bz2_compress e plaintext else None);
         on_wire = (case packed of Some c \<Rightarrow> c | None \<Rightarrow> plaintext);
         d = d\<lparr>rs_outbound := True, rs_request_id := request_id, rs_data_size := length plaintext,
               rs_total_size := length plaintext,
               rs_flags := (rs_flags d)\<lparr>fl_encrypted := True, fl_is_request := is_request,
                              fl_is_response := is_response, fl_compressed := packed \<noteq> None\<rparr>\<rparr>
     in case re_encrypt e (take RANDOM_HASH_SIZE srh @ on_wire) of
          Inl f \<Rightarrow> (d, Some f)
        | Inr encrypted \<Rightarrow>
            if encrypted = [] then (d\<lparr>rs_status := RS_FAILED\<rparr>, None)
            else
              let random = take RANDOM_HASH_SIZE rh;
                  rhash = take 32 (rns_full_hash2 e plaintext random);
                  parts = part_chunks encrypted;
                  d = d\<lparr>rs_transfer_size := length encrypted, rs_size := length encrypted,
                        rs_random_hash := random, rs_resource_hash := rhash, rs_original_hash := rhash,
                        rs_hash := rhash, rs_expected_proof := rns_full_hash2 e plaintext rhash,
                        rs_parts := parts,
                        rs_hashmap := concat (map (\<lambda>c. rns_map_hash e c random) parts),
                        rs_total_parts := length parts, rs_part_sent := replicate (length parts) False,
                        rs_sent_parts := 0, rs_status := RS_ADVERTISED,
                        rs_timeout_factor := ln_ttf (re_link e)\<rparr>;
                  d = (if rs_timeout d \<le> 0
                       then d\<lparr>rs_timeout := ln_rtt (re_link e) * of_nat (unat (rs_timeout_factor d))\<rparr>
                       else d);
                  d = d\<lparr>rs_retries_left := MAX_ADV_RETRIES, rs_registered := True\<rparr>
              in if adv then advertise e now d else (d, None))"

text \<open>The two constructors: a request or response carried as a resource, and the application's.\<close>

definition resource_for_request ::
    "renv \<Rightarrow> secs \<Rightarrow> bytes \<Rightarrow> bytes \<Rightarrow> bytes \<Rightarrow> bytes \<Rightarrow> bool \<Rightarrow> secs \<Rightarrow> rstep" where
  "resource_for_request e now srh rh b request_id is_response timeout =
     init_outbound e now srh rh b True request_id (\<not> is_response) is_response True
       (resource_object\<lparr>rs_timeout := timeout\<rparr>)"

definition resource_new ::
    "renv \<Rightarrow> secs \<Rightarrow> bytes \<Rightarrow> bytes \<Rightarrow> bytes \<Rightarrow> bool \<Rightarrow> bool \<Rightarrow> bool \<Rightarrow> bool \<Rightarrow> secs \<Rightarrow> bytes \<Rightarrow> bool \<Rightarrow> rstep" where
  "resource_new e now srh rh b adv auto_compress cb pcb timeout request_id is_response =
     init_outbound e now srh rh b adv request_id (request_id \<noteq> [] \<and> \<not> is_response) is_response auto_compress
       (resource_object\<lparr>rs_timeout := timeout, rs_concluded_cb := cb, rs_progress_cb := pcb\<rparr>)"

definition cancel :: "renv \<Rightarrow> resource \<Rightarrow> rstep" where
  "cancel e d =
    (if rs_status d \<noteq> RS_COMPLETE then
       let d = d\<lparr>rs_status := RS_FAILED\<rparr> in
       and_then
         (if rs_outbound d \<and> ln_status (re_link e) = ACTIVE
          then emit e DATA RESOURCE_ICL (rs_resource_hash d) d else (d, None))
         (\<lambda>d. (call_concluded d, None))
     else (call_concluded d, None))"

text \<open>One pass over the requested hashes: each is answered with the first part that has it.\<close>

function serve :: "renv \<Rightarrow> secs \<Rightarrow> bytes \<Rightarrow> resource \<Rightarrow> rstep" where
  "serve e now w d =
    (if MAPHASH_LEN \<le> length w then
       case first_index (\<lambda>p. rns_map_hash e p (rs_random_hash d) = take MAPHASH_LEN w) (rs_parts d) of
         None \<Rightarrow> serve e now (drop MAPHASH_LEN w) d
       | Some i \<Rightarrow>
           and_then (emit e DATA RESOURCE (rs_parts d ! i) d) (\<lambda>d.
             serve e now (drop MAPHASH_LEN w)
               ((if i < length (rs_part_sent d) \<and> \<not> rs_part_sent d ! i
                 then d\<lparr>rs_part_sent := (rs_part_sent d)[i := True], rs_sent_parts := Suc (rs_sent_parts d)\<rparr>
                 else d)\<lparr>rs_last_activity := now, rs_last_part_sent := now\<rparr>))
     else (d, None))"
  by pat_completeness auto
termination
  by (relation "measure (\<lambda>(e, now, w, d). length w)") (auto simp: MAPHASH_LEN_def)

declare serve.simps [simp del]

definition hashmap_at :: "resource \<Rightarrow> nat \<Rightarrow> bytes" where
  "hashmap_at d i = take MAPHASH_LEN (drop (i * MAPHASH_LEN) (rs_hashmap d))"

text \<open>The reply to an exhausted map: the segment after the one that ends with the receiver's last hash.\<close>

definition hmu_payload :: "resource \<Rightarrow> nat \<Rightarrow> bytes" where
  "hmu_payload d segment =
    (let hm_start = segment * HASHMAP_MAX_LEN;
         hm_end = min ((segment + 1) * HASHMAP_MAX_LEN) (rs_total_parts d)
     in rs_resource_hash d @ pack_array_header 2 @ pack_uint (of_nat segment) @
        (if hm_start < hm_end \<and> hm_end * MAPHASH_LEN \<le> length (rs_hashmap d)
         then pack_bin (take ((hm_end - hm_start) * MAPHASH_LEN) (drop (hm_start * MAPHASH_LEN) (rs_hashmap d)))
         else pack_bin []))"

definition send_hmu :: "renv \<Rightarrow> secs \<Rightarrow> bytes \<Rightarrow> resource \<Rightarrow> rstep \<times> bool" where
  "send_hmu e now last_map_hash d =
    (case first_index (\<lambda>i. hashmap_at d i = last_map_hash)
            [0..<min (rs_total_parts d) (length (rs_hashmap d) div MAPHASH_LEN)] of
       None \<Rightarrow> (cancel e d, False)
     | Some i \<Rightarrow>
         if (i + 1) mod HASHMAP_MAX_LEN \<noteq> 0 then (cancel e d, False)
         else (and_then (emit e DATA RESOURCE_HMU (hmu_payload d ((i + 1) div HASHMAP_MAX_LEN)) d)
                 (\<lambda>d. (d\<lparr>rs_last_activity := now\<rparr>, None)), True))"

text \<open>After a segment error the handler returns at once; \<open>finish_request\<close> is the tail it then skips.\<close>

definition finish_request :: "resource \<Rightarrow> resource" where
  "finish_request d =
    (if length (rs_parts d) \<le> rs_sent_parts d
     then d\<lparr>rs_status := RS_AWAITING_PROOF, rs_retries_left := 3\<rparr> else d)"

definition request :: "renv \<Rightarrow> secs \<Rightarrow> bytes \<Rightarrow> resource \<Rightarrow> rstep" where
  "request e now b d =
    (if \<not> rs_outbound d \<or> rs_status d = RS_FAILED \<or> length b < 1 + 32 then (d, None)
     else
       let d = (if rs_rtt d \<le> 0 \<and> rs_adv_sent d > 0 then d\<lparr>rs_rtt := now - rs_adv_sent d\<rparr> else d);
           d = d\<lparr>rs_status := RS_TRANSFERRING, rs_retries_left := MAX_RETRIES\<rparr>;
           wants_more = (b ! 0 = HASHMAP_IS_EXHAUSTED);
           last = take MAPHASH_LEN (drop 1 b);
           pos = (if wants_more then 1 + MAPHASH_LEN else 1)
       in if length b < pos + 32 then (d, None)
          else and_then (serve e now (drop (pos + 32) b) d) (\<lambda>d.
            if wants_more then
              (case send_hmu e now last d of
                 (st, False) \<Rightarrow> st
               | (st, True) \<Rightarrow> and_then st (\<lambda>d. (finish_request d, None)))
            else (finish_request d, None)))"

definition validate_resource_proof :: "bytes \<Rightarrow> resource \<Rightarrow> resource" where
  "validate_resource_proof b d =
    (if 64 \<le> length b \<and> 32 \<le> length (rs_expected_proof d) \<and>
        take 32 (drop 32 b) = take 32 (rs_expected_proof d)
     then call_concluded (d\<lparr>rs_status := RS_COMPLETE\<rparr>) else d)"

section \<open>Receiving\<close>

text \<open>
  The scan of \<open>_request_window\<close> from part \<open>pn\<close>: the hashes wanted, how many, and whether it met a part
  whose hash is not known yet.
\<close>

fun window_scan :: "resource \<Rightarrow> nat \<Rightarrow> int \<Rightarrow> nat \<Rightarrow> bytes \<Rightarrow> bytes \<times> nat \<times> bool" where
  "window_scan d 0 pn i req = (req, i, False)"
| "window_scan d (Suc s) pn i req =
    (if pn < 0 \<or> int (rs_total_parts d) \<le> pn then (req, i, False)
     else
       let j = nat pn;
           missing = (rs_parts d ! j = []);
           exhausted = (missing \<and> \<not> rs_hash_known d ! j);
           wanted = (missing \<and> rs_hash_known d ! j);
           req = (if wanted then req @ rs_map_hashes d ! j else req);
           i = (if wanted then i + 1 else i)
       in if unat (rs_window d) \<le> i \<or> exhausted then (req, i, exhausted)
          else window_scan d s (pn + 1) i req)"

definition request_window :: "renv \<Rightarrow> secs \<Rightarrow> resource \<Rightarrow> rstep" where
  "request_window e now d =
    (if rs_outbound d \<or> rs_waiting_hmu d \<or> rs_status d \<noteq> RS_TRANSFERRING then (d, None)
     else case window_scan d (unat (rs_window d)) (rs_consec d + 1) 0 [] of (requested, i, exhausted) \<Rightarrow>
       let d = d\<lparr>rs_outstanding_parts := i\<rparr> in
       if requested = [] \<and> \<not> exhausted then (d, None)
       else
         let last = (if exhausted then
                       if 0 < rs_hashmap_height d then rs_map_hashes d ! (rs_hashmap_height d - 1)
                       else take MAPHASH_LEN (rs_resource_hash d)
                     else []);
             d = (if exhausted then d\<lparr>rs_waiting_hmu := True\<rparr> else d);
             req = (if exhausted then HASHMAP_IS_EXHAUSTED else HASHMAP_IS_NOT_EXHAUSTED) # last @
                   rs_resource_hash d @ requested
         in and_then (emit e DATA RESOURCE_REQ req d) (\<lambda>d.
              (d\<lparr>rs_last_activity := now, rs_req_sent := now, rs_req_sent_bytes := length req,
                 rs_rtt_rxd_bytes_at_part_req := rs_rtt_rxd_bytes d, rs_req_resp := -1\<rparr>, None)))"

text \<open>
  \<open>accept\<close> answers an advertisement that was decrypted to \<open>plaintext\<close>; \<open>None\<close> is the handle NONE. The tables
  are sized by the advertised part count, an allocation that throws when the heap cannot serve it.
\<close>

definition inbound :: "renv \<Rightarrow> secs \<Rightarrow> adv \<Rightarrow> bool \<Rightarrow> bool \<Rightarrow> bytes \<Rightarrow> resource" where
  "inbound e now a cb pcb request_id =
    (let n = unat (ad_n a);
         adv_hashes = length (ad_m a) div MAPHASH_LEN;
         known = min adv_hashes n
     in resource_object\<lparr>
       rs_outbound := False, rs_transfer_size := unat (ad_t a), rs_size := unat (ad_t a),
       rs_data_size := unat (ad_d a), rs_total_size := unat (ad_d a), rs_total_parts := n,
       rs_request_id := (if request_id \<noteq> [] then request_id else ad_q a),
       rs_resource_hash := take 32 (ad_h a), rs_random_hash := take RANDOM_HASH_SIZE (ad_r a),
       rs_original_hash := (if 32 \<le> length (ad_o a) then take 32 (ad_o a) else replicate 32 0),
       rs_hash := take 32 (ad_h a), rs_flags := from_byte (ad_f a), rs_received := 0,
       rs_window := RES_WINDOW, rs_concluded_cb := cb, rs_progress_cb := pcb, rs_started_at := now,
       rs_map_hashes := map (\<lambda>i. if i < known then take MAPHASH_LEN (drop (i * MAPHASH_LEN) (ad_m a))
                                 else replicate MAPHASH_LEN 0) [0..<n],
       rs_hash_known := map (\<lambda>i. i < known) [0..<n],
       rs_hashmap_height := known, rs_consec := -1, rs_waiting_hmu := False,
       rs_parts := replicate n [], rs_status := RS_TRANSFERRING, rs_last_activity := now,
       rs_retries_left := MAX_RETRIES, rs_timeout_factor := ln_ttf (re_link e),
       rs_part_timeout_factor := PART_TIMEOUT_FACTOR, rs_window_max := RES_WINDOW_MAX_SLOW,
       rs_window_min := RES_WINDOW_MIN, rs_window_flexibility := RES_WINDOW_FLEXIBILITY,
       rs_req_resp := -1\<rparr>)"

definition accept :: "renv \<Rightarrow> secs \<Rightarrow> packet \<Rightarrow> bytes \<Rightarrow> bool \<Rightarrow> bool \<Rightarrow> bytes \<Rightarrow> rstep option" where
  "accept e now p plaintext cb pcb request_id =
    (if pk_link p = None then None
     else case adv_unpack (re_depth e) plaintext of
       Inl f \<Rightarrow> None
     | Inr a \<Rightarrow>
         if length (ad_h a) < 32 \<or> length (ad_r a) < RANDOM_HASH_SIZE then None
         else if \<not> re_alloc e (unat (ad_n a)) then Some (resource_object, Some Length_error)
         else Some (request_window e now
                ((inbound e now a cb pcb request_id)\<lparr>rs_registered := True\<rparr>)))"

fun hm_fill :: "bytes \<Rightarrow> u64 \<Rightarrow> nat \<Rightarrow> nat \<Rightarrow> resource \<Rightarrow> resource" where
  "hm_fill hm segment i 0 d = d"
| "hm_fill hm segment i (Suc k) d =
    (let idx = unat (of_nat i + ucast segment * of_nat HASHMAP_MAX_LEN :: usize) in
     if rs_total_parts d \<le> idx then d
     else hm_fill hm segment (Suc i) k
       (if rs_hash_known d ! idx then d
        else d\<lparr>rs_map_hashes := (rs_map_hashes d)[idx := take MAPHASH_LEN (drop (i * MAPHASH_LEN) hm)],
               rs_hash_known := (rs_hash_known d)[idx := True],
               rs_hashmap_height := max (rs_hashmap_height d) (idx + 1)\<rparr>))"

definition hashmap_update_packet :: "renv \<Rightarrow> secs \<Rightarrow> bytes \<Rightarrow> resource \<Rightarrow> rstep" where
  "hashmap_update_packet e now plaintext d =
    (if rs_status d = RS_FAILED \<or> length plaintext \<le> 32 then (d, None)
     else
       let d = d\<lparr>rs_last_activity := now\<rparr>;
           p = drop 32 plaintext; n = of_nat (length plaintext - 32) :: usize
       in case unpack_array_header p n of
            Inl f \<Rightarrow> (d, None)
          | Inr (count, off) \<Rightarrow>
              if count < 2 then (d, None)
              else case read_uint_into p n off of
                Inl f \<Rightarrow> (d, None)
              | Inr (segment, off) \<Rightarrow>
                  (case read_bin_into p n off of
                     Inl f \<Rightarrow> (d, None)
                   | Inr (hm, off) \<Rightarrow>
                       request_window e now
                         ((hm_fill hm segment 0 (length hm div MAPHASH_LEN) d)\<lparr>rs_waiting_hmu := False\<rparr>)))"

definition update_eifr :: "renv \<Rightarrow> resource \<Rightarrow> resource" where
  "update_eifr e d =
    (let rtt = (if rs_rtt d > 0 then rs_rtt d else ln_rtt (re_link e)) in
     d\<lparr>rs_eifr :=
         (if rs_req_data_rtt_rate d \<noteq> 0 then rs_req_data_rtt_rate d * 8
          else if rtt > 0 then of_nat (unat (re_cost e)) * 8 / rtt
          else 0)\<rparr>)"

text \<open>The two rate checks that move the window's upper bound.\<close>

definition fast_round :: "secs \<Rightarrow> resource \<Rightarrow> resource" where
  "fast_round rate d =
    (if rate > RATE_FAST \<and> rs_fast_rate_rounds d < RES_FAST_RATE_THRESHOLD then
       let d = d\<lparr>rs_fast_rate_rounds := rs_fast_rate_rounds d + 1\<rparr> in
       if rs_fast_rate_rounds d = RES_FAST_RATE_THRESHOLD then d\<lparr>rs_window_max := RES_WINDOW_MAX_FAST\<rparr> else d
     else d)"

definition slow_round :: "resource \<Rightarrow> resource" where
  "slow_round d =
    (if rs_fast_rate_rounds d = 0 \<and> rs_req_data_rtt_rate d < RATE_VERY_SLOW \<and>
        rs_very_slow_rate_rounds d < VERY_SLOW_RATE_THRESHOLD then
       let d = d\<lparr>rs_very_slow_rate_rounds := rs_very_slow_rate_rounds d + 1\<rparr> in
       if rs_very_slow_rate_rounds d = VERY_SLOW_RATE_THRESHOLD
       then d\<lparr>rs_window_max := RES_WINDOW_MAX_VERY_SLOW\<rparr> else d
     else d)"

definition first_response :: "renv \<Rightarrow> secs \<Rightarrow> bytes \<Rightarrow> resource \<Rightarrow> resource" where
  "first_response e now part d =
    (if rs_req_resp d < 0 then
       let sample = now - rs_req_sent d;
           d = d\<lparr>rs_req_resp := now, rs_part_timeout_factor := PART_TIMEOUT_FACTOR_AFTER_RTT\<rparr>;
           d = (if rs_rtt d \<le> 0 then d\<lparr>rs_rtt := ln_rtt (re_link e)\<rparr>
                else if sample < rs_rtt d then d\<lparr>rs_rtt := max (rs_rtt d - rs_rtt d * 0.05) sample\<rparr>
                else if sample > rs_rtt d then d\<lparr>rs_rtt := min (rs_rtt d + rs_rtt d * 0.05) sample\<rparr>
                else d)
       in if sample > 0 then
            let rate = of_nat (length part + rs_req_sent_bytes d) / sample in
            fast_round rate (d\<lparr>rs_req_resp_rtt_rate := rate\<rparr>)
          else d
     else d)"

text \<open>The search for a slot: the first empty one whose known map hash is the part's.\<close>

definition slot_for :: "bytes \<Rightarrow> resource \<Rightarrow> nat option" where
  "slot_for mh d =
     first_index (\<lambda>i. rs_hash_known d ! i \<and> rs_parts d ! i = [] \<and> rs_map_hashes d ! i = mh)
       [0..<rs_total_parts d]"

definition store_part :: "bytes \<Rightarrow> nat \<Rightarrow> resource \<Rightarrow> resource" where
  "store_part part i d = d\<lparr>
     rs_parts := (rs_parts d)[i := part], rs_received := rs_received d + 1,
     rs_rtt_rxd_bytes := rs_rtt_rxd_bytes d + length part,
     rs_outstanding_parts := rs_outstanding_parts d - 1\<rparr>"

function advance :: "nat \<Rightarrow> bytes list \<Rightarrow> int \<Rightarrow> int" where
  "advance n ps c = (if c + 1 < int n \<and> ps ! nat (c + 1) \<noteq> [] then advance n ps (c + 1) else c)"
  by pat_completeness auto
termination by (relation "measure (\<lambda>(n, ps, c). nat (int n - c))") auto

declare advance.simps [simp del]

definition adapt_window :: "renv \<Rightarrow> secs \<Rightarrow> resource \<Rightarrow> resource" where
  "adapt_window e now d =
    (let d = (if rs_window d < rs_window_max d then
                let d = d\<lparr>rs_window := rs_window d + 1\<rparr> in
                if rs_window d - rs_window_min d > rs_window_flexibility d - 1
                then d\<lparr>rs_window_min := rs_window_min d + 1\<rparr> else d
              else d)
     in if rs_req_sent d > 0 \<and> now - rs_req_sent d > 0 then
          let transferred = rs_rtt_rxd_bytes d - rs_rtt_rxd_bytes_at_part_req d;
              d = update_eifr e
                    (d\<lparr>rs_req_data_rtt_rate := of_nat transferred / (now - rs_req_sent d)\<rparr>);
              d = d\<lparr>rs_rtt_rxd_bytes_at_part_req := rs_rtt_rxd_bytes d\<rparr>
          in slow_round (fast_round (rs_req_data_rtt_rate d) d)
        else d)"

definition generate_proof :: "renv \<Rightarrow> resource \<Rightarrow> bytes" where
  "generate_proof e d = rns_full_hash2 e (rs_data d) (rs_resource_hash d)"

text \<open>
  From the parts to the data: \<open>None\<close> is a decryption too short to hold the randomiser, or a compressed
  payload that does not decompress to the advertised size.
\<close>

definition payload_of :: "renv \<Rightarrow> resource \<Rightarrow> bytes \<Rightarrow> bytes option" where
  "payload_of e d assembled =
    (let decrypted = re_decrypt e assembled in
     if decrypted = [] \<or> length decrypted \<le> RANDOM_HASH_SIZE then None
     else
       let onwire = drop RANDOM_HASH_SIZE decrypted in
       if fl_compressed (rs_flags d) then bz2_decompress e onwire (rs_total_size d) else Some onwire)"

definition assemble :: "renv \<Rightarrow> resource \<Rightarrow> rstep" where
  "assemble e d =
    (if [] \<in> set (rs_parts d) then (d\<lparr>rs_status := RS_CORRUPT\<rparr>, None)
     else case payload_of e d (concat (rs_parts d)) of
       None \<Rightarrow> (d\<lparr>rs_status := RS_CORRUPT\<rparr>, None)
     | Some b \<Rightarrow>
         if length (rns_full_hash2 e b (rs_random_hash d)) < 32 \<or>
            take 32 (rns_full_hash2 e b (rs_random_hash d)) \<noteq> rs_resource_hash d
         then (d\<lparr>rs_status := RS_CORRUPT\<rparr>, None)
         else
           let d = d\<lparr>rs_data := b, rs_status := RS_COMPLETE\<rparr> in
           emit e PROOF RESOURCE_PRF (rs_resource_hash d @ generate_proof e d) d)"

definition advanced :: "resource \<Rightarrow> resource" where
  "advanced d = d\<lparr>rs_consec := advance (rs_total_parts d) (rs_parts d) (rs_consec d)\<rparr>"

definition pull_more :: "renv \<Rightarrow> secs \<Rightarrow> resource \<Rightarrow> rstep" where
  "pull_more e now d =
    (if rs_received d < rs_total_parts d \<and> \<not> rs_waiting_hmu d \<and> rs_outstanding_parts d = 0
     then request_window e now (adapt_window e now d) else (d, None))"

definition conclude :: "renv \<Rightarrow> resource \<Rightarrow> rstep" where
  "conclude e d =
    (if 0 < rs_total_parts d \<and> rs_total_parts d \<le> rs_received d
     then and_then (assemble e d) (\<lambda>d. (call_concluded d, None)) else (d, None))"

definition receive_part :: "renv \<Rightarrow> secs \<Rightarrow> bytes \<Rightarrow> resource \<Rightarrow> rstep \<times> bool" where
  "receive_part e now part d =
    (if rs_outbound d then ((d, None), False)
     else
       let d = first_response e now part (d\<lparr>rs_last_activity := now, rs_retries_left := MAX_RETRIES\<rparr>)
       in case slot_for (rns_map_hash e part (rs_random_hash d)) d of
            None \<Rightarrow> ((d, None), False)
          | Some i \<Rightarrow>
              (and_then (pull_more e now (call_progress (advanced (store_part part i d)))) (conclude e), True))"

section \<open>The watchdog\<close>

definition watchdog_advertised :: "renv \<Rightarrow> secs \<Rightarrow> resource \<Rightarrow> rstep" where
  "watchdog_advertised e now d =
    (let tmo = (if rs_timeout d \<le> 0 then ln_rtt (re_link e) * of_nat (unat (rs_timeout_factor d))
                else rs_timeout d)
     in if tmo \<le> 0 then (d, None)
        else if now > rs_adv_sent d + tmo + PROCESSING_GRACE then
          if rs_retries_left d \<le> 0 then cancel e d
          else advertise e now (d\<lparr>rs_retries_left := rs_retries_left d - 1\<rparr>)
        else (d, None))"

definition shrink_window :: "resource \<Rightarrow> resource" where
  "shrink_window d =
    (if rs_window d > rs_window_min d then
       let d = d\<lparr>rs_window := rs_window d - 1\<rparr> in
       if rs_window_max d > rs_window_min d then
         let d = d\<lparr>rs_window_max := rs_window_max d - 1\<rparr> in
         if rs_window_max d - rs_window d > rs_window_flexibility d - 1
         then d\<lparr>rs_window_max := rs_window_max d - 1\<rparr> else d
       else d
     else d)"

definition part_deadline :: "resource \<Rightarrow> secs" where
  "part_deadline d =
    (let extra_wait = of_int (MAX_RETRIES - rs_retries_left d) * PER_RETRY_DELAY;
         sdu_bits = of_nat RES_SDU * 8;
         expected_hmu_wait = (if rs_waiting_hmu d \<or> rs_outstanding_parts d = 0
                              then sdu_bits * HMU_WAIT_FACTOR / rs_eifr d else 0);
         expected_tof = of_nat (rs_outstanding_parts d) * sdu_bits / rs_eifr d
     in if rs_req_resp_rtt_rate d \<noteq> 0 then
          rs_last_activity d + of_nat (rs_part_timeout_factor d) * expected_tof + expected_hmu_wait +
          RETRY_GRACE_TIME + extra_wait
        else
          rs_last_activity d + of_nat (rs_part_timeout_factor d) * (3 * of_nat RES_SDU / rs_eifr d) +
          RETRY_GRACE_TIME + extra_wait)"

definition watchdog_receiving :: "renv \<Rightarrow> secs \<Rightarrow> resource \<Rightarrow> rstep" where
  "watchdog_receiving e now d =
    (let d = update_eifr e d in
     if rs_eifr d \<le> 0 then (d, None)
     else if now > part_deadline d then
       if rs_retries_left d > 0 then
         request_window e now
           ((shrink_window d)\<lparr>rs_retries_left := rs_retries_left d - 1, rs_waiting_hmu := False\<rparr>)
       else cancel e d
     else (d, None))"

definition watchdog_sending :: "renv \<Rightarrow> secs \<Rightarrow> resource \<Rightarrow> rstep" where
  "watchdog_sending e now d =
    (let rtt = (if rs_rtt d > 0 then rs_rtt d else ln_rtt (re_link e));
         mr = of_int MAX_RETRIES;
         max_extra_wait = PER_RETRY_DELAY * (mr * (mr + 1) / 2);
         max_wait = rtt * of_nat (unat (rs_timeout_factor d)) * mr + SENDER_GRACE_TIME + max_extra_wait
     in if now > rs_last_activity d + max_wait then cancel e d else (d, None))"

definition watchdog_proof :: "renv \<Rightarrow> secs \<Rightarrow> resource \<Rightarrow> rstep" where
  "watchdog_proof e now d =
    (let rtt = (if rs_rtt d > 0 then rs_rtt d else ln_rtt (re_link e)) in
     if rtt \<le> 0 then (d, None)
     else if now > rs_last_part_sent d + rtt * of_nat PROOF_TIMEOUT_FACTOR + SENDER_GRACE_TIME then
       if rs_retries_left d \<le> 0 then cancel e d
       else (d\<lparr>rs_retries_left := rs_retries_left d - 1, rs_last_part_sent := now\<rparr>, None)
     else (d, None))"

definition watchdog :: "renv \<Rightarrow> secs \<Rightarrow> resource \<Rightarrow> rstep" where
  "watchdog e now d =
    (case rs_status d of
       RS_ADVERTISED \<Rightarrow> watchdog_advertised e now d
     | RS_TRANSFERRING \<Rightarrow>
         if rs_outbound d then watchdog_sending e now d else watchdog_receiving e now d
     | RS_AWAITING_PROOF \<Rightarrow> watchdog_proof e now d
     | _ \<Rightarrow> (d, None))"

section \<open>Request deduplication and progress\<close>

definition has_request_hash :: "bytes \<Rightarrow> resource \<Rightarrow> bool" where
  "has_request_hash h d \<longleftrightarrow> h \<in> set (rs_req_hashlist d)"

definition note_request_hash :: "bytes \<Rightarrow> resource \<Rightarrow> resource" where
  "note_request_hash h d =
    (let seen = rs_req_hashlist d;
         seen = (if REQ_HASHLIST_MAX \<le> length seen then drop 1 seen else seen)
     in d\<lparr>rs_req_hashlist := seen @ [h]\<rparr>)"

definition get_progress :: "resource \<Rightarrow> rat" where
  "get_progress d =
    (if rs_status d = RS_COMPLETE then 1
     else if rs_outbound d \<or> rs_total_parts d = 0 then 0
     else of_nat (rs_received d) / of_nat (rs_total_parts d))"

definition set_concluded_callback :: "bool \<Rightarrow> resource \<Rightarrow> resource" where
  "set_concluded_callback cb d = d\<lparr>rs_concluded_cb := cb\<rparr>"

definition set_progress_callback :: "bool \<Rightarrow> resource \<Rightarrow> resource" where
  "set_progress_callback cb d = d\<lparr>rs_progress_cb := cb\<rparr>"

end
