(* ===== verification/ResInv.thy ===== *)
theory ResInv
  imports Resource
begin

text \<open>
  The receiver of a resource: the invariant of its tables, its window and the packets it sends, over
  every sequence of parts, map updates, watchdog ticks and cancellations, whatever bytes arrive.
\<close>

section \<open>What the bookkeeping leaves alone\<close>

lemma update_eifr_keeps [simp]:
  "rs_parts (update_eifr e d) = rs_parts d"
  "rs_total_parts (update_eifr e d) = rs_total_parts d"
  "rs_map_hashes (update_eifr e d) = rs_map_hashes d"
  "rs_hash_known (update_eifr e d) = rs_hash_known d"
  "rs_hashmap_height (update_eifr e d) = rs_hashmap_height d"
  "rs_consec (update_eifr e d) = rs_consec d"
  "rs_received (update_eifr e d) = rs_received d"
  "rs_outbound (update_eifr e d) = rs_outbound d"
  "rs_status (update_eifr e d) = rs_status d"
  "rs_resource_hash (update_eifr e d) = rs_resource_hash d"
  "rs_random_hash (update_eifr e d) = rs_random_hash d"
  "rs_out (update_eifr e d) = rs_out d"
  "rs_data (update_eifr e d) = rs_data d"
  "rs_waiting_hmu (update_eifr e d) = rs_waiting_hmu d"
  "rs_outstanding_parts (update_eifr e d) = rs_outstanding_parts d"
  "rs_flags (update_eifr e d) = rs_flags d"
  "rs_total_size (update_eifr e d) = rs_total_size d"
  "rs_concluded (update_eifr e d) = rs_concluded d"
  "rs_concluded_cb (update_eifr e d) = rs_concluded_cb d"
  "rs_progress_cb (update_eifr e d) = rs_progress_cb d"
  "rs_registered (update_eifr e d) = rs_registered d"
  "rs_progressed (update_eifr e d) = rs_progressed d"
  by (simp_all add: update_eifr_def Let_def)

lemma fast_round_keeps [simp]:
  "rs_parts (fast_round r d) = rs_parts d"
  "rs_total_parts (fast_round r d) = rs_total_parts d"
  "rs_map_hashes (fast_round r d) = rs_map_hashes d"
  "rs_hash_known (fast_round r d) = rs_hash_known d"
  "rs_hashmap_height (fast_round r d) = rs_hashmap_height d"
  "rs_consec (fast_round r d) = rs_consec d"
  "rs_received (fast_round r d) = rs_received d"
  "rs_outbound (fast_round r d) = rs_outbound d"
  "rs_status (fast_round r d) = rs_status d"
  "rs_resource_hash (fast_round r d) = rs_resource_hash d"
  "rs_random_hash (fast_round r d) = rs_random_hash d"
  "rs_out (fast_round r d) = rs_out d"
  "rs_data (fast_round r d) = rs_data d"
  "rs_waiting_hmu (fast_round r d) = rs_waiting_hmu d"
  "rs_outstanding_parts (fast_round r d) = rs_outstanding_parts d"
  "rs_flags (fast_round r d) = rs_flags d"
  "rs_total_size (fast_round r d) = rs_total_size d"
  "rs_concluded (fast_round r d) = rs_concluded d"
  "rs_concluded_cb (fast_round r d) = rs_concluded_cb d"
  "rs_progress_cb (fast_round r d) = rs_progress_cb d"
  "rs_registered (fast_round r d) = rs_registered d"
  "rs_progressed (fast_round r d) = rs_progressed d"
  by (simp_all add: fast_round_def Let_def)

lemma slow_round_keeps [simp]:
  "rs_parts (slow_round d) = rs_parts d"
  "rs_total_parts (slow_round d) = rs_total_parts d"
  "rs_map_hashes (slow_round d) = rs_map_hashes d"
  "rs_hash_known (slow_round d) = rs_hash_known d"
  "rs_hashmap_height (slow_round d) = rs_hashmap_height d"
  "rs_consec (slow_round d) = rs_consec d"
  "rs_received (slow_round d) = rs_received d"
  "rs_outbound (slow_round d) = rs_outbound d"
  "rs_status (slow_round d) = rs_status d"
  "rs_resource_hash (slow_round d) = rs_resource_hash d"
  "rs_random_hash (slow_round d) = rs_random_hash d"
  "rs_out (slow_round d) = rs_out d"
  "rs_data (slow_round d) = rs_data d"
  "rs_waiting_hmu (slow_round d) = rs_waiting_hmu d"
  "rs_outstanding_parts (slow_round d) = rs_outstanding_parts d"
  "rs_flags (slow_round d) = rs_flags d"
  "rs_total_size (slow_round d) = rs_total_size d"
  "rs_concluded (slow_round d) = rs_concluded d"
  "rs_concluded_cb (slow_round d) = rs_concluded_cb d"
  "rs_progress_cb (slow_round d) = rs_progress_cb d"
  "rs_registered (slow_round d) = rs_registered d"
  "rs_progressed (slow_round d) = rs_progressed d"
  by (simp_all add: slow_round_def Let_def)

lemma first_response_keeps [simp]:
  "rs_parts (first_response e now p d) = rs_parts d"
  "rs_total_parts (first_response e now p d) = rs_total_parts d"
  "rs_map_hashes (first_response e now p d) = rs_map_hashes d"
  "rs_hash_known (first_response e now p d) = rs_hash_known d"
  "rs_hashmap_height (first_response e now p d) = rs_hashmap_height d"
  "rs_consec (first_response e now p d) = rs_consec d"
  "rs_received (first_response e now p d) = rs_received d"
  "rs_outbound (first_response e now p d) = rs_outbound d"
  "rs_status (first_response e now p d) = rs_status d"
  "rs_resource_hash (first_response e now p d) = rs_resource_hash d"
  "rs_random_hash (first_response e now p d) = rs_random_hash d"
  "rs_out (first_response e now p d) = rs_out d"
  "rs_data (first_response e now p d) = rs_data d"
  "rs_waiting_hmu (first_response e now p d) = rs_waiting_hmu d"
  "rs_outstanding_parts (first_response e now p d) = rs_outstanding_parts d"
  "rs_flags (first_response e now p d) = rs_flags d"
  "rs_total_size (first_response e now p d) = rs_total_size d"
  "rs_concluded (first_response e now p d) = rs_concluded d"
  "rs_concluded_cb (first_response e now p d) = rs_concluded_cb d"
  "rs_progress_cb (first_response e now p d) = rs_progress_cb d"
  "rs_registered (first_response e now p d) = rs_registered d"
  "rs_progressed (first_response e now p d) = rs_progressed d"
  by (simp_all add: first_response_def Let_def)

lemma adapt_window_keeps [simp]:
  "rs_parts (adapt_window e now d) = rs_parts d"
  "rs_total_parts (adapt_window e now d) = rs_total_parts d"
  "rs_map_hashes (adapt_window e now d) = rs_map_hashes d"
  "rs_hash_known (adapt_window e now d) = rs_hash_known d"
  "rs_hashmap_height (adapt_window e now d) = rs_hashmap_height d"
  "rs_consec (adapt_window e now d) = rs_consec d"
  "rs_received (adapt_window e now d) = rs_received d"
  "rs_outbound (adapt_window e now d) = rs_outbound d"
  "rs_status (adapt_window e now d) = rs_status d"
  "rs_resource_hash (adapt_window e now d) = rs_resource_hash d"
  "rs_random_hash (adapt_window e now d) = rs_random_hash d"
  "rs_out (adapt_window e now d) = rs_out d"
  "rs_data (adapt_window e now d) = rs_data d"
  "rs_waiting_hmu (adapt_window e now d) = rs_waiting_hmu d"
  "rs_outstanding_parts (adapt_window e now d) = rs_outstanding_parts d"
  "rs_flags (adapt_window e now d) = rs_flags d"
  "rs_total_size (adapt_window e now d) = rs_total_size d"
  "rs_concluded (adapt_window e now d) = rs_concluded d"
  "rs_concluded_cb (adapt_window e now d) = rs_concluded_cb d"
  "rs_progress_cb (adapt_window e now d) = rs_progress_cb d"
  "rs_registered (adapt_window e now d) = rs_registered d"
  "rs_progressed (adapt_window e now d) = rs_progressed d"
  by (simp_all add: adapt_window_def Let_def)

lemma shrink_window_keeps [simp]:
  "rs_parts (shrink_window d) = rs_parts d"
  "rs_total_parts (shrink_window d) = rs_total_parts d"
  "rs_map_hashes (shrink_window d) = rs_map_hashes d"
  "rs_hash_known (shrink_window d) = rs_hash_known d"
  "rs_hashmap_height (shrink_window d) = rs_hashmap_height d"
  "rs_consec (shrink_window d) = rs_consec d"
  "rs_received (shrink_window d) = rs_received d"
  "rs_outbound (shrink_window d) = rs_outbound d"
  "rs_status (shrink_window d) = rs_status d"
  "rs_resource_hash (shrink_window d) = rs_resource_hash d"
  "rs_random_hash (shrink_window d) = rs_random_hash d"
  "rs_out (shrink_window d) = rs_out d"
  "rs_data (shrink_window d) = rs_data d"
  "rs_waiting_hmu (shrink_window d) = rs_waiting_hmu d"
  "rs_outstanding_parts (shrink_window d) = rs_outstanding_parts d"
  "rs_flags (shrink_window d) = rs_flags d"
  "rs_total_size (shrink_window d) = rs_total_size d"
  "rs_concluded (shrink_window d) = rs_concluded d"
  "rs_concluded_cb (shrink_window d) = rs_concluded_cb d"
  "rs_progress_cb (shrink_window d) = rs_progress_cb d"
  "rs_registered (shrink_window d) = rs_registered d"
  "rs_progressed (shrink_window d) = rs_progressed d"
  by (simp_all add: shrink_window_def Let_def)

lemma call_progress_keeps [simp]:
  "rs_parts (call_progress d) = rs_parts d"
  "rs_total_parts (call_progress d) = rs_total_parts d"
  "rs_map_hashes (call_progress d) = rs_map_hashes d"
  "rs_hash_known (call_progress d) = rs_hash_known d"
  "rs_hashmap_height (call_progress d) = rs_hashmap_height d"
  "rs_consec (call_progress d) = rs_consec d"
  "rs_received (call_progress d) = rs_received d"
  "rs_outbound (call_progress d) = rs_outbound d"
  "rs_status (call_progress d) = rs_status d"
  "rs_resource_hash (call_progress d) = rs_resource_hash d"
  "rs_random_hash (call_progress d) = rs_random_hash d"
  "rs_out (call_progress d) = rs_out d"
  "rs_data (call_progress d) = rs_data d"
  "rs_waiting_hmu (call_progress d) = rs_waiting_hmu d"
  "rs_outstanding_parts (call_progress d) = rs_outstanding_parts d"
  "rs_flags (call_progress d) = rs_flags d"
  "rs_total_size (call_progress d) = rs_total_size d"
  "rs_concluded (call_progress d) = rs_concluded d"
  "rs_concluded_cb (call_progress d) = rs_concluded_cb d"
  "rs_progress_cb (call_progress d) = rs_progress_cb d"
  "rs_registered (call_progress d) = rs_registered d"
  by (simp_all add: call_progress_def)

lemma call_concluded_keeps [simp]:
  "rs_parts (call_concluded d) = rs_parts d"
  "rs_total_parts (call_concluded d) = rs_total_parts d"
  "rs_map_hashes (call_concluded d) = rs_map_hashes d"
  "rs_hash_known (call_concluded d) = rs_hash_known d"
  "rs_hashmap_height (call_concluded d) = rs_hashmap_height d"
  "rs_consec (call_concluded d) = rs_consec d"
  "rs_received (call_concluded d) = rs_received d"
  "rs_outbound (call_concluded d) = rs_outbound d"
  "rs_status (call_concluded d) = rs_status d"
  "rs_resource_hash (call_concluded d) = rs_resource_hash d"
  "rs_random_hash (call_concluded d) = rs_random_hash d"
  "rs_out (call_concluded d) = rs_out d"
  "rs_data (call_concluded d) = rs_data d"
  "rs_waiting_hmu (call_concluded d) = rs_waiting_hmu d"
  "rs_outstanding_parts (call_concluded d) = rs_outstanding_parts d"
  "rs_flags (call_concluded d) = rs_flags d"
  "rs_total_size (call_concluded d) = rs_total_size d"
  "rs_concluded_cb (call_concluded d) = rs_concluded_cb d"
  "rs_progress_cb (call_concluded d) = rs_progress_cb d"
  "rs_registered (call_concluded d) = rs_registered d"
  "rs_progressed (call_concluded d) = rs_progressed d"
  by (simp_all add: call_concluded_def)

lemma and_then_None [simp]: "and_then (d, None) f = f d"
  by (simp add: and_then_def)

lemma and_then_Some [simp]: "and_then (d, Some x) f = (d, Some x)"
  by (simp add: and_then_def)

lemma emit_cases:
  "emit e pt ctx b d = (d\<lparr>rs_out := rs_out d @ [(pt, ctx, b)]\<rparr>, None) \<and> re_send e pt ctx b = None \<or>
   (\<exists>f. emit e pt ctx b d = (d, Some f) \<and> re_send e pt ctx b = Some f)"
  by (simp add: emit_def split: option.split)

section \<open>The scan of the window\<close>

definition tables_ok :: "resource \<Rightarrow> bool" where
  "tables_ok d \<longleftrightarrow> \<not> rs_outbound d \<and> length (rs_parts d) = rs_total_parts d \<and>
     length (rs_map_hashes d) = rs_total_parts d \<and> length (rs_hash_known d) = rs_total_parts d \<and>
     (\<forall>h \<in> set (rs_map_hashes d). length h = MAPHASH_LEN) \<and> rs_hashmap_height d \<le> rs_total_parts d \<and>
     length (rs_resource_hash d) = 32 \<and>
     rs_status d \<in> {RS_TRANSFERRING, RS_COMPLETE, RS_FAILED, RS_CORRUPT}"

lemma window_scan_length:
  assumes "window_scan d s pn i req = (req', i', x)" and "tables_ok d"
    and "length req = i * MAPHASH_LEN" and "i < unat (rs_window d)"
  shows "length req' = i' * MAPHASH_LEN \<and> i' \<le> unat (rs_window d)"
  using assms
proof (induction s arbitrary: pn i req)
  case 0
  then show ?case by simp
next
  case (Suc s)
  show ?case
  proof (cases "pn < 0 \<or> int (rs_total_parts d) \<le> pn")
    case True
    then show ?thesis using Suc.prems by simp
  next
    case False
    then have "nat pn < length (rs_map_hashes d)" using Suc.prems(2) by (simp add: tables_ok_def nat_less_iff)
    then have "length (rs_map_hashes d ! nat pn) = MAPHASH_LEN"
      using Suc.prems(2) nth_mem by (fastforce simp: tables_ok_def)
    then show ?thesis
      using Suc.prems False Suc.IH [of "pn + 1" i req]
        Suc.IH [of "pn + 1" "Suc i" "req @ rs_map_hashes d ! nat pn"]
      by (auto simp: Let_def split: if_splits)
  qed
qed

section \<open>The invariant\<close>

definition consec_ok :: "resource \<Rightarrow> bool" where
  "consec_ok d \<longleftrightarrow> -1 \<le> rs_consec d \<and> rs_consec d < int (rs_total_parts d) \<and>
     (\<forall>i. int i \<le> rs_consec d \<longrightarrow> rs_parts d ! i \<noteq> []) \<and>
     (rs_consec d + 1 < int (rs_total_parts d) \<longrightarrow> rs_parts d ! nat (rs_consec d + 1) = [])"

definition counts_ok :: "resource \<Rightarrow> bool" where
  "counts_ok d \<longleftrightarrow> count_if (\<lambda>p. p \<noteq> []) (rs_parts d) \<le> rs_received d \<and>
     rs_outstanding_parts d \<le> 75"

definition windows_ok :: "resource \<Rightarrow> bool" where
  "windows_ok d \<longleftrightarrow> 2 \<le> rs_window_min d \<and> rs_window_min d \<le> rs_window d \<and> rs_window d \<le> 75 \<and>
     rs_window_max d \<le> 75 \<and> rs_window_flexibility d = 4"

definition packets_ok :: "resource \<Rightarrow> bool" where
  "packets_ok d \<longleftrightarrow> (\<forall>(pt, ctx, b) \<in> set (rs_out d). length b \<le> 337)"

text \<open>A proof leaves the receiver only for data whose hash it has verified, and it is the digest of that data.\<close>

definition complete_ok :: "(bytes \<Rightarrow> bytes) \<Rightarrow> resource \<Rightarrow> bool" where
  "complete_ok h d \<longleftrightarrow>
     (rs_status d = RS_COMPLETE \<longrightarrow>
        take 32 (h (rs_data d @ rs_random_hash d)) = rs_resource_hash d \<and> [] \<notin> set (rs_parts d)) \<and>
     (\<forall>ctx b. (PROOF, ctx, b) \<in> set (rs_out d) \<longrightarrow>
        rs_status d = RS_COMPLETE \<and> b = rs_resource_hash d @ h (rs_data d @ rs_resource_hash d))"

definition rx_ok :: "(bytes \<Rightarrow> bytes) \<Rightarrow> resource \<Rightarrow> bool" where
  "rx_ok h d \<longleftrightarrow> tables_ok d \<and> consec_ok d \<and> counts_ok d \<and> windows_ok d \<and> packets_ok d \<and> complete_ok h d"

lemmas rx_defs = rx_ok_def tables_ok_def consec_ok_def counts_ok_def windows_ok_def packets_ok_def
  complete_ok_def

text \<open>The fields the invariant reads, besides the windows and the packets.\<close>

definition same_tables :: "resource \<Rightarrow> resource \<Rightarrow> bool" where
  "same_tables d d' \<longleftrightarrow> rs_outbound d' = rs_outbound d \<and> rs_parts d' = rs_parts d \<and>
     rs_total_parts d' = rs_total_parts d \<and> rs_map_hashes d' = rs_map_hashes d \<and>
     rs_hash_known d' = rs_hash_known d \<and> rs_hashmap_height d' = rs_hashmap_height d \<and>
     rs_consec d' = rs_consec d \<and> rs_received d' = rs_received d \<and> rs_resource_hash d' = rs_resource_hash d \<and>
     rs_random_hash d' = rs_random_hash d \<and> rs_data d' = rs_data d"

lemma same_tables_ok:
  assumes "same_tables d d'" and "rx_ok h d" and "windows_ok d'" and "rs_outstanding_parts d' \<le> 75"
    and "rs_out d' = rs_out d" and "rs_status d' = rs_status d"
  shows "rx_ok h d'"
  using assms by (auto simp: rx_defs same_tables_def)

lemma windows_bounds:
  assumes "windows_ok d"
  shows "unat (rs_window d) \<le> 75" "0 < unat (rs_window d)" "2 \<le> unat (rs_window d)"
  using assms by (simp_all add: windows_ok_def word_le_nat_alt)

lemma packets_append:
  "packets_ok d \<Longrightarrow> length b \<le> 337 \<Longrightarrow> rs_out d' = rs_out d @ [(pt, ctx, b)] \<Longrightarrow> packets_ok d'"
  by (auto simp: packets_ok_def)

lemma rx_ok_sent:
  assumes "rx_ok h d" and "length b \<le> 337" and "pt \<noteq> PROOF"
  shows "rx_ok h (d\<lparr>rs_out := rs_out d @ [(pt, ctx, b)]\<rparr>)"
proof -
  let ?d = "d\<lparr>rs_out := rs_out d @ [(pt, ctx, b)]\<rparr>"
  have "tables_ok ?d" "consec_ok ?d" "counts_ok ?d" "windows_ok ?d"
    using assms(1) by (simp_all add: rx_ok_def tables_ok_def consec_ok_def counts_ok_def windows_ok_def)
  moreover have "packets_ok ?d" using assms by (simp add: rx_ok_def packets_ok_def)
  moreover have "complete_ok h ?d" using assms(1,3) by (auto simp: rx_ok_def complete_ok_def)
  ultimately show ?thesis by (simp add: rx_ok_def)
qed

lemma emit_ok:
  assumes "rx_ok h d" and "length b \<le> 337" and "pt \<noteq> PROOF"
  shows "rx_ok h (fst (emit e pt ctx b d))"
  using rx_ok_sent [OF assms] assms(1) by (simp add: emit_def split: option.split)

text \<open>Fields of the clock and the rates do not occur in the invariant.\<close>

lemma rx_ok_times [simp]:
  "rx_ok h (d\<lparr>rs_last_activity := a\<rparr>) = rx_ok h d"
  "rx_ok h (d\<lparr>rs_req_sent := a\<rparr>) = rx_ok h d"
  "rx_ok h (d\<lparr>rs_req_sent_bytes := k\<rparr>) = rx_ok h d"
  "rx_ok h (d\<lparr>rs_rtt_rxd_bytes_at_part_req := k\<rparr>) = rx_ok h d"
  "rx_ok h (d\<lparr>rs_req_resp := a\<rparr>) = rx_ok h d"
  "rx_ok h (d\<lparr>rs_retries_left := z\<rparr>) = rx_ok h d"
  "rx_ok h (d\<lparr>rs_waiting_hmu := w\<rparr>) = rx_ok h d"
  "rx_ok h (d\<lparr>rs_concluded := c\<rparr>) = rx_ok h d"
  "rx_ok h (d\<lparr>rs_progressed := k\<rparr>) = rx_ok h d"
  by (simp_all add: rx_ok_def tables_ok_def consec_ok_def counts_ok_def windows_ok_def packets_ok_def
      complete_ok_def)

lemma rx_ok_outstanding: "rx_ok h d \<Longrightarrow> k \<le> 75 \<Longrightarrow> rx_ok h (d\<lparr>rs_outstanding_parts := k\<rparr>)"
  by (simp add: rx_ok_def tables_ok_def consec_ok_def counts_ok_def windows_ok_def packets_ok_def
      complete_ok_def)

lemma fst_and_then: "P (fst m) \<Longrightarrow> (\<And>d. P d \<Longrightarrow> P (fst (f d))) \<Longrightarrow> P (fst (and_then m f))"
  by (cases m) (auto simp: and_then_def split: option.split)

text \<open>The packet a request for parts consists of.\<close>

definition req_payload :: "resource \<Rightarrow> bytes \<Rightarrow> bool \<Rightarrow> bytes" where
  "req_payload d requested exhausted =
    (if exhausted then HASHMAP_IS_EXHAUSTED else HASHMAP_IS_NOT_EXHAUSTED) #
    (if exhausted then
       if 0 < rs_hashmap_height d then rs_map_hashes d ! (rs_hashmap_height d - 1)
       else take MAPHASH_LEN (rs_resource_hash d)
     else []) @ rs_resource_hash d @ requested"

definition requested_now :: "renv \<Rightarrow> secs \<Rightarrow> nat \<Rightarrow> resource \<Rightarrow> rstep" where
  "requested_now e now k d = (d\<lparr>rs_last_activity := now, rs_req_sent := now, rs_req_sent_bytes := k,
     rs_rtt_rxd_bytes_at_part_req := rs_rtt_rxd_bytes d, rs_req_resp := -1\<rparr>, None)"

lemma request_window_eq:
  assumes "\<not> rs_outbound d" "\<not> rs_waiting_hmu d" "rs_status d = RS_TRANSFERRING"
    and "window_scan d (unat (rs_window d)) (rs_consec d + 1) 0 [] = (req, i, x)"
  shows "request_window e now d =
    (if req = [] \<and> \<not> x then (d\<lparr>rs_outstanding_parts := i\<rparr>, None)
     else and_then (emit e DATA RESOURCE_REQ (req_payload d req x)
            (if x then d\<lparr>rs_outstanding_parts := i, rs_waiting_hmu := True\<rparr> else d\<lparr>rs_outstanding_parts := i\<rparr>))
          (requested_now e now (length (req_payload d req x))))"
proof -
  have "req_payload (d\<lparr>rs_outstanding_parts := i\<rparr>) = req_payload d" by (rule ext)+ (simp add: req_payload_def)
  then show ?thesis
    using assms by (simp add: request_window_def req_payload_def requested_now_def [abs_def] Let_def)
qed

lemma request_window_idle:
  "rs_outbound d \<or> rs_waiting_hmu d \<or> rs_status d \<noteq> RS_TRANSFERRING \<Longrightarrow> request_window e now d = (d, None)"
  by (auto simp: request_window_def)

lemma length_req_payload:
  assumes "tables_ok d"
  shows "length (req_payload d req x) \<le> 37 + length req"
proof -
  have "length (rs_map_hashes d ! (rs_hashmap_height d - 1)) = MAPHASH_LEN" if "0 < rs_hashmap_height d"
  proof -
    have "rs_map_hashes d ! (rs_hashmap_height d - 1) \<in> set (rs_map_hashes d)"
      using that assms by (intro nth_mem) (auto simp: tables_ok_def)
    then show ?thesis using assms by (simp add: tables_ok_def)
  qed
  then show ?thesis using assms by (simp add: req_payload_def tables_ok_def MAPHASH_LEN_def)
qed

lemma request_window_ok:
  assumes "rx_ok h d"
  shows "rx_ok h (fst (request_window e now d))"
proof (cases "rs_outbound d \<or> rs_waiting_hmu d \<or> rs_status d \<noteq> RS_TRANSFERRING")
  case True
  then show ?thesis using assms by (simp add: request_window_idle)
next
  case False
  obtain req i x where scan: "window_scan d (unat (rs_window d)) (rs_consec d + 1) 0 [] = (req, i, x)"
    by (metis prod_cases3)
  have t: "tables_ok d" and w: "unat (rs_window d) \<le> 75" "0 < unat (rs_window d)"
    using assms windows_bounds by (auto simp: rx_ok_def)
  have len: "length req \<le> 75 * MAPHASH_LEN" "i \<le> 75"
    using window_scan_length [OF scan t] w by auto
  have d: "rx_ok h (d\<lparr>rs_outstanding_parts := i\<rparr>)" using assms len(2) by (rule rx_ok_outstanding)
  have b: "length (req_payload d req x) \<le> 337"
    using length_req_payload [OF t, of req x] len by (simp add: MAPHASH_LEN_def)
  have "rx_ok h (fst (requested_now e now k d'))" if "rx_ok h d'" for k d'
    using that by (simp add: requested_now_def)
  moreover have "rx_ok h (if x then d\<lparr>rs_outstanding_parts := i, rs_waiting_hmu := True\<rparr>
      else d\<lparr>rs_outstanding_parts := i\<rparr>)"
    using d by simp
  ultimately show ?thesis
    using False scan d emit_ok [OF _ b] by (simp add: request_window_eq fst_and_then)
qed

section \<open>Preservation\<close>

lemma hm_fill_ok: "rx_ok h d \<Longrightarrow> length hm div MAPHASH_LEN = i + k \<Longrightarrow> rx_ok h (hm_fill hm segment i k d)"
proof (induction k arbitrary: i d)
  case 0
  then show ?case by simp
next
  case (Suc k)
  let ?idx = "unat (of_nat i + ucast segment * of_nat HASHMAP_MAX_LEN :: usize)"
  let ?h = "take MAPHASH_LEN (drop (i * MAPHASH_LEN) hm)"
  let ?d = "d\<lparr>rs_map_hashes := (rs_map_hashes d)[?idx := ?h], rs_hash_known := (rs_hash_known d)[?idx := True],
       rs_hashmap_height := max (rs_hashmap_height d) (?idx + 1)\<rparr>"
  have "(i + 1) * MAPHASH_LEN \<le> length hm"
    using Suc.prems(2) by (simp add: MAPHASH_LEN_def)
  then have h: "length ?h = MAPHASH_LEN" by (simp add: MAPHASH_LEN_def)
  have "rx_ok h ?d" if "?idx < rs_total_parts d"
  proof -
    have "tables_ok ?d"
      using Suc.prems(1) that h set_update_subset_insert [of "rs_map_hashes d" ?idx ?h]
      by (auto simp: rx_ok_def tables_ok_def)
    moreover have "consec_ok ?d" "counts_ok ?d" "windows_ok ?d" "packets_ok ?d" "complete_ok h ?d"
      using Suc.prems(1)
      by (simp_all add: rx_ok_def consec_ok_def counts_ok_def windows_ok_def packets_ok_def complete_ok_def
         )
    ultimately show ?thesis by (simp add: rx_ok_def)
  qed
  then show ?case
    using Suc.prems by (simp add: Let_def Suc.IH)
qed

lemma hashmap_update_ok:
  assumes "rx_ok h d"
  shows "rx_ok h (fst (hashmap_update_packet e now b d))"
  using assms hm_fill_ok [of h _ _ 0]
  by (simp add: hashmap_update_packet_def Let_def request_window_ok split: sum.split prod.split)

lemma fast_round_windows: "windows_ok d \<Longrightarrow> windows_ok (fast_round r d)"
  by (simp add: windows_ok_def fast_round_def Let_def RES_WINDOW_MAX_FAST_def)

lemma slow_round_windows: "windows_ok d \<Longrightarrow> windows_ok (slow_round d)"
  by (simp add: windows_ok_def slow_round_def Let_def RES_WINDOW_MAX_VERY_SLOW_def)

lemma windows_ok_rates [simp]:
  "windows_ok (d\<lparr>rs_req_resp := a, rs_part_timeout_factor := k\<rparr>) = windows_ok d"
  "windows_ok (d\<lparr>rs_req_resp := a, rs_part_timeout_factor := k, rs_rtt := b\<rparr>) = windows_ok d"
  "windows_ok (d\<lparr>rs_req_resp_rtt_rate := a\<rparr>) = windows_ok d"
  "windows_ok (d\<lparr>rs_req_data_rtt_rate := a\<rparr>) = windows_ok d"
  "windows_ok (d\<lparr>rs_rtt_rxd_bytes_at_part_req := j\<rparr>) = windows_ok d"
  "windows_ok (update_eifr e d) = windows_ok d"
  by (simp_all add: windows_ok_def update_eifr_def Let_def)

lemma first_response_windows: "windows_ok d \<Longrightarrow> windows_ok (first_response e now p d)"
  by (simp add: first_response_def Let_def fast_round_windows)

text \<open>The arithmetic of the window on 32-bit sizes: growing stays below the maximum, the difference to
  the lower bound never wraps.\<close>

lemma grow_windows:
  assumes "windows_ok d" and "rs_window d < rs_window_max d"
  shows "windows_ok (let d = d\<lparr>rs_window := rs_window d + 1\<rparr> in
     if rs_window d - rs_window_min d > rs_window_flexibility d - 1
     then d\<lparr>rs_window_min := rs_window_min d + 1\<rparr> else d)"
proof -
  have w: "rs_window d + 1 \<le> 75" "rs_window d \<le> rs_window d + 1"
    using assms by (auto simp: windows_ok_def word_le_nat_alt word_less_nat_alt unat_word_ariths)
  have "rs_window_min d + 1 \<le> rs_window d + 1 \<and> 2 \<le> rs_window_min d + 1"
    using assms w by (auto simp: windows_ok_def word_le_nat_alt word_less_nat_alt unat_word_ariths)
  then show ?thesis using assms w by (auto simp: windows_ok_def Let_def)
qed

lemma adapt_window_windows:
  assumes "windows_ok d"
  shows "windows_ok (adapt_window e now d)"
  unfolding adapt_window_def
  by (subst Let_def) (use assms grow_windows [OF assms] in
      \<open>simp add: Let_def fast_round_windows slow_round_windows split: if_split\<close>)

lemma shrink_window_windows:
  assumes "windows_ok d"
  shows "windows_ok (shrink_window d)"
proof (cases "rs_window d > rs_window_min d")
  case True
  have w: "rs_window_min d \<le> rs_window d - 1" "rs_window d - 1 \<le> 75"
    using assms True by (auto simp: windows_ok_def word_le_nat_alt word_less_nat_alt unat_sub_if' unat_word_ariths)
  show ?thesis
  proof (cases "rs_window_max d > rs_window_min d")
    case max: True
    have "rs_window_max d - 1 \<le> 75" "rs_window_max d - 1 - 1 \<le> 75"
      using assms max by (auto simp: windows_ok_def word_le_nat_alt word_less_nat_alt unat_sub_if')
    then show ?thesis using assms True w by (simp add: windows_ok_def shrink_window_def Let_def)
  qed (use assms True w in \<open>simp add: windows_ok_def shrink_window_def Let_def\<close>)
qed (use assms in \<open>simp add: shrink_window_def\<close>)

lemma same_tables_simps:
  "same_tables d (first_response e now p d)" "same_tables d (adapt_window e now d)"
  "same_tables d (shrink_window d)" "same_tables d (update_eifr e d)"
  by (simp_all add: same_tables_def)

lemma bookkeeping_ok:
  assumes "rx_ok h d"
  shows "rx_ok h (first_response e' now p d)" "rx_ok h (adapt_window e' now d)"
    "rx_ok h (shrink_window d)" "rx_ok h (update_eifr e' d)"
proof -
  have w: "windows_ok d" and o: "rs_outstanding_parts d \<le> 75"
    using assms by (simp_all add: rx_ok_def counts_ok_def)
  show "rx_ok h (first_response e' now p d)"
    using w o by (intro same_tables_ok [OF same_tables_simps(1) assms]) (simp_all add: first_response_windows)
  show "rx_ok h (adapt_window e' now d)"
    using w o by (intro same_tables_ok [OF same_tables_simps(2) assms]) (simp_all add: adapt_window_windows)
  show "rx_ok h (shrink_window d)"
    using w o by (intro same_tables_ok [OF same_tables_simps(3) assms]) (simp_all add: shrink_window_windows)
  show "rx_ok h (update_eifr e' d)"
    using w o by (intro same_tables_ok [OF same_tables_simps(4) assms]) simp_all
qed

lemma call_ok [simp]: "rx_ok h (call_progress d) = rx_ok h d" "rx_ok h (call_concluded d) = rx_ok h d"
  by (simp_all add: call_progress_def call_concluded_def)

text \<open>What the search for a slot found.\<close>

lemma slot_for_Some:
  assumes "slot_for mh d = Some i"
  shows "i < rs_total_parts d" "rs_hash_known d ! i" "rs_parts d ! i = []" "rs_map_hashes d ! i = mh"
  using assms by (auto simp: slot_for_def dest!: first_index_Some)

lemma advance_props:
  assumes "-1 \<le> c" and "c < int n" and "\<forall>i. int i \<le> c \<longrightarrow> ps ! i \<noteq> []"
  shows "-1 \<le> advance n ps c \<and> advance n ps c < int n \<and> c \<le> advance n ps c \<and>
    (\<forall>i. int i \<le> advance n ps c \<longrightarrow> ps ! i \<noteq> []) \<and>
    (advance n ps c + 1 < int n \<longrightarrow> ps ! nat (advance n ps c + 1) = [])"
  using assms
proof (induction n ps c rule: advance.induct)
  case (1 n ps c)
  show ?case
  proof (cases "c + 1 < int n \<and> ps ! nat (c + 1) \<noteq> []")
    case True
    have "\<forall>i. int i \<le> c + 1 \<longrightarrow> ps ! i \<noteq> []"
    proof (intro allI impI)
      fix i assume "int i \<le> c + 1"
      then consider "int i \<le> c" | "i = nat (c + 1)" by linarith
      then show "ps ! i \<noteq> []" using True "1.prems"(3) by cases auto
    qed
    then have "-1 \<le> advance n ps (c + 1) \<and> advance n ps (c + 1) < int n \<and> c + 1 \<le> advance n ps (c + 1) \<and>
      (\<forall>i. int i \<le> advance n ps (c + 1) \<longrightarrow> ps ! i \<noteq> []) \<and>
      (advance n ps (c + 1) + 1 < int n \<longrightarrow> ps ! nat (advance n ps (c + 1) + 1) = [])"
      using True "1.prems" by (intro "1.IH") auto
    moreover have "advance n ps c = advance n ps (c + 1)"
      by (subst advance.simps) (simp only: True if_True simp_thms)
    ultimately show ?thesis by simp
  next
    case False
    then have "advance n ps c = c" by (subst advance.simps) auto
    then show ?thesis using False "1.prems" by auto
  qed
qed

lemma store_part_ok:
  assumes "rx_ok h d" and "slot_for mh d = Some i"
  shows "rx_ok h (advanced (store_part part i d))"
proof -
  let ?d = "store_part part i d"
  note slot = slot_for_Some [OF assms(2)]
  have i: "i < length (rs_parts d)" using slot(1) assms(1) by (simp add: rx_ok_def tables_ok_def)
  have status: "rs_status d \<noteq> RS_COMPLETE"
    using assms(1) slot(3) i nth_mem [OF i] by (auto simp: rx_ok_def complete_ok_def)
  have filled: "\<forall>j. int j \<le> rs_consec d \<longrightarrow> (rs_parts d)[i := part] ! j \<noteq> []"
  proof (intro allI impI)
    fix j assume "int j \<le> rs_consec d"
    then have "rs_parts d ! j \<noteq> []" using assms(1) by (simp add: rx_ok_def consec_ok_def)
    then show "(rs_parts d)[i := part] ! j \<noteq> []" using slot(3) by (cases "j = i") auto
  qed
  have "consec_ok (advanced ?d)"
    using advance_props [OF _ _ filled, of "rs_total_parts d"] assms(1)
    by (simp add: rx_ok_def consec_ok_def advanced_def store_part_def)
  moreover have "counts_ok (advanced ?d)"
    using assms(1) count_if_update [OF i, of "\<lambda>p. p \<noteq> []" part] slot(3)
    by (auto simp: rx_ok_def counts_ok_def advanced_def store_part_def split: if_splits)
  moreover have "tables_ok (advanced ?d)" "windows_ok (advanced ?d)" "packets_ok (advanced ?d)"
    "complete_ok h (advanced ?d)"
    using assms(1) status
    by (simp_all add: rx_ok_def tables_ok_def windows_ok_def packets_ok_def complete_ok_def advanced_def
        store_part_def)
  ultimately show ?thesis by (simp add: rx_ok_def)
qed

lemma rx_ok_not_complete:
  "rx_ok h d \<Longrightarrow> rs_status d \<noteq> RS_COMPLETE \<Longrightarrow> s = RS_FAILED \<or> s = RS_CORRUPT \<Longrightarrow> rx_ok h (d\<lparr>rs_status := s\<rparr>)"
  by (auto simp: rx_ok_def tables_ok_def consec_ok_def counts_ok_def windows_ok_def packets_ok_def
      complete_ok_def)

lemma assemble_ok:
  assumes d: "rx_ok (re_hash e) d" and busy: "rs_status d \<noteq> RS_COMPLETE"
    and hash: "\<And>b. length (re_hash e b) = 32"
  shows "rx_ok (re_hash e) (fst (assemble e d))"
proof -
  have corrupt: "rx_ok (re_hash e) (d\<lparr>rs_status := RS_CORRUPT\<rparr>)" using d busy by (intro rx_ok_not_complete) simp_all
  show ?thesis
  proof (cases "\<exists>b. [] \<notin> set (rs_parts d) \<and> payload_of e d (concat (rs_parts d)) = Some b \<and>
      take 32 (re_hash e (b @ rs_random_hash d)) = rs_resource_hash d")
    case False
    then have "fst (assemble e d) = d\<lparr>rs_status := RS_CORRUPT\<rparr>"
      by (auto simp: assemble_def rns_full_hash2_def split: option.split)
    then show ?thesis using corrupt by simp
  next
    case True
    then obtain b where full: "[] \<notin> set (rs_parts d)" and pay: "payload_of e d (concat (rs_parts d)) = Some b"
      and match: "take 32 (re_hash e (b @ rs_random_hash d)) = rs_resource_hash d" by auto
    let ?d = "d\<lparr>rs_data := b, rs_status := RS_COMPLETE\<rparr>"
    let ?p = "rs_resource_hash d @ re_hash e (b @ rs_resource_hash d)"
    have 32: "length (rs_resource_hash d) = 32" using d by (simp add: rx_ok_def tables_ok_def)
    have base: "tables_ok ?d" "consec_ok ?d" "counts_ok ?d" "windows_ok ?d" "packets_ok ?d"
      using d by (simp_all add: rx_ok_def tables_ok_def consec_ok_def counts_ok_def windows_ok_def packets_ok_def)
    have none: "(PROOF, ctx, c) \<notin> set (rs_out d)" for ctx c
      using d busy by (auto simp: rx_ok_def complete_ok_def)
    have asm: "assemble e d = emit e PROOF RESOURCE_PRF ?p ?d"
      using full pay match hash 32 by (simp add: assemble_def Let_def rns_full_hash2_def generate_proof_def)
    have "tables_ok (fst (emit e PROOF RESOURCE_PRF ?p ?d))" "consec_ok (fst (emit e PROOF RESOURCE_PRF ?p ?d))"
      "counts_ok (fst (emit e PROOF RESOURCE_PRF ?p ?d))" "windows_ok (fst (emit e PROOF RESOURCE_PRF ?p ?d))"
      using base
      by (simp_all add: emit_def tables_ok_def consec_ok_def counts_ok_def windows_ok_def split: option.split)
    moreover have "packets_ok (fst (emit e PROOF RESOURCE_PRF ?p ?d))"
      using base(5) 32 hash by (simp add: emit_def packets_ok_def split: option.split)
    moreover have "complete_ok (re_hash e) (fst (emit e PROOF RESOURCE_PRF ?p ?d))"
      using full match none by (auto simp: emit_def complete_ok_def split: option.split)
    ultimately show ?thesis by (simp only: asm rx_ok_def simp_thms)
  qed
qed

lemma requested_now_keeps [simp]:
  "rs_status (fst (requested_now e now k d)) = rs_status d"
  "rs_data (fst (requested_now e now k d)) = rs_data d"
  by (simp_all add: requested_now_def)

lemma request_window_keeps [simp]:
  "rs_status (fst (request_window e now d)) = rs_status d"
  "rs_data (fst (request_window e now d)) = rs_data d"
proof -
  obtain req i x where "window_scan d (unat (rs_window d)) (rs_consec d + 1) 0 [] = (req, i, x)"
    by (metis prod_cases3)
  then show "rs_status (fst (request_window e now d)) = rs_status d"
    "rs_data (fst (request_window e now d)) = rs_data d"
    by (auto simp: request_window_def Let_def emit_def split: option.split)
qed

lemma pull_more_keeps [simp]:
  "rs_status (fst (pull_more e now d)) = rs_status d" "rs_data (fst (pull_more e now d)) = rs_data d"
  by (simp_all add: pull_more_def)

lemma conclude_ok:
  assumes "rx_ok (re_hash e) d" and "rs_status d \<noteq> RS_COMPLETE" and "\<And>b. length (re_hash e b) = 32"
  shows "rx_ok (re_hash e) (fst (conclude e d))"
proof -
  have "rx_ok (re_hash e) (fst (and_then (assemble e d) (\<lambda>d. (call_concluded d, None))))"
    using assemble_ok [OF assms] by (rule fst_and_then [where P = "rx_ok (re_hash e)"]) simp
  then show ?thesis using assms(1) by (simp add: conclude_def)
qed

lemma pull_more_ok: "rx_ok h d \<Longrightarrow> rx_ok h (fst (pull_more e now d))"
  by (simp add: pull_more_def request_window_ok bookkeeping_ok(2))

lemma slot_busy:
  assumes "rx_ok h d" and "slot_for mh d = Some i"
  shows "rs_status d \<noteq> RS_COMPLETE"
proof -
  have i: "i < length (rs_parts d)" and "rs_parts d ! i = []"
    using slot_for_Some [OF assms(2)] assms(1) by (auto simp: rx_ok_def tables_ok_def)
  then show ?thesis using assms(1) nth_mem [OF i] by (auto simp: rx_ok_def complete_ok_def)
qed

lemma receive_part_ok:
  assumes "rx_ok (re_hash e) d" and hash: "\<And>b. length (re_hash e b) = 32"
  shows "rx_ok (re_hash e) (fst (fst (receive_part e now part d)))"
proof -
  let ?d = "first_response e now part (d\<lparr>rs_last_activity := now, rs_retries_left := MAX_RETRIES\<rparr>)"
  have d: "rx_ok (re_hash e) ?d" using assms(1) by (intro bookkeeping_ok) simp
  have "rx_ok (re_hash e)
      (fst (and_then (pull_more e now (call_progress (advanced (store_part part i ?d)))) (conclude e)))"
    if slot: "slot_for mh ?d = Some i" for mh i
  proof -
    let ?m = "pull_more e now (call_progress (advanced (store_part part i ?d)))"
    have "rx_ok (re_hash e) (fst ?m)" using store_part_ok [OF d slot] by (intro pull_more_ok) simp
    moreover have "rs_status (fst ?m) \<noteq> RS_COMPLETE"
      using slot_busy [OF d slot] by (simp add: advanced_def store_part_def)
    ultimately show ?thesis
      using conclude_ok [OF _ _ hash, of "fst ?m"] by (cases ?m) (auto simp: and_then_def split: option.split)
  qed
  then show ?thesis
    using assms(1) d by (simp add: receive_part_def Let_def split: option.split)
qed

lemma cancel_ok: "rx_ok h d \<Longrightarrow> rx_ok h (fst (cancel e d))"
proof -
  assume d: "rx_ok h d"
  then have "\<not> rs_outbound d" by (simp add: rx_ok_def tables_ok_def)
  then show ?thesis using d by (auto simp: cancel_def Let_def rx_ok_not_complete)
qed

lemma watchdog_ok:
  assumes "rx_ok h d"
  shows "rx_ok h (fst (watchdog e now d))"
proof -
  have o: "\<not> rs_outbound d" and s: "rs_status d \<in> {RS_TRANSFERRING, RS_COMPLETE, RS_FAILED, RS_CORRUPT}"
    using assms by (simp_all add: rx_ok_def tables_ok_def)
  let ?d = "update_eifr e d"
  have d: "rx_ok h ?d" "rx_ok h (shrink_window ?d)"
    using bookkeeping_ok(4) [OF assms] by (simp_all only: bookkeeping_ok(3))
  let ?r = "(shrink_window ?d)\<lparr>rs_retries_left := rs_retries_left ?d - 1, rs_waiting_hmu := False\<rparr>"
  have "rx_ok h ?r" using d(2) by (simp only: rx_ok_times)
  then have "rx_ok h (fst (request_window e now ?r))" by (rule request_window_ok)
  moreover have "fst (watchdog_receiving e now d) \<in>
      {?d, fst (request_window e now ?r), fst (cancel e ?d)}"
    unfolding watchdog_receiving_def Let_def by (simp only: fst_conv insert_iff split: if_split) blast
  ultimately have "rx_ok h (fst (watchdog_receiving e now d))"
    using d(1) cancel_ok [OF d(1)] by auto
  then show ?thesis using assms o s by (auto simp: watchdog_def)
qed

section \<open>Reachable receivers\<close>

text \<open>
  Everything that can happen to a receiver, in any order: a part with any bytes, a map update with any
  bytes, a watchdog tick at any time, a cancellation. The link, the packet layer and the clock may
  differ from step to step; only the hash function stays.
\<close>

inductive rx_step :: "(bytes \<Rightarrow> bytes) \<Rightarrow> resource \<Rightarrow> resource \<Rightarrow> bool" for h where
  part: "re_hash e = h \<Longrightarrow> rx_step h d (fst (fst (receive_part e now part d)))"
| update: "re_hash e = h \<Longrightarrow> rx_step h d (fst (hashmap_update_packet e now b d))"
| tick: "re_hash e = h \<Longrightarrow> rx_step h d (fst (watchdog e now d))"
| abandon: "re_hash e = h \<Longrightarrow> rx_step h d (fst (cancel e d))"

inductive rx_reach :: "(bytes \<Rightarrow> bytes) \<Rightarrow> resource \<Rightarrow> bool" for h where
  accepted: "re_hash e = h \<Longrightarrow> accept e now p plaintext cb pcb rid = Some st \<Longrightarrow> rs_registered (fst st) \<Longrightarrow>
    rx_reach h (fst st)"
| stepped: "rx_reach h d \<Longrightarrow> rx_step h d d' \<Longrightarrow> rx_reach h d'"

inductive_cases rx_stepE: "rx_step h d d'"

lemma inbound_ok:
  assumes "32 \<le> length (ad_h a)"
  shows "rx_ok h ((inbound e now a cb pcb rid)\<lparr>rs_registered := True\<rparr>)"
proof -
  let ?d = "(inbound e now a cb pcb rid)\<lparr>rs_registered := True\<rparr>"
  have "length (take MAPHASH_LEN (drop (i * MAPHASH_LEN) (ad_m a))) = MAPHASH_LEN"
    if "i < length (ad_m a) div MAPHASH_LEN" for i
    using that by (simp add: MAPHASH_LEN_def)
  then have "tables_ok ?d" using assms by (auto simp: inbound_def tables_ok_def Let_def)
  moreover obtain n where "rs_total_parts ?d = n" "rs_parts ?d = replicate n []" "rs_consec ?d = -1"
    by (simp add: inbound_def Let_def)
  then have "consec_ok ?d" by (simp add: consec_ok_def)
  moreover have "counts_ok ?d"
    by (simp add: inbound_def counts_ok_def Let_def resource_object_def count_if_eq_0)
  moreover have "windows_ok ?d" "packets_ok ?d" "complete_ok h ?d"
    by (simp_all add: inbound_def Let_def windows_ok_def packets_ok_def complete_ok_def resource_object_def
        RES_WINDOW_def RES_WINDOW_MIN_def RES_WINDOW_MAX_SLOW_def RES_WINDOW_FLEXIBILITY_def)
  ultimately show ?thesis by (simp add: rx_ok_def)
qed

lemma accept_ok:
  assumes "accept e now p b cb pcb rid = Some st" and "rs_registered (fst st)"
  shows "rx_ok h (fst st)"
proof -
  obtain a where "adv_unpack (re_depth e) b = Inr a" "32 \<le> length (ad_h a)"
    "st = request_window e now ((inbound e now a cb pcb rid)\<lparr>rs_registered := True\<rparr>)"
    using assms by (auto simp: accept_def resource_object_def split: if_splits sum.splits)
  then show ?thesis using request_window_ok [OF inbound_ok] by simp
qed

lemma rx_step_ok:
  assumes "rx_step h d d'" and "rx_ok h d" and "\<And>b. length (h b) = 32"
  shows "rx_ok h d'"
  using assms
  by cases (auto intro: receive_part_ok hashmap_update_ok watchdog_ok cancel_ok)

lemma rx_reach_ok: "rx_reach h d \<Longrightarrow> (\<And>b. length (h b) = 32) \<Longrightarrow> rx_ok h d"
  by (induction rule: rx_reach.induct) (auto intro: accept_ok rx_step_ok)

lemma hm_fill_keeps [simp]:
  "rs_status (hm_fill hm segment i k d) = rs_status d" "rs_data (hm_fill hm segment i k d) = rs_data d"
  "rs_outbound (hm_fill hm segment i k d) = rs_outbound d"
  by (induction k arbitrary: i d) (simp_all add: Let_def)

lemma complete_final:
  assumes "rx_step h d d'" and "rx_ok h d" and "rs_status d = RS_COMPLETE"
  shows "rs_status d' = RS_COMPLETE \<and> rs_data d' = rs_data d"
  using assms(1)
proof cases
  case (part e now p)
  let ?d = "first_response e now p (d\<lparr>rs_last_activity := now, rs_retries_left := MAX_RETRIES\<rparr>)"
  have "rx_ok h ?d" using assms(2) by (intro bookkeeping_ok) simp
  then have "slot_for mh ?d = None" for mh
    using slot_busy [of h ?d mh] assms(3) by (cases "slot_for mh ?d") auto
  then show ?thesis using part assms(3) by (simp add: receive_part_def Let_def)
next
  case (update e now b)
  then show ?thesis using assms(3)
    by (simp add: hashmap_update_packet_def Let_def split: sum.split prod.split)
next
  case (tick e now)
  then show ?thesis using assms(3) by (simp add: watchdog_def)
next
  case (abandon e)
  then show ?thesis using assms(3) by (simp add: cancel_def call_concluded_def)
qed

text \<open>C7: whatever a peer sends and in whatever order, an incoming resource keeps its tables aligned and its
  window within 2 and 75 parts, no packet it sends exceeds 337 bytes, so each fits the link's 431, it is
  COMPLETE only with data whose hash is the advertised one, and then for good; and it sends a proof only
  for such data, the digest of the data with the resource's hash.\<close>

lemma receiver_sound:
  assumes "rx_reach h d" and "\<And>b. length (h b) = 32"
  shows "length (rs_parts d) = rs_total_parts d \<and> length (rs_map_hashes d) = rs_total_parts d \<and>
    length (rs_hash_known d) = rs_total_parts d \<and> rs_hashmap_height d \<le> rs_total_parts d \<and>
    rs_consec d < int (rs_total_parts d) \<and>
    2 \<le> rs_window_min d \<and> rs_window_min d \<le> rs_window d \<and> rs_window d \<le> 75 \<and>
    (\<forall>pt ctx b. (pt, ctx, b) \<in> set (rs_out d) \<longrightarrow> length b \<le> 337 \<and> length b \<le> LINK_MDU) \<and>
    (\<forall>ctx b. (PROOF, ctx, b) \<in> set (rs_out d) \<longrightarrow>
       rs_status d = RS_COMPLETE \<and> b = rs_resource_hash d @ h (rs_data d @ rs_resource_hash d)) \<and>
    (rs_status d = RS_COMPLETE \<longrightarrow>
       take 32 (h (rs_data d @ rs_random_hash d)) = rs_resource_hash d \<and>
       (\<forall>d'. rx_step h d d' \<longrightarrow> rs_status d' = RS_COMPLETE \<and> rs_data d' = rs_data d))"
proof -
  have ok: "rx_ok h d" by (rule rx_reach_ok [OF assms])
  have "\<forall>pt ctx b. (pt, ctx, b) \<in> set (rs_out d) \<longrightarrow> length b \<le> 337 \<and> length b \<le> LINK_MDU"
    using ok by (fastforce simp: rx_ok_def packets_ok_def const_values)
  moreover have "\<forall>ctx b. (PROOF, ctx, b) \<in> set (rs_out d) \<longrightarrow>
      rs_status d = RS_COMPLETE \<and> b = rs_resource_hash d @ h (rs_data d @ rs_resource_hash d)"
    using ok by (simp add: rx_ok_def complete_ok_def)
  moreover have "\<forall>d'. rx_step h d d' \<longrightarrow> rs_status d' = RS_COMPLETE \<and> rs_data d' = rs_data d"
    if "rs_status d = RS_COMPLETE"
    using complete_final [OF _ ok that] by blast
  ultimately show ?thesis
    using ok by (auto simp: rx_ok_def tables_ok_def consec_ok_def windows_ok_def complete_ok_def)
qed

text \<open>A small transfer for the witnesses: one part, a hash that pads to 32 bytes, a link that hides nothing.\<close>

definition sample_link :: lnk where
  "sample_link = \<lparr>ln_id = [1], ln_status = ACTIVE, ln_mtu = 500, ln_mdu = 431, ln_rtt = 1, ln_ttf = 6,
     ln_last_outbound = 0, ln_last_proof = 0, ln_tx = 0, ln_txbytes = 0, ln_peer_sig_pub = []\<rparr>"

definition sample_hash :: "bytes \<Rightarrow> bytes" where
  "sample_hash b = take 32 (b @ replicate 32 0)"

definition sample_renv :: renv where
  "sample_renv = \<lparr>re_hash = sample_hash, re_encrypt = Inr, re_decrypt = id, re_bz_compress = \<lambda>b n. None,
     re_bz_decompress = \<lambda>b n. None, re_send = \<lambda>pt ctx b. None, re_link = sample_link, re_cost = 100,
     re_alloc = \<lambda>n. True, re_depth = 4\<rparr>"

definition sample_carrier :: packet where
  "sample_carrier = packet_object\<lparr>pk_link := Some sample_link\<rparr>"

definition sample_sender :: resource where
  "sample_sender = fst (resource_new sample_renv 100 [1, 2, 3, 4] [5, 6, 7, 8] [7, 8, 9] True False True True 0 [] False)"

definition sample_accepted :: "rstep option" where
  "sample_accepted = accept sample_renv 101 sample_carrier (snd (snd (hd (rs_out sample_sender)))) True True []"

definition sample_received :: resource where
  "sample_received = fst (fst (receive_part sample_renv 102 [1, 2, 3, 4, 7, 8, 9] (fst (the sample_accepted))))"

lemma length_sample_hash: "length (sample_hash b) = 32"
  by (simp add: sample_hash_def)

lemma sample_accepted_reach: "rx_reach sample_hash (fst (the sample_accepted))"
proof -
  have "sample_accepted \<noteq> None" and reg: "rs_registered (fst (the sample_accepted))" by code_simp+
  then obtain st where st: "sample_accepted = Some st" by blast
  have h: "re_hash sample_renv = sample_hash" by (simp add: sample_renv_def)
  show ?thesis
    using reg unfolding st option.sel by (rule rx_reach.accepted [OF h st [unfolded sample_accepted_def]])
qed

lemma sample_reach: "rx_reach sample_hash sample_received"
  unfolding sample_received_def
  by (rule rx_reach.stepped [OF sample_accepted_reach]) (rule rx_step.part, simp add: sample_renv_def)

lemma sample_complete: "rs_status sample_received = RS_COMPLETE \<and> rs_data sample_received = [7, 8, 9]"
  by code_simp

lemma receiver_sound_witness:
  "take 32 (sample_hash ([7, 8, 9] @ rs_random_hash sample_received)) = rs_resource_hash sample_received \<and>
   rs_data (fst (cancel sample_renv sample_received)) = [7, 8, 9]"
proof -
  have "rs_status sample_received = RS_COMPLETE \<longrightarrow>
      take 32 (sample_hash (rs_data sample_received @ rs_random_hash sample_received)) =
        rs_resource_hash sample_received \<and>
      (\<forall>d'. rx_step sample_hash sample_received d' \<longrightarrow>
        rs_status d' = RS_COMPLETE \<and> rs_data d' = rs_data sample_received)"
    using receiver_sound [OF sample_reach length_sample_hash] by blast
  moreover have "rx_step sample_hash sample_received (fst (cancel sample_renv sample_received))"
    by (rule rx_step.abandon) (simp add: sample_renv_def)
  ultimately show ?thesis using sample_complete by simp
qed

end
