(* ===== verification/ResExchange.thy ===== *)
theory ResExchange
  imports ResInv
begin

text \<open>
  Sender and receiver together: over a link that loses nothing the two engines end a transfer of any
  number of parts, whatever the window does, with the sender's data at the receiver and both sides COMPLETE.
  The payload must not be empty and its parts' map hashes must differ: what happens otherwise is shown too.
\<close>

section \<open>Blocks of map hashes\<close>

lemma drop_blocks:
  assumes "\<forall>x \<in> set xs. length x = m" and "i \<le> length xs"
  shows "drop (i * m) (concat xs) = concat (drop i xs)"
  using assms
proof (induction i arbitrary: xs)
  case (Suc i)
  then obtain y ys where xs: "xs = y # ys" by (cases xs) auto
  then have "drop (Suc i * m) (concat xs) = drop (i * m) (concat ys)" using Suc.prems(1) by simp
  then show ?case using Suc xs by simp
qed simp

lemma take_blocks:
  assumes "\<forall>x \<in> set xs. length x = m" and "i \<le> length xs"
  shows "take (i * m) (concat xs) = concat (take i xs)"
  using assms
proof (induction i arbitrary: xs)
  case (Suc i)
  then obtain y ys where xs: "xs = y # ys" by (cases xs) auto
  then have "take (Suc i * m) (concat xs) = y @ take (i * m) (concat ys)" using Suc.prems(1) by simp
  then show ?case using Suc xs by simp
qed simp

lemma block_at:
  assumes "\<forall>x \<in> set xs. length x = m" and "i < length xs"
  shows "take m (drop (i * m) (concat xs)) = xs ! i"
proof -
  have "concat (drop i xs) = xs ! i @ concat (drop (Suc i) xs)"
    using assms(2) by (simp add: Cons_nth_drop_Suc [symmetric])
  moreover have "length (xs ! i) = m" using assms by simp
  ultimately show ?thesis using drop_blocks [OF assms(1), of i] assms(2) by simp
qed

lemma length_blocks: "\<forall>x \<in> set xs. length x = m \<Longrightarrow> length (concat xs) = length xs * m"
  by (induction xs) auto

lemma slice_blocks:
  assumes "\<forall>x \<in> set xs. length x = m" and "i \<le> j" and "j \<le> length xs"
  shows "take ((j - i) * m) (drop (i * m) (concat xs)) = concat (map ((!) xs) [i..<j])"
proof -
  have "\<forall>x \<in> set (drop i xs). length x = m" using assms(1) by (auto dest: in_set_dropD)
  moreover have "take (j - i) (drop i xs) = map ((!) xs) [i..<j]"
    using assms by (intro nth_equalityI) auto
  ultimately show ?thesis
    using assms drop_blocks [OF assms(1), of i] take_blocks [of "drop i xs" m "j - i"] by simp
qed

lemma first_index_distinct:
  assumes "distinct (map f xs)" and "j < length xs"
  shows "first_index (\<lambda>x. f x = f (xs ! j)) xs = Some j"
proof (rule first_index_SomeI)
  show "f (xs ! i) \<noteq> f (xs ! j)" if "i < j" for i
    using assms that by (auto simp: distinct_conv_nth)
qed (use assms in simp_all)

section \<open>The sender answers\<close>

text \<open>
  What a transfer is about: the parts, the two hashes and the flags the advertisement carries. The
  assumption on the parts is that no two have the same four-byte map hash; the code does not check it.
\<close>

record xfer =
  xf_parts :: "bytes list"
  xf_random :: bytes
  xf_hash :: bytes
  xf_flags :: rflags
  xf_size :: nat
  xf_cb :: bool
  xf_scb :: bool

definition mh :: "(bytes \<Rightarrow> bytes) \<Rightarrow> xfer \<Rightarrow> nat \<Rightarrow> bytes" where
  "mh h x i = take MAPHASH_LEN (h (xf_parts x ! i @ xf_random x))"

definition xfer_ok :: "(bytes \<Rightarrow> bytes) \<Rightarrow> xfer \<Rightarrow> bool" where
  "xfer_ok h x \<longleftrightarrow> (\<forall>b. length (h b) = 32) \<and> distinct (map (mh h x) [0..<length (xf_parts x)]) \<and>
     [] \<notin> set (xf_parts x) \<and> xf_parts x \<noteq> [] \<and> length (xf_parts x) < 2 ^ 31 \<and> length (xf_hash x) = 32"

definition open_link :: "renv \<Rightarrow> bool" where
  "open_link e \<longleftrightarrow> (\<forall>pt ctx b. re_send e pt ctx b = None)"

lemma emit_open: "open_link e \<Longrightarrow> emit e pt ctx b d = (d\<lparr>rs_out := rs_out d @ [(pt, ctx, b)]\<rparr>, None)"
  by (simp add: open_link_def emit_def)

lemma length_mh: "xfer_ok h x \<Longrightarrow> length (mh h x i) = MAPHASH_LEN"
  by (simp add: xfer_ok_def mh_def MAPHASH_LEN_def)

lemma part_nonempty: "xfer_ok h x \<Longrightarrow> j < length (xf_parts x) \<Longrightarrow> xf_parts x ! j \<noteq> []"
  by (metis nth_mem xfer_ok_def)

lemma mh_inj:
  "xfer_ok h x \<Longrightarrow> i < length (xf_parts x) \<Longrightarrow> j < length (xf_parts x) \<Longrightarrow> mh h x i = mh h x j \<Longrightarrow> i = j"
  by (auto simp: xfer_ok_def distinct_map inj_on_def)

definition sender_of :: "(bytes \<Rightarrow> bytes) \<Rightarrow> xfer \<Rightarrow> bytes \<Rightarrow> resource \<Rightarrow> bool" where
  "sender_of h x pf s \<longleftrightarrow> rs_outbound s \<and> rs_status s \<noteq> RS_FAILED \<and> rs_parts s = xf_parts x \<and>
     rs_random_hash s = xf_random x \<and> rs_resource_hash s = xf_hash x \<and>
     rs_hashmap s = concat (map (mh h x) [0..<length (xf_parts x)]) \<and>
     rs_total_parts s = length (xf_parts x) \<and> rs_expected_proof s = pf \<and> rs_concluded_cb s = xf_scb x \<and> rs_concluded s = []"

lemma sender_of_marks [simp]:
  "sender_of h x pf (s\<lparr>rs_out := q\<rparr>) = sender_of h x pf s"
  "sender_of h x pf (s\<lparr>rs_last_activity := a\<rparr>) = sender_of h x pf s"
  "sender_of h x pf (s\<lparr>rs_last_part_sent := a\<rparr>) = sender_of h x pf s"
  "sender_of h x pf (s\<lparr>rs_rtt := a\<rparr>) = sender_of h x pf s"
  "sender_of h x pf (s\<lparr>rs_retries_left := z\<rparr>) = sender_of h x pf s"
  "sender_of h x pf (s\<lparr>rs_part_sent := ws\<rparr>) = sender_of h x pf s"
  "sender_of h x pf (s\<lparr>rs_sent_parts := k\<rparr>) = sender_of h x pf s"
  by (simp_all add: sender_of_def)

lemma serve_parts:
  assumes "sender_of (re_hash e) x pf s" and "xfer_ok (re_hash e) x" and "open_link e"
    and "\<forall>j \<in> set js. j < length (xf_parts x)"
  shows "\<exists>s'. serve e now (concat (map (mh (re_hash e) x) js)) s = (s', None) \<and>
    sender_of (re_hash e) x pf s' \<and>
    rs_out s' = rs_out s @ map (\<lambda>j. (DATA, RESOURCE, xf_parts x ! j)) js"
  using assms
proof (induction js arbitrary: s)
  case Nil
  then show ?case by (subst serve.simps) (simp add: MAPHASH_LEN_def)
next
  case (Cons j js)
  let ?h = "re_hash e"
  let ?w = "concat (map (mh ?h x) (j # js))"
  have len: "length (mh ?h x j) = MAPHASH_LEN" using Cons.prems(2) by (rule length_mh)
  have w: "take MAPHASH_LEN ?w = mh ?h x j" "drop MAPHASH_LEN ?w = concat (map (mh ?h x) js)"
    "MAPHASH_LEN \<le> length ?w"
    using len by simp_all
  have j: "j < length (xf_parts x)" using Cons.prems(4) by simp
  have "distinct (map (\<lambda>p. rns_map_hash e p (xf_random x)) (xf_parts x))"
  proof -
    have "map (\<lambda>p. rns_map_hash e p (xf_random x)) (xf_parts x) = map (mh ?h x) [0..<length (xf_parts x)]"
      by (intro nth_equalityI) (simp_all add: mh_def rns_map_hash_def)
    then show ?thesis using Cons.prems(2) by (simp add: xfer_ok_def)
  qed
  from first_index_distinct [OF this j]
  have found: "first_index (\<lambda>p. rns_map_hash e p (rs_random_hash s) = take MAPHASH_LEN ?w) (rs_parts s) = Some j"
    unfolding w(1) using Cons.prems(1) by (simp add: sender_of_def mh_def rns_map_hash_def)
  define s1 where "s1 = (let d = s\<lparr>rs_out := rs_out s @ [(DATA, RESOURCE, xf_parts x ! j)]\<rparr> in
    (if j < length (rs_part_sent d) \<and> \<not> rs_part_sent d ! j
     then d\<lparr>rs_part_sent := (rs_part_sent d)[j := True], rs_sent_parts := Suc (rs_sent_parts d)\<rparr>
     else d)\<lparr>rs_last_activity := now, rs_last_part_sent := now\<rparr>)"
  have s1: "sender_of ?h x pf s1" "rs_out s1 = rs_out s @ [(DATA, RESOURCE, xf_parts x ! j)]"
    using Cons.prems(1) by (simp_all add: s1_def Let_def)
  have step: "serve e now ?w s = serve e now (concat (map (mh ?h x) js)) s1"
    using w found Cons.prems(1)
    by (subst serve.simps) (simp add: emit_open [OF Cons.prems(3)] s1_def Let_def sender_of_def)
  from Cons.IH [OF s1(1) Cons.prems(2,3)] Cons.prems(4) s1(2) show ?case
    unfolding step by auto
qed

text \<open>The two messages of the pull: a request for parts \<open>k..<m\<close>, exhausted or not, and a map segment.\<close>

definition req_bytes :: "(bytes \<Rightarrow> bytes) \<Rightarrow> xfer \<Rightarrow> nat \<Rightarrow> nat \<Rightarrow> nat \<Rightarrow> bool \<Rightarrow> bytes" where
  "req_bytes h x height k m ex =
    (if ex then HASHMAP_IS_EXHAUSTED # mh h x (height - 1) else [HASHMAP_IS_NOT_EXHAUSTED]) @
    xf_hash x @ concat (map (mh h x) [k..<m])"

definition hmu_bytes :: "(bytes \<Rightarrow> bytes) \<Rightarrow> xfer \<Rightarrow> nat \<Rightarrow> bytes" where
  "hmu_bytes h x height =
    xf_hash x @ pack_array_header 2 @ pack_uint (of_nat (height div HASHMAP_MAX_LEN)) @
    pack_bin (concat (map (mh h x) [height..<min (height + HASHMAP_MAX_LEN) (length (xf_parts x))]))"

lemma finish_request_sender [simp]:
  "sender_of h x pf s \<Longrightarrow> sender_of h x pf (finish_request s)" "rs_out (finish_request s) = rs_out s"
  by (auto simp: finish_request_def sender_of_def)

lemma send_hmu_open:
  assumes s: "sender_of (re_hash e) x pf s" and x: "xfer_ok (re_hash e) x" and e: "open_link e"
    and height: "0 < height" "height < length (xf_parts x)" "height mod HASHMAP_MAX_LEN = 0"
  shows "send_hmu e now (mh (re_hash e) x (height - 1)) s =
    ((s\<lparr>rs_out := rs_out s @ [(DATA, RESOURCE_HMU, hmu_bytes (re_hash e) x height)], rs_last_activity := now\<rparr>,
      None), True)"
proof -
  let ?h = "re_hash e" let ?n = "length (xf_parts x)" let ?ms = "map (mh (re_hash e) x) [0..<length (xf_parts x)]"
  have blocks: "\<forall>b \<in> set ?ms. length b = MAPHASH_LEN" using length_mh [OF x] by auto
  have len: "length (rs_hashmap s) = ?n * MAPHASH_LEN"
    using s length_blocks [OF blocks] by (simp add: sender_of_def)
  have at: "hashmap_at s i = mh ?h x i" if "i < ?n" for i
    using s block_at [OF blocks, of i] that by (simp add: sender_of_def hashmap_at_def)
  have range: "[0..<min (rs_total_parts s) (length (rs_hashmap s) div MAPHASH_LEN)] = [0..<?n]"
    using s len by (simp add: sender_of_def MAPHASH_LEN_def)
  have found: "first_index (\<lambda>i. hashmap_at s i = mh ?h x (height - 1)) [0..<?n] = Some (height - 1)"
  proof (rule first_index_SomeI)
    show "hashmap_at s ([0..<?n] ! i) \<noteq> mh ?h x (height - 1)" if "i < height - 1" for i
    proof
      assume "hashmap_at s ([0..<?n] ! i) = mh ?h x (height - 1)"
      then have eq: "mh ?h x i = mh ?h x (height - 1)" using that height at [of i] by simp
      have "i = height - 1" using that height by (intro mh_inj [OF x _ _ eq]) simp_all
      then show False using that by simp
    qed
  qed (use height at in auto)
  have seg: "(height - 1 + 1) mod HASHMAP_MAX_LEN = 0" "(height - 1 + 1) div HASHMAP_MAX_LEN = height div HASHMAP_MAX_LEN"
    using height by simp_all
  have start: "height div HASHMAP_MAX_LEN * HASHMAP_MAX_LEN = height"
    using height(3) by (metis add_0_right div_mult_mod_eq)
  let ?e = "min (height + HASHMAP_MAX_LEN) ?n"
  have bounds: "height < ?e" "?e * MAPHASH_LEN \<le> length (rs_hashmap s)" "height \<le> ?e" "?e \<le> length ?ms"
    using height len by (auto simp: res_const_values)
  have "take ((?e - height) * MAPHASH_LEN) (drop (height * MAPHASH_LEN) (rs_hashmap s)) =
      concat (map ((!) ?ms) [height..<?e])"
    using s slice_blocks [OF blocks bounds(3,4)] by (simp add: sender_of_def)
  also have "map ((!) ?ms) [height..<?e] = map (mh ?h x) [height..<?e]" by (auto intro!: map_cong)
  finally have "hmu_payload s (height div HASHMAP_MAX_LEN) = hmu_bytes ?h x height"
    using s start bounds by (simp add: hmu_payload_def hmu_bytes_def sender_of_def Let_def add.commute)
  then show ?thesis
    using found seg by (simp add: send_hmu_def range emit_open [OF e])
qed

lemma request_answers:
  assumes s: "sender_of (re_hash e) x pf s" and x: "xfer_ok (re_hash e) x" and e: "open_link e"
    and km: "k \<le> m" "m \<le> length (xf_parts x)"
    and ex: "ex \<Longrightarrow> 0 < height \<and> height < length (xf_parts x) \<and> height mod HASHMAP_MAX_LEN = 0"
  shows "\<exists>s'. request e now (req_bytes (re_hash e) x height k m ex) s = (s', None) \<and>
    sender_of (re_hash e) x pf s' \<and>
    rs_out s' = rs_out s @ map (\<lambda>j. (DATA, RESOURCE, xf_parts x ! j)) [k..<m] @
      (if ex then [(DATA, RESOURCE_HMU, hmu_bytes (re_hash e) x height)] else [])"
proof -
  let ?h = "re_hash e" let ?b = "req_bytes ?h x height k m ex"
  define s0 where "s0 = (if rs_rtt s \<le> 0 \<and> rs_adv_sent s > 0 then s\<lparr>rs_rtt := now - rs_adv_sent s\<rparr> else s)
    \<lparr>rs_status := RS_TRANSFERRING, rs_retries_left := MAX_RETRIES\<rparr>"
  have s0: "sender_of ?h x pf s0" "rs_out s0 = rs_out s" using s by (auto simp: s0_def sender_of_def)
  have 32: "length (xf_hash x) = 32" using x by (simp add: xfer_ok_def)
  have 4: "length (mh ?h x i) = 4" for i using length_mh [OF x] by (simp add: MAPHASH_LEN_def)
  obtain s1 where s1: "serve e now (concat (map (mh ?h x) [k..<m])) s0 = (s1, None)"
    "sender_of ?h x pf s1" "rs_out s1 = rs_out s0 @ map (\<lambda>j. (DATA, RESOURCE, xf_parts x ! j)) [k..<m]"
    using serve_parts [OF s0(1) x e, of "[k..<m]" now] km by auto
  have out: "rs_outbound s" "rs_status s \<noteq> RS_FAILED" using s by (simp_all add: sender_of_def)
  show ?thesis
  proof (cases ex)
    case False
    have b: "?b = HASHMAP_IS_NOT_EXHAUSTED # xf_hash x @ concat (map (mh ?h x) [k..<m])"
      using False by (simp add: req_bytes_def)
    have "request e now ?b s = (finish_request s1, None)"
      using out 32 s1(1) unfolding b
      by (simp add: request_def Let_def s0_def HASHMAP_IS_EXHAUSTED_def HASHMAP_IS_NOT_EXHAUSTED_def)
    then show ?thesis using s1 s0 False by simp
  next
    case True
    have b: "?b = HASHMAP_IS_EXHAUSTED # mh ?h x (height - 1) @ xf_hash x @ concat (map (mh ?h x) [k..<m])"
      using True by (simp add: req_bytes_def)
    let ?s2 = "s1\<lparr>rs_out := rs_out s1 @ [(DATA, RESOURCE_HMU, hmu_bytes ?h x height)], rs_last_activity := now\<rparr>"
    have hmu: "send_hmu e now (mh ?h x (height - 1)) s1 = ((?s2, None), True)"
      using ex [OF True] by (intro send_hmu_open [OF s1(2) x e]) auto
    have "request e now ?b s = (finish_request ?s2, None)"
      using out 32 4 s1(1) hmu unfolding b
      by (simp add: request_def Let_def s0_def MAPHASH_LEN_def)
    then show ?thesis using s1 s0 True by simp
  qed
qed

section \<open>The receiver pulls\<close>

text \<open>
  A receiver that has parts \<open>0..<k\<close> and the map of parts \<open>0..<ht\<close>; \<open>ht\<close> is a whole number of segments until
  the map is complete.
\<close>

definition synced :: "(bytes \<Rightarrow> bytes) \<Rightarrow> xfer \<Rightarrow> nat \<Rightarrow> nat \<Rightarrow> resource \<Rightarrow> bool" where
  "synced h x k ht d \<longleftrightarrow> rx_ok h d \<and> rs_status d = RS_TRANSFERRING \<and>
     rs_total_parts d = length (xf_parts x) \<and>
     rs_parts d = take k (xf_parts x) @ replicate (length (xf_parts x) - k) [] \<and>
     rs_received d = k \<and> rs_consec d = int k - 1 \<and> k \<le> ht \<and> 0 < ht \<and> ht \<le> length (xf_parts x) \<and>
     (ht = length (xf_parts x) \<or> ht mod HASHMAP_MAX_LEN = 0) \<and> rs_hashmap_height d = ht \<and>
     (\<forall>i < length (xf_parts x). rs_hash_known d ! i = (i < ht)) \<and>
     (\<forall>i < ht. rs_map_hashes d ! i = mh h x i) \<and>
     rs_random_hash d = xf_random x \<and> rs_resource_hash d = xf_hash x \<and> rs_flags d = xf_flags x \<and>
     rs_total_size d = xf_size x \<and> rs_concluded_cb d = xf_cb x \<and> rs_concluded d = []"

lemma synced_marks [simp]:
  "synced h x k ht (d\<lparr>rs_last_activity := a\<rparr>) = synced h x k ht d"
  "synced h x k ht (d\<lparr>rs_req_sent := a\<rparr>) = synced h x k ht d"
  "synced h x k ht (d\<lparr>rs_req_sent_bytes := j\<rparr>) = synced h x k ht d"
  "synced h x k ht (d\<lparr>rs_rtt_rxd_bytes_at_part_req := j\<rparr>) = synced h x k ht d"
  "synced h x k ht (d\<lparr>rs_req_resp := a\<rparr>) = synced h x k ht d"
  "synced h x k ht (d\<lparr>rs_retries_left := z\<rparr>) = synced h x k ht d"
  "synced h x k ht (d\<lparr>rs_waiting_hmu := w\<rparr>) = synced h x k ht d"
  by (simp_all add: synced_def)

lemma synced_missing: "synced h x k ht d \<Longrightarrow> k \<le> j \<Longrightarrow> j < length (xf_parts x) \<Longrightarrow> rs_parts d ! j = []"
  by (simp add: synced_def nth_append)

lemma window_scan_synced:
  assumes "synced h x k ht d" and "i + s = unat (rs_window d)" and "0 < s" and "k + i \<le> ht"
  shows "window_scan d s (int (k + i)) i (concat (map (mh h x) [k..<k + i])) =
    (concat (map (mh h x) [k..<min (k + unat (rs_window d)) ht]), min (k + unat (rs_window d)) ht - k,
     ht < k + unat (rs_window d) \<and> ht < length (xf_parts x))"
  using assms
proof (induction s arbitrary: i)
  case (Suc s)
  let ?n = "length (xf_parts x)"
  have d: "rs_total_parts d = ?n" "ht \<le> ?n" using Suc.prems(1) by (simp_all add: synced_def)
  show ?case
  proof (cases "k + i < ht")
    case True
    have here: "rs_parts d ! (k + i) = []" "rs_hash_known d ! (k + i)" "rs_map_hashes d ! (k + i) = mh h x (k + i)"
      using Suc.prems(1) True d synced_missing [OF Suc.prems(1), of "k + i"] by (auto simp: synced_def)
    have more: "concat (map (mh h x) [k..<k + i]) @ mh h x (k + i) = concat (map (mh h x) [k..<k + Suc i])" by simp
    show ?thesis
    proof (cases s)
      case 0
      then have "unat (rs_window d) = Suc i" using Suc.prems(2) by simp
      then show ?thesis using 0 True d here more by (simp add: Let_def min_def nat_int_add)
    next
      case (Suc s')
      then have "window_scan d s (int (k + Suc i)) (Suc i) (concat (map (mh h x) [k..<k + Suc i])) =
          (concat (map (mh h x) [k..<min (k + unat (rs_window d)) ht]), min (k + unat (rs_window d)) ht - k,
           ht < k + unat (rs_window d) \<and> ht < ?n)"
        using Suc.prems True by (intro Suc.IH) simp_all
      moreover have "int (k + Suc i) = int (k + i) + 1" by simp
      ultimately have "window_scan d s (int (k + i) + 1) (Suc i) (concat (map (mh h x) [k..<k + Suc i])) =
          (concat (map (mh h x) [k..<min (k + unat (rs_window d)) ht]), min (k + unat (rs_window d)) ht - k,
           ht < k + unat (rs_window d) \<and> ht < ?n)"
        by (simp only:)
      moreover have "\<not> unat (rs_window d) \<le> Suc i" using Suc Suc.prems by simp
      moreover have "window_scan d (Suc s) (int (k + i)) i (concat (map (mh h x) [k..<k + i])) =
          (if unat (rs_window d) \<le> Suc i then (concat (map (mh h x) [k..<k + Suc i]), Suc i, False)
           else window_scan d s (int (k + i) + 1) (Suc i) (concat (map (mh h x) [k..<k + Suc i])))"
        using True d here by (simp add: Let_def more nat_int_add del: concat_append map_append upt_Suc)
      ultimately show ?thesis by (simp only: if_False)
    qed
  next
    case False
    then have ht: "k + i = ht" using Suc.prems(4) by simp
    show ?thesis
    proof (cases "ht = ?n")
      case True
      then show ?thesis using ht d Suc.prems by (simp add: min_def)
    next
      case less: False
      then have "rs_parts d ! ht = []" "\<not> rs_hash_known d ! ht"
        using Suc.prems(1) ht d synced_missing [OF Suc.prems(1), of ht] by (auto simp: synced_def)
      then show ?thesis using ht d Suc.prems less by (simp add: Let_def min_def nat_int_add)
    qed
  qed
qed simp

definition asked :: "(bytes \<Rightarrow> bytes) \<Rightarrow> xfer \<Rightarrow> nat \<Rightarrow> nat \<Rightarrow> nat \<Rightarrow> bool \<Rightarrow> resource \<Rightarrow> bool" where
  "asked h x k ht m ex d \<longleftrightarrow> synced h x k ht d \<and> rs_outstanding_parts d = m - k \<and> rs_waiting_hmu d = ex \<and>
     k \<le> m \<and> m \<le> ht \<and> (ex \<longrightarrow> m = ht \<and> ht < length (xf_parts x)) \<and> (\<not> ex \<longrightarrow> k < m)"

lemma request_window_synced:
  assumes d: "synced (re_hash e) x k ht d" and k: "k < length (xf_parts x)" and w: "\<not> rs_waiting_hmu d"
    and e: "open_link e" and x: "xfer_ok (re_hash e) x"
  shows "\<exists>m ex d'. request_window e now d = (d', None) \<and> asked (re_hash e) x k ht m ex d' \<and>
    rs_out d' = rs_out d @ [(DATA, RESOURCE_REQ, req_bytes (re_hash e) x ht k m ex)]"
proof -
  let ?h = "re_hash e" let ?w = "unat (rs_window d)" let ?n = "length (xf_parts x)"
  define m where "m = min (k + ?w) ht"
  define ex where "ex \<longleftrightarrow> ht < k + ?w \<and> ht < ?n"
  have ok: "rx_ok ?h d" and f: "rs_total_parts d = ?n" "rs_consec d = int k - 1" "k \<le> ht" "0 < ht" "ht \<le> ?n"
    "rs_hashmap_height d = ht" "rs_resource_hash d = xf_hash x" "rs_status d = RS_TRANSFERRING"
    "rs_map_hashes d ! (ht - 1) = mh ?h x (ht - 1)"
    using d by (auto simp: synced_def)
  have w2: "2 \<le> ?w" using ok windows_bounds by (simp add: rx_ok_def)
  have o: "\<not> rs_outbound d" using ok by (simp add: rx_ok_def tables_ok_def)
  have scan: "window_scan d ?w (rs_consec d + 1) 0 [] = (concat (map (mh ?h x) [k..<m]), m - k, ex)"
    using window_scan_synced [OF d, of 0 ?w] w2 f by (simp add: m_def ex_def)
  have m: "k \<le> m" "m \<le> ht" "ex \<longrightarrow> m = ht \<and> ht < ?n" "\<not> ex \<longrightarrow> k < m"
    using f k w2 by (auto simp: m_def ex_def)
  have "?w \<le> 75" using windows_bounds(1) [of d] ok by (simp add: rx_ok_def)
  then have small: "m - k \<le> 75" by (auto simp: m_def min_def)
  have payload: "req_payload d (concat (map (mh ?h x) [k..<m])) ex = req_bytes ?h x ht k m ex"
    using f by (simp add: req_payload_def req_bytes_def)
  have nonempty: "\<not> (concat (map (mh ?h x) [k..<m]) = [] \<and> \<not> ex)"
  proof
    assume a: "concat (map (mh ?h x) [k..<m]) = [] \<and> \<not> ex"
    then have "k < m" using m by simp
    then have "mh ?h x k = []" using a by auto
    then show False using length_mh [OF x, of k] by (simp add: MAPHASH_LEN_def)
  qed
  let ?d1 = "if ex then d\<lparr>rs_outstanding_parts := m - k, rs_waiting_hmu := True\<rparr>
      else d\<lparr>rs_outstanding_parts := m - k\<rparr>"
  let ?d2 = "?d1\<lparr>rs_out := rs_out d @ [(DATA, RESOURCE_REQ, req_bytes ?h x ht k m ex)]\<rparr>"
  have out1: "rs_out ?d1 = rs_out d" by simp
  have "request_window e now d =
      requested_now e now (length (req_bytes ?h x ht k m ex)) ?d2"
    unfolding request_window_eq [OF o w f(8) scan] payload if_not_P [OF nonempty] emit_open [OF e] out1 and_then_None ..
  moreover have "rx_ok ?h ?d2"
  proof -
    have "rx_ok ?h ?d1" using rx_ok_outstanding [OF ok small] by simp
    moreover have "length (req_bytes ?h x ht k m ex) \<le> 337"
    proof -
      have "tables_ok d" using ok by (simp add: rx_ok_def)
      from length_req_payload [OF this, of "concat (map (mh ?h x) [k..<m])" ex]
      have "length (req_bytes ?h x ht k m ex) \<le> 37 + length (concat (map (mh ?h x) [k..<m]))"
        unfolding payload .
      also have "length (concat (map (mh ?h x) [k..<m])) = (m - k) * MAPHASH_LEN"
        using length_blocks [of "map (mh ?h x) [k..<m]" MAPHASH_LEN] length_mh [OF x] by simp
      finally show ?thesis using small by (simp add: MAPHASH_LEN_def)
    qed
    ultimately show ?thesis
      using rx_ok_sent [of ?h ?d1 "req_bytes ?h x ht k m ex" DATA RESOURCE_REQ] by (simp only: out1) simp
  qed
  then have "synced ?h x k ht ?d2" using d by (simp add: synced_def)
  ultimately show ?thesis
    using m by (intro exI [of _ m] exI [of _ ex]) (auto simp: requested_now_def asked_def w)
qed

section \<open>The receiver takes a part\<close>

lemma slot_synced:
  assumes d: "synced h x k ht d" and k: "k < ht" and x: "xfer_ok h x"
  shows "slot_for (mh h x k) d = Some k"
proof -
  have n: "ht \<le> length (xf_parts x)" "rs_total_parts d = length (xf_parts x)" using d by (simp_all add: synced_def)
  have filled: "rs_parts d ! j \<noteq> []" if "j < k" for j
  proof -
    have "rs_parts d ! j = xf_parts x ! j" using d that n k by (simp add: synced_def nth_append)
    then show ?thesis using part_nonempty [OF x, of j] that n k by simp
  qed
  show ?thesis unfolding slot_for_def n(2)
  proof (rule first_index_SomeI)
    show "rs_hash_known d ! ([0..<length (xf_parts x)] ! k) \<and> rs_parts d ! ([0..<length (xf_parts x)] ! k) = [] \<and>
        rs_map_hashes d ! ([0..<length (xf_parts x)] ! k) = mh h x k"
      using d k n synced_missing [OF d, of k] by (simp add: synced_def)
  qed (use k n filled in auto)
qed

lemma advance_one:
  assumes "k < n" and "ps ! k \<noteq> []" and "Suc k < n \<Longrightarrow> ps ! Suc k = []"
  shows "advance n ps (int k - 1) = int k"
proof -
  have "advance n ps (int k - 1) = advance n ps (int k)"
    using assms by (subst advance.simps) simp
  also have "\<dots> = int k"
  proof (subst advance.simps)
    have "nat (int k + 1) = Suc k" by simp
    then show "(if int k + 1 < int n \<and> ps ! nat (int k + 1) \<noteq> [] then advance n ps (int k + 1) else int k) = int k"
      using assms(3) by auto
  qed
  finally show ?thesis .
qed

lemma store_synced:
  assumes d: "synced h x k ht d" and k: "k < ht" and x: "xfer_ok h x"
  shows "synced h x (Suc k) ht (call_progress (advanced (store_part (xf_parts x ! k) k d)))"
proof -
  let ?ps = "xf_parts x" let ?n = "length ?ps"
  let ?d = "call_progress (advanced (store_part (?ps ! k) k d))"
  have n: "k < ?n" using d k by (simp add: synced_def)
  have upd: "(take k ?ps @ replicate (?n - k) [])[k := ?ps ! k] = take (Suc k) ?ps @ replicate (?n - Suc k) []"
    using n by (intro nth_equalityI) (auto simp: nth_append nth_list_update less_Suc_eq)
  have "?ps ! k \<noteq> []" using part_nonempty [OF x n] .
  then have "advance ?n (take (Suc k) ?ps @ replicate (?n - Suc k) []) (int k - 1) = int k"
    using n by (intro advance_one) (simp_all add: nth_append)
  moreover have "rx_ok h ?d"
    using d store_part_ok [OF _ slot_synced [OF d k x]] by (simp add: synced_def)
  ultimately show ?thesis
    using d k upd by (simp add: synced_def advanced_def store_part_def)
qed

lemma synced_bookkeeping:
  assumes "synced h x k ht d"
  shows "synced h x k ht (first_response e now p d)" "synced h x k ht (adapt_window e now d)"
  using assms bookkeeping_ok(1,2) [of h d] by (simp_all add: synced_def)

definition stored :: "renv \<Rightarrow> secs \<Rightarrow> xfer \<Rightarrow> nat \<Rightarrow> resource \<Rightarrow> resource" where
  "stored e now x k d = call_progress (advanced (store_part (xf_parts x ! k) k
     (first_response e now (xf_parts x ! k) (d\<lparr>rs_last_activity := now, rs_retries_left := MAX_RETRIES\<rparr>))))"

lemma stored_keeps [simp]:
  "rs_outstanding_parts (stored e now x k d) = rs_outstanding_parts d - 1"
  "rs_waiting_hmu (stored e now x k d) = rs_waiting_hmu d" "rs_out (stored e now x k d) = rs_out d"
  by (simp_all add: stored_def advanced_def store_part_def)

lemma receive_synced:
  assumes d: "synced (re_hash e) x k ht d" and k: "k < ht" and x: "xfer_ok (re_hash e) x"
  shows "synced (re_hash e) x (Suc k) ht (stored e now x k d)"
    and "receive_part e now (xf_parts x ! k) d =
      (and_then (pull_more e now (stored e now x k d)) (conclude e), True)"
proof -
  let ?d = "first_response e now (xf_parts x ! k) (d\<lparr>rs_last_activity := now, rs_retries_left := MAX_RETRIES\<rparr>)"
  have d1: "synced (re_hash e) x k ht ?d" using d by (intro synced_bookkeeping) simp
  show "synced (re_hash e) x (Suc k) ht (stored e now x k d)"
    unfolding stored_def by (rule store_synced [OF d1 k x])
  have "\<not> rs_outbound d" using d by (simp add: synced_def rx_ok_def tables_ok_def)
  moreover have "rns_map_hash e (xf_parts x ! k) (rs_random_hash ?d) = mh (re_hash e) x k"
    using d by (simp add: synced_def rns_map_hash_def mh_def)
  ultimately show "receive_part e now (xf_parts x ! k) d =
      (and_then (pull_more e now (stored e now x k d)) (conclude e), True)"
    using slot_synced [OF d1 k x] by (simp add: receive_part_def Let_def stored_def)
qed

definition to_receiver :: "renv \<Rightarrow> secs \<Rightarrow> packet_type \<times> u8 \<times> bytes \<Rightarrow> resource \<Rightarrow> resource" where
  "to_receiver e now p d = (case p of (pt, ctx, b) \<Rightarrow>
     if pt = DATA \<and> ctx = RESOURCE then fst (fst (receive_part e now b d))
     else if pt = DATA \<and> ctx = RESOURCE_HMU then fst (hashmap_update_packet e now b d)
     else d)"

text \<open>A part inside the window, the last part of a window, and the last part of all.\<close>

lemma part_inside:
  assumes a: "asked (re_hash e) x k ht m ex d" and k: "Suc k < m \<or> k < m \<and> ex" and x: "xfer_ok (re_hash e) x"
  shows "to_receiver e now (DATA, RESOURCE, xf_parts x ! k) d = stored e now x k d \<and>
    asked (re_hash e) x (Suc k) ht m ex (stored e now x k d)"
proof -
  have d: "synced (re_hash e) x k ht d" and kht: "k < ht" and n: "ht \<le> length (xf_parts x)"
    using a k by (auto simp: asked_def synced_def)
  note s = receive_synced [OF d kht x, where now = now]
  have rec: "rs_received (stored e now x k d) = Suc k" "rs_total_parts (stored e now x k d) = length (xf_parts x)"
    using s(1) by (simp_all add: synced_def)
  have "Suc k < length (xf_parts x)" using a k n by (auto simp: asked_def)
  moreover have "rs_waiting_hmu d \<or> rs_outstanding_parts d - 1 \<noteq> 0" using a k by (auto simp: asked_def)
  ultimately have "and_then (pull_more e now (stored e now x k d)) (conclude e) = (stored e now x k d, None)"
    using rec by (auto simp: pull_more_def conclude_def)
  then show ?thesis using a k s by (auto simp: to_receiver_def asked_def)
qed

lemma part_pulls:
  assumes a: "asked (re_hash e) x k ht (Suc k) False d" and k: "Suc k < length (xf_parts x)"
    and x: "xfer_ok (re_hash e) x" and e: "open_link e"
  shows "\<exists>m ex. asked (re_hash e) x (Suc k) ht m ex (to_receiver e now (DATA, RESOURCE, xf_parts x ! k) d) \<and>
    rs_out (to_receiver e now (DATA, RESOURCE, xf_parts x ! k) d) =
      rs_out d @ [(DATA, RESOURCE_REQ, req_bytes (re_hash e) x ht (Suc k) m ex)]"
proof -
  have d: "synced (re_hash e) x k ht d" and kht: "k < ht" and n: "ht \<le> length (xf_parts x)"
    and w: "\<not> rs_waiting_hmu d" "rs_outstanding_parts d = 1"
    using a k by (auto simp: asked_def synced_def)
  note s = receive_synced [OF d kht x, where now = now]
  let ?s = "stored e now x k d"
  have rec: "rs_received ?s = Suc k" "rs_total_parts ?s = length (xf_parts x)"
    using s(1) by (simp_all add: synced_def)
  have pull: "pull_more e now ?s = request_window e now (adapt_window e now ?s)"
    using rec k w by (simp add: pull_more_def)
  obtain m ex d' where r: "request_window e now (adapt_window e now ?s) = (d', None)"
    "asked (re_hash e) x (Suc k) ht m ex d'"
    "rs_out d' = rs_out d @ [(DATA, RESOURCE_REQ, req_bytes (re_hash e) x ht (Suc k) m ex)]"
    using request_window_synced [OF synced_bookkeeping(2) [OF s(1)] k _ e x, of e now now] w by auto
  have "rs_received d' < rs_total_parts d'" using r(2) k by (simp add: asked_def synced_def)
  then have "to_receiver e now (DATA, RESOURCE, xf_parts x ! k) d = d'"
    using s(2) pull r(1) by (simp add: to_receiver_def conclude_def)
  then show ?thesis using r by blast
qed

lemma part_last:
  assumes a: "asked (re_hash e) x k ht m False d" and k: "Suc k = length (xf_parts x)" and x: "xfer_ok (re_hash e) x"
  shows "to_receiver e now (DATA, RESOURCE, xf_parts x ! k) d = fst (conclude e (stored e now x k d)) \<and>
    synced (re_hash e) x (length (xf_parts x)) ht (stored e now x k d)"
proof -
  have d: "synced (re_hash e) x k ht d" and kht: "k < ht" using a by (auto simp: asked_def)
  note s = receive_synced [OF d kht x, where now = now]
  have "pull_more e now (stored e now x k d) = (stored e now x k d, None)"
    using s(1) k by (simp add: pull_more_def synced_def)
  then show ?thesis using s k by (simp add: to_receiver_def)
qed

text \<open>All parts of one request, in order: the receiver waits for the map, asks again, or is done.\<close>

lemma receive_window:
  assumes "asked (re_hash e) x k ht m ex d" and "xfer_ok (re_hash e) x" and "open_link e" and "rs_out d = []"
    and "d' = fold (to_receiver e now) (map (\<lambda>j. (DATA, RESOURCE, xf_parts x ! j)) [k..<m]) d"
  shows "if ex then asked (re_hash e) x m ht m True d' \<and> rs_out d' = []
    else if m < length (xf_parts x) then
      \<exists>m' ex'. asked (re_hash e) x m ht m' ex' d' \<and>
        rs_out d' = [(DATA, RESOURCE_REQ, req_bytes (re_hash e) x ht m m' ex')]
    else \<exists>s. d' = fst (conclude e s) \<and> synced (re_hash e) x m ht s \<and> rs_out s = []"
  using assms
proof (induction "m - k" arbitrary: k d)
  case 0
  then have "k = m" "ex" by (auto simp: asked_def)
  then show ?case using 0 by simp
next
  case (Suc j)
  then have k: "k < m" by simp
  have upt: "[k..<m] = k # [Suc k..<m]" using k by (rule upt_conv_Cons)
  let ?d = "to_receiver e now (DATA, RESOURCE, xf_parts x ! k) d"
  have d': "d' = fold (to_receiver e now) (map (\<lambda>j. (DATA, RESOURCE, xf_parts x ! j)) [Suc k..<m]) ?d"
    using Suc.prems(5) unfolding upt by simp
  show ?case
  proof (cases "Suc k < m \<or> ex")
    case True
    then have "Suc k < m \<or> k < m \<and> ex" using k by auto
    from part_inside [OF Suc.prems(1) this Suc.prems(2), where now = now]
    have "asked (re_hash e) x (Suc k) ht m ex ?d" "rs_out ?d = []" using Suc.prems(4) by simp_all
    moreover have "j = m - Suc k" using Suc.hyps(2) by simp
    ultimately show ?thesis using Suc.hyps(1) [of "Suc k" ?d] Suc.prems(2,3) d' by blast
  next
    case False
    then have m: "m = Suc k" and ex: "\<not> ex" using k by auto
    have a: "asked (re_hash e) x k ht (Suc k) False d" using Suc.prems(1) m ex by simp
    have end_: "d' = ?d" using d' m by simp
    show ?thesis
    proof (cases "m < length (xf_parts x)")
      case True
      then show ?thesis
        using part_pulls [OF a _ Suc.prems(2,3), where now = now] Suc.prems(4) m ex end_ by auto
    next
      case full: False
      have n: "Suc k = length (xf_parts x)" using Suc.prems(1) m full by (auto simp: asked_def synced_def)
      from part_last [OF a n Suc.prems(2), where now = now] Suc.prems(4) full n m ex end_
      show ?thesis by (intro iffD2 [OF if_not_P]) auto
    qed
  qed
qed

section \<open>The receiver extends its map\<close>

definition map_upto :: "(bytes \<Rightarrow> bytes) \<Rightarrow> xfer \<Rightarrow> nat \<Rightarrow> bytes list \<Rightarrow> bool list \<Rightarrow> bool" where
  "map_upto h x ht ms ks \<longleftrightarrow> length ms = length (xf_parts x) \<and> length ks = length (xf_parts x) \<and>
     (\<forall>i < length (xf_parts x). ks ! i = (i < ht)) \<and> (\<forall>i < ht. ms ! i = mh h x i)"

lemma segment_index:
  assumes "i + q * 74 < 2 ^ 31"
  shows "unat (of_nat i + ucast (of_nat q :: u64) * of_nat 74 :: usize) = i + q * 74"
proof -
  have "(ucast (of_nat q :: u64) :: usize) = of_nat q"
    using assms by (simp add: unsigned_of_nat take_bit_nat_eq_self)
  then have "of_nat i + ucast (of_nat q :: u64) * of_nat 74 = (of_nat (i + q * 74) :: usize)" by simp
  then show ?thesis using assms by (simp only:) (intro of_nat_unat_less, simp)
qed

lemma hm_fill_segment:
  assumes "length hm = l * MAPHASH_LEN" and "i + c = l" and "ht = q * HASHMAP_MAX_LEN" and "ht + l \<le> length (xf_parts x)"
    and "\<forall>j < l. take MAPHASH_LEN (drop (j * MAPHASH_LEN) hm) = mh h x (ht + j)"
    and "length (xf_parts x) < 2 ^ 31" and "rs_total_parts d = length (xf_parts x)"
    and "map_upto h x (ht + i) (rs_map_hashes d) (rs_hash_known d)" and "rs_hashmap_height d = ht + i"
  shows "\<exists>ms ks. hm_fill hm (of_nat q) i c d =
      d\<lparr>rs_map_hashes := ms, rs_hash_known := ks, rs_hashmap_height := ht + l\<rparr> \<and> map_upto h x (ht + l) ms ks"
  using assms
proof (induction c arbitrary: i d)
  case 0
  then show ?case
    by (intro exI [of _ "rs_map_hashes d"] exI [of _ "rs_hash_known d"]) simp
next
  case (Suc c)
  let ?n = "length (xf_parts x)"
  have idx: "unat (of_nat i + ucast (of_nat q :: u64) * of_nat HASHMAP_MAX_LEN :: usize) = ht + i"
    using segment_index [of i q] Suc.prems by (simp add: res_const_values)
  have lt: "ht + i < ?n" using Suc.prems by simp
  then have unknown: "\<not> rs_hash_known d ! (ht + i)" using Suc.prems(8) by (simp add: map_upto_def)
  let ?d = "d\<lparr>rs_map_hashes := (rs_map_hashes d)[ht + i := mh h x (ht + i)],
    rs_hash_known := (rs_hash_known d)[ht + i := True], rs_hashmap_height := ht + Suc i\<rparr>"
  have step: "hm_fill hm (of_nat q) i (Suc c) d = hm_fill hm (of_nat q) (Suc i) c ?d"
    unfolding hm_fill.simps idx using lt unknown Suc.prems by (simp add: Let_def)
  have "map_upto h x (ht + Suc i) (rs_map_hashes ?d) (rs_hash_known ?d)"
    using Suc.prems(8) lt by (auto simp: map_upto_def nth_list_update less_Suc_eq)
  from Suc.IH [of "Suc i" ?d, OF Suc.prems(1) _ Suc.prems(3-6) _ this] Suc.prems(2,7)
  obtain ms ks where "hm_fill hm (of_nat q) (Suc i) c ?d =
      ?d\<lparr>rs_map_hashes := ms, rs_hash_known := ks, rs_hashmap_height := ht + l\<rparr>" "map_upto h x (ht + l) ms ks"
    by auto
  then show ?case unfolding step by (intro exI [of _ ms] exI [of _ ks]) simp
qed

lemma update_pulls:
  assumes d: "synced (re_hash e) x ht ht d" and less: "ht < length (xf_parts x)"
    and x: "xfer_ok (re_hash e) x" and e: "open_link e" and out: "rs_out d = []"
  shows "\<exists>m ex. let d' = to_receiver e now (DATA, RESOURCE_HMU, hmu_bytes (re_hash e) x ht) d;
      ht' = min (ht + HASHMAP_MAX_LEN) (length (xf_parts x)) in
    asked (re_hash e) x ht ht' m ex d' \<and>
    rs_out d' = [(DATA, RESOURCE_REQ, req_bytes (re_hash e) x ht' ht m ex)]"
proof -
  let ?h = "re_hash e" let ?n = "length (xf_parts x)"
  let ?ht = "min (ht + HASHMAP_MAX_LEN) ?n"
  let ?hm = "concat (map (mh ?h x) [ht..<?ht])"
  let ?q = "ht div HASHMAP_MAX_LEN"
  let ?seg = "pack_uint (of_nat ?q)"
  have n: "?n < 2 ^ 31" and 32: "length (xf_hash x) = 32" using x by (simp_all add: xfer_ok_def)
  have q: "ht = ?q * HASHMAP_MAX_LEN"
    using d less by (simp add: synced_def) (metis add_0_right div_mult_mod_eq)
  have blocks: "\<forall>b \<in> set (map (mh ?h x) [ht..<?ht]). length b = MAPHASH_LEN" using length_mh [OF x] by auto
  have hm: "length ?hm = (?ht - ht) * MAPHASH_LEN" using length_blocks [OF blocks] by simp
  have small: "length ?hm \<le> 296" using hm by (auto simp: res_const_values min_def)
  let ?p = "pack_array_header 2 @ ?seg @ pack_bin ?hm"
  have seglen: "length ?seg \<le> 9" by (simp add: pack_uint_def)
  have binlen: "length (pack_bin ?hm) \<le> 5 + 296" using small by (simp add: length_pack_bin)
  have p: "length ?p < 2 ^ 31" using seglen binlen by (simp add: pack_array_header_def)
  have b: "drop 32 (hmu_bytes ?h x ht) = ?p" "length (hmu_bytes ?h x ht) - 32 = length ?p"
    "\<not> length (hmu_bytes ?h x ht) \<le> 32"
    using 32 by (simp_all add: hmu_bytes_def pack_array_header_def)
  have hdr: "unpack_array_header ?p (of_nat (length ?p)) = Inr (2, of_nat (length (pack_array_header 2)))"
    using array_codec.dec_at [OF TrueI, of ?p "[]" 2 "?seg @ pack_bin ?hm"] p by simp
  have seg: "read_uint_into ?p (of_nat (length ?p)) (of_nat (length (pack_array_header 2))) =
      Inr (of_nat ?q, of_nat (length (pack_array_header 2 @ ?seg)))"
    using read_uint_at [of ?p "pack_array_header 2" "of_nat ?q" "pack_bin ?hm"] p by simp
  have bin: "read_bin_into ?p (of_nat (length ?p)) (of_nat (length (pack_array_header 2 @ ?seg))) =
      Inr (?hm, of_nat (length ((pack_array_header 2 @ ?seg) @ pack_bin ?hm)))"
    using read_bin_at [of ?p "pack_array_header 2 @ ?seg" ?hm "[]"] p by simp
  let ?d = "d\<lparr>rs_last_activity := now\<rparr>"
  have fields: "rs_total_parts d = ?n" "rs_hashmap_height d = ht" "rs_status d = RS_TRANSFERRING" "rx_ok ?h d"
    using d by (simp_all add: synced_def)
  have "map_upto ?h x ht (rs_map_hashes ?d) (rs_hash_known ?d)"
    using d by (simp add: map_upto_def synced_def rx_ok_def tables_ok_def)
  moreover have "take MAPHASH_LEN (drop (j * MAPHASH_LEN) ?hm) = mh ?h x (ht + j)" if j: "j < ?ht - ht" for j
  proof -
    have "ht + j < ?ht" using j by linarith
    then have "[ht..<?ht] ! j = ht + j" by (rule nth_upt)
    then show ?thesis using block_at [OF blocks, of j] j by simp
  qed
  ultimately obtain ms ks where fill: "hm_fill ?hm (of_nat ?q) 0 (?ht - ht) ?d =
      ?d\<lparr>rs_map_hashes := ms, rs_hash_known := ks, rs_hashmap_height := ?ht\<rparr>" and ms: "map_upto ?h x ?ht ms ks"
    using hm_fill_segment [OF hm _ q, of 0 "?ht - ht" x ?h ?d] fields n less by auto
  let ?f = "hm_fill ?hm (of_nat ?q) 0 (?ht - ht) ?d"
  have "rx_ok ?h ?f" using fields(4) hm by (intro hm_fill_ok) (simp_all add: MAPHASH_LEN_def)
  moreover have "ht \<le> ?ht" "0 < ?ht" "?ht = ?n \<or> ?ht mod HASHMAP_MAX_LEN = 0"
    using less d by (auto simp: synced_def min_def)
  ultimately have f: "synced ?h x ht ?ht (?f\<lparr>rs_waiting_hmu := False\<rparr>)"
    using d ms by (simp add: fill synced_def map_upto_def)
  have "length ?hm div MAPHASH_LEN = ?ht - ht" using hm by (simp add: MAPHASH_LEN_def)
  then have "to_receiver e now (DATA, RESOURCE_HMU, hmu_bytes ?h x ht) d =
      fst (request_window e now (?f\<lparr>rs_waiting_hmu := False\<rparr>))"
    using fields(3) hdr seg bin b
    by (simp add: to_receiver_def hashmap_update_packet_def Let_def)
  moreover have "rs_out (?f\<lparr>rs_waiting_hmu := False\<rparr>) = []" using out by (simp add: fill)
  moreover obtain m ex d' where "request_window e now (?f\<lparr>rs_waiting_hmu := False\<rparr>) = (d', None)"
    "asked ?h x ht ?ht m ex d'"
    "rs_out d' = rs_out (?f\<lparr>rs_waiting_hmu := False\<rparr>) @ [(DATA, RESOURCE_REQ, req_bytes ?h x ?ht ht m ex)]"
    using request_window_synced [OF f less _ e x, of now] by auto
  ultimately show ?thesis by (intro exI [of _ m] exI [of _ ex]) (simp add: Let_def)
qed

section \<open>The receiver concludes\<close>

definition payload :: "renv \<Rightarrow> xfer \<Rightarrow> bytes option" where
  "payload e x = payload_of e (resource_object\<lparr>rs_flags := xf_flags x, rs_total_size := xf_size x\<rparr>)
     (concat (xf_parts x))"

definition finished :: "(bytes \<Rightarrow> bytes) \<Rightarrow> xfer \<Rightarrow> bytes \<Rightarrow> resource \<Rightarrow> bool" where
  "finished h x b d \<longleftrightarrow> rs_status d = RS_COMPLETE \<and> rs_data d = b \<and>
     rs_out d = [(PROOF, RESOURCE_PRF, xf_hash x @ h (b @ xf_hash x))] \<and>
     rs_concluded d = (if xf_cb x then [RS_COMPLETE] else [])"

lemma payload_of_cong:
  "rs_flags d = rs_flags d' \<Longrightarrow> rs_total_size d = rs_total_size d' \<Longrightarrow> payload_of e d b = payload_of e d' b"
  by (simp add: payload_of_def Let_def)

lemma conclude_synced:
  assumes d: "synced (re_hash e) x (length (xf_parts x)) ht d" and x: "xfer_ok (re_hash e) x" and e: "open_link e"
    and out: "rs_out d = []" and b: "payload e x = Some b"
    and hash: "take 32 (re_hash e (b @ xf_random x)) = xf_hash x"
  shows "finished (re_hash e) x b (fst (conclude e d))"
proof -
  have parts: "rs_parts d = xf_parts x" and n: "rs_total_parts d = length (xf_parts x)" "rs_received d = length (xf_parts x)"
    using d by (simp_all add: synced_def)
  have pos: "0 < length (xf_parts x)" and none: "[] \<notin> set (xf_parts x)" and 32: "length (re_hash e c) = 32" for c
    using x by (simp_all add: xfer_ok_def)
  have "payload_of e d (concat (rs_parts d)) = Some b"
  proof -
    have "payload_of e d c = payload_of e (resource_object\<lparr>rs_flags := xf_flags x, rs_total_size := xf_size x\<rparr>) c" for c
      using d by (intro payload_of_cong) (simp_all add: synced_def)
    then show ?thesis using b parts by (simp add: payload_def)
  qed
  then have "assemble e d = emit e PROOF RESOURCE_PRF (xf_hash x @ re_hash e (b @ xf_hash x))
      (d\<lparr>rs_data := b, rs_status := RS_COMPLETE\<rparr>)"
    using d parts none hash 32 x
    by (simp add: assemble_def Let_def rns_full_hash2_def generate_proof_def synced_def xfer_ok_def)
  then show ?thesis
    using d out pos n by (simp add: conclude_def emit_open [OF e] finished_def call_concluded_def synced_def)
qed

section \<open>The exchange\<close>

definition to_sender :: "renv \<Rightarrow> secs \<Rightarrow> packet_type \<times> u8 \<times> bytes \<Rightarrow> resource \<Rightarrow> resource" where
  "to_sender e now p s = (case p of (pt, ctx, b) \<Rightarrow>
     if pt = DATA \<and> ctx = RESOURCE_REQ then fst (request e now b s)
     else if pt = PROOF \<and> ctx = RESOURCE_PRF then validate_resource_proof b s
     else s)"

text \<open>A round at time \<open>t\<close>: what the receiver has sent reaches the sender, and its answers the receiver.\<close>

fun exchange :: "renv \<Rightarrow> renv \<Rightarrow> secs list \<Rightarrow> resource \<times> resource \<Rightarrow> resource \<times> resource" where
  "exchange es er [] (s, r) = (s, r)"
| "exchange es er (t # ts) (s, r) =
    (let s = fold (to_sender es t) (rs_out r) (s\<lparr>rs_out := []\<rparr>);
         r = fold (to_receiver er t) (rs_out s) (r\<lparr>rs_out := []\<rparr>)
     in exchange es er ts (s, r))"

definition pulling :: "(bytes \<Rightarrow> bytes) \<Rightarrow> xfer \<Rightarrow> nat \<Rightarrow> resource \<Rightarrow> bool" where
  "pulling h x z r \<longleftrightarrow> (\<exists>k ht m ex. asked h x k ht m ex r \<and> rs_out r = [(DATA, RESOURCE_REQ, req_bytes h x ht k m ex)] \<and>
     (length (xf_parts x) - k) + (length (xf_parts x) - ht) \<le> z)"

lemma rx_ok_cleared: "rx_ok h d \<Longrightarrow> rx_ok h (d\<lparr>rs_out := []\<rparr>)"
  by (simp add: rx_ok_def tables_ok_def consec_ok_def counts_ok_def windows_ok_def packets_ok_def complete_ok_def)

lemma asked_cleared [simp]: "asked h x k ht m ex d \<Longrightarrow> asked h x k ht m ex (d\<lparr>rs_out := []\<rparr>)"
  using rx_ok_cleared [of h d] by (simp add: asked_def synced_def)

lemma cleared_id: "rs_out d = [] \<Longrightarrow> d\<lparr>rs_out := []\<rparr> = d" for d :: resource
  by (rule resource.equality) simp_all

lemma round_pulls:
  assumes r: "pulling (re_hash er) x z r" and s: "sender_of (re_hash er) x pf s"
    and x: "xfer_ok (re_hash er) x" and es: "open_link es" "re_hash es = re_hash er" and er: "open_link er"
    and b: "payload er x = Some b" "take 32 (re_hash er (b @ xf_random x)) = xf_hash x"
  shows "\<exists>s' r'. exchange es er (t # ts) (s, r) = exchange es er ts (s', r') \<and> sender_of (re_hash er) x pf s' \<and>
    (0 < z \<and> pulling (re_hash er) x (z - 1) r' \<or> finished (re_hash er) x b r')"
proof -
  let ?h = "re_hash er" let ?n = "length (xf_parts x)"
  obtain k ht m ex where a: "asked ?h x k ht m ex r"
    and req: "rs_out r = [(DATA, RESOURCE_REQ, req_bytes ?h x ht k m ex)]" and z: "(?n - k) + (?n - ht) \<le> z"
    using r by (auto simp: pulling_def)
  have km: "k \<le> m" "m \<le> ht" "ht \<le> ?n" "0 < ht" and ex: "ex \<Longrightarrow> ht < ?n \<and> m = ht" "\<not> ex \<Longrightarrow> k < m"
    and seg: "ht = ?n \<or> ht mod HASHMAP_MAX_LEN = 0"
    using a by (auto simp: asked_def synced_def)
  let ?s0 = "s\<lparr>rs_out := []\<rparr>"
  let ?parts = "map (\<lambda>j. (DATA, RESOURCE, xf_parts x ! j)) [k..<m]"
  obtain s' where s': "request es t (req_bytes ?h x ht k m ex) ?s0 = (s', None)" "sender_of ?h x pf s'"
    "rs_out s' = ?parts @ (if ex then [(DATA, RESOURCE_HMU, hmu_bytes ?h x ht)] else [])"
    using request_answers [of es x pf ?s0 k m ex ht t, unfolded es(2)] s x es(1) km ex seg by auto
  let ?r0 = "r\<lparr>rs_out := []\<rparr>"
  define r1 where "r1 = fold (to_receiver er t) ?parts ?r0"
  have a0: "asked ?h x k ht m ex ?r0" using a by simp
  have win: "if ex then asked ?h x m ht m True r1 \<and> rs_out r1 = []
    else if m < ?n then \<exists>m' ex'. asked ?h x m ht m' ex' r1 \<and>
        rs_out r1 = [(DATA, RESOURCE_REQ, req_bytes ?h x ht m m' ex')]
    else \<exists>d. r1 = fst (conclude er d) \<and> synced ?h x m ht d \<and> rs_out d = []"
    by (rule receive_window [OF a0 x er _ r1_def]) simp
  define r' where "r' = fold (to_receiver er t) (rs_out s') ?r0"
  have "exchange es er (t # ts) (s, r) = exchange es er ts (s', r')"
    using req s'(1) by (simp add: Let_def to_sender_def r'_def)
  moreover have "0 < z \<and> pulling ?h x (z - 1) r' \<or> finished ?h x b r'"
  proof (cases ex)
    case True
    let ?ht = "min (ht + HASHMAP_MAX_LEN) ?n"
    have r1: "asked ?h x ht ht ht True r1" "rs_out r1 = []" and lt: "ht < ?n" using win True ex by auto
    have r': "r' = to_receiver er t (DATA, RESOURCE_HMU, hmu_bytes ?h x ht) r1"
      using s'(3) True by (simp add: r'_def r1_def)
    have "synced ?h x ht ht r1" using r1(1) by (simp add: asked_def)
    from update_pulls [OF this lt x er r1(2), of t]
    obtain m' ex' where "asked ?h x ht ?ht m' ex' r'" "rs_out r' = [(DATA, RESOURCE_REQ, req_bytes ?h x ?ht ht m' ex')]"
      by (auto simp: Let_def r')
    moreover have "(?n - ht) + (?n - ?ht) \<le> z - 1" "0 < z" using z lt km by (auto simp: res_const_values min_def)
    ultimately show ?thesis unfolding pulling_def by blast
  next
    case False
    have r': "r' = r1" using s'(3) False by (simp add: r'_def r1_def)
    show ?thesis
    proof (cases "m < ?n")
      case True
      then obtain m' ex' where "asked ?h x m ht m' ex' r1" "rs_out r1 = [(DATA, RESOURCE_REQ, req_bytes ?h x ht m m' ex')]"
        using win False by auto
      moreover have "(?n - m) + (?n - ht) \<le> z - 1" "0 < z" using z ex(2) [OF False] True by auto
      ultimately show ?thesis unfolding r' pulling_def by blast
    next
      case full: False
      then have "m = ?n" using km by simp
      with full obtain d where "r1 = fst (conclude er d)" "synced ?h x ?n ht d" "rs_out d = []"
        using win False km by auto
      then show ?thesis using conclude_synced [OF _ x er _ b] r' by blast
    qed
  qed
  ultimately show ?thesis using s'(2) by blast
qed

definition done_sending :: "xfer \<Rightarrow> resource \<Rightarrow> bool" where
  "done_sending x s \<longleftrightarrow> rs_status s = RS_COMPLETE \<and> rs_out s = [] \<and>
     rs_concluded s = (if xf_scb x then [RS_COMPLETE] else [])"

definition done_receiving :: "xfer \<Rightarrow> bytes \<Rightarrow> resource \<Rightarrow> bool" where
  "done_receiving x b r \<longleftrightarrow> rs_status r = RS_COMPLETE \<and> rs_data r = b \<and> rs_out r = [] \<and>
     rs_concluded r = (if xf_cb x then [RS_COMPLETE] else [])"

lemma exchange_done:
  "done_sending x s \<Longrightarrow> done_receiving x b r \<Longrightarrow>
    \<exists>s' r'. exchange es er ts (s, r) = (s', r') \<and> done_sending x s' \<and> done_receiving x b r'"
proof (induction ts)
  case (Cons t ts)
  have "rs_out s = []" "rs_out r = []"
    using Cons.prems by (simp_all add: done_sending_def done_receiving_def)
  then have "exchange es er (t # ts) (s, r) = exchange es er ts (s, r)"
    by (simp add: Let_def cleared_id)
  then show ?case using Cons by simp
qed simp

lemma validate_proof_done:
  assumes "sender_of h x pf s" and "pf = h (b @ xf_hash x)" and "xfer_ok h x"
  shows "done_sending x (validate_resource_proof (xf_hash x @ h (b @ xf_hash x)) (s\<lparr>rs_out := []\<rparr>))"
  using assms by (simp add: validate_resource_proof_def sender_of_def xfer_ok_def done_sending_def call_concluded_def)

lemma exchange_completes:
  assumes "pulling (re_hash er) x z r \<and> z + 2 \<le> length ts \<or> finished (re_hash er) x b r \<and> 1 \<le> length ts"
    and "sender_of (re_hash er) x pf s"
    and "xfer_ok (re_hash er) x" and "open_link es" "re_hash es = re_hash er" and "open_link er"
    and "payload er x = Some b" "take 32 (re_hash er (b @ xf_random x)) = xf_hash x"
    and "pf = re_hash er (b @ xf_hash x)"
  shows "\<exists>s' r'. exchange es er ts (s, r) = (s', r') \<and> done_sending x s' \<and> done_receiving x b r'"
  using assms
proof (induction ts arbitrary: z s r)
  case Nil
  then show ?case by simp
next
  case (Cons t ts)
  show ?case
  proof (cases "finished (re_hash er) x b r")
    case True
    let ?s = "validate_resource_proof (xf_hash x @ re_hash er (b @ xf_hash x)) (s\<lparr>rs_out := []\<rparr>)"
    have s: "done_sending x ?s" using Cons.prems by (intro validate_proof_done)
    then have "exchange es er (t # ts) (s, r) = exchange es er ts (?s, r\<lparr>rs_out := []\<rparr>)"
      using True by (simp add: finished_def Let_def to_sender_def done_sending_def)
    moreover have "done_receiving x b (r\<lparr>rs_out := []\<rparr>)"
      using True by (simp add: finished_def done_receiving_def)
    ultimately show ?thesis using exchange_done [OF s, of b "r\<lparr>rs_out := []\<rparr>" es er ts] by auto
  next
    case False
    then have "pulling (re_hash er) x z r" and z: "z + 1 \<le> length ts" using Cons.prems(1) by simp_all
    from round_pulls [OF \<open>pulling (re_hash er) x z r\<close> Cons.prems(2-8), of t ts]
    obtain s' r' where step: "exchange es er (t # ts) (s, r) = exchange es er ts (s', r')"
      and s': "sender_of (re_hash er) x pf s'"
      and r': "0 < z \<and> pulling (re_hash er) x (z - 1) r' \<or> finished (re_hash er) x b r'" by auto
    then have "pulling (re_hash er) x (z - 1) r' \<and> (z - 1) + 2 \<le> length ts \<or>
        finished (re_hash er) x b r' \<and> 1 \<le> length ts"
      using z by auto
    from Cons.IH [OF this s' Cons.prems(3-9)] show ?thesis unfolding step .
  qed
qed

section \<open>From a payload to the exchange\<close>

lemma concat_part_chunks: "concat (part_chunks b) = b"
proof -
  let ?k = "(length b + RES_SDU - 1) div RES_SDU"
  have "concat (map (\<lambda>i. take RES_SDU (drop (i * RES_SDU) b)) [0..<k]) = take (k * RES_SDU) b" for k
  proof (induction k)
    case (Suc k)
    have "take (k * RES_SDU) b @ take RES_SDU (drop (k * RES_SDU) b) = take (k * RES_SDU + RES_SDU) b"
      by (rule take_add [symmetric])
    then show ?case using Suc by (simp add: add.commute)
  qed simp
  moreover have "length b \<le> ?k * RES_SDU"
    using div_mult_mod_eq [of "length b + RES_SDU - 1" RES_SDU]
      mod_less_divisor [of RES_SDU "length b + RES_SDU - 1"] by (simp add: res_const_values)
  ultimately show ?thesis by (simp add: part_chunks_def)
qed

lemma length_chunks: "length (part_chunks b) = (length b + RES_SDU - 1) div RES_SDU"
  by (simp add: part_chunks_def)

lemma chunks_nonempty: "[] \<notin> set (part_chunks b)"
proof
  assume "[] \<in> set (part_chunks b)"
  then obtain i where i: "i < (length b + RES_SDU - 1) div RES_SDU" "length b \<le> i * RES_SDU"
    by (auto simp: part_chunks_def res_const_values)
  then have "Suc i * RES_SDU \<le> length b + RES_SDU - 1"
    by (metis Suc_leI less_eq_div_iff_mult_less_eq mult.commute res_const_values(2) zero_less_numeral)
  then show False using i(2) by (simp add: res_const_values)
qed

lemma chunks_bound: "length (part_chunks b) \<le> length b"
proof -
  have "length b + RES_SDU - 1 < Suc (length b) * RES_SDU" by (simp add: res_const_values)
  then show ?thesis by (simp add: length_chunks res_const_values div_less_iff_less_mult less_Suc_eq_le [symmetric])
qed

definition on_wire :: "renv \<Rightarrow> bool \<Rightarrow> bytes \<Rightarrow> bytes" where
  "on_wire e auto_compress b =
    (case (if auto_compress \<and> length b \<le> AUTO_COMPRESS_MAX_SIZE then bz2_compress e b else None) of
       Some c \<Rightarrow> c | None \<Rightarrow> b)"

definition packs :: "renv \<Rightarrow> bool \<Rightarrow> bytes \<Rightarrow> bool" where
  "packs e auto_compress b \<longleftrightarrow>
     (if auto_compress \<and> length b \<le> AUTO_COMPRESS_MAX_SIZE then bz2_compress e b else None) \<noteq> None"

definition xfer_of :: "renv \<Rightarrow> bytes \<Rightarrow> bytes \<Rightarrow> bytes \<Rightarrow> rflags \<Rightarrow> bool \<Rightarrow> bool \<Rightarrow> xfer" where
  "xfer_of e rh b c fl cb scb =
     \<lparr>xf_parts = part_chunks c, xf_random = take RANDOM_HASH_SIZE rh,
      xf_hash = take 32 (re_hash e (b @ take RANDOM_HASH_SIZE rh)), xf_flags = fl, xf_size = length b,
      xf_cb = cb, xf_scb = scb\<rparr>"

definition sent_flags :: "renv \<Rightarrow> bool \<Rightarrow> bytes \<Rightarrow> bool \<Rightarrow> bool \<Rightarrow> rflags" where
  "sent_flags e auto_compress b is_request is_response =
     flags_default\<lparr>fl_is_request := is_request, fl_is_response := is_response,
       fl_compressed := packs e auto_compress b\<rparr>"

text \<open>The advertisement of a transfer: sizes, hashes, flags and the first segment of the map.\<close>

definition adv_for :: "(bytes \<Rightarrow> bytes) \<Rightarrow> xfer \<Rightarrow> nat \<Rightarrow> bytes \<Rightarrow> adv \<Rightarrow> bool" where
  "adv_for h x len rid a \<longleftrightarrow> ad_t a = of_nat len \<and> ad_d a = of_nat (xf_size x) \<and>
     ad_n a = of_nat (length (xf_parts x)) \<and> ad_h a = xf_hash x \<and> ad_r a = xf_random x \<and> ad_o a = xf_hash x \<and>
     ad_q a = rid \<and> ad_f a = to_byte (xf_flags x) \<and>
     ad_m a = concat (map (mh h x) [0..<min (length (xf_parts x)) HASHMAP_MAX_LEN])"

lemma map_hashes_chunks:
  "map (\<lambda>p. rns_map_hash e p (xf_random x)) (xf_parts x) = map (mh (re_hash e) x) [0..<length (xf_parts x)]"
  by (intro nth_equalityI) (simp_all add: mh_def rns_map_hash_def)

lemma new_sender:
  assumes e: "open_link e" and c: "re_encrypt e (take RANDOM_HASH_SIZE srh @ on_wire e ac b) = Inr c" "c \<noteq> []"
    and x: "x = xfer_of e rh b c (sent_flags e ac b (rid \<noteq> [] \<and> \<not> is_response) is_response) cb scb"
    and ok: "xfer_ok (re_hash e) x"
  shows "\<exists>s a. resource_new e now srh rh b True ac scb spcb tmo rid is_response = (s, None) \<and>
    sender_of (re_hash e) x (re_hash e (b @ xf_hash x)) s \<and> rs_out s = [(DATA, RESOURCE_ADV, projr (adv_pack a))] \<and>
    adv_for (re_hash e) x (length c) rid a"
proof -
  let ?n = "length (xf_parts x)"
  define z where "z = (if ac \<and> length b \<le> AUTO_COMPRESS_MAX_SIZE then bz2_compress e b else None)"
  define d where "d = resource_object\<lparr>rs_timeout := tmo, rs_concluded_cb := scb, rs_progress_cb := spcb,
    rs_outbound := True, rs_request_id := rid, rs_data_size := length b, rs_total_size := length b,
    rs_flags := xf_flags x, rs_transfer_size := length c, rs_size := length c,
    rs_random_hash := xf_random x, rs_resource_hash := xf_hash x, rs_original_hash := xf_hash x,
    rs_hash := xf_hash x, rs_expected_proof := re_hash e (b @ xf_hash x), rs_parts := xf_parts x,
    rs_hashmap := concat (map (mh (re_hash e) x) [0..<?n]), rs_total_parts := ?n,
    rs_part_sent := replicate ?n False, rs_sent_parts := 0, rs_status := RS_ADVERTISED,
    rs_timeout_factor := ln_ttf (re_link e)\<rparr>"
  define d' where "d' = (if rs_timeout d \<le> 0
    then d\<lparr>rs_timeout := ln_rtt (re_link e) * of_nat (unat (rs_timeout_factor d))\<rparr> else d)
    \<lparr>rs_retries_left := MAX_ADV_RETRIES, rs_registered := True\<rparr>"
  let ?a = "advertisement d'"
  have wire: "on_wire e ac b = (case z of Some c \<Rightarrow> c | None \<Rightarrow> b)" and flag: "packs e ac b = (z \<noteq> None)"
    by (simp_all only: on_wire_def packs_def z_def)
  have maps: "map (\<lambda>p. rns_map_hash e p (take RANDOM_HASH_SIZE rh)) (part_chunks c) = map (mh (re_hash e) x) [0..<?n]"
    using map_hashes_chunks [of e x] by (simp add: x xfer_of_def)
  have new: "resource_new e now srh rh b True ac scb spcb tmo rid is_response = advertise e now d'"
    unfolding resource_new_def init_outbound_def Let_def z_def [symmetric] wire [symmetric] c(1) sum.case
      if_not_P [OF c(2)] if_True maps
    by (simp add: d'_def d_def x xfer_of_def rns_full_hash2_def sent_flags_def flag resource_object_def
        flags_default_def)
  have f: "rs_transfer_size d' = length c" "rs_data_size d' = length b" "rs_total_parts d' = ?n"
    "rs_resource_hash d' = xf_hash x" "rs_random_hash d' = xf_random x" "rs_original_hash d' = xf_hash x"
    "rs_request_id d' = rid" "rs_hashmap d' = concat (map (mh (re_hash e) x) [0..<?n])" "rs_flags d' = xf_flags x"
    "rs_out d' = []" "rs_concluded d' = []" "rs_outbound d'" "rs_parts d' = xf_parts x"
    "rs_expected_proof d' = re_hash e (b @ xf_hash x)" "rs_concluded_cb d' = scb"
    by (simp_all add: d'_def d_def resource_object_def)
  have "\<forall>b \<in> set (map (mh (re_hash e) x) [0..<?n]). length b = MAPHASH_LEN" using length_mh [OF ok] by auto
  from take_blocks [OF this, of "min ?n HASHMAP_MAX_LEN"]
  have "take (min ?n HASHMAP_MAX_LEN * MAPHASH_LEN) (concat (map (mh (re_hash e) x) [0..<?n])) =
      concat (map (mh (re_hash e) x) [0..<min ?n HASHMAP_MAX_LEN])"
    by (simp add: take_map)
  then have adv: "adv_for (re_hash e) x (length c) rid ?a"
    using f by (simp add: adv_for_def advertisement_def x xfer_of_def)
  obtain packed where packed: "adv_pack ?a = Inr packed" by (simp add: adv_pack_items)
  let ?s = "d'\<lparr>rs_out := [(DATA, RESOURCE_ADV, packed)], rs_adv_sent := now, rs_last_activity := now, rs_rtt := 0,
    rs_status := RS_ADVERTISED\<rparr>"
  have "advertise e now d' = (?s, None)" using f by (simp add: advertise_def packed emit_open [OF e])
  moreover have "sender_of (re_hash e) x (re_hash e (b @ xf_hash x)) ?s"
    using f by (simp add: sender_of_def x xfer_of_def)
  ultimately show ?thesis using new adv packed by (intro exI [of _ ?s] exI [of _ ?a]) simp
qed

lemma length_item_uint: "length (item_enc (I_uint c v)) \<le> 11"
  by (simp add: item_enc_def pack_str_def pack_uint_def)

lemma length_item_bin: "length (item_enc (I_bin c b)) \<le> 7 + length b" "length (item_enc (I_id b)) \<le> 7 + length b"
  by (simp_all add: item_enc_def pack_str_def length_pack_bin pack_nil_def)

lemma length_adv_pack:
  assumes "adv_pack a = Inr packed"
  shows "length packed \<le> 200 + length (ad_h a) + length (ad_r a) + length (ad_o a) + length (ad_m a) + length (ad_q a)"
proof -
  note bins = length_item_bin(1) [where c = "0x68" and b = "ad_h a"] length_item_bin(1) [where c = "0x72" and b = "ad_r a"]
    length_item_bin(1) [where c = "0x6f" and b = "ad_o a"] length_item_bin(1) [where c = "0x6d" and b = "ad_m a"] length_item_bin(2) [where b = "ad_q a"]
  note uints = length_item_uint [where c = "0x74" and v = "ucast (ad_t a)"] length_item_uint [where c = "0x64" and v = "ucast (ad_d a)"]
    length_item_uint [where c = "0x6e" and v = "ucast (ad_n a)"] length_item_uint [where c = "0x69" and v = "ucast (ad_i a)"]
    length_item_uint [where c = "0x6c" and v = "ucast (ad_l a)"] length_item_uint [where c = "0x66" and v = "ucast (ad_f a)"]
  have "length (pack_map_header (of_nat (length (adv_items a)))) = 1"
    by (simp add: adv_items_def pack_map_header_11)
  then have "length packed = 1 + length (concat (map item_enc (adv_items a)))"
    using assms by (auto simp: adv_pack_items)
  also have "\<dots> \<le> 200 + length (ad_h a) + length (ad_r a) + length (ad_o a) + length (ad_m a) + length (ad_q a)"
    using bins uints by (simp add: adv_items_def)
  finally show ?thesis .
qed

lemma derive_bits_keeps [simp]:
  "ad_t (derive_bits a) = ad_t a" "ad_d (derive_bits a) = ad_d a" "ad_n (derive_bits a) = ad_n a"
  "ad_f (derive_bits a) = ad_f a" "ad_h (derive_bits a) = ad_h a" "ad_r (derive_bits a) = ad_r a"
  "ad_o (derive_bits a) = ad_o a" "ad_m (derive_bits a) = ad_m a" "ad_q (derive_bits a) = ad_q a"
  by (simp_all add: derive_bits_def)

lemma inbound_synced:
  assumes a: "adv_for h x len rid a" and x: "xfer_ok h x" "length (xf_random x) = RANDOM_HASH_SIZE"
    and size: "xf_size x < 2 ^ 31"
  shows "synced h x 0 (min (length (xf_parts x)) HASHMAP_MAX_LEN)
      ((inbound e now a (xf_cb x) pcb rid')\<lparr>rs_registered := True\<rparr>)"
proof -
  let ?n = "length (xf_parts x)" let ?ht = "min (length (xf_parts x)) HASHMAP_MAX_LEN"
  let ?d = "(inbound e now a (xf_cb x) pcb rid')\<lparr>rs_registered := True\<rparr>"
  have n: "unat (ad_n a) = ?n"
    using a x by (simp add: adv_for_def xfer_ok_def) (intro of_nat_unat_less, simp)
  have sz: "unat (ad_d a) = xf_size x"
    using a size by (simp add: adv_for_def) (intro of_nat_unat_less, simp)
  have pos: "0 < ?n" and 32: "length (xf_hash x) = 32" using x by (simp_all add: xfer_ok_def)
  have blocks: "\<forall>b \<in> set (map (mh h x) [0..<?ht]). length b = MAPHASH_LEN" using length_mh [OF x(1)] by auto
  have m: "ad_m a = concat (map (mh h x) [0..<?ht])" using a by (simp add: adv_for_def)
  have len: "length (ad_m a) div MAPHASH_LEN = ?ht"
    using length_blocks [OF blocks] by (simp add: m MAPHASH_LEN_def)
  have at: "take MAPHASH_LEN (drop (i * MAPHASH_LEN) (ad_m a)) = mh h x i" if "i < ?ht" for i
    using block_at [OF blocks, of i] that by (simp add: m)
  have "rx_ok h ?d" using a 32 by (intro inbound_ok) (simp add: adv_for_def)
  moreover have "rs_parts ?d = replicate ?n []" "rs_total_parts ?d = ?n" "rs_hashmap_height ?d = ?ht"
    "rs_consec ?d = -1" "rs_received ?d = 0" "rs_status ?d = RS_TRANSFERRING" "rs_total_size ?d = xf_size x"
    "rs_concluded_cb ?d = xf_cb x" "rs_concluded ?d = []" "rs_flags ?d = xf_flags x"
    "rs_random_hash ?d = xf_random x" "rs_resource_hash ?d = xf_hash x"
    using a n sz len 32 x(2)
    by (simp_all add: inbound_def Let_def adv_for_def resource_object_def min.commute)
  moreover have "rs_hash_known ?d ! i = (i < ?ht)" if "i < ?n" for i
    using n len that by (simp add: inbound_def Let_def min.commute)
  moreover have "rs_map_hashes ?d ! i = mh h x i" if "i < ?ht" for i
    using n len that at by (simp add: inbound_def Let_def min.commute)
  ultimately show ?thesis
    using pos by (simp add: synced_def) (auto simp: min_def res_const_values)
qed

lemma accept_pulls:
  assumes a: "adv_for (re_hash e) x len rid a" and x: "xfer_ok (re_hash e) x" "length (xf_random x) = RANDOM_HASH_SIZE"
    and size: "xf_size x < 2 ^ 31" "length rid < 2 ^ 30" and e: "open_link e"
    and p: "pk_link p \<noteq> None" "re_alloc e (length (xf_parts x))"
  shows "\<exists>r. accept e now p (projr (adv_pack a)) (xf_cb x) pcb rid' = Some (r, None) \<and>
    pulling (re_hash e) x (2 * length (xf_parts x) - 1) r"
proof -
  let ?n = "length (xf_parts x)" let ?ht = "min ?n HASHMAP_MAX_LEN"
  let ?a = "derive_bits a" let ?d = "(inbound e now ?a (xf_cb x) pcb rid')\<lparr>rs_registered := True\<rparr>"
  have pos: "0 < ?n" and n: "?n < 2 ^ 31" and 32: "length (xf_hash x) = 32" using x by (simp_all add: xfer_ok_def)
  obtain packed where packed: "adv_pack a = Inr packed" by (simp add: adv_pack_items)
  have "\<forall>b \<in> set (map (mh (re_hash e) x) [0..<?ht]). length b = MAPHASH_LEN" using length_mh [OF x(1)] by auto
  from length_blocks [OF this] have "length (ad_m a) \<le> 296"
    using a by (auto simp: adv_for_def res_const_values min_def)
  then have "length packed < 2 ^ 31"
    using length_adv_pack [OF packed] a size 32 x(2) by (simp add: adv_for_def RANDOM_HASH_SIZE_def)
  from adv_pack_unpack [OF packed this] have un: "adv_unpack (re_depth e) packed = Inr ?a" .
  have a': "adv_for (re_hash e) x len rid ?a" using a by (simp add: adv_for_def)
  have nn: "unat (ad_n ?a) = ?n"
    using a n by (simp add: adv_for_def) (intro of_nat_unat_less, simp)
  have acc: "accept e now p packed (xf_cb x) pcb rid' = Some (request_window e now ?d)"
    using p un a' 32 x(2) nn by (simp add: accept_def adv_for_def)
  have s: "synced (re_hash e) x 0 ?ht ?d" by (rule inbound_synced [OF a' x size(1)])
  have w: "\<not> rs_waiting_hmu ?d" "rs_out ?d = []" by (simp_all add: inbound_def Let_def resource_object_def)
  obtain m ex r where r: "request_window e now ?d = (r, None)" "asked (re_hash e) x 0 ?ht m ex r"
    "rs_out r = rs_out ?d @ [(DATA, RESOURCE_REQ, req_bytes (re_hash e) x ?ht 0 m ex)]"
    using request_window_synced [OF s pos w(1) e x(1)] by blast
  have "(?n - 0) + (?n - ?ht) \<le> 2 * ?n - 1" using pos by (auto simp: min_def res_const_values)
  moreover have "rs_out r = [(DATA, RESOURCE_REQ, req_bytes (re_hash e) x ?ht 0 m ex)]" using r(3) w(2) by simp
  ultimately have "pulling (re_hash e) x (2 * ?n - 1) r" using r(2) unfolding pulling_def by blast
  then show ?thesis using acc r(1) packed by simp
qed

text \<open>C5: over a link that loses nothing, a resource with a payload of 1 byte up to 2^31 whose parts all have different
  map hashes reaches the receiver: from the sender's
  construction through its advertisement, the window requests, the map segments and the parts to the
  proof, both sides end COMPLETE within two rounds per part, whatever the clock, the measured rates and the
  window do; the receiver holds exactly the sender's payload, and each side's concluded callback has run
  once. The link's cipher and bzip2 undo themselves, and the receiver can allocate its part table. Neither
  restriction can be dropped: an empty payload and two parts of one map hash both end corrupt.\<close>

theorem transfer_completes:
  assumes hash: "re_hash es = re_hash er" "\<And>b. length (re_hash er b) = 32"
    and cipher: "re_encrypt es (take 4 srh @ on_wire es ac b) = Inr c" "c \<noteq> []"
      "re_decrypt er c = take 4 srh @ on_wire es ac b"
    and bz2: "\<And>z. bz2_compress es b = Some z \<Longrightarrow> z \<noteq> [] \<and> bz2_decompress er z (length b) = Some b"
    and link: "open_link es" "open_link er"
    and maps: "distinct (map (\<lambda>p. rns_map_hash es p (take 4 rh)) (part_chunks c))"
    and size: "b \<noteq> []" "length b < 2 ^ 31" "length c < 2 ^ 31" "length rid < 2 ^ 30" "4 \<le> length srh" "4 \<le> length rh"
    and peer: "pk_link p \<noteq> None" "re_alloc er (length (part_chunks c))"
    and rounds: "2 * length (part_chunks c) + 1 \<le> length ts"
  shows "\<exists>s adv r s' r'.
    resource_new es now srh rh b True ac scb spcb tmo rid is_response = (s, None) \<and>
    rs_out s = [(DATA, RESOURCE_ADV, adv)] \<and> accept er now' p adv rcb rpcb rid' = Some (r, None) \<and>
    exchange es er ts (s, r) = (s', r') \<and>
    rs_status s' = RS_COMPLETE \<and> rs_status r' = RS_COMPLETE \<and> rs_data r' = b \<and>
    rs_concluded s' = (if scb then [RS_COMPLETE] else []) \<and>
    rs_concluded r' = (if rcb then [RS_COMPLETE] else [])"
proof -
  let ?fl = "sent_flags es ac b (rid \<noteq> [] \<and> \<not> is_response) is_response"
  define x where "x = xfer_of es rh b c ?fl rcb scb"
  have parts: "xf_parts x = part_chunks c" "xf_random x = take 4 rh" "length (xf_random x) = RANDOM_HASH_SIZE"
    "xf_size x = length b" "xf_hash x = re_hash er (b @ xf_random x)"
    using size hash by (simp_all add: x_def xfer_of_def RANDOM_HASH_SIZE_def)
  have "part_chunks c \<noteq> []" using concat_part_chunks [of c] cipher(2) by auto
  then have ok: "xfer_ok (re_hash er) x"
    using maps map_hashes_chunks [of es x] hash chunks_nonempty [of c] chunks_bound [of c] size(3) parts
    by (simp add: xfer_ok_def)
  have "payload er x = Some b"
  proof -
    have len: "4 < length (take 4 srh @ on_wire es ac b)" "drop 4 (take 4 srh @ on_wire es ac b) = on_wire es ac b"
      using size bz2 by (auto simp: on_wire_def split: option.split)
    have "(if packs es ac b then bz2_decompress er (on_wire es ac b) (length b) else Some (on_wire es ac b)) = Some b"
      using bz2 by (auto simp: on_wire_def packs_def split: option.split)
    then show ?thesis
      using len cipher(3) concat_part_chunks [of c] parts
      by (auto simp: payload_def payload_of_def Let_def RANDOM_HASH_SIZE_def x_def xfer_of_def sent_flags_def
          resource_object_def)
  qed
  moreover have "take 32 (re_hash er (b @ xf_random x)) = xf_hash x" using parts hash by simp
  moreover obtain s a where s: "resource_new es now srh rh b True ac scb spcb tmo rid is_response = (s, None)"
    "sender_of (re_hash er) x (re_hash er (b @ xf_hash x)) s" "rs_out s = [(DATA, RESOURCE_ADV, projr (adv_pack a))]"
    "adv_for (re_hash er) x (length c) rid a"
    using new_sender [OF link(1) _ cipher(2) x_def, of srh now spcb tmo] cipher(1) ok hash(1)
    by (auto simp: RANDOM_HASH_SIZE_def)
  moreover obtain r where r: "accept er now' p (projr (adv_pack a)) rcb rpcb rid' = Some (r, None)"
    "pulling (re_hash er) x (2 * length (xf_parts x) - 1) r"
  proof -
    have "xf_cb x = rcb" "xf_size x < 2 ^ 31" "re_alloc er (length (xf_parts x))"
      using size(2) peer(2) parts by (simp_all add: x_def xfer_of_def)
    then show ?thesis using accept_pulls [OF s(4) ok parts(3) _ size(4) link(2) peer(1), of now' rpcb rid'] that by auto
  qed
  moreover have "2 * length (xf_parts x) - 1 + 2 \<le> length ts" using rounds parts ok by (simp add: xfer_ok_def)
  ultimately obtain s' r' where "exchange es er ts (s, r) = (s', r')" "done_sending x s'" "done_receiving x b r'"
    using exchange_completes [where z = "2 * length (xf_parts x) - 1" and x = x and r = r and b = b and ts = ts and s = s] ok link hash(1) by blast
  then show ?thesis
    using s(1,3) r(1) by (auto simp: done_sending_def done_receiving_def x_def xfer_of_def)
qed

lemma transfer_completes_witness:
  "\<exists>s adv r s' r'.
    resource_new sample_renv 100 [1, 2, 3, 4] [5, 6, 7, 8] [7, 8, 9] True False True True 0 [] False = (s, None) \<and>
    rs_out s = [(DATA, RESOURCE_ADV, adv)] \<and> accept sample_renv 101 sample_carrier adv True True [] = Some (r, None) \<and>
    exchange sample_renv sample_renv [102, 103, 104] (s, r) = (s', r') \<and>
    rs_status s' = RS_COMPLETE \<and> rs_status r' = RS_COMPLETE \<and> rs_data r' = [7, 8, 9] \<and>
    rs_concluded s' = [RS_COMPLETE] \<and> rs_concluded r' = [RS_COMPLETE]"
proof -
  have c: "on_wire sample_renv False [7, 8, 9] = [7, 8, 9]" by (simp add: on_wire_def)
  have one: "part_chunks [1, 2, 3, 4, 7, 8, 9] = [[1, 2, 3, 4, 7, 8, 9]]" by code_simp
  show ?thesis
    using transfer_completes [of sample_renv sample_renv "[1, 2, 3, 4]" False "[7, 8, 9]" "[1, 2, 3, 4, 7, 8, 9]"
        "[5, 6, 7, 8]" "[]" sample_carrier "[102, 103, 104]" 100 True True 0 False 101 True True "[]"]
    by (simp add: c one) (simp add: sample_renv_def length_sample_hash open_link_def sample_carrier_def
        bz2_compress_def)
qed

section \<open>What the code does not check\<close>

text \<open>
  The sender numbers its parts by their four-byte map hashes and never checks that they differ. Asked for
  two parts with the same hash it sends the first of them twice.
\<close>

lemma serve_hit:
  assumes "length m = MAPHASH_LEN" and "open_link e"
    and "first_index (\<lambda>p. rns_map_hash e p (rs_random_hash s) = m) (rs_parts s) = Some i"
  shows "\<exists>s'. serve e now (m @ w) s = serve e now w s' \<and> rs_out s' = rs_out s @ [(DATA, RESOURCE, rs_parts s ! i)] \<and>
    rs_parts s' = rs_parts s \<and> rs_random_hash s' = rs_random_hash s"
  using assms by (subst serve.simps) (auto simp: emit_open intro!: exI)

lemma collision_sends_first_twice:
  assumes "rs_parts s = p # q # ps" and "rns_map_hash e p (rs_random_hash s) = m" and "length m = MAPHASH_LEN"
    and "rns_map_hash e q (rs_random_hash s) = m" and "open_link e"
  shows "rs_out (fst (serve e now (m @ m) s)) = rs_out s @ [(DATA, RESOURCE, p), (DATA, RESOURCE, p)]"
proof -
  have hit: "first_index (\<lambda>c. rns_map_hash e c (rs_random_hash t) = m) (rs_parts t) = Some 0"
    if "rs_parts t = rs_parts s" "rs_random_hash t = rs_random_hash s" for t
    using assms(1,2) that by simp
  obtain t where t: "serve e now (m @ m) s = serve e now (m @ []) t" "rs_out t = rs_out s @ [(DATA, RESOURCE, p)]"
    "rs_parts t = rs_parts s" "rs_random_hash t = rs_random_hash s"
    using serve_hit [OF assms(3,5) hit, of s now m] assms(1) by auto
  obtain u where u: "serve e now (m @ []) t = serve e now [] u" "rs_out u = rs_out t @ [(DATA, RESOURCE, p)]"
    using serve_hit [OF assms(3,5) hit [OF t(3,4)], of now "[]"] t(3) assms(1) by auto
  have "serve e now [] u = (u, None)" by (subst serve.simps) (simp add: MAPHASH_LEN_def)
  then show ?thesis using t u by simp
qed

text \<open>
  A resource with no payload is encrypted, advertised and transferred, and then refused: the receiver takes
  a decryption of no more than the four bytes of the randomiser for a failure.
\<close>

lemma empty_payload_corrupt:
  assumes "re_decrypt e (concat (rs_parts d)) = take 4 srh" and "[] \<notin> set (rs_parts d)"
  shows "assemble e d = (d\<lparr>rs_status := RS_CORRUPT\<rparr>, None)"
  using assms by (simp add: assemble_def payload_of_def Let_def RANDOM_HASH_SIZE_def)

end
