(* ===== verification/ResWatch.thy ===== *)
theory ResWatch
  imports ResInv
begin

text \<open>
  The watchdog of a resource. It never sends without end: its packets are bounded by the retries left.
  And it never waits without end: a receiver that hears nothing gives up after its retries, each within a
  bound that the link's rate fixes.
\<close>

section \<open>A bounded number of packets\<close>

definition ticks :: "renv \<Rightarrow> secs list \<Rightarrow> resource \<Rightarrow> resource" where
  "ticks e ts d = fold (\<lambda>t d. fst (watchdog e t d)) ts d"

definition alive :: "resource \<Rightarrow> nat" where
  "alive d = (if rs_status d = RS_ADVERTISED \<or> rs_status d = RS_TRANSFERRING \<or> rs_status d = RS_AWAITING_PROOF
     then 1 else 0)"

definition potential :: "resource \<Rightarrow> nat" where
  "potential d = length (rs_out d) + nat (rs_retries_left d) + alive d"

lemma emit_out: "length (rs_out (fst (emit e pt ctx b d))) \<le> Suc (length (rs_out d))"
  "rs_status (fst (emit e pt ctx b d)) = rs_status d" "rs_retries_left (fst (emit e pt ctx b d)) = rs_retries_left d"
  "rs_last_activity (fst (emit e pt ctx b d)) = rs_last_activity d"
  by (simp_all add: emit_def split: option.split)

lemma request_window_frame [simp]:
  "rs_retries_left (fst (request_window e now d)) = rs_retries_left d"
  "rs_rtt (fst (request_window e now d)) = rs_rtt d"
  "rs_req_data_rtt_rate (fst (request_window e now d)) = rs_req_data_rtt_rate d"
  "rs_part_timeout_factor (fst (request_window e now d)) = rs_part_timeout_factor d"
  "rs_concluded_cb (fst (request_window e now d)) = rs_concluded_cb d"
  "rs_concluded (fst (request_window e now d)) = rs_concluded d"
proof -
  obtain req i x where "window_scan d (unat (rs_window d)) (rs_consec d + 1) 0 [] = (req, i, x)"
    by (metis prod_cases3)
  then show "rs_retries_left (fst (request_window e now d)) = rs_retries_left d"
    "rs_rtt (fst (request_window e now d)) = rs_rtt d"
    "rs_req_data_rtt_rate (fst (request_window e now d)) = rs_req_data_rtt_rate d"
    "rs_part_timeout_factor (fst (request_window e now d)) = rs_part_timeout_factor d"
    "rs_concluded_cb (fst (request_window e now d)) = rs_concluded_cb d"
    "rs_concluded (fst (request_window e now d)) = rs_concluded d"
    by (auto simp: request_window_def Let_def emit_def split: option.split)
qed

lemma request_window_out:
  "length (rs_out (fst (request_window e now d))) \<le> Suc (length (rs_out d))"
  "rs_last_activity (fst (request_window e now d)) \<in> {rs_last_activity d, now}"
proof -
  obtain req i x where "window_scan d (unat (rs_window d)) (rs_consec d + 1) 0 [] = (req, i, x)"
    by (metis prod_cases3)
  then show "length (rs_out (fst (request_window e now d))) \<le> Suc (length (rs_out d))"
    "rs_last_activity (fst (request_window e now d)) \<in> {rs_last_activity d, now}"
    by (auto simp: request_window_def Let_def emit_def split: option.split)
qed

lemma cancel_potential: "alive d = 1 \<Longrightarrow> potential (fst (cancel e d)) \<le> potential d"
  by (auto simp: alive_def potential_def cancel_def Let_def emit_def call_concluded_def split: option.split if_splits)

lemma advertise_potential:
  assumes "rs_status d = RS_ADVERTISED" and "0 < rs_retries_left d"
  shows "potential (fst (advertise e now (d\<lparr>rs_retries_left := rs_retries_left d - 1\<rparr>))) \<le> potential d"
  using assms
  by (auto simp: advertise_def adv_pack_items emit_def potential_def alive_def split: option.split)

lemma eifr_frame [simp]:
  "rs_retries_left (update_eifr e d) = rs_retries_left d" "rs_last_activity (update_eifr e d) = rs_last_activity d"
  "rs_part_timeout_factor (update_eifr e d) = rs_part_timeout_factor d"
  "rs_rtt (update_eifr e d) = rs_rtt d" "rs_req_data_rtt_rate (update_eifr e d) = rs_req_data_rtt_rate d"
  "rs_req_resp_rtt_rate (update_eifr e d) = rs_req_resp_rtt_rate d"
  by (simp_all add: update_eifr_def Let_def)

lemma shrink_frame [simp]:
  "rs_retries_left (shrink_window d) = rs_retries_left d" "rs_last_activity (shrink_window d) = rs_last_activity d"
  "rs_part_timeout_factor (shrink_window d) = rs_part_timeout_factor d"
  "rs_rtt (shrink_window d) = rs_rtt d" "rs_req_data_rtt_rate (shrink_window d) = rs_req_data_rtt_rate d"
  by (simp_all add: shrink_window_def Let_def)

lemma potential_eifr [simp]: "potential (update_eifr e d) = potential d"
  by (simp add: potential_def alive_def)

lemma alive_eifr [simp]: "alive (update_eifr e d) = alive d"
  by (simp add: alive_def)

definition retry_parts :: "renv \<Rightarrow> secs \<Rightarrow> resource \<Rightarrow> resource" where
  "retry_parts e now d = fst (request_window e now
     ((shrink_window (update_eifr e d))\<lparr>rs_retries_left := rs_retries_left d - 1, rs_waiting_hmu := False\<rparr>))"

lemma retry_potential:
  assumes "0 < rs_retries_left d" and "alive d = 1"
  shows "potential (retry_parts e now d) \<le> potential d"
  using request_window_out(1) [of e now "(shrink_window (update_eifr e d))
      \<lparr>rs_retries_left := rs_retries_left d - 1, rs_waiting_hmu := False\<rparr>"] assms
  by (simp add: retry_parts_def potential_def alive_def split: if_splits)

lemma watchdog_receiving_cases:
  "fst (watchdog_receiving e now d) =
    (let u = update_eifr e d in
     if 0 < rs_eifr u \<and> now > part_deadline u then
       if 0 < rs_retries_left d then retry_parts e now d else fst (cancel e u)
     else u)"
  by (simp add: watchdog_receiving_def Let_def retry_parts_def)

lemma watchdog_potential: "potential (fst (watchdog e now d)) \<le> potential d"
proof (cases "rs_status d")
  case RS_ADVERTISED
  then show ?thesis
    using cancel_potential [of d e] advertise_potential [of d e now]
    by (auto simp: watchdog_def watchdog_advertised_def Let_def alive_def)
next
  case RS_TRANSFERRING
  then have a: "alive d = 1" by (simp add: alive_def)
  have "potential (fst (watchdog_receiving e now d)) \<le> potential d"
    using retry_potential [of d e now] cancel_potential [of "update_eifr e d" e] a
    by (simp add: watchdog_receiving_cases Let_def)
  moreover have "potential (fst (watchdog_sending e now d)) \<le> potential d"
    using cancel_potential [OF a, of e] by (simp add: watchdog_sending_def Let_def)
  ultimately show ?thesis using RS_TRANSFERRING by (simp add: watchdog_def)
next
  case RS_AWAITING_PROOF
  then show ?thesis
    using cancel_potential [of d e]
    by (auto simp: watchdog_def watchdog_proof_def Let_def alive_def potential_def)
qed (simp_all add: watchdog_def)

lemma ticks_potential: "potential (ticks e ts d) \<le> potential d"
  unfolding ticks_def
proof (induction ts arbitrary: d)
  case (Cons t ts)
  show ?case using Cons.IH [of "fst (watchdog e t d)"] watchdog_potential [of e t d] by simp
qed simp

text \<open>C37: however often and at whatever times the watchdog runs while nothing arrives, it sends at most one
  packet for each retry_parts the resource has left, and one cancellation.\<close>

lemma watchdog_bounded:
  "length (rs_out (ticks e ts d)) \<le> length (rs_out d) + nat (rs_retries_left d) + 1"
  using ticks_potential [of e ts d] by (auto simp: potential_def alive_def split: if_splits)

section \<open>A bounded wait\<close>

definition rate :: "renv \<Rightarrow> resource \<Rightarrow> secs" where
  "rate e d = rs_eifr (update_eifr e d)"

text \<open>The longest the receiver waits for one answer at a given in-flight rate, in seconds.\<close>

definition silence :: "secs \<Rightarrow> secs" where
  "silence r = 1126592 / r + 8.25"

lemma rate_cong:
  "rs_rtt d' = rs_rtt d \<Longrightarrow> rs_req_data_rtt_rate d' = rs_req_data_rtt_rate d \<Longrightarrow> rate e d' = rate e d"
  by (simp add: rate_def update_eifr_def Let_def)

lemma slack_two: "a + b \<le> x \<Longrightarrow> 0 \<le> y \<Longrightarrow> a + (b + (1 / 4 + (16 - y) / 2)) \<le> x + 33 / 4"
  for a b x y :: rat
  by (simp add: field_simps)

lemma slack_one: "a \<le> x \<Longrightarrow> 0 \<le> y \<Longrightarrow> a + (1 / 4 + (16 - y) / 2) \<le> x + 33 / 4"
  for a x y :: rat
  by (simp add: field_simps)

lemma deadline_bound:
  assumes r: "0 < rate e d" and o: "rs_outstanding_parts d \<le> 75" and f: "rs_part_timeout_factor d \<le> 4"
    and left: "0 \<le> rs_retries_left d"
  shows "part_deadline (update_eifr e d) \<le> rs_last_activity d + silence (rate e d)"
proof -
  let ?r = "rate e d" let ?o = "of_nat (rs_outstanding_parts d) :: rat" let ?f = "of_nat (rs_part_timeout_factor d) :: rat"
  have o': "?o \<le> 75" using o by (metis of_nat_mono of_nat_numeral)
  have f': "?f \<le> 4" "0 \<le> ?f" using f by (metis of_nat_mono of_nat_numeral, simp)
  have wait: "0 \<le> (of_int (rs_retries_left d) :: rat)" using left by simp
  have prod: "?f * (?o * 3712) \<le> 1113600"
  proof -
    have "?f * (?o * 3712) \<le> 4 * (75 * 3712)" using o' f' by (intro mult_mono) auto
    then show ?thesis by simp
  qed
  have "(?f * (?o * 3712) + 12992) / ?r \<le> 1126592 / ?r" "(?f * 1392) / ?r \<le> 1126592 / ?r"
    "(?f * (?o * 3712)) / ?r \<le> 1126592 / ?r" "12992 / ?r \<le> 1126592 / ?r"
    using prod f' r by (intro divide_right_mono; simp)+
  then have b: "?f * (?o * 3712) / ?r + 12992 / ?r \<le> 1126592 / ?r" "?f * 1392 / ?r \<le> 1126592 / ?r"
    "?f * (?o * 3712) / ?r \<le> 1126592 / ?r" "12992 / ?r \<le> 1126592 / ?r"
    by (simp_all add: add_divide_distrib)
  show ?thesis
    unfolding part_deadline_def Let_def silence_def rate_def [symmetric] res_const_values HMU_WAIT_FACTOR_def
      MAX_RETRIES_def PER_RETRY_DELAY_def RETRY_GRACE_TIME_def eifr_frame
    by (simp add: update_eifr_keeps) (use b wait in \<open>auto intro: slack_two slack_one\<close>)
qed

text \<open>A receiver in the middle of a transfer, with the times its ticks may have.\<close>

definition waiting :: "renv \<Rightarrow> secs \<Rightarrow> resource \<Rightarrow> bool" where
  "waiting e r d \<longleftrightarrow> (\<exists>h. rx_ok h d) \<and> rs_status d = RS_TRANSFERRING \<and> rate e d = r \<and>
     rs_part_timeout_factor d \<le> 4 \<and> 0 \<le> rs_retries_left d"

fun spaced :: "secs \<Rightarrow> secs \<Rightarrow> secs list \<Rightarrow> bool" where
  "spaced gap t [] \<longleftrightarrow> True"
| "spaced gap t (u # us) \<longleftrightarrow> t + gap < u \<and> spaced gap u us"

lemma waiting_due:
  assumes w: "waiting e r d" and r: "0 < r" and now: "rs_last_activity d + silence r < now"
  shows "fst (watchdog e now d) = (if 0 < rs_retries_left d then retry_parts e now d else fst (cancel e (update_eifr e d)))"
proof -
  have ok: "rs_status d = RS_TRANSFERRING" "\<not> rs_outbound d" "rs_outstanding_parts d \<le> 75" "rate e d = r"
    using w by (auto simp: waiting_def rx_ok_def tables_ok_def counts_ok_def)
  have "part_deadline (update_eifr e d) < now"
    using deadline_bound [of e d] w r now ok(3,4) by (auto simp: waiting_def)
  then show ?thesis
    using ok r by (simp add: watchdog_def watchdog_receiving_cases Let_def rate_def)
qed

lemma waiting_retry:
  assumes w: "waiting e r d" and left: "0 < rs_retries_left d"
  shows "waiting e r (retry_parts e now d)" "rs_retries_left (retry_parts e now d) = rs_retries_left d - 1"
    "rs_last_activity (retry_parts e now d) \<in> {rs_last_activity d, now}"
    "rs_concluded_cb (retry_parts e now d) = rs_concluded_cb d" "rs_concluded (retry_parts e now d) = rs_concluded d"
proof -
  let ?d = "(shrink_window (update_eifr e d))\<lparr>rs_retries_left := rs_retries_left d - 1, rs_waiting_hmu := False\<rparr>"
  obtain h where h: "rx_ok h d" using w by (auto simp: waiting_def)
  have "rx_ok h (shrink_window (update_eifr e d))"
    using bookkeeping_ok(3) [OF bookkeeping_ok(4) [OF h]] .
  then have "rx_ok h ?d" by (simp only: rx_ok_times)
  then have "rx_ok h (retry_parts e now d)" unfolding retry_parts_def by (rule request_window_ok)
  moreover have "rate e (retry_parts e now d) = rate e d" by (rule rate_cong) (simp_all add: retry_parts_def)
  ultimately show "waiting e r (retry_parts e now d)" using w left by (auto simp: waiting_def retry_parts_def)
  show "rs_retries_left (retry_parts e now d) = rs_retries_left d - 1"
    "rs_concluded_cb (retry_parts e now d) = rs_concluded_cb d" "rs_concluded (retry_parts e now d) = rs_concluded d"
    by (simp_all add: retry_parts_def)
  show "rs_last_activity (retry_parts e now d) \<in> {rs_last_activity d, now}"
    using request_window_out(2) [of e now ?d] by (simp add: retry_parts_def)
qed

lemma spaced_weaken: "spaced gap t us \<Longrightarrow> t' \<le> t \<Longrightarrow> spaced gap t' us"
  by (cases us) auto

lemma silence_pos: "0 < r \<Longrightarrow> 0 < silence r"
  by (simp add: silence_def add_pos_pos)

lemma failed_stays: "rs_status d = RS_FAILED \<Longrightarrow> ticks e ts d = d"
  unfolding ticks_def by (induction ts) (simp_all add: watchdog_def)

lemma silent_ticks:
  assumes "waiting e r d" and "0 < r" and "spaced (silence r) (rs_last_activity d) ts"
    and "nat (rs_retries_left d) < length ts"
  shows "rs_status (ticks e ts d) = RS_FAILED \<and>
    rs_concluded (ticks e ts d) = rs_concluded d @ (if rs_concluded_cb d then [RS_FAILED] else [])"
  using assms
proof (induction ts arbitrary: d)
  case (Cons t ts)
  have due: "rs_last_activity d + silence r < t" using Cons.prems(3) by simp
  have tick: "ticks e (t # ts) d = ticks e ts (fst (watchdog e t d))" by (simp add: ticks_def)
  show ?case
  proof (cases "0 < rs_retries_left d")
    case True
    note next_ = waiting_retry [OF Cons.prems(1) True, of t]
    have "rs_last_activity (retry_parts e t d) \<le> t"
      using next_(3) due silence_pos [OF Cons.prems(2)] by auto
    then have "spaced (silence r) (rs_last_activity (retry_parts e t d)) ts"
      using Cons.prems(3) spaced_weaken by auto
    moreover have "nat (rs_retries_left (retry_parts e t d)) < length ts"
      using Cons.prems(4) True next_(2) by simp
    ultimately show ?thesis
      using Cons.IH [OF next_(1) Cons.prems(2)] next_(4,5) waiting_due [OF Cons.prems(1,2) due] True
      by (simp add: tick)
  next
    case False
    let ?d = "fst (cancel e (update_eifr e d))"
    have "\<not> rs_outbound d" "rs_status d = RS_TRANSFERRING"
      using Cons.prems(1) by (auto simp: waiting_def rx_ok_def tables_ok_def)
    then have "rs_status ?d = RS_FAILED"
      "rs_concluded ?d = rs_concluded d @ (if rs_concluded_cb d then [RS_FAILED] else [])"
      by (simp_all add: cancel_def Let_def call_concluded_def)
    then show ?thesis
      using waiting_due [OF Cons.prems(1,2) due] False failed_stays by (simp add: tick)
  qed
qed simp

text \<open>C34: a receiver does not wait for ever: in any reachable state of a running transfer whose in-flight rate is
  known, if nothing arrives and the watchdog runs once per interval longer than the bound, the resource is
  FAILED after one tick more than the retries left, at most seventeen, and its concluded callback has been
  called once with that status.\<close>

lemma silent_receiver_fails:
  assumes "rx_reach h d" and "\<And>b. length (h b) = 32" and "rs_status d = RS_TRANSFERRING"
    and "0 < rate e d" and "rs_part_timeout_factor d \<le> 4" and "0 \<le> rs_retries_left d"
    and "spaced (silence (rate e d)) (rs_last_activity d) ts" and "nat (rs_retries_left d) < length ts"
  shows "rs_status (ticks e ts d) = RS_FAILED \<and>
    rs_concluded (ticks e ts d) = rs_concluded d @ (if rs_concluded_cb d then [RS_FAILED] else [])"
proof -
  have "rx_ok h d" by (rule rx_reach_ok [OF assms(1,2)])
  then have "waiting e (rate e d) d" using assms(3,5,6) by (auto simp: waiting_def)
  then show ?thesis using assms(4,7,8) by (rule silent_ticks)
qed

lemma silent_receiver_fails_witness:
  "rs_status (ticks sample_renv (map (\<lambda>i. 2000 * of_nat i) [1..<18]) (fst (the sample_accepted))) = RS_FAILED"
proof -
  let ?d = "fst (the sample_accepted)" let ?ts = "map (\<lambda>i. 2000 * of_nat i) [1..<18] :: secs list"
  have "rs_status ?d = RS_TRANSFERRING" "0 < rate sample_renv ?d" "rs_part_timeout_factor ?d \<le> 4"
    "0 \<le> rs_retries_left ?d" "spaced (silence (rate sample_renv ?d)) (rs_last_activity ?d) ?ts"
    "nat (rs_retries_left ?d) < length ?ts"
    by code_simp+
  from silent_receiver_fails [OF sample_accepted_reach length_sample_hash this] show ?thesis by blast
qed

section \<open>Duplicate requests\<close>

definition hashlist_ok :: "resource \<Rightarrow> bool" where
  "hashlist_ok d \<longleftrightarrow> length (rs_req_hashlist d) \<le> REQ_HASHLIST_MAX"

lemma note_request_hash_ok: "hashlist_ok d \<Longrightarrow> hashlist_ok (note_request_hash h d)"
  by (simp add: hashlist_ok_def note_request_hash_def Let_def REQ_HASHLIST_MAX_def)

lemma drop_past: "drop (n - 63) [h] @ drop (n - 64) hs = drop (n - 63) (h # hs)"
proof (cases "n - 63")
  case (Suc k)
  then have "n - 64 = k" by simp
  then show ?thesis using Suc by simp
qed simp

text \<open>A request is recognised again until 64 others have come after it.\<close>

lemma noted_requests:
  "rs_req_hashlist (fold note_request_hash hs d) =
     drop (length (rs_req_hashlist d) + length hs - REQ_HASHLIST_MAX) (rs_req_hashlist d @ hs)"
  if "hashlist_ok d"
  using that
proof (induction hs arbitrary: d)
  case Nil
  then show ?case by (simp add: hashlist_ok_def)
next
  case (Cons h hs)
  have "rs_req_hashlist (note_request_hash h d) =
      drop (Suc (length (rs_req_hashlist d)) - REQ_HASHLIST_MAX) (rs_req_hashlist d @ [h])"
    using Cons.prems by (auto simp: note_request_hash_def Let_def hashlist_ok_def REQ_HASHLIST_MAX_def)
  then show ?case
    using Cons.IH [OF note_request_hash_ok [OF Cons.prems]] Cons.prems
    by (cases "length (rs_req_hashlist d) = REQ_HASHLIST_MAX") (auto simp: hashlist_ok_def REQ_HASHLIST_MAX_def drop_past)
qed

lemma retransmission_recognised:
  assumes "hashlist_ok d" and "length hs < REQ_HASHLIST_MAX"
  shows "has_request_hash h (fold note_request_hash hs (note_request_hash h d))"
proof -
  have "rs_req_hashlist (fold note_request_hash (h # hs) d) =
      drop (length (rs_req_hashlist d) + length (h # hs) - REQ_HASHLIST_MAX) (rs_req_hashlist d @ h # hs)"
    using noted_requests [OF assms(1), of "h # hs"] .
  moreover have "length (rs_req_hashlist d) + length (h # hs) - REQ_HASHLIST_MAX \<le> length (rs_req_hashlist d)"
    using assms(2) by simp
  ultimately show ?thesis by (simp add: has_request_hash_def)
qed

end
