(* ===== verification/BytesCow.thy ===== *)
theory BytesCow
  imports RnsTypes
begin

text \<open>
  The \<open>Bytes\<close> class of \<open>Bytes.h\<close> and \<open>Bytes.cpp\<close>: copy-on-write handles on shared vectors.

  The other theories take a \<open>Bytes\<close> for its value, a list of bytes. Here the handles are modelled as the
  class has them: a variable holds an optional address of a vector and the flag \<open>_exclusive\<close>, a
  copy shares the address and clears both flags, and a write first makes the vector its own. The
  store maps addresses to vectors; the reference count and the capacity are not observable and are
  left out (a vector no variable points to stays in the store). The refinement shows that the
  operations are those of independent values, whatever is shared.
\<close>

section \<open>Handles and store\<close>

record handle =
  bd :: "nat option"
  bx :: bool

record cow =
  vars :: "nat \<Rightarrow> handle"
  mem :: "nat \<Rightarrow> bytes"
  brk :: nat

definition none_handle :: handle where
  "none_handle = \<lparr>bd = None, bx = True\<rparr>"

definition cow_init :: cow where
  "cow_init = \<lparr>vars = (\<lambda>_. none_handle), mem = (\<lambda>_. []), brk = 0\<rparr>"

definition value_of :: "cow \<Rightarrow> nat \<Rightarrow> bytes" where
  "value_of s v = (case bd (vars s v) of None \<Rightarrow> [] | Some a \<Rightarrow> mem s a)"

definition set_var :: "nat \<Rightarrow> handle \<Rightarrow> cow \<Rightarrow> cow" where
  "set_var v h s = s\<lparr>vars := (vars s)(v := h)\<rparr>"

definition set_mem :: "nat \<Rightarrow> bytes \<Rightarrow> cow \<Rightarrow> cow" where
  "set_mem a xs s = s\<lparr>mem := (mem s)(a := xs)\<rparr>"

section \<open>Operations\<close>

text \<open>A fresh vector holding \<open>xs\<close>, owned by \<open>v\<close> alone; \<open>newData\<close> is the empty one.\<close>

definition own :: "nat \<Rightarrow> bytes \<Rightarrow> cow \<Rightarrow> cow" where
  "own v xs s = set_var v \<lparr>bd = Some (brk s), bx = True\<rparr> (set_mem (brk s) xs (s\<lparr>brk := Suc (brk s)\<rparr>))"

definition new_data :: "nat \<Rightarrow> cow \<Rightarrow> cow" where
  "new_data v = own v []"

definition exclusive_data :: "nat \<Rightarrow> bool \<Rightarrow> cow \<Rightarrow> cow" where
  "exclusive_data v copy s =
    (case bd (vars s v) of
       None \<Rightarrow> new_data v s
     | Some a \<Rightarrow>
         if \<not> bx (vars s v) then
           (if copy \<and> mem s a \<noteq> [] then own v (mem s a) s else new_data v s)
         else s)"

text \<open>Replacing the contents of the vector a variable points to, once it is its own.\<close>

definition put_data :: "nat \<Rightarrow> bytes \<Rightarrow> cow \<Rightarrow> cow" where
  "put_data v xs s = (case bd (vars s v) of None \<Rightarrow> s | Some a \<Rightarrow> set_mem a xs s)"

definition bytes_clear :: "nat \<Rightarrow> cow \<Rightarrow> cow" where
  "bytes_clear v = set_var v none_handle"

definition bytes_assign :: "nat \<Rightarrow> nat \<Rightarrow> cow \<Rightarrow> cow" where
  "bytes_assign v w s =
    (let s = set_var w ((vars s w)\<lparr>bx := False\<rparr>) s in
     set_var v \<lparr>bd = bd (vars s w), bx = False\<rparr> s)"

definition assign_data :: "nat \<Rightarrow> bytes \<Rightarrow> cow \<Rightarrow> cow" where
  "assign_data v xs s = (if xs = [] then bytes_clear v s else put_data v xs (exclusive_data v False s))"

definition append_chunk :: "nat \<Rightarrow> bytes \<Rightarrow> cow \<Rightarrow> cow" where
  "append_chunk v xs s =
    (if xs = [] then s
     else let s = exclusive_data v True s in put_data v (value_of s v @ xs) s)"

text \<open>
  Appending an object to itself inserts a vector's own range into it, outside the contract of
  \<open>std::vector::insert\<close>. The room was reserved the step before, so nothing moves; the model has that result.
\<close>

definition bytes_append :: "nat \<Rightarrow> nat \<Rightarrow> cow \<Rightarrow> cow" where
  "bytes_append v w s =
    (if value_of s w = [] then s
     else let s = exclusive_data v True s in put_data v (value_of s v @ value_of s w) s)"

definition append_byte :: "nat \<Rightarrow> u8 \<Rightarrow> cow \<Rightarrow> cow" where
  "append_byte v b s = (let s = exclusive_data v True s in put_data v (value_of s v @ [b]) s)"

definition bytes_resize :: "nat \<Rightarrow> nat \<Rightarrow> cow \<Rightarrow> cow" where
  "bytes_resize v n s =
    (if n = length (value_of s v) then s
     else let s = exclusive_data v True s in put_data v (resize_to n (value_of s v)) s)"

text \<open>
  \<open>writable\<close> returns the buffer for the caller to fill. What it holds before that depends on the
  sharing: the old bytes when the vector was the variable's own, zeros otherwise. \<open>fill\<close> is the use
  the code makes of it, a buffer of at least one byte that is filled completely.
\<close>

definition bytes_writable :: "nat \<Rightarrow> nat \<Rightarrow> cow \<Rightarrow> cow" where
  "bytes_writable v n s =
    (if n > 0 then bytes_resize v n (exclusive_data v False s)
     else case bd (vars s v) of
       None \<Rightarrow> s
     | Some a \<Rightarrow> bytes_resize v (length (mem s a)) (exclusive_data v False s))"

definition fill :: "nat \<Rightarrow> u8 \<Rightarrow> bytes \<Rightarrow> cow \<Rightarrow> cow" where
  "fill v b xs s = put_data v (b # xs) (bytes_writable v (Suc (length xs)) s)"

text \<open>\<open>operator[]\<close> on a variable that is not const: a reference into the vector, shared or not.\<close>

definition index_write :: "nat \<Rightarrow> nat \<Rightarrow> u8 \<Rightarrow> cow \<Rightarrow> cow res" where
  "index_write v i b s =
    (case bd (vars s v) of
       None \<Rightarrow> Inl Out_of_range
     | Some a \<Rightarrow> if i \<ge> length (mem s a) then Inl Out_of_range
                 else Inr (set_mem a ((mem s a)[i := b]) s))"

definition index_read :: "cow \<Rightarrow> nat \<Rightarrow> nat \<Rightarrow> u8 res" where
  "index_read s v i =
    (case bd (vars s v) of
       None \<Rightarrow> Inl Out_of_range
     | Some a \<Rightarrow> if i \<ge> length (mem s a) then Inl Out_of_range else Inr (mem s a ! i))"

text \<open>\<open>std::vector\<close> compares lexicographically; \<open>compare\<close> has two special cases for a missing vector.\<close>

fun vec_less :: "bytes \<Rightarrow> bytes \<Rightarrow> bool" where
  "vec_less _ [] = False"
| "vec_less [] (_ # _) = True"
| "vec_less (x # xs) (y # ys) = (x < y \<or> x = y \<and> vec_less xs ys)"

definition bytes_compare :: "cow \<Rightarrow> nat \<Rightarrow> nat \<Rightarrow> int" where
  "bytes_compare s v w =
    (case (bd (vars s v), bd (vars s w)) of
       (None, None) \<Rightarrow> 0
     | (None, Some _) \<Rightarrow> -1
     | (Some _, None) \<Rightarrow> 1
     | (Some a, Some b) \<Rightarrow>
         if a = b then 0
         else if vec_less (mem s a) (mem s b) then -1
         else if vec_less (mem s b) (mem s a) then 1 else 0)"

text \<open>The mutators as a datatype, so that programs over variables are lists.\<close>

datatype bop =
    Clear nat
  | Assign nat nat
  | Assign_data nat bytes
  | Append nat nat
  | Append_chunk nat bytes
  | Append_byte nat u8
  | Resize nat nat
  | Fill nat u8 bytes

fun bstep :: "bop \<Rightarrow> cow \<Rightarrow> cow" where
  "bstep (Clear v) = bytes_clear v"
| "bstep (Assign v w) = bytes_assign v w"
| "bstep (Assign_data v xs) = assign_data v xs"
| "bstep (Append v w) = bytes_append v w"
| "bstep (Append_chunk v xs) = append_chunk v xs"
| "bstep (Append_byte v b) = append_byte v b"
| "bstep (Resize v n) = bytes_resize v n"
| "bstep (Fill v b xs) = fill v b xs"

definition brun :: "bop list \<Rightarrow> cow \<Rightarrow> cow" where
  "brun ops s = fold bstep ops s"

section \<open>Specification: variables that hold values\<close>

fun bspec :: "bop \<Rightarrow> (nat \<Rightarrow> bytes) \<Rightarrow> (nat \<Rightarrow> bytes)" where
  "bspec (Clear v) f = f(v := [])"
| "bspec (Assign v w) f = f(v := f w)"
| "bspec (Assign_data v xs) f = f(v := xs)"
| "bspec (Append v w) f = f(v := f v @ f w)"
| "bspec (Append_chunk v xs) f = f(v := f v @ xs)"
| "bspec (Append_byte v b) f = f(v := f v @ [b])"
| "bspec (Resize v n) f = f(v := resize_to n (f v))"
| "bspec (Fill v b xs) f = f(v := b # xs)"

section \<open>Ownership\<close>

definition owned :: "cow \<Rightarrow> nat \<Rightarrow> bool" where
  "owned s v \<longleftrightarrow> (\<exists>a. bd (vars s v) = Some a \<and> (\<forall>w. w \<noteq> v \<longrightarrow> bd (vars s w) \<noteq> Some a))"

definition cow_ok :: "cow \<Rightarrow> bool" where
  "cow_ok s \<longleftrightarrow>
    (\<forall>v a. bd (vars s v) = Some a \<longrightarrow> a < brk s) \<and>
    (\<forall>v. bx (vars s v) \<longrightarrow> bd (vars s v) \<noteq> None \<longrightarrow> owned s v)"

lemma cow_ok_init: "cow_ok cow_init"
  by (simp add: cow_ok_def cow_init_def none_handle_def)

lemma cow_ok_bound: "cow_ok s \<Longrightarrow> bd (vars s v) = Some a \<Longrightarrow> a < brk s"
  by (simp add: cow_ok_def)

lemma cow_ok_owned: "cow_ok s \<Longrightarrow> bx (vars s v) \<Longrightarrow> bd (vars s v) = Some a \<Longrightarrow> owned s v"
  by (simp add: cow_ok_def)

lemma cow_ok_fresh: "cow_ok s \<Longrightarrow> bd (vars s v) \<noteq> Some (brk s)"
  using cow_ok_bound [of s v "brk s"] by blast

lemma own_facts:
  assumes "cow_ok s"
  shows "cow_ok (own v xs s)" "owned (own v xs s) v"
    "value_of (own v xs s) = (value_of s)(v := xs)"
proof -
  note fresh = cow_ok_fresh [OF assms]
  show "owned (own v xs s) v" using fresh by (simp add: owned_def own_def set_var_def set_mem_def)
  show "cow_ok (own v xs s)"
    unfolding cow_ok_def
  proof (intro conjI allI impI)
    fix w a
    assume "bd (vars (own v xs s) w) = Some a"
    then show "a < brk (own v xs s)"
      using cow_ok_bound [OF assms, of w a] by (auto simp: own_def set_var_def set_mem_def split: if_splits)
  next
    fix w
    assume "bx (vars (own v xs s) w)" "bd (vars (own v xs s) w) \<noteq> None"
    then show "owned (own v xs s) w"
      using fresh cow_ok_owned [OF assms, of w]
      by (cases "w = v") (auto simp: owned_def own_def set_var_def set_mem_def)
  qed
  show "value_of (own v xs s) = (value_of s)(v := xs)"
    using fresh
    by (auto simp: value_of_def own_def set_var_def set_mem_def fun_eq_iff split: option.splits)
qed

lemma clear_facts:
  assumes "cow_ok s"
  shows "cow_ok (bytes_clear v s)" "value_of (bytes_clear v s) = (value_of s)(v := [])"
  using assms
  by (auto simp: cow_ok_def owned_def bytes_clear_def none_handle_def set_var_def value_of_def fun_eq_iff
      cong: option.case_cong)

lemma assign_facts:
  assumes "cow_ok s"
  shows "cow_ok (bytes_assign v w s)" "value_of (bytes_assign v w s) = (value_of s)(v := value_of s w)"
  using assms
  by (auto simp: cow_ok_def owned_def bytes_assign_def set_var_def value_of_def fun_eq_iff Let_def
      split: if_splits cong: option.case_cong)

text \<open>A variable that owns its vector can be overwritten without any other variable noticing.\<close>

lemma put_facts:
  assumes "cow_ok s" and "owned s v"
  shows "cow_ok (put_data v xs s)" "value_of (put_data v xs s) = (value_of s)(v := xs)"
proof -
  obtain a where a: "bd (vars s v) = Some a" "\<And>w. w \<noteq> v \<Longrightarrow> bd (vars s w) \<noteq> Some a"
    using assms(2) by (auto simp: owned_def)
  show "cow_ok (put_data v xs s)"
    using assms(1) a(1) by (simp add: cow_ok_def owned_def put_data_def set_mem_def)
  show "value_of (put_data v xs s) = (value_of s)(v := xs)"
    using a by (auto simp: value_of_def put_data_def set_mem_def fun_eq_iff split: option.splits)
qed

lemma exclusive_facts:
  assumes "cow_ok s"
  shows "cow_ok (exclusive_data v copy s)" "owned (exclusive_data v copy s) v"
    "w \<noteq> v \<Longrightarrow> value_of (exclusive_data v copy s) w = value_of s w"
    "copy \<Longrightarrow> value_of (exclusive_data v copy s) = value_of s"
proof -
  note own = own_facts [OF assms]
  have keep: "(value_of s)(v := value_of s v) = value_of s" by simp
  show "cow_ok (exclusive_data v copy s)" "owned (exclusive_data v copy s) v"
    using own cow_ok_owned [OF assms, of v] assms
    by (auto simp: exclusive_data_def new_data_def split: option.splits)
  show "w \<noteq> v \<Longrightarrow> value_of (exclusive_data v copy s) w = value_of s w"
    using own by (auto simp: exclusive_data_def new_data_def split: option.splits)
  show "value_of (exclusive_data v copy s) = value_of s" if copy
  proof (cases "bd (vars s v)")
    case None
    then have "value_of s v = []" by (simp add: value_of_def)
    with own(3) [of v "[]"] None show ?thesis by (auto simp: exclusive_data_def new_data_def)
  next
    case (Some a)
    then have "value_of s v = mem s a" by (simp add: value_of_def)
    with own(3) [of v] Some that show ?thesis by (auto simp: exclusive_data_def new_data_def)
  qed
qed

lemma rewrite_facts:
  assumes "cow_ok s"
  shows "cow_ok (put_data v xs (exclusive_data v copy s))"
    "value_of (put_data v xs (exclusive_data v copy s)) = (value_of s)(v := xs)"
  using put_facts [OF exclusive_facts(1,2) [OF assms]] exclusive_facts(3) [OF assms]
  by (simp_all add: fun_eq_iff)

lemma resize_facts:
  assumes "cow_ok s"
  shows "cow_ok (bytes_resize v n s)" "value_of (bytes_resize v n s) = (value_of s)(v := resize_to n (value_of s v))"
  using assms rewrite_facts [OF assms] exclusive_facts(4) [OF assms]
  by (auto simp: bytes_resize_def Let_def fun_eq_iff resize_to_le)

lemma resize_owned: "cow_ok s \<Longrightarrow> owned s v \<Longrightarrow> owned (bytes_resize v n s) v"
  using exclusive_facts(2) [of s v True]
  by (auto simp: bytes_resize_def Let_def owned_def put_data_def set_mem_def split: option.splits)

lemma fill_facts:
  assumes "cow_ok s"
  shows "cow_ok (fill v b xs s)" "value_of (fill v b xs s) = (value_of s)(v := b # xs)"
proof -
  let ?t = "exclusive_data v False s"
  note t = exclusive_facts [OF assms, where v = v and copy = False]
  note r = resize_facts [OF t(1), of v "Suc (length xs)"]
  note p = put_facts [OF r(1) resize_owned [OF t(1,2)], of "b # xs"]
  show "cow_ok (fill v b xs s)" using p(1) by (simp add: fill_def bytes_writable_def)
  show "value_of (fill v b xs s) = (value_of s)(v := b # xs)"
    using p(2) r(2) t(3) by (simp add: fill_def bytes_writable_def fun_eq_iff)
qed

section \<open>Value semantics\<close>

lemma bstep_refines:
  assumes "cow_ok s"
  shows "cow_ok (bstep op s) \<and> value_of (bstep op s) = bspec op (value_of s)"
proof (cases op)
  case (Append v w)
  then show ?thesis
    using assms rewrite_facts [OF assms, of v _ True] exclusive_facts(4) [OF assms, of True v]
    by (simp add: bytes_append_def Let_def)
next
  case (Append_chunk v xs)
  then show ?thesis
    using assms rewrite_facts [OF assms, of v _ True] exclusive_facts(4) [OF assms, of True v]
    by (simp add: append_chunk_def Let_def)
next
  case (Append_byte v b)
  then show ?thesis
    using assms rewrite_facts [OF assms, of v _ True] exclusive_facts(4) [OF assms, of True v]
    by (simp add: append_byte_def Let_def)
next
  case (Assign_data v xs)
  then show ?thesis
    using rewrite_facts [OF assms, of v xs False] clear_facts [OF assms, of v]
    by (simp add: assign_data_def)
next
  case (Clear v)
  then show ?thesis using clear_facts [OF assms, of v] by simp
next
  case (Assign v w)
  then show ?thesis using assign_facts [OF assms, of v w] by simp
next
  case (Resize v n)
  then show ?thesis using resize_facts [OF assms, of v n] by simp
next
  case (Fill v b xs)
  then show ?thesis using fill_facts [OF assms, of v b xs] by simp
qed

lemma brun_ok: "cow_ok s \<Longrightarrow> cow_ok (brun ops s) \<and> value_of (brun ops s) = fold bspec ops (value_of s)"
proof (induction ops arbitrary: s)
  case (Cons op ops)
  from bstep_refines [OF Cons.prems, of op] Cons.IH [of "bstep op s"]
  show ?case by (simp add: brun_def)
qed (simp add: brun_def)

text \<open>
  C18: copy-on-write is invisible. Any program of copies, clears, appends, resizes and buffer fills over
  any number of \<open>Bytes\<close> variables leaves each variable with the bytes it would have if every
  assignment had copied: writing one variable never changes another.
\<close>

theorem copies_are_values:
  "value_of (brun ops cow_init) = fold bspec ops (\<lambda>_. [])"
proof -
  have "value_of cow_init = (\<lambda>_. [])"
    by (simp add: value_of_def cow_init_def none_handle_def fun_eq_iff)
  then show ?thesis using brun_ok [OF cow_ok_init, of ops] by simp
qed

section \<open>Where the values show through\<close>

text \<open>
  \<open>operator[]\<close> hands out a reference without first making the vector the variable's own: a write
  through it reaches every copy.
\<close>

lemma index_write_leaks:
  "map_sum id (\<lambda>s. (value_of s 0, value_of s 1))
     (index_write 1 0 9 (brun [Assign_data 0 [1, 2], Assign 1 0] cow_init)) = Inr ([9, 2], [9, 2])"
  by (simp add: brun_def cow_init_def none_handle_def assign_data_def bytes_assign_def exclusive_data_def
      new_data_def own_def put_data_def set_var_def set_mem_def index_write_def value_of_def)

text \<open>
  \<open>compare\<close> on non-empty values is the comparison of the values. Two empty values differ when one
  has a vector and the other none.
\<close>

lemma vec_less_irrefl: "\<not> vec_less x x"
  by (induction x) auto

lemma vec_less_total: "vec_less x y \<or> x = y \<or> vec_less y x"
proof (induction x y rule: vec_less.induct)
  case (1 xs)
  show ?case by (cases xs) simp_all
next
  case (3 x xs y ys)
  then show ?case using less_linear [of x y] by auto
qed simp

lemma vec_less_asym: "vec_less x y \<Longrightarrow> \<not> vec_less y x"
  by (induction x y rule: vec_less.induct) auto

lemma compare_values:
  assumes "bd (vars s v) \<noteq> None" and "bd (vars s w) \<noteq> None"
  shows "bytes_compare s v w = 0 \<longleftrightarrow> value_of s v = value_of s w"
  using assms vec_less_total [of "value_of s v" "value_of s w"] vec_less_irrefl
  by (auto simp: bytes_compare_def value_of_def split: option.splits)

lemma empty_values_differ:
  "let s = brun [Assign_data 0 [1], Resize 0 0] cow_init in
     value_of s 0 = value_of s 1 \<and> bytes_compare s 0 1 = 1"
  by (simp add: brun_def cow_init_def none_handle_def assign_data_def exclusive_data_def bytes_resize_def
      new_data_def own_def put_data_def set_var_def set_mem_def value_of_def bytes_compare_def resize_to_def)

section \<open>Hexadecimal\<close>

text \<open>Characters are their ASCII bytes.\<close>

definition hex_upper_chars :: bytes where
  "hex_upper_chars = [48, 49, 50, 51, 52, 53, 54, 55, 56, 57, 65, 66, 67, 68, 69, 70]"

definition hex_lower_chars :: bytes where
  "hex_lower_chars = [48, 49, 50, 51, 52, 53, 54, 55, 56, 57, 97, 98, 99, 100, 101, 102]"

definition hex_from_byte :: "bool \<Rightarrow> u8 \<Rightarrow> bytes" where
  "hex_from_byte upper b =
    (let t = (if upper then hex_upper_chars else hex_lower_chars) in
     [t ! unat (drop_bit 4 (b AND 0xf0)), t ! unat (drop_bit 0 (b AND 0x0f))])"

definition to_hex :: "bool \<Rightarrow> bytes \<Rightarrow> bytes" where
  "to_hex upper bs = concat (map (hex_from_byte upper) bs)"

text \<open>The digit arithmetic is on \<open>int\<close>; the last byte of an odd count is dropped.\<close>

fun digits :: "bytes \<Rightarrow> bytes" where
  "digits (h # l # rest) =
     of_nat ((unat h mod 32 + 9) mod 25 * 16 + (unat l mod 32 + 9) mod 25) # digits rest"
| "digits _ = []"

definition assign_hex :: "nat \<Rightarrow> bytes \<Rightarrow> cow \<Rightarrow> cow" where
  "assign_hex v hex s =
    (if hex = [] then bytes_clear v s
     else if length hex div 2 = 0 then bytes_clear v s
     else fold (append_byte v) (digits hex) (put_data v [] (exclusive_data v False s)))"

definition append_hex :: "nat \<Rightarrow> bytes \<Rightarrow> cow \<Rightarrow> cow" where
  "append_hex v hex s =
    (if hex = [] then s else if length hex div 2 = 0 then s
     else fold (append_byte v) (digits hex) (exclusive_data v True s))"

lemma append_bytes:
  "cow_ok s \<Longrightarrow> value_of (fold (append_byte v) bs s) = (value_of s)(v := value_of s v @ bs)"
proof (induction bs arbitrary: s)
  case (Cons b bs)
  from bstep_refines [OF Cons.prems, of "Append_byte v b"]
  have "cow_ok (append_byte v b s)" "value_of (append_byte v b s) = (value_of s)(v := value_of s v @ [b])"
    by simp_all
  with Cons.IH [OF this(1)] show ?case by (simp add: fun_eq_iff)
qed simp

lemma digits_short: "length hex div 2 = 0 \<Longrightarrow> digits hex = []"
  by (cases hex rule: digits.cases) auto

lemma assign_hex_value: "cow_ok s \<Longrightarrow> value_of (assign_hex v hex s) = (value_of s)(v := digits hex)"
  using clear_facts [of s v] rewrite_facts [of s v "[]" False] append_bytes digits_short [of hex]
  by (auto simp: assign_hex_def)

lemma append_hex_value:
  "cow_ok s \<Longrightarrow> value_of (append_hex v hex s) = (value_of s)(v := value_of s v @ digits hex)"
  using exclusive_facts [where s = s and v = v and copy = True] append_bytes digits_short [of hex]
  by (auto simp: append_hex_def)

lemma hex_digit_value:
  "n < 16 \<Longrightarrow>
   (unat ((if upper then hex_upper_chars else hex_lower_chars) ! n) mod 32 + 9) mod 25 = n"
proof -
  assume n: "n < 16"
  have "list_all (\<lambda>n. (unat (hex_upper_chars ! n) mod 32 + 9) mod 25 = n \<and>
          (unat (hex_lower_chars ! n) mod 32 + 9) mod 25 = n) [0..<16]"
    by (simp add: hex_upper_chars_def hex_lower_chars_def upt_conv_Cons)
  with n show ?thesis by (simp add: list_all_iff)
qed

lemma high_nibble: "unat (drop_bit 4 (b AND 0xf0) :: u8) = unat b div 16"
proof -
  have "drop_bit 4 (b AND 0xf0) = drop_bit 4 b"
  proof (rule bit_word_eqI)
    fix n assume "n < LENGTH(8)"
    then have "n = 0 \<or> n = 1 \<or> n = 2 \<or> n = 3 \<or> n = 4 \<or> n = 5 \<or> n = 6 \<or> n = 7" by auto
    then show "bit (drop_bit 4 (b AND 0xf0)) n = bit (drop_bit 4 b) n"
      by (elim disjE) (auto simp: bit_simps dest: bit_imp_le_length)
  qed
  then show ?thesis by (simp only: unsigned_drop_bit_eq) (use unat_less [of b] in \<open>simp add: drop_bit_eq_div take_bit_eq_mod\<close>)
qed

lemma low_nibble: "unat (b AND 0x0f :: u8) = unat b mod 16"
proof -
  have "b AND 0x0f = take_bit 4 b" by (simp add: take_bit_eq_mask mask_eq_exp_minus_1)
  then have "unat (b AND 0x0f) = take_bit 4 (unat b)" by (simp only: unsigned_take_bit_eq)
  then show ?thesis by (simp add: take_bit_eq_mod)
qed

lemma digits_byte: "digits (hex_from_byte upper b @ rest) = b # digits rest"
proof -
  have "unat b div 16 < 16" "unat b mod 16 < 16" using unat_less [of b] by simp_all
  note v = hex_digit_value [OF this(1), of upper] hex_digit_value [OF this(2), of upper]
  have "unat b div 16 * 16 + unat b mod 16 = unat b" by simp
  then have "of_nat (unat b div 16 * 16 + unat b mod 16) = b" by simp
  then show ?thesis
    using v by (simp only: hex_from_byte_def Let_def high_nibble low_nibble drop_bit_0 id_apply
        append_Cons append_Nil digits.simps)
qed

text \<open>Parsing what \<open>toHex\<close> printed gives the bytes back, in either case of letters.\<close>

lemma digits_to_hex: "digits (to_hex upper bs) = bs"
  by (induction bs) (simp_all add: to_hex_def digits_byte)

lemma hex_roundtrip: "cow_ok s \<Longrightarrow> value_of (assign_hex v (to_hex upper (value_of s w)) s) v = value_of s w"
  by (simp add: assign_hex_value digits_to_hex)

end
