(* ===== verification/Crypto.thy ===== *)
theory Crypto
  imports RnsTypes
begin

text \<open>
  The symmetric cryptography: \<open>PKCS7.h\<close>, \<open>AES.h\<close>, \<open>HMAC.h\<close>, \<open>HKDF.cpp\<close>, \<open>Hashes.cpp\<close>, \<open>Token.cpp\<close>,
  \<open>Fernet.cpp\<close> and \<open>Crc.cpp\<close>.

  mbedTLS and the curve code are the record \<open>prims\<close>: AES-CBC on whole blocks, keyed digests, HKDF, the
  hashes, X25519 and Ed25519. A function that can report an error returns an option. Random bytes
  are arguments of the operations that draw them.
\<close>

section \<open>Primitives\<close>

datatype md = MD_NONE | MD_SHA256 | MD_SHA512

record prims =
  pr_aes :: "bool \<Rightarrow> bytes \<Rightarrow> bytes \<Rightarrow> bytes \<Rightarrow> bytes option"
  pr_hmac :: "md \<Rightarrow> bytes \<Rightarrow> bytes \<Rightarrow> bytes"
  pr_hmac_setup :: "md \<Rightarrow> bytes \<Rightarrow> bool"
  pr_hkdf :: "nat \<Rightarrow> bytes \<Rightarrow> bytes \<Rightarrow> bytes \<Rightarrow> bytes option"
  pr_sha256 :: "bytes \<Rightarrow> bytes"
  pr_sha512 :: "bytes \<Rightarrow> bytes"
  pr_x_base :: "bytes \<Rightarrow> bytes"
  pr_x_dh :: "bytes \<Rightarrow> bytes \<Rightarrow> bytes option"
  pr_ed_base :: "bytes \<Rightarrow> bytes"
  pr_ed_sign :: "bytes \<Rightarrow> bytes \<Rightarrow> bytes"
  pr_ed_open :: "bytes \<Rightarrow> bytes \<Rightarrow> bytes \<Rightarrow> bool"

text \<open>What mbedTLS documents of the two primitives the token rests on.\<close>

definition cbc_ok :: "prims \<Rightarrow> bool" where
  "cbc_ok c \<longleftrightarrow> (\<forall>k iv p. length k \<in> {16, 32} \<longrightarrow> length iv = 16 \<longrightarrow> p \<noteq> [] \<longrightarrow> 16 dvd length p \<longrightarrow>
     (\<exists>q. pr_aes c True k iv p = Some q \<and> length q = length p \<and> pr_aes c False k iv q = Some p))"

definition hmac_ok :: "prims \<Rightarrow> bool" where
  "hmac_ok c \<longleftrightarrow> (\<forall>k m. pr_hmac_setup c MD_SHA256 k \<and> length (pr_hmac c MD_SHA256 k m) = 32)"

section \<open>Padding\<close>

definition BLOCKSIZE :: nat where "BLOCKSIZE = 16"

definition pkcs7_pad :: "nat \<Rightarrow> bytes \<Rightarrow> bytes" where
  "pkcs7_pad bs d = (let padlen = bs - length d mod bs in d @ replicate padlen (of_nat padlen))"

text \<open>
  The pad length is the last byte; the other pad bytes are not looked at. A pad longer than the
  data makes \<open>len - padlen\<close> wrap, and \<open>resize\<close> throws.
\<close>

definition pkcs7_unpad :: "nat \<Rightarrow> bytes \<Rightarrow> bytes res" where
  "pkcs7_unpad bs d =
    rbind (if d = [] then Inl Undefined else Inr (unat (last d))) (\<lambda>padlen.
      if padlen > bs then Inl Runtime_error
      else if padlen > length d then Inl Length_error
      else Inr (take (length d - padlen) d))"

section \<open>AES-CBC\<close>

definition aes_cbc :: "prims \<Rightarrow> bool \<Rightarrow> bytes \<Rightarrow> bytes \<Rightarrow> bytes \<Rightarrow> nat \<Rightarrow> bytes res" where
  "aes_cbc c enc inp key iv keybits =
    (if length inp = 0 \<or> length inp mod 16 \<noteq> 0 then Inl Invalid_argument
     else if length key * 8 \<noteq> keybits then Inl Invalid_argument
     else if length iv \<noteq> 16 then Inl Invalid_argument
     else case pr_aes c enc key iv inp of None \<Rightarrow> Inl Runtime_error | Some out \<Rightarrow> Inr out)"

section \<open>Keyed digests\<close>

text \<open>The object keeps the key, the bytes fed since the last reset, and the digest.\<close>

record hmac =
  hm_md :: md
  hm_key :: bytes
  hm_fed :: bytes

definition hmac_update :: "bytes \<Rightarrow> hmac \<Rightarrow> hmac" where
  "hmac_update m h = h\<lparr>hm_fed := hm_fed h @ m\<rparr>"

definition hmac_new :: "prims \<Rightarrow> bytes \<Rightarrow> bytes \<Rightarrow> md \<Rightarrow> hmac res" where
  "hmac_new c key msg m =
    (if m = MD_NONE then Inl Invalid_argument
     else if \<not> pr_hmac_setup c m key then Inl Runtime_error
     else let h = \<lparr>hm_md = m, hm_key = key, hm_fed = []\<rparr> in
       Inr (if msg \<noteq> [] then hmac_update msg h else h))"

definition hmac_digest :: "prims \<Rightarrow> hmac \<Rightarrow> bytes \<times> hmac" where
  "hmac_digest c h = (pr_hmac c (hm_md h) (hm_key h) (hm_fed h), h\<lparr>hm_fed := []\<rparr>)"

definition hmac_sha256 :: "prims \<Rightarrow> bytes \<Rightarrow> bytes \<Rightarrow> bytes res" where
  "hmac_sha256 c key msg = rbind (hmac_new c key msg MD_SHA256) (\<lambda>h. Inr (fst (hmac_digest c h)))"

text \<open>The free function \<open>digest\<close>, which feeds the message a second time.\<close>

definition digest :: "prims \<Rightarrow> bytes \<Rightarrow> bytes \<Rightarrow> md \<Rightarrow> bytes res" where
  "digest c key msg m =
    rbind (hmac_new c key msg m) (\<lambda>h. Inr (fst (hmac_digest c (hmac_update msg h))))"

definition hkdf :: "prims \<Rightarrow> nat \<Rightarrow> bytes \<Rightarrow> bytes \<Rightarrow> bytes \<Rightarrow> bytes res" where
  "hkdf c len derive_from salt ctx =
    (if len = 0 then Inl Invalid_argument
     else if derive_from = [] then Inl Invalid_argument
     else case pr_hkdf c len salt derive_from ctx of None \<Rightarrow> Inl Runtime_error | Some k \<Rightarrow> Inr k)"

section \<open>Tokens\<close>

datatype token_mode = MODE_AES | MODE_AES_128_CBC | MODE_AES_256_CBC

record token =
  tk_mode :: token_mode
  tk_signing_key :: bytes
  tk_encryption_key :: bytes

definition token_new :: "bytes \<Rightarrow> token_mode \<Rightarrow> token res" where
  "token_new key mode =
    (if key = [] then Inl Invalid_argument
     else if mode = MODE_AES then
       (if length key = 32 then
          Inr \<lparr>tk_mode = MODE_AES_128_CBC, tk_signing_key = bleft 16 key, tk_encryption_key = bmid 16 key\<rparr>
        else if length key = 64 then
          Inr \<lparr>tk_mode = MODE_AES_256_CBC, tk_signing_key = bleft 32 key, tk_encryption_key = bmid 32 key\<rparr>
        else Inl Invalid_argument)
     else Inl Invalid_argument)"

definition verify_hmac :: "prims \<Rightarrow> bytes \<Rightarrow> bytes \<Rightarrow> bool res" where
  "verify_hmac c signing_key tok =
    (if length tok \<le> 32 then Inl Invalid_argument
     else rbind (hmac_sha256 c signing_key (bleft (length tok - 32) tok)) (\<lambda>expected.
       Inr (bright 32 tok = expected)))"

definition aes_mode :: "prims \<Rightarrow> bool \<Rightarrow> token_mode \<Rightarrow> bytes \<Rightarrow> bytes \<Rightarrow> bytes \<Rightarrow> bytes res" where
  "aes_mode c enc m inp key iv =
    (if m = MODE_AES_128_CBC then aes_cbc c enc inp key iv 128
     else if m = MODE_AES_256_CBC then aes_cbc c enc inp key iv 256
     else Inl Invalid_argument)"

definition token_encrypt :: "prims \<Rightarrow> bytes \<Rightarrow> bytes \<Rightarrow> token \<Rightarrow> bytes res" where
  "token_encrypt c iv d t =
    rbind (aes_mode c True (tk_mode t) (pkcs7_pad BLOCKSIZE d) (tk_encryption_key t) iv) (\<lambda>ciphertext.
      rbind (hmac_sha256 c (tk_signing_key t) (iv @ ciphertext)) (\<lambda>sig.
        Inr ((iv @ ciphertext) @ sig)))"

text \<open>The inner \<open>catch\<close> turns every failure behind the HMAC check into one kind.\<close>

definition token_decrypt :: "prims \<Rightarrow> bytes \<Rightarrow> token \<Rightarrow> bytes res" where
  "token_decrypt c tok t =
    (if length tok < 48 then Inl Invalid_argument
     else rbind (verify_hmac c (tk_signing_key t) tok) (\<lambda>good.
       if \<not> good then Inl Invalid_argument
       else let iv = bleft 16 tok; ciphertext = bmid_len 16 (length tok - 48) tok in
         (case rbind (aes_mode c False (tk_mode t) ciphertext (tk_encryption_key t) iv) (pkcs7_unpad BLOCKSIZE) of
            Inl e \<Rightarrow> Inl Runtime_error
          | Inr p \<Rightarrow> Inr p)))"

definition token_generate_key :: "bytes \<Rightarrow> token_mode \<Rightarrow> bytes res" where
  "token_generate_key random mode =
    (if mode = MODE_AES_128_CBC then Inr (take 32 random)
     else if mode = MODE_AES_256_CBC then Inr (take 64 random)
     else Inl Invalid_argument)"

section \<open>Fernet\<close>

record fernet =
  fn_signing_key :: bytes
  fn_encryption_key :: bytes

definition fernet_new :: "bytes \<Rightarrow> fernet res" where
  "fernet_new key =
    (if key = [] then Inl Invalid_argument
     else if length key \<noteq> 32 then Inl Invalid_argument
     else Inr \<lparr>fn_signing_key = bleft 16 key, fn_encryption_key = bmid 16 key\<rparr>)"

definition fernet_verify_hmac :: "prims \<Rightarrow> fernet \<Rightarrow> bytes \<Rightarrow> bool res" where
  "fernet_verify_hmac c f tok =
    (if length tok \<le> 32 then Inl Invalid_argument
     else rbind (hmac_sha256 c (fn_signing_key f) (bleft (length tok - 32) tok)) (\<lambda>expected.
       Inr (bright 32 tok = expected)))"

definition fernet_encrypt :: "prims \<Rightarrow> bytes \<Rightarrow> bytes \<Rightarrow> fernet \<Rightarrow> bytes res" where
  "fernet_encrypt c iv d f =
    rbind (aes_cbc c True (pkcs7_pad BLOCKSIZE d) (fn_encryption_key f) iv 128) (\<lambda>ciphertext.
      rbind (hmac_sha256 c (fn_signing_key f) (iv @ ciphertext)) (\<lambda>sig.
        Inr ((iv @ ciphertext) @ sig)))"

definition fernet_decrypt :: "prims \<Rightarrow> bytes \<Rightarrow> fernet \<Rightarrow> bytes res" where
  "fernet_decrypt c tok f =
    (if length tok < 48 then Inl Invalid_argument
     else rbind (fernet_verify_hmac c f tok) (\<lambda>good.
       if \<not> good then Inl Invalid_argument
       else let iv = bleft 16 tok; ciphertext = bmid_len 16 (length tok - 48) tok in
         (case rbind (aes_cbc c False ciphertext (fn_encryption_key f) iv 128) (pkcs7_unpad BLOCKSIZE) of
            Inl e \<Rightarrow> Inl Runtime_error
          | Inr p \<Rightarrow> Inr p)))"

section \<open>Curve keys\<close>

text \<open>
  The wrappers \<open>X25519.h\<close> and \<open>Ed25519.h\<close>. Constructing a private key from no bytes draws a random one.
\<close>

definition x_private :: "bytes \<Rightarrow> bytes \<Rightarrow> bytes res" where
  "x_private random prv =
    (if prv \<noteq> [] then (if length prv \<noteq> 32 then Inl Invalid_argument else Inr prv) else Inr (take 32 random))"

definition x_exchange :: "prims \<Rightarrow> bytes \<Rightarrow> bytes \<Rightarrow> bytes res" where
  "x_exchange c prv peer =
    (if length peer \<noteq> 32 then Inl Invalid_argument
     else case pr_x_dh c prv peer of None \<Rightarrow> Inl Runtime_error | Some s \<Rightarrow> Inr s)"

definition ed_private :: "bytes \<Rightarrow> bytes \<Rightarrow> bytes res" where
  "ed_private random prv =
    (if prv \<noteq> [] then (if length prv \<noteq> 32 then Inl Invalid_argument else Inr prv) else Inr (take 32 random))"

definition ed_verify :: "prims \<Rightarrow> bytes \<Rightarrow> bytes \<Rightarrow> bytes \<Rightarrow> bool" where
  "ed_verify c pub sig msg =
    (if length sig \<noteq> 64 \<or> length pub \<noteq> 32 then False else pr_ed_open c pub sig msg)"

section \<open>Checksum\<close>

definition crc_bit :: "u32 \<Rightarrow> u32" where
  "crc_bit r = (if r AND 1 \<noteq> 0 then drop_bit 1 r XOR 0xedb88320 else drop_bit 1 r)"

definition crc_byte :: "u8 \<Rightarrow> u32 \<Rightarrow> u32" where
  "crc_byte b r = (crc_bit ^^ 8) (r XOR ucast b)"

text \<open>A null buffer is the checksum 0; an empty one that is not null leaves the running value.\<close>

definition crc32 :: "u32 \<Rightarrow> bytes option \<Rightarrow> u32" where
  "crc32 crc buf =
    (case buf of None \<Rightarrow> 0 | Some bs \<Rightarrow> fold crc_byte bs (crc XOR 0xffffffff) XOR 0xffffffff)"

section \<open>Padding is undone\<close>

lemma pad_length: "0 < bs \<Longrightarrow> length (pkcs7_pad bs d) = (length d div bs + 1) * bs"
proof -
  assume "0 < bs"
  then have "length d mod bs \<le> bs" by (simp add: less_imp_le)
  then have "length (pkcs7_pad bs d) = length d - length d mod bs + bs"
    by (simp add: pkcs7_pad_def Let_def)
  then show ?thesis by (simp add: minus_mod_eq_div_mult)
qed

lemma pad_blocks: "pkcs7_pad BLOCKSIZE d \<noteq> []" "length (pkcs7_pad BLOCKSIZE d) = (length d div 16 + 1) * 16"
  using pad_length [of 16 d] by (auto simp: BLOCKSIZE_def)

lemma unpad_pad: "0 < bs \<Longrightarrow> bs < 256 \<Longrightarrow> pkcs7_unpad bs (pkcs7_pad bs d) = Inr d"
proof -
  assume bs: "0 < bs" "bs < 256"
  define k where "k = bs - length d mod bs"
  have k: "0 < k" "k \<le> bs" using bs by (simp_all add: k_def)
  have u: "unat (of_nat k :: u8) = k" using k bs by (simp add: unat_of_nat)
  have "last (d @ replicate k (of_nat k :: u8)) = of_nat k" using k by simp
  then show ?thesis
    using k u by (simp add: pkcs7_pad_def pkcs7_unpad_def k_def [symmetric])
qed

text \<open>Only the last pad byte counts, and a pad of no bytes is taken as well.\<close>

lemma unpad_lenient:
  "pkcs7_unpad 16 [1, 2, 3, 7, 7, 3] = Inr [1, 2, 3]" "pkcs7_unpad 16 [1, 2, 0] = Inr [1, 2, 0]"
  by (simp_all add: pkcs7_unpad_def)

section \<open>Sealing\<close>

text \<open>
  What the layers above ask of a token: it opens to what was sealed, and its size is known. The
  two implementations, \<open>Token\<close> and \<open>Fernet\<close>, are the interpretations.
\<close>

locale sealing =
  fixes ok :: "prims \<Rightarrow> 'k \<Rightarrow> bool"
    and seal :: "prims \<Rightarrow> bytes \<Rightarrow> bytes \<Rightarrow> 'k \<Rightarrow> bytes res"
    and unseal :: "prims \<Rightarrow> bytes \<Rightarrow> 'k \<Rightarrow> bytes res"
  assumes sealed: "ok c k \<Longrightarrow> length iv = 16 \<Longrightarrow>
    \<exists>t. seal c iv p k = Inr t \<and> unseal c t k = Inr p \<and> length t = TOKEN_OVERHEAD + (length p div 16 + 1) * 16"
begin

lemma opens: "ok c k \<Longrightarrow> length iv = 16 \<Longrightarrow> seal c iv p k = Inr t \<Longrightarrow> unseal c t k = Inr p"
  using sealed [of c k iv p] by auto

lemma size_eq:
  "ok c k \<Longrightarrow> length iv = 16 \<Longrightarrow> seal c iv p k = Inr t \<Longrightarrow>
   length t = TOKEN_OVERHEAD + (length p div 16 + 1) * 16"
  using sealed [of c k iv p] by auto

lemma one_plaintext:
  assumes "ok c k" "length iv = 16" "length iv' = 16" "seal c iv p k = Inr t" "seal c iv' p' k = Inr t"
  shows "p = p'"
  using opens [OF assms(1,2,4)] opens [OF assms(1,3,5)] by simp

lemma fits:
  assumes "ok c k" "length iv = 16" "seal c iv p k = Inr t"
  shows "length t \<le> TOKEN_OVERHEAD + 16 * n \<longleftrightarrow> length p < 16 * n"
proof -
  have "length p div 16 < n \<longleftrightarrow> length p < n * 16" by (rule div_less_iff_less_mult) simp
  then have "(length p div 16 + 1) * 16 \<le> 16 * n \<longleftrightarrow> length p < 16 * n" by auto
  then show ?thesis by (simp add: size_eq [OF assms])
qed

end

definition token_ok :: "prims \<Rightarrow> token \<Rightarrow> bool" where
  "token_ok c t \<longleftrightarrow> cbc_ok c \<and> hmac_ok c \<and>
    (tk_mode t = MODE_AES_128_CBC \<and> length (tk_encryption_key t) = 16 \<or>
     tk_mode t = MODE_AES_256_CBC \<and> length (tk_encryption_key t) = 32)"

definition fernet_ok :: "prims \<Rightarrow> fernet \<Rightarrow> bool" where
  "fernet_ok c f \<longleftrightarrow> cbc_ok c \<and> hmac_ok c \<and> length (fn_encryption_key f) = 16"

lemma token_new_ok:
  "cbc_ok c \<Longrightarrow> hmac_ok c \<Longrightarrow> token_new key mode = Inr t \<Longrightarrow> token_ok c t"
  by (auto simp: token_new_def token_ok_def slice_simps split: if_splits)

lemma hmac_sha256_ok:
  assumes "hmac_ok c"
  shows "hmac_sha256 c key msg = Inr (pr_hmac c MD_SHA256 key msg)" "length (pr_hmac c MD_SHA256 key msg) = 32"
  using assms by (auto simp: hmac_ok_def hmac_sha256_def hmac_new_def hmac_digest_def hmac_update_def Let_def)

lemma aes_mode_ok:
  assumes "token_ok c t" and "length iv = 16" and "p \<noteq> []" and "16 dvd length p"
  shows "\<exists>q. aes_mode c True (tk_mode t) p (tk_encryption_key t) iv = Inr q \<and> length q = length p \<and>
           aes_mode c False (tk_mode t) q (tk_encryption_key t) iv = Inr p"
proof -
  have k: "length (tk_encryption_key t) \<in> {16, 32}" and c: "cbc_ok c"
    using assms(1) by (auto simp: token_ok_def)
  obtain q where q: "pr_aes c True (tk_encryption_key t) iv p = Some q" "length q = length p"
      "pr_aes c False (tk_encryption_key t) iv q = Some p"
    using c k assms(2-4) unfolding cbc_ok_def by blast
  have "length p mod 16 = 0" using assms(4) by (simp add: dvd_eq_mod_eq_0)
  with q assms show ?thesis
    by (auto simp: aes_mode_def aes_cbc_def token_ok_def)
qed

lemma token_sealed:
  assumes t: "token_ok c t" and iv: "length iv = 16"
  shows "\<exists>tok. token_encrypt c iv p t = Inr tok \<and> token_decrypt c tok t = Inr p \<and>
           length tok = TOKEN_OVERHEAD + (length p div 16 + 1) * 16"
proof -
  have h: "hmac_ok c" using t by (simp add: token_ok_def)
  obtain q where q: "aes_mode c True (tk_mode t) (pkcs7_pad BLOCKSIZE p) (tk_encryption_key t) iv = Inr q"
      "length q = (length p div 16 + 1) * 16"
      "aes_mode c False (tk_mode t) q (tk_encryption_key t) iv = Inr (pkcs7_pad BLOCKSIZE p)"
    using aes_mode_ok [OF t iv pad_blocks(1) [of p]] pad_blocks(2) [of p] by auto
  define sig where "sig = pr_hmac c MD_SHA256 (tk_signing_key t) (iv @ q)"
  define tok where "tok = (iv @ q) @ sig"
  have sig: "length sig = 32" using hmac_sha256_ok(2) [OF h] by (simp add: sig_def)
  have enc: "token_encrypt c iv p t = Inr tok"
    using q(1) hmac_sha256_ok(1) [OF h] by (simp add: token_encrypt_def tok_def sig_def)
  have len: "length tok = TOKEN_OVERHEAD + (length p div 16 + 1) * 16"
    using iv q(2) sig by (simp add: tok_def TOKEN_OVERHEAD_def)
  have parts: "bleft (length tok - 32) tok = iv @ q" "bright 32 tok = sig" "bleft 16 tok = iv"
      "bmid_len 16 (length tok - 48) tok = q"
    using iv sig by (simp_all add: tok_def slice_simps)
  have "\<not> length tok \<le> 32" using len by (simp add: TOKEN_OVERHEAD_def)
  then have "verify_hmac c (tk_signing_key t) tok = Inr True"
    using hmac_sha256_ok(1) [OF h] unfolding verify_hmac_def parts by (simp add: sig_def)
  moreover have "\<not> length tok < 48" using len by (simp add: TOKEN_OVERHEAD_def)
  moreover have "pkcs7_unpad BLOCKSIZE (pkcs7_pad BLOCKSIZE p) = Inr p"
    by (rule unpad_pad) (simp_all add: BLOCKSIZE_def)
  ultimately have "token_decrypt c tok t = Inr p"
    using q(3) unfolding token_decrypt_def parts by simp
  with enc len show ?thesis by blast
qed

interpretation tok: sealing token_ok token_encrypt token_decrypt
  by unfold_locales (rule token_sealed)

text \<open>Fernet is the 128-bit token with the length of its key checked.\<close>

definition fernet_token :: "fernet \<Rightarrow> token" where
  "fernet_token f = \<lparr>tk_mode = MODE_AES_128_CBC, tk_signing_key = fn_signing_key f,
     tk_encryption_key = fn_encryption_key f\<rparr>"

lemma fernet_token_simps [simp]:
  "tk_mode (fernet_token f) = MODE_AES_128_CBC" "tk_signing_key (fernet_token f) = fn_signing_key f"
  "tk_encryption_key (fernet_token f) = fn_encryption_key f"
  by (simp_all add: fernet_token_def)

lemma aes_mode_128: "aes_mode c e MODE_AES_128_CBC inp key iv = aes_cbc c e inp key iv 128"
  by (simp add: aes_mode_def)

lemma fernet_is_token:
  "fernet_encrypt c iv p f = token_encrypt c iv p (fernet_token f)"
  "fernet_decrypt c tok f = token_decrypt c tok (fernet_token f)"
  "length key = 32 \<Longrightarrow> map_sum id fernet_token (fernet_new key) = token_new key MODE_AES"
  unfolding fernet_encrypt_def fernet_decrypt_def token_encrypt_def token_decrypt_def
    fernet_verify_hmac_def verify_hmac_def fernet_token_simps aes_mode_128
  by (simp_all add: fernet_new_def token_new_def fernet_token_def)

interpretation fer: sealing fernet_ok fernet_encrypt fernet_decrypt
proof unfold_locales
  fix c k and iv p :: bytes
  assume "fernet_ok c k" and iv: "length iv = 16"
  then have "token_ok c (fernet_token k)" by (simp add: fernet_ok_def token_ok_def fernet_token_def)
  from token_sealed [OF this iv, of p]
  show "\<exists>t. fernet_encrypt c iv p k = Inr t \<and> fernet_decrypt c t k = Inr p \<and>
      length t = TOKEN_OVERHEAD + (length p div 16 + 1) * 16"
    by (simp add: fernet_is_token)
qed

section \<open>What opens a token\<close>

text \<open>
  The exact condition for \<open>decrypt\<close> to return: the last 32 bytes are the HMAC of all the others under
  the signing key, and the middle is whole blocks whose plaintext ends in a length of at most 16.
\<close>

lemma verify_hmac_iff:
  assumes "hmac_ok c"
  shows "verify_hmac c k tok = Inr True \<longleftrightarrow>
    (\<exists>body. body \<noteq> [] \<and> tok = body @ pr_hmac c MD_SHA256 k body)"
proof
  assume "verify_hmac c k tok = Inr True"
  then have "32 < length tok" "drop (length tok - 32) tok = pr_hmac c MD_SHA256 k (take (length tok - 32) tok)"
    by (auto simp: verify_hmac_def hmac_sha256_ok(1) [OF assms] slice_simps split: if_splits)
  moreover from this(1) have "take (length tok - 32) tok \<noteq> []" by auto
  ultimately show "\<exists>body. body \<noteq> [] \<and> tok = body @ pr_hmac c MD_SHA256 k body"
    by (metis append_take_drop_id)
next
  assume "\<exists>body. body \<noteq> [] \<and> tok = body @ pr_hmac c MD_SHA256 k body"
  then obtain body where b: "body \<noteq> []" "tok = body @ pr_hmac c MD_SHA256 k body" by blast
  have "length tok = length body + 32" using b(2) hmac_sha256_ok(2) [OF assms, of k body] by simp
  then show "verify_hmac c k tok = Inr True"
    using b hmac_sha256_ok [OF assms, of k body] by (simp add: verify_hmac_def slice_simps)
qed

lemma token_decrypt_genuine:
  assumes "hmac_ok c" and "token_decrypt c tok t = Inr p"
  shows "\<exists>iv q. length iv = 16 \<and> tok = iv @ q @ pr_hmac c MD_SHA256 (tk_signing_key t) (iv @ q) \<and>
    rbind (aes_mode c False (tk_mode t) q (tk_encryption_key t) iv) (pkcs7_unpad BLOCKSIZE) = Inr p"
proof -
  from assms(2) have v: "verify_hmac c (tk_signing_key t) tok = Inr True" and l: "48 \<le> length tok"
    and d: "rbind (aes_mode c False (tk_mode t) (bmid_len 16 (length tok - 48) tok) (tk_encryption_key t)
              (bleft 16 tok)) (pkcs7_unpad BLOCKSIZE) = Inr p"
    by (auto simp: token_decrypt_def Let_def rbind_eq_Inr split: if_splits sum.splits)
  from v obtain body where body: "tok = body @ pr_hmac c MD_SHA256 (tk_signing_key t) body"
    using verify_hmac_iff [OF assms(1)] by blast
  then have lb: "length tok = length body + 32"
    using hmac_sha256_ok(2) [OF assms(1), of "tk_signing_key t" body] by simp
  have "bleft 16 tok = take 16 body" "bmid_len 16 (length tok - 48) tok = drop 16 body"
    using body l lb by (simp_all add: slice_simps)
  then show ?thesis
    using body d l lb by (intro exI [of _ "take 16 body"] exI [of _ "drop 16 body"]) simp
qed

section \<open>Digests and checksums\<close>

text \<open>\<open>digest\<close> feeds the message to a constructor that has fed it already.\<close>

lemma digest_doubles:
  "pr_hmac_setup c m k \<Longrightarrow> m \<noteq> MD_NONE \<Longrightarrow> msg \<noteq> [] \<Longrightarrow> digest c k msg m = Inr (pr_hmac c m k (msg @ msg))"
  by (simp add: digest_def hmac_new_def hmac_digest_def hmac_update_def)

text \<open>The checksum of a file is that of its parts, chained: \<open>File\<close> keeps it across its reads and writes.\<close>

lemma crc32_append: "crc32 (crc32 r (Some a)) (Some b) = crc32 r (Some (a @ b))"
  by (simp add: crc32_def xor.assoc)

lemma crc32_empty: "crc32 r (Some []) = r" "crc32 r None = 0"
  by (simp_all add: crc32_def xor.assoc)

section \<open>Documented behaviour of the other primitives\<close>

text \<open>\<open>toy_prims\<close> satisfies all the laws: the concrete instances use it.\<close>

definition dh_ok :: "prims \<Rightarrow> bool" where
  "dh_ok c \<longleftrightarrow> (\<forall>a b. length a = 32 \<longrightarrow> length b = 32 \<longrightarrow>
     length (pr_x_base c a) = 32 \<and>
     (\<exists>s. length s = 32 \<and> pr_x_dh c a (pr_x_base c b) = Some s \<and> pr_x_dh c b (pr_x_base c a) = Some s))"

text \<open>
  \<open>mbedtls_hkdf\<close> follows RFC 5869: it yields at most 255 blocks of the hash's 32 bytes, and fails on a
  longer request.
\<close>

definition HKDF_MAX :: nat where "HKDF_MAX = 255 * 32"

definition hkdf_ok :: "prims \<Rightarrow> bool" where
  "hkdf_ok c \<longleftrightarrow> (\<forall>n s m x. 0 < n \<longrightarrow> n \<le> HKDF_MAX \<longrightarrow> m \<noteq> [] \<longrightarrow>
     (\<exists>k. length k = n \<and> pr_hkdf c n s m x = Some k))"

definition sig_ok :: "prims \<Rightarrow> bool" where
  "sig_ok c \<longleftrightarrow> (\<forall>sk m. length sk = 32 \<longrightarrow> length (pr_ed_base c sk) = 32 \<and>
     length (pr_ed_sign c sk m) = 64 \<and> pr_ed_open c (pr_ed_base c sk) (pr_ed_sign c sk m) m)"

definition sha_ok :: "prims \<Rightarrow> bool" where
  "sha_ok c \<longleftrightarrow> (\<forall>m. length (pr_sha256 c m) = 32)"

definition pad32 :: "bytes \<Rightarrow> bytes" where
  "pad32 b = take 32 (b @ replicate 32 0)"

definition toy_prims :: prims where
  "toy_prims = \<lparr>pr_aes = \<lambda>e k iv p. Some p, pr_hmac = \<lambda>m k d. pad32 (k @ d), pr_hmac_setup = \<lambda>m k. True,
     pr_hkdf = \<lambda>n s m x. if n \<le> HKDF_MAX then Some (take n (m @ s @ replicate n 0)) else None, pr_sha256 = pad32,
     pr_sha512 = \<lambda>b. take 64 (b @ replicate 64 0), pr_x_base = id,
     pr_x_dh = \<lambda>a b. Some (map2 (XOR) (pad32 a) (pad32 b)), pr_ed_base = id,
     pr_ed_sign = \<lambda>k m. take 64 (k @ m @ replicate 64 0),
     pr_ed_open = \<lambda>k s m. s = take 64 (k @ m @ replicate 64 0)\<rparr>"

lemma length_pad32 [simp]: "length (pad32 b) = 32"
  by (simp add: pad32_def)

lemma pad32_id: "length b = 32 \<Longrightarrow> pad32 b = b"
  by (simp add: pad32_def)

lemma toy_laws: "cbc_ok toy_prims" "hmac_ok toy_prims" "dh_ok toy_prims" "hkdf_ok toy_prims"
  "sig_ok toy_prims" "sha_ok toy_prims"
proof -
  have "map2 (XOR) a b = map2 (XOR) b a" for a b :: bytes
    by (rule nth_equalityI) (simp_all add: xor.commute)
  then show "dh_ok toy_prims" by (simp add: dh_ok_def toy_prims_def pad32_id)
qed (auto simp: cbc_ok_def hmac_ok_def hkdf_ok_def sig_ok_def sha_ok_def toy_prims_def min_def)

section \<open>Properties of tokens\<close>

text \<open>
  C32: a token opens to what was sealed in it, and the size constants are exact: a sealed plaintext fits
  a link packet of the network's MTU, with its header and an interface access code of the
  minimum size, if and only if it has at most \<open>Link::MDU\<close> bytes.
\<close>

theorem token_roundtrip:
  assumes "token_ok c t" and "length iv = 16"
  shows "\<exists>tok. token_encrypt c iv p t = Inr tok \<and> token_decrypt c tok t = Inr p \<and>
    (HEADER_MINSIZE + length tok + IFAC_MIN_SIZE \<le> unat MTU \<longleftrightarrow> length p \<le> LINK_MDU)"
proof -
  obtain tok where tok: "token_encrypt c iv p t = Inr tok" "token_decrypt c tok t = Inr p"
    using tok.sealed [OF assms, of p] by blast
  have "length tok \<le> TOKEN_OVERHEAD + 16 * 27 \<longleftrightarrow> length p < 16 * 27"
    by (rule tok.fits [OF assms tok(1)])
  moreover have "length tok = TOKEN_OVERHEAD + (length p div 16 + 1) * 16"
    by (rule tok.size_eq [OF assms tok(1)])
  moreover have "HEADER_MINSIZE + length tok + IFAC_MIN_SIZE \<le> unat MTU \<longleftrightarrow>
      length tok \<le> TOKEN_OVERHEAD + 16 * 27" if "length tok = TOKEN_OVERHEAD + (length p div 16 + 1) * 16"
    using that by (simp add: const_values IFAC_MIN_SIZE_def TOKEN_OVERHEAD_def)
  ultimately show ?thesis using tok by (auto simp: const_values)
qed

definition sample_token :: token where
  "sample_token = \<lparr>tk_mode = MODE_AES_256_CBC, tk_signing_key = replicate 32 1, tk_encryption_key = replicate 32 2\<rparr>"

lemma sample_token_ok: "token_ok toy_prims sample_token"
  using toy_laws by (simp add: token_ok_def sample_token_def)

lemma token_roundtrip_witness:
  "\<exists>tok. token_encrypt toy_prims (replicate 16 9) [1, 2, 3] sample_token = Inr tok \<and>
     token_decrypt toy_prims tok sample_token = Inr [1, 2, 3]"
  using token_roundtrip [OF sample_token_ok, of "replicate 16 9" "[1, 2, 3]"] by auto

text \<open>
  C13: nothing opens without the signing key's HMAC. A token that \<open>decrypt\<close> returns from is an
  initialisation vector and ciphertext followed by the HMAC of exactly these bytes under the signing
  key, and its plaintext is what the cipher and the padding give for them: a changed byte
  anywhere asks for another HMAC.
\<close>

theorem token_genuine:
  assumes "hmac_ok c" and "token_decrypt c tok t = Inr p"
  shows "\<exists>iv q. length iv = 16 \<and> tok = iv @ q @ pr_hmac c MD_SHA256 (tk_signing_key t) (iv @ q) \<and>
    q \<noteq> [] \<and> 16 dvd length q \<and>
    rbind (aes_mode c False (tk_mode t) q (tk_encryption_key t) iv) (pkcs7_unpad BLOCKSIZE) = Inr p"
proof -
  obtain iv q where q: "length iv = 16" "tok = iv @ q @ pr_hmac c MD_SHA256 (tk_signing_key t) (iv @ q)"
      "rbind (aes_mode c False (tk_mode t) q (tk_encryption_key t) iv) (pkcs7_unpad BLOCKSIZE) = Inr p"
    using token_decrypt_genuine [OF assms] by blast
  then have "q \<noteq> [] \<and> 16 dvd length q"
    by (auto simp: aes_mode_def aes_cbc_def dvd_eq_mod_eq_0 split: if_splits)
  with q show ?thesis by blast
qed

lemma token_genuine_witness:
  "\<exists>tok iv q. token_decrypt toy_prims tok sample_token = Inr [1, 2, 3] \<and>
     tok = iv @ q @ pr_hmac toy_prims MD_SHA256 (replicate 32 1) (iv @ q)"
proof -
  obtain tok where "token_decrypt toy_prims tok sample_token = Inr [1, 2, 3]"
    using tok.sealed [OF sample_token_ok, of "replicate 16 9" "[1, 2, 3]"] by auto
  with token_genuine [OF toy_laws(2) this] show ?thesis by (auto simp: sample_token_def)
qed

end
