(* ===== verification/Identity.thy ===== *)
theory Identity
  imports Crypto BytesCow Packet DirStore
begin

text \<open>
  Identities: \<open>Identity.cpp\<close> and \<open>Identity.h\<close>. Key loading, signing, encryption to an identity or to
  one of its ratchets, and the checks on a received announce.

  The key objects \<open>_prv\<close>, \<open>_sig_prv\<close>, \<open>_pub\<close> and \<open>_sig_pub\<close> are optional byte strings, \<open>None\<close> the null
  pointer. Key files (\<open>load\<close>, \<open>to_file\<close>, \<open>from_file\<close>) are outside: they read or write the bytes of
  \<open>get_private_key\<close>. What is known of other destinations is the directory of \<open>DirStore\<close>.
\<close>

section \<open>State\<close>

record identity =
  iy_prv :: "bytes option"
  iy_prv_bytes :: bytes
  iy_sig_prv :: "bytes option"
  iy_sig_prv_bytes :: bytes
  iy_pub :: "bytes option"
  iy_pub_bytes :: bytes
  iy_sig_pub :: "bytes option"
  iy_sig_pub_bytes :: bytes
  iy_hash :: bytes
  iy_hexhash :: bytes
  iy_app_data :: bytes

definition identity_object :: identity where
  "identity_object = \<lparr>iy_prv = None, iy_prv_bytes = [], iy_sig_prv = None, iy_sig_prv_bytes = [],
     iy_pub = None, iy_pub_bytes = [], iy_sig_pub = None, iy_sig_pub_bytes = [], iy_hash = [],
     iy_hexhash = [], iy_app_data = []\<rparr>"

definition IDENT_KEYSIZE :: nat where "IDENT_KEYSIZE = 256 * 2"
definition RATCHETSIZE :: nat where "RATCHETSIZE = 256"
definition RATCHET_EXPIRY :: u32 where "RATCHET_EXPIRY = 60 * 60 * 24 * 30"
definition NAME_HASH_LENGTH :: nat where "NAME_HASH_LENGTH = 80"
definition RANDOM_HASH_LENGTH :: nat where "RANDOM_HASH_LENGTH = 80"
definition DERIVED_KEY_LENGTH :: nat where "DERIVED_KEY_LENGTH = 512 div 8"

lemmas identity_consts = IDENT_KEYSIZE_def RATCHETSIZE_def NAME_HASH_LENGTH_def RANDOM_HASH_LENGTH_def
  DERIVED_KEY_LENGTH_def SIGLENGTH_def TRUNCATED_HASHLENGTH_def

section \<open>Keys\<close>

definition full_hash :: "prims \<Rightarrow> bytes \<Rightarrow> bytes" where
  "full_hash c d = pr_sha256 c d"

definition truncated_hash :: "prims \<Rightarrow> bytes \<Rightarrow> bytes" where
  "truncated_hash c d = bleft (TRUNCATED_HASHLENGTH div 8) (full_hash c d)"

definition get_private_key :: "identity \<Rightarrow> bytes" where
  "get_private_key i = iy_prv_bytes i @ iy_sig_prv_bytes i"

definition get_public_key :: "identity \<Rightarrow> bytes" where
  "get_public_key i = iy_pub_bytes i @ iy_sig_pub_bytes i"

definition update_hashes :: "prims \<Rightarrow> identity \<Rightarrow> identity" where
  "update_hashes c i =
    (let h = truncated_hash c (get_public_key i) in i\<lparr>iy_hash := h, iy_hexhash := to_hex False h\<rparr>)"

text \<open>The public halves, once both private keys are there.\<close>

definition derive_public :: "prims \<Rightarrow> bytes \<Rightarrow> bytes \<Rightarrow> identity \<Rightarrow> identity" where
  "derive_public c k sk i =
    update_hashes c (i\<lparr>iy_pub := Some (pr_x_base c k), iy_pub_bytes := pr_x_base c k,
      iy_sig_pub := Some (pr_ed_base c sk), iy_sig_pub_bytes := pr_ed_base c sk\<rparr>)"

definition create_keys :: "prims \<Rightarrow> bytes \<Rightarrow> bytes \<Rightarrow> identity \<Rightarrow> identity" where
  "create_keys c r1 r2 i =
    derive_public c (take 32 r1) (take 32 r2)
      (i\<lparr>iy_prv := Some (take 32 r1), iy_prv_bytes := take 32 r1,
         iy_sig_prv := Some (take 32 r2), iy_sig_prv_bytes := take 32 r2\<rparr>)"

definition load_private_key :: "prims \<Rightarrow> bytes \<Rightarrow> bytes \<Rightarrow> bytes \<Rightarrow> identity \<Rightarrow> identity \<times> bool" where
  "load_private_key c r1 r2 b i =
    (let i = i\<lparr>iy_prv_bytes := bleft (IDENT_KEYSIZE div 8 div 2) b\<rparr> in
     case x_private r1 (iy_prv_bytes i) of
       Inl e \<Rightarrow> (i, False)
     | Inr k \<Rightarrow>
         let i = i\<lparr>iy_prv := Some k, iy_sig_prv_bytes := bmid (IDENT_KEYSIZE div 8 div 2) b\<rparr> in
         (case ed_private r2 (iy_sig_prv_bytes i) of
            Inl e \<Rightarrow> (i, False)
          | Inr sk \<Rightarrow> (derive_public c k sk (i\<lparr>iy_sig_prv := Some sk\<rparr>), True)))"

definition load_public_key :: "prims \<Rightarrow> bytes \<Rightarrow> identity \<Rightarrow> identity" where
  "load_public_key c b i =
    (let x = bleft (IDENT_KEYSIZE div 8 div 2) b; s = bmid (IDENT_KEYSIZE div 8 div 2) b in
     update_hashes c (i\<lparr>iy_pub_bytes := x, iy_sig_pub_bytes := s, iy_pub := Some x, iy_sig_pub := Some s\<rparr>))"

section \<open>Signatures\<close>

definition identity_sign :: "prims \<Rightarrow> bytes \<Rightarrow> identity \<Rightarrow> bytes res" where
  "identity_sign c msg i =
    (case iy_sig_prv i of None \<Rightarrow> Inl Runtime_error | Some sk \<Rightarrow> Inr (pr_ed_sign c sk msg))"

definition identity_validate :: "prims \<Rightarrow> bytes \<Rightarrow> bytes \<Rightarrow> identity \<Rightarrow> bool res" where
  "identity_validate c sig msg i =
    (case iy_pub i of
       None \<Rightarrow> Inl Runtime_error
     | Some _ \<Rightarrow> (case iy_sig_pub i of None \<Rightarrow> Inl Undefined | Some s \<Rightarrow> Inr (ed_verify c s sig msg)))"

section \<open>Encryption\<close>

text \<open>\<open>eph\<close> are the random bytes of the ephemeral key, \<open>iv\<close> those of the token.\<close>

definition identity_encrypt :: "prims \<Rightarrow> bytes \<Rightarrow> bytes \<Rightarrow> bytes \<Rightarrow> bytes \<Rightarrow> identity \<Rightarrow> bytes res" where
  "identity_encrypt c eph iv plaintext ratchet i =
    (case iy_pub i of
       None \<Rightarrow> Inl Runtime_error
     | Some _ \<Rightarrow>
         rbind (x_private eph []) (\<lambda>ephemeral.
         rbind (x_exchange c ephemeral
                  (if length ratchet = RATCHETSIZE div 8 then ratchet else iy_pub_bytes i)) (\<lambda>shared.
         rbind (hkdf c DERIVED_KEY_LENGTH shared (iy_hash i) []) (\<lambda>derived.
         rbind (token_new derived MODE_AES) (\<lambda>t.
         rbind (token_encrypt c iv plaintext t) (\<lambda>ciphertext.
           Inr (pr_x_base c ephemeral @ ciphertext)))))))"

definition open_with :: "prims \<Rightarrow> bytes \<Rightarrow> bytes \<Rightarrow> bytes \<Rightarrow> bytes \<Rightarrow> bytes res" where
  "open_with c salt peer ciphertext prv =
    rbind (x_exchange c prv peer) (\<lambda>shared.
    rbind (hkdf c DERIVED_KEY_LENGTH shared salt []) (\<lambda>derived.
    rbind (token_new derived MODE_AES) (token_decrypt c ciphertext)))"

text \<open>Each ratchet of the right size in turn; an empty plaintext counts as not opened.\<close>

fun try_ratchets :: "prims \<Rightarrow> bytes \<Rightarrow> bytes \<Rightarrow> bytes \<Rightarrow> bytes list \<Rightarrow> bytes option" where
  "try_ratchets c salt peer ciphertext [] = None"
| "try_ratchets c salt peer ciphertext (r # rs) =
    (if length r \<noteq> RATCHETSIZE div 8 then try_ratchets c salt peer ciphertext rs
     else case open_with c salt peer ciphertext r of
       Inr opened \<Rightarrow> if opened \<noteq> [] then Some opened else try_ratchets c salt peer ciphertext rs
     | Inl e \<Rightarrow> try_ratchets c salt peer ciphertext rs)"

definition identity_decrypt :: "prims \<Rightarrow> bytes \<Rightarrow> bytes list \<Rightarrow> identity \<Rightarrow> bytes res" where
  "identity_decrypt c tok ratchets i =
    (case iy_prv i of
       None \<Rightarrow> Inl Runtime_error
     | Some k \<Rightarrow>
         if length tok \<le> IDENT_KEYSIZE div 8 div 2 then Inr []
         else
           let peer = bleft (IDENT_KEYSIZE div 8 div 2) tok;
               ciphertext = bmid (IDENT_KEYSIZE div 8 div 2) tok
           in case try_ratchets c (iy_hash i) peer ciphertext ratchets of
                Some opened \<Rightarrow> Inr opened
              | None \<Rightarrow> (case open_with c (iy_hash i) peer ciphertext k of Inl e \<Rightarrow> Inr [] | Inr p \<Rightarrow> Inr p))"

section \<open>Announces\<close>

definition announce_ratchet :: "packet \<Rightarrow> bytes" where
  "announce_ratchet p =
    (if pk_context_flag p \<noteq> FLAG_SET then []
     else let off = IDENT_KEYSIZE div 8 + NAME_HASH_LENGTH div 8 + RANDOM_HASH_LENGTH div 8 in
       if length (pk_data p) < off + RATCHETSIZE div 8 + SIGLENGTH div 8 then []
       else bmid_len off (RATCHETSIZE div 8) (pk_data p))"

definition announce_app_data_offset :: "packet \<Rightarrow> nat" where
  "announce_app_data_offset p =
    (let off = IDENT_KEYSIZE div 8 + NAME_HASH_LENGTH div 8 + RANDOM_HASH_LENGTH div 8 + SIGLENGTH div 8 in
     if pk_context_flag p = FLAG_SET then off + RATCHETSIZE div 8 else off)"

definition announce_key :: "packet \<Rightarrow> bytes" where
  "announce_key p = bleft (IDENT_KEYSIZE div 8) (pk_data p)"

definition announce_name_hash :: "packet \<Rightarrow> bytes" where
  "announce_name_hash p = bmid_len (IDENT_KEYSIZE div 8) (NAME_HASH_LENGTH div 8) (pk_data p)"

definition announce_random_hash :: "packet \<Rightarrow> bytes" where
  "announce_random_hash p =
    bmid_len (IDENT_KEYSIZE div 8 + NAME_HASH_LENGTH div 8) (RANDOM_HASH_LENGTH div 8) (pk_data p)"

definition announce_signature :: "packet \<Rightarrow> bytes" where
  "announce_signature p = bmid_len (announce_app_data_offset p - SIGLENGTH div 8) (SIGLENGTH div 8) (pk_data p)"

definition announce_app_data :: "packet \<Rightarrow> bytes" where
  "announce_app_data p =
    (if length (pk_data p) > announce_app_data_offset p
     then bmid (announce_app_data_offset p) (pk_data p) else [])"

definition announce_signed :: "packet \<Rightarrow> bytes" where
  "announce_signed p =
    pk_dest_hash p @ announce_key p @ announce_name_hash p @
    (announce_random_hash p @ announce_ratchet p @ announce_app_data p)"

definition validate_announce :: "prims \<Rightarrow> rdir \<Rightarrow> packet \<Rightarrow> bool" where
  "validate_announce c dir p =
    (if pk_packet_type p \<noteq> ANNOUNCE then False
     else if pk_context_flag p = FLAG_SET \<and> announce_ratchet p = [] then False
     else
       let announced = load_public_key c (announce_key p) identity_object in
       if iy_pub announced \<noteq> None \<and>
          identity_validate c (announce_signature p) (announce_signed p) announced = Inr True
       then
         let expected = bleft (TRUNCATED_HASHLENGTH div 8)
               (full_hash c (announce_name_hash p @ iy_hash announced)) in
         if pk_dest_hash p = expected then
           (case rdir_peek_entry (pk_dest_hash p) dir of
              None \<Rightarrow> True
            | Some known \<Rightarrow> \<not> (e_has_pubkey known \<and> e_pubkey known \<noteq> announce_key p))
         else False
       else False)"

section \<open>What the directory remembers\<close>

text \<open>
  \<open>local\<close> answers for the destinations registered on this node, with their public keys. The recall
  counts its misses in the directory's statistics.
\<close>

definition recall :: "prims \<Rightarrow> (bytes \<Rightarrow> bytes option) \<Rightarrow> bytes \<Rightarrow> rdir \<Rightarrow> identity option \<times> rdir" where
  "recall c local dest dir =
    (let (key, dir) =
       (if length dest = TRUNCATED_HASHLENGTH div 8 then rdir_peek_pubkey dest dir else (None, dir)) in
     case key of
       Some k \<Rightarrow> (Some (load_public_key c k identity_object), dir)
     | None \<Rightarrow> (map_option (\<lambda>k. load_public_key c k identity_object) (local dest), dir))"

text \<open>The raw announce still held for a destination, unpacked.\<close>

definition held_announce :: "penv \<Rightarrow> bytes \<Rightarrow> rdir \<Rightarrow> packet option res" where
  "held_announce e dest dir =
    rbind (rdir_copy_blob dest (unat MTU) dir) (\<lambda>raw.
      if raw = [] then Inr None
      else case unpack e (packet_from_raw raw) of
        (p, True) \<Rightarrow> Inr (Some p)
      | (p, False) \<Rightarrow> Inr None)"

definition recall_app_data :: "penv \<Rightarrow> bytes \<Rightarrow> rdir \<Rightarrow> bytes res" where
  "recall_app_data e dest dir =
    (if length dest \<noteq> TRUNCATED_HASHLENGTH div 8 then Inr []
     else rbind (held_announce e dest dir) (\<lambda>a. case a of
       None \<Rightarrow> Inr []
     | Some p \<Rightarrow> if length (pk_data p) \<le> announce_app_data_offset p then Inr []
                 else Inr (bmid (announce_app_data_offset p) (pk_data p))))"

definition get_ratchet :: "penv \<Rightarrow> u32 \<Rightarrow> bytes \<Rightarrow> rdir \<Rightarrow> bytes res" where
  "get_ratchet e now dest dir =
    (if length dest \<noteq> TRUNCATED_HASHLENGTH div 8 then Inr []
     else case rdir_peek_entry dest dir of
       None \<Rightarrow> Inr []
     | Some known \<Rightarrow>
         if now > e_last_heard known \<and> now - e_last_heard known > RATCHET_EXPIRY then Inr []
         else rbind (held_announce e dest dir) (\<lambda>a. case a of
           None \<Rightarrow> Inr []
         | Some p \<Rightarrow> Inr (announce_ratchet p)))"

definition ratchet_id :: "prims \<Rightarrow> bytes \<Rightarrow> bytes" where
  "ratchet_id c pub = bleft (NAME_HASH_LENGTH div 8) (full_hash c pub)"

definition ratchet_public_bytes :: "prims \<Rightarrow> bytes \<Rightarrow> bytes \<Rightarrow> bytes res" where
  "ratchet_public_bytes c random prv = rbind (x_private random prv) (\<lambda>k. Inr (pr_x_base c k))"

definition generate_ratchet :: "bytes \<Rightarrow> bytes res" where
  "generate_ratchet random = x_private random []"

section \<open>Proving a packet\<close>

text \<open>The proof's data; the packet it goes out in is built from the packet proven.\<close>

definition identity_prove_data :: "prims \<Rightarrow> bool \<Rightarrow> packet \<Rightarrow> identity \<Rightarrow> bytes res" where
  "identity_prove_data c implicit p i =
    rbind (identity_sign c (pk_packet_hash p) i) (\<lambda>sig.
      Inr (if implicit then sig else pk_packet_hash p @ sig))"

end
