(* ===== verification/IdentityProps.thy ===== *)
theory IdentityProps
  imports Identity DirProps
begin

text \<open>
  Properties of identities: what an accepted announce guarantees, what its signature does not cover,
  and the round trip of encryption to an identity and its ratchets. The laws of the primitives are
  the predicates of \<open>Crypto\<close>.
\<close>

section \<open>Announces\<close>

lemma loaded_public:
  "iy_pub (load_public_key c b i) = Some (take 32 b)" "iy_sig_pub (load_public_key c b i) = Some (drop 32 b)"
  "iy_pub_bytes (load_public_key c b i) = take 32 b" "iy_sig_pub_bytes (load_public_key c b i) = drop 32 b"
  "iy_hash (load_public_key c b i) = truncated_hash c b"
  by (simp_all add: load_public_key_def update_hashes_def get_public_key_def identity_consts slice_simps Let_def)

lemma validate_announce_iff:
  "validate_announce c dir p \<longleftrightarrow>
     pk_packet_type p = ANNOUNCE \<and> (pk_context_flag p = FLAG_SET \<longrightarrow> announce_ratchet p \<noteq> []) \<and>
     ed_verify c (drop 32 (announce_key p)) (announce_signature p) (announce_signed p) \<and>
     pk_dest_hash p = truncated_hash c (announce_name_hash p @ truncated_hash c (announce_key p)) \<and>
     (\<forall>k. rdir_peek_entry (pk_dest_hash p) dir = Some k \<longrightarrow> e_has_pubkey k \<longrightarrow> e_pubkey k = announce_key p)"
  by (auto simp: validate_announce_def identity_validate_def loaded_public truncated_hash_def Let_def
      split: option.splits)

text \<open>The fields of an announce laid out as \<open>key, name hash, random hash, ratchet, signature, data\<close>.\<close>

definition announce_body :: "bytes \<Rightarrow> bytes \<Rightarrow> bytes \<Rightarrow> bytes \<Rightarrow> bytes \<Rightarrow> bytes \<Rightarrow> bytes" where
  "announce_body key nh rh ratchet sig app = key @ nh @ rh @ ratchet @ sig @ app"

lemma announce_fields:
  assumes "pk_data p = announce_body key nh rh ratchet sig app"
    and "length key = 64" "length nh = 10" "length rh = 10" "length sig = 64"
    and "length ratchet = (if pk_context_flag p = FLAG_SET then 32 else 0)"
  shows "announce_key p = key" "announce_name_hash p = nh" "announce_random_hash p = rh"
    "announce_ratchet p = ratchet" "announce_signature p = sig" "announce_app_data p = app"
    "announce_signed p = pk_dest_hash p @ key @ nh @ rh @ ratchet @ app"
proof -
  note defs = announce_key_def announce_name_hash_def announce_random_hash_def announce_ratchet_def
    announce_signature_def announce_app_data_def announce_app_data_offset_def announce_body_def
    identity_consts slice_simps Let_def
  show 1: "announce_key p = key" "announce_name_hash p = nh" "announce_random_hash p = rh"
    using assms by (simp_all add: defs)
  show 2: "announce_ratchet p = ratchet" "announce_signature p = sig" "announce_app_data p = app"
    using assms by (auto simp: defs split: if_splits)
  show "announce_signed p = pk_dest_hash p @ key @ nh @ rh @ ratchet @ app"
    by (simp add: announce_signed_def 1 2)
qed

text \<open>Conversely the data of an announce whose signature verified has that layout.\<close>

lemma announce_layout:
  assumes "ed_verify c (drop 32 (announce_key p)) (announce_signature p) m"
    and "pk_context_flag p = FLAG_SET \<longrightarrow> announce_ratchet p \<noteq> []"
  shows "pk_data p = announce_body (announce_key p) (announce_name_hash p) (announce_random_hash p)
           (announce_ratchet p) (announce_signature p) (announce_app_data p) \<and>
    length (announce_key p) = 64 \<and> length (announce_name_hash p) = 10 \<and> length (announce_random_hash p) = 10 \<and>
    length (announce_signature p) = 64 \<and>
    length (announce_ratchet p) = (if pk_context_flag p = FLAG_SET then 32 else 0)"
proof -
  let ?d = "pk_data p"
  define off where "off = announce_app_data_offset p - 64"
  have off: "announce_app_data_offset p = off + 64" "off = (if pk_context_flag p = FLAG_SET then 116 else 84)"
    by (simp_all add: off_def announce_app_data_offset_def identity_consts Let_def)
  have sig: "announce_signature p = take 64 (drop off ?d)"
    by (simp add: announce_signature_def off(1) identity_consts slice_simps)
  have "length (announce_signature p) = 64" using assms(1) by (simp add: ed_verify_def split: if_splits)
  then have len: "off + 64 \<le> length ?d" using sig by (simp add: min_def split: if_splits)
  have app: "announce_app_data p = drop (off + 64) ?d"
    by (simp add: announce_app_data_def off(1) slice_simps)
  have rat: "announce_ratchet p = take (off - 84) (drop 84 ?d)"
    using len by (auto simp: announce_ratchet_def off(2) identity_consts slice_simps Let_def split: if_splits)
  have fields: "announce_key p = take 64 ?d" "announce_name_hash p = take 10 (drop 64 ?d)"
      "announce_random_hash p = take 10 (drop 74 ?d)"
    by (simp_all add: announce_key_def announce_name_hash_def announce_random_hash_def identity_consts slice_simps)
  have "84 \<le> off" by (simp add: off(2))
  have split: "?d = take 64 ?d @ take 10 (drop 64 ?d) @ take 10 (drop 74 ?d) @ take (off - 84) (drop 84 ?d) @
      take 64 (drop off ?d) @ drop (off + 64) ?d"
  proof -
    have step: "drop n ?d = take k (drop n ?d) @ drop (n + k) ?d" for n k
      by (metis append_take_drop_id drop_drop add.commute)
    have "?d = take 64 ?d @ drop 64 ?d" by simp
    also have "drop 64 ?d = take 10 (drop 64 ?d) @ drop 74 ?d" using step [of 64 10] by simp
    also have "drop 74 ?d = take 10 (drop 74 ?d) @ drop 84 ?d" using step [of 74 10] by simp
    also have "drop 84 ?d = take (off - 84) (drop 84 ?d) @ drop off ?d"
      using step [of 84 "off - 84"] \<open>84 \<le> off\<close> by simp
    also have "drop off ?d = take 64 (drop off ?d) @ drop (off + 64) ?d" by (rule step)
    finally show ?thesis .
  qed
  show ?thesis
    using split len off(2) unfolding announce_body_def fields rat sig app by (auto split: if_splits)
qed

text \<open>
  C3: an announce that is accepted was signed, over its destination hash, public key, names, ratchet and
  application data, by the signing half of the public key it carries; that key, with the name hash,
  yields the destination hash; and a key already known for the destination is the one announced.
  So no announce can attach another key to a destination hash without a hash collision.
\<close>

theorem accepted_announce_genuine:
  assumes "validate_announce c dir p"
  shows "pk_data p = announce_body (announce_key p) (announce_name_hash p) (announce_random_hash p)
           (announce_ratchet p) (announce_signature p) (announce_app_data p) \<and>
    length (announce_key p) = 64 \<and>
    pr_ed_open c (drop 32 (announce_key p)) (announce_signature p)
      (pk_dest_hash p @ announce_key p @ announce_name_hash p @ announce_random_hash p @
       announce_ratchet p @ announce_app_data p) \<and>
    pk_dest_hash p = truncated_hash c (announce_name_hash p @ truncated_hash c (announce_key p)) \<and>
    (case dir_lookup dir (pk_dest_hash p) of
       Some r \<Rightarrow> has_pubkey r \<longrightarrow> d_pubkey r = announce_key p | None \<Rightarrow> True)"
proof -
  from assms have v: "ed_verify c (drop 32 (announce_key p)) (announce_signature p) (announce_signed p)"
    and f: "pk_context_flag p = FLAG_SET \<longrightarrow> announce_ratchet p \<noteq> []"
    and h: "pk_dest_hash p = truncated_hash c (announce_name_hash p @ truncated_hash c (announce_key p))"
    and k: "\<forall>k. rdir_peek_entry (pk_dest_hash p) dir = Some k \<longrightarrow> e_has_pubkey k \<longrightarrow> e_pubkey k = announce_key p"
    by (simp_all add: validate_announce_iff)
  from k have "case dir_lookup dir (pk_dest_hash p) of
      Some r \<Rightarrow> has_pubkey r \<longrightarrow> d_pubkey r = announce_key p | None \<Rightarrow> True"
    by (auto simp: rdir_peek_entry_def fill_entry_def split: option.splits)
  with announce_layout [OF v f] v h show ?thesis
    by (auto simp: ed_verify_def announce_signed_def split: if_splits)
qed

text \<open>
  The context flag is not signed, and the ratchet is signed right before the application data: an
  announce with its flag cleared and its ratchet moved behind the signature is still accepted, and
  then carries no ratchet. Anyone who forwards an announce can take its ratchet out.
\<close>

definition strip_ratchet :: "packet \<Rightarrow> packet" where
  "strip_ratchet p = p\<lparr>pk_context_flag := FLAG_UNSET,
     pk_data := announce_body (announce_key p) (announce_name_hash p) (announce_random_hash p) []
       (announce_signature p) (announce_ratchet p @ announce_app_data p)\<rparr>"

text \<open>
  C35: a ratchet is not bound to its announce. Whenever an announce is accepted, so is the one with the
  ratchet moved into the application data and the context flag cleared: its signature still
  verifies, and the ratchet that senders would read from it is gone.
\<close>

theorem ratchet_not_bound:
  assumes "validate_announce c dir p"
  shows "validate_announce c dir (strip_ratchet p) \<and> announce_ratchet (strip_ratchet p) = [] \<and>
    announce_app_data (strip_ratchet p) = announce_ratchet p @ announce_app_data p"
proof -
  have v: "ed_verify c (drop 32 (announce_key p)) (announce_signature p) (announce_signed p)"
    and f: "pk_context_flag p = FLAG_SET \<longrightarrow> announce_ratchet p \<noteq> []"
    using assms by (simp_all add: validate_announce_iff)
  let ?q = "strip_ratchet p"
  have q: "announce_key ?q = announce_key p" "announce_name_hash ?q = announce_name_hash p"
      "announce_ratchet ?q = []" "announce_signature ?q = announce_signature p"
      "announce_app_data ?q = announce_ratchet p @ announce_app_data p"
      "announce_signed ?q = announce_signed p"
    using announce_fields [where p = ?q and key = "announce_key p" and nh = "announce_name_hash p"
        and rh = "announce_random_hash p" and ratchet = "[]" and sig = "announce_signature p"
        and app = "announce_ratchet p @ announce_app_data p"] announce_layout [OF v f]
    by (simp_all add: strip_ratchet_def announce_signed_def [of p])
  have "pk_packet_type ?q = pk_packet_type p" "pk_dest_hash ?q = pk_dest_hash p"
      "pk_context_flag ?q = FLAG_UNSET"
    by (simp_all add: strip_ratchet_def)
  then have "validate_announce c dir ?q"
    using assms q v by (simp add: validate_announce_iff)
  with q show ?thesis by simp
qed

section \<open>A concrete announce\<close>

definition sample_key :: bytes where "sample_key = replicate 32 5 @ replicate 32 7"
definition sample_name :: bytes where "sample_name = replicate 10 3"
definition sample_ratchet :: bytes where "sample_ratchet = replicate 32 9"

definition sample_ann_dest :: bytes where
  "sample_ann_dest = truncated_hash toy_prims (sample_name @ truncated_hash toy_prims sample_key)"

definition sample_ann_signed :: bytes where
  "sample_ann_signed = sample_ann_dest @ sample_key @ sample_name @ replicate 10 1 @ sample_ratchet @ [42]"

definition sample_ann :: packet where
  "sample_ann = packet_object\<lparr>pk_packet_type := ANNOUNCE, pk_context_flag := FLAG_SET,
     pk_dest_hash := sample_ann_dest,
     pk_data := announce_body sample_key sample_name (replicate 10 1) sample_ratchet
       (pr_ed_sign toy_prims (drop 32 sample_key) sample_ann_signed) [42]\<rparr>"

lemma sample_ann_valid: "validate_announce toy_prims sample_rdir sample_ann"
proof -
  have "length (pr_ed_sign toy_prims (drop 32 sample_key) sample_ann_signed) = 64"
    by (simp add: toy_prims_def sample_key_def min_def)
  then have f: "announce_key sample_ann = sample_key" "announce_name_hash sample_ann = sample_name"
      "announce_ratchet sample_ann = sample_ratchet"
      "announce_signature sample_ann = pr_ed_sign toy_prims (drop 32 sample_key) sample_ann_signed"
      "announce_signed sample_ann = sample_ann_signed"
    using announce_fields [where p = sample_ann and key = sample_key and nh = sample_name
        and rh = "replicate 10 1" and ratchet = sample_ratchet
        and sig = "pr_ed_sign toy_prims (drop 32 sample_key) sample_ann_signed" and app = "[42]"]
    by (simp_all add: sample_ann_def sample_key_def sample_name_def sample_ratchet_def sample_ann_signed_def)
  have "rdir_peek_entry (pk_dest_hash sample_ann) sample_rdir = None" by code_simp
  moreover have "ed_verify toy_prims (drop 32 sample_key)
      (pr_ed_sign toy_prims (drop 32 sample_key) sample_ann_signed) sample_ann_signed"
    using toy_laws(5) by (simp add: ed_verify_def sig_ok_def toy_prims_def sample_key_def min_def)
  moreover have "pk_packet_type sample_ann = ANNOUNCE" "pk_dest_hash sample_ann = sample_ann_dest"
    by (simp_all add: sample_ann_def)
  ultimately show ?thesis
    by (simp add: validate_announce_iff f) (simp add: sample_ratchet_def sample_ann_dest_def)
qed

lemma accepted_announce_genuine_witness:
  "length (announce_key sample_ann) = 64 \<and>
   pk_dest_hash sample_ann =
     truncated_hash toy_prims (announce_name_hash sample_ann @ truncated_hash toy_prims (announce_key sample_ann))"
  using accepted_announce_genuine [OF sample_ann_valid] by simp

lemma ratchet_not_bound_witness:
  "validate_announce toy_prims sample_rdir (strip_ratchet sample_ann) \<and>
   announce_ratchet (strip_ratchet sample_ann) = []"
  using ratchet_not_bound [OF sample_ann_valid] by simp

section \<open>An announce and the recall of its key\<close>

lemma ingested_lookup:
  assumes "store_inv st" "s_ready st" "s_dir st \<noteq> []" "layers AND 1 \<noteq> 0" "a_pubkey a = Some pk"
    and "ann_ok a" "length dest = 16"
  shows "\<exists>r. dir_lookup (rdir_ingest now dest a layers st) dest = Some r \<and> has_pubkey r \<and> d_pubkey r = pk"
proof -
  obtain st1 where run: "ingest_dir now dest a st = Some st1"
    using ingest_dir_total [OF assms(1,3)] by blast
  obtain old where "dir_lookup st1 dest = Some (write_end (ingest_rec now dest a old))"
    using ingest_dir_lookup [OF assms(1,2,6,7) run] by blast
  moreover have "has_pubkey (write_end r) = has_pubkey r" "d_pubkey (write_end r) = d_pubkey r" for r
    by (simp_all add: write_end_def has_pubkey_def)
  ultimately show ?thesis
    using ingest_layers [OF assms(2,4) run, of dest] ingest_rec_route(2) [OF assms(5), of now dest old] by simp
qed

text \<open>
  Once the announce is in the directory its key is the one \<open>recall\<close> returns, and no announce with
  another key is accepted for the destination while the record is held.
\<close>

lemma announced_key_recalled:
  fixes now :: u32
  assumes "store_inv st" "s_ready st" "s_dir st \<noteq> []" "layers AND 1 \<noteq> 0"
    and "validate_announce c st p" "sha_ok c" "ann_ok a" "a_pubkey a = Some (announce_key p)"
  defines "st' \<equiv> rdir_ingest now (pk_dest_hash p) a layers st"
  shows "fst (recall c local (pk_dest_hash p) st') = Some (load_public_key c (announce_key p) identity_object) \<and>
    (validate_announce c st' q \<longrightarrow> pk_dest_hash q = pk_dest_hash p \<longrightarrow> announce_key q = announce_key p)"
proof -
  have l: "length (pk_dest_hash p) = 16"
    using assms(5,6)
    by (simp add: validate_announce_iff truncated_hash_def full_hash_def slice_simps sha_ok_def identity_consts)
  obtain r where r: "dir_lookup st' (pk_dest_hash p) = Some r" "has_pubkey r" "d_pubkey r = announce_key p"
    using ingested_lookup [OF assms(1-4,8,7) l] unfolding st'_def by blast
  from l r have "fst (recall c local (pk_dest_hash p) st') = Some (load_public_key c (announce_key p) identity_object)"
    by (simp add: recall_def rdir_peek_pubkey_def identity_consts)
  moreover have "announce_key q = announce_key p"
    if "validate_announce c st' q" "pk_dest_hash q = pk_dest_hash p"
  proof -
    have "rdir_peek_entry (pk_dest_hash q) st' = Some (fill_entry r)"
      using r(1) that(2) by (simp add: rdir_peek_entry_def)
    with that(1) r(2,3) show ?thesis by (simp add: validate_announce_iff fill_entry_def)
  qed
  ultimately show ?thesis by blast
qed

section \<open>Encryption\<close>

lemma derived_token:
  assumes "cbc_ok c" "hmac_ok c" "hkdf_ok c" "length shared = 32"
  shows "\<exists>d t. hkdf c DERIVED_KEY_LENGTH shared salt [] = Inr d \<and> token_new d MODE_AES = Inr t \<and> token_ok c t"
proof -
  have ne: "shared \<noteq> []" using assms(4) by auto
  have pos: "0 < DERIVED_KEY_LENGTH" "DERIVED_KEY_LENGTH = 64" by (simp_all add: identity_consts)
  obtain d where d: "length d = DERIVED_KEY_LENGTH" "pr_hkdf c DERIVED_KEY_LENGTH salt shared [] = Some d"
    using assms(3) [unfolded hkdf_ok_def, rule_format, OF pos(1) _ ne] pos(2) by (auto simp: HKDF_MAX_def)
  have h: "hkdf c DERIVED_KEY_LENGTH shared salt [] = Inr d"
    using d(2) ne pos(2) by (simp add: hkdf_def)
  have "d \<noteq> []" using d(1) pos(2) by auto
  then obtain t where t: "token_new d MODE_AES = Inr t"
    using d(1) pos(2) by (simp add: token_new_def)
  from h t token_new_ok [OF assms(1,2) t] show ?thesis by blast
qed

text \<open>The key that encrypts and the private half of it open the same token.\<close>

lemma encrypt_opens:
  assumes laws: "cbc_ok c" "hmac_ok c" "hkdf_ok c" "dh_ok c"
    and pub: "iy_pub i \<noteq> None" "length eph = 32" "length iv = 16" "length prv = 32"
    and target: "(if length ratchet = RATCHETSIZE div 8 then ratchet else iy_pub_bytes i) = pr_x_base c prv"
  shows "\<exists>tok. identity_encrypt c eph iv p ratchet i = Inr (pr_x_base c eph @ tok) \<and>
    length (pr_x_base c eph) = 32 \<and> 0 < length tok \<and>
    open_with c (iy_hash i) (pr_x_base c eph) tok prv = Inr p"
proof -
  have b: "length (pr_x_base c eph) = 32" "length (pr_x_base c prv) = 32"
    using laws(4) pub(2,4) unfolding dh_ok_def by blast+
  obtain s where s: "length s = 32" "pr_x_dh c eph (pr_x_base c prv) = Some s"
      "pr_x_dh c prv (pr_x_base c eph) = Some s"
    using laws(4) pub(2,4) unfolding dh_ok_def by blast
  obtain d t where d: "hkdf c DERIVED_KEY_LENGTH s (iy_hash i) [] = Inr d" "token_new d MODE_AES = Inr t"
      and t: "token_ok c t"
    using derived_token [OF laws(1-3) s(1)] by blast
  obtain tok where tok: "token_encrypt c iv p t = Inr tok" "token_decrypt c tok t = Inr p"
      "length tok = TOKEN_OVERHEAD + (length p div 16 + 1) * 16"
    using tok.sealed [OF t pub(3), of p] by blast
  have "identity_encrypt c eph iv p ratchet i = Inr (pr_x_base c eph @ tok)"
    using pub(1) pub(2) d s b tok(1) unfolding identity_encrypt_def target
    by (auto simp: x_private_def x_exchange_def)
  moreover have "open_with c (iy_hash i) (pr_x_base c eph) tok prv = Inr p"
    using s(3) b(1) d tok(2) by (simp add: open_with_def x_exchange_def)
  ultimately show ?thesis using b(1) tok(3) by auto
qed

lemma try_ratchets_hit:
  assumes "k \<in> set rs" "length k = RATCHETSIZE div 8" "open_with c salt peer ct k = Inr p" "p \<noteq> []"
    and "\<And>r. r \<in> set rs \<Longrightarrow> length r = RATCHETSIZE div 8 \<Longrightarrow> r \<noteq> k \<Longrightarrow> isl (open_with c salt peer ct r)"
  shows "try_ratchets c salt peer ct rs = Some p"
  using assms
proof (induction rs)
  case (Cons r rs)
  show ?case
  proof (cases "r = k")
    case False
    then have "k \<in> set rs" using Cons.prems(1) by simp
    with Cons have "try_ratchets c salt peer ct rs = Some p" by simp
    moreover have "length r = RATCHETSIZE div 8 \<Longrightarrow> isl (open_with c salt peer ct r)"
      using Cons.prems(5) [of r] False by simp
    ultimately show ?thesis by (auto simp: isl_def)
  qed (use Cons.prems in simp)
qed simp

lemma try_ratchets_miss:
  assumes "\<And>r. r \<in> set rs \<Longrightarrow> length r = RATCHETSIZE div 8 \<Longrightarrow> isl (open_with c salt peer ct r)"
  shows "try_ratchets c salt peer ct rs = None"
  using assms
proof (induction rs)
  case (Cons r rs)
  then have "try_ratchets c salt peer ct rs = None" by simp
  moreover have "length r = RATCHETSIZE div 8 \<Longrightarrow> isl (open_with c salt peer ct r)"
    using Cons.prems [of r] by simp
  ultimately show ?case by (auto simp: isl_def)
qed simp

text \<open>
  C17: what is encrypted, if it is not empty, to an identity, or to one of the ratchets its owner still holds, the owner
  decrypts, whichever of its keys was used, as long as none of its other ratchets happens to open the same
  token: the identity key is reached when no ratchet was used. Private, ephemeral and ratchet keys have 32 bytes.
\<close>

theorem identity_roundtrip:
  assumes laws: "cbc_ok c" "hmac_ok c" "hkdf_ok c" "dh_ok c"
    and sender: "iy_pub i \<noteq> None" "length eph = 32" "length iv = 16" "p \<noteq> []"
    and owner: "iy_prv j = Some k" "length k = 32" "iy_hash j = iy_hash i"
    and target: "ratchet = [] \<and> iy_pub_bytes i = pr_x_base c k \<and> prv = k \<or>
      ratchet = pr_x_base c prv \<and> prv \<in> set ratchets \<and> length prv = 32"
    and sent: "identity_encrypt c eph iv p ratchet i = Inr msg"
    and others: "\<And>r. r \<in> set ratchets \<Longrightarrow> length r = 32 \<Longrightarrow> r \<noteq> prv \<Longrightarrow>
      isl (open_with c (iy_hash j) (take 32 msg) (drop 32 msg) r)"
  shows "identity_decrypt c msg ratchets j = Inr p"
proof -
  have lp: "length prv = 32" using target owner(2) by auto
  have "length (pr_x_base c prv) = 32" using laws(4) lp unfolding dh_ok_def by blast
  then have tgt: "(if length ratchet = RATCHETSIZE div 8 then ratchet else iy_pub_bytes i) = pr_x_base c prv"
    using target by (auto simp: identity_consts)
  obtain tok where tok: "identity_encrypt c eph iv p ratchet i = Inr (pr_x_base c eph @ tok)"
      "length (pr_x_base c eph) = 32" "0 < length tok"
      "open_with c (iy_hash i) (pr_x_base c eph) tok prv = Inr p"
    using encrypt_opens [OF laws sender(1-3) lp tgt] by blast
  have msg: "msg = pr_x_base c eph @ tok" using sent tok(1) by simp
  have parts: "take 32 msg = pr_x_base c eph" "drop 32 msg = tok" "\<not> length msg \<le> 32"
    using msg tok(2,3) by simp_all
  have dec: "identity_decrypt c msg ratchets j =
      (case try_ratchets c (iy_hash j) (pr_x_base c eph) tok ratchets of
         Some opened \<Rightarrow> Inr opened
       | None \<Rightarrow> (case open_with c (iy_hash j) (pr_x_base c eph) tok k of Inl e \<Rightarrow> Inr [] | Inr p \<Rightarrow> Inr p))"
    using parts owner(1) by (simp add: identity_decrypt_def identity_consts slice_simps Let_def)
  show ?thesis
  proof (cases "prv \<in> set ratchets")
    case True
    have "try_ratchets c (iy_hash j) (pr_x_base c eph) tok ratchets = Some p"
      by (rule try_ratchets_hit [OF True]) (use lp tok(4) owner(3) sender(4) others parts in \<open>simp_all add: identity_consts\<close>)
    with dec show ?thesis by simp
  next
    case False
    then have "prv = k" using target by blast
    have "try_ratchets c (iy_hash j) (pr_x_base c eph) tok ratchets = None"
      using others parts False by (intro try_ratchets_miss) (auto simp: identity_consts)
    with dec tok(4) owner(3) \<open>prv = k\<close> show ?thesis by simp
  qed
qed

definition sample_owner :: identity where
  "sample_owner = fst (load_private_key toy_prims [] [] (replicate 32 5 @ replicate 32 7) identity_object)"

lemma sample_owner_simps:
  "iy_pub sample_owner = Some (replicate 32 5)" "iy_prv sample_owner = Some (replicate 32 5)"
  "iy_pub_bytes sample_owner = replicate 32 5"
  by (simp_all add: sample_owner_def load_private_key_def x_private_def ed_private_def derive_public_def
      update_hashes_def toy_prims_def identity_consts slice_simps Let_def)

lemma identity_roundtrip_witness:
  "\<exists>msg. identity_encrypt toy_prims (replicate 32 1) (replicate 16 2) [7, 8] [] sample_owner = Inr msg \<and>
     identity_decrypt toy_prims msg [] sample_owner = Inr [7, 8]"
proof -
  obtain msg where msg: "identity_encrypt toy_prims (replicate 32 1) (replicate 16 2) [7, 8] [] sample_owner = Inr msg"
    using encrypt_opens [OF toy_laws(1,2,4,3), of sample_owner "replicate 32 1" "replicate 16 2" "replicate 32 5"
        "[]" "[7, 8]"]
    by (auto simp: sample_owner_simps identity_consts toy_prims_def)
  have "identity_decrypt toy_prims msg [] sample_owner = Inr [7, 8]"
    by (rule identity_roundtrip [OF toy_laws(1,2,4,3) _ _ _ _ _ _ refl _ msg])
      (auto simp: sample_owner_simps toy_prims_def)
  with msg show ?thesis by blast
qed

section \<open>Keys from too few bytes\<close>

text \<open>
  A private key of 32 bytes is loaded with a random signing key, and reported as loaded: the
  constructor of the key object draws one when it is given none.
\<close>

lemma half_key_is_random:
  assumes "length b = 32"
  shows "load_private_key c r1 r2 b i =
    (derive_public c b (take 32 r2)
       (i\<lparr>iy_prv_bytes := b, iy_prv := Some b, iy_sig_prv_bytes := [], iy_sig_prv := Some (take 32 r2)\<rparr>), True)"
proof -
  have "b \<noteq> []" using assms by auto
  with assms show ?thesis
    by (simp add: load_private_key_def x_private_def ed_private_def identity_consts slice_simps Let_def)
qed

end
