(* ===== verification/Destination.thy ===== *)
theory Destination
  imports IdentityProps
begin

text \<open>
  Destinations: \<open>Destination.cpp\<close> and \<open>Destination.h\<close>. Names and address hashes, announcing, the ratchets
  of a destination hosted here, encryption to a destination, and the request handlers.

  Names are ASCII bytes (C strings, so without a zero byte). The maps \<open>_path_responses\<close> and
  \<open>_request_handlers\<close> are HOL maps, the callbacks flags; the response generators are the application's
  and stay outside. \<open>dn_persisted\<close> records the calls of the ratchet persistence hook. Registration
  with the transport is \<open>register\<close>, which the constructor calls last.
\<close>

section \<open>State\<close>

datatype direction = DIR_IN | DIR_OUT
datatype proof_strategy = PROVE_NONE | PROVE_APP | PROVE_ALL
datatype request_policy = ALLOW_NONE | ALLOW_ALL | ALLOW_LIST

record handler =
  rh_path :: bytes
  rh_allow :: request_policy
  rh_allowed :: "bytes list"

record destination =
  dn_type :: dest_type
  dn_direction :: direction
  dn_ident :: "identity option"
  dn_name :: bytes
  dn_hash :: bytes
  dn_hexhash :: bytes
  dn_name_hash :: bytes
  dn_accept_links :: bool
  dn_strategy :: proof_strategy
  dn_default_app_data :: bytes
  dn_path_responses :: "bytes \<Rightarrow> (secs \<times> bytes) option"
  dn_ratchets_enabled :: bool
  dn_ratchets :: "bytes list"
  dn_latest_ratchet_time :: secs
  dn_persist :: bool
  dn_persisted :: "(bytes list \<times> secs) list"
  dn_handlers :: "bytes \<Rightarrow> handler option"
  dn_packet_cb :: bool

definition destination_object :: "identity option \<Rightarrow> destination" where
  "destination_object i = \<lparr>dn_type = SINGLE, dn_direction = DIR_IN, dn_ident = i, dn_name = [], dn_hash = [],
     dn_hexhash = [], dn_name_hash = [], dn_accept_links = True, dn_strategy = PROVE_NONE,
     dn_default_app_data = [], dn_path_responses = (\<lambda>_. None), dn_ratchets_enabled = False,
     dn_ratchets = [], dn_latest_ratchet_time = 0, dn_persist = False, dn_persisted = [],
     dn_handlers = (\<lambda>_. None), dn_packet_cb = False\<rparr>"

definition PR_TAG_WINDOW :: secs where "PR_TAG_WINDOW = 30"
definition RATCHET_COUNT :: nat where "RATCHET_COUNT = 32"
definition RATCHET_INTERVAL :: secs where "RATCHET_INTERVAL = 60 * 60 * 12"

abbreviation (input) "DOT \<equiv> 46 :: u8"

section \<open>Names\<close>

definition expand_name :: "identity option \<Rightarrow> bytes \<Rightarrow> bytes \<Rightarrow> bytes res" where
  "expand_name i app aspects =
    (if DOT \<in> set app then Inl Invalid_argument
     else let name = app; name = (if aspects \<noteq> [] then name @ DOT # aspects else name) in
       Inr (case i of None \<Rightarrow> name | Some i \<Rightarrow> name @ DOT # iy_hexhash i))"

definition name_hash :: "prims \<Rightarrow> bytes \<Rightarrow> bytes \<Rightarrow> bytes res" where
  "name_hash c app aspects =
    rbind (expand_name None app aspects) (\<lambda>n. Inr (bleft (NAME_HASH_LENGTH div 8) (full_hash c n)))"

definition address_hash :: "prims \<Rightarrow> identity option \<Rightarrow> bytes \<Rightarrow> bytes \<Rightarrow> bytes res" where
  "address_hash c i app aspects =
    rbind (name_hash c app aspects) (\<lambda>nh.
      Inr (truncated_hash c (case i of None \<Rightarrow> nh | Some i \<Rightarrow> nh @ iy_hash i)))"

text \<open>The name up to the first dot, and what follows it if there is one.\<close>

definition app_and_aspects_from_name :: "bytes \<Rightarrow> bytes list" where
  "app_and_aspects_from_name full =
    (let app = takeWhile (\<lambda>b. b \<noteq> DOT) full in
     if length app = length full then [app] else [app, drop (Suc (length app)) full])"

definition hash_from_name_and_identity :: "prims \<Rightarrow> bytes \<Rightarrow> identity option \<Rightarrow> bytes res" where
  "hash_from_name_and_identity c full i =
    (case app_and_aspects_from_name full of
       [] \<Rightarrow> Inr []
     | [app] \<Rightarrow> address_hash c i app []
     | app # aspects # _ \<Rightarrow> address_hash c i app aspects)"

section \<open>Construction\<close>

text \<open>
  With no identity an IN destination that is not PLAIN gets a fresh one, and the hex hash of it joins
  the aspects; \<open>_name_hash\<close> is taken of the aspects the caller gave.
\<close>

definition destination_new ::
    "prims \<Rightarrow> bytes \<Rightarrow> bytes \<Rightarrow> identity option \<Rightarrow> direction \<Rightarrow> dest_type \<Rightarrow> bytes \<Rightarrow> bytes \<Rightarrow> destination res" where
  "destination_new c r1 r2 i dir ty app aspects =
    (if DOT \<in> set app then Inl Invalid_argument
     else
       let (i, fullaspects) =
             (if i = None \<and> dir = DIR_IN \<and> ty \<noteq> PLAIN then
                let j = create_keys c r1 r2 identity_object in (Some j, aspects @ DOT # iy_hexhash j)
              else (i, aspects))
       in if i \<noteq> None \<and> ty = PLAIN then Inl Invalid_argument
          else rbind (expand_name i app fullaspects) (\<lambda>name.
               rbind (address_hash c i app fullaspects) (\<lambda>h.
               rbind (name_hash c app aspects) (\<lambda>nh.
                 Inr ((destination_object i)\<lparr>dn_type := ty, dn_direction := dir, dn_name := name, dn_hash := h,
                        dn_hexhash := to_hex False h, dn_name_hash := nh\<rparr>)))))"

definition destination_from_hash ::
    "prims \<Rightarrow> identity option \<Rightarrow> direction \<Rightarrow> dest_type \<Rightarrow> bytes \<Rightarrow> destination res" where
  "destination_from_hash c i dir ty h =
    (if i \<noteq> None \<and> ty = PLAIN then Inl Invalid_argument
     else rbind (name_hash c [117, 110, 107, 110, 111, 119, 110] [117, 110, 107, 110, 111, 119, 110]) (\<lambda>nh.
       Inr ((destination_object i)\<lparr>dn_type := ty, dn_direction := dir, dn_hash := h,
              dn_hexhash := to_hex False h, dn_name_hash := nh\<rparr>)))"

text \<open>\<open>Transport::register_destination\<close>: only IN destinations are listed, each address once.\<close>

definition register :: "destination \<Rightarrow> (bytes \<Rightarrow> destination option) \<Rightarrow> (bytes \<Rightarrow> destination option) res" where
  "register d table =
    (if dn_direction d = DIR_IN then
       (if table (dn_hash d) \<noteq> None then Inl Runtime_error else Inr (table(dn_hash d \<mapsto> d)))
     else Inr table)"

section \<open>Ratchets\<close>

definition enable_ratchets :: "bytes list \<Rightarrow> secs \<Rightarrow> bool \<Rightarrow> destination \<Rightarrow> destination" where
  "enable_ratchets privs latest_time persist d =
    (if dn_type d \<noteq> SINGLE then d
     else
       let rs = take RATCHET_COUNT (filter (\<lambda>p. length p = RATCHETSIZE div 8) privs) in
       d\<lparr>dn_ratchets := rs, dn_persist := persist, dn_ratchets_enabled := True,
         dn_latest_ratchet_time := (if rs = [] then 0 else latest_time),
         dn_path_responses := (\<lambda>_. None)\<rparr>)"

definition disable_ratchets :: "destination \<Rightarrow> destination" where
  "disable_ratchets d = d\<lparr>dn_ratchets_enabled := False, dn_ratchets := [], dn_persist := False,
     dn_latest_ratchet_time := 0, dn_path_responses := (\<lambda>_. None)\<rparr>"

definition rotate_ratchets :: "secs \<Rightarrow> bytes \<Rightarrow> destination \<Rightarrow> destination \<times> bool" where
  "rotate_ratchets now random d =
    (if \<not> dn_ratchets_enabled d then (d, False)
     else if dn_ratchets d \<noteq> [] \<and> now < dn_latest_ratchet_time d + RATCHET_INTERVAL then (d, False)
     else case generate_ratchet random of
       Inl e \<Rightarrow> (d, False)
     | Inr r \<Rightarrow>
         let rs = r # dn_ratchets d;
             rs = (if length rs > RATCHET_COUNT then take RATCHET_COUNT rs else rs);
             d = d\<lparr>dn_ratchets := rs, dn_latest_ratchet_time := now\<rparr>
         in (if dn_persist d then d\<lparr>dn_persisted := dn_persisted d @ [(rs, now)]\<rparr> else d, True))"

definition latest_ratchet :: "prims \<Rightarrow> destination \<Rightarrow> bytes" where
  "latest_ratchet c d =
    (if \<not> dn_ratchets_enabled d \<or> dn_ratchets d = [] then []
     else case ratchet_public_bytes c [] (hd (dn_ratchets d)) of Inl e \<Rightarrow> [] | Inr b \<Rightarrow> b)"

section \<open>Announcing\<close>

definition expire_responses :: "secs \<Rightarrow> destination \<Rightarrow> destination" where
  "expire_responses now d = d\<lparr>dn_path_responses := (\<lambda>t. case dn_path_responses d t of
     Some (t0, b) \<Rightarrow> if now > t0 + PR_TAG_WINDOW then None else Some (t0, b) | None \<Rightarrow> None)\<rparr>"

definition time_bytes :: "secs \<Rightarrow> bytes" where
  "time_bytes now = be_bytes 5 (of_nat (nat \<lfloor>now\<rfloor>) :: u64)"

text \<open>The data of a fresh announce; a signature that cannot be made ends it.\<close>

definition announce_data ::
    "prims \<Rightarrow> secs \<Rightarrow> bytes \<Rightarrow> bytes \<Rightarrow> bytes \<Rightarrow> identity \<Rightarrow> destination \<Rightarrow> (bytes \<times> bool) res" where
  "announce_data c now rnd app_data ratchet i d =
    (let random_hash = take 5 rnd @ time_bytes now;
         new_app_data = (if app_data = [] \<and> dn_default_app_data d \<noteq> [] then dn_default_app_data d else app_data);
         key = get_public_key i;
         signed = dn_hash d @ key @ dn_name_hash d @ random_hash @ ratchet @ new_app_data
     in rbind (identity_sign c signed i) (\<lambda>sig.
          Inr (key @ dn_name_hash d @ random_hash @ ratchet @ sig @ new_app_data, ratchet \<noteq> [])))"

definition dest_of :: "destination \<Rightarrow> dest" where
  "dest_of d = \<lparr>de_hash = dn_hash d, de_type = dn_type d,
     de_ident = map_option (\<lambda>i. \<lparr>id_sig_pub = iy_sig_pub_bytes i, id_has_prv = iy_prv i \<noteq> None\<rparr>) (dn_ident d)\<rparr>"

abbreviation (input) "PATH_RESPONSE \<equiv> 0x0b :: u8"

definition announce_packet :: "bool \<Rightarrow> bytes \<Rightarrow> bool \<Rightarrow> destination \<Rightarrow> packet res" where
  "announce_packet path_response b ratcheted d =
    packet_new (Some (dest_of d)) b ANNOUNCE (if path_response then PATH_RESPONSE else CONTEXT_NONE)
      BROADCAST HEADER_1 [] True (if ratcheted then FLAG_SET else FLAG_UNSET)"

text \<open>
  \<open>announce\<close>. Outside the \<open>try\<close> only the two argument checks throw; a throw inside it returns the empty
  packet. \<open>rnd\<close> and \<open>rrnd\<close> are the random bytes of the announce and of a new ratchet.
\<close>

definition announce_built ::
    "prims \<Rightarrow> secs \<Rightarrow> bytes \<Rightarrow> bytes \<Rightarrow> bytes \<Rightarrow> bool \<Rightarrow> bytes \<Rightarrow> destination \<Rightarrow> destination \<times> (bytes \<times> bool) res" where
  "announce_built c now rnd rrnd app_data path_response tag d =
    (let d = expire_responses now d in
     case (if path_response \<and> tag \<noteq> [] then dn_path_responses d tag else None) of
       Some (t0, b) \<Rightarrow> (d, Inr (b, dn_ratchets_enabled d))
     | None \<Rightarrow>
         let d = (if dn_ratchets_enabled d then fst (rotate_ratchets now rrnd d) else d);
             ratchet = (if dn_ratchets_enabled d then latest_ratchet c d else [])
         in case dn_ident d of
              None \<Rightarrow> (d, Inl Undefined)
            | Some i \<Rightarrow>
                (case announce_data c now rnd app_data ratchet i d of
                   Inl e \<Rightarrow> (d, Inl e)
                 | Inr (b, ratcheted) \<Rightarrow>
                     (d\<lparr>dn_path_responses := (if dn_path_responses d tag = None
                          then (dn_path_responses d)(tag \<mapsto> (now, b)) else dn_path_responses d)\<rparr>,
                      Inr (b, ratcheted))))"

definition destination_announce ::
    "prims \<Rightarrow> penv \<Rightarrow> secs \<Rightarrow> bytes \<Rightarrow> bytes \<Rightarrow> bytes \<Rightarrow> bool \<Rightarrow> bytes \<Rightarrow> bool \<Rightarrow> destination \<Rightarrow>
     (destination \<times> packet option) res" where
  "destination_announce c e now rnd rrnd app_data path_response tag do_send d =
    (if dn_type d \<noteq> SINGLE then Inl Invalid_argument
     else if dn_direction d \<noteq> DIR_IN then Inl Invalid_argument
     else
       let (d, built) = announce_built c now rnd rrnd app_data path_response tag d in
       case rbind built (\<lambda>(b, ratcheted). announce_packet path_response b ratcheted d) of
         Inl Undefined \<Rightarrow> Inl Undefined
       | Inl _ \<Rightarrow> Inr (d, None)
       | Inr p \<Rightarrow>
           if do_send then
             (case send e now p of
                (p, Inl _) \<Rightarrow> Inr (d, None)
              | (p, Inr _) \<Rightarrow> Inr (d, Some p))
           else Inr (d, Some p))"

section \<open>Encryption\<close>

definition destination_encrypt ::
    "prims \<Rightarrow> penv \<Rightarrow> u32 \<Rightarrow> rdir \<Rightarrow> bytes \<Rightarrow> bytes \<Rightarrow> bytes \<Rightarrow> destination \<Rightarrow> bytes res" where
  "destination_encrypt c e now dir eph iv b d =
    (if dn_type d = PLAIN then Inr b
     else case (dn_type d, dn_ident d) of
       (SINGLE, Some i) \<Rightarrow> rbind (get_ratchet e now (dn_hash d) dir) (\<lambda>r. identity_encrypt c eph iv b r i)
     | (GROUP, _) \<Rightarrow> Inl Invalid_argument
     | _ \<Rightarrow> Inr b)"

definition destination_decrypt :: "prims \<Rightarrow> bytes \<Rightarrow> destination \<Rightarrow> bytes res" where
  "destination_decrypt c b d =
    (if dn_type d = PLAIN then Inr b
     else case (dn_type d, dn_ident d) of
       (SINGLE, Some i) \<Rightarrow> identity_decrypt c b (dn_ratchets d) i
     | _ \<Rightarrow> Inr [])"

definition destination_sign :: "prims \<Rightarrow> bytes \<Rightarrow> destination \<Rightarrow> bytes res" where
  "destination_sign c b d =
    (case (dn_type d, dn_ident d) of (SINGLE, Some i) \<Rightarrow> identity_sign c b i | _ \<Rightarrow> Inr [])"

text \<open>What \<open>receive\<close> does with a packet: a link request goes to the link layer as it is.\<close>

datatype receive_action = To_link bytes | To_callback bytes | Dropped

definition destination_receive :: "prims \<Rightarrow> packet \<Rightarrow> destination \<Rightarrow> receive_action res" where
  "destination_receive c p d =
    (if pk_packet_type p = LINKREQUEST then Inr (if dn_accept_links d then To_link (pk_data p) else Dropped)
     else rbind (destination_decrypt c (pk_data p) d) (\<lambda>plaintext.
       Inr (if plaintext \<noteq> [] \<and> pk_packet_type p = DATA \<and> dn_packet_cb d then To_callback plaintext
            else Dropped)))"

section \<open>Request handlers\<close>

definition register_request_handler ::
    "prims \<Rightarrow> bytes \<Rightarrow> bool \<Rightarrow> request_policy \<Rightarrow> bytes list \<Rightarrow> destination \<Rightarrow> destination res" where
  "register_request_handler c path has_generator allow allowed d =
    (if path = [] then Inl Invalid_argument
     else if \<not> has_generator then Inl Invalid_argument
     else Inr (d\<lparr>dn_handlers := (dn_handlers d)(truncated_hash c path \<mapsto>
       \<lparr>rh_path = path, rh_allow = allow, rh_allowed = allowed\<rparr>)\<rparr>))"

definition deregister_request_handler :: "prims \<Rightarrow> bytes \<Rightarrow> destination \<Rightarrow> destination \<times> bool" where
  "deregister_request_handler c path d =
    (let h = truncated_hash c path in
     if dn_handlers d h \<noteq> None then (d\<lparr>dn_handlers := (dn_handlers d)(h := None)\<rparr>, True) else (d, False))"

definition find_request_handler :: "bytes \<Rightarrow> destination \<Rightarrow> handler option" where
  "find_request_handler path_hash d = dn_handlers d path_hash"

end
