(* ===== verification/DestProps.thy ===== *)
theory DestProps
  imports Destination
begin

text \<open>
  Properties of destinations: an announce built here is accepted by whoever receives it and tells the
  receiver the right key and ratchet; a ratchet stays usable for its whole window; a destination
  created without an identity announces an address nobody accepts.
\<close>

section \<open>Well-formed identities and destinations\<close>

definition ident_ok :: "prims \<Rightarrow> identity \<Rightarrow> bool" where
  "ident_ok c i \<longleftrightarrow> (\<exists>k sk. length k = 32 \<and> length sk = 32 \<and> iy_prv i = Some k \<and> iy_sig_prv i = Some sk \<and>
     iy_pub i = Some (pr_x_base c k) \<and> iy_pub_bytes i = pr_x_base c k \<and>
     iy_sig_pub i = Some (pr_ed_base c sk) \<and> iy_sig_pub_bytes i = pr_ed_base c sk) \<and>
   iy_hash i = truncated_hash c (get_public_key i)"

definition dest_ok :: "prims \<Rightarrow> destination \<Rightarrow> bool" where
  "dest_ok c d \<longleftrightarrow> dn_type d = SINGLE \<and> dn_direction d = DIR_IN \<and> length (dn_name_hash d) = 10 \<and>
     (\<forall>r \<in> set (dn_ratchets d). length r = 32) \<and>
     (case dn_ident d of None \<Rightarrow> False
      | Some i \<Rightarrow> ident_ok c i \<and> dn_hash d = truncated_hash c (dn_name_hash d @ iy_hash i))"

lemma derive_public_ok:
  assumes "iy_prv i = Some k" "iy_sig_prv i = Some sk" "length k = 32" "length sk = 32"
  shows "ident_ok c (derive_public c k sk i)"
  using assms by (simp add: ident_ok_def derive_public_def update_hashes_def get_public_key_def Let_def)

lemma create_keys_ok: "32 \<le> length r1 \<Longrightarrow> 32 \<le> length r2 \<Longrightarrow> ident_ok c (create_keys c r1 r2 i)"
  by (simp add: create_keys_def derive_public_ok)

lemma load_private_key_ok:
  assumes "length b = 64"
  shows "ident_ok c (fst (load_private_key c r1 r2 b i))" "snd (load_private_key c r1 r2 b i)"
proof -
  have "take 32 b \<noteq> []" "drop 32 b \<noteq> []" using assms by auto
  then have "load_private_key c r1 r2 b i = (derive_public c (take 32 b) (drop 32 b)
      (i\<lparr>iy_prv_bytes := take 32 b, iy_prv := Some (take 32 b), iy_sig_prv_bytes := drop 32 b,
         iy_sig_prv := Some (drop 32 b)\<rparr>), True)"
    using assms
    by (simp add: load_private_key_def x_private_def ed_private_def identity_consts slice_simps Let_def)
  then show "ident_ok c (fst (load_private_key c r1 r2 b i))" "snd (load_private_key c r1 r2 b i)"
    using assms by (simp_all add: derive_public_ok)
qed

lemma destination_new_ok:
  assumes "sha_ok c" "ident_ok c i" "destination_new c r1 r2 (Some i) DIR_IN SINGLE app aspects = Inr d"
  shows "dest_ok c d"
  using assms
  by (auto simp: destination_new_def rbind_eq_Inr address_hash_def dest_ok_def destination_object_def
      name_hash_def slice_simps full_hash_def sha_ok_def identity_consts split: if_splits)

section \<open>Ratchets\<close>

lemma rotate_keeps:
  "dn_type (fst (rotate_ratchets now rr d)) = dn_type d" "dn_direction (fst (rotate_ratchets now rr d)) = dn_direction d"
  "dn_ident (fst (rotate_ratchets now rr d)) = dn_ident d" "dn_hash (fst (rotate_ratchets now rr d)) = dn_hash d"
  "dn_name_hash (fst (rotate_ratchets now rr d)) = dn_name_hash d"
  "dn_ratchets_enabled (fst (rotate_ratchets now rr d)) = dn_ratchets_enabled d"
  "dn_path_responses (fst (rotate_ratchets now rr d)) = dn_path_responses d"
  "dn_default_app_data (fst (rotate_ratchets now rr d)) = dn_default_app_data d"
  by (simp_all add: rotate_ratchets_def Let_def split: sum.splits)

lemma generate_ratchet_eq: "generate_ratchet random = Inr (take 32 random)"
  by (simp add: generate_ratchet_def x_private_def)

lemma rotate_ok:
  assumes "dest_ok c d" "32 \<le> length rr"
  shows "dest_ok c (fst (rotate_ratchets now rr d))"
proof -
  have "\<forall>r \<in> set (dn_ratchets (fst (rotate_ratchets now rr d))). length r = 32"
    using assms by (auto simp: rotate_ratchets_def generate_ratchet_eq dest_ok_def Let_def dest!: in_set_takeD)
  with assms show ?thesis by (auto simp: dest_ok_def rotate_keeps split: option.splits)
qed

text \<open>
  \<open>held d r k\<close>: the ratchet \<open>r\<close>, put at the front at time \<open>t\<close>, has \<open>k\<close> newer ones before it. Every
  rotation is at least an interval after the last one, whatever the clock does in between.
\<close>

definition held :: "secs \<Rightarrow> bytes \<Rightarrow> nat \<Rightarrow> destination \<Rightarrow> bool" where
  "held t r k d \<longleftrightarrow> dn_ratchets_enabled d \<and> k < length (dn_ratchets d) \<and> length (dn_ratchets d) \<le> RATCHET_COUNT \<and>
     dn_ratchets d ! k = r \<and> t + of_nat k * RATCHET_INTERVAL \<le> dn_latest_ratchet_time d"

fun rotations :: "(secs \<times> bytes) list \<Rightarrow> destination \<Rightarrow> destination" where
  "rotations [] d = d"
| "rotations ((now, rr) # ops) d = rotations ops (fst (rotate_ratchets now rr d))"

lemma rotate_held:
  assumes "held t r k d" and "now < t + of_nat RATCHET_COUNT * RATCHET_INTERVAL"
  shows "\<exists>k'. held t r k' (fst (rotate_ratchets now rr d))"
proof (cases "now < dn_latest_ratchet_time d + RATCHET_INTERVAL")
  case True
  then have "fst (rotate_ratchets now rr d) = d"
    using assms(1) by (auto simp: rotate_ratchets_def held_def)
  with assms(1) show ?thesis by auto
next
  case False
  let ?d = "fst (rotate_ratchets now rr d)"
  have on: "dn_ratchets_enabled d" "dn_ratchets d \<noteq> []" using assms(1) by (auto simp: held_def)
  have d: "dn_ratchets ?d = take RATCHET_COUNT (take 32 rr # dn_ratchets d)" "dn_latest_ratchet_time ?d = now"
    using False on by (auto simp: rotate_ratchets_def generate_ratchet_eq Let_def)
  have le: "t + of_nat (Suc k) * RATCHET_INTERVAL \<le> now"
    using assms(1) False by (simp add: held_def algebra_simps)
  then have "of_nat (Suc k) * RATCHET_INTERVAL < of_nat RATCHET_COUNT * RATCHET_INTERVAL"
    using assms(2) by simp
  then have "Suc k < RATCHET_COUNT" by (simp add: RATCHET_INTERVAL_def)
  then have "held t r (Suc k) ?d"
    using assms(1) d le rotate_keeps(6) [of now rr d] by (auto simp: held_def)
  then show ?thesis ..
qed

lemma rotations_held:
  assumes "held t r k d" and "\<forall>(now, rr) \<in> set ops. now < t + of_nat RATCHET_COUNT * RATCHET_INTERVAL"
  shows "\<exists>k'. held t r k' (rotations ops d)"
  using assms
proof (induction ops arbitrary: d k)
  case (Cons op ops)
  obtain now rr where op: "op = (now, rr)" by force
  with Cons.prems obtain k' where "held t r k' (fst (rotate_ratchets now rr d))"
    using rotate_held [of t r k d now rr] by auto
  with Cons.IH Cons.prems(2) op show ?case by simp
qed auto

lemma rotation_held:
  assumes "rotate_ratchets t rr d = (d', True)" "length (dn_ratchets d) \<le> RATCHET_COUNT"
  shows "held t (take 32 rr) 0 d'"
  using assms by (auto simp: rotate_ratchets_def generate_ratchet_eq held_def RATCHET_COUNT_def Let_def
      min_def nth_take split: if_splits)

text \<open>
  C19: a ratchet outlives its advertisement. A ratchet made by a rotation at time \<open>t\<close> is still among those
  \<open>decrypt\<close> tries after any further attempts to rotate, however many and in whatever order their clock
  readings come, as long as none of them is 16 days or more past \<open>t\<close> (\<open>RATCHET_COUNT\<close> times
  \<open>RATCHET_INTERVAL\<close>); and no more than \<open>RATCHET_COUNT\<close> are kept.
\<close>

theorem ratchet_retained:
  assumes "rotate_ratchets t rr d = (d', True)" "length (dn_ratchets d) \<le> RATCHET_COUNT"
    and "\<forall>(now, r) \<in> set ops. now < t + 16 * 24 * 60 * 60"
  shows "take 32 rr \<in> set (dn_ratchets (rotations ops d')) \<and>
    length (dn_ratchets (rotations ops d')) \<le> RATCHET_COUNT"
proof -
  have "of_nat RATCHET_COUNT * RATCHET_INTERVAL = (16 * 24 * 60 * 60 :: secs)"
    by (simp add: RATCHET_COUNT_def RATCHET_INTERVAL_def)
  with assms(3) have "\<forall>(now, r) \<in> set ops. now < t + of_nat RATCHET_COUNT * RATCHET_INTERVAL" by simp
  then obtain k where "held t (take 32 rr) k (rotations ops d')"
    using rotations_held [OF rotation_held [OF assms(1,2)]] by blast
  then show ?thesis using nth_mem [of k "dn_ratchets (rotations ops d')"] by (auto simp: held_def)
qed

definition sample_rotating :: destination where
  "sample_rotating = enable_ratchets [] 0 False (destination_object (Some sample_owner))"

lemma ratchet_retained_witness:
  "replicate 32 1 \<in> set (dn_ratchets (rotations [(50000, replicate 32 2), (100000, replicate 32 3)]
     (fst (rotate_ratchets 100 (replicate 32 1) sample_rotating))))"
proof -
  have "rotate_ratchets 100 (replicate 32 1) sample_rotating =
      (fst (rotate_ratchets 100 (replicate 32 1) sample_rotating), True)"
    by (simp add: sample_rotating_def enable_ratchets_def destination_object_def rotate_ratchets_def
        generate_ratchet_eq Let_def)
  moreover have "length (dn_ratchets sample_rotating) \<le> RATCHET_COUNT"
    by (simp add: sample_rotating_def enable_ratchets_def destination_object_def)
  ultimately show ?thesis
    using ratchet_retained [of 100 "replicate 32 1" sample_rotating
        "fst (rotate_ratchets 100 (replicate 32 1) sample_rotating)"
        "[(50000, replicate 32 2), (100000, replicate 32 3)]"] by simp
qed

section \<open>Announces that are accepted\<close>

definition effective_app_data :: "bytes \<Rightarrow> destination \<Rightarrow> bytes" where
  "effective_app_data app d = (if app = [] \<and> dn_default_app_data d \<noteq> [] then dn_default_app_data d else app)"

lemma announce_data_layout:
  assumes "dn_ident d = Some i" "ident_ok c i"
  shows "\<exists>sk. length sk = 32 \<and> iy_sig_pub_bytes i = pr_ed_base c sk \<and>
    announce_data c now rnd app ratchet i d =
      Inr (announce_body (get_public_key i) (dn_name_hash d) (take 5 rnd @ time_bytes now) ratchet
             (pr_ed_sign c sk (dn_hash d @ get_public_key i @ dn_name_hash d @ (take 5 rnd @ time_bytes now) @
                ratchet @ effective_app_data app d)) (effective_app_data app d), ratchet \<noteq> [])"
  using assms
  by (auto simp: ident_ok_def announce_data_def identity_sign_def effective_app_data_def announce_body_def Let_def)

lemma rotate_nonempty: "dn_ratchets_enabled d \<Longrightarrow> dn_ratchets (fst (rotate_ratchets now rr d)) \<noteq> []"
  by (simp add: rotate_ratchets_def generate_ratchet_eq Let_def RATCHET_COUNT_def)

lemma latest_ratchet_head:
  assumes "dest_ok c d" "dn_ratchets_enabled d" "dn_ratchets d \<noteq> []" "dh_ok c"
  shows "latest_ratchet c d = pr_x_base c (hd (dn_ratchets d))" "length (latest_ratchet c d) = 32"
proof -
  have l: "length (hd (dn_ratchets d)) = 32" using assms(1,3) by (simp add: dest_ok_def)
  then have "hd (dn_ratchets d) \<noteq> []" by auto
  with l assms(2,3) show 1: "latest_ratchet c d = pr_x_base c (hd (dn_ratchets d))"
    by (simp add: latest_ratchet_def ratchet_public_bytes_def x_private_def)
  from l assms(4) show "length (latest_ratchet c d) = 32" unfolding 1 dh_ok_def by blast
qed

text \<open>What the receiver unpacks of an announce packet.\<close>

lemma announce_wire:
  assumes "length (dn_hash d) = 16" "length b \<le> MDU"
  shows "\<exists>p q r. announce_packet pr b rt d = Inr p \<and> pack e p = (q, None) \<and>
    unpack e (packet_from_raw (pk_raw q)) = (r, True) \<and> pk_packet_type r = ANNOUNCE \<and>
    pk_context_flag r = (if rt then FLAG_SET else FLAG_UNSET) \<and> pk_dest_hash r = dn_hash d \<and> pk_data r = b"
proof -
  obtain p where p: "announce_packet pr b rt d = Inr p" "packable p (dest_of d)" "pk_packet_type p = ANNOUNCE"
      "pk_context_flag p = (if rt then FLAG_SET else FLAG_UNSET)" "pk_data p = b" "pk_header_type p = HEADER_1"
      "pk_context p \<noteq> LRPROOF" "pk_mtu p = MTU" "pk_header p = []"
    using assms
    by (cases pr; cases rt) (simp_all add: announce_packet_def packet_new_def packable_def dest_of_def
        packet_object_def get_packed_flags_def wire_transport_def Let_def)
  have d: "pk_dest p = Some (dest_of d)" and l: "length (de_hash (dest_of d)) = 16"
    using p(2,7) by (simp_all add: packable_def)
  let ?h = "[pk_flags p, pk_hops p] @ de_hash (dest_of d)"
  have fit: "length ((?h @ [pk_context p]) @ b) \<le> unat MTU" using assms(2) l by (simp add: const_values)
  have pk: "pack e p = pack_finish e (p\<lparr>pk_dest_hash := de_hash (dest_of d), pk_encrypted := False,
      pk_header := ?h, pk_ciphertext := b\<rparr>)"
    using p(3,5-7,9) d by (simp add: pack_def plain_payload_def Let_def)
  have "\<exists>q. pack e p = (q, None) \<and> pk_ciphertext q = b"
    unfolding pk using fit p(6,8)
    by (simp add: pack_finish_def update_hash_def get_hash_def hashable_part_def Let_def)
  then obtain q where q: "pack e p = (q, None)" "pk_ciphertext q = b" by blast
  obtain r where "unpack e (packet_from_raw (pk_raw q)) = (r, True)" "pk_packet_type r = ANNOUNCE"
      "pk_context_flag r = (if rt then FLAG_SET else FLAG_UNSET)" "pk_dest_hash r = dn_hash d" "pk_data r = b"
    using pack_unpack_fields [OF p(2) q(1)] p(3,4,7) q(2) by (auto simp: wire_dest_hash_def dest_of_def)
  with p(1) q(1) show ?thesis by blast
qed

text \<open>Nothing but the signature can fail in a fresh announce.\<close>

lemma announce_fresh:
  assumes "dest_ok c d" "dn_ident d = Some i" "32 \<le> length rrnd" "dh_ok c"
  shows "\<exists>d' sk. announce_built c now rnd rrnd app False tag d =
      (d', Inr (announce_body (get_public_key i) (dn_name_hash d) (take 5 rnd @ time_bytes now) (latest_ratchet c d')
             (pr_ed_sign c sk (dn_hash d @ get_public_key i @ dn_name_hash d @ (take 5 rnd @ time_bytes now) @
                latest_ratchet c d' @ effective_app_data app d)) (effective_app_data app d),
             dn_ratchets_enabled d)) \<and>
    length sk = 32 \<and> iy_sig_pub_bytes i = pr_ed_base c sk \<and> dn_hash d' = dn_hash d \<and>
    dn_type d' = SINGLE \<and>
    length (latest_ratchet c d') = (if dn_ratchets_enabled d then 32 else 0) \<and>
    (dn_ratchets_enabled d \<longrightarrow> dn_ratchets d' \<noteq> [] \<and> latest_ratchet c d' = pr_x_base c (hd (dn_ratchets d')))"
proof -
  let ?e = "expire_responses now d"
  have e: "dest_ok c ?e" "dn_ident ?e = Some i" "dn_hash ?e = dn_hash d" "dn_name_hash ?e = dn_name_hash d"
      "dn_ratchets_enabled ?e = dn_ratchets_enabled d" "effective_app_data app ?e = effective_app_data app d"
    using assms(1,2) by (simp_all add: expire_responses_def dest_ok_def effective_app_data_def)
  define f where "f = (if dn_ratchets_enabled ?e then fst (rotate_ratchets now rrnd ?e) else ?e)"
  have f: "dest_ok c f" "dn_ident f = Some i" "dn_hash f = dn_hash d" "dn_name_hash f = dn_name_hash d"
      "dn_ratchets_enabled f = dn_ratchets_enabled d" "effective_app_data app f = effective_app_data app d"
    using e rotate_ok [OF e(1) assms(3), of now]
    by (simp_all add: f_def rotate_keeps effective_app_data_def split: if_splits)
  have ne: "dn_ratchets f \<noteq> []" if "dn_ratchets_enabled d"
    using rotate_nonempty [of ?e now rrnd] that e(5) by (simp add: f_def)
  define r where "r = latest_ratchet c f"
  have off: "r = []" if "\<not> dn_ratchets_enabled d" using that f(5) by (simp add: r_def latest_ratchet_def)
  have on: "length r = 32" "r = pr_x_base c (hd (dn_ratchets f))" if "dn_ratchets_enabled d"
    using latest_ratchet_head [OF f(1) _ ne [OF that] assms(4)] that f(5) by (simp_all add: r_def)
  have io: "ident_ok c i" using f(1,2) by (simp add: dest_ok_def)
  from announce_data_layout [OF f(2) io, of now rnd app r] obtain sk where sk: "length sk = 32"
      "iy_sig_pub_bytes i = pr_ed_base c sk"
      "announce_data c now rnd app r i f = Inr (announce_body (get_public_key i) (dn_name_hash d)
         (take 5 rnd @ time_bytes now) r (pr_ed_sign c sk (dn_hash d @ get_public_key i @ dn_name_hash d @
           (take 5 rnd @ time_bytes now) @ r @ effective_app_data app d)) (effective_app_data app d), r \<noteq> [])"
    unfolding f(3,4,6) by blast
  define d' where "d' = f\<lparr>dn_path_responses := (if dn_path_responses f tag = None
      then (dn_path_responses f)(tag \<mapsto> (now, fst (projr (announce_data c now rnd app r i f))))
      else dn_path_responses f)\<rparr>"
  have same: "latest_ratchet c d' = r" "dn_ratchets d' = dn_ratchets f" "dn_hash d' = dn_hash d" "dn_type d' = SINGLE"
    using f(1,3) by (simp_all add: d'_def r_def latest_ratchet_def dest_ok_def)
  have flag: "(r \<noteq> []) = dn_ratchets_enabled d" using off on(1) by auto
  have rat: "(if dn_ratchets_enabled f then latest_ratchet c f else []) = r"
    using off f(5) by (simp add: r_def)
  have "announce_built c now rnd rrnd app False tag d =
      (d', Inr (fst (projr (announce_data c now rnd app r i f)), dn_ratchets_enabled d))"
    unfolding announce_built_def Let_def f_def [symmetric] rat
    by (simp add: f(2) sk(3) d'_def flag)
  then show ?thesis
    using sk same off on ne by (intro exI [of _ d'] exI [of _ sk]) (auto simp: sk(3))
qed

text \<open>
  C9: an announce of a SINGLE destination created with an identity (its address is the hash of its name hash and
  that identity's hash), with application data that fits the packet, reaches its receivers intact. Packed here, carried as bytes
  and unpacked there, it passes the receiver's checks whenever the receiver's directory holds no
  other key for the address, and what the receiver reads from it is the destination's hash, public key
  and application data and the public half of the ratchet that \<open>decrypt\<close> here tries first.
\<close>

theorem announce_accepted:
  assumes laws: "sig_ok c" "sha_ok c" "dh_ok c"
    and d: "dest_ok c d" "dn_ident d = Some i" "5 \<le> length rnd" "32 \<le> length rrnd"
    and size: "length (effective_app_data app d) + 180 \<le> MDU"
    and known: "case dir_lookup dir (dn_hash d) of
      Some k \<Rightarrow> has_pubkey k \<longrightarrow> d_pubkey k = get_public_key i | None \<Rightarrow> True"
  shows "\<exists>d' p q r. destination_announce c e now rnd rrnd app False tag False d = Inr (d', Some p) \<and>
    pack e p = (q, None) \<and> unpack e (packet_from_raw (pk_raw q)) = (r, True) \<and>
    validate_announce c dir r \<and> pk_dest_hash r = dn_hash d \<and> announce_key r = get_public_key i \<and>
    announce_app_data r = effective_app_data app d \<and>
    (if dn_ratchets_enabled d
     then dn_ratchets d' \<noteq> [] \<and> announce_ratchet r = pr_x_base c (hd (dn_ratchets d'))
     else announce_ratchet r = [])"
proof -
  obtain d' sk b where built: "announce_built c now rnd rrnd app False tag d = (d', Inr (b, dn_ratchets_enabled d))"
    and b: "b = announce_body (get_public_key i) (dn_name_hash d) (take 5 rnd @ time_bytes now) (latest_ratchet c d')
             (pr_ed_sign c sk (dn_hash d @ get_public_key i @ dn_name_hash d @ (take 5 rnd @ time_bytes now) @
                latest_ratchet c d' @ effective_app_data app d)) (effective_app_data app d)"
    and sk: "length sk = 32" "iy_sig_pub_bytes i = pr_ed_base c sk"
    and d': "dn_hash d' = dn_hash d"
      "length (latest_ratchet c d') = (if dn_ratchets_enabled d then 32 else 0)"
      "dn_ratchets_enabled d \<longrightarrow> dn_ratchets d' \<noteq> [] \<and> latest_ratchet c d' = pr_x_base c (hd (dn_ratchets d'))"
    using announce_fresh [OF d(1,2,4) laws(3), of now rnd app tag] by blast
  let ?sig = "pr_ed_sign c sk (dn_hash d @ get_public_key i @ dn_name_hash d @ (take 5 rnd @ time_bytes now) @
                latest_ratchet c d' @ effective_app_data app d)"
  have io: "ident_ok c i" and dh: "dn_hash d = truncated_hash c (dn_name_hash d @ iy_hash i)"
      and nl: "length (dn_name_hash d) = 10"
    using d(1,2) by (simp_all add: dest_ok_def)
  have lens: "length (dn_hash d) = 16" "length ?sig = 64" "length (iy_sig_pub_bytes i) = 32"
      "length (iy_pub_bytes i) = 32" "length (take 5 rnd @ time_bytes now) = 10"
    using laws io sk dh d(3)
    by (auto simp: truncated_hash_def full_hash_def slice_simps sha_ok_def identity_consts sig_ok_def
        ident_ok_def dh_ok_def time_bytes_def)
  then have "length b \<le> MDU" using size d'(2) nl by (simp add: b announce_body_def get_public_key_def)
  then obtain p q r where pqr: "announce_packet False b (dn_ratchets_enabled d) d' = Inr p" "pack e p = (q, None)"
      "unpack e (packet_from_raw (pk_raw q)) = (r, True)" "pk_packet_type r = ANNOUNCE"
      "pk_context_flag r = (if dn_ratchets_enabled d then FLAG_SET else FLAG_UNSET)"
      "pk_dest_hash r = dn_hash d" "pk_data r = b"
    using announce_wire [of d' b False "dn_ratchets_enabled d" e] lens(1) d'(1) by auto
  have "length (get_public_key i) = 64" using lens by (simp add: get_public_key_def)
  note fields = announce_fields [where p = r, OF pqr(7) [unfolded b] this nl lens(5,2)]
  have fl: "length (latest_ratchet c d') = (if pk_context_flag r = FLAG_SET then 32 else 0)"
    using d'(2) pqr(5) by simp
  have key: "drop 32 (get_public_key i) = iy_sig_pub_bytes i" using lens by (simp add: get_public_key_def)
  have "ed_verify c (iy_sig_pub_bytes i) ?sig
      (dn_hash d @ get_public_key i @ dn_name_hash d @ (take 5 rnd @ time_bytes now) @
       latest_ratchet c d' @ effective_app_data app d)"
    using laws(1) sk lens by (simp add: ed_verify_def sig_ok_def)
  moreover have "iy_hash i = truncated_hash c (get_public_key i)" using io by (simp add: ident_ok_def)
  moreover have "rdir_peek_entry (dn_hash d) dir = Some k \<longrightarrow> e_has_pubkey k \<longrightarrow> e_pubkey k = get_public_key i" for k
    using known by (auto simp: rdir_peek_entry_def fill_entry_def split: option.splits)
  moreover have "pk_context_flag r = FLAG_SET \<longrightarrow> latest_ratchet c d' \<noteq> []" using fl by auto
  ultimately have "validate_announce c dir r"
    using pqr(4,6) dh by (simp add: validate_announce_iff fields [OF fl] key)
  moreover have "destination_announce c e now rnd rrnd app False tag False d = Inr (d', Some p)"
    using d(1) pqr(1) built by (simp add: destination_announce_def dest_ok_def)
  ultimately show ?thesis
    using pqr fields [OF fl] d'(2,3) by (intro exI [of _ d'] exI [of _ p] exI [of _ q] exI [of _ r]) auto
qed

definition sample_hosted :: destination where
  "sample_hosted = enable_ratchets [] 0 False (projr (destination_new toy_prims [] [] (Some sample_owner)
     DIR_IN SINGLE [108, 120] [100]))"

lemma sample_owner_ok: "ident_ok toy_prims sample_owner"
  unfolding sample_owner_def by (rule load_private_key_ok) simp

lemma sample_hosted_ok: "dest_ok toy_prims sample_hosted" "dn_ident sample_hosted = Some sample_owner"
  "dn_ratchets_enabled sample_hosted"
proof -
  define d where "d = projr (destination_new toy_prims [] [] (Some sample_owner) DIR_IN SINGLE [108, 120] [100])"
  have d: "destination_new toy_prims [] [] (Some sample_owner) DIR_IN SINGLE [108, 120] [100] = Inr d"
    by (simp add: d_def destination_new_def expand_name_def address_hash_def name_hash_def Let_def)
  from destination_new_ok [OF toy_laws(6) sample_owner_ok d] have ok: "dest_ok toy_prims d" .
  have i: "dn_ident d = Some sample_owner"
    using d by (auto simp: destination_new_def rbind_eq_Inr destination_object_def Let_def split: if_splits)
  show "dest_ok toy_prims sample_hosted" "dn_ident sample_hosted = Some sample_owner"
      "dn_ratchets_enabled sample_hosted"
    using ok i unfolding sample_hosted_def d_def [symmetric] by (simp_all add: enable_ratchets_def dest_ok_def)
qed

lemma announce_accepted_witness:
  "\<exists>d' p q r. destination_announce toy_prims sample_env 100 (replicate 8 1) (replicate 32 2) [42] False [] False sample_hosted =
      Inr (d', Some p) \<and> pack sample_env p = (q, None) \<and>
    unpack sample_env (packet_from_raw (pk_raw q)) = (r, True) \<and>
    validate_announce toy_prims sample_rdir r \<and> announce_app_data r = [42] \<and>
    announce_ratchet r = hd (dn_ratchets d')"
proof -
  have known: "dir_lookup sample_rdir (dn_hash sample_hosted) = None" by code_simp
  have size: "length (effective_app_data [42] sample_hosted) + 180 \<le> MDU"
    by (simp add: effective_app_data_def const_values)
  have base: "pr_x_base toy_prims = id" by (simp add: toy_prims_def)
  have app: "effective_app_data [42] sample_hosted = [42]" by (simp add: effective_app_data_def)
  from announce_accepted [OF toy_laws(5,6,3) sample_hosted_ok(1,2) _ _ size, of "replicate 8 1" "replicate 32 2"
      sample_rdir sample_env 100 "[]"]
  show ?thesis using known sample_hosted_ok(3) unfolding app base by auto
qed

section \<open>A destination without an identity\<close>

lemma destination_new_ident:
  "destination_new c r1 r2 None DIR_IN SINGLE app aspects = Inr d \<Longrightarrow>
   dn_ident d = Some (create_keys c r1 r2 identity_object)"
  by (auto simp: destination_new_def rbind_eq_Inr destination_object_def Let_def split: if_splits)

lemma destination_new_plain:
  "destination_new c r1 r2 None DIR_IN SINGLE app aspects = Inr d \<Longrightarrow> \<not> dn_ratchets_enabled d"
  by (auto simp: destination_new_def rbind_eq_Inr destination_object_def Let_def split: if_splits)

lemma destination_new_name:
  "destination_new c r1 r2 None DIR_IN SINGLE app aspects = Inr d \<Longrightarrow>
   name_hash c app aspects = Inr (dn_name_hash d)"
  by (auto simp: destination_new_def rbind_eq_Inr destination_object_def Let_def split: if_splits)

text \<open>
  C36: a destination created without an identity announces itself in vain. Its address is the hash of
  the name with the new identity's hex hash appended, the name hash it announces is of the
  name without, so a receiver computes another address and refuses the announce, unless the
  two hashes collide.
\<close>

theorem fresh_identity_refused:
  assumes laws: "sig_ok c" "sha_ok c" "dh_ok c" and rnd: "32 \<le> length r1" "32 \<le> length r2" "5 \<le> length rnd"
    and d: "destination_new c r1 r2 None DIR_IN SINGLE app aspects = Inr d" "dn_ident d = Some i"
    and nh: "name_hash c app (aspects @ DOT # iy_hexhash i) = Inr nh"
      "truncated_hash c (nh @ iy_hash i) \<noteq> truncated_hash c (dn_name_hash d @ iy_hash i)"
    and built: "announce_built c now rnd rrnd app_data False tag d = (d', Inr (b, ratcheted))"
    and r: "pk_dest_hash r = dn_hash d" "pk_data r = b" "pk_context_flag r = (if ratcheted then FLAG_SET else FLAG_UNSET)"
  shows "\<not> validate_announce c dir r"
proof -
  have i: "i = create_keys c r1 r2 identity_object" using destination_new_ident [OF d(1)] d(2) by simp
  then have io: "ident_ok c i" using create_keys_ok [OF rnd(1,2)] by simp
  have h: "dn_hash d = truncated_hash c (nh @ iy_hash i)" "\<not> dn_ratchets_enabled d" "length (dn_name_hash d) = 10"
    using d nh(1) i laws(2)
    by (auto simp: destination_new_def rbind_eq_Inr address_hash_def destination_object_def Let_def name_hash_def
        slice_simps full_hash_def sha_ok_def identity_consts split: if_splits)
  let ?e = "expire_responses now d"
  have e: "dn_ident ?e = Some i" "\<not> dn_ratchets_enabled ?e" "dn_name_hash ?e = dn_name_hash d"
    using d(2) h(2) by (simp_all add: expire_responses_def)
  obtain sk where sk: "length sk = 32" "announce_data c now rnd app_data [] i ?e =
      Inr (announce_body (get_public_key i) (dn_name_hash d) (take 5 rnd @ time_bytes now) []
             (pr_ed_sign c sk (dn_hash ?e @ get_public_key i @ dn_name_hash d @ (take 5 rnd @ time_bytes now) @
                [] @ effective_app_data app_data ?e)) (effective_app_data app_data ?e), [] \<noteq> ([] :: bytes))"
    using announce_data_layout [OF e(1) io, of now rnd app_data "[]"] unfolding e(3) by blast
  have b: "b = announce_body (get_public_key i) (dn_name_hash d) (take 5 rnd @ time_bytes now) []
      (pr_ed_sign c sk (dn_hash ?e @ get_public_key i @ dn_name_hash d @ (take 5 rnd @ time_bytes now) @
        [] @ effective_app_data app_data ?e)) (effective_app_data app_data ?e)" and rt: "\<not> ratcheted"
    using built e sk(2) by (auto simp: announce_built_def Let_def)
  have lens: "length (pr_ed_sign c sk m) = 64" "length (get_public_key i) = 64"
      "length (take 5 rnd @ time_bytes now) = 10" for m
    using laws io sk(1) rnd(3) by (auto simp: sig_ok_def ident_ok_def dh_ok_def get_public_key_def time_bytes_def)
  have "announce_key r = get_public_key i" "announce_name_hash r = dn_name_hash d"
    using announce_fields(1,2) [where p = r, OF r(2) [unfolded b] lens(2) h(3) lens(3,1)] r(3) rt by simp_all
  moreover have "iy_hash i = truncated_hash c (get_public_key i)" using io by (simp add: ident_ok_def)
  ultimately show ?thesis using nh(2) h(1) r(1) by (simp add: validate_announce_iff)
qed

lemma announce_built_plain:
  assumes "dn_ident d = Some i" "ident_ok c i" "\<not> dn_ratchets_enabled d"
  shows "\<exists>d' b. announce_built c now rnd rrnd app False tag d = (d', Inr (b, False))"
proof -
  have e: "dn_ident (expire_responses now d) = Some i" "\<not> dn_ratchets_enabled (expire_responses now d)"
    using assms by (simp_all add: expire_responses_def)
  obtain b where "announce_data c now rnd app [] i (expire_responses now d) = Inr (b, False)"
    using announce_data_layout [OF e(1) assms(2), of now rnd app "[]"] by auto
  with e show ?thesis by (simp add: announce_built_def Let_def)
qed

text \<open>A hash that tells the two names apart.\<close>

definition mix_prims :: prims where
  "mix_prims = toy_prims\<lparr>pr_sha256 := \<lambda>b. replicate 32 (sum_list b)\<rparr>"

lemma mix_laws: "sig_ok mix_prims" "sha_ok mix_prims" "dh_ok mix_prims"
  using toy_laws(3,5) by (simp_all add: mix_prims_def sig_ok_def dh_ok_def sha_ok_def)

definition sample_orphan :: destination where
  "sample_orphan = projr (destination_new mix_prims (replicate 32 1) (replicate 32 2) None DIR_IN SINGLE [108] [100])"

lemma fresh_identity_refused_witness:
  "\<not> validate_announce mix_prims sample_rdir (packet_object\<lparr>pk_packet_type := ANNOUNCE,
     pk_dest_hash := dn_hash sample_orphan,
     pk_data := fst (projr (snd (announce_built mix_prims 100 (replicate 5 1) [] [] False [] sample_orphan)))\<rparr>)"
proof -
  let ?i = "create_keys mix_prims (replicate 32 1) (replicate 32 2) identity_object"
  have new: "destination_new mix_prims (replicate 32 1) (replicate 32 2) None DIR_IN SINGLE [108] [100] =
      Inr sample_orphan"
    by (simp add: sample_orphan_def destination_new_def expand_name_def address_hash_def name_hash_def Let_def)
  then have i: "dn_ident sample_orphan = Some ?i" by (rule destination_new_ident)
  have hash: "truncated_hash mix_prims x = replicate 16 (sum_list x)"
      "bleft (NAME_HASH_LENGTH div 8) (full_hash mix_prims x) = replicate 10 (sum_list x)" for x
    by (simp_all add: truncated_hash_def full_hash_def mix_prims_def identity_consts slice_simps)
  have h: "iy_hash ?i = replicate 16 0x60" "iy_hexhash ?i = to_hex False (replicate 16 0x60)"
    by (simp_all add: create_keys_def derive_public_def update_hashes_def get_public_key_def hash Let_def
        sum_list_replicate) (simp_all add: mix_prims_def toy_prims_def sum_list_replicate)
  have "hex_from_byte False 0x60 = [54, 48]" by code_simp
  moreover have "sum_list (concat (replicate n xs)) = of_nat n * sum_list xs" for n and xs :: bytes
    by (induction n) (simp_all add: algebra_simps)
  ultimately have hex: "sum_list (to_hex False (replicate 16 0x60)) = 96" by (simp add: to_hex_def)
  have nh: "name_hash mix_prims [108] ([100] @ DOT # iy_hexhash ?i) = Inr (replicate 10 (108 + (46 + (100 + (46 + 96)))))"
    by (simp add: name_hash_def expand_name_def hash h hex)
  have own: "dn_name_hash sample_orphan = replicate 10 (108 + (46 + 100))"
    using destination_new_name [OF new] by (simp add: name_hash_def expand_name_def hash)
  have diff: "truncated_hash mix_prims (replicate 10 (108 + (46 + (100 + (46 + 96)))) @ iy_hash ?i) \<noteq>
      truncated_hash mix_prims (dn_name_hash sample_orphan @ iy_hash ?i)"
    by (simp add: hash own h sum_list_replicate)
  have "ident_ok mix_prims ?i" by (rule create_keys_ok) simp_all
  moreover have "\<not> dn_ratchets_enabled sample_orphan" by (rule destination_new_plain [OF new])
  ultimately obtain d' b where
      built: "announce_built mix_prims 100 (replicate 5 1) [] [] False [] sample_orphan = (d', Inr (b, False))"
    using announce_built_plain [OF i] by blast
  have "\<not> validate_announce mix_prims sample_rdir (packet_object\<lparr>pk_packet_type := ANNOUNCE,
      pk_dest_hash := dn_hash sample_orphan, pk_data := b\<rparr>)"
    by (rule fresh_identity_refused [OF mix_laws _ _ _ new i nh diff built])
      (simp_all add: packet_object_def)
  then show ?thesis by (simp add: built)
qed

end
