(* ===== verification/LinkBase.thy ===== *)
theory LinkBase
  imports Destination Receipt MsgPackObj Resource
begin

text \<open>
  Links, first part: the state of a \<open>Link\<close> and everything that does not depend on an incoming packet
  of an established link (\<open>Link.cpp\<close>, \<open>Link.h\<close>, \<open>LinkData.h\<close>).

  The record extends the packet layer's view \<open>lnk\<close> of a link, so a link sends through the packet model
  with its own token as the encryption the packet layer takes as a parameter. What a link does to the
  rest of the program is appended to \<open>lk_out\<close>: packets handed over, entries in the transport's
  tables, callbacks. An application's callback may change the link it is given; the commands it may run
  when a link is established are the list \<open>lv_app\<close>. The other callbacks are recorded, not run.
  Sets of resources and requests, ordered by address in the code, are lists in that order.
\<close>

section \<open>Constants\<close>

definition ECPUBSIZE :: nat where "ECPUBSIZE = 32 + 32"
definition LINK_MTU_SIZE :: nat where "LINK_MTU_SIZE = 3"
definition ESTABLISHMENT_TIMEOUT_PER_HOP :: nat where "ESTABLISHMENT_TIMEOUT_PER_HOP = 6"
definition TRAFFIC_TIMEOUT_FACTOR :: u8 where "TRAFFIC_TIMEOUT_FACTOR = 6"
definition KEEPALIVE_MAX_RTT :: secs where "KEEPALIVE_MAX_RTT = 1.75"
definition KEEPALIVE_TIMEOUT_FACTOR :: nat where "KEEPALIVE_TIMEOUT_FACTOR = 4"
definition STALE_GRACE :: secs where "STALE_GRACE = 5"
definition KEEPALIVE_MAX :: secs where "KEEPALIVE_MAX = 360"
definition KEEPALIVE_MIN :: secs where "KEEPALIVE_MIN = 5"
definition STALE_FACTOR :: u16 where "STALE_FACTOR = 2"
definition MTU_BYTEMASK :: u32 where "MTU_BYTEMASK = 0x1FFFFF"
definition MODE_BYTEMASK :: u32 where "MODE_BYTEMASK = 0xE0"
definition RTT_SEND_ALLOWANCE :: secs where "RTT_SEND_ALLOWANCE = 0.02"
definition RESPONSE_MAX_GRACE_TIME :: nat where "RESPONSE_MAX_GRACE_TIME = 10"

abbreviation (input) "LRRTT \<equiv> 0xfe :: u8"
abbreviation (input) "LINKCLOSE \<equiv> 0xfc :: u8"
abbreviation (input) "LINKIDENTIFY \<equiv> 0xfb :: u8"

text \<open>The link modes are the values 0 to 7 of three bits on the wire; one is enabled.\<close>

abbreviation (input) "MODE_AES128_CBC_LINK \<equiv> 0 :: u8"
abbreviation (input) "MODE_AES256_CBC_LINK \<equiv> 1 :: u8"

definition ENABLED_MODES :: "u8 set" where "ENABLED_MODES = {MODE_AES256_CBC_LINK}"
definition MODE_DEFAULT :: u8 where "MODE_DEFAULT = MODE_AES256_CBC_LINK"

lemmas link_consts = ECPUBSIZE_def LINK_MTU_SIZE_def ESTABLISHMENT_TIMEOUT_PER_HOP_def
  TRAFFIC_TIMEOUT_FACTOR_def KEEPALIVE_MAX_RTT_def KEEPALIVE_TIMEOUT_FACTOR_def STALE_GRACE_def
  KEEPALIVE_MAX_def KEEPALIVE_MIN_def STALE_FACTOR_def SIGLENGTH_def ENABLED_MODES_def MODE_DEFAULT_def
  RTT_SEND_ALLOWANCE_def RESPONSE_MAX_GRACE_TIME_def TRUNCATED_HASHLENGTH_def

section \<open>State\<close>

datatype teardown_reason = TEARDOWN_NONE | TIMEOUT | INITIATOR_CLOSED | DESTINATION_CLOSED

datatype resource_strategy = ACCEPT_NONE | ACCEPT_APP | ACCEPT_ALL

datatype request_status = RQ_FAILED | RQ_SENT | RQ_DELIVERED | RQ_RECEIVING | RQ_READY

record request_receipt =
  rq_hash :: bytes
  rq_receipt :: "receipt option"
  rq_has_resource :: bool
  rq_request_id :: bytes
  rq_request_size :: nat
  rq_started_at :: secs
  rq_sent_at :: secs
  rq_concluded_at :: secs
  rq_response_concluded_at :: secs
  rq_timeout :: secs
  rq_response :: bytes
  rq_response_size :: nat
  rq_response_transfer_size :: nat
  rq_progress :: rat
  rq_status :: request_status
  rq_response_cb :: bool
  rq_failed_cb :: bool
  rq_progress_cb :: bool

datatype lout =
    Sent packet
  | Registered
  | Activated
  | Alive bytes
  | Owner_established
  | Established
  | Closed_called
  | Delivered bytes
  | Identified identity
  | Identity_proof packet
  | To_channel bytes
  | Asked_app adv
  | Repaired
  | Repair_helped
  | Response_called request_receipt
  | Failed_called request_receipt
  | Progress_called request_receipt

record link = lnk +
  lk_mode :: u8
  lk_initiator :: bool
  lk_dest :: "destination option"
  lk_owner :: "destination option"
  lk_prv :: "bytes option"
  lk_pub_bytes :: bytes
  lk_sig_prv :: "bytes option"
  lk_sig_pub_bytes :: bytes
  lk_peer_pub_bytes :: bytes
  lk_shared_key :: bytes
  lk_derived_key :: bytes
  lk_token :: "token option"
  lk_remote :: "identity option"
  lk_iface :: "nat option"
  lk_expected_hops :: u8
  lk_request_hops :: u8
  lk_request_time :: secs
  lk_activated_at :: secs
  lk_proof_sent_at :: secs
  lk_proof_repaired :: bool
  lk_last_inbound :: secs
  lk_last_keepalive :: secs
  lk_last_data :: secs
  lk_stale_deadline :: secs
  lk_keepalive :: u16
  lk_stale_time :: u16
  lk_rx :: u16
  lk_rxbytes :: u16
  lk_establishment_timeout :: secs
  lk_establishment_cost :: u16
  lk_establishment_rate :: secs
  lk_reason :: teardown_reason
  lk_strategy :: resource_strategy
  lk_channel :: bool
  lk_incoming :: "resource list"
  lk_outgoing :: "resource list"
  lk_pending :: "request_receipt list"
  lk_established_cb :: bool
  lk_closed_cb :: bool
  lk_packet_cb :: bool
  lk_identified_cb :: bool
  lk_resource_cb :: bool
  lk_concluded_cb :: bool
  lk_out :: "lout list"

definition link_object :: "destination option \<Rightarrow> destination option \<Rightarrow> link" where
  "link_object dst owner = \<lparr>ln_id = [], ln_status = PENDING, ln_mtu = MTU, ln_mdu = 0, ln_rtt = 0,
     ln_ttf = TRAFFIC_TIMEOUT_FACTOR, ln_last_outbound = 0, ln_last_proof = 0, ln_tx = 0, ln_txbytes = 0,
     ln_peer_sig_pub = [], lk_mode = MODE_DEFAULT, lk_initiator = False, lk_dest = dst, lk_owner = owner,
     lk_prv = None, lk_pub_bytes = [], lk_sig_prv = None, lk_sig_pub_bytes = [], lk_peer_pub_bytes = [],
     lk_shared_key = [], lk_derived_key = [], lk_token = None, lk_remote = None, lk_iface = None,
     lk_expected_hops = 0, lk_request_hops = 0, lk_request_time = 0, lk_activated_at = 0,
     lk_proof_sent_at = 0, lk_proof_repaired = False, lk_last_inbound = 0, lk_last_keepalive = 0,
     lk_last_data = 0, lk_stale_deadline = 0, lk_keepalive = 360, lk_stale_time = 720, lk_rx = 0,
     lk_rxbytes = 0, lk_establishment_timeout = 0, lk_establishment_cost = 0, lk_establishment_rate = 0,
     lk_reason = TEARDOWN_NONE, lk_strategy = ACCEPT_NONE, lk_channel = False, lk_incoming = [],
     lk_outgoing = [], lk_pending = [], lk_established_cb = False, lk_closed_cb = False,
     lk_packet_cb = False, lk_identified_cb = False, lk_resource_cb = False, lk_concluded_cb = False,
     lk_out = []\<rparr>"

text \<open>The commands an application runs from its established callback.\<close>

datatype app_cmd =
    App_packet_cb bool
  | App_closed_cb bool
  | App_identified_cb bool
  | App_resource_cb bool
  | App_concluded_cb bool
  | App_strategy resource_strategy
  | App_channel
  | App_teardown

text \<open>
  The world of one operation: the primitives, the packet and resource layers' environments, the clock,
  the random bytes of the \<open>n\<close>-th output, the random keys of a new link, whether the build discovers
  MTUs, the next hop's hardware MTU, the wait before a handshake repair, whether the owner has an
  established callback and what it does, the conversions between seconds and double bit patterns
  (\<open>None\<close> for NaN), the request handler's generator, the application's word on a resource and on
  proving a packet, the random bytes of a new resource, and the recursion the stack allows.
\<close>

record lenv =
  lv_prims :: prims
  lv_penv :: penv
  lv_renv :: renv
  lv_now :: secs
  lv_random :: "nat \<Rightarrow> bytes"
  lv_key :: bytes
  lv_sig_key :: bytes
  lv_discovery :: bool
  lv_hw_mtu :: "bytes \<Rightarrow> u16"
  lv_repair_wait :: "u8 \<Rightarrow> nat option \<Rightarrow> secs"
  lv_owner_cb :: bool
  lv_app :: "app_cmd list"
  lv_double :: "secs \<Rightarrow> u64"
  lv_undouble :: "u64 \<Rightarrow> secs option"
  lv_generate :: "bytes \<Rightarrow> bytes \<Rightarrow> bytes \<Rightarrow> bytes \<Rightarrow> identity option \<Rightarrow> u64 \<Rightarrow> bytes"
  lv_app_accepts :: "adv \<Rightarrow> bool"
  lv_proof_cb :: "bool option"
  lv_srh :: "nat \<Rightarrow> bytes"
  lv_rh :: "nat \<Rightarrow> bytes"
  lv_depth :: nat

section \<open>Steps that may throw\<close>

type_synonym lstep = "link \<times> fault option"

definition lthen :: "lstep \<Rightarrow> (link \<Rightarrow> lstep) \<Rightarrow> lstep" where
  "lthen m f = (case m of (l, Some x) \<Rightarrow> (l, Some x) | (l, None) \<Rightarrow> f l)"

text \<open>What no \<open>catch\<close> sees.\<close>

definition fatal :: "fault \<Rightarrow> bool" where
  "fatal f \<longleftrightarrow> f = Undefined \<or> f = Stack_overflow"

definition caught :: "(link \<Rightarrow> lstep) \<Rightarrow> lstep \<Rightarrow> lstep" where
  "caught h m = (case m of (l, Some f) \<Rightarrow> if fatal f then (l, Some f) else h l | (l, None) \<Rightarrow> (l, None))"

definition out :: "lout \<Rightarrow> link \<Rightarrow> link" where
  "out x l = l\<lparr>lk_out := lk_out l @ [x]\<rparr>"

text \<open>The packet layer's view of a link, and what it counts there.\<close>

definition view :: "link \<Rightarrow> lnk" where
  "view l = lnk.truncate l"

definition counted :: "lnk \<Rightarrow> link \<Rightarrow> link" where
  "counted w l = l\<lparr>ln_last_outbound := ln_last_outbound w, ln_tx := ln_tx w, ln_txbytes := ln_txbytes w\<rparr>"

section \<open>Encryption\<close>

definition link_token :: "link \<Rightarrow> token res" where
  "link_token l = (case lk_token l of Some t \<Rightarrow> Inr t | None \<Rightarrow> token_new (lk_derived_key l) MODE_AES)"

text \<open>The token is made at its first use and kept.\<close>

definition keep_token :: "link \<Rightarrow> link" where
  "keep_token l = (case link_token l of Inl _ \<Rightarrow> l | Inr t \<Rightarrow> l\<lparr>lk_token := Some t\<rparr>)"

definition link_encrypt :: "prims \<Rightarrow> bytes \<Rightarrow> bytes \<Rightarrow> link \<Rightarrow> bytes res" where
  "link_encrypt c iv b l = rbind (link_token l) (token_encrypt c iv b)"

text \<open>\<open>decrypt\<close> returns no bytes where the token does not open.\<close>

definition link_open :: "prims \<Rightarrow> bytes \<Rightarrow> link \<Rightarrow> bytes" where
  "link_open c b l = (case rbind (link_token l) (token_decrypt c b) of Inl _ \<Rightarrow> [] | Inr p \<Rightarrow> p)"

definition link_decrypt :: "prims \<Rightarrow> bytes \<Rightarrow> link \<Rightarrow> bytes \<times> link" where
  "link_decrypt c b l = (link_open c b l, keep_token l)"

definition link_sign :: "prims \<Rightarrow> bytes \<Rightarrow> link \<Rightarrow> bytes res" where
  "link_sign c b l = (case lk_sig_prv l of None \<Rightarrow> Inl Undefined | Some sk \<Rightarrow> Inr (pr_ed_sign c sk b))"

section \<open>Sending\<close>

text \<open>
  A packet on the link, built and sent through the packet layer with the link's own encryption. The
  packet layer counts the packet on the link; encrypting makes the token.
\<close>

definition link_penv :: "lenv \<Rightarrow> link \<Rightarrow> penv" where
  "link_penv v l = (lv_penv v)\<lparr>en_link_encrypt :=
     (\<lambda>_ b. link_encrypt (lv_prims v) (lv_random v (length (lk_out l))) b l)\<rparr>"

definition after_send :: "packet \<Rightarrow> link \<Rightarrow> link" where
  "after_send p l =
    (let l = (case pk_dlink p of None \<Rightarrow> l | Some w \<Rightarrow> counted w l);
         tried = pk_context p \<noteq> LRPROOF \<and> ln_status l \<noteq> CLOSED \<and>
                 \<not> plain_payload p \<lparr>de_hash = ln_id l, de_type = LINK, de_ident = None\<rparr>
     in if tried then keep_token l else l)"

definition transmit :: "lenv \<Rightarrow> bytes \<Rightarrow> packet_type \<Rightarrow> u8 \<Rightarrow> link \<Rightarrow> link \<times> (packet \<times> receipt option) res" where
  "transmit v b pt ctx l =
    (case packet_new_link (view l) b pt ctx FLAG_UNSET of
       Inl f \<Rightarrow> (l, Inl f)
     | Inr p \<Rightarrow>
         (case send (link_penv v l) (lv_now v) p of
            (p, Inl f) \<Rightarrow> (after_send p l, Inl f)
          | (p, Inr r) \<Rightarrow> (out (Sent p) (after_send p l), Inr (p, r))))"

definition had_outbound :: "lenv \<Rightarrow> bool \<Rightarrow> link \<Rightarrow> link" where
  "had_outbound v is_keepalive l =
    (let l = l\<lparr>ln_last_outbound := lv_now v\<rparr> in
     if \<not> is_keepalive then l\<lparr>lk_last_data := ln_last_outbound l\<rparr> else l)"

text \<open>Sending, then noting it: the pair of calls most of the code ends with.\<close>

definition emit_packet :: "lenv \<Rightarrow> bytes \<Rightarrow> packet_type \<Rightarrow> u8 \<Rightarrow> bool \<Rightarrow> link \<Rightarrow> lstep" where
  "emit_packet v b pt ctx is_keepalive l =
    (case transmit v b pt ctx l of
       (l, Inl f) \<Rightarrow> (l, Some f)
     | (l, Inr _) \<Rightarrow> (had_outbound v is_keepalive l, None))"

end
