(* ===== verification/Link.thy ===== *)
theory Link
  imports LinkBase
begin

text \<open>
  Links, second part: link ids and signalling, the handshake on both sides, activation, identification,
  closing, and the keepalive watchdog (\<open>Link.cpp\<close>).
\<close>

section \<open>Signalling and ids\<close>

definition signalling_bytes :: "u16 \<Rightarrow> u8 \<Rightarrow> bytes res" where
  "signalling_bytes mtu mode =
    (if mode \<notin> ENABLED_MODES then Inl Runtime_error
     else let signalling_value =
            (ucast mtu AND MTU_BYTEMASK) + push_bit 16 (push_bit 5 (ucast mode) AND MODE_BYTEMASK) :: u32
          in Inr (be_bytes 3 signalling_value))"

definition mtu_of_bytes :: "bytes \<Rightarrow> nat \<Rightarrow> u16" where
  "mtu_of_bytes d i = ucast
    ((push_bit 16 (ucast (d ! i)) + push_bit 8 (ucast (d ! (i + 1))) + ucast (d ! (i + 2)) :: u32) AND MTU_BYTEMASK)"

definition mtu_from_lr_packet :: "packet \<Rightarrow> u16" where
  "mtu_from_lr_packet p =
    (if length (pk_data p) = ECPUBSIZE + LINK_MTU_SIZE then mtu_of_bytes (pk_data p) ECPUBSIZE else 0)"

definition mtu_from_lp_packet :: "packet \<Rightarrow> u16" where
  "mtu_from_lp_packet p =
    (if length (pk_data p) = SIGLENGTH div 8 + ECPUBSIZE div 2 + LINK_MTU_SIZE
     then mtu_of_bytes (pk_data p) (SIGLENGTH div 8 + ECPUBSIZE div 2) else 0)"

definition mode_from_lr_packet :: "packet \<Rightarrow> u8" where
  "mode_from_lr_packet p =
    (if length (pk_data p) > ECPUBSIZE then drop_bit 5 (pk_data p ! ECPUBSIZE AND 0xE0) else MODE_DEFAULT)"

definition mode_from_lp_packet :: "packet \<Rightarrow> u8" where
  "mode_from_lp_packet p =
    (if length (pk_data p) > SIGLENGTH div 8 + ECPUBSIZE div 2
     then drop_bit 5 (pk_data p ! (SIGLENGTH div 8 + ECPUBSIZE div 2)) else MODE_DEFAULT)"

definition link_id_from_lr_packet :: "prims \<Rightarrow> packet \<Rightarrow> bytes res" where
  "link_id_from_lr_packet c p =
    rbind (hashable_part p) (\<lambda>h.
      let h = (if length (pk_data p) > ECPUBSIZE
               then bleft (length h - (length (pk_data p) - ECPUBSIZE)) h else h)
      in Inr (truncated_hash c h))"

section \<open>Sizes and intervals\<close>

text \<open>
  \<open>update_mdu\<close>. The division truncates; the value is a \<open>double\<close> when it is stored in the 16 bit
  member, and storing a negative one is undefined.
\<close>

definition update_mdu :: "link \<Rightarrow> lstep" where
  "update_mdu l =
    (let x = int (unat (ln_mtu l)) - int (IFAC_MIN_SIZE + HEADER_MINSIZE + TOKEN_OVERHEAD);
         q = (if x < 0 then - ((- x) div int AES128_BLOCKSIZE) else x div int AES128_BLOCKSIZE);
         m = q * int AES128_BLOCKSIZE - 1
     in if m < 0 then (l, Some Undefined) else (l\<lparr>ln_mdu := of_int m\<rparr>, None))"

definition update_keepalive :: "link \<Rightarrow> link" where
  "update_keepalive l =
    (let ka = ln_rtt l * (KEEPALIVE_MAX / KEEPALIVE_MAX_RTT);
         ka = (if ka > KEEPALIVE_MAX then KEEPALIVE_MAX else ka);
         ka = (if ka < KEEPALIVE_MIN then KEEPALIVE_MIN else ka);
         l = l\<lparr>lk_keepalive := of_int \<lceil>ka\<rceil>\<rparr>
     in l\<lparr>lk_stale_time := lk_keepalive l * STALE_FACTOR\<rparr>)"

definition establishment_rate :: "link \<Rightarrow> link" where
  "establishment_rate l =
    (if ln_rtt l > 0 \<and> lk_establishment_cost l \<noteq> 0
     then l\<lparr>lk_establishment_rate := of_nat (unat (lk_establishment_cost l)) / ln_rtt l\<rparr> else l)"

definition get_mtu :: "link \<Rightarrow> u16" where
  "get_mtu l = (if ln_status l = ACTIVE then ln_mtu l else 0)"

definition get_mdu :: "link \<Rightarrow> u16" where
  "get_mdu l = (if ln_status l = ACTIVE \<or> ln_status l = STALE then ln_mdu l else 0)"

definition get_establishment_rate :: "link \<Rightarrow> secs" where
  "get_establishment_rate l = lk_establishment_rate l * 8"

definition get_age :: "secs \<Rightarrow> link \<Rightarrow> secs" where
  "get_age now l = (if lk_activated_at l \<noteq> 0 then now - lk_activated_at l else 0)"

definition no_inbound_for :: "secs \<Rightarrow> link \<Rightarrow> secs" where
  "no_inbound_for now l = now - max (lk_last_inbound l) (lk_activated_at l)"

definition no_outbound_for :: "secs \<Rightarrow> link \<Rightarrow> secs" where
  "no_outbound_for now l = now - ln_last_outbound l"

definition no_data_for :: "secs \<Rightarrow> link \<Rightarrow> secs" where
  "no_data_for now l = now - lk_last_data l"

definition inactive_for :: "secs \<Rightarrow> link \<Rightarrow> secs" where
  "inactive_for now l = min (no_inbound_for now l) (no_outbound_for now l)"

section \<open>Resources of a link\<close>

text \<open>
  A resource runs with the link's cipher, hash and sending as its environment; what it hands over
  goes out on the link.
\<close>

definition link_renv :: "lenv \<Rightarrow> link \<Rightarrow> renv" where
  "link_renv v l = (lv_renv v)\<lparr>re_hash := pr_sha256 (lv_prims v),
     re_encrypt := (\<lambda>b. link_encrypt (lv_prims v) (lv_random v (length (lk_out l))) b l),
     re_decrypt := (\<lambda>b. link_open (lv_prims v) b l),
     re_send := (\<lambda>pt ctx b. case snd (transmit v b pt ctx l) of Inl f \<Rightarrow> Some f | Inr _ \<Rightarrow> None),
     re_link := view l, re_cost := lk_establishment_cost l\<rparr>"

definition flush :: "lenv \<Rightarrow> (packet_type \<times> u8 \<times> bytes) list \<Rightarrow> link \<Rightarrow> link" where
  "flush v ps l = fold (\<lambda>(pt, ctx, b) l. fst (transmit v b pt ctx l)) ps l"

definition on_resource :: "lenv \<Rightarrow> (renv \<Rightarrow> resource \<Rightarrow> rstep) \<Rightarrow> resource \<Rightarrow> link \<Rightarrow> resource \<times> link \<times> fault option" where
  "on_resource v f r l =
    (case f (link_renv v l) r of (r', x) \<Rightarrow> (r', flush v (drop (length (rs_out r)) (rs_out r')) l, x))"

text \<open>Cancelling each in turn; what one of them throws is logged.\<close>

fun cancel_each :: "lenv \<Rightarrow> resource list \<Rightarrow> link \<Rightarrow> resource list \<times> link" where
  "cancel_each v [] l = ([], l)"
| "cancel_each v (r # rs) l =
    (case on_resource v cancel r l of (r', l, _) \<Rightarrow>
     case cancel_each v rs l of (rs', l) \<Rightarrow> (r' # rs', l))"

section \<open>Closing\<close>

definition purge_keys :: "link \<Rightarrow> link" where
  "purge_keys l = l\<lparr>lk_prv := None, lk_pub_bytes := [], lk_shared_key := [], lk_derived_key := []\<rparr>"

text \<open>The destination's set of links, from which a closed link is taken, is not in the model.\<close>

definition link_closed :: "lenv \<Rightarrow> link \<Rightarrow> link" where
  "link_closed v l =
    (case cancel_each v (lk_incoming l) l of (inc, l) \<Rightarrow>
     let l = l\<lparr>lk_incoming := inc\<rparr> in
     case cancel_each v (lk_outgoing l) l of (outg, l) \<Rightarrow>
     let l = purge_keys (l\<lparr>lk_outgoing := outg, lk_channel := False\<rparr>)
     in if lk_closed_cb l then out Closed_called l else l)"

definition close_for :: "lenv \<Rightarrow> teardown_reason \<Rightarrow> link \<Rightarrow> link" where
  "close_for v r l = link_closed v (l\<lparr>ln_status := CLOSED, lk_reason := r\<rparr>)"

definition teardown :: "lenv \<Rightarrow> link \<Rightarrow> lstep" where
  "teardown v l =
    lthen (if ln_status l \<noteq> PENDING \<and> ln_status l \<noteq> CLOSED
           then emit_packet v (ln_id l) DATA LINKCLOSE False l else (l, None))
      (\<lambda>l. (close_for v (if lk_initiator l then INITIATOR_CLOSED else DESTINATION_CLOSED) l, None))"

definition teardown_packet :: "lenv \<Rightarrow> packet \<Rightarrow> link \<Rightarrow> link" where
  "teardown_packet v p l =
    (case link_decrypt (lv_prims v) (pk_data p) l of (plaintext, l) \<Rightarrow>
     if plaintext \<noteq> ln_id l then l
     else close_for v (if lk_initiator l then DESTINATION_CLOSED else INITIATOR_CLOSED) l)"

section \<open>What the application does when a link is up\<close>

definition strategy_code :: "resource_strategy \<Rightarrow> u8" where
  "strategy_code s = (case s of ACCEPT_NONE \<Rightarrow> 0 | ACCEPT_APP \<Rightarrow> 1 | ACCEPT_ALL \<Rightarrow> 2)"

definition set_resource_strategy :: "resource_strategy \<Rightarrow> link \<Rightarrow> lstep" where
  "set_resource_strategy s l =
    (if strategy_code s AND (strategy_code ACCEPT_NONE OR strategy_code ACCEPT_APP OR strategy_code ACCEPT_ALL) = 0
     then (l, Some Runtime_error) else (l\<lparr>lk_strategy := s\<rparr>, None))"

fun app_step :: "lenv \<Rightarrow> app_cmd \<Rightarrow> link \<Rightarrow> lstep" where
  "app_step v (App_packet_cb b) l = (l\<lparr>lk_packet_cb := b\<rparr>, None)"
| "app_step v (App_closed_cb b) l = (l\<lparr>lk_closed_cb := b\<rparr>, None)"
| "app_step v (App_identified_cb b) l = (l\<lparr>lk_identified_cb := b\<rparr>, None)"
| "app_step v (App_resource_cb b) l = (l\<lparr>lk_resource_cb := b\<rparr>, None)"
| "app_step v (App_concluded_cb b) l = (l\<lparr>lk_concluded_cb := b\<rparr>, None)"
| "app_step v (App_strategy s) l = set_resource_strategy s l"
| "app_step v App_channel l = (l\<lparr>lk_channel := True\<rparr>, None)"
| "app_step v App_teardown l = teardown v l"

fun app_run :: "lenv \<Rightarrow> app_cmd list \<Rightarrow> link \<Rightarrow> lstep" where
  "app_run v [] l = (l, None)"
| "app_run v (c # cs) l = lthen (app_step v c l) (app_run v cs)"

section \<open>Handshake\<close>

definition load_peer :: "bytes \<Rightarrow> bytes \<Rightarrow> link \<Rightarrow> link" where
  "load_peer pub sig_pub l = l\<lparr>lk_peer_pub_bytes := pub, ln_peer_sig_pub := sig_pub\<rparr>"

definition derive_key :: "lenv \<Rightarrow> link \<Rightarrow> lstep" where
  "derive_key v l =
    (case (if lk_mode l = MODE_AES128_CBC_LINK then Some 32
           else if lk_mode l = MODE_AES256_CBC_LINK then Some 64 else None) of
       None \<Rightarrow> (l, Some Invalid_argument)
     | Some n \<Rightarrow>
         (case hkdf (lv_prims v) n (lk_shared_key l) (ln_id l) [] of
            Inl f \<Rightarrow> (l, Some f)
          | Inr k \<Rightarrow> (l\<lparr>lk_derived_key := k\<rparr>, None)))"

definition handshake :: "lenv \<Rightarrow> link \<Rightarrow> lstep" where
  "handshake v l =
    (case lk_prv l of
       None \<Rightarrow> (l, None)
     | Some k \<Rightarrow>
         if ln_status l \<noteq> PENDING then (l, None)
         else
           let l = l\<lparr>ln_status := HANDSHAKE\<rparr> in
           case x_exchange (lv_prims v) k (lk_peer_pub_bytes l) of
             Inl f \<Rightarrow> (l, Some f)
           | Inr s \<Rightarrow> derive_key v (l\<lparr>lk_shared_key := s\<rparr>))"

text \<open>The bytes a link proof signs, and the proof.\<close>

definition proof_signed :: "link \<Rightarrow> bytes \<Rightarrow> bytes \<Rightarrow> bytes \<Rightarrow> bytes" where
  "proof_signed l pub sig_pub signalling = ln_id l @ pub @ sig_pub @ signalling"

definition link_prove :: "lenv \<Rightarrow> link \<Rightarrow> lstep" where
  "link_prove v l =
    (case signalling_bytes (ln_mtu l) (lk_mode l) of
       Inl f \<Rightarrow> (l, Some f)
     | Inr sb \<Rightarrow>
         (case lk_owner l of
            None \<Rightarrow> (l, Some Undefined)
          | Some d \<Rightarrow>
              (case dn_ident d of
                 None \<Rightarrow> (l, Some Undefined)
               | Some i \<Rightarrow>
                   (case identity_sign (lv_prims v)
                           (proof_signed l (lk_pub_bytes l) (lk_sig_pub_bytes l) sb) i of
                      Inl f \<Rightarrow> (l, Some f)
                    | Inr sig \<Rightarrow>
                        (case transmit v (sig @ lk_pub_bytes l @ sb) PROOF LRPROOF l of
                           (l, Inl f) \<Rightarrow> (l, Some f)
                         | (l, Inr (p, _)) \<Rightarrow>
                             (had_outbound v False (l\<lparr>
                                lk_establishment_cost := lk_establishment_cost l + of_nat (length (pk_raw p)),
                                lk_proof_sent_at := lv_now v\<rparr>), None))))))"

definition proof_repair_armed :: "link \<Rightarrow> bool" where
  "proof_repair_armed l \<longleftrightarrow>
     \<not> lk_initiator l \<and> ln_status l = HANDSHAKE \<and> \<not> lk_proof_repaired l \<and> lk_proof_sent_at l > 0"

definition proof_repair_due :: "lenv \<Rightarrow> link \<Rightarrow> bool" where
  "proof_repair_due v l \<longleftrightarrow>
     proof_repair_armed l \<and> lv_now v \<ge> lk_proof_sent_at l + lv_repair_wait v (lk_request_hops l) (lk_iface l)"

definition repair_proof :: "lenv \<Rightarrow> link \<Rightarrow> lstep" where
  "repair_proof v l = lthen (link_prove v (l\<lparr>lk_proof_repaired := True\<rparr>)) (\<lambda>l. (out Repaired l, None))"

section \<open>A link that is asked for\<close>

definition with_keys :: "prims \<Rightarrow> bytes \<Rightarrow> bytes \<Rightarrow> link \<Rightarrow> link" where
  "with_keys c k sk l = l\<lparr>lk_prv := Some k, lk_sig_prv := Some sk, lk_pub_bytes := pr_x_base c k,
     lk_sig_pub_bytes := pr_ed_base c sk\<rparr>"

definition initiator_link :: "lenv \<Rightarrow> destination \<Rightarrow> bool \<Rightarrow> bool \<Rightarrow> u8 \<Rightarrow> link" where
  "initiator_link v dst est_cb closed_cb mode =
    (let hops = en_hops_to (lv_penv v) (dn_hash dst) in
     with_keys (lv_prims v) (take 32 (lv_key v)) (take 32 (lv_sig_key v))
       ((link_object (Some dst) None)\<lparr>lk_mode := mode, lk_initiator := True, lk_expected_hops := hops,
          lk_establishment_timeout := en_first_hop_timeout (lv_penv v) (dn_hash dst)
            + of_nat (ESTABLISHMENT_TIMEOUT_PER_HOP * max 1 (unat hops)),
          lk_established_cb := est_cb, lk_closed_cb := closed_cb\<rparr>))"

text \<open>
  The initiator's constructor: keys, the request with the MTU it may ask for, the link id from the
  packed request, registration, and the request on its way.
\<close>

definition link_new :: "lenv \<Rightarrow> destination \<Rightarrow> bool \<Rightarrow> bool \<Rightarrow> u8 \<Rightarrow> lstep" where
  "link_new v dst est_cb closed_cb mode =
    (if dn_type dst \<noteq> SINGLE then ((link_object (Some dst) None)\<lparr>lk_mode := mode\<rparr>, Some Logic_error)
     else
       let l = initiator_link v dst est_cb closed_cb mode; nh_hw_mtu = lv_hw_mtu v (dn_hash dst)
       in case signalling_bytes (if lv_discovery v \<and> nh_hw_mtu \<noteq> 0 then nh_hw_mtu else MTU) mode of
            Inl f \<Rightarrow> (l, Some f)
          | Inr sb \<Rightarrow>
              (case packet_new (Some (dest_of dst)) (lk_pub_bytes l @ lk_sig_pub_bytes l @ sb) LINKREQUEST
                      CONTEXT_NONE BROADCAST HEADER_1 [] True FLAG_UNSET of
                 Inl f \<Rightarrow> (l, Some f)
               | Inr p \<Rightarrow>
                   (case pack (lv_penv v) p of
                      (p, Some f) \<Rightarrow> (l, Some f)
                    | (p, None) \<Rightarrow>
                        let l = l\<lparr>lk_establishment_cost := lk_establishment_cost l + of_nat (length (pk_raw p))\<rparr> in
                        (case link_id_from_lr_packet (lv_prims v) p of
                           Inl f \<Rightarrow> (l, Some f)
                         | Inr i \<Rightarrow>
                             let l = (out Registered (l\<lparr>ln_id := i\<rparr>))\<lparr>lk_request_time := lv_now v\<rparr> in
                             (case send (lv_penv v) (lv_now v) p of
                                (p, Inl f) \<Rightarrow> (l, Some f)
                              | (p, Inr _) \<Rightarrow> (had_outbound v False (out (Sent p) l), None))))))"

section \<open>A link that is accepted\<close>

definition link_new_accepted :: "lenv \<Rightarrow> destination \<Rightarrow> bytes \<Rightarrow> bytes \<Rightarrow> lstep" where
  "link_new_accepted v owner peer_pub peer_sig_pub =
    (let l = link_object None (Some owner) in
     case dn_ident owner of
       None \<Rightarrow> (l, Some Undefined)
     | Some i \<Rightarrow>
         (case iy_sig_prv i of
            None \<Rightarrow> (l, Some Undefined)
          | Some sk \<Rightarrow>
              let l = with_keys (lv_prims v) (take 32 (lv_key v)) sk l in
              (if peer_pub = [] then l else load_peer peer_pub peer_sig_pub l, None)))"

text \<open>The MTU of the request, clipped to the network's where the build does not discover larger ones.\<close>

definition accept_mtu :: "lenv \<Rightarrow> packet \<Rightarrow> link \<Rightarrow> link" where
  "accept_mtu v p l =
    (let mtu = mtu_from_lr_packet p;
         use_mtu = (if mtu \<noteq> 0 then mtu else MTU);
         use_mtu = (if \<not> lv_discovery v \<and> use_mtu > MTU then MTU else use_mtu)
     in l\<lparr>ln_mtu := use_mtu\<rparr>)"

definition accept_request :: "lenv \<Rightarrow> bytes \<Rightarrow> packet \<Rightarrow> destination option \<Rightarrow> nat option \<Rightarrow> link \<Rightarrow> lstep" where
  "accept_request v d p dst ifc l =
    (let l = (if length d = ECPUBSIZE + LINK_MTU_SIZE then accept_mtu v p l else l) in
     lthen (update_mdu l) (\<lambda>l.
       let l = l\<lparr>lk_dest := dst,
             lk_establishment_timeout :=
               of_nat (ESTABLISHMENT_TIMEOUT_PER_HOP * max 1 (unat (pk_hops p))) + KEEPALIVE_MAX,
             lk_establishment_cost := lk_establishment_cost l + of_nat (length (pk_raw p))\<rparr>
       in lthen (handshake v l) (\<lambda>l.
          lthen (link_prove v (l\<lparr>lk_iface := ifc, lk_request_hops := pk_hops p\<rparr>)) (\<lambda>l.
            ((out Registered (l\<lparr>lk_request_time := lv_now v\<rparr>))\<lparr>lk_last_inbound := lv_now v\<rparr>, None)))))"

text \<open>
  \<open>validate_request\<close>. \<open>existing\<close> is the active link the transport finds under the request's id; the result is
  that link afterwards and the new one, \<open>None\<close> where the request is refused. The mode is refused before
  any key is derived.
\<close>

definition validate_request ::
    "lenv \<Rightarrow> destination \<Rightarrow> bytes \<Rightarrow> packet \<Rightarrow> destination option \<Rightarrow> nat option \<Rightarrow> (bytes \<Rightarrow> link option) \<Rightarrow>
     (link option \<times> link option) res" where
  "validate_request v owner d p dst ifc active =
    (if length d = ECPUBSIZE \<or> length d = ECPUBSIZE + LINK_MTU_SIZE then
       (case link_new_accepted v owner (bleft (ECPUBSIZE div 2) d) (bmid_len (ECPUBSIZE div 2) (ECPUBSIZE div 2) d) of
          (l, Some f) \<Rightarrow> if fatal f then Inl f else Inr (None, None)
        | (l, None) \<Rightarrow>
            (case link_id_from_lr_packet (lv_prims v) p of
               Inl f \<Rightarrow> if fatal f then Inl f else Inr (None, None)
             | Inr i \<Rightarrow>
                 (case active i of
                    Some x \<Rightarrow>
                      if ln_status x \<noteq> ACTIVE then
                        (case link_prove v x of
                           (x, Some f) \<Rightarrow> if fatal f then Inl f else Inr (Some x, None)
                         | (x, None) \<Rightarrow> Inr (Some x, None))
                      else Inr (Some x, None)
                  | None \<Rightarrow>
                      let l = l\<lparr>ln_id := i, lk_mode := mode_from_lr_packet p\<rparr> in
                      if lk_mode l \<notin> ENABLED_MODES then Inr (None, None)
                      else (case accept_request v d p dst ifc l of
                              (l, Some f) \<Rightarrow> if fatal f then Inl f else Inr (None, None)
                            | (l, None) \<Rightarrow> Inr (None, Some l)))))
     else Inr (None, None))"

section \<open>The initiator's activation\<close>

definition rtt_plain :: "lenv \<Rightarrow> link \<Rightarrow> bytes" where
  "rtt_plain v l = pack_double (lv_double v (ln_rtt l))"

definition send_rtt :: "lenv \<Rightarrow> link \<Rightarrow> lstep" where
  "send_rtt v l =
    (let through_now = lv_now v - lk_request_time l + RTT_SEND_ALLOWANCE;
         l = (if through_now > ln_rtt l then update_keepalive (l\<lparr>ln_rtt := through_now\<rparr>) else l)
     in emit_packet v (rtt_plain v l) DATA LRRTT False l)"

definition lp_size :: nat where "lp_size = SIGLENGTH div 8 + ECPUBSIZE div 2"

text \<open>The proof without its signalling bytes, and the signalling bytes that were signed.\<close>

definition lp_parts :: "packet \<Rightarrow> (bytes \<times> u16 \<times> bytes) res" where
  "lp_parts p =
    (if length (pk_data p) = lp_size + LINK_MTU_SIZE then
       rbind (signalling_bytes (mtu_from_lp_packet p) (mode_from_lp_packet p)) (\<lambda>sb.
         Inr (bleft lp_size (pk_data p), mtu_from_lp_packet p, sb))
     else Inr (pk_data p, 0, []))"

definition confirm_mtu :: "lenv \<Rightarrow> u16 \<Rightarrow> link \<Rightarrow> link" where
  "confirm_mtu v confirmed l =
    (let l = l\<lparr>ln_mtu := (if confirmed \<noteq> 0 then confirmed else MTU)\<rparr> in
     if \<not> lv_discovery v \<and> ln_mtu l > MTU then l\<lparr>ln_mtu := MTU\<rparr> else l)"

definition activate_initiator :: "lenv \<Rightarrow> nat option \<Rightarrow> u16 \<Rightarrow> identity \<Rightarrow> link \<Rightarrow> lstep" where
  "activate_initiator v ifc confirmed i l =
    (if ln_status l \<noteq> HANDSHAKE then (l, Some Runtime_error)
     else
       let l = confirm_mtu v confirmed (l\<lparr>ln_rtt := lv_now v - lk_request_time l, lk_iface := ifc,
                 lk_remote := Some i\<rparr>)
       in lthen (update_mdu l) (\<lambda>l.
            let l = update_keepalive (l\<lparr>ln_status := ACTIVE, lk_activated_at := lv_now v,
                      ln_last_proof := lv_now v\<rparr>);
                l = establishment_rate (out Activated l);
                l = out (Alive (case lk_dest l of Some d \<Rightarrow> dn_hash d | None \<Rightarrow> [])) l
            in lthen (send_rtt v l) (\<lambda>l.
                 if lk_established_cb l then app_run v (lv_app v) (out Established l) else (l, None))))"

definition validate_first_proof :: "lenv \<Rightarrow> nat option \<Rightarrow> packet \<Rightarrow> link \<Rightarrow> lstep" where
  "validate_first_proof v ifc p l =
    (if mode_from_lp_packet p \<noteq> lk_mode l then (l, Some Runtime_error)
     else case lp_parts p of
       Inl f \<Rightarrow> (l, Some f)
     | Inr (d, confirmed, sb) \<Rightarrow>
         if lk_initiator l \<and> length d = lp_size then
           (case (case lk_dest l of None \<Rightarrow> None | Some dst \<Rightarrow> dn_ident dst) of
              None \<Rightarrow> (l, Some Undefined)
            | Some i \<Rightarrow>
                lthen (handshake v (load_peer (bmid_len (SIGLENGTH div 8) (ECPUBSIZE div 2) d)
                         (bmid_len (ECPUBSIZE div 2) (ECPUBSIZE div 2) (get_public_key i)) l)) (\<lambda>l.
                  let l = l\<lparr>lk_establishment_cost := lk_establishment_cost l + of_nat (length (pk_raw p))\<rparr> in
                  (case identity_validate (lv_prims v) (bleft (SIGLENGTH div 8) d)
                          (proof_signed l (lk_peer_pub_bytes l) (ln_peer_sig_pub l) sb) i of
                     Inl f \<Rightarrow> (l, Some f)
                   | Inr False \<Rightarrow> (l, None)
                   | Inr True \<Rightarrow> activate_initiator v ifc confirmed i l)))
         else (l, None))"

definition validate_repeated_proof :: "lenv \<Rightarrow> packet \<Rightarrow> link \<Rightarrow> lstep" where
  "validate_repeated_proof v p l =
    (case lp_parts p of
       Inl f \<Rightarrow> (l, Some f)
     | Inr (d, _, sb) \<Rightarrow>
         (case lk_dest l of
            None \<Rightarrow> (l, Some Undefined)
          | Some dst \<Rightarrow>
              (case dn_ident dst of
                 None \<Rightarrow> (l, None)
               | Some i \<Rightarrow>
                   if length d \<noteq> lp_size then (l, None)
                   else if bmid_len (SIGLENGTH div 8) (ECPUBSIZE div 2) d \<noteq> lk_peer_pub_bytes l then (l, None)
                   else
                     (case identity_validate (lv_prims v) (bleft (SIGLENGTH div 8) d)
                             (proof_signed l (lk_peer_pub_bytes l) (ln_peer_sig_pub l) sb) i of
                        Inl f \<Rightarrow> (l, Some f)
                      | Inr False \<Rightarrow> (l, None)
                      | Inr True \<Rightarrow>
                          lthen (send_rtt v (out (Alive (dn_hash dst)) l)) (\<lambda>l. (out Repaired l, None))))))"

text \<open>\<open>validate_proof\<close>: whatever is thrown closes the link, without \<open>link_closed\<close>.\<close>

definition link_validate_proof :: "lenv \<Rightarrow> nat option \<Rightarrow> packet \<Rightarrow> link \<Rightarrow> lstep" where
  "link_validate_proof v ifc p l =
    caught (\<lambda>l. (l\<lparr>ln_status := CLOSED\<rparr>, None))
      (if ln_status l = PENDING then validate_first_proof v ifc p l
       else if lk_initiator l \<and> (ln_status l = ACTIVE \<or> ln_status l = STALE) then validate_repeated_proof v p l
       else (l, None))"

section \<open>The responder's activation\<close>

definition owner_established :: "lenv \<Rightarrow> link \<Rightarrow> lstep" where
  "owner_established v l =
    (if lv_owner_cb v then caught (\<lambda>l. (l, None)) (app_run v (lv_app v) (out Owner_established l)) else (l, None))"

definition activate_responder :: "lenv \<Rightarrow> secs \<Rightarrow> link \<Rightarrow> lstep" where
  "activate_responder v rtt l =
    owner_established v (establishment_rate (update_keepalive
      (l\<lparr>ln_rtt := rtt, ln_status := ACTIVE, lk_activated_at := lv_now v\<rparr>)))"

definition activate_without_rtt :: "lenv \<Rightarrow> link \<Rightarrow> lstep" where
  "activate_without_rtt v l = activate_responder v (lv_now v - lk_request_time l) l"

definition repair_helped :: "lenv \<Rightarrow> link \<Rightarrow> bool" where
  "repair_helped v l \<longleftrightarrow> \<not> lk_initiator l \<and> ln_status l = HANDSHAKE \<and> lk_proof_repaired l \<and>
     lv_now v \<le> lk_proof_sent_at l + lv_repair_wait v (lk_request_hops l) (lk_iface l)"

text \<open>A round trip that is no number leaves the measured one: \<open>std::max\<close> compares with \<open><\<close>.\<close>

definition rtt_packet :: "lenv \<Rightarrow> packet \<Rightarrow> link \<Rightarrow> lstep" where
  "rtt_packet v p l =
    (let measured = lv_now v - lk_request_time l in
     case link_decrypt (lv_prims v) (pk_data p) l of (plaintext, l) \<Rightarrow>
       if plaintext = [] then (l, None)
       else caught (teardown v)
         (case deserialize_double (unpacker_feed plaintext) of
            Inl f \<Rightarrow> (l, Some f)
          | Inr (bits, _) \<Rightarrow>
              let l = (if repair_helped v l then out Repair_helped l else l);
                  rtt = (case lv_undouble v bits of None \<Rightarrow> measured
                         | Some r \<Rightarrow> if measured < r then r else measured)
              in activate_responder v rtt l))"

section \<open>Identification and proofs\<close>

definition identify :: "lenv \<Rightarrow> identity \<Rightarrow> link \<Rightarrow> lstep" where
  "identify v i l =
    (if lk_initiator l \<and> ln_status l = ACTIVE then
       (case identity_sign (lv_prims v) (ln_id l @ get_public_key i) i of
          Inl f \<Rightarrow> (l, Some f)
        | Inr sig \<Rightarrow> emit_packet v (get_public_key i @ sig) DATA LINKIDENTIFY False l)
     else (l, None))"

definition prove_packet :: "lenv \<Rightarrow> packet \<Rightarrow> link \<Rightarrow> lstep" where
  "prove_packet v p l =
    (case link_sign (lv_prims v) (pk_packet_hash p) l of
       Inl f \<Rightarrow> (l, Some f)
     | Inr sig \<Rightarrow> emit_packet v (pk_packet_hash p @ sig) PROOF CONTEXT_NONE False l)"

text \<open>\<open>Packet::prove\<close> on a packet the link received.\<close>

definition prove_received :: "lenv \<Rightarrow> packet \<Rightarrow> link \<Rightarrow> lstep" where
  "prove_received v p l =
    (case prove p of
       By_identity _ \<Rightarrow> (out (Identity_proof p) l, None)
     | By_link _ \<Rightarrow> prove_packet v p l
     | No_proof \<Rightarrow> (l, None))"

section \<open>Keepalives\<close>

definition send_keepalive :: "lenv \<Rightarrow> link \<Rightarrow> lstep" where
  "send_keepalive v l = emit_packet v [0xff] DATA KEEPALIVE True l"

definition last_heard :: "link \<Rightarrow> secs" where
  "last_heard l = max (max (lk_last_inbound l) (ln_last_proof l)) (lk_activated_at l)"

definition keepalive_due :: "secs \<Rightarrow> link \<Rightarrow> bool" where
  "keepalive_due now l \<longleftrightarrow>
    (let ka = of_nat (unat (lk_keepalive l));
         inbound_due = (now \<ge> last_heard l + ka \<and>
           (lk_last_keepalive l < last_heard l + ka \<or> now \<ge> lk_last_keepalive l + ka / 4));
         outbound_due = (now \<ge> ln_last_outbound l + ka)
     in lk_initiator l \<and> (inbound_due \<or> outbound_due))"

definition keepalive_now :: "lenv \<Rightarrow> link \<Rightarrow> lstep" where
  "keepalive_now v l = lthen (send_keepalive v l) (\<lambda>l. (l\<lparr>lk_last_keepalive := lv_now v\<rparr>, None))"

definition go_stale :: "lenv \<Rightarrow> link \<Rightarrow> link" where
  "go_stale v l = l\<lparr>lk_stale_deadline := lv_now v + ln_rtt l * of_nat KEEPALIVE_TIMEOUT_FACTOR + STALE_GRACE,
     ln_status := STALE\<rparr>"

definition link_watchdog :: "lenv \<Rightarrow> link \<Rightarrow> lstep" where
  "link_watchdog v l =
    (if ln_status l = ACTIVE then
       (let heard = last_heard l; ka = of_nat (unat (lk_keepalive l)) in
        if lv_now v \<ge> heard + ka \<or> lv_now v \<ge> ln_last_outbound l + ka then
          let sent = keepalive_due (lv_now v) l in
          lthen (if sent then keepalive_now v l else (l, None)) (\<lambda>l.
            if lv_now v \<ge> heard + of_nat (unat (lk_stale_time l)) then
              lthen (if lk_initiator l \<and> \<not> sent then keepalive_now v l else (l, None))
                (\<lambda>l. (go_stale v l, None))
            else (l, None))
        else (l, None))
     else if ln_status l = STALE then
       (if lv_now v \<ge> lk_stale_deadline l then (close_for v TIMEOUT l, None) else (l, None))
     else (l, None))"

end
