(* ===== verification/LinkRx.thy ===== *)
theory LinkRx
  imports Link
begin

text \<open>
  Links, third part: requests and responses, the resources of a link, and \<open>Link::receive\<close> with its
  dispatch on the packet's context (\<open>Link.cpp\<close>).
\<close>

section \<open>Requests\<close>

definition request_receipt_new ::
    "lenv \<Rightarrow> receipt option \<Rightarrow> bytes option \<Rightarrow> bool \<Rightarrow> bool \<Rightarrow> bool \<Rightarrow> secs \<Rightarrow> nat \<Rightarrow> request_receipt res" where
  "request_receipt_new v rc res_id rcb fcb pcb timeout n =
    (if timeout = 0 then Inl Invalid_argument
     else
       let h = (case rc of Some rc \<Rightarrow> rc_truncated_hash rc
                | None \<Rightarrow> (case res_id of Some i \<Rightarrow> i | None \<Rightarrow> []))
       in Inr \<lparr>rq_hash = h, rq_receipt = rc, rq_has_resource = res_id \<noteq> None, rq_request_id = h,
            rq_request_size = n, rq_started_at = (if rc \<noteq> None then lv_now v else 0),
            rq_sent_at = lv_now v, rq_concluded_at = 0, rq_response_concluded_at = 0, rq_timeout = timeout,
            rq_response = [], rq_response_size = 0, rq_response_transfer_size = 0, rq_progress = 0,
            rq_status = RQ_SENT, rq_response_cb = rcb, rq_failed_cb = fcb, rq_progress_cb = pcb\<rparr>)"

definition add_pending :: "request_receipt \<Rightarrow> link \<Rightarrow> link" where
  "add_pending q l = l\<lparr>lk_pending := lk_pending l @ [q]\<rparr>"

definition drop_at :: "nat \<Rightarrow> 'a list \<Rightarrow> 'a list" where
  "drop_at i xs = take i xs @ drop (Suc i) xs"

text \<open>A resource for a request or a response, registered with the link once its tables are built.\<close>

definition outgoing_resource :: "lenv \<Rightarrow> bytes \<Rightarrow> bytes \<Rightarrow> bool \<Rightarrow> secs \<Rightarrow> link \<Rightarrow> resource \<times> link \<times> fault option" where
  "outgoing_resource v b request_id is_response timeout l =
    (let n = length (lk_out l) in
     case on_resource v (\<lambda>e _. resource_for_request e (lv_now v) (lv_srh v n) (lv_rh v n) b request_id
            is_response timeout) resource_object l of
       (r, l, x) \<Rightarrow> (r, (if rs_registered r then l\<lparr>lk_outgoing := lk_outgoing l @ [r]\<rparr> else l), x))"

text \<open>The request array, with the data spliced in as it is when it is packed already.\<close>

definition pack_request :: "lenv \<Rightarrow> bytes \<Rightarrow> bytes \<Rightarrow> bool \<Rightarrow> bytes" where
  "pack_request v path d data_packed =
    (let now = lv_double v (lv_now v); path_hash = truncated_hash (lv_prims v) path in
     if data_packed then ((pack_array_header 3 @ pack_double now) @ pack_bin path_hash) @ d
     else packer_to_array [] [P_double now, P_bin path_hash, P_bin d])"

definition link_request ::
    "lenv \<Rightarrow> bytes \<Rightarrow> bytes \<Rightarrow> bool \<Rightarrow> bool \<Rightarrow> bool \<Rightarrow> secs \<Rightarrow> bool \<Rightarrow> link \<Rightarrow> link \<times> request_receipt option res" where
  "link_request v path d rcb fcb pcb timeout data_packed l =
    (let packed = pack_request v path d data_packed;
         timeout = (if timeout = 0 then ln_rtt l * of_nat (unat (ln_ttf l))
                      + of_nat RESPONSE_MAX_GRACE_TIME * 1.125 else timeout)
     in if length packed \<le> LINK_MDU then
          (case transmit v packed DATA CTX_REQUEST l of
             (l, Inl f) \<Rightarrow> (l, Inl f)
           | (l, Inr (_, None)) \<Rightarrow> (l, Inr None)
           | (l, Inr (_, Some rc)) \<Rightarrow>
               (case rbind (to_int16 timeout) (\<lambda>t.
                       request_receipt_new v (Some (set_timeout t rc)) None rcb fcb pcb timeout (length packed)) of
                  Inl f \<Rightarrow> (l, Inl f)
                | Inr q \<Rightarrow> (add_pending q l, Inr (Some q))))
        else
          (case outgoing_resource v packed (truncated_hash (lv_prims v) packed) False timeout l of
             (_, l, Some f) \<Rightarrow> (l, Inl f)
           | (r, l, None) \<Rightarrow>
               (case request_receipt_new v None (Some (rs_request_id r)) rcb fcb pcb timeout (length packed) of
                  Inl f \<Rightarrow> (l, Inl f)
                | Inr q \<Rightarrow> (add_pending q l, Inr (Some q)))))"

section \<open>What becomes of a request\<close>

definition request_timed_out :: "lenv \<Rightarrow> nat \<Rightarrow> link \<Rightarrow> link" where
  "request_timed_out v i l =
    (let q = (lk_pending l ! i)\<lparr>rq_status := RQ_FAILED, rq_concluded_at := lv_now v\<rparr>;
         l = l\<lparr>lk_pending := drop_at i (lk_pending l)\<rparr>
     in if rq_failed_cb q then out (Failed_called q) l else l)"

definition response_received :: "lenv \<Rightarrow> bytes \<Rightarrow> request_receipt \<Rightarrow> link \<Rightarrow> link" where
  "response_received v b q l =
    (if rq_status q \<noteq> RQ_FAILED then
       let q = q\<lparr>rq_progress := 1, rq_response := b, rq_status := RQ_READY,
                 rq_response_concluded_at := lv_now v\<rparr>;
           q = q\<lparr>rq_receipt := map_option (settle (lv_now v)) (rq_receipt q)\<rparr>;
           l = (if rq_progress_cb q then out (Progress_called q) l else l)
       in if rq_response_cb q then out (Response_called q) l else l
     else l)"

definition get_response :: "request_receipt \<Rightarrow> bytes" where
  "get_response q = (if rq_status q = RQ_READY then rq_response q else [])"

definition get_response_time :: "request_receipt \<Rightarrow> secs" where
  "get_response_time q = (if rq_status q = RQ_READY then rq_response_concluded_at q - rq_started_at q else 0)"

definition handle_response :: "lenv \<Rightarrow> bytes \<Rightarrow> bytes \<Rightarrow> nat \<Rightarrow> nat \<Rightarrow> link \<Rightarrow> link" where
  "handle_response v request_id b response_size transfer_size l =
    (if ln_status l \<noteq> ACTIVE then l
     else case first_index (\<lambda>q. rq_request_id q = request_id) (lk_pending l) of
       None \<Rightarrow> l
     | Some i \<Rightarrow>
         let q = lk_pending l ! i;
             q = q\<lparr>rq_response_size := response_size,
                   rq_response_transfer_size := rq_response_transfer_size q + transfer_size\<rparr>;
             l = response_received v b q l
         in l\<lparr>lk_pending := drop_at i (lk_pending l)\<rparr>)"

section \<open>Answering a request\<close>

definition request_allowed :: "handler \<Rightarrow> identity option \<Rightarrow> bool" where
  "request_allowed h remote =
    (if rh_allow h \<noteq> ALLOW_NONE then
       (if rh_allow h = ALLOW_LIST then
          (case remote of None \<Rightarrow> False | Some i \<Rightarrow> iy_hash i \<in> set (rh_allowed h))
        else rh_allow h = ALLOW_ALL)
     else False)"

definition send_response :: "lenv \<Rightarrow> bytes \<Rightarrow> bytes \<Rightarrow> link \<Rightarrow> lstep" where
  "send_response v request_id response l =
    (let packed = (pack_array_header 2 @ pack_bin request_id) @ response in
     if length packed \<le> LINK_MDU then
       (case transmit v packed DATA CTX_RESPONSE l of (l, Inl f) \<Rightarrow> (l, Some f) | (l, Inr _) \<Rightarrow> (l, None))
     else (case outgoing_resource v packed request_id True 0 l of (_, l, x) \<Rightarrow> (l, x)))"

definition handle_request :: "lenv \<Rightarrow> bytes \<Rightarrow> u64 \<times> bytes \<times> bytes \<Rightarrow> link \<Rightarrow> lstep" where
  "handle_request v request_id rq l =
    (case rq of (requested_at, path_hash, d) \<Rightarrow>
     if ln_status l \<noteq> ACTIVE then (l, None)
     else case lk_dest l of
       None \<Rightarrow> (l, Some Undefined)
     | Some dst \<Rightarrow>
         (case find_request_handler path_hash dst of
            None \<Rightarrow> (l, None)
          | Some h \<Rightarrow>
              if request_allowed h (lk_remote l) then
                let response = lv_generate v (rh_path h) d request_id (ln_id l) (lk_remote l) requested_at in
                if response \<noteq> [] then send_response v request_id response l else (l, None)
              else (l, None)))"

section \<open>Concluded resources\<close>

definition request_resource_concluded :: "lenv \<Rightarrow> resource \<Rightarrow> link \<Rightarrow> lstep" where
  "request_resource_concluded v r l =
    (if rs_status r = RS_COMPLETE then
       (case from_request (lv_depth v) (unpacker_feed (rs_data r)) of
          Inl f \<Rightarrow> (l, Some f)
        | Inr (rq, _) \<Rightarrow> handle_request v (truncated_hash (lv_prims v) (rs_data r)) rq l)
     else (l, None))"

definition response_resource_concluded :: "lenv \<Rightarrow> resource \<Rightarrow> link \<Rightarrow> lstep" where
  "response_resource_concluded v r l =
    (if rs_status r = RS_COMPLETE then
       (case from_response (lv_depth v) (unpacker_feed (rs_data r)) of
          Inl f \<Rightarrow> (l, Some f)
        | Inr ((request_id, b), _) \<Rightarrow>
            (handle_response v request_id b (rs_total_size r) (rs_size r) l, None))
     else
       (case first_index (\<lambda>q. rq_request_id q = rs_request_id r) (lk_pending l) of
          None \<Rightarrow> (l, None)
        | Some i \<Rightarrow> (request_timed_out v i l, None)))"

definition concluded :: "resource \<Rightarrow> bool" where
  "concluded r \<longleftrightarrow> rs_status r = RS_COMPLETE \<or> rs_status r = RS_CORRUPT \<or> rs_status r = RS_FAILED"

definition register_incoming_resource :: "resource \<Rightarrow> link \<Rightarrow> link" where
  "register_incoming_resource r l = l\<lparr>lk_incoming := lk_incoming l @ [r]\<rparr>"

definition has_incoming_resource :: "resource \<Rightarrow> link \<Rightarrow> bool" where
  "has_incoming_resource r l \<longleftrightarrow> (\<exists>x \<in> set (lk_incoming l). rs_hash x = rs_hash r)"

definition ready_for_new_resource :: "link \<Rightarrow> bool" where
  "ready_for_new_resource l \<longleftrightarrow> length (lk_outgoing l) > 0"

section \<open>The contexts of a data packet\<close>

definition rx_accept :: "lenv \<Rightarrow> packet \<Rightarrow> bytes \<Rightarrow> bool \<Rightarrow> bytes \<Rightarrow> link \<Rightarrow> lstep" where
  "rx_accept v p plaintext cb request_id l =
    (case accept (link_renv v l) (lv_now v) p plaintext cb False request_id of
       None \<Rightarrow> (l, None)
     | Some (r, x) \<Rightarrow>
         let l = flush v (rs_out r) l in
         ((if rs_registered r then register_incoming_resource r l else l), x))"

definition rx_advertised :: "lenv \<Rightarrow> packet \<Rightarrow> bytes \<Rightarrow> link \<Rightarrow> lstep" where
  "rx_advertised v p plaintext l =
    (case peek_is_request (lv_depth v) plaintext of
       Inl f \<Rightarrow> (l, Some f)
     | Inr True \<Rightarrow> rx_accept v p plaintext False [] l
     | Inr False \<Rightarrow>
         (case peek_is_response (lv_depth v) plaintext of
            Inl f \<Rightarrow> (l, Some f)
          | Inr True \<Rightarrow>
              (case read_request_id (lv_depth v) plaintext of
                 Inl f \<Rightarrow> (l, Some f)
               | Inr i \<Rightarrow>
                   if \<exists>q \<in> set (lk_pending l). rq_request_id q = i then rx_accept v p plaintext False i l
                   else (l, None))
          | Inr False \<Rightarrow>
              (case lk_strategy l of
                 ACCEPT_NONE \<Rightarrow> (l, None)
               | ACCEPT_APP \<Rightarrow>
                   if lk_resource_cb l then
                     (case adv_unpack (lv_depth v) plaintext of
                        Inl f \<Rightarrow> (l, Some f)
                      | Inr a \<Rightarrow>
                          let l = out (Asked_app a) l in
                          if lv_app_accepts v a then rx_accept v p plaintext (lk_concluded_cb l) [] l else (l, None))
                   else (l, None)
               | ACCEPT_ALL \<Rightarrow> rx_accept v p plaintext (lk_concluded_cb l) [] l)))"

definition rx_prove_strategy :: "lenv \<Rightarrow> packet \<Rightarrow> link \<Rightarrow> lstep" where
  "rx_prove_strategy v p l =
    (case lk_dest l of
       None \<Rightarrow> (l, Some Undefined)
     | Some dst \<Rightarrow>
         (case dn_strategy dst of
            PROVE_ALL \<Rightarrow> prove_received v p l
          | PROVE_APP \<Rightarrow>
              (if lv_proof_cb v = Some True then caught (\<lambda>l. (l, None)) (prove_received v p l) else (l, None))
          | PROVE_NONE \<Rightarrow> (l, None)))"

text \<open>Application data. Without a packet callback a responder activates, whatever its status.\<close>

definition rx_data :: "lenv \<Rightarrow> packet \<Rightarrow> link \<Rightarrow> lstep" where
  "rx_data v p l =
    (case link_decrypt (lv_prims v) (pk_data p) l of (plaintext, l) \<Rightarrow>
     if plaintext = [] then (l, None)
     else
       lthen
         (if lk_packet_cb l then (out (Delivered plaintext) l, None)
          else
            lthen (if \<not> lk_initiator l \<and> ln_status l \<noteq> CLOSED then activate_without_rtt v l else (l, None))
              (\<lambda>l. ((if ln_status l \<noteq> CLOSED \<and> lk_packet_cb l then out (Delivered plaintext) l else l), None)))
         (rx_prove_strategy v p))"

definition rx_identify :: "lenv \<Rightarrow> packet \<Rightarrow> link \<Rightarrow> lstep" where
  "rx_identify v p l =
    (case link_decrypt (lv_prims v) (pk_data p) l of (plaintext, l) \<Rightarrow>
     if plaintext \<noteq> [] \<and> \<not> lk_initiator l \<and>
        length plaintext = IDENT_KEYSIZE div 8 + SIGLENGTH div 8 then
       let public_key = bleft (IDENT_KEYSIZE div 8) plaintext;
           signature = bmid_len (IDENT_KEYSIZE div 8) (SIGLENGTH div 8) plaintext;
           i = load_public_key (lv_prims v) public_key identity_object
       in (case identity_validate (lv_prims v) signature (ln_id l @ public_key) i of
             Inl f \<Rightarrow> (l, Some f)
           | Inr False \<Rightarrow> (l, None)
           | Inr True \<Rightarrow>
               lthen (if ln_status l = HANDSHAKE then activate_without_rtt v l else (l, None)) (\<lambda>l.
               lthen (prove_received v p l) (\<lambda>l.
                 let l = l\<lparr>lk_remote := Some i\<rparr> in
                 ((if lk_identified_cb l then out (Identified i) l else l), None))))
     else (l, None))"

definition rx_request :: "lenv \<Rightarrow> packet \<Rightarrow> link \<Rightarrow> lstep" where
  "rx_request v p l =
    (case get_truncated_hash (lv_penv v) p of
       Inl f \<Rightarrow> (l, Some f)
     | Inr request_id \<Rightarrow>
         (case link_decrypt (lv_prims v) (pk_data p) l of (plaintext, l) \<Rightarrow>
          if plaintext = [] then (l, None)
          else case from_request (lv_depth v) (unpacker_feed plaintext) of
            Inl f \<Rightarrow> (l, Some f)
          | Inr (rq, _) \<Rightarrow> handle_request v request_id rq l))"

definition rx_response :: "lenv \<Rightarrow> packet \<Rightarrow> link \<Rightarrow> lstep" where
  "rx_response v p l =
    (case link_decrypt (lv_prims v) (pk_data p) l of (plaintext, l) \<Rightarrow>
     if plaintext = [] then (l, None)
     else case from_response (lv_depth v) (unpacker_feed plaintext) of
       Inl f \<Rightarrow> (l, Some f)
     | Inr ((request_id, b), _) \<Rightarrow> (handle_response v request_id b (length b) (length b) l, None))"

text \<open>The resource contexts: each finds its resource by the hash the packet names.\<close>

definition rx_resource_req :: "lenv \<Rightarrow> packet \<Rightarrow> link \<Rightarrow> lstep" where
  "rx_resource_req v p l =
    (case link_decrypt (lv_prims v) (pk_data p) l of (b, l) \<Rightarrow>
     if length b < 1 + HASHLENGTH div 8 then (l, None)
     else
       let h = (if b ! 0 = HASHMAP_IS_EXHAUSTED then bmid_len (1 + MAPHASH_LEN) (HASHLENGTH div 8) b
                else bmid_len 1 (HASHLENGTH div 8) b)
       in case first_index (\<lambda>r. h = rs_hash r) (lk_outgoing l) of
            None \<Rightarrow> (l, None)
          | Some i \<Rightarrow>
              let r = lk_outgoing l ! i in
              if has_request_hash (pk_packet_hash p) r then (l, None)
              else case on_resource v (\<lambda>e. request e (lv_now v) b) (note_request_hash (pk_packet_hash p) r) l of
                (r, l, x) \<Rightarrow> (l\<lparr>lk_outgoing := (lk_outgoing l)[i := r]\<rparr>, x))"

definition rx_resource_hmu :: "lenv \<Rightarrow> packet \<Rightarrow> link \<Rightarrow> lstep" where
  "rx_resource_hmu v p l =
    (case link_decrypt (lv_prims v) (pk_data p) l of (b, l) \<Rightarrow>
     if length b < HASHLENGTH div 8 \<or> b = [] then (l, None)
     else case first_index (\<lambda>r. bleft (HASHLENGTH div 8) b = rs_hash r) (lk_incoming l) of
       None \<Rightarrow> (l, None)
     | Some i \<Rightarrow>
         (case on_resource v (\<lambda>e. hashmap_update_packet e (lv_now v) b) (lk_incoming l ! i) l of
            (r, l, x) \<Rightarrow> (l\<lparr>lk_incoming := (lk_incoming l)[i := r]\<rparr>, x)))"

definition rx_resource_icl :: "lenv \<Rightarrow> packet \<Rightarrow> link \<Rightarrow> lstep" where
  "rx_resource_icl v p l =
    (case link_decrypt (lv_prims v) (pk_data p) l of (b, l) \<Rightarrow>
     if length b < HASHLENGTH div 8 \<or> b = [] then (l, None)
     else case first_index (\<lambda>r. bleft (HASHLENGTH div 8) b = rs_hash r) (lk_incoming l) of
       None \<Rightarrow> (l, None)
     | Some i \<Rightarrow>
         (case on_resource v cancel (lk_incoming l ! i) l of
            (r, l, Some f) \<Rightarrow> (l\<lparr>lk_incoming := (lk_incoming l)[i := r]\<rparr>, Some f)
          | (r, l, None) \<Rightarrow> (l\<lparr>lk_incoming := drop_at i (lk_incoming l)\<rparr>, None)))"

text \<open>A part goes to the first resource that takes it.\<close>

fun feed_part :: "lenv \<Rightarrow> bytes \<Rightarrow> nat \<Rightarrow> nat \<Rightarrow> link \<Rightarrow> nat option \<times> lstep" where
  "feed_part v b i 0 l = (None, l, None)"
| "feed_part v b i (Suc k) l =
    (case receive_part (link_renv v l) (lv_now v) b (lk_incoming l ! i) of
       ((r, x), took) \<Rightarrow>
         let l = flush v (drop (length (rs_out (lk_incoming l ! i))) (rs_out r)) l;
             l = l\<lparr>lk_incoming := (lk_incoming l)[i := r]\<rparr>
         in case x of
              Some f \<Rightarrow> (None, l, Some f)
            | None \<Rightarrow> if took then (Some i, l, None) else feed_part v b (Suc i) k l)"

definition rx_resource_part :: "lenv \<Rightarrow> packet \<Rightarrow> link \<Rightarrow> lstep" where
  "rx_resource_part v p l =
    (case feed_part v (pk_data p) 0 (length (lk_incoming l)) l of
       (_, l, Some f) \<Rightarrow> (l, Some f)
     | (None, l, None) \<Rightarrow> (l, None)
     | (Some i, l, None) \<Rightarrow>
         let r = lk_incoming l ! i in
         if concluded r then
           lthen (if fl_is_request (rs_flags r) then request_resource_concluded v r l
                  else if fl_is_response (rs_flags r) then response_resource_concluded v r l else (l, None))
             (\<lambda>l. (l\<lparr>lk_incoming := drop_at i (lk_incoming l)\<rparr>, None))
         else (l, None))"

definition rx_resource_prf :: "packet \<Rightarrow> link \<Rightarrow> link" where
  "rx_resource_prf p l =
    (case first_index (\<lambda>r. bleft (HASHLENGTH div 8) (pk_data p) = rs_hash r) (lk_outgoing l) of
       None \<Rightarrow> l
     | Some i \<Rightarrow>
         let r = validate_resource_proof (pk_data p) (lk_outgoing l ! i) in
         if rs_status r = RS_COMPLETE then l\<lparr>lk_outgoing := drop_at i (lk_outgoing l)\<rparr>
         else l\<lparr>lk_outgoing := (lk_outgoing l)[i := r]\<rparr>)"

definition rx_keepalive :: "lenv \<Rightarrow> packet \<Rightarrow> link \<Rightarrow> lstep" where
  "rx_keepalive v p l =
    (if \<not> lk_initiator l \<and> pk_data p = [0xff] then emit_packet v [0xfe] DATA KEEPALIVE True l else (l, None))"

definition rx_channel :: "lenv \<Rightarrow> packet \<Rightarrow> link \<Rightarrow> lstep" where
  "rx_channel v p l =
    (if \<not> lk_channel l then (l, None)
     else lthen (prove_received v p l) (\<lambda>l.
       case link_decrypt (lv_prims v) (pk_data p) l of (plaintext, l) \<Rightarrow>
         ((if plaintext \<noteq> [] then out (To_channel plaintext) l else l), None)))"

section \<open>Receiving\<close>

definition logged :: "lstep \<Rightarrow> lstep" where
  "logged m = caught (\<lambda>l. (l, None)) m"

definition rx_dispatch :: "lenv \<Rightarrow> packet \<Rightarrow> link \<Rightarrow> lstep" where
  "rx_dispatch v p l =
    (let ctx = pk_context p in
     if ctx = CONTEXT_NONE then rx_data v p l
     else if ctx = LINKIDENTIFY then rx_identify v p l
     else if ctx = CTX_REQUEST then logged (rx_request v p l)
     else if ctx = CTX_RESPONSE then logged (rx_response v p l)
     else if ctx = LRRTT then
       (if \<not> lk_initiator l \<and> ln_status l = HANDSHAKE then rtt_packet v p l else (l, None))
     else if ctx = LINKCLOSE then (teardown_packet v p l, None)
     else if ctx = RESOURCE_ADV then
       (case link_decrypt (lv_prims v) (pk_data p) l of (b, l) \<Rightarrow>
        if b \<noteq> [] then logged (rx_advertised v p b l) else (l, None))
     else if ctx = RESOURCE_REQ then logged (rx_resource_req v p l)
     else if ctx = RESOURCE_HMU then rx_resource_hmu v p l
     else if ctx = RESOURCE_ICL then logged (rx_resource_icl v p l)
     else if ctx = KEEPALIVE then rx_keepalive v p l
     else if ctx = RESOURCE then logged (rx_resource_part v p l)
     else if ctx = CTX_CHANNEL then rx_channel v p l
     else (l, None))"

text \<open>Following the peer to another interface, on proof that it holds the key.\<close>

definition repin :: "lenv \<Rightarrow> nat option \<Rightarrow> packet \<Rightarrow> link \<Rightarrow> link" where
  "repin v ifc p l =
    (if ifc \<noteq> lk_iface l then
       (if pk_packet_type p = DATA \<and> pk_context p \<noteq> KEEPALIVE \<and> pk_context p \<noteq> RESOURCE then
          (case link_decrypt (lv_prims v) (pk_data p) l of (b, l) \<Rightarrow>
           if b \<noteq> [] then l\<lparr>lk_iface := ifc\<rparr> else l)
        else l)
     else l)"

definition note_inbound :: "lenv \<Rightarrow> packet \<Rightarrow> link \<Rightarrow> link" where
  "note_inbound v p l =
    (let l = l\<lparr>lk_last_inbound := lv_now v\<rparr>;
         l = (if lk_initiator l then out (Alive (case lk_dest l of Some d \<Rightarrow> dn_hash d | None \<Rightarrow> [])) l else l);
         l = (if pk_context p \<noteq> KEEPALIVE then l\<lparr>lk_last_data := lk_last_inbound l\<rparr> else l);
         l = l\<lparr>lk_rx := lk_rx l + 1, lk_rxbytes := lk_rxbytes l + of_nat (length (pk_data p))\<rparr>
     in if ln_status l = STALE then l\<lparr>ln_status := ACTIVE\<rparr> else l)"

definition link_receive :: "lenv \<Rightarrow> nat option \<Rightarrow> packet \<Rightarrow> link \<Rightarrow> lstep" where
  "link_receive v ifc p l =
    (if ln_status l \<noteq> CLOSED \<and> \<not> (lk_initiator l \<and> pk_context p = KEEPALIVE \<and> pk_data p = [0xff]) then
       let l = note_inbound v p (repin v ifc p l) in
       if pk_packet_type p = DATA then rx_dispatch v p l
       else if pk_packet_type p = PROOF \<and> pk_context p = RESOURCE_PRF then (rx_resource_prf p l, None)
       else (l, None)
     else (l, None))"

section \<open>Resource watchdogs\<close>

text \<open>Each resource in turn; those that are through leave the set.\<close>

fun sweep :: "lenv \<Rightarrow> (resource \<Rightarrow> bool) \<Rightarrow> resource list \<Rightarrow> link \<Rightarrow> resource list \<times> lstep" where
  "sweep v through [] l = ([], l, None)"
| "sweep v through (r # rs) l =
    (case on_resource v (\<lambda>e. watchdog e (lv_now v)) r l of
       (r, l, Some f) \<Rightarrow> (r # rs, l, Some f)
     | (r, l, None) \<Rightarrow>
         (case sweep v through rs l of (rs, m) \<Rightarrow> ((if through r then rs else r # rs), m)))"

definition resource_watchdogs :: "lenv \<Rightarrow> link \<Rightarrow> lstep" where
  "resource_watchdogs v l =
    (case sweep v (\<lambda>r. rs_status r = RS_FAILED \<or> rs_status r = RS_COMPLETE) (lk_outgoing l) l of
       (rs, m) \<Rightarrow> lthen (case m of (l, x) \<Rightarrow> (l\<lparr>lk_outgoing := rs\<rparr>, x)) (\<lambda>l.
     case sweep v concluded (lk_incoming l) l of
       (rs, m) \<Rightarrow> (case m of (l, x) \<Rightarrow> (l\<lparr>lk_incoming := rs\<rparr>, x))))"

section \<open>The link's own measurements and registries\<close>

text \<open>A round trip measured by the packet layer, smoothed; the intervals stay as they were agreed.\<close>

definition link_rtt_sample :: "secs \<Rightarrow> link \<Rightarrow> link" where
  "link_rtt_sample sample l =
    (if sample \<le> 0 then l
     else if ln_rtt l \<le> 0 then l\<lparr>ln_rtt := sample\<rparr>
     else l\<lparr>ln_rtt := ln_rtt l + 0.25 * (sample - ln_rtt l)\<rparr>)"

text \<open>A resource names its place in the list; one that is not registered has none.\<close>

definition cancel_outgoing_resource :: "nat option \<Rightarrow> link \<Rightarrow> link" where
  "cancel_outgoing_resource i l =
    (case i of Some i \<Rightarrow> l\<lparr>lk_outgoing := drop_at i (lk_outgoing l)\<rparr> | None \<Rightarrow> l)"

definition cancel_incoming_resource :: "nat option \<Rightarrow> link \<Rightarrow> link" where
  "cancel_incoming_resource i l =
    (case i of Some i \<Rightarrow> l\<lparr>lk_incoming := drop_at i (lk_incoming l)\<rparr> | None \<Rightarrow> l)"

definition resource_concluded :: "nat option \<Rightarrow> nat option \<Rightarrow> link \<Rightarrow> link" where
  "resource_concluded i j l = cancel_outgoing_resource j (cancel_incoming_resource i l)"

definition validate_signed :: "prims \<Rightarrow> bytes \<Rightarrow> bytes \<Rightarrow> link \<Rightarrow> bool" where
  "validate_signed c signature message l = ed_verify c (ln_peer_sig_pub l) signature message"

end
