(* ===== verification/LinkInv.thy ===== *)
theory LinkInv
  imports LinkRx
begin

text \<open>
  What every operation of a link keeps, the states a link can reach, and the invariant of these states:
  who has been authenticated when a link is up, and that a closed link stays closed.
\<close>

section \<open>Sending changes counters only\<close>

text \<open>What sending leaves: the packet layer's counters, the token, the clock of data, the outputs.\<close>

definition sent_from :: "link \<Rightarrow> link \<Rightarrow> bool" where
  "sent_from l l' \<longleftrightarrow> (\<exists>a b c t d x. l' = l\<lparr>ln_last_outbound := a, ln_tx := b, ln_txbytes := c,
      lk_token := t, lk_last_data := d, lk_out := x\<rparr> \<and> (t = lk_token l \<or> link_token l = Inr (the t) \<and> t \<noteq> None))"

lemma sent_from_refl [simp]: "sent_from l l"
  unfolding sent_from_def
  by (intro exI [of _ "ln_last_outbound l"] exI [of _ "ln_tx l"] exI [of _ "ln_txbytes l"]
      exI [of _ "lk_token l"] exI [of _ "lk_last_data l"] exI [of _ "lk_out l"]) simp

lemma sent_fromE:
  assumes "sent_from l l'"
  obtains a b c t d x where "l' = l\<lparr>ln_last_outbound := a, ln_tx := b, ln_txbytes := c,
      lk_token := t, lk_last_data := d, lk_out := x\<rparr>"
    "t = lk_token l \<or> link_token l = Inr (the t) \<and> t \<noteq> None"
  using assms unfolding sent_from_def by blast

lemma sent_from_token: "sent_from l l' \<Longrightarrow> link_token l' = link_token l"
  by (erule sent_fromE) (auto simp: link_token_def split: option.splits)

lemma sent_from_trans: "sent_from l l' \<Longrightarrow> sent_from l' l'' \<Longrightarrow> sent_from l l''"
proof -
  assume 1: "sent_from l l'" and 2: "sent_from l' l''"
  note t = sent_from_token [OF 1]
  from 2 obtain a b c t' d x where l'': "l'' = l'\<lparr>ln_last_outbound := a, ln_tx := b, ln_txbytes := c,
      lk_token := t', lk_last_data := d, lk_out := x\<rparr>"
    "t' = lk_token l' \<or> link_token l' = Inr (the t') \<and> t' \<noteq> None"
    by (rule sent_fromE)
  from 1 obtain a1 b1 c1 t1 d1 x1 where l': "l' = l\<lparr>ln_last_outbound := a1, ln_tx := b1, ln_txbytes := c1,
      lk_token := t1, lk_last_data := d1, lk_out := x1\<rparr>"
    "t1 = lk_token l \<or> link_token l = Inr (the t1) \<and> t1 \<noteq> None"
    by (rule sent_fromE)
  show "sent_from l l''"
    unfolding sent_from_def
    by (intro exI [of _ a] exI [of _ b] exI [of _ c] exI [of _ t'] exI [of _ d] exI [of _ x])
      (use l'' l' t in auto)
qed

lemma sent_from_fields:
  assumes "sent_from l l'"
  shows "ln_id l' = ln_id l" "ln_status l' = ln_status l" "ln_mtu l' = ln_mtu l" "ln_mdu l' = ln_mdu l"
    "ln_rtt l' = ln_rtt l" "ln_last_proof l' = ln_last_proof l" "ln_peer_sig_pub l' = ln_peer_sig_pub l"
    "lk_mode l' = lk_mode l" "lk_initiator l' = lk_initiator l" "lk_dest l' = lk_dest l"
    "lk_owner l' = lk_owner l" "lk_prv l' = lk_prv l" "lk_pub_bytes l' = lk_pub_bytes l"
    "lk_sig_prv l' = lk_sig_prv l" "lk_sig_pub_bytes l' = lk_sig_pub_bytes l"
    "lk_peer_pub_bytes l' = lk_peer_pub_bytes l" "lk_shared_key l' = lk_shared_key l"
    "lk_derived_key l' = lk_derived_key l" "lk_remote l' = lk_remote l" "lk_iface l' = lk_iface l"
    "lk_keepalive l' = lk_keepalive l" "lk_stale_time l' = lk_stale_time l"
    "lk_stale_deadline l' = lk_stale_deadline l" "lk_reason l' = lk_reason l"
    "lk_last_inbound l' = lk_last_inbound l" "lk_activated_at l' = lk_activated_at l"
    "lk_request_time l' = lk_request_time l" "lk_last_keepalive l' = lk_last_keepalive l"
    "lk_incoming l' = lk_incoming l" "lk_outgoing l' = lk_outgoing l" "lk_pending l' = lk_pending l"
    "lk_closed_cb l' = lk_closed_cb l" "lk_packet_cb l' = lk_packet_cb l" "lk_channel l' = lk_channel l"
    "lk_establishment_cost l' = lk_establishment_cost l" "lk_proof_sent_at l' = lk_proof_sent_at l"
  using assms by (auto elim!: sent_fromE)

lemma keep_token_sent: "sent_from l (keep_token l)"
proof (cases "link_token l")
  case (Inl f)
  then show ?thesis by (simp add: keep_token_def)
next
  case (Inr t)
  then show ?thesis
    unfolding sent_from_def keep_token_def
    by (intro exI [of _ "ln_last_outbound l"] exI [of _ "ln_tx l"] exI [of _ "ln_txbytes l"]
        exI [of _ "Some t"] exI [of _ "lk_last_data l"] exI [of _ "lk_out l"]) simp
qed

lemma counted_sent: "sent_from l (counted w l)"
  unfolding sent_from_def counted_def
  by (intro exI [of _ "ln_last_outbound w"] exI [of _ "ln_tx w"] exI [of _ "ln_txbytes w"]
      exI [of _ "lk_token l"] exI [of _ "lk_last_data l"] exI [of _ "lk_out l"]) simp

lemma out_sent: "sent_from l (out x l)"
  unfolding sent_from_def out_def
  by (intro exI [of _ "ln_last_outbound l"] exI [of _ "ln_tx l"] exI [of _ "ln_txbytes l"]
      exI [of _ "lk_token l"] exI [of _ "lk_last_data l"] exI [of _ "lk_out l @ [x]"]) simp

lemma had_outbound_sent: "sent_from l (had_outbound v k l)"
  unfolding sent_from_def had_outbound_def
  by (intro exI [of _ "lv_now v"] exI [of _ "ln_tx l"] exI [of _ "ln_txbytes l"]
      exI [of _ "lk_token l"] exI [of _ "if k then lk_last_data l else lv_now v"] exI [of _ "lk_out l"]) simp

lemma after_send_sent: "sent_from l (after_send p l)"
  using sent_from_trans [OF counted_sent keep_token_sent, of l]
  by (auto simp: after_send_def Let_def keep_token_sent counted_sent split: option.splits)

lemma transmit_sent: "sent_from l (fst (transmit v b pt ctx l))"
  by (auto simp: transmit_def after_send_sent intro: sent_from_trans [OF after_send_sent out_sent]
      split: sum.splits prod.splits)

lemma emit_packet_sent: "sent_from l (fst (emit_packet v b pt ctx k l))"
  using transmit_sent [of l v b pt ctx]
  by (auto simp: emit_packet_def intro: sent_from_trans [OF _ had_outbound_sent] split: sum.splits prod.splits)

lemma flush_sent: "sent_from l (flush v ps l)"
proof (induction ps arbitrary: l)
  case Nil
  then show ?case by (simp add: flush_def)
next
  case (Cons x ps)
  show ?case
    using sent_from_trans [OF transmit_sent Cons.IH] by (auto simp: flush_def split: prod.splits)
qed

lemma on_resource_sent: "on_resource v f r l = (r', l', x) \<Longrightarrow> sent_from l l'"
  by (auto simp: on_resource_def flush_sent split: prod.splits)

lemma cancel_each_sent: "cancel_each v rs l = (rs', l') \<Longrightarrow> sent_from l l'"
proof (induction rs arbitrary: l l' rs')
  case Nil
  then show ?case by simp
next
  case (Cons r rs)
  obtain r1 l1 x where 1: "on_resource v cancel r l = (r1, l1, x)" by (cases "on_resource v cancel r l") auto
  obtain rs2 l2 where 2: "cancel_each v rs l1 = (rs2, l2)" by (cases "cancel_each v rs l1") auto
  show ?case
    using Cons.prems Cons.IH [OF 2] on_resource_sent [OF 1] 1 2 by (auto intro: sent_from_trans)
qed

lemma link_decrypt_sent: "link_decrypt c b l = (p, l') \<Longrightarrow> sent_from l l'"
  by (auto simp: link_decrypt_def keep_token_sent)

lemma prove_packet_sent: "sent_from l (fst (prove_packet v p l))"
  by (auto simp: prove_packet_def emit_packet_sent split: sum.splits)

lemma prove_received_sent: "sent_from l (fst (prove_received v p l))"
  by (auto simp: prove_received_def prove_packet_sent out_sent split: prove_action.splits)

section \<open>The invariant\<close>

definition up :: "link \<Rightarrow> bool" where
  "up l \<longleftrightarrow> ln_status l = ACTIVE \<or> ln_status l = STALE"

definition key_length :: "link \<Rightarrow> nat" where
  "key_length l = (if lk_mode l = MODE_AES128_CBC_LINK then 32 else 64)"

text \<open>The key is the one agreed with the peer key that is loaded, and the token is of that key.\<close>

definition keyed :: "prims \<Rightarrow> link \<Rightarrow> bool" where
  "keyed c l \<longleftrightarrow> (\<exists>k. lk_prv l = Some k \<and> x_exchange c k (lk_peer_pub_bytes l) = Inr (lk_shared_key l) \<and>
     hkdf c (key_length l) (lk_shared_key l) (ln_id l) [] = Inr (lk_derived_key l))"

text \<open>The destination signed the link id and the peer's key.\<close>

definition authentic :: "prims \<Rightarrow> link \<Rightarrow> bool" where
  "authentic c l \<longleftrightarrow> (\<exists>dst i sig sb. lk_dest l = Some dst \<and> dn_ident dst = Some i \<and>
     ln_peer_sig_pub l = bmid_len 32 32 (get_public_key i) \<and>
     identity_validate c sig (proof_signed l (lk_peer_pub_bytes l) (ln_peer_sig_pub l) sb) i = Inr True)"

text \<open>Some packet opened under the key.\<close>

definition opened :: "prims \<Rightarrow> link \<Rightarrow> bool" where
  "opened c l \<longleftrightarrow> (\<exists>b. link_open c b l \<noteq> [])"

text \<open>The peer of a responder that has a name signed the link id with the key of that name.\<close>

definition remote_ok :: "prims \<Rightarrow> link \<Rightarrow> bool" where
  "remote_ok c l \<longleftrightarrow> (\<not> lk_initiator l \<longrightarrow> (\<forall>i. lk_remote l = Some i \<longrightarrow>
     iy_hash i = truncated_hash c (get_public_key i) \<and>
     (\<exists>sig. identity_validate c sig (ln_id l @ get_public_key i) i = Inr True)))"

definition intervals_ok :: "link \<Rightarrow> bool" where
  "intervals_ok l \<longleftrightarrow> 5 \<le> unat (lk_keepalive l) \<and> unat (lk_keepalive l) \<le> 360 \<and>
     lk_stale_time l = lk_keepalive l * 2"

definition link_ok :: "prims \<Rightarrow> link \<Rightarrow> bool" where
  "link_ok c l \<longleftrightarrow>
     (ln_status l \<noteq> CLOSED \<longrightarrow> (\<forall>t. lk_token l = Some t \<longrightarrow> token_new (lk_derived_key l) MODE_AES = Inr t)) \<and>
     (ln_status l = PENDING \<longrightarrow> lk_token l = None \<and> lk_derived_key l = []) \<and>
     (ln_status l = HANDSHAKE \<or> up l \<longrightarrow> keyed c l) \<and>
     (up l \<longrightarrow> (if lk_initiator l then authentic c l else opened c l)) \<and> intervals_ok l \<and>
     (ln_status l \<noteq> CLOSED \<longrightarrow> remote_ok c l)"

lemma token_new_Nil [simp]: "token_new [] m = Inl Invalid_argument"
  by (simp add: token_new_def)

text \<open>The fields the invariant looks at.\<close>

definition core :: "link \<Rightarrow> _" where
  "core l = (ln_id l, ln_status l, ln_peer_sig_pub l, lk_mode l, lk_initiator l, lk_dest l, lk_prv l,
     lk_peer_pub_bytes l, lk_shared_key l, lk_derived_key l, lk_keepalive l, lk_stale_time l, lk_remote l)"

lemma core_cong:
  assumes "core l' = core l"
  shows "up l' = up l" "keyed c l' = keyed c l" "authentic c l' = authentic c l"
    "intervals_ok l' = intervals_ok l" "ln_status l' = ln_status l" "lk_initiator l' = lk_initiator l"
    "lk_derived_key l' = lk_derived_key l" "remote_ok c l' = remote_ok c l"
  using assms
  by (simp_all add: core_def up_def keyed_def key_length_def authentic_def proof_signed_def intervals_ok_def remote_ok_def)

lemma opened_cong: "link_token l' = link_token l \<Longrightarrow> opened c l' = opened c l"
  by (simp add: opened_def link_open_def)

lemma link_token_cong: "lk_token l' = lk_token l \<Longrightarrow> lk_derived_key l' = lk_derived_key l \<Longrightarrow> link_token l' = link_token l"
  by (simp add: link_token_def cong: option.case_cong)

lemma link_ok_cong:
  assumes "core l' = core l" and "lk_token l' = lk_token l"
  shows "link_ok c l' = link_ok c l"
  using core_cong [OF assms(1)] opened_cong [OF link_token_cong [OF assms(2) core_cong(7) [OF assms(1)]]]
    assms(2) by (simp add: link_ok_def)

lemma sent_from_core: "sent_from l l' \<Longrightarrow> core l' = core l"
  by (simp add: core_def sent_from_fields)

lemma link_ok_sent [intro]:
  assumes "link_ok c l" and "sent_from l l'"
  shows "link_ok c l'"
proof -
  obtain t where t: "lk_token l' = t" "t = lk_token l \<or> link_token l = Inr (the t) \<and> t \<noteq> None"
    using assms(2) by (auto elim: sent_fromE)
  have tok: "(ln_status l \<noteq> CLOSED \<longrightarrow> (\<forall>t. lk_token l' = Some t \<longrightarrow> token_new (lk_derived_key l) MODE_AES = Inr t)) \<and>
      (ln_status l = PENDING \<longrightarrow> lk_token l' = None)"
  proof (cases "t = lk_token l")
    case True
    then show ?thesis using assms(1) t(1) by (simp add: link_ok_def)
  next
    case False
    then obtain k where k: "t = Some k" "link_token l = Inr k" using t(2) by auto
    show ?thesis
    proof (cases "lk_token l")
      case None
      then have "token_new (lk_derived_key l) MODE_AES = Inr k" using k(2) by (simp add: link_token_def)
      then show ?thesis using k t(1) assms(1) by (auto simp: link_ok_def)
    next
      case (Some k')
      then show ?thesis using k False by (simp add: link_token_def)
    qed
  qed
  show ?thesis
    using assms(1) tok core_cong [OF sent_from_core [OF assms(2)]]
      opened_cong [OF sent_from_token [OF assms(2)]]
    by (simp add: link_ok_def)
qed

lemma link_ok_closed: "intervals_ok l \<Longrightarrow> ln_status l = CLOSED \<Longrightarrow> link_ok c l"
  by (simp add: link_ok_def up_def)

lemma link_ok_intervals [simp]: "link_ok c l \<Longrightarrow> intervals_ok l"
  by (simp add: link_ok_def)

lemma intervals_sent: "sent_from l l' \<Longrightarrow> intervals_ok l' = intervals_ok l"
  by (rule core_cong(4)) (rule sent_from_core)

text \<open>Fields the invariant does not look at.\<close>

lemma link_ok_irrelevant [simp]:
  "link_ok c (l\<lparr>lk_closed_cb := b\<rparr>) = link_ok c l" "link_ok c (l\<lparr>lk_packet_cb := b\<rparr>) = link_ok c l"
  "link_ok c (l\<lparr>lk_identified_cb := b\<rparr>) = link_ok c l" "link_ok c (l\<lparr>lk_resource_cb := b\<rparr>) = link_ok c l"
  "link_ok c (l\<lparr>lk_concluded_cb := b\<rparr>) = link_ok c l" "link_ok c (l\<lparr>lk_strategy := st\<rparr>) = link_ok c l"
  "link_ok c (l\<lparr>lk_channel := b\<rparr>) = link_ok c l" "link_ok c (l\<lparr>lk_last_keepalive := t\<rparr>) = link_ok c l"
  "link_ok c (l\<lparr>lk_last_inbound := t\<rparr>) = link_ok c l" "link_ok c (l\<lparr>lk_last_data := t\<rparr>) = link_ok c l"
  "link_ok c (l\<lparr>lk_rx := n, lk_rxbytes := n'\<rparr>) = link_ok c l"
  "link_ok c (l\<lparr>lk_iface := ifc\<rparr>) = link_ok c l"
  "link_ok c (l\<lparr>lk_incoming := rs\<rparr>) = link_ok c l" "link_ok c (l\<lparr>lk_outgoing := rs\<rparr>) = link_ok c l"
  "link_ok c (l\<lparr>lk_pending := qs\<rparr>) = link_ok c l" "link_ok c (l\<lparr>lk_proof_repaired := b\<rparr>) = link_ok c l"
  "link_ok c (l\<lparr>lk_establishment_cost := w, lk_proof_sent_at := t\<rparr>) = link_ok c l"
  "link_ok c (l\<lparr>lk_establishment_cost := w\<rparr>) = link_ok c l"
  "link_ok c (l\<lparr>lk_establishment_rate := t\<rparr>) = link_ok c l"
  "link_ok c (l\<lparr>ln_rtt := t\<rparr>) = link_ok c l" "link_ok c (l\<lparr>ln_last_proof := t\<rparr>) = link_ok c l"
  "link_ok c (l\<lparr>lk_request_time := t\<rparr>) = link_ok c l" "link_ok c (l\<lparr>ln_mdu := w\<rparr>) = link_ok c l"
  by (rule link_ok_cong; simp add: core_def)+

lemma out_ok [simp]: "link_ok c (out x l) = link_ok c l"
  by (rule link_ok_cong; simp add: core_def out_def)

text \<open>Naming the peer.\<close>

lemma link_ok_named:
  assumes "link_ok c l" "iy_hash i = truncated_hash c (get_public_key i)"
    "identity_validate c sig (ln_id l @ get_public_key i) i = Inr True"
  shows "link_ok c (l\<lparr>lk_remote := Some i\<rparr>)"
proof -
  let ?l = "l\<lparr>lk_remote := Some i\<rparr>"
  have "opened c ?l = opened c l" by (rule opened_cong) (rule link_token_cong, simp_all)
  moreover have "keyed c ?l = keyed c l" by (simp add: keyed_def key_length_def)
  moreover have "authentic c ?l = authentic c l" by (simp add: authentic_def proof_signed_def)
  moreover have "remote_ok c ?l" using assms(2,3) by (auto simp: remote_ok_def)
  ultimately show ?thesis using assms(1) by (simp add: link_ok_def up_def intervals_ok_def)
qed

section \<open>Steps that keep it\<close>

lemma lthen_ok:
  assumes "link_ok c (fst m)" and "\<And>l. m = (l, None) \<Longrightarrow> link_ok c l \<Longrightarrow> link_ok c (fst (f l))"
  shows "link_ok c (fst (lthen m f))"
  using assms by (cases m) (auto simp: lthen_def split: option.splits)

lemma caught_ok:
  assumes "link_ok c (fst m)" and "\<And>l f. m = (l, Some f) \<Longrightarrow> link_ok c l \<Longrightarrow> link_ok c (fst (h l))"
  shows "link_ok c (fst (caught h m))"
  using assms by (cases m) (auto simp: caught_def split: option.splits)

lemma logged_ok: "link_ok c (fst m) \<Longrightarrow> link_ok c (fst (logged m))"
  by (auto simp: logged_def intro: caught_ok)

lemma emit_packet_ok [intro]: "link_ok c l \<Longrightarrow> link_ok c (fst (emit_packet v b pt ctx k l))"
  using emit_packet_sent by blast

lemma link_closed_ok:
  assumes "ln_status l = CLOSED" "intervals_ok l"
  shows "link_ok c (link_closed v l)" "ln_status (link_closed v l) = CLOSED" "lk_derived_key (link_closed v l) = []"
    "lk_shared_key (link_closed v l) = []" "lk_prv (link_closed v l) = None"
    "lk_reason (link_closed v l) = lk_reason l" "lk_stale_time (link_closed v l) = lk_stale_time l"
proof -
  obtain inc l1 where 1: "cancel_each v (lk_incoming l) l = (inc, l1)" by (cases "cancel_each v (lk_incoming l) l") auto
  obtain outg l2 where 2: "cancel_each v (lk_outgoing l) (l1\<lparr>lk_incoming := inc\<rparr>) = (outg, l2)"
    by (cases "cancel_each v (lk_outgoing l) (l1\<lparr>lk_incoming := inc\<rparr>)") auto
  note s1 = sent_from_fields [OF cancel_each_sent [OF 1]]
  note s2 = sent_from_fields [OF cancel_each_sent [OF 2]]
  note d = link_closed_def 1 2 purge_keys_def out_def
  show s: "ln_status (link_closed v l) = CLOSED" "lk_derived_key (link_closed v l) = []"
    "lk_shared_key (link_closed v l) = []" "lk_prv (link_closed v l) = None"
    "lk_reason (link_closed v l) = lk_reason l" "lk_stale_time (link_closed v l) = lk_stale_time l"
    using s1 s2 assms(1) by (simp_all add: d Let_def)
  have "intervals_ok (link_closed v l)"
    using s1 s2 assms(2) by (simp add: d Let_def intervals_ok_def)
  with s(1) show "link_ok c (link_closed v l)" using link_ok_closed by blast
qed

lemma close_for_ok:
  assumes "intervals_ok l"
  shows "link_ok c (close_for v r l)" "ln_status (close_for v r l) = CLOSED"
    "lk_derived_key (close_for v r l) = []" "lk_shared_key (close_for v r l) = []"
    "lk_prv (close_for v r l) = None" "lk_reason (close_for v r l) = r"
  using link_closed_ok [of "l\<lparr>ln_status := CLOSED, lk_reason := r\<rparr>"] assms
  by (simp_all add: close_for_def intervals_ok_def)

lemma teardown_ok [intro]: "link_ok c l \<Longrightarrow> link_ok c (fst (teardown v l))"
  unfolding teardown_def by (rule lthen_ok) (auto intro: close_for_ok(1))

lemma teardown_packet_ok [intro]: "link_ok c l \<Longrightarrow> link_ok c (teardown_packet v p l)"
  using link_decrypt_sent [of "lv_prims v" "pk_data p" l]
  by (auto simp: teardown_packet_def intervals_sent intro!: close_for_ok(1) split: prod.splits)

lemma app_step_ok: "link_ok c l \<Longrightarrow> link_ok c (fst (app_step v a l))"
  by (cases a) (auto simp: set_resource_strategy_def)

lemma app_run_ok: "link_ok c l \<Longrightarrow> link_ok c (fst (app_run v cs l))"
proof (induction cs arbitrary: l)
  case Nil
  then show ?case by simp
next
  case (Cons a cs)
  then show ?case unfolding app_run.simps by (intro lthen_ok) (auto intro: app_step_ok)
qed

section \<open>Intervals\<close>

lemma of_int_u16: "0 \<le> k \<Longrightarrow> k \<le> 360 \<Longrightarrow> unat (of_int k :: u16) = nat k"
proof -
  assume k: "0 \<le> k" "k \<le> 360"
  then have "(of_int k :: u16) = of_nat (nat k)" by simp
  moreover have "nat k < 65536" using k by simp
  ultimately show ?thesis by (simp add: unat_of_nat)
qed

lemma update_keepalive_intervals [simp]: "intervals_ok (update_keepalive l)"
proof -
  define ka where "ka = (let ka = ln_rtt l * (KEEPALIVE_MAX / KEEPALIVE_MAX_RTT);
         ka = (if ka > KEEPALIVE_MAX then KEEPALIVE_MAX else ka)
     in if ka < KEEPALIVE_MIN then KEEPALIVE_MIN else ka)"
  have b: "5 \<le> ka" "ka \<le> 360" by (auto simp: ka_def Let_def KEEPALIVE_MAX_def KEEPALIVE_MIN_def)
  have c: "5 \<le> \<lceil>ka\<rceil>" "\<lceil>ka\<rceil> \<le> 360" using b by (simp_all add: le_ceiling_iff ceiling_le_iff)
  have "lk_keepalive (update_keepalive l) = of_int \<lceil>ka\<rceil>"
    "lk_stale_time (update_keepalive l) = lk_keepalive (update_keepalive l) * 2"
    by (simp_all add: update_keepalive_def ka_def Let_def STALE_FACTOR_def)
  moreover have "5 \<le> nat \<lceil>ka\<rceil>" "nat \<lceil>ka\<rceil> \<le> 360" using c by linarith+
  moreover have "unat (of_int \<lceil>ka\<rceil> :: u16) = nat \<lceil>ka\<rceil>"
    by (rule of_int_u16) (use c in linarith)+
  ultimately show ?thesis unfolding intervals_ok_def by metis
qed

lemma update_keepalive_core:
  "ln_status (update_keepalive l) = ln_status l" "lk_token (update_keepalive l) = lk_token l"
  "lk_derived_key (update_keepalive l) = lk_derived_key l" "up (update_keepalive l) = up l"
  "keyed c (update_keepalive l) = keyed c l" "authentic c (update_keepalive l) = authentic c l"
  "opened c (update_keepalive l) = opened c l" "remote_ok c (update_keepalive l) = remote_ok c l"
  "lk_initiator (update_keepalive l) = lk_initiator l"
  "lk_stale_time (update_keepalive l) = lk_keepalive (update_keepalive l) * 2"
  by (simp_all add: update_keepalive_def Let_def up_def keyed_def key_length_def authentic_def proof_signed_def
      opened_def link_open_def link_token_def STALE_FACTOR_def remote_ok_def cong: option.case_cong)

lemma update_keepalive_ok [simp]: "link_ok c l \<Longrightarrow> link_ok c (update_keepalive l)"
  by (simp add: link_ok_def update_keepalive_core)

lemma establishment_rate_ok [simp]: "link_ok c (establishment_rate l) = link_ok c l"
  by (simp add: establishment_rate_def)

section \<open>Establishment\<close>

lemma send_rtt_ok: "link_ok c l \<Longrightarrow> link_ok c (fst (send_rtt v l))"
  by (auto simp: send_rtt_def Let_def)

lemma owner_established_ok: "link_ok c l \<Longrightarrow> link_ok c (fst (owner_established v l))"
  by (auto simp: owner_established_def intro!: caught_ok app_run_ok)

text \<open>A link that opens a packet has its keys: an empty key makes no token.\<close>

lemma opens_keyed:
  assumes "link_ok c l" "link_open c b l \<noteq> []" "ln_status l \<noteq> CLOSED"
  shows "keyed c l" "ln_status l \<noteq> PENDING"
proof -
  show np: "ln_status l \<noteq> PENDING"
  proof
    assume "ln_status l = PENDING"
    then have "link_token l = Inl Invalid_argument" using assms(1) by (simp add: link_ok_def link_token_def)
    then show False using assms(2) by (simp add: link_open_def)
  qed
  have "ln_status l = HANDSHAKE \<or> up l" using assms(3) np by (cases "ln_status l") (simp_all add: up_def)
  then show "keyed c l" using assms(1) unfolding link_ok_def by blast
qed

lemma activate_responder_ok:
  assumes "link_ok c l" "link_open c b l \<noteq> []" "ln_status l \<noteq> CLOSED" "\<not> lk_initiator l"
  shows "link_ok c (fst (activate_responder v rtt l))"
proof -
  let ?l = "l\<lparr>ln_rtt := rtt, ln_status := ACTIVE, lk_activated_at := lv_now v\<rparr>"
  note k = opens_keyed [OF assms(1-3)]
  have t: "link_token ?l = link_token l" by (rule link_token_cong) simp_all
  have "keyed c ?l" using k(1) by (simp add: keyed_def key_length_def)
  moreover have "opened c ?l" using assms(2) opened_cong [OF t] by (auto simp: opened_def)
  moreover have "\<forall>t. lk_token l = Some t \<longrightarrow> token_new (lk_derived_key l) MODE_AES = Inr t"
    using assms(1,3) by (simp add: link_ok_def)
  moreover have "remote_ok c ?l" using assms(1,3) by (simp add: link_ok_def remote_ok_def)
  ultimately have "link_ok c ?l"
    using assms(1,4) by (simp add: link_ok_def up_def intervals_ok_def)
  then show ?thesis unfolding activate_responder_def by (auto intro: owner_established_ok)
qed

lemma link_decrypt_ok: "link_ok c l \<Longrightarrow> link_decrypt d b l = (p, l') \<Longrightarrow> link_ok c l'"
  using link_decrypt_sent by blast

text \<open>What a decryption leaves to go on with.\<close>

lemma decrypted:
  assumes "link_decrypt c b l = (p, l')" "link_ok c l"
  shows "link_ok c l'" "link_open c b l' = p" "ln_status l' = ln_status l" "lk_initiator l' = lk_initiator l"
proof -
  note s = link_decrypt_sent [OF assms(1)]
  show "link_ok c l'" using assms(2) s by blast
  show "ln_status l' = ln_status l" "lk_initiator l' = lk_initiator l" using s by (simp_all add: sent_from_fields)
  show "link_open c b l' = p"
    using assms(1) sent_from_token [OF s] by (auto simp: link_decrypt_def link_open_def)
qed

lemma activate_without_rtt_ok:
  "link_ok c l \<Longrightarrow> link_open c b l \<noteq> [] \<Longrightarrow> ln_status l \<noteq> CLOSED \<Longrightarrow> \<not> lk_initiator l \<Longrightarrow>
   link_ok c (fst (activate_without_rtt v l))"
  by (simp add: activate_without_rtt_def activate_responder_ok)

lemma rtt_packet_ok:
  assumes "link_ok (lv_prims v) l" "\<not> lk_initiator l" "ln_status l = HANDSHAKE"
  shows "link_ok (lv_prims v) (fst (rtt_packet v p l))"
proof -
  obtain b l1 where d: "link_decrypt (lv_prims v) (pk_data p) l = (b, l1)"
    by (cases "link_decrypt (lv_prims v) (pk_data p) l") auto
  note dl = decrypted [OF d assms(1)]
  have o: "link_open (lv_prims v) (pk_data p) (out x l1) = link_open (lv_prims v) (pk_data p) l1" for x
    by (simp add: out_def link_open_def link_token_def cong: option.case_cong)
  have s: "ln_status (out x l1) = ln_status l1" "lk_initiator (out x l1) = lk_initiator l1" for x
    by (simp_all add: out_def)
  show ?thesis
  proof (cases "b = []")
    case True
    then show ?thesis using d dl by (simp add: rtt_packet_def)
  next
    case False
    have "link_ok (lv_prims v) (fst (activate_responder v rtt (if repair_helped v l1 then out Repair_helped l1 else l1)))" for rtt
      using activate_responder_ok [of "lv_prims v" "if repair_helped v l1 then out Repair_helped l1 else l1" "pk_data p"]
        dl False assms(2,3) o s by auto
    then show ?thesis
      using d dl(1) False
      by (auto simp: rtt_packet_def Let_def intro!: caught_ok split: sum.splits)
  qed
qed

lemma handshake_cases:
  assumes "handshake v l = (l', x)"
  obtains (skipped) "l' = l" "x = None"
  | (no_secret) f where "x = Some f" "l' = l\<lparr>ln_status := HANDSHAKE\<rparr>"
  | (no_key) f sh where "x = Some f" "l' = l\<lparr>ln_status := HANDSHAKE, lk_shared_key := sh\<rparr>"
  | (agreed) k sh key where "x = None" "ln_status l = PENDING" "lk_prv l = Some k"
      "x_exchange (lv_prims v) k (lk_peer_pub_bytes l) = Inr sh"
      "hkdf (lv_prims v) (key_length l) sh (ln_id l) [] = Inr key"
      "l' = l\<lparr>ln_status := HANDSHAKE, lk_shared_key := sh, lk_derived_key := key\<rparr>"
proof (cases "lk_prv l")
  case None
  then show ?thesis using assms skipped by (simp add: handshake_def)
next
  case (Some k)
  show ?thesis
  proof (cases "ln_status l = PENDING")
    case False
    then show ?thesis using assms Some skipped by (simp add: handshake_def)
  next
    case True
    show ?thesis
    proof (cases "x_exchange (lv_prims v) k (lk_peer_pub_bytes l)")
      case (Inl f)
      then show ?thesis using assms Some True no_secret [of f] by (simp add: handshake_def Let_def)
    next
      case (Inr sh)
      let ?l = "l\<lparr>ln_status := HANDSHAKE, lk_shared_key := sh\<rparr>"
      have d: "derive_key v ?l = (l', x)" using assms Some True Inr by (simp add: handshake_def Let_def)
      show ?thesis
      proof (cases x)
        case (Some f)
        then have "l' = ?l" using d by (auto simp: derive_key_def split: option.splits sum.splits)
        then show ?thesis using no_key Some by blast
      next
        case None
        then obtain key where "hkdf (lv_prims v) (key_length l) sh (ln_id l) [] = Inr key" "l' = ?l\<lparr>lk_derived_key := key\<rparr>"
          using d by (auto simp: derive_key_def key_length_def split: option.splits sum.splits if_splits)
        then show ?thesis using agreed [OF None True Some Inr] by simp
      qed
    qed
  qed
qed

lemma handshake_ok:
  assumes "link_ok (lv_prims v) l"
  shows "handshake v l = (l', None) \<Longrightarrow> link_ok (lv_prims v) l'"
    "handshake v l = (l', x) \<Longrightarrow> intervals_ok l' \<and> lk_initiator l' = lk_initiator l \<and> ln_id l' = ln_id l \<and>
       lk_dest l' = lk_dest l \<and> ln_peer_sig_pub l' = ln_peer_sig_pub l \<and> lk_peer_pub_bytes l' = lk_peer_pub_bytes l"
proof -
  assume h: "handshake v l = (l', None)"
  from h show "link_ok (lv_prims v) l'"
  proof (cases rule: handshake_cases)
    case skipped
    then show ?thesis using assms by simp
  next
    case (agreed k sh key)
    have "keyed (lv_prims v) l'" unfolding keyed_def using agreed by (simp add: key_length_def)
    moreover have "remote_ok (lv_prims v) l'" "intervals_ok l'" "lk_token l' = None"
      using assms agreed(2,6) by (simp_all add: link_ok_def remote_ok_def intervals_ok_def)
    ultimately show ?thesis using agreed(6) by (simp add: link_ok_def up_def)
  qed simp_all
next
  assume h: "handshake v l = (l', x)"
  have i: "intervals_ok l" using assms by simp
  from h show "intervals_ok l' \<and> lk_initiator l' = lk_initiator l \<and> ln_id l' = ln_id l \<and>
       lk_dest l' = lk_dest l \<and> ln_peer_sig_pub l' = ln_peer_sig_pub l \<and> lk_peer_pub_bytes l' = lk_peer_pub_bytes l"
    by (cases rule: handshake_cases) (use i in \<open>simp_all add: intervals_ok_def\<close>)
qed

section \<open>The link proof\<close>

lemma send_rtt_sent: "up l \<Longrightarrow> link_ok c l \<Longrightarrow> link_ok c (fst (send_rtt v l))"
  by (rule send_rtt_ok)

lemma confirm_mtu_core:
  "ln_status (confirm_mtu v m l) = ln_status l" "lk_token (confirm_mtu v m l) = lk_token l"
  "lk_derived_key (confirm_mtu v m l) = lk_derived_key l" "keyed c (confirm_mtu v m l) = keyed c l"
  "authentic c (confirm_mtu v m l) = authentic c l" "lk_initiator (confirm_mtu v m l) = lk_initiator l"
  "intervals_ok (confirm_mtu v m l) = intervals_ok l" "remote_ok c (confirm_mtu v m l) = remote_ok c l"
  by (simp_all add: remote_ok_def confirm_mtu_def Let_def keyed_def key_length_def authentic_def proof_signed_def intervals_ok_def)

lemma activate_initiator_ok:
  assumes "link_ok (lv_prims v) l" "lk_initiator l" "authentic (lv_prims v) l"
  shows "link_ok (lv_prims v) (fst (activate_initiator v ifc m i l))"
proof (cases "ln_status l = HANDSHAKE")
  case False
  then show ?thesis using assms by (simp add: activate_initiator_def)
next
  case True
  let ?c = "lv_prims v"
  let ?r = "l\<lparr>ln_rtt := lv_now v - lk_request_time l, lk_iface := ifc, lk_remote := Some i\<rparr>"
  define l1 where "l1 = confirm_mtu v m ?r"
  have l1: "ln_status l1 = HANDSHAKE" "lk_token l1 = lk_token l" "lk_derived_key l1 = lk_derived_key l"
      "keyed ?c l1" "authentic ?c l1" "lk_initiator l1" "intervals_ok l1"
    using confirm_mtu_core [where v = v and m = m and l = ?r] assms True
    by (simp_all add: l1_def link_ok_def up_def keyed_def key_length_def authentic_def proof_signed_def intervals_ok_def)
  have l1_ok: "link_ok ?c l1"
    using l1 assms(1) True by (simp add: link_ok_def up_def remote_ok_def)
  have active: "link_ok ?c (update_keepalive (l2\<lparr>ln_status := ACTIVE, lk_activated_at := lv_now v, ln_last_proof := lv_now v\<rparr>))"
    if "update_mdu l1 = (l2, None)" for l2
  proof (rule update_keepalive_ok)
    from that obtain w where l2: "l2 = l1\<lparr>ln_mdu := w\<rparr>" by (auto simp: update_mdu_def Let_def split: if_splits)
    show "link_ok ?c (l2\<lparr>ln_status := ACTIVE, lk_activated_at := lv_now v, ln_last_proof := lv_now v\<rparr>)"
      using l1 assms(1) True l2
      by (simp add: link_ok_def up_def keyed_def key_length_def authentic_def proof_signed_def intervals_ok_def
          remote_ok_def)
  qed
  have u: "link_ok ?c (fst (update_mdu l1))" using l1_ok by (simp add: update_mdu_def Let_def)
  show ?thesis
    using True active
    by (auto simp: activate_initiator_def Let_def l1_def [symmetric]
        intro!: lthen_ok u send_rtt_ok app_run_ok)
qed

lemma validate_first_proof_ok:
  assumes "link_ok (lv_prims v) l" "ln_status l = PENDING"
  shows "case validate_first_proof v ifc p l of (l', None) \<Rightarrow> link_ok (lv_prims v) l' | (l', Some f) \<Rightarrow> intervals_ok l'"
proof -
  let ?c = "lv_prims v"
  show ?thesis
  proof (cases "lp_parts p")
    case (Inl f)
    then show ?thesis using assms(1) by (simp add: validate_first_proof_def)
  next
    case (Inr x)
    obtain d m sb where x: "x = (d, m, sb)" by (cases x)
    show ?thesis
    proof (cases "mode_from_lp_packet p = lk_mode l \<and> lk_initiator l \<and> length d = lp_size")
      case False
      then show ?thesis using assms(1) Inr x by (auto simp: validate_first_proof_def)
    next
      case True
      show ?thesis
      proof (cases "case lk_dest l of None \<Rightarrow> None | Some dst \<Rightarrow> dn_ident dst")
        case None
        then show ?thesis using assms(1) Inr x True by (simp add: validate_first_proof_def)
      next
        case i: (Some i)
        then obtain dst where dst: "lk_dest l = Some dst" "dn_ident dst = Some i" by (auto split: option.splits)
        let ?lp = "load_peer (bmid_len (SIGLENGTH div 8) (ECPUBSIZE div 2) d)
          (bmid_len (ECPUBSIZE div 2) (ECPUBSIZE div 2) (get_public_key i)) l"
        have lp: "link_ok ?c ?lp"
          using assms True by (simp add: link_ok_def load_peer_def up_def intervals_ok_def remote_ok_def)
        obtain l1 y where h: "handshake v ?lp = (l1, y)" by (cases "handshake v ?lp") auto
        note hf = handshake_ok(2) [OF lp h]
        show ?thesis
        proof (cases y)
          case (Some f)
          then show ?thesis
            using hf h Inr x True i by (simp add: validate_first_proof_def lthen_def)
        next
          case None
          have l1: "link_ok ?c l1" using handshake_ok(1) [OF lp] h None by simp
          let ?l1 = "l1\<lparr>lk_establishment_cost := lk_establishment_cost l1 + of_nat (length (pk_raw p))\<rparr>"
          have l1': "link_ok ?c ?l1" using l1 by simp
          show ?thesis
          proof (cases "identity_validate ?c (bleft (SIGLENGTH div 8) d)
                (proof_signed ?l1 (lk_peer_pub_bytes ?l1) (ln_peer_sig_pub ?l1) sb) i = Inr True")
            case False
            then show ?thesis
              using h None Inr x True i l1'
              by (auto simp: validate_first_proof_def lthen_def Let_def split: sum.splits bool.splits)
          next
            case v: True
            have "authentic ?c ?l1"
              using v hf dst
              by (auto simp: authentic_def load_peer_def ECPUBSIZE_def intro!: exI [of _ i])
            moreover have "lk_initiator ?l1" using hf True by (simp add: load_peer_def)
            ultimately have "link_ok ?c (fst (activate_initiator v ifc m i ?l1))"
              using activate_initiator_ok l1' by blast
            then show ?thesis
              using h None Inr x True i v
              by (auto simp: validate_first_proof_def lthen_def Let_def split: option.splits prod.splits)
          qed
        qed
      qed
    qed
  qed
qed

lemma validate_repeated_proof_ok:
  assumes "link_ok c l" shows "link_ok c (fst (validate_repeated_proof v p l))"
  using assms
  by (auto simp: validate_repeated_proof_def Let_def intro!: lthen_ok send_rtt_ok
      split: option.splits sum.splits bool.splits)

lemma link_validate_proof_ok:
  assumes "link_ok (lv_prims v) l" "link_validate_proof v ifc p l = (l', x)" "x = None \<or> \<not> fatal (the x)"
  shows "link_ok (lv_prims v) l'"
proof (cases "ln_status l = PENDING")
  case True
  obtain l1 y where 1: "validate_first_proof v ifc p l = (l1, y)" by (cases "validate_first_proof v ifc p l") auto
  have "case y of None \<Rightarrow> link_ok (lv_prims v) l1 | Some f \<Rightarrow> intervals_ok l1"
    using validate_first_proof_ok [OF assms(1) True, of ifc p] 1 by (simp split: option.splits)
  moreover have "link_ok (lv_prims v) (l1\<lparr>ln_status := CLOSED\<rparr>)" if "intervals_ok l1"
    using that by (intro link_ok_closed) (simp_all add: intervals_ok_def)
  ultimately show ?thesis
    using assms(2,3) True 1
    by (auto simp: link_validate_proof_def caught_def split: option.splits if_splits)
next
  case False
  let ?m = "if lk_initiator l \<and> (ln_status l = ACTIVE \<or> ln_status l = STALE) then validate_repeated_proof v p l else (l, None)"
  have "link_ok (lv_prims v) (fst ?m)" using assms(1) validate_repeated_proof_ok by auto
  moreover have "link_ok (lv_prims v) (m\<lparr>ln_status := CLOSED\<rparr>)" if "link_ok (lv_prims v) m" for m
    using that by (intro link_ok_closed) (simp_all add: intervals_ok_def link_ok_def)
  ultimately have "link_ok (lv_prims v) (fst (caught (\<lambda>l. (l\<lparr>ln_status := CLOSED\<rparr>, None)) ?m))"
    by (intro caught_ok) auto
  then show ?thesis using assms(2) False by (simp add: link_validate_proof_def)
qed

end
