(* ===== verification/LinkReach.thy ===== *)
theory LinkReach
  imports LinkInv
begin

text \<open>
  The states a link reaches: every handler of \<open>Link::receive\<close> keeps the invariant of \<open>LinkInv\<close>, the step
  relation, and what it says of an established and of a closed link.
\<close>

section \<open>Requests and resources\<close>

lemma add_pending_ok [simp]: "link_ok c (add_pending q l) = link_ok c l"
  by (simp add: add_pending_def)

lemma outgoing_resource_ok:
  assumes "link_ok c l" "outgoing_resource v b i resp t l = (r, l', x)"
  shows "link_ok c l'"
proof -
  obtain r1 l1 x1 where 1: "on_resource v (\<lambda>e _. resource_for_request e (lv_now v) (lv_srh v (length (lk_out l)))
      (lv_rh v (length (lk_out l))) b i resp t) resource_object l = (r1, l1, x1)"
    using prod_cases3 by blast
  have "link_ok c l1" using assms(1) on_resource_sent [OF 1] by blast
  then show ?thesis using assms(2) 1 by (auto simp: outgoing_resource_def Let_def split: if_splits)
qed

lemma transmit_ok: "link_ok c l \<Longrightarrow> transmit v b pt ctx l = (l', r) \<Longrightarrow> link_ok c l'"
  using transmit_sent [of l v b pt ctx] by auto

lemma link_request_ok: "link_ok c l \<Longrightarrow> link_ok c (fst (link_request v path d rcb fcb pcb t dp l))"
  by (auto simp: link_request_def Let_def dest: transmit_ok outgoing_resource_ok
      split: prod.splits sum.splits option.splits)

lemma response_received_ok [simp]: "link_ok c (response_received v b q l) = link_ok c l"
  by (simp add: response_received_def Let_def)

lemma handle_response_ok [simp]: "link_ok c (handle_response v i b n m l) = link_ok c l"
  by (simp add: handle_response_def Let_def split: option.splits)

lemma request_timed_out_ok [simp]: "link_ok c (request_timed_out v i l) = link_ok c l"
  by (simp add: request_timed_out_def Let_def)

lemma send_response_ok: "link_ok c l \<Longrightarrow> link_ok c (fst (send_response v i b l))"
  by (auto simp: send_response_def Let_def dest: transmit_ok outgoing_resource_ok split: prod.splits sum.splits)

lemma handle_request_ok: "link_ok c l \<Longrightarrow> link_ok c (fst (handle_request v i rq l))"
  by (auto simp: handle_request_def Let_def send_response_ok split: prod.splits option.splits)

lemma request_resource_concluded_ok: "link_ok c l \<Longrightarrow> link_ok c (fst (request_resource_concluded v r l))"
  by (auto simp: request_resource_concluded_def handle_request_ok split: sum.splits prod.splits)

lemma response_resource_concluded_ok: "link_ok c l \<Longrightarrow> link_ok c (fst (response_resource_concluded v r l))"
  by (auto simp: response_resource_concluded_def split: sum.splits prod.splits option.splits)

lemma flush_ok: "link_ok c l \<Longrightarrow> link_ok c (flush v ps l)"
  using flush_sent by blast

lemma on_resource_ok: "link_ok c l \<Longrightarrow> on_resource v f r l = (r', l', x) \<Longrightarrow> link_ok c l'"
  using on_resource_sent by blast

section \<open>The handlers\<close>

lemma rx_accept_ok: "link_ok c l \<Longrightarrow> link_ok c (fst (rx_accept v p b cb i l))"
  by (auto simp: rx_accept_def Let_def register_incoming_resource_def flush_ok split: option.splits prod.splits)

lemma rx_advertised_ok: "link_ok c l \<Longrightarrow> link_ok c (fst (rx_advertised v p b l))"
  by (auto simp: rx_advertised_def Let_def rx_accept_ok split: sum.splits bool.splits resource_strategy.splits)

lemma rx_prove_strategy_ok: "link_ok c l \<Longrightarrow> link_ok c (fst (rx_prove_strategy v p l))"
  by (auto simp: rx_prove_strategy_def intro!: caught_ok link_ok_sent [OF _ prove_received_sent]
      split: option.splits proof_strategy.splits)

lemma rx_data_ok:
  assumes "link_ok (lv_prims v) l" "ln_status l \<noteq> CLOSED"
  shows "link_ok (lv_prims v) (fst (rx_data v p l))"
proof -
  obtain b l1 where d: "link_decrypt (lv_prims v) (pk_data p) l = (b, l1)"
    by (cases "link_decrypt (lv_prims v) (pk_data p) l") auto
  note dl = decrypted [OF d assms(1)]
  show ?thesis
  proof (cases "b = []")
    case True
    then show ?thesis using d dl by (simp add: rx_data_def)
  next
    case False
    have "link_ok (lv_prims v) (fst (if \<not> lk_initiator l1 \<and> ln_status l1 \<noteq> CLOSED then activate_without_rtt v l1 else (l1, None)))"
      using activate_without_rtt_ok [of "lv_prims v" l1 "pk_data p" v] dl False by simp
    then show ?thesis
      using d dl(1) False by (auto simp: rx_data_def intro!: lthen_ok rx_prove_strategy_ok split: if_splits)
  qed
qed

lemma prove_received_fields:
  assumes "prove_received v p l = (l', x)"
  shows "ln_id l' = ln_id l"
  using sent_from_fields(1) [OF prove_received_sent [of l v p]] assms by simp

lemma cancel_each_id: "cancel_each v rs l = (rs', l') \<Longrightarrow> ln_id l' = ln_id l"
  by (drule cancel_each_sent) (rule sent_from_fields(1))

lemma close_for_id: "ln_id (close_for v r l) = ln_id l"
  by (auto simp: close_for_def link_closed_def purge_keys_def out_def Let_def dest!: cancel_each_id split: prod.split)

lemma app_step_id: "ln_id (fst (app_step v a l)) = ln_id l"
  using sent_from_fields(1) [OF emit_packet_sent [of l v "ln_id l" DATA LINKCLOSE False]]
  by (cases a) (auto simp: set_resource_strategy_def teardown_def lthen_def close_for_id split: prod.split option.split)

lemma app_run_id: "ln_id (fst (app_run v cs l)) = ln_id l"
proof (induction cs arbitrary: l)
  case Nil
  then show ?case by simp
next
  case (Cons a cs)
  then show ?case
    using app_step_id [of v a l] by (cases "app_step v a l") (auto simp: lthen_def split: option.split)
qed

lemma activate_without_rtt_id: "activate_without_rtt v l = (l', None) \<Longrightarrow> ln_id l' = ln_id l"
proof -
  assume a: "activate_without_rtt v l = (l', None)"
  let ?m = "establishment_rate (update_keepalive (l\<lparr>ln_rtt := lv_now v - lk_request_time l, ln_status := ACTIVE,
      lk_activated_at := lv_now v\<rparr>))"
  have m: "ln_id ?m = ln_id l" by (simp add: establishment_rate_def update_keepalive_def Let_def)
  have "ln_id (out Owner_established ?m) = ln_id ?m" by (simp add: out_def)
  then have "ln_id l' = ln_id ?m"
    using a app_run_id [of v "lv_app v" "out Owner_established ?m"]
    by (auto simp: activate_without_rtt_def activate_responder_def owner_established_def caught_def
        split: if_splits prod.splits option.splits)
  then show ?thesis using m by simp
qed

lemma rx_identified_ok:
  assumes "link_ok (lv_prims v) l" "link_open (lv_prims v) b l \<noteq> []" "ln_status l \<noteq> CLOSED" "\<not> lk_initiator l"
    and i: "iy_hash i = truncated_hash (lv_prims v) (get_public_key i)"
      "identity_validate (lv_prims v) sig (ln_id l @ get_public_key i) i = Inr True"
  shows "link_ok (lv_prims v) (fst (lthen (if ln_status l = HANDSHAKE then activate_without_rtt v l else (l, None)) (\<lambda>l.
      lthen (prove_received v p l) (\<lambda>l. let l = l\<lparr>lk_remote := Some i\<rparr> in
        ((if lk_identified_cb l then out (Identified i) l else l), None)))))"
proof (rule lthen_ok)
  show "link_ok (lv_prims v) (fst (if ln_status l = HANDSHAKE then activate_without_rtt v l else (l, None)))"
    using activate_without_rtt_ok [OF assms(1-4)] assms(1) by simp
  fix m assume "(if ln_status l = HANDSHAKE then activate_without_rtt v l else (l, None)) = (m, None)"
    and m: "link_ok (lv_prims v) m"
  then have id: "ln_id m = ln_id l" using activate_without_rtt_id by (auto split: if_splits)
  show "link_ok (lv_prims v) (fst (lthen (prove_received v p m) (\<lambda>l. let l = l\<lparr>lk_remote := Some i\<rparr> in
        ((if lk_identified_cb l then out (Identified i) l else l), None))))"
  proof (rule lthen_ok [OF link_ok_sent [OF m prove_received_sent]])
    fix m1 assume m1: "prove_received v p m = (m1, None)" "link_ok (lv_prims v) m1"
    have "link_ok (lv_prims v) (m1\<lparr>lk_remote := Some i\<rparr>)"
      by (rule link_ok_named [OF m1(2) i(1)]) (use prove_received_fields [OF m1(1)] id i(2) in simp)
    then show "link_ok (lv_prims v) (fst (let l = m1\<lparr>lk_remote := Some i\<rparr> in
        ((if lk_identified_cb l then out (Identified i) l else l), None)))"
      by (simp add: Let_def)
  qed
qed

lemma rx_identify_ok:
  assumes "link_ok (lv_prims v) l" "ln_status l \<noteq> CLOSED"
  shows "link_ok (lv_prims v) (fst (rx_identify v p l))"
proof -
  obtain b l1 where d: "link_decrypt (lv_prims v) (pk_data p) l = (b, l1)"
    by (cases "link_decrypt (lv_prims v) (pk_data p) l") auto
  note dl = decrypted [OF d assms(1)]
  show ?thesis
  proof (cases "b \<noteq> [] \<and> \<not> lk_initiator l1 \<and> length b = IDENT_KEYSIZE div 8 + SIGLENGTH div 8")
    case False
    then show ?thesis using dl(1) unfolding rx_identify_def d prod.case if_not_P [OF False] by simp
  next
    case True
    let ?key = "bleft (IDENT_KEYSIZE div 8) b" and ?sig = "bmid_len (IDENT_KEYSIZE div 8) (SIGLENGTH div 8) b"
    let ?i = "load_public_key (lv_prims v) ?key identity_object"
    have "take 32 (take 64 b) @ drop 32 (take 64 b) = take 64 b" by (rule append_take_drop_id)
    then have key: "get_public_key ?i = ?key" "iy_hash ?i = truncated_hash (lv_prims v) ?key"
      by (simp_all add: load_public_key_def update_hashes_def get_public_key_def identity_object_def
          identity_consts slice_simps Let_def)
    have "ln_status l1 \<noteq> CLOSED" "link_open (lv_prims v) (pk_data p) l1 \<noteq> []" "\<not> lk_initiator l1"
      using dl True assms(2) by simp_all
    note ok = rx_identified_ok [OF dl(1) this(2,1,3), of ?i ?sig p, unfolded key, OF refl]
    show ?thesis
    proof (cases "identity_validate (lv_prims v) ?sig (ln_id l1 @ ?key) ?i = Inr True")
      case v: True
      show ?thesis
        unfolding rx_identify_def d prod.case if_P [OF True] Let_def [of "bleft _ _"] Let_def [of "bmid_len _ _ _"]
          Let_def [of "load_public_key _ _ _"] v sum.case bool.case
        by (rule ok [OF v])
    next
      case nv: False
      then show ?thesis
        unfolding rx_identify_def d prod.case if_P [OF True] Let_def [of "bleft _ _"] Let_def [of "bmid_len _ _ _"]
          Let_def [of "load_public_key _ _ _"]
        using dl(1) by (auto split: sum.split bool.split)
    qed
  qed
qed

lemma rx_request_ok: "link_ok c l \<Longrightarrow> link_ok c (fst (rx_request v p l))"
  by (auto simp: rx_request_def intro!: handle_request_ok dest: link_decrypt_ok split: sum.splits prod.splits)

lemma rx_response_ok: "link_ok c l \<Longrightarrow> link_ok c (fst (rx_response v p l))"
  by (auto simp: rx_response_def dest: link_decrypt_ok split: sum.splits prod.splits)

lemma rx_resource_req_ok: "link_ok c l \<Longrightarrow> link_ok c (fst (rx_resource_req v p l))"
  by (auto simp: rx_resource_req_def Let_def dest: link_decrypt_ok on_resource_ok split: prod.splits option.splits)

lemma rx_resource_hmu_ok: "link_ok c l \<Longrightarrow> link_ok c (fst (rx_resource_hmu v p l))"
  by (auto simp: rx_resource_hmu_def Let_def dest: link_decrypt_ok on_resource_ok split: prod.splits option.splits)

lemma rx_resource_icl_ok: "link_ok c l \<Longrightarrow> link_ok c (fst (rx_resource_icl v p l))"
  by (auto simp: rx_resource_icl_def Let_def dest: link_decrypt_ok on_resource_ok split: prod.splits option.splits)

lemma feed_part_ok: "link_ok c l \<Longrightarrow> link_ok c (fst (snd (feed_part v b i k l)))"
  by (induction v b i k l rule: feed_part.induct)
    (auto simp: Let_def flush_ok split: prod.splits option.splits)

lemma drop_incoming_ok: "link_ok c (fst m) \<Longrightarrow>
    link_ok c (fst (lthen m (\<lambda>l. (l\<lparr>lk_incoming := drop_at i (lk_incoming l)\<rparr>, None))))"
  by (rule lthen_ok) simp_all

lemma rx_resource_part_ok: "link_ok c l \<Longrightarrow> link_ok c (fst (rx_resource_part v p l))"
proof -
  assume l: "link_ok c l"
  obtain i l1 x where f: "feed_part v (pk_data p) 0 (length (lk_incoming l)) l = (i, l1, x)"
    using prod_cases3 by blast
  then have l1: "link_ok c l1" using feed_part_ok [OF l, of v "pk_data p" 0 "length (lk_incoming l)"] by simp
  have "link_ok c (fst (if a then request_resource_concluded v r l1
      else if b then response_resource_concluded v r l1 else (l1, None)))" for a b r
    using l1 request_resource_concluded_ok response_resource_concluded_ok by simp
  note ok = drop_incoming_ok [OF this]
  show ?thesis
    unfolding rx_resource_part_def f prod.case Let_def
    using l1 ok by (cases x; cases i) simp_all
qed

lemma rx_resource_prf_ok [simp]: "link_ok c (rx_resource_prf p l) = link_ok c l"
  by (simp add: rx_resource_prf_def Let_def split: option.splits)

lemma rx_keepalive_ok: "link_ok c l \<Longrightarrow> link_ok c (fst (rx_keepalive v p l))"
  by (auto simp: rx_keepalive_def)

lemma rx_channel_ok: "link_ok c l \<Longrightarrow> link_ok c (fst (rx_channel v p l))"
  by (auto simp: rx_channel_def intro!: lthen_ok link_ok_sent [OF _ prove_received_sent] dest: link_decrypt_ok
      split: prod.splits)

lemma rx_dispatch_ok:
  assumes "link_ok (lv_prims v) l" "ln_status l \<noteq> CLOSED"
  shows "link_ok (lv_prims v) (fst (rx_dispatch v p l))"
proof -
  have "link_ok (lv_prims v) (fst (case link_decrypt (lv_prims v) (pk_data p) l of (b, l) \<Rightarrow>
        if b \<noteq> [] then logged (rx_advertised v p b l) else (l, None)))"
    using assms(1) by (auto intro!: logged_ok rx_advertised_ok dest: link_decrypt_ok split: prod.splits)
  then show ?thesis
    using assms rtt_packet_ok [of v l p]
    by (simp add: rx_dispatch_def Let_def rx_data_ok rx_identify_ok logged_ok rx_request_ok rx_response_ok
        teardown_packet_ok rx_resource_req_ok rx_resource_hmu_ok rx_resource_icl_ok rx_keepalive_ok
        rx_resource_part_ok rx_channel_ok)
qed

lemma repin_sent:
  "link_ok c l \<Longrightarrow> link_ok c (repin v ifc p l)" "ln_status (repin v ifc p l) = ln_status l"
  using link_decrypt_sent [of "lv_prims v" "pk_data p" l]
  by (auto simp: repin_def sent_from_fields split: prod.splits)

text \<open>The one place where a stale link comes back.\<close>

lemma status_ok:
  assumes "link_ok c l" "up l" "s = ACTIVE \<or> s = STALE"
  shows "link_ok c (l\<lparr>ln_status := s\<rparr>)"
proof -
  define m where "m = l\<lparr>ln_status := s\<rparr>"
  have f: "ln_status m = s" "lk_token m = lk_token l" "lk_derived_key m = lk_derived_key l"
      "lk_initiator m = lk_initiator l" by (simp_all add: m_def)
  have o: "opened c m = opened c l" by (rule opened_cong) (rule link_token_cong, simp_all add: m_def)
  have k: "keyed c m = keyed c l" by (simp add: m_def keyed_def key_length_def)
  have a: "authentic c m = authentic c l" unfolding authentic_def proof_signed_def by (simp add: m_def)
  have i: "intervals_ok m = intervals_ok l" by (simp add: m_def intervals_ok_def)
  have r: "remote_ok c m = remote_ok c l" by (simp add: m_def remote_ok_def)
  have u: "up m" using assms(3) f(1) by (simp add: up_def)
  have n: "ln_status l \<noteq> CLOSED" "s \<noteq> CLOSED" "s \<noteq> PENDING" using assms(2,3) by (auto simp: up_def)
  have "keyed c l" "intervals_ok l" "if lk_initiator l then authentic c l else opened c l"
      "\<forall>t. lk_token l = Some t \<longrightarrow> token_new (lk_derived_key l) MODE_AES = Inr t" "remote_ok c l"
    using assms(1,2) n(1) unfolding link_ok_def by (blast+)
  then show ?thesis
    unfolding m_def [symmetric] link_ok_def o k a i f r using u n by simp
qed

lemma unstale_ok: "link_ok c l \<Longrightarrow> ln_status l = STALE \<Longrightarrow> link_ok c (l\<lparr>ln_status := ACTIVE\<rparr>)"
  by (rule status_ok) (simp_all add: up_def)

lemma note_inbound_ok: "link_ok c l \<Longrightarrow> link_ok c (note_inbound v p l)"
  by (auto simp: note_inbound_def Let_def intro!: unstale_ok)

lemma note_inbound_status: "ln_status (note_inbound v p l) = (if ln_status l = STALE then ACTIVE else ln_status l)"
  by (simp add: note_inbound_def Let_def out_def)

lemma link_receive_ok: "link_ok (lv_prims v) l \<Longrightarrow> link_ok (lv_prims v) (fst (link_receive v ifc p l))"
proof -
  assume l: "link_ok (lv_prims v) l"
  let ?l = "note_inbound v p (repin v ifc p l)"
  have ok: "link_ok (lv_prims v) ?l" using l by (intro note_inbound_ok repin_sent(1))
  have "ln_status ?l \<noteq> CLOSED" if "ln_status l \<noteq> CLOSED"
    using that by (cases "ln_status l = STALE") (simp_all add: note_inbound_status repin_sent(2))
  then have "link_ok (lv_prims v) (fst (rx_dispatch v p ?l))" if "ln_status l \<noteq> CLOSED"
    using that ok rx_dispatch_ok by blast
  with l ok show ?thesis by (simp add: link_receive_def Let_def)
qed

section \<open>The timers\<close>

lemma keepalive_now_ok: "link_ok c l \<Longrightarrow> link_ok c (fst (keepalive_now v l))"
  by (auto simp: keepalive_now_def send_keepalive_def intro!: lthen_ok)

lemma keepalive_now_status: "keepalive_now v l = (l', x) \<Longrightarrow> ln_status l' = ln_status l"
  using emit_packet_sent [of l v "[255]" DATA KEEPALIVE True]
  by (auto simp: keepalive_now_def send_keepalive_def lthen_def sent_from_fields split: prod.splits option.splits)

lemma go_stale_ok: "link_ok c l \<Longrightarrow> ln_status l = ACTIVE \<Longrightarrow> link_ok c (go_stale v l)"
proof -
  assume l: "link_ok c l" "ln_status l = ACTIVE"
  have "link_ok c (l\<lparr>ln_status := STALE\<rparr>)" using l by (intro status_ok) (simp_all add: up_def)
  moreover have "go_stale v l = (l\<lparr>ln_status := STALE\<rparr>)\<lparr>lk_stale_deadline :=
      lv_now v + ln_rtt l * of_nat KEEPALIVE_TIMEOUT_FACTOR + STALE_GRACE\<rparr>"
    by (simp add: go_stale_def)
  moreover have "link_ok c (m\<lparr>lk_stale_deadline := t\<rparr>) = link_ok c m" for m t
    by (rule link_ok_cong) (simp_all add: core_def)
  ultimately show ?thesis by simp
qed

lemma link_watchdog_ok: "link_ok c l \<Longrightarrow> link_ok c (fst (link_watchdog v l))"
proof -
  assume l: "link_ok c l"
  have stale: "link_ok c (fst (lthen (if b then keepalive_now v m else (m, None)) (\<lambda>l. (go_stale v l, None))))"
    if "link_ok c m" "ln_status m = ACTIVE" for m b
    using that keepalive_now_status [of v m] by (auto intro!: lthen_ok keepalive_now_ok go_stale_ok)
  have "link_ok c (fst (lthen (if s then keepalive_now v l else (l, None)) (\<lambda>m.
      if q m then lthen (if b m then keepalive_now v m else (m, None)) (\<lambda>l. (go_stale v l, None)) else (m, None))))"
    if "ln_status l = ACTIVE" for s and q :: "link \<Rightarrow> bool" and b
  proof (rule lthen_ok)
    show "link_ok c (fst (if s then keepalive_now v l else (l, None)))" using l keepalive_now_ok by auto
    fix m assume "(if s then keepalive_now v l else (l, None)) = (m, None)" and m: "link_ok c m"
    then have "ln_status m = ACTIVE" using that keepalive_now_status [of v l] by (auto split: if_splits)
    then show "link_ok c (fst (if q m then lthen (if b m then keepalive_now v m else (m, None))
        (\<lambda>l. (go_stale v l, None)) else (m, None)))"
      using m stale by simp
  qed
  note active = this
  show ?thesis
    unfolding link_watchdog_def Let_def
    by (cases "ln_status l") (use l active close_for_ok(1) [OF link_ok_intervals [OF l]] in simp_all)
qed

lemma sweep_ok: "link_ok c l \<Longrightarrow> sweep v th rs l = (rs', l', x) \<Longrightarrow> link_ok c l'"
proof (induction rs arbitrary: l rs' l' x)
  case Nil
  then show ?case by simp
next
  case (Cons r rs)
  obtain r1 l1 x1 where 1: "on_resource v (\<lambda>e. watchdog e (lv_now v)) r l = (r1, l1, x1)" using prod_cases3 by blast
  obtain rs2 l2 x2 where 2: "sweep v th rs l1 = (rs2, l2, x2)" using prod_cases3 by blast
  have l1: "link_ok c l1" using on_resource_ok Cons.prems(1) 1 by blast
  show ?case using Cons.prems(2) l1 Cons.IH [OF l1 2] 1 2 by (auto split: option.splits)
qed

lemma resource_watchdogs_ok: "link_ok c l \<Longrightarrow> link_ok c (fst (resource_watchdogs v l))"
proof -
  assume l: "link_ok c l"
  have in_ok: "link_ok c (fst (case sweep v concluded (lk_incoming m) m of
      (rs, m) \<Rightarrow> (case m of (l, x) \<Rightarrow> (l\<lparr>lk_incoming := rs\<rparr>, x))))" if "link_ok c m" for m
    using sweep_ok [OF that] by (auto split: prod.splits)
  have out_ok: "link_ok c (fst (case m of (l, x) \<Rightarrow> (l\<lparr>lk_outgoing := rs\<rparr>, x)))"
    if "sweep v th (lk_outgoing l) l = (rs, m)" for th rs m
    using sweep_ok [OF l, of v th "lk_outgoing l" rs "fst m" "snd m"] that by (cases m) simp
  obtain rs m where sw: "sweep v (\<lambda>r. rs_status r = RS_FAILED \<or> rs_status r = RS_COMPLETE) (lk_outgoing l) l = (rs, m)"
    by (rule prod.exhaust)
  show ?thesis
    unfolding resource_watchdogs_def sw prod.case
    by (rule lthen_ok [OF out_ok [OF sw] in_ok])
qed

lemma link_prove_ok: "link_ok c l \<Longrightarrow> link_ok c (fst (link_prove v l))"
proof -
  assume l: "link_ok c l"
  have "link_ok c (had_outbound v False (m\<lparr>lk_establishment_cost := w, lk_proof_sent_at := t\<rparr>))"
    if "link_ok c m" for m w t
    using that by (intro link_ok_sent [OF _ had_outbound_sent]) simp
  with l show ?thesis
    by (auto simp: link_prove_def dest: transmit_ok split: sum.splits option.splits prod.splits)
qed

lemma repair_proof_ok: "link_ok c l \<Longrightarrow> link_ok c (fst (repair_proof v l))"
  unfolding repair_proof_def by (rule lthen_ok) (simp_all add: link_prove_ok)

lemma identify_ok: "link_ok c l \<Longrightarrow> link_ok c (fst (identify v i l))"
  by (auto simp: identify_def split: sum.splits)

section \<open>New links\<close>

definition fresh :: "link \<Rightarrow> bool" where
  "fresh l \<longleftrightarrow> ln_status l = PENDING \<and> lk_token l = None \<and> lk_derived_key l = [] \<and> intervals_ok l \<and>
     lk_remote l = None"

lemma fresh_ok: "fresh l \<Longrightarrow> link_ok c l"
  by (simp add: fresh_def link_ok_def up_def remote_ok_def)

lemma link_object_fresh: "fresh (link_object d w)"
  by (simp add: fresh_def link_object_def intervals_ok_def)

lemma fresh_cong:
  assumes "fresh l" "ln_status l' = ln_status l" "lk_token l' = lk_token l" "lk_derived_key l' = lk_derived_key l"
    "lk_keepalive l' = lk_keepalive l" "lk_stale_time l' = lk_stale_time l" "lk_remote l' = lk_remote l"
  shows "fresh l'"
  using assms by (simp add: fresh_def intervals_ok_def)

lemma with_keys_fresh: "fresh l \<Longrightarrow> fresh (with_keys c k sk l)"
  by (erule fresh_cong) (simp_all add: with_keys_def)

lemma load_peer_fresh: "fresh l \<Longrightarrow> fresh (load_peer a b l)"
  by (erule fresh_cong) (simp_all add: load_peer_def)

lemma out_fresh: "fresh l \<Longrightarrow> fresh (out x l)"
  by (erule fresh_cong) (simp_all add: out_def)

lemma had_outbound_fresh: "fresh l \<Longrightarrow> fresh (had_outbound v k l)"
  by (erule fresh_cong) (simp_all add: had_outbound_def Let_def)

lemma link_new_ok:
  assumes "link_new v dst e cb m = (l, None)"
  shows "fresh l"
proof -
  define l0 where "l0 = initiator_link v dst e cb m"
  have l0: "fresh l0"
    unfolding l0_def initiator_link_def Let_def
    by (intro with_keys_fresh fresh_cong [OF link_object_fresh [of "Some dst" None]]) simp_all
  have "fresh (had_outbound v False (out x ((out y (l0\<lparr>lk_establishment_cost := w, ln_id := i\<rparr>))\<lparr>lk_request_time := t\<rparr>)))"
    for x y w i t
    by (intro had_outbound_fresh out_fresh fresh_cong [OF l0]) (simp_all add: out_def)
  then show ?thesis
    using assms
    by (auto simp: link_new_def Let_def l0_def [symmetric] split: if_splits sum.splits prod.splits option.splits)
qed

lemma link_new_accepted_fresh: "link_new_accepted v w a b = (l, None) \<Longrightarrow> fresh l"
  by (auto simp: link_new_accepted_def Let_def intro!: with_keys_fresh load_peer_fresh link_object_fresh
      split: option.splits if_splits)

lemma accept_mtu_fresh: "fresh l \<Longrightarrow> fresh (accept_mtu v p l)"
  by (erule fresh_cong) (simp_all add: accept_mtu_def Let_def)

lemma accept_request_ok:
  assumes "fresh l" "accept_request v d p dst ifc l = (l', None)"
  shows "link_ok (lv_prims v) l'"
proof -
  let ?l = "if length d = ECPUBSIZE + LINK_MTU_SIZE then accept_mtu v p l else l"
  obtain l1 where u: "update_mdu ?l = (l1, None)"
    using assms(2) by (auto simp: accept_request_def lthen_def Let_def split: prod.splits option.splits)
  have "fresh ?l" using assms(1) accept_mtu_fresh by simp
  then have f: "fresh l1" by (rule fresh_cong) (use u in \<open>auto simp: update_mdu_def Let_def split: if_splits\<close>)
  let ?l1 = "l1\<lparr>lk_dest := dst, lk_establishment_timeout :=
               of_nat (ESTABLISHMENT_TIMEOUT_PER_HOP * max 1 (unat (pk_hops p))) + KEEPALIVE_MAX,
             lk_establishment_cost := lk_establishment_cost l1 + of_nat (length (pk_raw p))\<rparr>"
  have "fresh ?l1" by (rule fresh_cong [OF f]) simp_all
  note l1 = fresh_ok [OF this, of "lv_prims v"]
  obtain l2 where h: "handshake v ?l1 = (l2, None)"
    using assms(2) u by (auto simp: accept_request_def lthen_def Let_def split: prod.splits option.splits)
  have l2: "link_ok (lv_prims v) l2" by (rule handshake_ok(1) [OF l1 h])
  have hops: "link_ok c (m\<lparr>lk_iface := i, lk_request_hops := n\<rparr>) = link_ok c m" for c m i n
    by (rule link_ok_cong) (simp_all add: core_def)
  have "link_ok (lv_prims v) (fst (link_prove v (l2\<lparr>lk_iface := ifc, lk_request_hops := pk_hops p\<rparr>)))"
    by (rule link_prove_ok) (simp only: hops l2)
  moreover have "link_ok c ((out x (m\<lparr>lk_request_time := t\<rparr>))\<lparr>lk_last_inbound := t'\<rparr>) = link_ok c m" for c m x t t'
    by simp
  ultimately show ?thesis
    using assms(2) u h by (auto simp: accept_request_def lthen_def Let_def split: prod.splits option.splits)
qed

lemma validate_request_ok:
  assumes "validate_request v owner d p dst ifc act = Inr (x, Some l)"
  shows "link_ok (lv_prims v) l"
proof -
  have "fresh (m\<lparr>ln_id := i, lk_mode := k\<rparr>)" if "fresh m" for m i k
    by (rule fresh_cong [OF that]) simp_all
  note ok = accept_request_ok [OF this [OF link_new_accepted_fresh]]
  show ?thesis
    using assms
    by (auto simp: validate_request_def Let_def intro: ok split: if_splits option.splits sum.splits prod.splits)
qed

section \<open>The step relation\<close>

text \<open>
  Everything the daemon does with a link: a packet or a proof that arrives, the timers, a request or a
  packet that is sent, a request that times out, the repairs of a handshake, and the application.
\<close>

inductive link_step :: "prims \<Rightarrow> link \<Rightarrow> link \<Rightarrow> bool" for c where
  Received: "lv_prims v = c \<Longrightarrow> link_receive v ifc p l = (l', x) \<Longrightarrow> link_step c l l'"
| Proof_arrived: "lv_prims v = c \<Longrightarrow> link_validate_proof v ifc p l = (l', x) \<Longrightarrow>
    x = None \<or> \<not> fatal (the x) \<Longrightarrow> link_step c l l'"
| Watched: "lv_prims v = c \<Longrightarrow> link_watchdog v l = (l', x) \<Longrightarrow> link_step c l l'"
| Resources_watched: "lv_prims v = c \<Longrightarrow> resource_watchdogs v l = (l', x) \<Longrightarrow> link_step c l l'"
| Identifies: "lv_prims v = c \<Longrightarrow> identify v i l = (l', x) \<Longrightarrow> link_step c l l'"
| Requests: "lv_prims v = c \<Longrightarrow> link_request v path d rcb fcb pcb t dp l = (l', x) \<Longrightarrow> link_step c l l'"
| Timed_out: "lv_prims v = c \<Longrightarrow> link_step c l (request_timed_out v n l)"
| Proves: "lv_prims v = c \<Longrightarrow> link_prove v l = (l', x) \<Longrightarrow> link_step c l l'"
| Repairs: "lv_prims v = c \<Longrightarrow> proof_repair_due v l \<Longrightarrow> repair_proof v l = (l', x) \<Longrightarrow> link_step c l l'"
| Proves_packet: "lv_prims v = c \<Longrightarrow> prove_packet v p l = (l', x) \<Longrightarrow> link_step c l l'"
| Sends: "lv_prims v = c \<Longrightarrow> emit_packet v b pt ctx k l = (l', x) \<Longrightarrow> link_step c l l'"
| Application: "lv_prims v = c \<Longrightarrow> app_run v cs l = (l', x) \<Longrightarrow> link_step c l l'"
| Measured: "link_step c l (link_rtt_sample s l)"
| Resource_dropped: "link_step c l (resource_concluded i j l)"

inductive link_reach :: "prims \<Rightarrow> link \<Rightarrow> bool" for c where
  Asked: "lv_prims v = c \<Longrightarrow> link_new v dst e cb m = (l, None) \<Longrightarrow> link_reach c l"
| Accepted: "lv_prims v = c \<Longrightarrow> validate_request v owner d p dst ifc act = Inr (x, Some l) \<Longrightarrow> link_reach c l"
| Step: "link_reach c l \<Longrightarrow> link_step c l l' \<Longrightarrow> link_reach c l'"

lemma fst_ok: "m = (l', x) \<Longrightarrow> link_ok c (fst m) \<Longrightarrow> link_ok c l'"
  by simp

lemma link_step_ok: "link_step c l l' \<Longrightarrow> link_ok c l \<Longrightarrow> link_ok c l'"
proof (induction rule: link_step.induct)
  case (Received v ifc p l l' x)
  then show ?case using fst_ok [OF Received(2)] link_receive_ok by blast
next
  case (Proof_arrived v ifc p l l' x)
  then show ?case using link_validate_proof_ok by blast
next
  case (Watched v l l' x)
  show ?case by (rule fst_ok [OF Watched(2)]) (rule link_watchdog_ok [OF Watched(3)])
next
  case (Resources_watched v l l' x)
  show ?case by (rule fst_ok [OF Resources_watched(2)]) (rule resource_watchdogs_ok [OF Resources_watched(3)])
next
  case (Identifies v i l l' x)
  show ?case by (rule fst_ok [OF Identifies(2)]) (rule identify_ok [OF Identifies(3)])
next
  case (Requests v path d rcb fcb pcb t dp l l' x)
  show ?case by (rule fst_ok [OF Requests(2)]) (rule link_request_ok [OF Requests(3)])
next
  case (Timed_out v l n)
  then show ?case by simp
next
  case (Proves v l l' x)
  show ?case by (rule fst_ok [OF Proves(2)]) (rule link_prove_ok [OF Proves(3)])
next
  case (Repairs v l l' x)
  show ?case by (rule fst_ok [OF Repairs(3)]) (rule repair_proof_ok [OF Repairs(4)])
next
  case (Proves_packet v p l l' x)
  then show ?case using fst_ok [OF Proves_packet(2)] link_ok_sent [OF _ prove_packet_sent] by blast
next
  case (Sends v b pt ctx k l l' x)
  then show ?case using fst_ok [OF Sends(2)] emit_packet_ok by blast
next
  case (Application v cs l l' x)
  show ?case by (rule fst_ok [OF Application(2)]) (rule app_run_ok [OF Application(3)])
next
  case (Measured l s)
  then show ?case by (simp add: link_rtt_sample_def)
next
  case (Resource_dropped l i j)
  then show ?case
    by (simp add: resource_concluded_def cancel_incoming_resource_def cancel_outgoing_resource_def split: option.split)
qed

lemma link_reach_ok: "link_reach c l \<Longrightarrow> link_ok c l"
proof (induction rule: link_reach.induct)
  case (Asked v dst e cb m l)
  then show ?case using fresh_ok link_new_ok by blast
next
  case (Accepted v owner d p dst ifc act x l)
  then show ?case using validate_request_ok by blast
next
  case (Step l l')
  then show ?case using link_step_ok by blast
qed

section \<open>A closed link stays closed\<close>

lemma on_resource_status: "on_resource v f r l = (r', l', x) \<Longrightarrow> ln_status l' = ln_status l"
  by (drule on_resource_sent) (rule sent_from_fields(2))

lemma sweep_status: "sweep v th rs l = (rs', l', x) \<Longrightarrow> ln_status l' = ln_status l"
proof (induction rs arbitrary: l rs' l' x)
  case Nil
  then show ?case by simp
next
  case (Cons r rs)
  obtain r1 l1 x1 where 1: "on_resource v (\<lambda>e. watchdog e (lv_now v)) r l = (r1, l1, x1)" using prod_cases3 by blast
  obtain rs2 l2 x2 where 2: "sweep v th rs l1 = (rs2, l2, x2)" using prod_cases3 by blast
  show ?case using Cons.prems Cons.IH [OF 2] on_resource_status [OF 1] 1 2 by (auto split: option.splits)
qed

lemma resource_watchdogs_status: "ln_status (fst (resource_watchdogs v l)) = ln_status l"
  by (auto simp: resource_watchdogs_def lthen_def dest!: sweep_status split: prod.split option.split)

lemma transmit_status: "transmit v b pt ctx l = (l', r) \<Longrightarrow> ln_status l' = ln_status l"
  using transmit_sent [of l v b pt ctx] by (simp add: sent_from_fields)

lemma outgoing_resource_status: "outgoing_resource v b i resp t l = (r, l', x) \<Longrightarrow> ln_status l' = ln_status l"
  by (auto simp: outgoing_resource_def Let_def dest!: on_resource_status split: prod.splits if_splits)

lemma link_request_status: "ln_status (fst (link_request v path d rcb fcb pcb t dp l)) = ln_status l"
  by (auto simp: link_request_def Let_def add_pending_def dest!: transmit_status outgoing_resource_status
      split: prod.splits sum.splits option.splits)

lemma link_prove_status: "ln_status (fst (link_prove v l)) = ln_status l"
  by (auto simp: link_prove_def had_outbound_def Let_def dest!: transmit_status
      split: sum.splits option.splits prod.splits)

lemma cancel_each_status: "cancel_each v rs l = (rs', l') \<Longrightarrow> ln_status l' = ln_status l"
  by (drule cancel_each_sent) (rule sent_from_fields(2))

lemma close_for_status: "ln_status (close_for v r l) = CLOSED"
  by (auto simp: close_for_def link_closed_def purge_keys_def out_def Let_def dest!: cancel_each_status split: prod.split)

lemma app_run_closed: "ln_status l = CLOSED \<Longrightarrow> ln_status (fst (app_run v cs l)) = CLOSED"
proof (induction cs arbitrary: l)
  case Nil
  then show ?case by simp
next
  case (Cons a cs)
  have "ln_status (fst (app_step v a l)) = CLOSED"
    using Cons.prems by (cases a) (auto simp: set_resource_strategy_def teardown_def lthen_def close_for_status)
  then show ?case using Cons.IH by (cases "app_step v a l") (auto simp: lthen_def split: option.split)
qed

lemma link_step_closed: "link_step c l l' \<Longrightarrow> ln_status l = CLOSED \<Longrightarrow> ln_status l' = CLOSED"
proof (induction rule: link_step.induct)
  case (Resources_watched v l l' x)
  then show ?case using resource_watchdogs_status [of v l] by simp
next
  case (Requests v path d rcb fcb pcb t dp l l' x)
  then show ?case using link_request_status [of v path d rcb fcb pcb t dp l] by simp
next
  case (Proves v l l' x)
  then show ?case using link_prove_status [of v l] by simp
next
  case (Proves_packet v p l l' x)
  then show ?case using sent_from_fields(2) [OF prove_packet_sent [of l v p]] by simp
next
  case (Sends v b pt ctx k l l' x)
  then show ?case using sent_from_fields(2) [OF emit_packet_sent [of l v b pt ctx k]] by simp
next
  case (Application v cs l l' x)
  then show ?case using app_run_closed [of l v cs] by simp
qed (auto simp: link_receive_def link_validate_proof_def link_watchdog_def identify_def request_timed_out_def
    proof_repair_due_def proof_repair_armed_def caught_def out_def Let_def link_rtt_sample_def
    resource_concluded_def cancel_incoming_resource_def cancel_outgoing_resource_def split: option.splits)

end
