(* ===== verification/LinkSignal.thy ===== *)
theory LinkSignal
  imports Link
begin

text \<open>
  The three signalling bytes of a link request and a link proof: the MTU and the mode they carry are read
  back as they were written.
\<close>

section \<open>Signalling\<close>

lemma mtu_of_append: "mtu_of_bytes (xs @ sb) (length xs) = mtu_of_bytes sb 0"
  by (simp add: mtu_of_bytes_def nth_append numeral_2_eq_2)

lemma be3: "be_bytes 3 (w :: u32) = [byte_at 2 w, byte_at 1 w, byte_at 0 w]"
  by (simp add: be_bytes_def numeral_3_eq_3 upt_rec numeral_2_eq_2)

lemma mtu_mask: "MTU_BYTEMASK = mask 21"
  by (simp add: MTU_BYTEMASK_def mask_eq_exp_minus_1)

text \<open>The mode, in its place above the MTU.\<close>

definition mode_bit :: u32 where "mode_bit = push_bit 21 1"

lemma bit_mode_bit [simp]: "bit mode_bit n \<longleftrightarrow> n = 21"
  unfolding mode_bit_def bit_push_bit_iff by (auto simp: bit_1_iff)

lemma signal_value:
  "(ucast (m :: u16) AND MTU_BYTEMASK) + push_bit 16 (push_bit 5 (ucast (1 :: u8)) AND MODE_BYTEMASK) =
   ucast m OR mode_bit"
proof -
  have "ucast m AND MTU_BYTEMASK = (ucast m :: u32)"
    unfolding mtu_mask by (rule bit_word_eqI) (auto simp: bit_simps dest: bit_imp_le_length)
  moreover have "(ucast m :: u32) AND mode_bit = 0"
    by (rule bit_word_eqI) (auto simp: bit_and_iff bit_ucast_iff dest: bit_imp_le_length)
  moreover have "push_bit 16 (push_bit 5 (ucast (1 :: u8)) AND MODE_BYTEMASK) = mode_bit"
    by (simp add: MODE_BYTEMASK_def mode_bit_def)
  ultimately show ?thesis by (simp add: disjunctive_add_eq_or)
qed

lemma three_bytes:
  "(push_bit 16 (ucast (a :: u8)) + push_bit 8 (ucast (b :: u8)) + ucast (c :: u8) :: u32) =
   push_bit 16 (ucast a) OR push_bit 8 (ucast b) OR ucast c"
proof -
  have "(push_bit 16 (ucast a) :: u32) AND push_bit 8 (ucast b) = 0"
    by (rule bit_word_eqI) (auto simp: bit_simps dest: bit_imp_le_length)
  moreover have "(push_bit 16 (ucast a) OR push_bit 8 (ucast b) :: u32) AND ucast c = 0"
    by (rule bit_word_eqI) (auto simp: bit_simps dest: bit_imp_le_length)
  ultimately show ?thesis by (simp add: disjunctive_add_eq_or or.assoc)
qed

lemma bit_mtu_mask: "bit MTU_BYTEMASK n \<longleftrightarrow> n < 21"
  unfolding mtu_mask by (auto simp: bit_simps)

lemma bit_three: "n < 16 \<Longrightarrow>
  bit (push_bit 16 (ucast (a :: u8)) OR push_bit 8 (ucast (b :: u8)) OR ucast (c :: u8) :: u32) n =
    (if n < 8 then bit c n else bit b (n - 8))"
  by (auto simp: bit_simps dest: bit_imp_le_length)

lemma bit_byte_at: "n < 8 \<Longrightarrow> bit (byte_at i (w :: u32)) n = bit w (i * 8 + n)"
  by (simp add: byte_at_def mask_8 bit_simps)

lemma mtu_of_three:
  "mtu_of_bytes [byte_at 2 w, byte_at 1 w, byte_at 0 w] 0 = ucast (w :: u32)"
proof (rule bit_word_eqI)
  fix n assume "n < LENGTH(16)"
  then have n: "n < 16" by simp
  have "bit (mtu_of_bytes [byte_at 2 w, byte_at 1 w, byte_at 0 w] 0) n =
      bit (push_bit 16 (ucast (byte_at 2 w)) OR push_bit 8 (ucast (byte_at 1 w)) OR ucast (byte_at 0 w) :: u32) n"
    using n by (simp add: mtu_of_bytes_def three_bytes bit_ucast_iff bit_and_iff bit_mtu_mask)
  also have "\<dots> = (if n < 8 then bit (byte_at 0 w) n else bit (byte_at 1 w) (n - 8))" using n by (rule bit_three)
  also have "\<dots> = bit w n" using n by (auto simp: bit_byte_at)
  finally show "bit (mtu_of_bytes [byte_at 2 w, byte_at 1 w, byte_at 0 w] 0) n = bit (ucast w :: u16) n"
    using n by (simp add: bit_ucast_iff)
qed

lemma signalling_roundtrip:
  assumes "signalling_bytes m mode = Inr sb"
  shows "length sb = 3" "mode = MODE_AES256_CBC_LINK" "drop_bit 5 (sb ! 0 AND 0xE0) = mode" "mtu_of_bytes sb 0 = m"
    "drop_bit 5 (sb ! 0) = mode"
proof -
  show mode: "mode = MODE_AES256_CBC_LINK"
    using assms by (auto simp: signalling_bytes_def ENABLED_MODES_def split: if_splits)
  define w :: u32 where "w = ucast m OR mode_bit"
  have "signalling_bytes m 1 = Inr (be_bytes 3 w)"
    unfolding signalling_bytes_def signal_value by (simp add: ENABLED_MODES_def w_def Let_def)
  then have sb: "sb = [byte_at 2 w, byte_at 1 w, byte_at 0 w]"
    using assms mode by (simp add: be3)
  show "length sb = 3" by (simp add: sb)
  have "byte_at 2 w = push_bit 5 1"
  proof (rule bit_word_eqI)
    fix n assume "n < LENGTH(8)"
    then show "bit (byte_at 2 w) n = bit (push_bit 5 1 :: u8) n"
      unfolding bit_push_bit_iff
      by (auto simp: bit_byte_at w_def bit_or_iff bit_ucast_iff bit_1_iff dest: bit_imp_le_length)
  qed
  then show "drop_bit 5 (sb ! 0 AND 0xE0) = mode" "drop_bit 5 (sb ! 0) = mode" by (simp_all add: sb mode)
  have "ucast w = m"
    by (rule bit_word_eqI) (auto simp: w_def bit_ucast_iff bit_or_iff)
  then show "mtu_of_bytes sb 0 = m" unfolding sb mtu_of_three .
qed

end
