(* ===== verification/LinkShake.thy ===== *)
theory LinkShake
  imports LinkReach DestProps LinkSignal
begin

text \<open>
  The handshake run on both ends: what each of its four steps leaves and sends, so that a request, its
  proof and the round trip packet carried between two daemons end with both links active under one key.
\<close>

section \<open>Sending\<close>

lemma view_fields [simp]: "ln_id (view l) = ln_id l" "ln_status (view l) = ln_status l" "ln_mtu (view l) = ln_mtu l"
  by (simp_all add: view_def lnk.truncate_def)

lemmas sending_defs = packet_new_link_def packet_new_def get_packed_flags_def packet_object_def
  send_def pack_def pack_finish_def update_hash_def get_hash_def hashable_part_def send_out_def Let_def

definition open_line :: "lenv \<Rightarrow> bool" where
  "open_line v \<longleftrightarrow> en_outbound (lv_penv v) = (\<lambda>p. (p, True))"

lemma transmit_eq:
  assumes "packet_new_link (view l) b pt ctx FLAG_UNSET = Inr p0"
    and "send (link_penv v l) (lv_now v) p0 = (p, Inr r)"
  shows "transmit v b pt ctx l = (out (Sent p) (after_send p l), Inr (p, r))"
  using assms by (simp add: transmit_def)

text \<open>The packet as it is built, and as it leaves.\<close>

definition link_packet :: "link \<Rightarrow> bytes \<Rightarrow> packet_type \<Rightarrow> u8 \<Rightarrow> packet" where
  "link_packet l b pt ctx = packet_object\<lparr>pk_dest := Some \<lparr>de_hash = ln_id l, de_type = LINK, de_ident = None\<rparr>,
     pk_packet_type := pt, pk_context := ctx, pk_data := b, pk_flags := flag_byte HEADER_1 FLAG_UNSET BROADCAST LINK pt,
     pk_create_receipt := True, pk_dlink := Some (view l), pk_mtu := ln_mtu l\<rparr>"

lemma link_packet_built: "length b \<le> MDU \<Longrightarrow> packet_new_link (view l) b pt ctx FLAG_UNSET = Inr (link_packet l b pt ctx)"
  by (simp add: packet_new_link_def packet_new_def get_packed_flags_def packet_object_def link_packet_def Let_def)

lemma link_packet_sent:
  assumes "open_line v" "ln_status l \<noteq> CLOSED"
    and "pack (link_penv v l) ((link_packet l b pt ctx)\<lparr>pk_dlink := Some (link_sent (lv_now v) (length b) (view l))\<rparr>) = (p, None)"
  shows "send (link_penv v l) (lv_now v) (link_packet l b pt ctx) = (p\<lparr>pk_sent := True\<rparr>, Inr (pk_receipt p))"
  using assms
  by (simp add: send_def link_packet_def packet_object_def send_out_def open_line_def link_penv_def)

definition finished :: "packet \<Rightarrow> bytes \<Rightarrow> packet" where
  "finished p h = p\<lparr>pk_header := pk_header p @ [pk_context p],
     pk_raw := pk_header p @ [pk_context p] @ pk_ciphertext p, pk_packed := True, pk_packet_hash := h\<rparr>"

lemma finished_fields [simp]:
  "pk_ciphertext (finished p h) = pk_ciphertext p" "pk_context (finished p h) = pk_context p"
  "pk_packet_type (finished p h) = pk_packet_type p" "pk_data (finished p h) = pk_data p"
  "pk_dest (finished p h) = pk_dest p" "pk_packed (finished p h)" "pk_sent (finished p h) = pk_sent p"
  "pk_raw (finished p h) \<noteq> []"
  by (simp_all add: finished_def)

lemma pack_finish_fits:
  "length (pk_header p) + 1 + length (pk_ciphertext p) \<le> unat (pk_mtu p) \<Longrightarrow> pk_header p \<noteq> [] \<Longrightarrow>
   \<exists>h. pack_finish e p = (finished p h, None)"
proof -
  assume len: "length (pk_header p) + 1 + length (pk_ciphertext p) \<le> unat (pk_mtu p)" and ne: "pk_header p \<noteq> []"
  define raw where "raw = pk_header p @ [pk_context p] @ pk_ciphertext p"
  define q where "q = p\<lparr>pk_header := pk_header p @ [pk_context p], pk_raw := raw, pk_packed := True\<rparr>"
  have raw: "raw \<noteq> []" "length raw \<le> unat (pk_mtu p)" using len by (simp_all add: raw_def)
  have "pk_raw q \<noteq> []" using raw by (simp add: q_def)
  then obtain h where h: "get_hash e q = Inr h"
    by (cases "pk_raw q") (simp_all add: get_hash_def hashable_part_def)
  have "pack_finish e p = (q\<lparr>pk_packet_hash := h\<rparr>, None)"
    using raw h by (simp add: pack_finish_def update_hash_def Let_def q_def raw_def)
  then show ?thesis by (intro exI [of _ h]) (simp add: finished_def q_def raw_def)
qed

lemma transmit_proof:
  assumes "open_line v" "ln_status l \<noteq> CLOSED" "length b \<le> MDU"
    "3 + length (ln_id l) + length b \<le> unat (ln_mtu l)"
  shows "\<exists>p r l'. transmit v b PROOF LRPROOF l = (out (Sent p) l', Inr (p, r)) \<and> sent_from l l' \<and>
    pk_ciphertext p = b \<and> pk_context p = LRPROOF \<and> pk_packet_type p = PROOF"
proof -
  let ?p = "(link_packet l b PROOF LRPROOF)\<lparr>pk_dlink := Some (link_sent (lv_now v) (length b) (view l))\<rparr>"
  obtain q where q: "pack (link_penv v l) ?p = (q, None)" "pk_ciphertext q = b" "pk_context q = LRPROOF"
      "pk_packet_type q = PROOF"
    using pack_finish_fits [of "?p\<lparr>pk_dest_hash := ln_id l, pk_encrypted := False,
        pk_header := [pk_flags ?p, 0] @ ln_id l, pk_ciphertext := b\<rparr>" "link_penv v l"] assms(4)
    by (auto simp: pack_def link_packet_def packet_object_def link_sent_def Let_def)
  note t = transmit_eq [OF link_packet_built [OF assms(3)] link_packet_sent [OF assms(1,2) q(1)]]
  show ?thesis
    by (rule exI, rule exI, rule exI, rule conjI [OF t]) (simp add: q after_send_sent)
qed

lemma transmit_data:
  assumes "open_line v" "ln_status l \<noteq> CLOSED" "length b \<le> MDU"
    "link_encrypt (lv_prims v) (lv_random v (length (lk_out l))) b l = Inr t"
    "3 + length (ln_id l) + length t \<le> unat (ln_mtu l)"
    "ctx \<notin> {LRPROOF, RESOURCE, KEEPALIVE, CACHE_REQUEST}"
  shows "\<exists>p r l'. transmit v b DATA ctx l = (out (Sent p) l', Inr (p, r)) \<and> sent_from l l' \<and>
    pk_ciphertext p = t \<and> pk_context p = ctx \<and> pk_packet_type p = DATA"
proof -
  let ?p = "(link_packet l b DATA ctx)\<lparr>pk_dlink := Some (link_sent (lv_now v) (length b) (view l))\<rparr>"
  obtain q where q: "pack (link_penv v l) ?p = (q, None)" "pk_ciphertext q = t" "pk_context q = ctx"
      "pk_packet_type q = DATA"
    using pack_finish_fits [of "?p\<lparr>pk_dest_hash := ln_id l, pk_encrypted := False,
        pk_header := [pk_flags ?p, 0] @ ln_id l, pk_ciphertext := t, pk_encrypted := True\<rparr>" "link_penv v l"] assms(4-6)
    by (auto simp: pack_def link_packet_def packet_object_def link_sent_def plain_payload_def link_penv_def Let_def)
  note t = transmit_eq [OF link_packet_built [OF assms(3)] link_packet_sent [OF assms(1,2) q(1)]]
  show ?thesis
    by (rule exI, rule exI, rule exI, rule conjI [OF t]) (simp add: q after_send_sent)
qed

section \<open>The world of a handshake\<close>

text \<open>
  A packet as it arrives at the other end: the payload that was packed, the context and type of the
  header, and the part of it that is hashed.
\<close>

definition carried :: "packet \<Rightarrow> packet \<Rightarrow> bool" where
  "carried p q \<longleftrightarrow> pk_data q = pk_ciphertext p \<and> pk_context q = pk_context p \<and>
     pk_packet_type q = pk_packet_type p \<and> hashable_part q = hashable_part p"

definition crypto_ok :: "prims \<Rightarrow> bool" where
  "crypto_ok c \<longleftrightarrow> cbc_ok c \<and> hmac_ok c \<and> dh_ok c \<and> hkdf_ok c \<and> sig_ok c \<and> sha_ok c"

text \<open>A daemon with its interfaces up, an application that leaves the link alone, and enough random bytes.\<close>

definition daemon :: "prims \<Rightarrow> lenv \<Rightarrow> bool" where
  "daemon c v \<longleftrightarrow> lv_prims v = c \<and> open_line v \<and> lv_app v = [] \<and> (\<forall>n. length (lv_random v n) = 16) \<and>
     32 \<le> length (lv_key v) \<and> 32 \<le> length (lv_sig_key v)"

text \<open>The MTU the initiator offers, and what a daemon settles on.\<close>

definition offered :: "lenv \<Rightarrow> destination \<Rightarrow> u16" where
  "offered v dst = (if lv_discovery v \<and> lv_hw_mtu v (dn_hash dst) \<noteq> 0 then lv_hw_mtu v (dn_hash dst) else MTU)"

definition settled :: "lenv \<Rightarrow> u16 \<Rightarrow> u16" where
  "settled v m = (if \<not> lv_discovery v \<and> m > MTU then MTU else m)"

text \<open>The destination as the initiator knows it: its public keys only.\<close>

definition known_as :: "prims \<Rightarrow> identity \<Rightarrow> destination \<Rightarrow> bool" where
  "known_as c i dst \<longleftrightarrow> dn_type dst = SINGLE \<and> length (dn_hash dst) = 16 \<and>
     dn_ident dst = Some (load_public_key c (get_public_key i) identity_object)"

lemma signalling_mode: "\<exists>sb. signalling_bytes m MODE_AES256_CBC_LINK = Inr sb \<and> length sb = 3"
  using signalling_roundtrip(1) by (fastforce simp: signalling_bytes_def ENABLED_MODES_def Let_def)

lemma link_id_cong:
  "hashable_part q = hashable_part p \<Longrightarrow> length (pk_data q) = length (pk_data p) \<Longrightarrow>
   link_id_from_lr_packet c q = link_id_from_lr_packet c p"
  by (simp only: link_id_from_lr_packet_def)

lemma truncated_length: "sha_ok c \<Longrightarrow> length (truncated_hash c b) = 16"
  by (simp add: truncated_hash_def full_hash_def sha_ok_def TRUNCATED_HASHLENGTH_def slice_simps)

lemma base_length: "dh_ok c \<Longrightarrow> length k = 32 \<Longrightarrow> length (pr_x_base c k) = 32"
  unfolding dh_ok_def by blast

section \<open>The request\<close>

definition asks :: "prims \<Rightarrow> lenv \<Rightarrow> destination \<Rightarrow> link \<Rightarrow> bool" where
  "asks c v dst a \<longleftrightarrow> ln_status a = PENDING \<and> lk_initiator a \<and> lk_mode a = MODE_AES256_CBC_LINK \<and>
     lk_dest a = Some dst \<and> lk_prv a = Some (take 32 (lv_key v)) \<and> lk_token a = None \<and> length (ln_id a) = 16"

definition request_data :: "prims \<Rightarrow> lenv \<Rightarrow> destination \<Rightarrow> bytes \<Rightarrow> bool" where
  "request_data c v dst d \<longleftrightarrow> (\<exists>sb. signalling_bytes (offered v dst) MODE_AES256_CBC_LINK = Inr sb \<and>
     d = pr_x_base c (take 32 (lv_key v)) @ pr_ed_base c (take 32 (lv_sig_key v)) @ sb)"

lemma link_new_asks:
  assumes "crypto_ok c" "daemon c v" "known_as c i dst"
  shows "\<exists>a p. link_new v dst e cb MODE_AES256_CBC_LINK = (a, None) \<and> Sent p \<in> set (lk_out a) \<and> asks c v dst a \<and>
    request_data c v dst (pk_ciphertext p) \<and> link_id_from_lr_packet c p = Inr (ln_id a) \<and>
    pk_data p = pk_ciphertext p"
proof -
  have laws: "dh_ok c" "sig_ok c" "sha_ok c" using assms(1) by (simp_all add: crypto_ok_def)
  have v: "lv_prims v = c" "en_outbound (lv_penv v) = (\<lambda>p. (p, True))" "32 \<le> length (lv_key v)" "32 \<le> length (lv_sig_key v)"
    using assms(2) by (simp_all add: daemon_def open_line_def)
  have dst: "dn_type dst = SINGLE" "length (dn_hash dst) = 16" using assms(3) by (simp_all add: known_as_def)
  obtain sb where sb: "signalling_bytes (offered v dst) MODE_AES256_CBC_LINK = Inr sb" "length sb = 3"
    using signalling_mode by blast
  define kb where "kb = pr_x_base c (take 32 (lv_key v))"
  define sgb where "sgb = pr_ed_base c (take 32 (lv_sig_key v))"
  have lens: "length kb = 32" "length sgb = 32"
    using laws v by (simp_all add: kb_def sgb_def base_length sig_ok_def)
  define l0 where "l0 = initiator_link v dst e cb MODE_AES256_CBC_LINK"
  have l0: "lk_pub_bytes l0 = kb" "lk_sig_pub_bytes l0 = sgb"
    by (simp_all add: l0_def initiator_link_def with_keys_def kb_def sgb_def v Let_def)
  define d where "d = kb @ sgb @ sb"
  have d: "length d = 67" using lens sb by (simp add: d_def)
  define p0 where "p0 = packet_object\<lparr>pk_dest := Some (dest_of dst), pk_packet_type := LINKREQUEST, pk_data := d,
      pk_flags := flag_byte HEADER_1 FLAG_UNSET BROADCAST SINGLE LINKREQUEST, pk_create_receipt := True\<rparr>"
  have p0: "packet_new (Some (dest_of dst)) d LINKREQUEST CONTEXT_NONE BROADCAST HEADER_1 [] True FLAG_UNSET = Inr p0"
    using d dst by (simp add: packet_new_def get_packed_flags_def packet_object_def p0_def dest_of_def const_values Let_def)
  have "length (dn_hash dst) + 3 + length d \<le> unat MTU" using d dst by (simp add: MTU_def)
  then obtain p1 where p1: "pack (lv_penv v) p0 = (p1, None)" "pk_ciphertext p1 = d"
      and p1': "pk_dest p1 = Some (dest_of dst)" "pk_data p1 = d" "pk_packed p1" "pk_raw p1 \<noteq> []" "\<not> pk_sent p1"
    using pack_finish_fits [of "p0\<lparr>pk_dest_hash := dn_hash dst, pk_encrypted := False,
        pk_header := [pk_flags p0, 0] @ dn_hash dst, pk_ciphertext := d\<rparr>" "lv_penv v"]
    by (auto simp: pack_def p0_def packet_object_def dest_of_def plain_payload_def Let_def)
  obtain i' where i': "link_id_from_lr_packet c p1 = Inr i'" "length i' = 16"
    using p1'(4) laws(3)
    by (cases "pk_raw p1") (auto simp: link_id_from_lr_packet_def hashable_part_def truncated_length)
  have sent: "send (lv_penv v) (lv_now v) p1 = (p1\<lparr>pk_sent := True\<rparr>, Inr (pk_receipt p1))"
    using p1' v dst by (simp add: send_def send_out_def dest_of_def Let_def)
  define a where "a = had_outbound v False (out (Sent (p1\<lparr>pk_sent := True\<rparr>)) ((out Registered (l0\<lparr>
      lk_establishment_cost := lk_establishment_cost l0 + of_nat (length (pk_raw p1)), ln_id := i'\<rparr>))\<lparr>lk_request_time := lv_now v\<rparr>))"
  have new: "link_new v dst e cb MODE_AES256_CBC_LINK = (a, None)"
    using sb(1) p0 p1(1) i'(1) sent dst(1)
    by (simp add: link_new_def Let_def l0_def [symmetric] l0 offered_def d_def v a_def)
  have asks: "asks c v dst a"
    using i'(2)
    by (simp add: a_def asks_def l0_def initiator_link_def link_object_def with_keys_def had_outbound_def out_def Let_def)
  show ?thesis
  proof (intro exI conjI)
    show "link_new v dst e cb MODE_AES256_CBC_LINK = (a, None)" by (rule new)
    show "Sent (p1\<lparr>pk_sent := True\<rparr>) \<in> set (lk_out a)" by (simp add: a_def had_outbound_def out_def Let_def)
    show "asks c v dst a" by (rule asks)
    show "request_data c v dst (pk_ciphertext (p1\<lparr>pk_sent := True\<rparr>))"
      using sb(1) p1(2) by (auto simp: request_data_def d_def kb_def sgb_def)
    show "link_id_from_lr_packet c (p1\<lparr>pk_sent := True\<rparr>) = Inr (ln_id a)"
      using i'(1) link_id_cong [of "p1\<lparr>pk_sent := True\<rparr>" p1]
      by (simp add: hashable_part_def a_def had_outbound_def out_def Let_def)
    show "pk_data (p1\<lparr>pk_sent := True\<rparr>) = pk_ciphertext (p1\<lparr>pk_sent := True\<rparr>)" using p1(2) p1'(2) by simp
  qed
qed

section \<open>The proof\<close>

text \<open>What the responder has after the request, and the proof it sends.\<close>

definition answers :: "prims \<Rightarrow> lenv \<Rightarrow> bytes \<Rightarrow> bytes \<Rightarrow> link \<Rightarrow> bool" where
  "answers c v lid peer b \<longleftrightarrow> ln_status b = HANDSHAKE \<and> \<not> lk_initiator b \<and> ln_id b = lid \<and>
     lk_mode b = MODE_AES256_CBC_LINK \<and>
     (\<exists>s. x_exchange c (take 32 (lv_key v)) peer = Inr s \<and> hkdf c 64 s lid [] = Inr (lk_derived_key b))"

definition proof_data :: "prims \<Rightarrow> lenv \<Rightarrow> bytes \<Rightarrow> u16 \<Rightarrow> identity \<Rightarrow> bytes \<Rightarrow> bool" where
  "proof_data c v lid m i d \<longleftrightarrow> (\<exists>sb sk. signalling_bytes m MODE_AES256_CBC_LINK = Inr sb \<and> iy_sig_prv i = Some sk \<and>
     d = pr_ed_sign c sk (lid @ pr_x_base c (take 32 (lv_key v)) @ pr_ed_base c sk @ sb) @
         pr_x_base c (take 32 (lv_key v)) @ sb)"

lemma update_mdu_ok: "84 \<le> unat (ln_mtu l) \<Longrightarrow> \<exists>w. update_mdu l = (l\<lparr>ln_mdu := w\<rparr>, None)"
proof -
  assume m: "84 \<le> unat (ln_mtu l)"
  define x where "x = int (unat (ln_mtu l)) - 68"
  have "16 \<le> x" unfolding x_def using m by linarith
  then have "16 div 16 \<le> x div 16" by (intro zdiv_mono1) simp_all
  then have "\<not> x < 0" "\<not> x div 16 * 16 - 1 < 0" using \<open>16 \<le> x\<close> by simp_all
  moreover have "int (unat (ln_mtu l)) - int (IFAC_MIN_SIZE + HEADER_MINSIZE + TOKEN_OVERHEAD) = x"
    by (simp add: x_def const_values IFAC_MIN_SIZE_def TOKEN_OVERHEAD_def)
  ultimately show ?thesis by (auto simp: update_mdu_def AES128_BLOCKSIZE_def Let_def)
qed

lemma exchange_ok:
  assumes "dh_ok c" "length a = 32" "length b = 32"
  shows "\<exists>s. s \<noteq> [] \<and> x_exchange c a (pr_x_base c b) = Inr s \<and> x_exchange c b (pr_x_base c a) = Inr s"
proof -
  obtain s where "length s = 32" "pr_x_dh c a (pr_x_base c b) = Some s" "pr_x_dh c b (pr_x_base c a) = Some s"
    using assms unfolding dh_ok_def by blast
  moreover from this have "s \<noteq> []" by auto
  moreover have "length (pr_x_base c a) = 32" "length (pr_x_base c b) = 32"
    by (rule base_length [OF assms(1)], rule assms)+
  ultimately show ?thesis by (intro exI [of _ s]) (simp add: x_exchange_def)
qed

lemma hkdf_64: "hkdf_ok c \<Longrightarrow> s \<noteq> [] \<Longrightarrow> \<exists>k. length k = 64 \<and> hkdf c 64 s salt [] = Inr k"
proof -
  assume h: "hkdf_ok c" and s: "s \<noteq> []"
  have "(0 :: nat) < 64" "64 \<le> HKDF_MAX" by (simp_all add: HKDF_MAX_def)
  from h [unfolded hkdf_ok_def, rule_format, OF this s] obtain k where
    "length k = 64" "pr_hkdf c 64 salt s [] = Some k" by blast
  with s show ?thesis by (simp add: hkdf_def)
qed

text \<open>The link between its keys and its registration.\<close>

lemma accept_request_answers:
  assumes laws: "crypto_ok c" and v: "daemon c v" and i: "ident_ok c i" and own: "dn_ident owner = Some i"
    and l: "fresh l" "lk_mode l = MODE_AES256_CBC_LINK" "ln_id l = lid" "lk_prv l = Some (take 32 (lv_key v))"
      "lk_owner l = Some owner" "\<not> lk_initiator l" "lk_pub_bytes l = pr_x_base c (take 32 (lv_key v))"
      "iy_sig_prv i = Some sk" "lk_sig_pub_bytes l = pr_ed_base c sk"
      "lk_peer_pub_bytes l = pr_x_base c ka" "length ka = 32" "length lid = 16"
    and d: "length d = 67" "mtu_from_lr_packet q = m" "m \<noteq> 0" "118 \<le> unat (settled v m)"
  shows "\<exists>b p. accept_request v d q dst ifc l = (b, None) \<and> answers c v lid (pr_x_base c ka) b \<and>
    lk_dest b = dst \<and> ln_mtu b = settled v m \<and> Sent p \<in> set (lk_out b) \<and> pk_packet_type p = PROOF \<and> pk_context p = LRPROOF \<and>
    proof_data c v lid (settled v m) i (pk_ciphertext p)"
proof -
  have law: "dh_ok c" "sig_ok c" "hkdf_ok c" using laws by (simp_all add: crypto_ok_def)
  have e: "lv_prims v = c" "open_line v" "length (take 32 (lv_key v)) = 32" using v by (simp_all add: daemon_def)
  have sk: "length sk = 32" using i l(8) by (auto simp: ident_ok_def)
  obtain sb where sb: "signalling_bytes (settled v m) MODE_AES256_CBC_LINK = Inr sb" "length sb = 3"
    using signalling_mode by blast
  have lm: "accept_mtu v q l = l\<lparr>ln_mtu := settled v m\<rparr>"
    using d by (auto simp: accept_mtu_def settled_def Let_def)
  obtain w where w: "update_mdu (l\<lparr>ln_mtu := settled v m\<rparr>) = (l\<lparr>ln_mtu := settled v m, ln_mdu := w\<rparr>, None)"
    using update_mdu_ok [of "l\<lparr>ln_mtu := settled v m\<rparr>"] d(4) by auto
  define l1 where "l1 = l\<lparr>ln_mtu := settled v m, ln_mdu := w, lk_dest := dst,
      lk_establishment_timeout := of_nat (ESTABLISHMENT_TIMEOUT_PER_HOP * max 1 (unat (pk_hops q))) + KEEPALIVE_MAX,
      lk_establishment_cost := lk_establishment_cost l + of_nat (length (pk_raw q))\<rparr>"
  obtain s where s: "s \<noteq> []" "x_exchange c (take 32 (lv_key v)) (pr_x_base c ka) = Inr s"
    using exchange_ok [OF law(1) e(3) l(11)] by blast
  obtain k where k: "length k = 64" "hkdf c 64 s lid [] = Inr k" using hkdf_64 [OF law(3) s(1)] by blast
  define l2 where "l2 = l1\<lparr>ln_status := HANDSHAKE, lk_shared_key := s, lk_derived_key := k\<rparr>"
  have h: "handshake v l1 = (l2, None)"
    using l s k e by (simp add: handshake_def derive_key_def l1_def l2_def fresh_def Let_def)
  define l3 where "l3 = l2\<lparr>lk_iface := ifc, lk_request_hops := pk_hops q\<rparr>"
  define sig where "sig = pr_ed_sign c sk (lid @ pr_x_base c (take 32 (lv_key v)) @ pr_ed_base c sk @ sb)"
  have sig: "length sig = 64" using law(2) sk by (simp add: sig_def sig_ok_def)
  define pd where "pd = sig @ pr_x_base c (take 32 (lv_key v)) @ sb"
  have pd: "length pd = 99" using sig sb base_length [OF law(1) e(3)] by (simp add: pd_def)
  have "ln_status l3 \<noteq> CLOSED" "length pd \<le> MDU" "3 + length (ln_id l3) + length pd \<le> unat (ln_mtu l3)"
    using pd l d(4) by (simp_all add: l3_def l2_def l1_def const_values)
  from transmit_proof [OF e(2) this] obtain p r l4 where
    t: "transmit v pd PROOF LRPROOF l3 = (out (Sent p) l4, Inr (p, r))" and s4: "sent_from l3 l4"
    and p: "pk_ciphertext p = pd" "pk_context p = LRPROOF" "pk_packet_type p = PROOF" by blast
  define l5 where "l5 = had_outbound v False ((out (Sent p) l4)\<lparr>
      lk_establishment_cost := lk_establishment_cost (out (Sent p) l4) + of_nat (length (pk_raw p)),
      lk_proof_sent_at := lv_now v\<rparr>)"
  have pr: "link_prove v l3 = (l5, None)"
    using l own i sb(1) t e
    by (simp add: link_prove_def l5_def l3_def l2_def l1_def identity_sign_def proof_signed_def sig_def pd_def)
  define b where "b = (out Registered (l5\<lparr>lk_request_time := lv_now v\<rparr>))\<lparr>lk_last_inbound := lv_now v\<rparr>"
  have acc: "accept_request v d q dst ifc l = (b, None)"
    using d(1) w h [unfolded l1_def] pr [unfolded l3_def]
    by (simp add: accept_request_def lm lthen_def b_def ECPUBSIZE_def LINK_MTU_SIZE_def Let_def)
  have ans: "answers c v lid (pr_x_base c ka) b"
    using s k l sent_from_fields [OF s4]
    by (simp add: answers_def b_def l5_def out_def had_outbound_def l3_def l2_def l1_def Let_def)
  show ?thesis
  proof (intro exI conjI)
    show "accept_request v d q dst ifc l = (b, None)" by (rule acc)
    show "answers c v lid (pr_x_base c ka) b" by (rule ans)
    show "lk_dest b = dst" "ln_mtu b = settled v m"
      using sent_from_fields [OF s4] by (simp_all add: b_def l5_def out_def had_outbound_def l3_def l2_def l1_def Let_def)
    show "Sent p \<in> set (lk_out b)" by (simp add: b_def l5_def out_def had_outbound_def Let_def)
    show "proof_data c v lid (settled v m) i (pk_ciphertext p)"
      using sb(1) l(8) p(1) by (auto simp: proof_data_def pd_def sig_def)
  qed (simp_all add: p)
qed

lemma request_fields:
  assumes "d = x @ y @ sb" "length x = 32" "length y = 32" "signalling_bytes m MODE_AES256_CBC_LINK = Inr sb"
    and "pk_data q = d"
  shows "length d = 67" "bleft (ECPUBSIZE div 2) d = x" "bmid_len (ECPUBSIZE div 2) (ECPUBSIZE div 2) d = y"
    "mtu_from_lr_packet q = m" "mode_from_lr_packet q = MODE_AES256_CBC_LINK"
proof -
  note sb = signalling_roundtrip [OF assms(4)]
  show "length d = 67" using assms sb(1) by simp
  show "bleft (ECPUBSIZE div 2) d = x" "bmid_len (ECPUBSIZE div 2) (ECPUBSIZE div 2) d = y"
    using assms by (simp_all add: ECPUBSIZE_def slice_simps)
  have e: "ECPUBSIZE = length (x @ y)" using assms by (simp add: ECPUBSIZE_def)
  show "mtu_from_lr_packet q = m"
    using assms sb(1,4) mtu_of_append [of "x @ y" sb] by (simp add: mtu_from_lr_packet_def e LINK_MTU_SIZE_def)
  show "mode_from_lr_packet q = MODE_AES256_CBC_LINK"
    using assms sb(1,3) by (simp add: mode_from_lr_packet_def e nth_append)
qed

lemma validate_request_answers:
  assumes laws: "crypto_ok c" and v: "daemon c v" and i: "ident_ok c i" and own: "dn_ident owner = Some i"
    and d: "pk_data q = pr_x_base c ka @ y @ sb" "length ka = 32" "length y = 32"
      "signalling_bytes m MODE_AES256_CBC_LINK = Inr sb"
    and lid: "link_id_from_lr_packet c q = Inr lid" "length lid = 16" "act lid = None"
    and m: "m \<noteq> 0" "118 \<le> unat (settled v m)"
  shows "\<exists>b p. validate_request v owner (pk_data q) q dst ifc act = Inr (None, Some b) \<and>
    answers c v lid (pr_x_base c ka) b \<and> lk_dest b = dst \<and> ln_mtu b = settled v m \<and>
    Sent p \<in> set (lk_out b) \<and> pk_packet_type p = PROOF \<and>
    pk_context p = LRPROOF \<and> proof_data c v lid (settled v m) i (pk_ciphertext p)"
proof -
  have e: "lv_prims v = c" using v by (simp add: daemon_def)
  have x: "length (pr_x_base c ka) = 32" using laws d(2) base_length by (simp add: crypto_ok_def)
  obtain sk where sk: "iy_sig_prv i = Some sk" using i by (auto simp: ident_ok_def)
  note f = request_fields [OF d(1) x d(3,4) refl]
  define l0 where "l0 = load_peer (pr_x_base c ka) y
      (with_keys c (take 32 (lv_key v)) sk (link_object None (Some owner)))"
  have ne: "pr_x_base c ka \<noteq> []" using x by auto
  have new: "link_new_accepted v owner (bleft (ECPUBSIZE div 2) (pk_data q))
      (bmid_len (ECPUBSIZE div 2) (ECPUBSIZE div 2) (pk_data q)) = (l0, None)"
    using own sk e ne unfolding f(2,3) by (simp add: link_new_accepted_def l0_def Let_def)
  define l where "l = l0\<lparr>ln_id := lid, lk_mode := mode_from_lr_packet q\<rparr>"
  have "fresh l"
    by (rule fresh_cong [OF link_object_fresh [of None "Some owner"]])
      (simp_all add: l_def l0_def with_keys_def load_peer_def)
  note acc = accept_request_answers [OF laws v i own this, where lid = lid and sk = sk and ka = ka and d = "pk_data q"
      and q = q and m = m and dst = dst and ifc = ifc]
  have "\<exists>b p. accept_request v (pk_data q) q dst ifc l = (b, None) \<and> answers c v lid (pr_x_base c ka) b \<and>
    lk_dest b = dst \<and> ln_mtu b = settled v m \<and> Sent p \<in> set (lk_out b) \<and> pk_packet_type p = PROOF \<and> pk_context p = LRPROOF \<and>
    proof_data c v lid (settled v m) i (pk_ciphertext p)"
    by (rule acc) (use d lid m sk f in \<open>simp_all add: l_def l0_def with_keys_def load_peer_def link_object_def\<close>)
  then obtain b p where b: "accept_request v (pk_data q) q dst ifc l = (b, None)" "answers c v lid (pr_x_base c ka) b"
    "lk_dest b = dst" "ln_mtu b = settled v m" "Sent p \<in> set (lk_out b)" "pk_packet_type p = PROOF" "pk_context p = LRPROOF"
    "proof_data c v lid (settled v m) i (pk_ciphertext p)" by blast
  have "validate_request v owner (pk_data q) q dst ifc act = Inr (None, Some b)"
    using new lid b(1) f(1,5) e unfolding validate_request_def l_def
    by (simp add: ECPUBSIZE_def LINK_MTU_SIZE_def ENABLED_MODES_def Let_def)
  with b show ?thesis by blast
qed

section \<open>The round trip packet\<close>

lemma token_64: "length k = 64 \<Longrightarrow> \<exists>t. token_new k MODE_AES = Inr t"
  by (auto simp: token_new_def)

lemma sealed_under:
  assumes "crypto_ok c" "token_new k MODE_AES = Inr t" "length iv = 16"
  shows "\<exists>q. token_encrypt c iv b t = Inr q \<and> token_decrypt c q t = Inr b \<and> length q = 48 + (length b div 16 + 1) * 16"
  using token_sealed [OF token_new_ok [OF _ _ assms(2)] assms(3), of c b] assms(1)
  by (simp add: crypto_ok_def TOKEN_OVERHEAD_def)

definition rtt_sealed :: "prims \<Rightarrow> bytes \<Rightarrow> bytes \<Rightarrow> bool" where
  "rtt_sealed c key ct \<longleftrightarrow> (\<exists>t bits. token_new key MODE_AES = Inr t \<and> token_decrypt c ct t = Inr (pack_double bits))"

lemma emit_rtt:
  assumes "crypto_ok c" "daemon c v" "ln_status l \<noteq> CLOSED" "link_token l = Inr t"
    "token_new (lk_derived_key l) MODE_AES = Inr t" "length (ln_id l) = 16" "118 \<le> unat (ln_mtu l)"
  shows "\<exists>l1 p. emit_packet v (pack_double w) DATA LRRTT False l = (had_outbound v False (out (Sent p) l1), None) \<and>
    sent_from l l1 \<and> pk_packet_type p = DATA \<and> pk_context p = LRRTT \<and> rtt_sealed c (lk_derived_key l) (pk_ciphertext p)"
proof -
  have v: "lv_prims v = c" "open_line v" "length (lv_random v (length (lk_out l))) = 16"
    using assms(2) by (simp_all add: daemon_def)
  obtain q where q: "token_encrypt c (lv_random v (length (lk_out l))) (pack_double w) t = Inr q"
      "token_decrypt c q t = Inr (pack_double w)" "length q = 64"
    using sealed_under [OF assms(1,5) v(3), of "pack_double w"] by auto
  have "link_encrypt (lv_prims v) (lv_random v (length (lk_out l))) (pack_double w) l = Inr q"
    using q(1) assms(4) v(1) by (simp add: link_encrypt_def)
  from transmit_data [OF v(2) assms(3) _ this, of LRRTT] obtain p r l1 where
    "transmit v (pack_double w) DATA LRRTT l = (out (Sent p) l1, Inr (p, r))" "sent_from l l1"
    "pk_ciphertext p = q" "pk_context p = LRRTT" "pk_packet_type p = DATA"
    using assms(6,7) q(3) by (auto simp: const_values)
  then show ?thesis
    using q(2) assms(5) by (auto simp: emit_packet_def rtt_sealed_def)
qed

lemma send_rtt_runs:
  assumes "crypto_ok c" "daemon c v" "ln_status l = ACTIVE" "link_token l = Inr t"
    "token_new (lk_derived_key l) MODE_AES = Inr t" "length (ln_id l) = 16" "118 \<le> unat (ln_mtu l)"
  shows "\<exists>l1 p. send_rtt v l = (l1, None) \<and> ln_status l1 = ACTIVE \<and> lk_derived_key l1 = lk_derived_key l \<and>
    lk_remote l1 = lk_remote l \<and> lk_established_cb l1 = lk_established_cb l \<and> ln_id l1 = ln_id l \<and>
    Sent p \<in> set (lk_out l1) \<and> pk_packet_type p = DATA \<and> pk_context p = LRRTT \<and>
    rtt_sealed c (lk_derived_key l) (pk_ciphertext p)"
proof -
  define l' where "l' = (let th = lv_now v - lk_request_time l + RTT_SEND_ALLOWANCE in
      if th > ln_rtt l then update_keepalive (l\<lparr>ln_rtt := th\<rparr>) else l)"
  have f: "ln_status l' = ln_status l" "lk_derived_key l' = lk_derived_key l" "ln_id l' = ln_id l"
      "ln_mtu l' = ln_mtu l" "lk_remote l' = lk_remote l" "lk_established_cb l' = lk_established_cb l"
      "lk_token l' = lk_token l"
    by (simp_all add: l'_def update_keepalive_def Let_def)
  have t: "link_token l' = Inr t" using assms(4) link_token_cong [OF f(7,2)] by simp
  from emit_rtt [OF assms(1,2), of l' t "lv_double v (ln_rtt l')"] assms(3,5-7) f t
  obtain l1 p where e: "emit_packet v (rtt_plain v l') DATA LRRTT False l' = (had_outbound v False (out (Sent p) l1), None)"
      "sent_from l' l1" "pk_packet_type p = DATA" "pk_context p = LRRTT"
      "rtt_sealed c (lk_derived_key l) (pk_ciphertext p)"
    by (auto simp: rtt_plain_def)
  have "send_rtt v l = (had_outbound v False (out (Sent p) l1), None)"
    using e(1) by (simp add: send_rtt_def l'_def Let_def)
  moreover have "lk_established_cb l1 = lk_established_cb l'" using e(2) by (auto elim: sent_fromE)
  ultimately show ?thesis
    using e(3-5) sent_from_fields [OF e(2)] f assms(3)
    by (intro exI [of _ "had_outbound v False (out (Sent p) l1)"] exI [of _ p])
      (simp add: had_outbound_def out_def Let_def)
qed

lemma proof_activates:
  assumes laws: "crypto_ok c" and v: "daemon c v" and a: "asks c v0 dst a" and k: "known_as c i dst" "ident_ok c i"
    and lens: "32 \<le> length (lv_key v0)" "32 \<le> length (lv_key vB)"
    and q: "proof_data c vB (ln_id a) m i (pk_data q)" and m: "m \<noteq> 0" "118 \<le> unat (settled v m)"
  shows "\<exists>a1 p. link_validate_proof v ifc q a = (a1, None) \<and> ln_status a1 = ACTIVE \<and> ln_id a1 = ln_id a \<and>
    lk_remote a1 = dn_ident dst \<and>
    (\<exists>s. x_exchange c (take 32 (lv_key v0)) (pr_x_base c (take 32 (lv_key vB))) = Inr s \<and>
         hkdf c 64 s (ln_id a) [] = Inr (lk_derived_key a1)) \<and>
    Sent p \<in> set (lk_out a1) \<and> pk_packet_type p = DATA \<and> pk_context p = LRRTT \<and>
    rtt_sealed c (lk_derived_key a1) (pk_ciphertext p)"
proof -
  have law: "dh_ok c" "sig_ok c" "hkdf_ok c" using laws by (simp_all add: crypto_ok_def)
  have e: "lv_prims v = c" "lv_app v = []" using v by (simp_all add: daemon_def)
  let ?ka = "take 32 (lv_key v0)" and ?pb = "pr_x_base c (take 32 (lv_key vB))"
  have l32: "length ?ka = 32" "length (take 32 (lv_key vB)) = 32" using lens by simp_all
  note pb = base_length [OF law(1) l32(2)]
  obtain sb sk where sb: "signalling_bytes m MODE_AES256_CBC_LINK = Inr sb" and sk: "iy_sig_prv i = Some sk"
    and d: "pk_data q = pr_ed_sign c sk (ln_id a @ ?pb @ pr_ed_base c sk @ sb) @ ?pb @ sb"
    using q by (auto simp: proof_data_def)
  note rt = signalling_roundtrip [OF sb]
  define sig where "sig = pr_ed_sign c sk (ln_id a @ ?pb @ pr_ed_base c sk @ sb)"
  have sk32: "length sk = 32" "iy_sig_pub_bytes i = pr_ed_base c sk" "length (iy_pub_bytes i) = 32"
    using k(2) sk law(1) by (auto simp: ident_ok_def base_length)
  have sg: "length sig = 64" "length (pr_ed_base c sk) = 32"
      "pr_ed_open c (pr_ed_base c sk) sig (ln_id a @ ?pb @ pr_ed_base c sk @ sb)"
    using law(2) sk32 by (simp_all add: sig_def sig_ok_def)
  have dl: "pk_data q = (sig @ ?pb) @ sb" "length (sig @ ?pb) = 96" using d pb sg by (simp_all add: sig_def)
  have size: "SIGLENGTH div 8 + ECPUBSIZE div 2 = length (sig @ ?pb)" "lp_size = 96"
    using dl by (simp_all add: SIGLENGTH_def ECPUBSIZE_def lp_size_def)
  have mtu: "mtu_from_lp_packet q = m" "mode_from_lp_packet q = MODE_AES256_CBC_LINK"
    using dl(1) rt size(1) mtu_of_append [of "sig @ ?pb" sb]
    by (simp_all add: mtu_from_lp_packet_def mode_from_lp_packet_def LINK_MTU_SIZE_def nth_append)
  have parts: "lp_parts q = Inr (sig @ ?pb, m, sb)"
    using dl rt(1) sb mtu size by (simp add: lp_parts_def LINK_MTU_SIZE_def slice_simps)
  let ?j = "load_public_key c (get_public_key i) identity_object"
  have j: "get_public_key ?j = get_public_key i" "identity_validate c sig (ln_id a @ ?pb @ pr_ed_base c sk @ sb) ?j = Inr True"
    using sk32 sg(1,2,3)
    by (simp_all add: load_public_key_def update_hashes_def identity_object_def get_public_key_def identity_validate_def
        ed_verify_def identity_consts slice_simps Let_def)
  have pick: "bleft (SIGLENGTH div 8) (sig @ ?pb) = sig" "bmid_len (SIGLENGTH div 8) (ECPUBSIZE div 2) (sig @ ?pb) = ?pb"
      "bmid_len (ECPUBSIZE div 2) (ECPUBSIZE div 2) (get_public_key i) = pr_ed_base c sk"
    using sg(1,2) pb sk32 by (simp_all add: SIGLENGTH_def ECPUBSIZE_def get_public_key_def slice_simps)
  obtain s where s: "s \<noteq> []" "x_exchange c ?ka ?pb = Inr s" using exchange_ok [OF law(1) l32] by blast
  obtain k' where k': "length k' = 64" "hkdf c 64 s (ln_id a) [] = Inr k'" using hkdf_64 [OF law(3) s(1)] by blast
  obtain t where t: "token_new k' MODE_AES = Inr t" using token_64 [OF k'(1)] by blast
  define l2 where "l2 = (load_peer ?pb (pr_ed_base c sk) a)\<lparr>ln_status := HANDSHAKE, lk_shared_key := s, lk_derived_key := k',
      lk_establishment_cost := lk_establishment_cost a + of_nat (length (pk_raw q))\<rparr>"
  have hs: "handshake v (load_peer ?pb (pr_ed_base c sk) a) =
      ((load_peer ?pb (pr_ed_base c sk) a)\<lparr>ln_status := HANDSHAKE, lk_shared_key := s, lk_derived_key := k'\<rparr>, None)"
    using a s k' e by (simp add: handshake_def derive_key_def load_peer_def asks_def Let_def)
  have vf: "validate_first_proof v ifc q a = activate_initiator v ifc m ?j l2"
    using a k(1) mtu(2) parts hs pick j e dl(2) size(2)
    by (simp add: validate_first_proof_def asks_def known_as_def lthen_def l2_def load_peer_def proof_signed_def Let_def)
  define l3 where "l3 = l2\<lparr>ln_rtt := lv_now v - lk_request_time l2, lk_iface := ifc, lk_remote := Some ?j, ln_mtu := settled v m\<rparr>"
  have cm: "confirm_mtu v m (l2\<lparr>ln_rtt := lv_now v - lk_request_time l2, lk_iface := ifc, lk_remote := Some ?j\<rparr>) = l3"
    using m(1) by (simp add: confirm_mtu_def settled_def l3_def)
  obtain w where w: "update_mdu l3 = (l3\<lparr>ln_mdu := w\<rparr>, None)"
    using update_mdu_ok [of l3] m(2) by (auto simp: l3_def)
  define l4 where "l4 = out (Alive (case lk_dest a of Some d \<Rightarrow> dn_hash d | None \<Rightarrow> []))
      (establishment_rate (out Activated (update_keepalive (l3\<lparr>ln_mdu := w, ln_status := ACTIVE,
        lk_activated_at := lv_now v, ln_last_proof := lv_now v\<rparr>))))"
  have l4: "ln_status l4 = ACTIVE" "lk_derived_key l4 = k'" "ln_id l4 = ln_id a" "ln_mtu l4 = settled v m"
      "lk_remote l4 = Some ?j" "lk_token l4 = None"
    using a by (simp_all add: l4_def l3_def l2_def load_peer_def out_def establishment_rate_def update_keepalive_def
        asks_def Let_def)
  have "link_token l4 = Inr t" "token_new (lk_derived_key l4) MODE_AES = Inr t" "length (ln_id l4) = 16"
      "118 \<le> unat (ln_mtu l4)"
    using l4 t a m(2) by (simp_all add: link_token_def asks_def)
  from send_rtt_runs [OF laws v l4(1) this] obtain l5 p where
    sr: "send_rtt v l4 = (l5, None)" and l5: "ln_status l5 = ACTIVE" "lk_derived_key l5 = k'" "lk_remote l5 = Some ?j"
      "ln_id l5 = ln_id a" "Sent p \<in> set (lk_out l5)" "pk_packet_type p = DATA" "pk_context p = LRRTT"
      "rtt_sealed c k' (pk_ciphertext p)"
    using l4 by auto
  define a1 where "a1 = (if lk_established_cb l5 then out Established l5 else l5)"
  have "activate_initiator v ifc m ?j l2 = (a1, None)"
  proof -
    have "ln_status l2 = HANDSHAKE" by (simp add: l2_def)
    moreover have "lk_dest (l3\<lparr>ln_mdu := w\<rparr>) = lk_dest a" by (simp add: l3_def l2_def load_peer_def)
    moreover have "lk_dest (establishment_rate (out Activated (update_keepalive (l3\<lparr>ln_mdu := w, ln_status := ACTIVE,
        lk_activated_at := lv_now v, ln_last_proof := lv_now v\<rparr>)))) = lk_dest (l3\<lparr>ln_mdu := w\<rparr>)"
      by (simp add: establishment_rate_def out_def update_keepalive_def Let_def)
    ultimately show ?thesis
      using w sr cm e(2) by (simp add: activate_initiator_def lthen_def l4_def [symmetric] a1_def Let_def)
  qed
  then have run: "link_validate_proof v ifc q a = (a1, None)"
    using a vf by (simp add: link_validate_proof_def caught_def asks_def)
  have "dn_ident dst = Some ?j" using k(1) by (simp add: known_as_def)
  with run l5 s(2) k'(2) show ?thesis
    by (intro exI [of _ a1] exI [of _ p]) (auto simp: a1_def out_def)
qed

lemma rtt_activates:
  assumes laws: "crypto_ok c" and v: "daemon c v" and ok: "link_ok c b" and b: "answers c vB lid peer b"
    and q: "pk_packet_type q = DATA" "pk_context q = LRRTT" "rtt_sealed c (lk_derived_key b) (pk_data q)"
  shows "\<exists>b1. link_receive v ifc q b = (b1, None) \<and> ln_status b1 = ACTIVE \<and>
    lk_derived_key b1 = lk_derived_key b \<and> ln_id b1 = ln_id b \<and> lk_dest b1 = lk_dest b \<and>
    ln_mtu b1 = ln_mtu b \<and> \<not> lk_initiator b1"
proof -
  have v: "lv_prims v = c" "lv_app v = []" using v by (simp_all add: daemon_def)
  have b: "ln_status b = HANDSHAKE" "\<not> lk_initiator b" using b by (simp_all add: answers_def)
  define b0 where "b0 = note_inbound v q (repin v ifc q b)"
  have b0: "ln_status b0 = HANDSHAKE" "\<not> lk_initiator b0" "lk_derived_key b0 = lk_derived_key b" "ln_id b0 = ln_id b"
      "lk_dest b0 = lk_dest b" "ln_mtu b0 = ln_mtu b" "link_ok c b0"
  proof -
    obtain x b' where dc: "link_decrypt (lv_prims v) (pk_data q) b = (x, b')"
      by (cases "link_decrypt (lv_prims v) (pk_data q) b") auto
    note f = sent_from_fields [OF link_decrypt_sent [OF dc]]
    have r: "ln_status (repin v ifc q b) = HANDSHAKE" "\<not> lk_initiator (repin v ifc q b)"
        "lk_derived_key (repin v ifc q b) = lk_derived_key b" "ln_id (repin v ifc q b) = ln_id b"
        "lk_dest (repin v ifc q b) = lk_dest b" "ln_mtu (repin v ifc q b) = ln_mtu b"
      using b f dc by (auto simp: repin_def)
    then show "ln_status b0 = HANDSHAKE" "\<not> lk_initiator b0" "lk_derived_key b0 = lk_derived_key b" "ln_id b0 = ln_id b"
        "lk_dest b0 = lk_dest b" "ln_mtu b0 = ln_mtu b"
      by (simp_all add: b0_def note_inbound_def out_def Let_def)
    show "link_ok c b0" unfolding b0_def by (intro note_inbound_ok repin_sent(1) ok)
  qed
  obtain t bits where t: "token_new (lk_derived_key b0) MODE_AES = Inr t" "token_decrypt c (pk_data q) t = Inr (pack_double bits)"
    using q(3) b0(3) by (auto simp: rtt_sealed_def)
  have "link_token b0 = Inr t"
    using b0(1,7) t(1) by (cases "lk_token b0") (auto simp: link_token_def link_ok_def)
  then have dec: "link_decrypt c (pk_data q) b0 = (pack_double bits, keep_token b0)"
    using t(2) by (simp add: link_decrypt_def link_open_def)
  note kf = sent_from_fields [OF keep_token_sent [of b0]]
  have ds: "\<exists>u. deserialize_double (unpacker_feed (pack_double bits)) = Inr (bits, u)"
    using consume_double_at [of "pack_double bits" "[]" bits "[]"]
    by (simp add: deserialize_double_def unpacker_feed_upk) (simp add: upk_def)
  have act: "\<exists>b1. activate_responder v rtt l = (b1, None) \<and> ln_status b1 = ACTIVE \<and>
      lk_derived_key b1 = lk_derived_key l \<and> ln_id b1 = ln_id l \<and> lk_dest b1 = lk_dest l \<and> ln_mtu b1 = ln_mtu l \<and>
      lk_initiator b1 = lk_initiator l" for rtt l
    using v(2) by (auto simp: activate_responder_def owner_established_def caught_def establishment_rate_def
        update_keepalive_def out_def Let_def)
  obtain b1 where b1: "rtt_packet v q b0 = (b1, None)" "ln_status b1 = ACTIVE" "lk_derived_key b1 = lk_derived_key b0"
      "ln_id b1 = ln_id b0" "lk_dest b1 = lk_dest b0" "ln_mtu b1 = ln_mtu b0" "\<not> lk_initiator b1"
  proof -
    obtain u where u: "deserialize_double (unpacker_feed (pack_double bits)) = Inr (bits, u)" using ds by blast
    define l where "l = (if repair_helped v (keep_token b0) then out Repair_helped (keep_token b0) else keep_token b0)"
    define measured where "measured = lv_now v - lk_request_time b0"
    define rtt where "rtt = (case lv_undouble v bits of None \<Rightarrow> measured | Some r \<Rightarrow> if measured < r then r else measured)"
    obtain b1 where b1: "activate_responder v rtt l = (b1, None)" "ln_status b1 = ACTIVE"
        "lk_derived_key b1 = lk_derived_key l" "ln_id b1 = ln_id l" "lk_dest b1 = lk_dest l" "ln_mtu b1 = ln_mtu l"
        "lk_initiator b1 = lk_initiator l" using act by blast
    have "pack_double bits \<noteq> []" by (simp add: pack_double_def)
    then have "rtt_packet v q b0 = caught (teardown v) (activate_responder v rtt l)"
      by (cases "repair_helped v (keep_token b0)")
        (simp_all add: rtt_packet_def dec u v l_def rtt_def measured_def [symmetric] Let_def)
    then have "rtt_packet v q b0 = (b1, None)" using b1(1) by (simp add: caught_def)
    moreover have "lk_derived_key l = lk_derived_key b0" "ln_id l = ln_id b0" "lk_dest l = lk_dest b0"
        "ln_mtu l = ln_mtu b0" "\<not> lk_initiator l"
      using kf b0(2) by (simp_all add: l_def out_def)
    ultimately show ?thesis using that b1 by simp
  qed
  have "link_receive v ifc q b = (b1, None)"
    using b b0(1,2) b1(1) q(1,2) unfolding link_receive_def b0_def [symmetric]
    by (simp add: rx_dispatch_def Let_def)
  with b1 b0 show ?thesis by auto
qed

end
