(* ===== verification/LinkProps.thy ===== *)
theory LinkProps
  imports LinkShake ResInv
begin

text \<open>
  Properties of links: the handshake, what an established link knows of its peer, closing a silent link,
  the size of a packet, and who a request is answered for.
\<close>

section \<open>The handshake\<close>

text \<open>
  C6: the handshake completes with one key on both ends. Between two daemons whose interfaces take every
  frame, whose random keys have 32 bytes and whose application does not act on the link in between (no
  requests, resources or data of its own), where the initiator knows the public keys of a SINGLE destination
  of a 16-byte address and offers an MTU of at least 118 bytes, its request, carried to the responder, is answered
  with a proof; the proof, carried back, makes the initiator's link active with the destination as its
  remote identity; and the round trip packet it sends then makes the responder's link active, under the
  same id and the same derived key. Every step succeeds without a fault.
\<close>

theorem handshake_completes:
  assumes "crypto_ok c" "daemon c vA" "daemon c vB" "daemon c vA'" "daemon c vB'"
    and "ident_ok c i" "known_as c i dst" "dn_ident owner = Some i" "118 \<le> unat (offered vA dst)"
  shows "\<exists>a p. link_new vA dst e cb MODE_AES256_CBC_LINK = (a, None) \<and> Sent p \<in> set (lk_out a) \<and>
    (\<forall>q. carried p q \<longrightarrow> (\<exists>b p1. validate_request vB owner (pk_data q) q (Some owner) ifb (\<lambda>_. None) = Inr (None, Some b) \<and>
       ln_status b = HANDSHAKE \<and> Sent p1 \<in> set (lk_out b) \<and>
    (\<forall>q1. carried p1 q1 \<longrightarrow> (\<exists>a1 p2. link_validate_proof vA' ifa q1 a = (a1, None) \<and>
       ln_status a1 = ACTIVE \<and> lk_remote a1 = dn_ident dst \<and> Sent p2 \<in> set (lk_out a1) \<and>
    (\<forall>q2. carried p2 q2 \<longrightarrow> (\<exists>b1. link_receive vB' ifb' q2 b = (b1, None) \<and>
       ln_status b1 = ACTIVE \<and> ln_id b1 = ln_id a1 \<and> lk_derived_key b1 = lk_derived_key a1))))))"
proof -
  note v = assms(2-5) [unfolded daemon_def]
  have m0: "offered vA dst \<noteq> 0" using assms(9) by auto
  have mB: "118 \<le> unat (settled vB (offered vA dst))" using assms(9) by (auto simp: settled_def MTU_def)
  have mB0: "settled vB (offered vA dst) \<noteq> 0" using mB by auto
  have mA: "118 \<le> unat (settled vA' (settled vB (offered vA dst)))" using mB by (auto simp: settled_def MTU_def)
  obtain a p where a: "link_new vA dst e cb MODE_AES256_CBC_LINK = (a, None)" "Sent p \<in> set (lk_out a)"
      "asks c vA dst a" "request_data c vA dst (pk_ciphertext p)" "link_id_from_lr_packet c p = Inr (ln_id a)"
      "pk_data p = pk_ciphertext p"
    using link_new_asks [OF assms(1,2,7)] by blast
  obtain sb where sb: "signalling_bytes (offered vA dst) MODE_AES256_CBC_LINK = Inr sb"
      "pk_ciphertext p = pr_x_base c (take 32 (lv_key vA)) @ pr_ed_base c (take 32 (lv_sig_key vA)) @ sb"
    using a(4) by (auto simp: request_data_def)
  have lens: "length (take 32 (lv_key vA)) = 32" "length (pr_ed_base c (take 32 (lv_sig_key vA))) = 32"
      "length (ln_id a) = 16"
    using v(1) assms(1) a(3) by (simp_all add: crypto_ok_def sig_ok_def asks_def)
  have second: "\<exists>b p1. validate_request vB owner (pk_data q) q (Some owner) ifb (\<lambda>_. None) = Inr (None, Some b) \<and>
       answers c vB (ln_id a) (pr_x_base c (take 32 (lv_key vA))) b \<and> Sent p1 \<in> set (lk_out b) \<and>
       proof_data c vB (ln_id a) (settled vB (offered vA dst)) i (pk_ciphertext p1)" if q: "carried p q" for q
  proof -
    have "link_id_from_lr_packet c q = Inr (ln_id a)"
      using link_id_cong [of q p] q a(5,6) by (simp add: carried_def)
    with validate_request_answers [OF assms(1,3,6,8), of q "take 32 (lv_key vA)" _ sb "offered vA dst" "ln_id a"
        "\<lambda>_. None" "Some owner" ifb] q sb lens m0 mB
    show ?thesis by (simp add: carried_def) blast
  qed
  have third: "\<exists>a1 p2. link_validate_proof vA' ifa q1 a = (a1, None) \<and> ln_status a1 = ACTIVE \<and> ln_id a1 = ln_id a \<and>
      lk_remote a1 = dn_ident dst \<and>
      (\<exists>s. x_exchange c (take 32 (lv_key vA)) (pr_x_base c (take 32 (lv_key vB))) = Inr s \<and>
         hkdf c 64 s (ln_id a) [] = Inr (lk_derived_key a1)) \<and>
      Sent p2 \<in> set (lk_out a1) \<and> pk_packet_type p2 = DATA \<and> pk_context p2 = LRRTT \<and>
      rtt_sealed c (lk_derived_key a1) (pk_ciphertext p2)"
    if "carried p1 q1" "proof_data c vB (ln_id a) (settled vB (offered vA dst)) i (pk_ciphertext p1)" for p1 q1
    using proof_activates [OF assms(1,4) a(3) assms(7,6) _ _ _ mB0 mA, where q = q1 and vB = vB] that v(1,2)
    by (simp add: carried_def)
  have fourth: "\<exists>b1. link_receive vB' ifb' q2 b = (b1, None) \<and> ln_status b1 = ACTIVE \<and> ln_id b1 = ln_id a1 \<and>
      lk_derived_key b1 = lk_derived_key a1"
    if b: "link_ok c b" "answers c vB (ln_id a) (pr_x_base c (take 32 (lv_key vA))) b"
      and q2: "carried p2 q2" "pk_packet_type p2 = DATA" "pk_context p2 = LRRTT"
        "rtt_sealed c (lk_derived_key a1) (pk_ciphertext p2)" "ln_id a1 = ln_id a"
      and a1: "x_exchange c (take 32 (lv_key vA)) (pr_x_base c (take 32 (lv_key vB))) = Inr s"
        "hkdf c 64 s (ln_id a) [] = Inr (lk_derived_key a1)" for b p2 q2 a1 s
  proof -
    obtain s' where s': "x_exchange c (take 32 (lv_key vB)) (pr_x_base c (take 32 (lv_key vA))) = Inr s'"
        "hkdf c 64 s' (ln_id a) [] = Inr (lk_derived_key b)"
      using b(2) by (auto simp: answers_def)
    have "s' = s"
      using exchange_ok [of c "take 32 (lv_key vA)" "take 32 (lv_key vB)"] a1(1) s'(1) assms(1) v(1,2)
      by (auto simp: crypto_ok_def)
    then have k: "lk_derived_key b = lk_derived_key a1" using s'(2) a1(2) by simp
    have "ln_id b = ln_id a1" using b(2) q2(5) by (simp add: answers_def)
    with rtt_activates [OF assms(1,5) b, of q2 ifb'] q2 k show ?thesis by (auto simp: carried_def)
  qed
  have ok: "link_ok c b" if "validate_request vB owner d q dst' ifb act = Inr (x, Some b)" for b d q dst' act x
    using validate_request_ok [OF that] v(2) by simp
  show ?thesis
  proof (rule exI [of _ a], rule exI [of _ p], intro conjI allI impI)
    fix q assume "carried p q"
    from second [OF this] obtain b p1 where
      b: "validate_request vB owner (pk_data q) q (Some owner) ifb (\<lambda>_. None) = Inr (None, Some b)"
        "answers c vB (ln_id a) (pr_x_base c (take 32 (lv_key vA))) b" "Sent p1 \<in> set (lk_out b)"
        "proof_data c vB (ln_id a) (settled vB (offered vA dst)) i (pk_ciphertext p1)" by blast
    show "\<exists>b p1. validate_request vB owner (pk_data q) q (Some owner) ifb (\<lambda>_. None) = Inr (None, Some b) \<and>
       ln_status b = HANDSHAKE \<and> Sent p1 \<in> set (lk_out b) \<and>
    (\<forall>q1. carried p1 q1 \<longrightarrow> (\<exists>a1 p2. link_validate_proof vA' ifa q1 a = (a1, None) \<and>
       ln_status a1 = ACTIVE \<and> lk_remote a1 = dn_ident dst \<and> Sent p2 \<in> set (lk_out a1) \<and>
    (\<forall>q2. carried p2 q2 \<longrightarrow> (\<exists>b1. link_receive vB' ifb' q2 b = (b1, None) \<and>
       ln_status b1 = ACTIVE \<and> ln_id b1 = ln_id a1 \<and> lk_derived_key b1 = lk_derived_key a1))))"
    proof (rule exI [of _ b], rule exI [of _ p1], intro conjI allI impI)
      show "ln_status b = HANDSHAKE" using b(2) by (simp add: answers_def)
      fix q1 assume "carried p1 q1"
      from third [OF this b(4)] obtain a1 p2 s where
        "link_validate_proof vA' ifa q1 a = (a1, None)" "ln_status a1 = ACTIVE" "ln_id a1 = ln_id a"
        "lk_remote a1 = dn_ident dst" "Sent p2 \<in> set (lk_out a1)" "pk_packet_type p2 = DATA" "pk_context p2 = LRRTT"
        "rtt_sealed c (lk_derived_key a1) (pk_ciphertext p2)"
        "x_exchange c (take 32 (lv_key vA)) (pr_x_base c (take 32 (lv_key vB))) = Inr s"
        "hkdf c 64 s (ln_id a) [] = Inr (lk_derived_key a1)" by blast
      then show "\<exists>a1 p2. link_validate_proof vA' ifa q1 a = (a1, None) \<and>
         ln_status a1 = ACTIVE \<and> lk_remote a1 = dn_ident dst \<and> Sent p2 \<in> set (lk_out a1) \<and>
      (\<forall>q2. carried p2 q2 \<longrightarrow> (\<exists>b1. link_receive vB' ifb' q2 b = (b1, None) \<and>
         ln_status b1 = ACTIVE \<and> ln_id b1 = ln_id a1 \<and> lk_derived_key b1 = lk_derived_key a1))"
        using fourth [OF ok [OF b(1)] b(2), of p2 _ a1 s] by blast
    qed (use b in simp_all)
  qed (use a in simp_all)
qed

text \<open>A concrete pair of daemons.\<close>

definition sample_daemon :: "u8 \<Rightarrow> lenv" where
  "sample_daemon k = \<lparr>lv_prims = toy_prims, lv_penv = sample_env, lv_renv = sample_renv, lv_now = 1,
     lv_random = \<lambda>_. replicate 16 0, lv_key = replicate 32 k, lv_sig_key = replicate 32 (k + 1),
     lv_discovery = False, lv_hw_mtu = \<lambda>_. 0, lv_repair_wait = \<lambda>_ _. 1, lv_owner_cb = False, lv_app = [],
     lv_double = \<lambda>_. 0, lv_undouble = \<lambda>_. Some 1, lv_generate = \<lambda>_ _ _ _ _ _. [], lv_app_accepts = \<lambda>_. False,
     lv_proof_cb = None, lv_srh = \<lambda>_. [], lv_rh = \<lambda>_. [], lv_depth = 4\<rparr>"

definition sample_peer :: destination where
  "sample_peer = (destination_object (Some (load_public_key toy_prims (get_public_key sample_owner) identity_object)))
     \<lparr>dn_hash := replicate 16 1\<rparr>"

definition arrived :: "packet \<Rightarrow> packet" where
  "arrived p = p\<lparr>pk_data := pk_ciphertext p\<rparr>"

lemma carried_arrived: "carried p (arrived p)"
  by (simp add: carried_def arrived_def hashable_part_def)

lemma sample_daemon_ok: "daemon toy_prims (sample_daemon k)" "crypto_ok toy_prims"
  using toy_laws by (simp_all add: daemon_def open_line_def sample_daemon_def sample_env_def crypto_ok_def)

lemma sample_peer_known: "known_as toy_prims sample_owner sample_peer" "118 \<le> unat (offered (sample_daemon k) d)"
  by (simp_all add: known_as_def sample_peer_def destination_object_def offered_def sample_daemon_def MTU_def)

lemma handshake_completes_witness:
  "\<exists>a p b p1 a1 p2 b1. link_new (sample_daemon 3) sample_peer False False MODE_AES256_CBC_LINK = (a, None) \<and>
     validate_request (sample_daemon 7) sample_hosted (pk_data (arrived p)) (arrived p) (Some sample_hosted) (Some 1)
       (\<lambda>_. None) = Inr (None, Some b) \<and>
     link_validate_proof (sample_daemon 3) (Some 2) (arrived p1) a = (a1, None) \<and>
     link_receive (sample_daemon 7) (Some 1) (arrived p2) b = (b1, None) \<and>
     ln_status a1 = ACTIVE \<and> ln_status b1 = ACTIVE \<and> lk_derived_key b1 = lk_derived_key a1"
  using handshake_completes [OF sample_daemon_ok(2) sample_daemon_ok(1) [of 3] sample_daemon_ok(1) [of 7]
      sample_daemon_ok(1) [of 3] sample_daemon_ok(1) [of 7] sample_owner_ok sample_peer_known(1)
      sample_hosted_ok(2) sample_peer_known(2), of False False "Some 1" "Some 2" "Some 1"] carried_arrived
  by meson

section \<open>What an established link knows\<close>

text \<open>
  C4: no link is up without its peer's word. In every state a link reaches, whatever arrives from the
  network and whatever the timers and the application do: an active or stale link has the key agreed with
  the peer's public key; its initiator has checked the destination's signature over the link id, that
  public key and the destination's signing key; its responder has opened a packet under the key; the
  keepalive interval is between 5 and 360 seconds and the stale time twice that; and a closed link
  stays closed.
\<close>

theorem link_sound:
  assumes "link_reach c l"
  shows "(ln_status l = ACTIVE \<or> ln_status l = STALE \<longrightarrow>
       (\<exists>k. lk_prv l = Some k \<and> x_exchange c k (lk_peer_pub_bytes l) = Inr (lk_shared_key l) \<and>
         hkdf c (if lk_mode l = MODE_AES128_CBC_LINK then 32 else 64) (lk_shared_key l) (ln_id l) [] =
           Inr (lk_derived_key l)) \<and>
       (if lk_initiator l then
          \<exists>dst i sig sb. lk_dest l = Some dst \<and> dn_ident dst = Some i \<and>
            ln_peer_sig_pub l = bmid_len 32 32 (get_public_key i) \<and>
            identity_validate c sig (ln_id l @ lk_peer_pub_bytes l @ ln_peer_sig_pub l @ sb) i = Inr True
        else \<exists>b. link_open c b l \<noteq> [])) \<and>
     5 \<le> unat (lk_keepalive l) \<and> unat (lk_keepalive l) \<le> 360 \<and> lk_stale_time l = lk_keepalive l * 2 \<and>
     (ln_status l = CLOSED \<longrightarrow> (\<forall>l'. link_step c l l' \<longrightarrow> ln_status l' = CLOSED))"
proof -
  note ok = link_reach_ok [OF assms]
  have "up l \<longrightarrow> keyed c l \<and> (if lk_initiator l then authentic c l else opened c l)" "intervals_ok l"
    using ok unfolding link_ok_def by auto
  then show ?thesis
    using link_step_closed
    unfolding up_def keyed_def key_length_def authentic_def proof_signed_def opened_def intervals_ok_def by blast
qed

text \<open>Both ends of a run, as states that are reached.\<close>

lemma sample_run:
  "\<exists>a b. link_reach toy_prims a \<and> ln_status a = ACTIVE \<and>
     link_reach toy_prims b \<and> ln_status b = ACTIVE \<and> \<not> lk_initiator b \<and> lk_dest b = dst \<and>
     ln_mtu b = MTU \<and> length (ln_id b) = 16"
proof -
  let ?vA = "sample_daemon 3" and ?vB = "sample_daemon 7"
  note ok = sample_daemon_ok
  have tb: "pr_x_base toy_prims = id" "pr_ed_base toy_prims = id" by (simp_all add: toy_prims_def)
  have prims: "lv_prims (sample_daemon k) = toy_prims" for k by (simp add: sample_daemon_def)
  have off: "offered ?vA sample_peer = MTU" "settled ?vB MTU = MTU" "settled ?vA MTU = MTU"
    by (simp_all add: offered_def settled_def sample_daemon_def)
  obtain a p where a: "link_new ?vA sample_peer False False MODE_AES256_CBC_LINK = (a, None)"
      "asks toy_prims ?vA sample_peer a" "request_data toy_prims ?vA sample_peer (pk_ciphertext p)"
      "link_id_from_lr_packet toy_prims p = Inr (ln_id a)" "pk_data p = pk_ciphertext p"
    using link_new_asks [OF ok(2) ok(1) [of 3] sample_peer_known(1)] by blast
  obtain sb where sb: "signalling_bytes MTU MODE_AES256_CBC_LINK = Inr sb"
      "pk_ciphertext p = pr_x_base toy_prims (replicate 32 3) @ pr_ed_base toy_prims (replicate 32 4) @ sb"
    using a(3) off by (auto simp: request_data_def sample_daemon_def)
  let ?q = "arrived p"
  have "link_id_from_lr_packet toy_prims ?q = Inr (ln_id a)"
    using link_id_cong [of ?q p] a(4,5) by (simp add: arrived_def hashable_part_def)
  then obtain b p1 where b: "validate_request ?vB sample_hosted (pk_data ?q) ?q dst None (\<lambda>_. None) = Inr (None, Some b)"
      "answers toy_prims ?vB (ln_id a) (pr_x_base toy_prims (replicate 32 3)) b" "lk_dest b = dst" "ln_mtu b = MTU"
      "proof_data toy_prims ?vB (ln_id a) MTU sample_owner (pk_ciphertext (p1 :: packet))"
    using validate_request_answers [OF ok(2) ok(1) [of 7] sample_owner_ok sample_hosted_ok(2), of ?q
        "replicate 32 3" _ sb MTU "ln_id a" "\<lambda>_. None" dst None] sb a(2) off
    by (auto simp: arrived_def asks_def tb MTU_def)
  obtain a1 p2 where a1: "link_validate_proof ?vA None (arrived p1) a = (a1, None)" "ln_status a1 = ACTIVE"
      "\<exists>s. x_exchange toy_prims (replicate 32 3) (pr_x_base toy_prims (replicate 32 7)) = Inr s \<and>
         hkdf toy_prims 64 s (ln_id a) [] = Inr (lk_derived_key a1)"
      "pk_packet_type p2 = DATA" "pk_context p2 = LRRTT" "rtt_sealed toy_prims (lk_derived_key a1) (pk_ciphertext (p2 :: packet))"
    using proof_activates [OF ok(2) ok(1) [of 3] a(2) sample_peer_known(1) sample_owner_ok, where q = "arrived p1"
        and vB = ?vB and m = MTU and ifc = None] b(5) off
    by (auto simp: arrived_def sample_daemon_def MTU_def)
  have "lk_derived_key b = lk_derived_key a1"
    using b(2) a1(3) exchange_ok [OF toy_laws(3), of "replicate 32 3" "replicate 32 7"]
    by (auto simp: answers_def sample_daemon_def)
  then obtain b1 where b1: "link_receive ?vB None (arrived p2) b = (b1, None)" "ln_status b1 = ACTIVE" "ln_id b1 = ln_id b"
      "lk_dest b1 = lk_dest b" "ln_mtu b1 = ln_mtu b" "\<not> lk_initiator b1"
    using rtt_activates [OF ok(2) ok(1) [of 7] _ b(2), of "arrived p2" None] validate_request_ok [OF b(1)] a1(4-6) prims
    by (auto simp: arrived_def)
  have ra: "link_reach toy_prims a1"
    by (rule link_reach.Step [OF link_reach.Asked [OF prims a(1)] link_step.Proof_arrived [OF prims a1(1)]]) simp
  have rb: "link_reach toy_prims b1"
    by (rule link_reach.Step [OF link_reach.Accepted [OF prims b(1)] link_step.Received [OF prims b1(1)]])
  have "length (ln_id b1) = 16" using a(2) b(2) b1(3) by (simp add: asks_def answers_def)
  with ra rb a1(2) b1 b(3,4) show ?thesis by (intro exI [of _ a1] exI [of _ b1]) simp
qed

lemma link_sound_witness:
  "\<exists>l k. link_reach toy_prims l \<and> ln_status l = ACTIVE \<and> lk_prv l = Some k \<and>
     x_exchange toy_prims k (lk_peer_pub_bytes l) = Inr (lk_shared_key l)"
proof -
  obtain a where a: "link_reach toy_prims a" "ln_status a = ACTIVE" using sample_run by blast
  with link_sound [OF a(1)] show ?thesis by blast
qed

section \<open>A silent link\<close>

lemma transmit_keepalive:
  assumes "open_line v" "ln_status l \<noteq> CLOSED" "4 + length (ln_id l) \<le> unat (ln_mtu l)"
  shows "\<exists>p r l'. transmit v [b] DATA KEEPALIVE l = (out (Sent p) l', Inr (p, r))"
proof -
  let ?p = "(link_packet l [b] DATA KEEPALIVE)\<lparr>pk_dlink := Some (link_sent (lv_now v) (length [b]) (view l))\<rparr>"
  obtain q where q: "pack (link_penv v l) ?p = (q, None)"
    using pack_finish_fits [of "?p\<lparr>pk_dest_hash := ln_id l, pk_encrypted := False,
        pk_header := [pk_flags ?p, 0] @ ln_id l, pk_ciphertext := [b]\<rparr>" "link_penv v l"] assms(3)
    by (auto simp: pack_def link_packet_def packet_object_def link_sent_def plain_payload_def Let_def)
  have "length [b] \<le> MDU" by (simp add: const_values)
  from transmit_eq [OF link_packet_built [OF this] link_packet_sent [OF assms(1,2) q]] show ?thesis by blast
qed

lemma keepalive_now_runs:
  assumes "open_line v" "ln_status l \<noteq> CLOSED" "4 + length (ln_id l) \<le> unat (ln_mtu l)"
  shows "\<exists>l1. keepalive_now v l = (l1\<lparr>lk_last_keepalive := lv_now v\<rparr>, None) \<and> sent_from l l1"
proof -
  obtain p r l' where "transmit v [0xff] DATA KEEPALIVE l = (out (Sent p) l', Inr (p, r))"
    using transmit_keepalive [OF assms] by blast
  then have e: "emit_packet v [0xff] DATA KEEPALIVE True l = (had_outbound v True (out (Sent p) l'), None)"
    by (simp add: emit_packet_def)
  then have "sent_from l (had_outbound v True (out (Sent p) l'))"
    using emit_packet_sent [of l v "[0xff]" DATA KEEPALIVE True] by simp
  with e show ?thesis by (auto simp: keepalive_now_def send_keepalive_def lthen_def)
qed

text \<open>
  C15: a silent link is closed. An active link from which nothing was heard for its stale time goes stale
  at the watchdog's next run, with one more keepalive from its initiator; it stays stale until four round
  trips and five seconds later, and is closed at the first run after that, for the reason of a timeout and
  with its private, shared and derived keys cleared (the link's token object, which holds both halves of
  the derived key, is left by the code). The interfaces take what the link sends, and its MTU has room for the four
  bytes beside the link id that a keepalive adds.
\<close>

theorem silent_link_closes:
  assumes "link_reach c l" "ln_status l = ACTIVE" and "open_line v" "4 + length (ln_id l) \<le> unat (ln_mtu l)"
    "last_heard l + of_nat (unat (lk_stale_time l)) \<le> lv_now v"
  shows "\<exists>s. link_watchdog v l = (s, None) \<and> ln_status s = STALE \<and>
     (\<forall>w. if lv_now w < lv_now v + 4 * ln_rtt l + 5 then link_watchdog w s = (s, None)
          else \<exists>d. link_watchdog w s = (d, None) \<and> ln_status d = CLOSED \<and> lk_reason d = TIMEOUT \<and>
            lk_prv d = None \<and> lk_shared_key d = [] \<and> lk_derived_key d = [])"
proof -
  have i: "intervals_ok l" using link_reach_ok [OF assms(1)] by simp
  then have "unat (lk_stale_time l) = 2 * unat (lk_keepalive l)"
    by (simp add: intervals_ok_def unat_word_ariths)
  then have "of_nat (unat (lk_stale_time l)) = 2 * (of_nat (unat (lk_keepalive l)) :: secs)" by simp
  then have due: "last_heard l + of_nat (unat (lk_keepalive l)) \<le> lv_now v"
    using assms(5) of_nat_0_le_iff [of "unat (lk_keepalive l)", where 'a = secs] by linarith
  define kept where "kept m \<longleftrightarrow> ln_status m = ACTIVE \<and> lk_stale_time m = lk_stale_time l \<and> lk_keepalive m = lk_keepalive l \<and>
      ln_rtt m = ln_rtt l \<and>
      lk_initiator m = lk_initiator l \<and> ln_id m = ln_id l \<and> ln_mtu m = ln_mtu l" for m :: link
  have keep: "\<exists>m'. keepalive_now v m = (m', None) \<and> kept m'" if "kept m" for m
  proof -
    note km = that [unfolded kept_def]
    have "ln_status m \<noteq> CLOSED" "4 + length (ln_id m) \<le> unat (ln_mtu m)" using km assms(4) by simp_all
    from keepalive_now_runs [OF assms(3) this] obtain l1 where
      l1: "keepalive_now v m = (l1\<lparr>lk_last_keepalive := lv_now v\<rparr>, None)" "sent_from m l1" by blast
    then show ?thesis using km sent_from_fields [OF l1(2)] by (auto simp: kept_def)
  qed
  define sent where "sent = keepalive_due (lv_now v) l"
  obtain m where m: "(if sent then keepalive_now v l else (l, None)) = (m, None)" "kept m"
    using keep [of l] assms(2) by (cases sent) (auto simp: kept_def)
  obtain m2 where m2: "(if lk_initiator m \<and> \<not> sent then keepalive_now v m else (m, None)) = (m2, None)" "kept m2"
    using keep [OF m(2)] m(2) by (cases "lk_initiator m \<and> \<not> sent") auto
  have "link_watchdog v l = (go_stale v m2, None)"
    using assms(2,5) due m m2 unfolding link_watchdog_def sent_def [symmetric]
    by (simp add: lthen_def Let_def kept_def)
  moreover have "ln_status (go_stale v m2) = STALE" "lk_stale_deadline (go_stale v m2) = lv_now v + 4 * ln_rtt l + 5"
    using m2(2) by (simp_all add: go_stale_def kept_def KEEPALIVE_TIMEOUT_FACTOR_def STALE_GRACE_def)
  moreover have "intervals_ok (go_stale v m2)"
    using i m2(2) by (simp add: intervals_ok_def go_stale_def kept_def)
  ultimately show ?thesis
    using close_for_ok [of "go_stale v m2"]
    by (intro exI [of _ "go_stale v m2"]) (auto simp: link_watchdog_def)
qed

lemma silent_link_closes_witness:
  "\<exists>l s d v w. link_reach toy_prims l \<and> link_watchdog v l = (s, None) \<and> ln_status s = STALE \<and>
     link_watchdog w s = (d, None) \<and> ln_status d = CLOSED \<and> lk_reason d = TIMEOUT \<and> lk_derived_key d = []"
proof -
  obtain l where l: "link_reach toy_prims l" "ln_status l = ACTIVE" "ln_mtu l = MTU" "length (ln_id l) = 16"
    using sample_run [of None] by blast
  let ?v = "(sample_daemon 3)\<lparr>lv_now := last_heard l + of_nat (unat (lk_stale_time l))\<rparr>"
  have "open_line ?v" by (simp add: open_line_def sample_daemon_def sample_env_def)
  moreover have "4 + length (ln_id l) \<le> unat (ln_mtu l)" using l(3,4) by (simp add: MTU_def)
  ultimately obtain s where s: "link_watchdog ?v l = (s, None)" "ln_status s = STALE"
    and w: "\<And>w. if lv_now w < lv_now ?v + 4 * ln_rtt l + 5 then link_watchdog w s = (s, None)
          else \<exists>d. link_watchdog w s = (d, None) \<and> ln_status d = CLOSED \<and> lk_reason d = TIMEOUT \<and>
            lk_prv d = None \<and> lk_shared_key d = [] \<and> lk_derived_key d = []"
    using silent_link_closes [OF l(1,2), of ?v] by auto
  from w [of "?v\<lparr>lv_now := lv_now ?v + 4 * ln_rtt l + 5\<rparr>"] l(1) s show ?thesis by auto
qed

section \<open>The size of a packet\<close>

text \<open>
  C31: the link's MDU is exact. Wherever \<open>update_mdu\<close> computes one, a plaintext sealed under the link's
  key fits a packet of the link's MTU, with its header and the smallest interface access code, if and
  only if it has at most MDU bytes; and an MTU below 84 has no MDU: the computation is undefined there.
\<close>

theorem link_mdu_exact:
  assumes "token_ok c t" "length iv = 16" "link_token l = Inr t" "link_encrypt c iv p l = Inr tok"
  shows "if unat (ln_mtu l) < 84 then update_mdu l = (l, Some Undefined)
    else \<exists>w. update_mdu l = (l\<lparr>ln_mdu := w\<rparr>, None) \<and>
      (HEADER_MINSIZE + length tok + IFAC_MIN_SIZE \<le> unat (ln_mtu l) \<longleftrightarrow> length p \<le> unat w)"
proof -
  define x where "x = int (unat (ln_mtu l)) - 68"
  define q where "q = (if x < 0 then - ((- x) div 16) else x div 16)"
  have x: "int (unat (ln_mtu l)) - int (IFAC_MIN_SIZE + HEADER_MINSIZE + TOKEN_OVERHEAD) = x"
    by (simp add: x_def const_values IFAC_MIN_SIZE_def TOKEN_OVERHEAD_def)
  have u: "update_mdu l = (if q * 16 - 1 < 0 then (l, Some Undefined) else (l\<lparr>ln_mdu := of_int (q * 16 - 1)\<rparr>, None))"
    by (simp only: update_mdu_def x Let_def AES128_BLOCKSIZE_def of_nat_numeral q_def)
  show ?thesis
  proof (cases "unat (ln_mtu l) < 84")
    case True
    then have "x < 16" unfolding x_def by linarith
    moreover have "0 \<le> (- x) div 16" if "x < 0" using that by (intro pos_imp_zdiv_nonneg_iff [THEN iffD2]) simp_all
    ultimately have "q \<le> 0" by (cases "x < 0") (auto simp: q_def)
    then have "q * 16 - 1 < 0" by linarith
    with True u show ?thesis by simp
  next
    case False
    define n where "n = (unat (ln_mtu l) - 68) div 16"
    have x0: "x = int (unat (ln_mtu l) - 68)" unfolding x_def using False by linarith
    have n: "int n = q" by (simp add: n_def q_def x0 zdiv_int)
    have n1: "1 \<le> n" using False div_le_mono [of 16 "unat (ln_mtu l) - 68" 16] by (simp add: n_def)
    have "unat (ln_mtu l) < 65536" using unsigned_less [of "ln_mtu l", where 'a = nat] by simp
    moreover have "16 * n \<le> unat (ln_mtu l) - 68" unfolding n_def by simp
    ultimately have small: "16 * n - 1 < 65536" by linarith
    have k: "int (16 * n - 1) = q * 16 - 1" using n n1 by (simp add: of_nat_diff)
    have "(of_int (q * 16 - 1) :: u16) = of_nat (16 * n - 1)" unfolding k [symmetric] by simp
    then have w: "unat (of_int (q * 16 - 1) :: u16) = 16 * n - 1" using small by (simp only: unat_of_nat) simp
    have enc: "token_encrypt c iv p t = Inr tok" using assms(3,4) by (simp add: link_encrypt_def)
    have len: "length tok = TOKEN_OVERHEAD + (length p div 16 + 1) * 16" by (rule tok.size_eq [OF assms(1,2) enc])
    have "HEADER_MINSIZE + length tok + IFAC_MIN_SIZE \<le> unat (ln_mtu l) \<longleftrightarrow>
        (length p div 16 + 1) * 16 \<le> unat (ln_mtu l) - 68"
      using False by (simp add: len const_values IFAC_MIN_SIZE_def TOKEN_OVERHEAD_def) linarith
    also have "\<dots> \<longleftrightarrow> length p div 16 + 1 \<le> n"
      unfolding n_def by (rule less_eq_div_iff_mult_less_eq [symmetric]) simp
    also have "\<dots> \<longleftrightarrow> length p div 16 < n" by linarith
    also have "\<dots> \<longleftrightarrow> length p < n * 16" by (rule div_less_iff_less_mult) simp
    also have "\<dots> \<longleftrightarrow> length p \<le> 16 * n - 1" using n1 by linarith
    finally show ?thesis using False u w n n1 by auto
  qed
qed

lemma link_mdu_exact_witness:
  "\<exists>l tok w. link_encrypt toy_prims (replicate 16 9) [1, 2, 3] l = Inr tok \<and> update_mdu l = (l\<lparr>ln_mdu := w\<rparr>, None) \<and>
     HEADER_MINSIZE + length tok + IFAC_MIN_SIZE \<le> unat (ln_mtu l)"
proof -
  let ?l = "(link_object None None)\<lparr>lk_token := Some sample_token\<rparr>"
  have t: "link_token ?l = Inr sample_token" by (simp add: link_token_def)
  obtain tok where tok: "token_encrypt toy_prims (replicate 16 9) [1, 2, 3] sample_token = Inr tok"
      "length tok = TOKEN_OVERHEAD + 16"
    using tok.sealed [OF sample_token_ok, of "replicate 16 9" "[1, 2, 3]"] by auto
  have e: "link_encrypt toy_prims (replicate 16 9) [1, 2, 3] ?l = Inr tok" using t tok by (simp add: link_encrypt_def)
  have m: "unat (ln_mtu ?l) = 500" by (simp add: link_object_def MTU_def)
  from link_mdu_exact [OF sample_token_ok _ t e] e m tok(2) show ?thesis
    by (intro exI [of _ ?l] exI [of _ tok]) (auto simp: const_values IFAC_MIN_SIZE_def TOKEN_OVERHEAD_def)
qed

section \<open>Who is answered\<close>

lemma handle_request_out:
  assumes "handle_request v rid rq l = (l', x)" "lk_out l' \<noteq> lk_out l"
  obtains dst h where "ln_status l = ACTIVE" "lk_dest l = Some dst" "find_request_handler (fst (snd rq)) dst = Some h"
    "request_allowed h (lk_remote l)"
  using assms by (auto simp: handle_request_def split: prod.splits if_splits option.splits)

text \<open>
  C8: a restricted request is answered to its listed peer only. In every state a responder's link
  reaches, a request that makes it send anything found the link active and a handler for its path, and
  the handler is open to all, or the identity the peer has proven is on its list: the peer signed
  this link's id with the key that the listed hash is the hash of.
\<close>

theorem request_authorised:
  assumes "link_reach c l" "\<not> lk_initiator l" "handle_request v rid rq l = (l', x)" "lk_out l' \<noteq> lk_out l"
  shows "ln_status l = ACTIVE \<and> (\<exists>dst h. lk_dest l = Some dst \<and>
     find_request_handler (fst (snd rq)) dst = Some h \<and>
     (rh_allow h = ALLOW_ALL \<or> rh_allow h = ALLOW_LIST \<and>
       (\<exists>i sig. lk_remote l = Some i \<and> truncated_hash c (get_public_key i) \<in> set (rh_allowed h) \<and>
          identity_validate c sig (ln_id l @ get_public_key i) i = Inr True)))"
proof -
  obtain dst h where h: "ln_status l = ACTIVE" "lk_dest l = Some dst" "find_request_handler (fst (snd rq)) dst = Some h"
      "request_allowed h (lk_remote l)"
    by (rule handle_request_out [OF assms(3,4)])
  have r: "remote_ok c l" using link_reach_ok [OF assms(1)] h(1) by (simp add: link_ok_def)
  have "rh_allow h = ALLOW_ALL \<or> rh_allow h = ALLOW_LIST \<and> (\<exists>i. lk_remote l = Some i \<and> iy_hash i \<in> set (rh_allowed h))"
    using h(4) by (auto simp: request_allowed_def split: if_splits option.splits)
  with h r assms(2) show ?thesis unfolding remote_ok_def by fastforce
qed

definition sample_served :: destination where
  "sample_served = projr (register_request_handler toy_prims [47] True ALLOW_ALL [] sample_hosted)"

lemma transmit_out: "transmit v b pt ctx l = (l', Inr (p, r)) \<Longrightarrow> lk_out l' = lk_out l @ [Sent p]"
proof -
  assume "transmit v b pt ctx l = (l', Inr (p, r))"
  then have "l' = out (Sent p) (after_send p l)"
    by (auto simp: transmit_def split: sum.splits prod.splits)
  moreover have "lk_out (after_send q l) = lk_out l" for q
    by (simp add: after_send_def keep_token_def counted_def Let_def split: option.split sum.split)
  ultimately show ?thesis by (simp add: out_def)
qed

lemma request_authorised_witness:
  "\<exists>l l' x dst h. link_reach toy_prims l \<and> handle_request ((sample_daemon 7)\<lparr>lv_generate := \<lambda>_ _ _ _ _ _. [0xc0]\<rparr>) []
       (0, truncated_hash toy_prims [47], []) l = (l', x) \<and> lk_out l' \<noteq> lk_out l \<and>
     lk_dest l = Some dst \<and> find_request_handler (truncated_hash toy_prims [47]) dst = Some h \<and> rh_allow h = ALLOW_ALL"
proof -
  let ?v = "(sample_daemon 7)\<lparr>lv_generate := \<lambda>_ _ _ _ _ _. [0xc0]\<rparr>"
  obtain l where l: "link_reach toy_prims l" "ln_status l = ACTIVE" "\<not> lk_initiator l" "lk_dest l = Some sample_served"
      "ln_mtu l = MTU" "length (ln_id l) = 16"
    using sample_run [of "Some sample_served"] by blast
  note ok = link_reach_ok [OF l(1)]
  have "opened toy_prims l" using ok l(2,3) by (simp add: link_ok_def up_def)
  then obtain t where t: "link_token l = Inr t"
    by (cases "link_token l") (auto simp: opened_def link_open_def)
  then have t': "token_new (lk_derived_key l) MODE_AES = Inr t"
    using ok l(2) by (cases "lk_token l") (auto simp: link_token_def link_ok_def)
  define b :: bytes where "b = pack_array_header 2 @ pack_bin [] @ [0xc0]"
  have b: "length b = 4" by (simp add: b_def pack_array_header_def length_pack_bin)
  have v: "lv_prims ?v = toy_prims" "open_line ?v" "lv_random ?v n = replicate 16 0" for n
    by (simp_all add: sample_daemon_def open_line_def sample_env_def)
  obtain q where q: "token_encrypt toy_prims (replicate 16 0) b t = Inr q" "length q = 64"
    using sealed_under [OF sample_daemon_ok(2) t', of "replicate 16 0" b] b by auto
  have "link_encrypt (lv_prims ?v) (lv_random ?v (length (lk_out l))) b l = Inr q"
    using q t v by (simp add: link_encrypt_def)
  from transmit_data [OF v(2) _ _ this, of CTX_RESPONSE] obtain p r l1 where
    tr: "transmit ?v b DATA CTX_RESPONSE l = (l1, Inr (p, r))"
    using l(2,5,6) b q(2) by (auto simp: const_values MTU_def)
  define h where "h = \<lparr>rh_path = [47], rh_allow = ALLOW_ALL, rh_allowed = []\<rparr>"
  have h: "find_request_handler (truncated_hash toy_prims [47]) sample_served = Some h"
    by (simp add: sample_served_def register_request_handler_def find_request_handler_def h_def)
  have "handle_request ?v [] (0, truncated_hash toy_prims [47], []) l = (l1, None)"
    using l(2,4) h tr b
    by (simp add: handle_request_def request_allowed_def h_def send_response_def b_def const_values Let_def)
  moreover have "lk_out l1 \<noteq> lk_out l" using transmit_out [OF tr] by simp
  moreover note request_authorised [OF l(1,3) calculation]
  ultimately show ?thesis using l(1,4) h by (auto simp: h_def)
qed

end
