(* ===== verification/Iface.thy ===== *)
theory Iface
  imports Destination
begin

text \<open>
  Interfaces (\<open>Interface.h\<close>, \<open>Interface.cpp\<close>) and what the transport does with a frame between an
  interface and its packet: access codes on transmit and on receipt, and the route trailer of an
  announce (\<open>Transport.cpp\<close>). An \<open>Interface\<close> is a handle on a shared object; the handle is a number
  here, the record the object. The name is what \<open>toString\<close> gives, the hash what \<open>get_hash\<close> does.

  The daemon never runs behind a shared instance and has no local clients: nothing in the repository
  sets an interface's parent or fills \<open>_local_client_interfaces\<close>, and the branches for them are left out
  of this and the following theories.
\<close>

section \<open>State\<close>

datatype if_mode = MODE_NONE | MODE_FULL | MODE_POINT_TO_POINT | MODE_ACCESS_POINT | MODE_ROAMING
  | MODE_BOUNDARY | MODE_GATEWAY

text \<open>An announce held back by the interface's announce cap.\<close>

record queued =
  qd_dest :: bytes
  qd_time :: secs
  qd_hops :: u8
  qd_emitted :: u64
  qd_raw :: bytes

record iface =
  if_name :: bytes
  if_hash :: bytes
  if_out :: bool
  if_radius :: u8
  if_mode :: if_mode
  if_bitrate :: u32
  if_hw_mtu :: u16
  if_autoconfigure :: bool
  if_fixed :: bool
  if_allowed_at :: secs
  if_cap :: secs
  if_rate_target :: u32
  if_rate_grace :: u8
  if_rate_penalty :: u32
  if_p2p :: bool
  if_spread :: u8
  if_queue :: "queued list"
  if_rssi :: "secs option"
  if_snr :: "secs option"
  if_snr_typical :: "secs option"
  if_ifac_identity :: bytes
  if_ifac_key :: bytes
  if_ifac_size :: u16
  if_ifac_signature :: bytes
  if_ifac_obj :: identity

definition ANNOUNCE_RATE_TARGET :: u32 where "ANNOUNCE_RATE_TARGET = 15 * 60"
definition ANNOUNCE_RATE_GRACE :: u8 where "ANNOUNCE_RATE_GRACE = 5"
definition ANNOUNCE_RATE_PENALTY :: u32 where "ANNOUNCE_RATE_PENALTY = 0"
definition QUEUED_ANNOUNCE_LIFE :: secs where "QUEUED_ANNOUNCE_LIFE = 60 * 60 * 3"

definition interface_object :: "bytes \<Rightarrow> bytes \<Rightarrow> iface" where
  "interface_object name h = \<lparr>if_name = name, if_hash = h, if_out = False, if_radius = 0, if_mode = MODE_NONE,
     if_bitrate = 0, if_hw_mtu = 0, if_autoconfigure = False, if_fixed = False, if_allowed_at = 0,
     if_cap = 0, if_rate_target = ANNOUNCE_RATE_TARGET, if_rate_grace = ANNOUNCE_RATE_GRACE,
     if_rate_penalty = ANNOUNCE_RATE_PENALTY, if_p2p = False, if_spread = 0, if_queue = [], if_rssi = None,
     if_snr = None, if_snr_typical = None, if_ifac_identity = [], if_ifac_key = [], if_ifac_size = 0,
     if_ifac_signature = [], if_ifac_obj = identity_object\<rparr>"

text \<open>\<open>Bytes::operator[]\<close> checks its index.\<close>

definition byte_of :: "bytes \<Rightarrow> nat \<Rightarrow> u8 res" where
  "byte_of b i = (if i < length b then Inr (b ! i) else Inl Out_of_range)"

lemma byte_of_in [simp]: "i < length b \<Longrightarrow> byte_of b i = Inr (b ! i)"
  by (simp add: byte_of_def)

lemma byte_of_Cons [simp]: "byte_of (x # b) 0 = Inr x" "byte_of (x # b) (Suc i) = byte_of b i"
  by (simp_all add: byte_of_def)

section \<open>Access codes\<close>

definition ifac_salt :: bytes where
  "ifac_salt = [0xad, 0xf5, 0x4d, 0x88, 0x2c, 0x9a, 0x9b, 0x80, 0x77, 0x1e, 0xb4, 0x99, 0x5d, 0x70, 0x2d, 0x4a,
     0x3e, 0x73, 0x33, 0x91, 0xb2, 0xa0, 0xf5, 0x3f, 0x41, 0x6d, 0x9f, 0x90, 0x7e, 0x55, 0xcf, 0xf8]"

text \<open>\<open>derive_ifac\<close>: the network's key from its name and passphrase, installed on the interface.\<close>

definition derive_ifac :: "prims \<Rightarrow> bytes \<Rightarrow> bytes \<Rightarrow> u16 \<Rightarrow> iface \<Rightarrow> iface \<times> fault option" where
  "derive_ifac c network_name passphrase ifac_size f =
    (if network_name = [] \<and> passphrase = [] then (f, None)
     else
       let ifac_size = (if ifac_size < 1 then of_nat IFAC_MIN_SIZE else ifac_size);
           ifac_size = (if ifac_size > 64 then 64 else ifac_size);
           origin = (if network_name \<noteq> [] then full_hash c network_name else [])
                  @ (if passphrase \<noteq> [] then full_hash c passphrase else [])
       in case hkdf c 64 (full_hash c origin) ifac_salt [] of
            Inl x \<Rightarrow> (f, Some x)
          | Inr key \<Rightarrow>
              (case load_private_key c [] [] key identity_object of
                 (i, False) \<Rightarrow> (f, None)
               | (i, True) \<Rightarrow>
                   let f = f\<lparr>if_ifac_size := ifac_size, if_ifac_key := key, if_ifac_identity := key,
                             if_ifac_obj := i\<rparr>
                   in (case identity_sign c (full_hash c key) i of
                         Inl x \<Rightarrow> (f, Some x)
                       | Inr sig \<Rightarrow> (f\<lparr>if_ifac_signature := sig\<rparr>, None))))"

text \<open>The mask covers every byte but the access code, which follows the first two.\<close>

definition mask_out :: "nat \<Rightarrow> bytes \<Rightarrow> bytes \<Rightarrow> bytes" where
  "mask_out n msk b = map (\<lambda>i.
     if i = 0 then (b ! i XOR msk ! i) OR 0x80
     else if i = 1 \<or> i > n + 1 then b ! i XOR msk ! i else b ! i) [0..<length b]"

definition mask_in :: "nat \<Rightarrow> bytes \<Rightarrow> bytes \<Rightarrow> bytes" where
  "mask_in n msk b = map (\<lambda>i. if i \<le> 1 \<or> i > n + 1 then b ! i XOR msk ! i else b ! i) [0..<length b]"

text \<open>
  What \<open>transmit\<close> hands to an interface for a frame. The signature's access code may be shorter than
  the size configured only if the signature is; a mask too short would be an index out of bounds.
\<close>

definition ifac_wrap :: "prims \<Rightarrow> iface \<Rightarrow> bytes \<Rightarrow> bytes res" where
  "ifac_wrap c f raw =
    (if if_ifac_identity f \<noteq> [] then
       let n = unat (if_ifac_size f) in
       rbind (identity_sign c raw (if_ifac_obj f)) (\<lambda>sig.
       let ifac = bright n sig in
       rbind (hkdf c (length raw + n) ifac (if_ifac_key f) []) (\<lambda>msk.
       rbind (byte_of raw 0) (\<lambda>b0. rbind (byte_of raw 1) (\<lambda>b1.
       let new_raw = [b0 OR 0x80, b1] @ ifac @ bmid 2 raw in
       if length msk < length new_raw then Inl Out_of_range else Inr (mask_out n msk new_raw)))))
     else Inr raw)"

text \<open>
  The first part of \<open>inbound\<close>: the frame an interface passes on, \<open>None\<close> where it is dropped. A throw
  leaves \<open>inbound\<close>. \<open>f\<close> is \<open>None\<close> for a frame with no interface behind it.
\<close>

definition ifac_unwrap :: "prims \<Rightarrow> iface option \<Rightarrow> bytes \<Rightarrow> bytes option res" where
  "ifac_unwrap c fo raw =
    (if length raw > 2 then
       (case fo of
          Some f \<Rightarrow>
            if if_ifac_identity f \<noteq> [] then
              (if raw ! 0 AND 0x80 = 0x80 then
                 let n = unat (if_ifac_size f) in
                 if length raw > 2 + n then
                   let ifac = bmid_len 2 n raw in
                   rbind (hkdf c (length raw) ifac (if_ifac_key f) []) (\<lambda>msk.
                   if length msk < length raw then Inl Out_of_range
                   else
                     let unmasked = mask_in n msk raw;
                         new_raw = [unmasked ! 0 AND 0x7f, unmasked ! 1] @ bmid (2 + n) unmasked
                     in rbind (identity_sign c new_raw (if_ifac_obj f)) (\<lambda>sig.
                          Inr (if ifac = bright n sig then Some new_raw else None)))
                 else Inr None
               else Inr None)
            else Inr (if raw ! 0 AND 0x80 = 0x80 then None else Some raw)
        | None \<Rightarrow> Inr (if raw ! 0 AND 0x80 = 0x80 then None else Some raw))
     else Inr None)"

section \<open>Route trailers\<close>

abbreviation (input) "ROUTE_CONTEXT \<equiv> 0xC1 :: u8"
abbreviation (input) "ROUTE_CONTEXT_REPLY \<equiv> 0xC2 :: u8"

definition least_announce :: nat where
  "least_announce = IDENT_KEYSIZE div 8 + NAME_HASH_LENGTH div 8 + RANDOM_HASH_LENGTH div 8 + SIGLENGTH div 8"

text \<open>The frame without its trailer, and the trailer; both tests of the flag byte are on its bits.\<close>

definition route_trailer_strip :: "bytes \<Rightarrow> bytes \<times> bytes" where
  "route_trailer_strip raw =
    (let n = length raw in
     if n < 2 \<or> raw ! 0 AND 0x80 \<noteq> 0 \<or> raw ! 0 AND 0x03 \<noteq> packet_code ANNOUNCE then (raw, [])
     else
       let pos = (if raw ! 0 AND 0x40 \<noteq> 0 then 34 else 18) in
       if n \<le> pos then (raw, [])
       else
         (case (if raw ! pos = ROUTE_CONTEXT then Some CONTEXT_NONE
                else if raw ! pos = ROUTE_CONTEXT_REPLY then Some PATH_RESPONSE else None) of
            None \<Rightarrow> (raw, [])
          | Some ctx \<Rightarrow>
              let tail = unat (raw ! (n - 1)) + 1 in
              if tail < 2 \<or> n < pos + 1 + least_announce + tail then (raw, [])
              else ((bleft (n - tail) raw)[pos := ctx], bright tail raw)))"

section \<open>The announce queue of an interface\<close>

text \<open>The time an announce of this size takes out of the interface's announce bandwidth.\<close>

definition cap_wait :: "iface \<Rightarrow> nat \<Rightarrow> secs" where
  "cap_wait f n =
    (if if_bitrate f > 0 \<and> if_cap f > 0
     then (of_nat (n * 8) / of_nat (unat (if_bitrate f))) / if_cap f else 0)"

text \<open>Fewest hops first, the oldest among those.\<close>

fun select_queued :: "queued list \<Rightarrow> nat \<Rightarrow> nat \<Rightarrow> queued \<Rightarrow> nat" where
  "select_queued [] i best b = best"
| "select_queued (q # qs) i best b =
    (if qd_hops q < qd_hops b \<or> qd_hops q = qd_hops b \<and> qd_time q < qd_time b
     then select_queued qs (Suc i) i q else select_queued qs (Suc i) best b)"

text \<open>\<open>process_announce_queue\<close>: the frame to transmit, if any is left to send.\<close>

definition process_announce_queue :: "secs \<Rightarrow> iface \<Rightarrow> iface \<times> bytes option" where
  "process_announce_queue now f =
    (if if_queue f = [] then (f, None)
     else
       let f = f\<lparr>if_queue := filter (\<lambda>q. \<not> now > qd_time q + QUEUED_ANNOUNCE_LIFE) (if_queue f)\<rparr> in
       case if_queue f of
         [] \<Rightarrow> (f, None)
       | b # _ \<Rightarrow>
           let i = select_queued (if_queue f) 0 0 b; q = if_queue f ! i
           in (f\<lparr>if_allowed_at := now + cap_wait f (length (qd_raw q)),
                 if_queue := take i (if_queue f) @ drop (Suc i) (if_queue f)\<rparr>, Some (qd_raw q)))"

end
