(* ===== verification/IfaceProps.thy ===== *)
theory IfaceProps
  imports Iface
begin

text \<open>
  Properties of the frame an interface carries: the access code round trip, what an access-coded and an
  open interface let through, and the route trailer.
\<close>

section \<open>The network's key\<close>

definition ifac_on :: "prims \<Rightarrow> nat \<Rightarrow> iface \<Rightarrow> bool" where
  "ifac_on c n f \<longleftrightarrow> if_ifac_identity f \<noteq> [] \<and> unat (if_ifac_size f) = n \<and> 0 < n \<and> n \<le> 64 \<and>
     (\<exists>sk. iy_sig_prv (if_ifac_obj f) = Some sk \<and> length sk = 32)"

definition ifac_size_of :: "u16 \<Rightarrow> nat" where
  "ifac_size_of k = (if unat k = 0 then 1 else min 64 (unat k))"

lemma ifac_size_word:
  "unat (let k = (if k < 1 then of_nat IFAC_MIN_SIZE else k) in if k > 64 then 64 else k :: u16) = ifac_size_of k"
  by (auto simp: ifac_size_of_def IFAC_MIN_SIZE_def word_less_nat_alt Let_def)

lemma derive_ifac_on:
  assumes "hkdf_ok c" "sha_ok c" "name \<noteq> [] \<or> pass \<noteq> []"
  shows "\<exists>key i sig. hkdf c 64 (full_hash c ((if name \<noteq> [] then full_hash c name else [])
            @ (if pass \<noteq> [] then full_hash c pass else []))) ifac_salt [] = Inr key \<and>
     derive_ifac c name pass k f = (f\<lparr>if_ifac_size := of_nat (ifac_size_of k), if_ifac_key := key,
       if_ifac_identity := key, if_ifac_obj := i, if_ifac_signature := sig\<rparr>, None) \<and>
     load_private_key c [] [] key identity_object = (i, True) \<and>
     key \<noteq> [] \<and> (\<exists>sk. iy_sig_prv i = Some sk \<and> length sk = 32)"
proof -
  let ?o = "(if name \<noteq> [] then full_hash c name else []) @ (if pass \<noteq> [] then full_hash c pass else [])"
  have "length (full_hash c ?o) = 32" using assms(2) by (simp add: full_hash_def sha_ok_def)
  then have ne: "full_hash c ?o \<noteq> []" by auto
  have "(0 :: nat) < 64" "64 \<le> HKDF_MAX" by (simp_all add: HKDF_MAX_def)
  from assms(1) [unfolded hkdf_ok_def, rule_format, OF this ne] obtain key where
    key: "length key = 64" "pr_hkdf c 64 ifac_salt (full_hash c ?o) [] = Some key" by blast
  have h: "hkdf c 64 (full_hash c ?o) ifac_salt [] = Inr key" using key ne by (simp add: hkdf_def)
  have parts: "length (take 32 key) = 32" "length (drop 32 key) = 32" using key(1) by simp_all
  have nk: "take 32 key \<noteq> []" "drop 32 key \<noteq> []" using parts by auto
  obtain i where i: "load_private_key c [] [] key identity_object = (i, True)" "iy_sig_prv i = Some (drop 32 key)"
    using parts nk by (simp add: load_private_key_def slice_simps IDENT_KEYSIZE_def x_private_def ed_private_def
        derive_public_def update_hashes_def Let_def)
  have w: "(let k = (if k < 1 then of_nat IFAC_MIN_SIZE else k) in if k > 64 then 64 else k :: u16) = of_nat (ifac_size_of k)"
    using ifac_size_word [of k] by (metis of_nat_unat ucast_id)
  have "derive_ifac c name pass k f = (f\<lparr>if_ifac_size := of_nat (ifac_size_of k), if_ifac_key := key,
       if_ifac_identity := key, if_ifac_obj := i,
       if_ifac_signature := pr_ed_sign c (drop 32 key) (full_hash c key)\<rparr>, None)"
    using assms(3) h i unfolding derive_ifac_def w [symmetric]
    by (auto simp: identity_sign_def Let_def)
  then show ?thesis using h i key(1) parts by (intro exI conjI) auto
qed

section \<open>Masking\<close>

lemma nth_mask_in:
  "i < length b \<Longrightarrow> mask_in n m b ! i = (if i \<le> 1 \<or> i > n + 1 then b ! i XOR m ! i else b ! i)"
  by (auto simp: mask_in_def)

lemma nth_mask_out:
  "i < length b \<Longrightarrow> mask_out n m b ! i = (if i = 0 then (b ! i XOR m ! i) OR 0x80
     else if i = 1 \<or> i > n + 1 then b ! i XOR m ! i else b ! i)"
  by (auto simp: mask_out_def)

lemma length_masks [simp]: "length (mask_in n m b) = length b" "length (mask_out n m b) = length b"
  by (simp_all add: mask_in_def mask_out_def)

lemma byte_and_7f: "(w :: u8) AND 0x80 = 0 \<Longrightarrow> w AND 0x7f = w"
proof -
  have "\<forall>k \<in> set [0..<256]. (of_nat k :: u8) AND 0x80 = 0 \<longrightarrow> of_nat k AND 0x7f = (of_nat k :: u8)" by code_simp
  from all_bytes [OF this, of w] show "w AND 0x80 = 0 \<Longrightarrow> w AND 0x7f = w" by blast
qed

lemma first_byte:
  assumes "(b :: u8) AND 0x80 = 0"
  shows "((((b OR 0x80) XOR m) OR 0x80) XOR m) AND 0x7f = b"
proof -
  have "(0x7f :: u8) AND 0x80 = 0" by code_simp
  then have "\<not> (bit (0x7f :: u8) n \<and> bit (0x80 :: u8) n)" for n by (metis bit_0_eq bit_and_iff bot_apply bot_bool_def)
  then have "((((b OR 0x80) XOR m) OR 0x80) XOR m) AND 0x7f = b AND 0x7f"
    by (intro bit_word_eqI) (auto simp: bit_and_iff bit_or_iff bit_xor_iff)
  then show ?thesis using byte_and_7f [OF assms] by simp
qed

lemma flag_set: "((w :: u8) OR 0x80) AND 0x80 = 0x80"
  by (rule bit_word_eqI) (auto simp: bit_simps)

text \<open>Unmasking what was masked, on the three parts of the frame.\<close>

lemma unmask_masked:
  assumes "length ifac = n" "length m = length rest + n + 2"
  shows "mask_in n m (mask_out n m ([b0, b1] @ ifac @ rest)) =
    [((b0 XOR m ! 0) OR 0x80) XOR m ! 0, b1] @ ifac @ rest"
    "take n (drop 2 (mask_out n m ([b0, b1] @ ifac @ rest))) = ifac"
proof -
  let ?b = "[b0, b1] @ ifac @ rest"
  show "mask_in n m (mask_out n m ?b) = [((b0 XOR m ! 0) OR 0x80) XOR m ! 0, b1] @ ifac @ rest"
  proof (rule nth_equalityI)
    fix i assume "i < length (mask_in n m (mask_out n m ?b))"
    then have i: "i < length ?b" by simp
    consider "i = 0" | "i = 1" | "2 \<le> i" by linarith
    then show "mask_in n m (mask_out n m ?b) ! i = ([((b0 XOR m ! 0) OR 0x80) XOR m ! 0, b1] @ ifac @ rest) ! i"
    proof cases
      case 3
      then have "?b ! i = ([((b0 XOR m ! 0) OR 0x80) XOR m ! 0, b1] @ ifac @ rest) ! i"
        by (simp add: nth_append nth_Cons')
      then show ?thesis using i 3 by (simp add: nth_mask_in nth_mask_out xor.assoc)
    qed (use i in \<open>simp_all add: nth_mask_in nth_mask_out xor.assoc\<close>)
  qed simp
  show "take n (drop 2 (mask_out n m ?b)) = ifac"
  proof (rule nth_equalityI)
    show "length (take n (drop 2 (mask_out n m ?b))) = length ifac" using assms by simp
    fix i assume "i < length (take n (drop 2 (mask_out n m ?b)))"
    then have i: "i < n" by simp
    then show "take n (drop 2 (mask_out n m ?b)) ! i = ifac ! i"
      using assms by (simp add: nth_mask_out nth_append)
  qed
qed

section \<open>Access codes\<close>

lemma wrap_unwrap:
  assumes "hkdf_ok c" "sig_ok c" "ifac_on c n f" "ifac_on c n g" "if_ifac_key g = if_ifac_key f"
    "if_ifac_obj g = if_ifac_obj f" "2 < length raw" "raw ! 0 AND 0x80 = 0" "length raw + n \<le> HKDF_MAX"
  shows "\<exists>w. ifac_wrap c f raw = Inr w \<and> length w = length raw + n \<and> ifac_unwrap c (Some g) w = Inr (Some raw)"
proof -
  obtain sk where sk: "iy_sig_prv (if_ifac_obj f) = Some sk" "length sk = 32"
    using assms(3) by (auto simp: ifac_on_def)
  note f = assms(3) [unfolded ifac_on_def] and g = assms(4) [unfolded ifac_on_def]
  define sig where "sig = pr_ed_sign c sk raw"
  have sig: "identity_sign c raw (if_ifac_obj f) = Inr sig" "length sig = 64"
    using sk assms(2) by (simp_all add: identity_sign_def sig_def sig_ok_def)
  define ifac where "ifac = bright n sig"
  have ifac: "length ifac = n" "ifac \<noteq> []" using sig(2) f by (auto simp: ifac_def slice_simps)
  have cut: "drop (64 - n) sig = ifac" "drop (length sig - n) sig = ifac"
    using sig(2) by (simp_all add: ifac_def slice_simps)
  obtain b0 r where r: "raw = b0 # r" using assms(7) by (cases raw) auto
  then obtain b1 rest where "r = b1 # rest" using assms(7) by (cases r) auto
  with r assms(7) have raw: "raw = b0 # b1 # rest" "rest \<noteq> []" by auto
  have "0 < length raw + n" using raw by simp
  from assms(1) [unfolded hkdf_ok_def, rule_format, OF this assms(9) ifac(2)] obtain m where
    m: "length m = length raw + n" "pr_hkdf c (length raw + n) (if_ifac_key f) ifac [] = Some m" by blast
  have h: "hkdf c (length raw + n) ifac (if_ifac_key f) [] = Inr m" using m ifac(2) raw by (simp add: hkdf_def)
  define w where "w = mask_out n m ([b0 OR 0x80, b1] @ ifac @ rest)"
  have wrap: "ifac_wrap c f raw = Inr w"
    using f sig h m ifac raw by (simp add: ifac_wrap_def w_def cut slice_simps Let_def)
  have len: "length w = length raw + n" using raw ifac by (simp add: w_def)
  have lm: "length m = length rest + n + 2" using m raw by simp
  note um = unmask_masked [OF ifac(1) lm, of "b0 OR 0x80" b1, folded w_def]
  have w0: "w ! 0 AND 0x80 = 0x80" using raw flag_set by (simp add: w_def nth_mask_out)
  have um0: "mask_in n m w ! 0 = (((b0 OR 0x80) XOR m ! 0) OR 0x80) XOR m ! 0" "mask_in n m w ! 1 = b1"
    "drop (2 + n) (mask_in n m w) = rest" using um(1) ifac(1) by simp_all
  have "mask_in n m w ! 0 AND 0x7f = b0" using first_byte assms(8) raw um0 by simp
  then have new: "[mask_in n m w ! 0 AND 0x7f, mask_in n m w ! 1] @ drop (2 + n) (mask_in n m w) = raw"
    using raw um0 by simp
  have "2 + n < length w" "2 < length w" using len raw by (cases rest; simp)+
  then have "ifac_unwrap c (Some g) w = Inr (Some raw)"
    using g w0 h m um(2) len sig assms(5,6) new
    by (simp add: ifac_unwrap_def slice_simps cut Let_def)
  with wrap len show ?thesis by blast
qed

text \<open>
  C22: access codes round trip. Two interfaces configured with the same network name, passphrase and code
  size understand each other: what one transmits for a frame of at least three bytes, with the code at most
  the 8160 bytes of mask HKDF can yield, grows by the code, and the other passes on exactly the frame; an
  interface outside every network drops it. The frame's own access code flag is clear, as in every packet.
\<close>

theorem ifac_roundtrip:
  assumes "hkdf_ok c" "sig_ok c" "sha_ok c" "name \<noteq> [] \<or> pass \<noteq> []"
    and "derive_ifac c name pass k f0 = (f, None)" "derive_ifac c name pass k g0 = (g, None)"
    and "2 < length raw" "raw ! 0 AND 0x80 = 0" "length raw + ifac_size_of k \<le> HKDF_MAX"
  shows "\<exists>w. ifac_wrap c f raw = Inr w \<and> length w = length raw + ifac_size_of k \<and>
     ifac_unwrap c (Some g) w = Inr (Some raw) \<and>
     (\<forall>h. if_ifac_identity h = [] \<longrightarrow> ifac_unwrap c (Some h) w = Inr None)"
proof -
  obtain key i sig sk where fg: "f = f0\<lparr>if_ifac_size := of_nat (ifac_size_of k), if_ifac_key := key,
       if_ifac_identity := key, if_ifac_obj := i, if_ifac_signature := sig\<rparr>" "key \<noteq> []"
      "load_private_key c [] [] key identity_object = (i, True)" "iy_sig_prv i = Some sk" "length sk = 32"
      "hkdf c 64 (full_hash c ((if name \<noteq> [] then full_hash c name else [])
            @ (if pass \<noteq> [] then full_hash c pass else []))) ifac_salt [] = Inr key"
    using derive_ifac_on [OF assms(1,3,4), of k f0] assms(5) by auto
  obtain sig' where g: "g = g0\<lparr>if_ifac_size := of_nat (ifac_size_of k), if_ifac_key := key,
       if_ifac_identity := key, if_ifac_obj := i, if_ifac_signature := sig'\<rparr>"
    using derive_ifac_on [OF assms(1,3,4), of k g0] assms(6) fg(3,6) by auto
  have n: "0 < ifac_size_of k" "ifac_size_of k \<le> 64" by (auto simp: ifac_size_of_def)
  then have "unat (of_nat (ifac_size_of k) :: u16) = ifac_size_of k" by (intro of_nat_unat_less) simp
  with n fg have on: "ifac_on c (ifac_size_of k) f" "ifac_on c (ifac_size_of k) g" by (auto simp: ifac_on_def g)
  obtain w where w: "ifac_wrap c f raw = Inr w" "length w = length raw + ifac_size_of k"
      "ifac_unwrap c (Some g) w = Inr (Some raw)"
    using wrap_unwrap [OF assms(1,2) on _ _ assms(7-9)] fg(1) g by auto
  have "w ! 0 AND 0x80 = 0x80"
    using w(3) on(2) by (auto simp: ifac_unwrap_def ifac_on_def split: if_splits)
  then have "\<forall>h. if_ifac_identity h = [] \<longrightarrow> ifac_unwrap c (Some h) w = Inr None"
    by (simp add: ifac_unwrap_def)
  with w show ?thesis by blast
qed

definition sample_raw :: bytes where
  "sample_raw = [0x01, 0] @ replicate 16 3 @ [0] @ replicate 148 7"

lemma ifac_roundtrip_witness:
  "\<exists>f g w. derive_ifac toy_prims [110] [112] 8 (interface_object [1] [1]) = (f, None) \<and>
     derive_ifac toy_prims [110] [112] 8 (interface_object [2] [2]) = (g, None) \<and>
     ifac_wrap toy_prims f sample_raw = Inr w \<and> ifac_unwrap toy_prims (Some g) w = Inr (Some sample_raw)"
proof -
  obtain f g where d: "derive_ifac toy_prims [110] [112] 8 (interface_object [1] [1]) = (f, None)"
      "derive_ifac toy_prims [110] [112] 8 (interface_object [2] [2]) = (g, None)"
    using derive_ifac_on [OF toy_laws(4,6), of "[110]" "[112]" 8] by blast
  have "([110] :: bytes) \<noteq> [] \<or> ([112] :: bytes) \<noteq> []" "2 < length sample_raw" "sample_raw ! 0 AND 0x80 = 0"
      "length sample_raw + ifac_size_of 8 \<le> HKDF_MAX"
    by (simp_all add: sample_raw_def ifac_size_of_def HKDF_MAX_def)
  from ifac_roundtrip [OF toy_laws(4-6) this(1) d this(2-4)] d show ?thesis by blast
qed

text \<open>
  C21: the access code is a gate. A frame that an access-coded interface passes on arrived with the flag
  and with the last bytes of the network's signature over exactly the frame passed on; every other
  frame is dropped. An open interface passes on unflagged frames as they are and nothing else.
\<close>

theorem ifac_gate:
  assumes "ifac_unwrap c fo raw = Inr (Some r)"
  shows "r ! 0 AND 0x80 = 0 \<and>
    (case fo of
       Some f \<Rightarrow> if if_ifac_identity f \<noteq> []
         then raw ! 0 AND 0x80 = 0x80 \<and> (\<exists>sig. identity_sign c r (if_ifac_obj f) = Inr sig \<and>
           bmid_len 2 (unat (if_ifac_size f)) raw = bright (unat (if_ifac_size f)) sig) \<and>
           length r + unat (if_ifac_size f) = length raw
         else r = raw
     | None \<Rightarrow> r = raw)"
proof -
  have plain: "w AND 0x80 \<noteq> 0x80 \<Longrightarrow> w AND 0x80 = 0" "(w AND 0x7f) AND 0x80 = 0" for w :: u8
  proof -
    have "\<forall>k \<in> set [0..<256]. (of_nat k :: u8) AND 0x80 = 0x80 \<or> of_nat k AND 0x80 = (0 :: u8)" by code_simp
    from all_bytes [OF this, of w] show "w AND 0x80 \<noteq> 0x80 \<Longrightarrow> w AND 0x80 = 0" by blast
    have "\<forall>k \<in> set [0..<256]. (of_nat k AND 0x7f) AND 0x80 = (0 :: u8)" by code_simp
    from all_bytes [OF this, of w] show "(w AND 0x7f) AND 0x80 = 0" .
  qed
  show ?thesis
  proof (cases "\<exists>f. fo = Some f \<and> if_ifac_identity f \<noteq> []")
    case True
    then obtain f where f: "fo = Some f" "if_ifac_identity f \<noteq> []" by blast
    define n where "n = unat (if_ifac_size f)"
    from assms f obtain m sig where m: "raw ! 0 AND 0x80 = 0x80" "length raw > 2 + n"
        "r = [mask_in n m raw ! 0 AND 0x7f, mask_in n m raw ! 1] @ bmid (2 + n) (mask_in n m raw)"
        "identity_sign c r (if_ifac_obj f) = Inr sig" "bmid_len 2 n raw = bright n sig"
      by (auto simp: ifac_unwrap_def rbind_eq_Inr n_def [symmetric] Let_def split: if_splits)
    have "length r + n = length raw" using m(2,3) by (simp add: slice_simps)
    moreover have "r ! 0 AND 0x80 = 0" using plain(2) m(3) by simp
    ultimately show ?thesis using f m n_def by auto
  next
    case False
    then show ?thesis using assms plain(1) by (auto simp: ifac_unwrap_def split: if_splits option.splits)
  qed
qed

lemma ifac_gate_witness:
  "ifac_unwrap toy_prims (Some (interface_object [1] [1])) sample_raw = Inr (Some sample_raw) \<and>
     sample_raw ! 0 AND 0x80 = 0"
proof -
  have "ifac_unwrap toy_prims (Some (interface_object [1] [1])) sample_raw = Inr (Some sample_raw)"
    by (simp add: ifac_unwrap_def interface_object_def sample_raw_def)
  with ifac_gate [OF this] show ?thesis by blast
qed

section \<open>Route trailers\<close>

definition context_at :: "bytes \<Rightarrow> nat" where
  "context_at raw = (if raw ! 0 AND 0x40 \<noteq> 0 then 34 else 18)"

text \<open>What a relay that adds a trailer makes of an announce.\<close>

definition with_trailer :: "bytes \<Rightarrow> bytes \<Rightarrow> bytes" where
  "with_trailer t raw = raw[context_at raw :=
     if raw ! context_at raw = CONTEXT_NONE then ROUTE_CONTEXT else ROUTE_CONTEXT_REPLY] @ t @ [of_nat (length t)]"

text \<open>
  A route trailer leaves no trace. Whatever trailer of one to 255 bytes a relay appends to an announce
  or a path response, taking it off gives back the frame that was signed and exactly the trailer; a frame
  whose context byte announces no trailer is left as it is.
\<close>

theorem route_trailer_roundtrip:
  assumes "raw ! 0 AND 0x80 = 0" "raw ! 0 AND 0x03 = packet_code ANNOUNCE"
    and "context_at raw + 1 + least_announce \<le> length raw"
    and "t \<noteq> []" "length t < 256"
  shows "(raw ! context_at raw = CONTEXT_NONE \<or> raw ! context_at raw = PATH_RESPONSE \<longrightarrow>
       route_trailer_strip (with_trailer t raw) = (raw, t @ [of_nat (length t)])) \<and>
     (raw ! context_at raw \<noteq> ROUTE_CONTEXT \<and> raw ! context_at raw \<noteq> ROUTE_CONTEXT_REPLY \<longrightarrow>
       route_trailer_strip raw = (raw, []))"
proof (intro conjI impI)
  let ?p = "context_at raw"
  have p: "0 < ?p" "?p < length raw" using assms(3) by (auto simp: context_at_def)
  show "route_trailer_strip raw = (raw, [])"
    if "raw ! ?p \<noteq> ROUTE_CONTEXT \<and> raw ! ?p \<noteq> ROUTE_CONTEXT_REPLY"
    using that unfolding route_trailer_strip_def context_at_def [symmetric] Let_def by auto
  assume ctx: "raw ! ?p = CONTEXT_NONE \<or> raw ! ?p = PATH_RESPONSE"
  define k where "k = (if raw ! ?p = CONTEXT_NONE then ROUTE_CONTEXT else ROUTE_CONTEXT_REPLY)"
  define w where "w = with_trailer t raw"
  have w: "w = raw[?p := k] @ t @ [of_nat (length t)]" by (simp add: w_def with_trailer_def k_def)
  have len: "length w = length raw + length t + 1" by (simp add: w)
  have w0: "w ! 0 = raw ! 0" "w ! ?p = k" using p by (auto simp: w nth_append)
  have cw: "context_at w = ?p" by (simp add: context_at_def w0(1))
  have "w ! (length w - 1) = of_nat (length t)" by (simp add: w nth_append)
  then have tail: "unat (w ! (length w - 1)) + 1 = length t + 1" using assms(5) of_nat_unat_less [of "length t", where 'a = 8] by simp
  have own: "(if w ! ?p = ROUTE_CONTEXT then Some CONTEXT_NONE
     else if w ! ?p = ROUTE_CONTEXT_REPLY then Some PATH_RESPONSE else None) = Some (raw ! ?p)"
    using ctx w0(2) by (auto simp: k_def)
  have cut: "bleft (length w - (length t + 1)) w = raw[?p := k]" "bright (length t + 1) w = t @ [of_nat (length t)]"
    using len by (simp_all add: slice_simps w)
  have upd: "raw[?p := x] = raw" if "raw ! ?p = x" for x using that list_update_id [of raw ?p] by simp
  have t2: "\<not> length t + 1 < 2" using assms(4) by (cases t) auto
  show "route_trailer_strip (with_trailer t raw) = (raw, t @ [of_nat (length t)])"
    unfolding w_def [symmetric] route_trailer_strip_def context_at_def [symmetric] Let_def
    using assms(1-3) p len w0 cw tail own cut t2 ctx by (auto simp: k_def upd)
qed

lemma route_trailer_roundtrip_witness:
  "route_trailer_strip (with_trailer [9, 9] sample_raw) = (sample_raw, [9, 9, 2]) \<and>
   route_trailer_strip sample_raw = (sample_raw, [])"
proof -
  have "sample_raw ! 0 AND 0x80 = 0" "sample_raw ! 0 AND 0x03 = packet_code ANNOUNCE"
    "context_at sample_raw + 1 + least_announce \<le> length sample_raw" "([9, 9] :: bytes) \<noteq> []"
    "length ([9, 9] :: bytes) < 256" "sample_raw ! context_at sample_raw = CONTEXT_NONE"
    by code_simp+
  with route_trailer_roundtrip [OF this(1-5)] show ?thesis by simp
qed

end
