(* ===== verification/TransBase.thy ===== *)
theory TransBase
  imports Iface Link
begin

text \<open>
  Transport, first part: the tables a node keeps, its interfaces, what the directory says of a route, the
  duplicate filter, and the handshake repairs of a relay (\<open>Transport.cpp\<close>, \<open>Transport.h\<close>).

  The tables that are \<open>std::map\<close>s are association lists in the order of their keys, the hash list and the
  list of path request tags are their insertion order (the set beside each holds the same elements), and
  the fixed tables are lists of their slots. What a node does to the outside is appended to \<open>ts_out\<close>:
  frames handed to an interface, and what it hands to its destinations, its links and the application,
  which the components of those model. The clock is read once per operation. Nothing in the repository
  puts the daemon behind a shared instance or gives it local clients, and every frame comes from an
  interface; the branches for the other cases are left out.
\<close>

section \<open>Constants\<close>

definition PATHFINDER_R :: u8 where "PATHFINDER_R = 1"
definition PATHFINDER_G :: secs where "PATHFINDER_G = 5"
definition PATHFINDER_RW :: secs where "PATHFINDER_RW = 1 / 2"
definition LOCAL_REBROADCASTS_MAX :: u8 where "LOCAL_REBROADCASTS_MAX = 2"
definition PATH_REQUEST_TIMEOUT :: secs where "PATH_REQUEST_TIMEOUT = 15"
definition PATH_REQUEST_GRACE :: secs where "PATH_REQUEST_GRACE = 4 / 10"
definition PATH_REQUEST_MI :: secs where "PATH_REQUEST_MI = 5"
definition LINK_TIMEOUT :: secs where "LINK_TIMEOUT = 720 * 125 / 100"
definition REVERSE_TIMEOUT :: secs where "REVERSE_TIMEOUT = 8 * 60"
definition MAX_RECEIPTS :: nat where "MAX_RECEIPTS = 64"
definition DESTINATION_TIMEOUT :: secs where "DESTINATION_TIMEOUT = 60 * 60 * 24 * 1"
definition PATH_LAST_USED_GRANULARITY :: u32 where "PATH_LAST_USED_GRANULARITY = 60"
definition MAX_QUEUED_ANNOUNCES :: nat where "MAX_QUEUED_ANNOUNCES = 20"
definition DEFAULT_PER_HOP_TIMEOUT :: secs where "DEFAULT_PER_HOP_TIMEOUT = 6"
definition HANDSHAKE_REPAIR_SLOTS :: nat where "HANDSHAKE_REPAIR_SLOTS = 8"
definition ANNOUNCE_DATA_MAX :: nat where
  "ANNOUNCE_DATA_MAX = (unat MTU - HEADER_MAXSIZE + 3) div 4 * 4"
definition ANNOUNCE_EMITS_PER_PASS :: nat where "ANNOUNCE_EMITS_PER_PASS = 8"
definition CULL_PER_PASS :: nat where "CULL_PER_PASS = 32"
definition DISTANCE_NONE :: u8 where "DISTANCE_NONE = 8"
definition DISTANCE_UNKNOWN :: u8 where "DISTANCE_UNKNOWN = 255"
definition DISCOVERY_RETRY_AFTER :: secs where "DISCOVERY_RETRY_AFTER = 45"

section \<open>Ordered maps\<close>

text \<open>\<open>Bytes::operator<\<close> on the keys, a map's \<open>insert\<close>, its \<open>operator[] =\<close> and its \<open>erase\<close>.\<close>

fun bytes_less :: "bytes \<Rightarrow> bytes \<Rightarrow> bool" where
  "bytes_less _ [] = False"
| "bytes_less [] (y # ys) = True"
| "bytes_less (x # xs) (y # ys) = (x < y \<or> x = y \<and> bytes_less xs ys)"

fun amap_place :: "bytes \<Rightarrow> 'v \<Rightarrow> (bytes \<times> 'v) list \<Rightarrow> (bytes \<times> 'v) list" where
  "amap_place k v [] = [(k, v)]"
| "amap_place k v ((j, w) # m) = (if bytes_less k j then (k, v) # (j, w) # m else (j, w) # amap_place k v m)"

definition amap_insert :: "bytes \<Rightarrow> 'v \<Rightarrow> (bytes \<times> 'v) list \<Rightarrow> (bytes \<times> 'v) list" where
  "amap_insert k v m = (if map_of m k = None then amap_place k v m else m)"

definition amap_set :: "bytes \<Rightarrow> 'v \<Rightarrow> (bytes \<times> 'v) list \<Rightarrow> (bytes \<times> 'v) list" where
  "amap_set k v m =
    (if map_of m k = None then amap_place k v m else map (\<lambda>(j, w). (j, if j = k then v else w)) m)"

definition amap_erase :: "bytes \<Rightarrow> (bytes \<times> 'v) list \<Rightarrow> (bytes \<times> 'v) list" where
  "amap_erase k m = filter (\<lambda>(j, _). j \<noteq> k) m"

section \<open>The tables\<close>

record reverse_entry =
  rv_receiving :: nat
  rv_outbound :: nat
  rv_timestamp :: secs

text \<open>A proof timeout of \<open>None\<close> is infinity: the quotient of an interface with no bit rate.\<close>

record link_entry =
  le_timestamp :: secs
  le_next_hop :: bytes
  le_outbound :: nat
  le_remaining_hops :: u8
  le_receiving :: nat
  le_hops :: u8
  le_dest_hash :: bytes
  le_validated :: bool
  le_proof_timeout :: "secs option"
  le_proof_kept :: bool

datatype repair_kind = REPAIR_NONE | REPAIR_LINKREQUEST | REPAIR_LINKPROOF

record repair =
  hr_kind :: repair_kind
  hr_link_id :: bytes
  hr_raw :: bytes
  hr_iface :: "nat option"
  hr_wait :: secs
  hr_due :: secs
  hr_resent :: bool

definition repair_object :: repair where
  "repair_object = \<lparr>hr_kind = REPAIR_NONE, hr_link_id = [], hr_raw = [], hr_iface = None, hr_wait = 0,
     hr_due = 0, hr_resent = False\<rparr>"

text \<open>A path request passed on for somebody else.\<close>

record path_entry =
  pe_dest_hash :: bytes
  pe_timeout :: secs
  pe_requesting :: nat
  pe_answered :: bool
  pe_requestor :: bytes

text \<open>A slot of the announce ring, its flag bits as booleans.\<close>

record ann_rec =
  an_dest :: bytes
  an_recv_iface :: bytes
  an_attached_iface :: bytes
  an_timestamp :: secs
  an_retransmit_at :: secs
  an_data :: bytes
  an_retries :: u8
  an_hops :: u8
  an_local_rebroadcasts :: u8
  an_context_flag :: context_flag
  an_used :: bool
  an_block :: bool
  an_attached :: bool
  an_held :: bool
  an_radio :: bool

definition ann_zero :: ann_rec where
  "ann_zero = \<lparr>an_dest = zeros 16, an_recv_iface = zeros 16, an_attached_iface = zeros 16, an_timestamp = 0,
     an_retransmit_at = 0, an_data = [], an_retries = 0, an_hops = 0, an_local_rebroadcasts = 0,
     an_context_flag = FLAG_UNSET, an_used = False, an_block = False, an_attached = False,
     an_held = False, an_radio = False\<rparr>"

record rate_rec =
  rr_dest :: bytes
  rr_last :: u32
  rr_blocked_until :: u32
  rr_violations :: u16
  rr_used :: bool

record pending_repeat =
  rp_dest :: bytes
  rp_tag :: bytes
  rp_iface :: bytes
  rp_asker :: "bytes option"
  rp_due :: secs
  rp_used :: bool

record escalation =
  es_dest :: bytes
  es_due :: secs
  es_used :: bool

datatype tout =
    On_wire nat bytes
  | To_destination bytes packet
  | Prove_packet packet
  | Proof_asked bytes packet
  | To_link_rx bytes packet
  | To_link_proof bytes packet
  | Tear_down bytes
  | Repair_proof bytes
  | Watch_link bytes
  | Announced nat bytes identity bytes bytes bytes u8 nat

record tstate =
  ts_impl :: "nat \<Rightarrow> iface"
  ts_ifaces :: "(bytes \<times> nat) list"
  ts_dests :: "(bytes \<times> destination) list"
  ts_dir :: rdir
  ts_hashes :: "bytes list"
  ts_reverse :: "(bytes \<times> reverse_entry) list"
  ts_links :: "(bytes \<times> link_entry) list"
  ts_repairs :: "repair list"
  ts_repairs_sent :: u32
  ts_repairs_helped :: u32
  ts_ring :: "ann_rec list"
  ts_cursor :: nat
  ts_rates :: "rate_rec list"
  ts_rate_blocks :: u32
  ts_queue_drops :: u32
  ts_path_requests :: "(bytes \<times> secs) list"
  ts_discovery :: "(bytes \<times> path_entry) list"
  ts_tags :: "bytes list"
  ts_repeats :: "pending_repeat list"
  ts_escalations :: "escalation list"
  ts_receipts :: "receipt list"
  ts_pending :: "link list"
  ts_active :: "link list"
  ts_sent :: u32
  ts_received :: u32
  ts_added :: u32
  ts_out :: "tout list"

text \<open>
  The world of one operation: primitives, the packet layer's environment, the clock and the directory's
  minutes, the \<open>n\<close>-th random number between 0 and 1 and the \<open>n\<close>-th random hash drawn, the configuration,
  the embedder's filter and gateway distances, and the name filters of the announce handlers.
\<close>

record tenv =
  tv_prims :: prims
  tv_penv :: penv
  tv_now :: secs
  tv_minutes :: u16
  tv_random :: "nat \<Rightarrow> secs"
  tv_hash :: "nat \<Rightarrow> bytes"
  tv_enabled :: bool
  tv_identity :: identity
  tv_destination_timeout :: u32
  tv_ap_path_time :: u32
  tv_roaming_path_time :: u32
  tv_custody_path_time :: u32
  tv_escalate_time :: secs
  tv_cheap_bitrate :: u32
  tv_hashlist_max :: nat
  tv_pr_tags_max :: nat
  tv_announce_max :: nat
  tv_path_max :: nat
  tv_filter :: "packet \<Rightarrow> bool"
  tv_distance_of :: "bytes \<Rightarrow> u8"
  tv_own_distance :: u8
  tv_handlers :: "bytes option list"

text \<open>A destination registered on this node.\<close>

definition own_dest :: "tstate \<Rightarrow> bytes \<Rightarrow> destination option" where
  "own_dest s h = map_of (ts_dests s) h"

definition now32 :: "tenv \<Rightarrow> u32" where
  "now32 v = of_int \<lfloor>tv_now v\<rfloor>"

definition t_out :: "tout \<Rightarrow> tstate \<Rightarrow> tstate" where
  "t_out x s = s\<lparr>ts_out := ts_out s @ [x]\<rparr>"

definition upd_impl :: "nat \<Rightarrow> (iface \<Rightarrow> iface) \<Rightarrow> tstate \<Rightarrow> tstate" where
  "upd_impl i f s = s\<lparr>ts_impl := (ts_impl s)(i := f (ts_impl s i))\<rparr>"

section \<open>Interfaces\<close>

text \<open>\<open>insert\<close> keeps an interface already registered under the name.\<close>

definition register_interface :: "nat \<Rightarrow> tstate \<Rightarrow> tstate" where
  "register_interface i s = s\<lparr>ts_ifaces := amap_insert (if_hash (ts_impl s i)) i (ts_ifaces s)\<rparr>"

definition deregister_interface :: "nat \<Rightarrow> tstate \<Rightarrow> tstate" where
  "deregister_interface i s = s\<lparr>ts_ifaces := amap_erase (if_hash (ts_impl s i)) (ts_ifaces s)\<rparr>"

definition find_interface_from_hash :: "bytes \<Rightarrow> tstate \<Rightarrow> nat option" where
  "find_interface_from_hash h s = map_of (ts_ifaces s) h"

definition find_interface_from_hash_prefix :: "bytes \<Rightarrow> tstate \<Rightarrow> nat option" where
  "find_interface_from_hash_prefix prefix s =
    map_option snd (find (\<lambda>(h, _). length h \<ge> DESTINATION_LENGTH \<and> take DESTINATION_LENGTH h = prefix)
      (ts_ifaces s))"

text \<open>\<open>transmit\<close>: an exception from the access code is logged and nothing goes out.\<close>

definition wire :: "tenv \<Rightarrow> nat \<Rightarrow> bytes \<Rightarrow> tstate \<Rightarrow> tstate" where
  "wire v i raw s =
    (case ifac_wrap (tv_prims v) (ts_impl s i) raw of
       Inl _ \<Rightarrow> s
     | Inr w \<Rightarrow> t_out (On_wire i w) s)"

section \<open>Routes\<close>

definition path_ttl_for :: "tenv \<Rightarrow> iface \<Rightarrow> u8 \<Rightarrow> u32" where
  "path_ttl_for v f hops =
    (if hops \<le> if_radius f \<and> if_radius f > 0 then tv_custody_path_time v
     else if if_mode f = MODE_ACCESS_POINT then tv_ap_path_time v
     else if if_mode f = MODE_ROAMING then tv_roaming_path_time v
     else tv_destination_timeout v)"

definition peek_live_route :: "tenv \<Rightarrow> bytes \<Rightarrow> tstate \<Rightarrow> (route \<times> nat) option \<times> tstate" where
  "peek_live_route v dest s =
    (case rdir_peek_route dest (ts_dir s) of
       None \<Rightarrow> (None, s)
     | Some r \<Rightarrow>
         if rt_expires r \<noteq> 0 \<and> now32 v \<ge> rt_expires r then
           (None, s\<lparr>ts_dir := snd (rdir_clear_route dest (ts_dir s))\<rparr>)
         else case find_interface_from_hash_prefix (rt_iface_hash r) s of
           None \<Rightarrow> (None, s\<lparr>ts_dir := snd (rdir_clear_route dest (ts_dir s))\<rparr>)
         | Some i \<Rightarrow> (Some (r, i), s))"

definition remove_path :: "bytes \<Rightarrow> tstate \<Rightarrow> tstate" where
  "remove_path dest s = s\<lparr>ts_dir := snd (rdir_clear_route dest (ts_dir s))\<rparr>"

definition has_path :: "tenv \<Rightarrow> bytes \<Rightarrow> tstate \<Rightarrow> bool \<times> tstate" where
  "has_path v dest s = (let (r, s) = peek_live_route v dest s in (r \<noteq> None, s))"

definition hops_to :: "bytes \<Rightarrow> tstate \<Rightarrow> u8" where
  "hops_to dest s =
    (case rdir_peek_route dest (ts_dir s) of Some r \<Rightarrow> rt_hops r | None \<Rightarrow> of_nat PATHFINDER_M)"

definition next_hop :: "bytes \<Rightarrow> tstate \<Rightarrow> bytes" where
  "next_hop dest s =
    (case rdir_peek_route dest (ts_dir s) of Some r \<Rightarrow> rt_received_from r | None \<Rightarrow> [])"

definition next_hop_interface :: "tenv \<Rightarrow> bytes \<Rightarrow> tstate \<Rightarrow> nat option \<times> tstate" where
  "next_hop_interface v dest s = (let (r, s) = peek_live_route v dest s in (map_option snd r, s))"

definition next_hop_interface_bitrate :: "tenv \<Rightarrow> bytes \<Rightarrow> tstate \<Rightarrow> u32 \<times> tstate" where
  "next_hop_interface_bitrate v dest s =
    (let (i, s) = next_hop_interface v dest s in
     (case i of Some i \<Rightarrow> if_bitrate (ts_impl s i) | None \<Rightarrow> 0, s))"

definition next_hop_interface_hw_mtu :: "tenv \<Rightarrow> bytes \<Rightarrow> tstate \<Rightarrow> u16 \<times> tstate" where
  "next_hop_interface_hw_mtu v dest s =
    (let (i, s) = next_hop_interface v dest s in
     (case i of
        Some i \<Rightarrow> let f = ts_impl s i in if if_autoconfigure f \<or> if_fixed f then if_hw_mtu f else 0
      | None \<Rightarrow> 0, s))"

text \<open>A byte takes eight bit times; 0 stands for an unknown rate.\<close>

definition next_hop_per_bit_latency :: "tenv \<Rightarrow> bytes \<Rightarrow> tstate \<Rightarrow> secs \<times> tstate" where
  "next_hop_per_bit_latency v dest s =
    (let (b, s) = next_hop_interface_bitrate v dest s in
     (if b > 0 then 1 / of_nat (unat b) else 0, s))"

definition next_hop_per_byte_latency :: "tenv \<Rightarrow> bytes \<Rightarrow> tstate \<Rightarrow> secs \<times> tstate" where
  "next_hop_per_byte_latency v dest s =
    (let (l, s) = next_hop_per_bit_latency v dest s in (if l > 0 then l * 8 else 0, s))"

definition first_hop_timeout :: "tenv \<Rightarrow> bytes \<Rightarrow> tstate \<Rightarrow> secs \<times> tstate" where
  "first_hop_timeout v dest s =
    (let (l, s) = next_hop_per_byte_latency v dest s in
     (if l > 0 then of_nat (unat MTU) * l + DEFAULT_PER_HOP_TIMEOUT else DEFAULT_PER_HOP_TIMEOUT, s))"

text \<open>The quotient is taken whatever the bit rate: infinity for 0.\<close>

definition extra_link_proof_timeout :: "iface \<Rightarrow> secs option" where
  "extra_link_proof_timeout f =
    (if if_bitrate f = 0 then None
     else Some (1 / of_nat (unat (if_bitrate f)) * 8 * of_nat (unat MTU)))"

definition per_hop_timeout :: "iface \<Rightarrow> secs" where
  "per_hop_timeout f =
    (let t = of_nat ESTABLISHMENT_TIMEOUT_PER_HOP in
     if if_bitrate f > 0 then
       let first_hop = DEFAULT_PER_HOP_TIMEOUT + the (extra_link_proof_timeout f) in
       if first_hop > t then first_hop else t
     else t)"

definition mark_alive :: "tenv \<Rightarrow> bytes \<Rightarrow> tstate \<Rightarrow> tstate" where
  "mark_alive v dest s =
    (if length dest = DESTINATION_LENGTH then s\<lparr>ts_dir := rdir_mark_alive (now32 v) dest (ts_dir s)\<rparr> else s)"

definition touch_route :: "tenv \<Rightarrow> bytes \<Rightarrow> u32 \<Rightarrow> tstate \<Rightarrow> tstate" where
  "touch_route v dest expires s = s\<lparr>ts_dir := rdir_touch_used (now32 v) dest expires (ts_dir s)\<rparr>"

definition cull_path_table :: "tenv \<Rightarrow> tstate \<Rightarrow> tstate" where
  "cull_path_table v s =
    (let slots = length (s_dir (ts_dir s)); target = (if tv_path_max v > slots then slots else tv_path_max v)
     in s\<lparr>ts_dir := rdir_evict_to (now32 v) target (length (s_blob (ts_dir s))) (ts_dir s)\<rparr>)"

section \<open>The duplicate filter\<close>

definition remember_hash :: "bytes \<Rightarrow> tstate \<Rightarrow> tstate" where
  "remember_hash h s = (if h \<in> set (ts_hashes s) then s else s\<lparr>ts_hashes := ts_hashes s @ [h]\<rparr>)"

text \<open>Oldest first, down to the limit.\<close>

definition cull_hashes :: "tenv \<Rightarrow> tstate \<Rightarrow> tstate" where
  "cull_hashes v s = s\<lparr>ts_hashes := drop (length (ts_hashes s) - tv_hashlist_max v) (ts_hashes s)\<rparr>"

definition exempt_context :: "u8 \<Rightarrow> bool" where
  "exempt_context c \<longleftrightarrow> c = KEEPALIVE \<or> c = RESOURCE_REQ \<or> c = RESOURCE_PRF \<or> c = RESOURCE \<or>
     c = CACHE_REQUEST \<or> c = CTX_CHANNEL"

definition packet_filter :: "tenv \<Rightarrow> packet \<Rightarrow> tstate \<Rightarrow> bool" where
  "packet_filter v p s =
    (if pk_transport_id p \<noteq> [] \<and> pk_packet_type p \<noteq> ANNOUNCE \<and> pk_transport_id p \<noteq> iy_hash (tv_identity v)
     then False
     else if exempt_context (pk_context p) then True
     else if pk_dest_type p = PLAIN \<or> pk_dest_type p = GROUP then
       pk_packet_type p \<noteq> ANNOUNCE \<and> \<not> pk_hops p > 1
     else if pk_packet_hash p \<notin> set (ts_hashes s) then True
     else pk_packet_type p = ANNOUNCE \<and> pk_dest_type p = SINGLE)"

section \<open>Handshake repair at a relay\<close>

definition handshake_repair_wait :: "u8 \<Rightarrow> iface \<Rightarrow> secs" where
  "handshake_repair_wait hops f =
    max (2 * of_nat ESTABLISHMENT_TIMEOUT_PER_HOP * of_nat (unat (max 1 hops))) (per_hop_timeout f)"

definition keep_for_repair :: "tenv \<Rightarrow> repair_kind \<Rightarrow> bytes \<Rightarrow> bytes \<Rightarrow> nat \<Rightarrow> secs \<Rightarrow> tstate \<Rightarrow> tstate" where
  "keep_for_repair v kind link_id raw i wait s =
    (case first_index (\<lambda>r. hr_kind r = REPAIR_NONE) (ts_repairs s) of
       None \<Rightarrow> s
     | Some k \<Rightarrow> s\<lparr>ts_repairs := (ts_repairs s)[k := \<lparr>hr_kind = kind, hr_link_id = link_id, hr_raw = raw,
           hr_iface = Some i, hr_wait = wait, hr_due = tv_now v + wait, hr_resent = False\<rparr>]\<rparr>)"

definition answers_repair :: "repair_kind \<Rightarrow> bytes \<Rightarrow> repair \<Rightarrow> bool" where
  "answers_repair kind link_id r \<longleftrightarrow> hr_kind r = kind \<and> hr_link_id r = link_id"

definition repair_answered :: "tenv \<Rightarrow> repair_kind \<Rightarrow> bytes \<Rightarrow> tstate \<Rightarrow> tstate" where
  "repair_answered v kind link_id s = s\<lparr>
     ts_repairs_helped := ts_repairs_helped s + of_nat (count_if (\<lambda>r. answers_repair kind link_id r \<and>
       hr_resent r \<and> tv_now v \<le> hr_due r) (ts_repairs s)),
     ts_repairs := map (\<lambda>r. if answers_repair kind link_id r then repair_object else r) (ts_repairs s)\<rparr>"

text \<open>
  The sweep of \<open>jobs\<close> over one slot: what it leaves there, and the repair to resend. A slot whose
  second wait is over, or whose link is no longer in the table, is freed.
\<close>

definition repair_due :: "tenv \<Rightarrow> tstate \<Rightarrow> repair \<Rightarrow> repair \<times> repair option" where
  "repair_due v s r =
    (if hr_kind r = REPAIR_NONE \<or> tv_now v < hr_due r then (r, None)
     else if hr_resent r \<or> map_of (ts_links s) (hr_link_id r) = None then (repair_object, None)
     else (r\<lparr>hr_resent := True, hr_raw := [], hr_due := tv_now v + hr_wait r\<rparr>, Some r))"

definition sweep_repairs :: "tenv \<Rightarrow> tstate \<Rightarrow> tstate \<times> repair list" where
  "sweep_repairs v s =
    (let rs = map (repair_due v s) (ts_repairs s)
     in (s\<lparr>ts_repairs := map fst rs\<rparr>, List.map_filter snd rs))"

definition resend_repair :: "tenv \<Rightarrow> repair \<Rightarrow> tstate \<Rightarrow> tstate" where
  "resend_repair v r s =
    (let s = (case hr_iface r of Some i \<Rightarrow> wire v i (hr_raw r) s | None \<Rightarrow> s)
     in s\<lparr>ts_repairs_sent := ts_repairs_sent s + 1\<rparr>)"

definition announce_emitted :: "packet \<Rightarrow> u64" where
  "announce_emitted p =
    (let random_blob = bmid_len (IDENT_KEYSIZE div 8 + NAME_HASH_LENGTH div 8) 10 (pk_data p) in
     if random_blob \<noteq> [] then be_word (bmid_len 5 5 random_blob) else 0)"

end
