(* ===== verification/TransOut.thy ===== *)
theory TransOut
  imports TransBase Receipt
begin

text \<open>
  Transport, second part: \<open>outbound\<close>, what happens to a packet this node sends (its own packets, the
  announces it repeats and the path requests it asks), and the announce queue of an interface.

  A packet's attached interface, the interface it was received on, and the interface its link is pinned
  to are arguments beside the packet. An exception leaves the state it was thrown in.
\<close>

section \<open>With a route\<close>

text \<open>The frame with the next transport node's address put in.\<close>

definition in_transport :: "bytes \<Rightarrow> packet \<Rightarrow> bytes" where
  "in_transport received_from p =
    [push_bit 6 (header_code HEADER_2) OR push_bit 4 (transport_code TRANSPORT) OR (pk_flags p AND 0x0f)]
      @ bmid_len 1 1 (pk_raw p) @ received_from @ bmid 2 (pk_raw p)"

definition send_routed :: "tenv \<Rightarrow> route \<Rightarrow> nat \<Rightarrow> packet \<Rightarrow> tstate \<Rightarrow> bool \<times> tstate" where
  "send_routed v r i p s =
    (let (sent, s) =
       (if rt_hops r > 1 then
          (if pk_header_type p = HEADER_1 then (True, wire v i (in_transport (rt_received_from r) p) s)
           else (False, s))
        else (True, wire v i (pk_raw p) s))
     in (sent, if sent \<and> now32 v - rt_last_used r \<ge> PATH_LAST_USED_GRANULARITY
               then touch_route v (pk_dest_hash p) (now32 v + path_ttl_for v (ts_impl s i) (rt_hops r)) s
               else s))"

section \<open>Without one: the interfaces a packet goes out on\<close>

text \<open>The name of the interface a link's packets are pinned to, where an interface of that name is up.\<close>

definition link_pin :: "nat option \<Rightarrow> packet \<Rightarrow> tstate \<Rightarrow> bytes option" where
  "link_pin pin p s =
    (case (pk_dest p, pk_dlink p, pin) of
       (Some d, Some _, Some j) \<Rightarrow>
         let n = if_name (ts_impl s j) in
         if de_type d = LINK \<and> list_ex (\<lambda>(_, i). if_out (ts_impl s i) \<and> if_name (ts_impl s i) = n) (ts_ifaces s)
         then Some n else None
     | _ \<Rightarrow> None)"

definition link_gate :: "bytes option \<Rightarrow> packet \<Rightarrow> iface \<Rightarrow> bool" where
  "link_gate pinned p f \<longleftrightarrow>
    (case (pk_dest p, pk_dlink p) of
       (Some d, Some l) \<Rightarrow> de_type d \<noteq> LINK \<or> ln_status l \<noteq> CLOSED \<and> (pinned = None \<or> pinned = Some (if_name f))
     | _ \<Rightarrow> True)"

text \<open>Deferring an announce over the cap: folded into a copy already waiting, queued, or dropped.\<close>

definition hold_announce :: "tenv \<Rightarrow> packet \<Rightarrow> nat \<Rightarrow> tstate \<Rightarrow> bool \<times> tstate" where
  "hold_announce v p i s =
    (let q = if_queue (ts_impl s i); new = \<lparr>qd_dest = pk_dest_hash p, qd_time = tv_now v, qd_hops = pk_hops p,
           qd_emitted = announce_emitted p, qd_raw = pk_raw p\<rparr>
     in if length q < MAX_QUEUED_ANNOUNCES then
          (case first_index (\<lambda>e. qd_dest e = pk_dest_hash p) q of
             Some k \<Rightarrow> (True, if announce_emitted p > qd_emitted (q ! k)
                             then upd_impl i (\<lambda>f. f\<lparr>if_queue := q[k := new]\<rparr>) s else s)
           | None \<Rightarrow> (True, upd_impl i (\<lambda>f. f\<lparr>if_queue := q @ [new]\<rparr>) s))
        else (False, s\<lparr>ts_queue_drops := ts_queue_drops s + 1\<rparr>))"

definition p2p_echo :: "nat option \<Rightarrow> nat \<Rightarrow> tstate \<Rightarrow> bool" where
  "p2p_echo rcv i s \<longleftrightarrow> if_p2p (ts_impl s i) \<and>
     (case rcv of None \<Rightarrow> False | Some j \<Rightarrow> if_hash (ts_impl s j) = if_hash (ts_impl s i))"

text \<open>Whether to transmit, whether the announce is deferred instead, and the state.\<close>

definition cap_verdict :: "tenv \<Rightarrow> nat option \<Rightarrow> packet \<Rightarrow> nat \<Rightarrow> tstate \<Rightarrow> bool \<times> bool \<times> tstate" where
  "cap_verdict v rcv p i s =
    (let f = ts_impl s i in
     if p2p_echo rcv i s then (False, False, s)
     else if if_queue f = [] \<and> tv_now v > if_allowed_at f then
       (True, False, upd_impl i (\<lambda>f. f\<lparr>if_allowed_at := tv_now v + cap_wait f (length (pk_raw p))\<rparr>) s)
     else let (deferred, s) = hold_announce v p i s in (False, deferred, s))"

text \<open>The rules of roaming and boundary interfaces, on the interface the destination is reached by.\<close>

definition next_hop_allows :: "tenv \<Rightarrow> if_mode set \<Rightarrow> packet \<Rightarrow> tstate \<Rightarrow> bool \<times> tstate" where
  "next_hop_allows v blocked p s =
    (if own_dest s (pk_dest_hash p) \<noteq> None then (True, s)
     else let (j, s) = next_hop_interface v (pk_dest_hash p) s in
       (case j of None \<Rightarrow> False | Some j \<Rightarrow> if_mode (ts_impl s j) \<notin> {MODE_NONE} \<union> blocked, s))"

definition announce_verdict :: "tenv \<Rightarrow> nat option \<Rightarrow> packet \<Rightarrow> nat \<Rightarrow> tstate \<Rightarrow> bool \<times> bool \<times> tstate" where
  "announce_verdict v rcv p i s =
    (let f = ts_impl s i in
     if own_dest s (pk_dest_hash p) = None \<and> pk_hops p > if_radius f then (False, False, s)
     else if if_mode f = MODE_ROAMING then
       (let (ok, s) = next_hop_allows v {MODE_ROAMING, MODE_BOUNDARY} p s in (ok, False, s))
     else if if_mode f = MODE_BOUNDARY then
       (let (ok, s) = next_hop_allows v {MODE_ROAMING} p s in (ok, False, s))
     else if pk_hops p > 0 then cap_verdict v rcv p i s
     else (True, False, s))"

record broadcast =
  bc_stored :: bool
  bc_sent :: bool
  bc_deferred :: bool

definition broadcast_on ::
    "tenv \<Rightarrow> nat option \<Rightarrow> nat option \<Rightarrow> bytes option \<Rightarrow> packet \<Rightarrow> nat \<Rightarrow> broadcast \<times> tstate \<Rightarrow> broadcast \<times> tstate" where
  "broadcast_on v att rcv pinned p i bs =
    (let (b, s) = bs in
     if \<not> if_out (ts_impl s i) then (b, s)
     else
       let should = link_gate pinned p (ts_impl s i) \<and> (att = None \<or> att = Some i);
           (ok, deferred, s) = (if pk_packet_type p = ANNOUNCE \<and> att = None then announce_verdict v rcv p i s
                                else (True, False, s));
           b = b\<lparr>bc_deferred := bc_deferred b \<or> deferred\<rparr>
       in if should \<and> ok then
            let s = (if \<not> bc_stored b then remember_hash (pk_packet_hash p) s else s)
            in (b\<lparr>bc_stored := True, bc_sent := True\<rparr>, wire v i (pk_raw p) s)
          else (b, s))"

definition broadcast_all ::
    "tenv \<Rightarrow> nat option \<Rightarrow> nat option \<Rightarrow> bytes option \<Rightarrow> packet \<Rightarrow> tstate \<Rightarrow> broadcast \<times> tstate" where
  "broadcast_all v att rcv pinned p s =
    fold (broadcast_on v att rcv pinned p) (map snd (ts_ifaces s))
      (\<lparr>bc_stored = False, bc_sent = False, bc_deferred = False\<rparr>, s)"

section \<open>Receipts\<close>

definition wants_receipt :: "packet \<Rightarrow> dest \<Rightarrow> bool" where
  "wants_receipt p d \<longleftrightarrow> pk_create_receipt p \<and> pk_packet_type p = DATA \<and> de_type d \<noteq> PLAIN \<and>
     \<not> (pk_context p \<ge> KEEPALIVE \<and> pk_context p \<le> LRPROOF \<and> pk_context p \<noteq> LINKIDENTIFY) \<and>
     \<not> (pk_context p \<ge> RESOURCE \<and> pk_context p \<le> RESOURCE_RCL)"

definition make_receipt :: "tenv \<Rightarrow> packet \<Rightarrow> dest \<Rightarrow> tstate \<Rightarrow> packet \<times> fault option \<times> tstate" where
  "make_receipt v p d s =
    (let (t, s) = (if de_type d = LINK then (0, s) else first_hop_timeout v (de_hash d) s) in
     case receipt_new ((tv_penv v)\<lparr>en_first_hop_timeout := (\<lambda>_. t), en_hops_to := (\<lambda>h. hops_to h s)\<rparr>)
            (tv_now v) p of
       Inl x \<Rightarrow> (p, Some x, s)
     | Inr rc \<Rightarrow> (p\<lparr>pk_receipt := Some rc\<rparr>, None, s\<lparr>ts_receipts := ts_receipts s @ [rc]\<rparr>))"

section \<open>Outbound\<close>

definition outbound ::
    "tenv \<Rightarrow> nat option \<Rightarrow> nat option \<Rightarrow> nat option \<Rightarrow> packet \<Rightarrow> tstate \<Rightarrow> packet \<times> bool res \<times> tstate" where
  "outbound v att rcv pin p s =
    (let s = s\<lparr>ts_sent := ts_sent s + 1\<rparr> in
     case pk_dest p of
       None \<Rightarrow> (p, Inr False, s)
     | Some d \<Rightarrow>
         let (r, s) = (if pk_packet_type p \<noteq> ANNOUNCE \<and> de_type d \<noteq> PLAIN \<and> de_type d \<noteq> GROUP
                       then peek_live_route v (pk_dest_hash p) s else (None, s))
         in if r = None \<and> de_type d = LINK \<and> pk_dlink p = None \<and>
               list_ex (\<lambda>(_, i). if_out (ts_impl s i)) (ts_ifaces s) then (p, Inl Invalid_argument, s)
            else
              let (sent, deferred, s) =
                (case r of
                   Some (r, i) \<Rightarrow> (let (sent, s) = send_routed v r i p s in (sent, False, s))
                 | None \<Rightarrow> (let (b, s) = broadcast_all v att rcv (link_pin pin p s) p s
                            in (bc_sent b, bc_deferred b, s)));
                  (p, x, s) = (if sent then
                                 let p = p\<lparr>pk_sent := True\<rparr> in
                                 if wants_receipt p d then make_receipt v p d s else (p, None, s)
                               else (p, None, s));
                  deferred = (deferred \<or> \<not> sent \<and> pk_packet_type p = ANNOUNCE \<and> pk_hops p > 0)
              in case x of Some x \<Rightarrow> (p, Inl x, s) | None \<Rightarrow> (p, Inr (sent \<or> deferred), s))"

text \<open>
  \<open>Packet::send\<close> of a packet not sent before, through this node's \<open>outbound\<close>. What the transport sends
  itself, announces and path requests, goes to a PLAIN destination in the clear or carries no ciphertext.
\<close>

definition plain_penv :: "tenv \<Rightarrow> penv" where
  "plain_penv v = (tv_penv v)\<lparr>en_dest_encrypt :=
     (\<lambda>d b. if de_type d = PLAIN then Inr b else en_dest_encrypt (tv_penv v) d b)\<rparr>"

definition transport_send :: "tenv \<Rightarrow> nat option \<Rightarrow> nat option \<Rightarrow> packet \<Rightarrow> tstate \<Rightarrow> tstate" where
  "transport_send v att rcv p s =
    (case pack (plain_penv v) p of
       (p, Some _) \<Rightarrow> s
     | (p, None) \<Rightarrow> snd (snd (outbound v att rcv None p s)))"

section \<open>The held announces\<close>

text \<open>What \<open>jobs\<close> does for each interface: one held announce, once the cap allows the next.\<close>

definition drain_queue :: "tenv \<Rightarrow> nat \<Rightarrow> tstate \<Rightarrow> tstate" where
  "drain_queue v i s =
    (let f = ts_impl s i in
     if if_queue f \<noteq> [] \<and> tv_now v > if_allowed_at f then
       let (f, raw) = process_announce_queue (tv_now v) f; s = upd_impl i (\<lambda>_. f) s
       in case raw of Some raw \<Rightarrow> wire v i raw s | None \<Rightarrow> s
     else s)"

definition drain_queues :: "tenv \<Rightarrow> tstate \<Rightarrow> tstate" where
  "drain_queues v s = fold (drain_queue v) (map snd (ts_ifaces s)) s"

definition drop_announce_queues :: "tstate \<Rightarrow> tstate" where
  "drop_announce_queues s = fold (\<lambda>i. upd_impl i (\<lambda>f. f\<lparr>if_queue := []\<rparr>)) (map snd (ts_ifaces s)) s"

end
