(* ===== verification/TransRelay.thy ===== *)
theory TransRelay
  imports TransOut
begin

text \<open>
  Transport, third part: what a relay does with a packet that is not an announce. A packet in transport
  goes on to the next hop and leaves a reverse entry, a link request a link entry; packets of a link
  follow its entry; a link proof is passed back once its signature verifies; a proof follows the reverse
  entry of the packet it proves. \<open>ri\<close> is the interface the packet was received on; its hop count is
  already increased. Last, the receipts of this node's own packets.
\<close>

section \<open>Packets in transport\<close>

definition relay_frame :: "packet \<Rightarrow> bytes" where
  "relay_frame p = bleft 1 (pk_raw p) @ [pk_hops p] @ bmid 2 (pk_raw p)"

definition forward_frame :: "bytes \<Rightarrow> u8 \<Rightarrow> packet \<Rightarrow> bytes" where
  "forward_frame next remaining p =
    (if remaining > 1 then
       bleft 1 (pk_raw p) @ [pk_hops p] @ next @ bmid (TRUNCATED_HASHLENGTH div 8 + 2) (pk_raw p)
     else if remaining = 1 then
       [push_bit 6 (header_code HEADER_1) OR push_bit 4 (transport_code BROADCAST) OR (pk_flags p AND 0x0f)]
         @ [pk_hops p] @ bmid (TRUNCATED_HASHLENGTH div 8 + 2) (pk_raw p)
     else relay_frame p)"

text \<open>
  The link MTU a request asks for, limited to what both of the relay's interfaces carry. \<open>None\<close> drops
  the request: its mode is not enabled.
\<close>

definition clamp_request :: "iface \<Rightarrow> iface \<Rightarrow> packet \<Rightarrow> bytes \<Rightarrow> bytes option" where
  "clamp_request fin fout p raw =
    (let path_mtu = mtu_from_lr_packet p; ph_mtu = if_hw_mtu fin; nh_mtu = if_hw_mtu fout;
         cut = bleft (length raw - LINK_MTU_SIZE) raw
     in if path_mtu = 0 then Some raw
        else if nh_mtu = 0 then Some cut
        else if \<not> if_autoconfigure fout \<and> \<not> if_fixed fout then Some cut
        else if nh_mtu < path_mtu \<or> ph_mtu \<noteq> 0 \<and> ph_mtu < path_mtu then
          (case signalling_bytes (min nh_mtu (if ph_mtu > 0 then ph_mtu else nh_mtu)) (mode_from_lr_packet p) of
             Inl _ \<Rightarrow> None
           | Inr sb \<Rightarrow> Some (cut @ sb))
        else Some raw)"

text \<open>A received frame is not empty, so its hashes are always taken.\<close>

definition request_id :: "tenv \<Rightarrow> packet \<Rightarrow> bytes" where
  "request_id v p = (case link_id_from_lr_packet (tv_prims v) p of Inr h \<Rightarrow> h | Inl _ \<Rightarrow> [])"

definition short_hash :: "tenv \<Rightarrow> packet \<Rightarrow> bytes" where
  "short_hash v p = (case get_truncated_hash (tv_penv v) p of Inr h \<Rightarrow> h | Inl _ \<Rightarrow> [])"

definition request_entry :: "tenv \<Rightarrow> nat \<Rightarrow> route \<Rightarrow> nat \<Rightarrow> packet \<Rightarrow> tstate \<Rightarrow> link_entry" where
  "request_entry v ri r i p s = \<lparr>le_timestamp = tv_now v, le_next_hop = rt_received_from r, le_outbound = i,
     le_remaining_hops = rt_hops r, le_receiving = ri, le_hops = pk_hops p, le_dest_hash = pk_dest_hash p,
     le_validated = False,
     le_proof_timeout = map_option (\<lambda>t. t + tv_now v +
        of_nat ESTABLISHMENT_TIMEOUT_PER_HOP * of_nat (unat (max 1 (rt_hops r))))
        (extra_link_proof_timeout (ts_impl s ri)),
     le_proof_kept = False\<rparr>"

text \<open>The designated next hop's part; \<open>False\<close> ends the handling of the packet.\<close>

definition forward_packet :: "tenv \<Rightarrow> nat \<Rightarrow> packet \<Rightarrow> tstate \<Rightarrow> bool \<times> tstate" where
  "forward_packet v ri p s =
    (case peek_live_route v (pk_dest_hash p) s of
       (None, s) \<Rightarrow> (True, s)
     | (Some (r, i), s) \<Rightarrow>
         let raw = forward_frame (rt_received_from r) (rt_hops r) p;
             used = touch_route v (pk_dest_hash p) (now32 v + path_ttl_for v (ts_impl s i) (rt_hops r))
         in if pk_packet_type p = LINKREQUEST then
              (case clamp_request (ts_impl s ri) (ts_impl s i) p raw of
                 None \<Rightarrow> (False, s)
               | Some raw \<Rightarrow>
                   let s = s\<lparr>ts_links := amap_insert (request_id v p) (request_entry v ri r i p s) (ts_links s)\<rparr>;
                       s = wire v i raw s;
                       s = keep_for_repair v REPAIR_LINKREQUEST (request_id v p) raw i
                             (handshake_repair_wait (rt_hops r) (ts_impl s i)) s
                   in (True, used s))
            else
              let s = s\<lparr>ts_reverse := amap_insert (short_hash v p)
                    \<lparr>rv_receiving = ri, rv_outbound = i, rv_timestamp = tv_now v\<rparr> (ts_reverse s)\<rparr>
              in (True, used (wire v i raw s)))"

section \<open>Packets of a link\<close>

text \<open>Where a link's packet goes on: the other side, if it has come the hops it should have.\<close>

definition link_way :: "nat \<Rightarrow> u8 \<Rightarrow> link_entry \<Rightarrow> nat option" where
  "link_way ri hops e =
    (if le_outbound e = le_receiving e then
       (if hops = le_remaining_hops e \<or> hops = le_hops e then Some (le_outbound e) else None)
     else if ri = le_outbound e then (if hops = le_remaining_hops e then Some (le_receiving e) else None)
     else if ri = le_receiving e then (if hops = le_hops e then Some (le_outbound e) else None)
     else None)"

definition link_transport :: "tenv \<Rightarrow> nat \<Rightarrow> packet \<Rightarrow> tstate \<Rightarrow> tstate" where
  "link_transport v ri p s =
    (if pk_packet_type p = ANNOUNCE \<or> pk_packet_type p = LINKREQUEST \<or> pk_context p = LRPROOF then s
     else case map_of (ts_links s) (pk_dest_hash p) of
       None \<Rightarrow> s
     | Some e \<Rightarrow>
        (case link_way ri (pk_hops p) e of
           None \<Rightarrow> s
         | Some o1 \<Rightarrow>
             let s = wire v o1 (relay_frame p) s;
                 s = s\<lparr>ts_links := amap_set (pk_dest_hash p) (e\<lparr>le_timestamp := tv_now v\<rparr>) (ts_links s)\<rparr>;
                 s = remember_hash (pk_packet_hash p) s
             in if pk_packet_type p \<noteq> PROOF then repair_answered v REPAIR_LINKPROOF (pk_dest_hash p) s else s))"

text \<open>General transport handling: \<open>for_local\<close> stands for a destination the directory puts at no hops.\<close>

definition for_local :: "packet \<Rightarrow> tstate \<Rightarrow> bool" where
  "for_local p s \<longleftrightarrow> pk_packet_type p \<noteq> ANNOUNCE \<and>
     (case rdir_peek_route (pk_dest_hash p) (ts_dir s) of Some r \<Rightarrow> rt_hops r = 0 | None \<Rightarrow> False)"

definition transport_handling :: "tenv \<Rightarrow> nat \<Rightarrow> packet \<Rightarrow> tstate \<Rightarrow> bool \<times> packet \<times> tstate" where
  "transport_handling v ri p s =
    (if tv_enabled v \<or> for_local p s then
       let p = (if pk_transport_id p = [] \<and> for_local p s then p\<lparr>pk_transport_id := iy_hash (tv_identity v)\<rparr> else p);
           (go, s) = (if pk_transport_id p \<noteq> [] \<and> pk_packet_type p \<noteq> ANNOUNCE \<and>
                         pk_transport_id p = iy_hash (tv_identity v)
                      then forward_packet v ri p s else (True, s))
       in if go then (True, p, link_transport v ri p s) else (False, p, s)
     else (True, p, s))"

section \<open>Link proofs\<close>

definition local_key :: "tstate \<Rightarrow> bytes \<Rightarrow> bytes option" where
  "local_key s h = (case own_dest s h of None \<Rightarrow> None | Some d \<Rightarrow> map_option get_public_key (dn_ident d))"

definition recall_identity :: "tenv \<Rightarrow> bytes \<Rightarrow> tstate \<Rightarrow> identity option \<times> tstate" where
  "recall_identity v h s =
    (let (i, dir) = recall (tv_prims v) (local_key s) h (ts_dir s) in (i, s\<lparr>ts_dir := dir\<rparr>))"

text \<open>What the destination signed to prove the link, and whether it did.\<close>

definition link_proof_data :: "packet \<Rightarrow> identity \<Rightarrow> bytes \<Rightarrow> bytes" where
  "link_proof_data p i sb =
    pk_dest_hash p @ bmid_len (SIGLENGTH div 8) (ECPUBSIZE div 2) (pk_data p) @
    bmid_len (ECPUBSIZE div 2) (ECPUBSIZE div 2) (get_public_key i) @ sb"

definition link_proof_verifies :: "tenv \<Rightarrow> packet \<Rightarrow> identity option \<Rightarrow> bytes \<Rightarrow> bool" where
  "link_proof_verifies v p io sb \<longleftrightarrow>
    (case io of None \<Rightarrow> False
     | Some i \<Rightarrow> identity_validate (tv_prims v) (bleft (SIGLENGTH div 8) (pk_data p)) (link_proof_data p i sb) i
         = Inr True)"

definition pass_link_proof :: "tenv \<Rightarrow> packet \<Rightarrow> link_entry \<Rightarrow> tstate \<Rightarrow> tstate" where
  "pass_link_proof v p e s =
    (let raw = relay_frame p; lid = pk_dest_hash p; f = ts_impl s (le_receiving e);
         s = wire v (le_receiving e) raw s;
         s = repair_answered v REPAIR_LINKREQUEST lid s;
         s = s\<lparr>ts_links := amap_set lid (e\<lparr>le_validated := True, le_proof_kept := True\<rparr>) (ts_links s)\<rparr>
     in if le_proof_kept e then s
        else keep_for_repair v REPAIR_LINKPROOF lid raw (le_receiving e)
               (handshake_repair_wait (le_hops e) f) s)"

text \<open>A proof of an unknown mode throws inside the \<open>try\<close> and is dropped.\<close>

definition link_proof_transport :: "tenv \<Rightarrow> nat \<Rightarrow> packet \<Rightarrow> link_entry \<Rightarrow> tstate \<Rightarrow> tstate" where
  "link_proof_transport v ri p e s =
    (if pk_hops p = le_remaining_hops e \<and> ri = le_outbound e \<and>
        (length (pk_data p) = lp_size \<or> length (pk_data p) = lp_size + LINK_MTU_SIZE) then
       (case (if length (pk_data p) = lp_size + LINK_MTU_SIZE
              then signalling_bytes (mtu_from_lp_packet p) (mode_from_lp_packet p) else Inr []) of
          Inl _ \<Rightarrow> s
        | Inr sb \<Rightarrow>
            let (io, s) = recall_identity v (le_dest_hash e) s
            in if link_proof_verifies v p io sb then pass_link_proof v p e s else s)
     else s)"

text \<open>Local: pending links, and active ones this node initiated, from the distance the request went.\<close>

definition proof_candidates :: "packet \<Rightarrow> tstate \<Rightarrow> link list" where
  "proof_candidates p s =
    filter (\<lambda>l. ln_id l = pk_dest_hash p \<and>
        (pk_hops p = lk_expected_hops l \<or> lk_expected_hops l = of_nat PATHFINDER_M))
      (ts_pending s @ filter lk_initiator (ts_active s))"

definition link_proof_inbound :: "tenv \<Rightarrow> nat \<Rightarrow> packet \<Rightarrow> tstate \<Rightarrow> tstate" where
  "link_proof_inbound v ri p s =
    (case (if tv_enabled v then map_of (ts_links s) (pk_dest_hash p) else None) of
       Some e \<Rightarrow> link_proof_transport v ri p e s
     | None \<Rightarrow> fold (\<lambda>l. t_out (To_link_proof (ln_id l) p)) (proof_candidates p s) s)"

section \<open>Proofs of packets\<close>

text \<open>The reverse entry is spent by the first proof for it, relayed or not.\<close>

definition proof_transport :: "tenv \<Rightarrow> nat \<Rightarrow> packet \<Rightarrow> tstate \<Rightarrow> tstate" where
  "proof_transport v ri p s =
    (case (if tv_enabled v then map_of (ts_reverse s) (pk_dest_hash p) else None) of
       None \<Rightarrow> s
     | Some e \<Rightarrow>
         let s = s\<lparr>ts_reverse := amap_erase (pk_dest_hash p) (ts_reverse s)\<rparr>
         in if ri = rv_outbound e then wire v (rv_receiving e) (relay_frame p) s else s)"

text \<open>The receipts a proof is tried on, those left, and those it settled; an accepted proof's link notes it.\<close>

fun try_receipts :: "tenv \<Rightarrow> bytes \<Rightarrow> packet \<Rightarrow> receipt list \<Rightarrow> receipt list \<times> receipt list \<times> packet" where
  "try_receipts v h p [] = ([], [], p)"
| "try_receipts v h p (rc # rcs) =
    (let (rc, p, ok) = (if h \<noteq> [] \<and> rc_hash rc \<noteq> h then (rc, p, False)
                        else validate_proof_packet (tv_penv v) (tv_now v) p rc);
         (left, settled, p) = try_receipts v h p rcs
     in if ok then (left, rc # settled, p) else (rc # left, settled, p))"

definition note_link :: "bytes \<Rightarrow> packet \<Rightarrow> link list \<Rightarrow> link list" where
  "note_link h p ls =
    (case pk_link p of
       None \<Rightarrow> ls
     | Some w \<Rightarrow> map (\<lambda>l. if ln_id l = h then l\<lparr>ln_rtt := ln_rtt w, ln_last_proof := ln_last_proof w\<rparr> else l) ls)"

definition alive_after_proof :: "tenv \<Rightarrow> packet \<Rightarrow> receipt \<Rightarrow> tstate \<Rightarrow> tstate" where
  "alive_after_proof v p rc s =
    (if pk_link p \<noteq> None then
       (case find (\<lambda>l. ln_id l = pk_dest_hash p) (rev (ts_active s)) of
          None \<Rightarrow> s
        | Some l \<Rightarrow> (if lk_initiator l then
            (case lk_dest l of None \<Rightarrow> s | Some d \<Rightarrow> mark_alive v (dn_hash d) s) else s))
     else mark_alive v (de_hash (rc_dest rc)) s)"

definition settle_receipts :: "tenv \<Rightarrow> packet \<Rightarrow> tstate \<Rightarrow> tstate" where
  "settle_receipts v p s =
    (let h = (if length (pk_data p) = EXPL_LENGTH then bleft (HASHLENGTH div 8) (pk_data p) else []);
         (left, settled, p) = try_receipts v h p (ts_receipts s);
         s = s\<lparr>ts_receipts := left, ts_active := note_link (pk_dest_hash p) p (ts_active s)\<rparr>
     in fold (alive_after_proof v p) settled s)"

definition regular_proof :: "tenv \<Rightarrow> nat \<Rightarrow> packet \<Rightarrow> tstate \<Rightarrow> tstate" where
  "regular_proof v ri p s =
    (let p = (if pk_dest_type p = LINK then
                (case find (\<lambda>l. ln_id l = pk_dest_hash p) (rev (ts_active s)) of
                   Some l \<Rightarrow> p\<lparr>pk_link := Some (view l)\<rparr> | None \<Rightarrow> p)
              else p)
     in settle_receipts v p (proof_transport v ri p s))"

definition proof_inbound :: "tenv \<Rightarrow> nat \<Rightarrow> packet \<Rightarrow> tstate \<Rightarrow> tstate" where
  "proof_inbound v ri p s =
    (if pk_context p = LRPROOF then link_proof_inbound v ri p s
     else if pk_context p = RESOURCE_PRF then
       fold (\<lambda>l. t_out (To_link_rx (ln_id l) p)) (filter (\<lambda>l. ln_id l = pk_dest_hash p) (ts_active s)) s
     else regular_proof v ri p s)"

text \<open>The sweep of \<open>jobs\<close> over the receipts: the oldest over the limit are culled, then timeouts checked.\<close>

definition sweep_receipts :: "tenv \<Rightarrow> tstate \<Rightarrow> tstate" where
  "sweep_receipts v s = s\<lparr>ts_receipts :=
     filter (\<lambda>rc. rc_status rc = R_SENT)
       (map (check_timeout (tv_now v)) (drop (length (ts_receipts s) - MAX_RECEIPTS) (ts_receipts s)))\<rparr>"

end
