(* ===== verification/TransAnn.thy ===== *)
theory TransAnn
  imports TransRelay
begin

text \<open>
  Transport, fourth part: announces. The ring of announces waiting to be repeated and what leaves it, the
  announce rate per destination, where a repeat falls on a radio, and what \<open>inbound\<close> does with an announce
  it validated: what it withdraws, whether it is fresh and worth keeping, what it queues and answers.
\<close>

section \<open>The ring\<close>

definition announce_count :: "bool \<Rightarrow> tstate \<Rightarrow> nat" where
  "announce_count held s = count_if (\<lambda>r. an_used r \<and> an_held r = held) (ts_ring s)"

definition announce_find :: "bytes \<Rightarrow> bool \<Rightarrow> ann_rec list \<Rightarrow> nat option" where
  "announce_find dest held ring =
    (if length dest \<noteq> DESTINATION_LENGTH then None
     else first_index (\<lambda>r. an_used r \<and> an_held r = held \<and> an_dest r = dest) ring)"

text \<open>The used record inserted first, the first of those in the ring.\<close>

fun oldest_used :: "ann_rec list \<Rightarrow> nat \<Rightarrow> (nat \<times> secs) option \<Rightarrow> nat option" where
  "oldest_used [] i b = map_option fst b"
| "oldest_used (r # rs) i b =
    (if an_used r \<and> (case b of None \<Rightarrow> True | Some (_, t) \<Rightarrow> an_timestamp r < t)
     then oldest_used rs (Suc i) (Some (i, an_timestamp r)) else oldest_used rs (Suc i) b)"

definition announce_alloc :: "ann_rec list \<Rightarrow> nat option \<times> ann_rec list" where
  "announce_alloc ring =
    (case first_index (\<lambda>r. \<not> an_used r) ring of
       Some i \<Rightarrow> (Some i, ring)
     | None \<Rightarrow>
        (case oldest_used ring 0 None of
           None \<Rightarrow> (None, ring)
         | Some i \<Rightarrow> (Some i, ring[i := ann_zero])))"

definition iface_prefix :: "nat option \<Rightarrow> tstate \<Rightarrow> bytes option" where
  "iface_prefix i s =
    (case i of None \<Rightarrow> None
     | Some i \<Rightarrow> let h = if_hash (ts_impl s i) in
         if length h \<ge> DESTINATION_LENGTH then Some (take DESTINATION_LENGTH h) else None)"

definition announce_rec_of ::
    "bytes \<Rightarrow> nat option \<Rightarrow> packet \<Rightarrow> secs \<Rightarrow> secs \<Rightarrow> u8 \<Rightarrow> u8 \<Rightarrow> bool \<Rightarrow> nat option \<Rightarrow> tstate \<Rightarrow> ann_rec" where
  "announce_rec_of dest ri p timestamp retransmit_at retries hops block att s =
    ann_zero\<lparr>an_dest := dest, an_data := take ANNOUNCE_DATA_MAX (pk_data p), an_timestamp := timestamp,
       an_retransmit_at := retransmit_at, an_retries := retries, an_hops := hops,
       an_context_flag := pk_context_flag p, an_used := True, an_block := block,
       an_recv_iface := (case iface_prefix ri s of Some h \<Rightarrow> h | None \<Rightarrow> zeros 16),
       an_attached_iface := (case iface_prefix att s of Some h \<Rightarrow> h | None \<Rightarrow> zeros 16),
       an_attached := (iface_prefix att s \<noteq> None)\<rparr>"

fun cull_ring :: "nat \<Rightarrow> ann_rec list \<Rightarrow> ann_rec list" where
  "cull_ring 0 ring = ring"
| "cull_ring (Suc n) ring =
    (case oldest_used ring 0 None of None \<Rightarrow> ring | Some i \<Rightarrow> cull_ring n (ring[i := ann_zero]))"

definition cull_announce_table :: "tenv \<Rightarrow> tstate \<Rightarrow> tstate" where
  "cull_announce_table v s =
    s\<lparr>ts_ring := cull_ring (announce_count False s + announce_count True s - tv_announce_max v) (ts_ring s)\<rparr>"

definition unhold :: "bytes \<Rightarrow> ann_rec list \<Rightarrow> ann_rec list" where
  "unhold dest ring =
    (case announce_find dest True ring of
       None \<Rightarrow> ring
     | Some j \<Rightarrow> ring[j := (ring ! j)\<lparr>an_held := False\<rparr>])"

section \<open>The announce rate\<close>

definition rate_bad :: "u32 \<Rightarrow> rate_rec \<Rightarrow> bool" where
  "rate_bad now r \<longleftrightarrow> rr_violations r > 0 \<or> rr_blocked_until r > now"

text \<open>The slot to give to a new destination: a free one, else one in good standing, the oldest of those.\<close>

fun rate_victim :: "u32 \<Rightarrow> rate_rec list \<Rightarrow> nat \<Rightarrow> (nat \<times> rate_rec) option \<Rightarrow> nat option" where
  "rate_victim now [] i b = map_option fst b"
| "rate_victim now (r # rs) i b =
    rate_victim now rs (Suc i)
     (if \<not> rr_used r then (case b of Some (_, w) \<Rightarrow> if rr_used w then Some (i, r) else b | None \<Rightarrow> Some (i, r))
      else case b of
        None \<Rightarrow> Some (i, r)
      | Some (_, w) \<Rightarrow>
          if \<not> rr_used w then b
          else if (rate_bad now w \<and> \<not> rate_bad now r) \<or>
                  (rate_bad now w = rate_bad now r \<and> rr_last r < rr_last w) then Some (i, r) else b)"

text \<open>One announce of a destination on record: whether it is blocked, and the record.\<close>

definition rate_step :: "u32 \<Rightarrow> u8 \<Rightarrow> u32 \<Rightarrow> u32 \<Rightarrow> rate_rec \<Rightarrow> bool \<times> rate_rec" where
  "rate_step target grace penalty now r =
    (if now \<le> rr_blocked_until r then (True, r)
     else
       let r = (if now - rr_last r < target then r\<lparr>rr_violations := rr_violations r + 1\<rparr>
                else if rr_violations r > 0 then r\<lparr>rr_violations := rr_violations r - 1\<rparr> else r)
       in if rr_violations r > ucast grace
          then (True, r\<lparr>rr_blocked_until := rr_last r + target + penalty\<rparr>)
          else (False, r\<lparr>rr_last := now\<rparr>))"

definition announce_rate_blocked :: "tenv \<Rightarrow> bytes \<Rightarrow> nat \<Rightarrow> tstate \<Rightarrow> bool \<times> tstate" where
  "announce_rate_blocked v dest i s =
    (let f = ts_impl s i; now = now32 v in
     if ts_rates s = [] \<or> if_rate_target f = 0 \<or> length dest \<noteq> DESTINATION_LENGTH then (False, s)
     else case first_index (\<lambda>r. rr_used r \<and> rr_dest r = dest) (ts_rates s) of
       None \<Rightarrow>
        (case rate_victim now (ts_rates s) 0 None of
           None \<Rightarrow> (False, s)
         | Some k \<Rightarrow> (False, s\<lparr>ts_rates := (ts_rates s)[k := \<lparr>rr_dest = dest, rr_last = now,
               rr_blocked_until = 0, rr_violations = 0, rr_used = True\<rparr>]\<rparr>))
     | Some k \<Rightarrow>
         let (blocked, r) = rate_step (if_rate_target f) (if_rate_grace f) (if_rate_penalty f) now (ts_rates s ! k)
         in (blocked, s\<lparr>ts_rates := (ts_rates s)[k := r]\<rparr>))"

section \<open>Where a repeat goes, and when\<close>

definition announce_relay_possible :: "bytes \<Rightarrow> nat option \<Rightarrow> u8 \<Rightarrow> tstate \<Rightarrow> bool" where
  "announce_relay_possible dest rcv hops s \<longleftrightarrow>
    own_dest s dest \<noteq> None \<or>
    list_ex (\<lambda>(_, i). if_out (ts_impl s i) \<and> \<not> hops > if_radius (ts_impl s i) \<and> \<not> p2p_echo rcv i s) (ts_ifaces s)"

definition announce_radio_share :: "nat \<Rightarrow> secs \<Rightarrow> tstate \<Rightarrow> secs \<times> tstate" where
  "announce_radio_share i snr s =
    (let typical = if_snr_typical (ts_impl s i);
         share = (case typical of None \<Rightarrow> 1 / 2 | Some t \<Rightarrow> 1 / 2 + (snr - t) / 20);
         share = (if share < 1 / 10 then 1 / 10 else share);
         share = (if share > 1 then 1 else share)
     in (share, upd_impl i (\<lambda>f. f\<lparr>if_snr_typical :=
           Some (case typical of None \<Rightarrow> snr | Some t \<Rightarrow> t + (snr - t) / 8)\<rparr>) s))"

definition airtime :: "iface \<Rightarrow> nat \<Rightarrow> secs" where
  "airtime f n = of_nat ((n + HEADER_MAXSIZE) * 8) / of_nat (unat (if_bitrate f))"

definition announce_radio_window :: "iface \<Rightarrow> nat \<Rightarrow> secs" where
  "announce_radio_window f n =
    min (if if_bitrate f > 0 then max PATHFINDER_RW (4 * airtime f n) else PATHFINDER_RW) 4"

definition path_answer_window :: "iface \<Rightarrow> nat \<Rightarrow> secs" where
  "path_answer_window f n =
    (let airtimes = (if if_spread f > 0 then of_nat (unat (if_spread f)) else 16) in
     min (if if_bitrate f > 0 then max PATHFINDER_RW (airtimes * airtime f n) else PATHFINDER_RW)
         (PATH_REQUEST_TIMEOUT / 2))"

text \<open>A repeat waiting to carry a path request on is moot once the destination is heard of.\<close>

definition repeats_cancel :: "bytes \<Rightarrow> tstate \<Rightarrow> tstate" where
  "repeats_cancel dest s =
    (if length dest \<noteq> DESTINATION_LENGTH then s
     else s\<lparr>ts_repeats := map (\<lambda>r. if rp_used r \<and> rp_dest r = dest then r\<lparr>rp_used := False\<rparr> else r) (ts_repeats s)\<rparr>)"

section \<open>An announce made again\<close>

text \<open>
  The packet that carries an announce on, in transport from this node. A recall that finds nothing leaves
  the destination without an identity; neither construction can throw here.
\<close>

definition announce_copy ::
    "tenv \<Rightarrow> bytes \<Rightarrow> bytes \<Rightarrow> bool \<Rightarrow> context_flag \<Rightarrow> u8 \<Rightarrow> tstate \<Rightarrow> packet res \<times> tstate" where
  "announce_copy v dest b response cf hops s =
    (let (i, s) = recall_identity v dest s in
     (rbind (destination_from_hash (tv_prims v) i DIR_OUT SINGLE dest) (\<lambda>d.
      rbind (packet_new (Some (dest_of d)) b ANNOUNCE (if response then PATH_RESPONSE else CONTEXT_NONE)
               TRANSPORT HEADER_2 (iy_hash (tv_identity v)) True cf) (\<lambda>p.
        Inr (p\<lparr>pk_hops := hops\<rparr>))), s))"

definition send_copy :: "tenv \<Rightarrow> nat option \<Rightarrow> nat option \<Rightarrow> packet res \<times> tstate \<Rightarrow> tstate" where
  "send_copy v att rcv ps =
    (case ps of (Inl _, s) \<Rightarrow> s | (Inr p, s) \<Rightarrow> transport_send v att rcv p s)"

section \<open>What an announce heard withdraws\<close>

text \<open>Another node's answer on the medium ours was going out on makes ours a duplicate.\<close>

definition drop_own_answer :: "nat \<Rightarrow> packet \<Rightarrow> tstate \<Rightarrow> tstate" where
  "drop_own_answer ri p s =
    (case announce_find (pk_dest_hash p) False (ts_ring s) of
       None \<Rightarrow> s
     | Some k \<Rightarrow>
         let mine = ts_ring s ! k; ih = if_hash (ts_impl s ri) in
         if pk_context p = PATH_RESPONSE \<and> an_block mine \<and> an_retries mine = PATHFINDER_R \<and>
            unat (pk_hops p) \<le> unat (an_hops mine) + 1 \<and> length ih \<ge> DESTINATION_LENGTH \<and>
            (\<not> an_attached mine \<or> an_attached_iface mine = take DESTINATION_LENGTH ih)
         then s\<lparr>ts_ring := unhold (pk_dest_hash p) ((ts_ring s)[k := ann_zero])\<rparr>
         else s)"

definition drop_deferred :: "nat \<Rightarrow> packet \<Rightarrow> tstate \<Rightarrow> tstate" where
  "drop_deferred ri p s = upd_impl ri (\<lambda>f. f\<lparr>if_queue := filter (\<lambda>a. \<not> (qd_dest a = pk_dest_hash p \<and>
     announce_emitted p \<ge> qd_emitted a \<and> pk_hops p \<ge> qd_hops a + 1)) (if_queue f)\<rparr>) s"

text \<open>A neighbour's repeat of an announce this node is repeating too.\<close>

definition local_rebroadcast :: "tenv \<Rightarrow> packet \<Rightarrow> ann_rec \<Rightarrow> ann_rec" where
  "local_rebroadcast v p q =
    (let back = int (unat (pk_hops p)) - 1;
         q' = (if back = int (unat (an_hops q)) then q\<lparr>an_local_rebroadcasts := an_local_rebroadcasts q + 1\<rparr> else q);
         enough = (if an_radio q then 1 else LOCAL_REBROADCASTS_MAX)
     in if back = int (unat (an_hops q)) \<and> an_local_rebroadcasts q' \<ge> enough then ann_zero
        else if back = int (unat (an_hops q')) + 1 \<and> an_retries q' > 0 \<and> tv_now v < an_timestamp q' then ann_zero
        else q')"

definition note_rebroadcast :: "tenv \<Rightarrow> nat \<Rightarrow> packet \<Rightarrow> tstate \<Rightarrow> tstate" where
  "note_rebroadcast v ri p s =
    (if pk_transport_id p = [] \<or> \<not> tv_enabled v then s
     else let s = drop_deferred ri p s in
       case announce_find (pk_dest_hash p) False (ts_ring s) of
         None \<Rightarrow> s
       | Some k \<Rightarrow> s\<lparr>ts_ring := (ts_ring s)[k := local_rebroadcast v p (ts_ring s ! k)]\<rparr>)"

section \<open>Freshness and retention\<close>

record verdict =
  vd_fresh :: bool
  vd_retain :: bool
  vd_novel :: bool
  vd_requested :: bool

definition held_packet :: "tenv \<Rightarrow> bytes \<Rightarrow> tstate \<Rightarrow> packet option" where
  "held_packet v dest s = (case held_announce (tv_penv v) dest (ts_dir s) of Inr a \<Rightarrow> a | Inl _ \<Rightarrow> None)"

definition shorter_path :: "tenv \<Rightarrow> packet \<Rightarrow> route option \<Rightarrow> tstate \<Rightarrow> bool" where
  "shorter_path v p known s =
    (case known of None \<Rightarrow> False
     | Some k \<Rightarrow> pk_hops p < rt_hops k \<and>
         (case held_packet v (pk_dest_hash p) s of None \<Rightarrow> True
          | Some h \<Rightarrow> \<not> announce_emitted p < announce_emitted h))"

definition route_better :: "tenv \<Rightarrow> packet \<Rightarrow> route option \<Rightarrow> bool \<Rightarrow> bool" where
  "route_better v p known novel =
    (case known of None \<Rightarrow> True
     | Some k \<Rightarrow> pk_hops p \<le> rt_hops k \<or> novel \<or> rt_expires k \<noteq> 0 \<and> now32 v \<ge> rt_expires k)"

definition announce_judged :: "tenv \<Rightarrow> nat \<Rightarrow> packet \<Rightarrow> tstate \<Rightarrow> verdict \<times> tstate" where
  "announce_judged v ri p s =
    (let dest = pk_dest_hash p; dir = ts_dir s;
         random_blob = announce_random_hash p;
         known = rdir_peek_route dest dir;
         have_record = rdir_peek_entry dest dir \<noteq> None;
         response = pk_context p = PATH_RESPONSE;
         requested = (response \<and> map_of (ts_path_requests s) dest \<noteq> None);
         relay_waiting = (response \<and> (case map_of (ts_discovery s) dest of None \<Rightarrow> False | Some e \<Rightarrow> \<not> pe_answered e));
         shorter = shorter_path v p known s;
         bypass = (shorter \<and> response \<or>
           (requested \<or> relay_waiting) \<and> (case known of None \<Rightarrow> True | Some k \<Rightarrow> pk_hops p \<le> rt_hops k));
         (fresh, novel, dir') =
           (if length random_blob = RANDOM_HASH_LENGTH div 8
            then rdir_guard_fresh (tv_minutes v) dest random_blob (ucast (announce_emitted p)) bypass dir
            else (False, False, dir));
         retain = (route_better v p known novel \<and> (fresh \<or> \<not> have_record \<or> shorter) \<and>
           (requested \<or> relay_waiting \<or> shorter \<or> pk_hops p = 1 \<or> pk_hops p \<le> if_radius (ts_impl s ri) \<or>
            rdir_has_claim dest dir' \<or> rdir_in_use (now32 v) dest dir'))
     in (\<lparr>vd_fresh = fresh, vd_retain = retain, vd_novel = novel, vd_requested = requested\<rparr>, s\<lparr>ts_dir := dir'\<rparr>))"

section \<open>What an accepted announce does\<close>

text \<open>Queueing it for repetition; \<open>share\<close> is its place in the radio window, where it has one.\<close>

definition queue_announce :: "tenv \<Rightarrow> nat \<Rightarrow> packet \<Rightarrow> secs option \<Rightarrow> tstate \<Rightarrow> tstate" where
  "queue_announce v ri p share s =
    (let at_time = (case share of
           None \<Rightarrow> tv_now v + tv_random v 0 * PATHFINDER_RW
         | Some share \<Rightarrow> tv_now v + announce_radio_window (ts_impl s ri) (length (pk_data p)) * share *
                          (6 / 10 + 4 / 10 * tv_random v 1));
         (slot, ring) = (case announce_find (pk_dest_hash p) False (ts_ring s) of
           Some k \<Rightarrow> (Some k, ts_ring s) | None \<Rightarrow> announce_alloc (ts_ring s));
         r = (announce_rec_of (pk_dest_hash p) (Some ri) p (tv_now v) at_time 0 (pk_hops p) False None s)
               \<lparr>an_radio := (share \<noteq> None)\<rparr>;
         s = s\<lparr>ts_ring := (case slot of None \<Rightarrow> ring | Some k \<Rightarrow> ring[k := r])\<rparr>
     in cull_announce_table v s)"

definition relay_announce :: "tenv \<Rightarrow> nat \<Rightarrow> packet \<Rightarrow> secs option \<Rightarrow> bool \<Rightarrow> tstate \<Rightarrow> tstate" where
  "relay_announce v ri p share fresh s =
    (let response = pk_context p = PATH_RESPONSE;
         (blocked, s) = (if fresh \<and> \<not> response then announce_rate_blocked v (pk_dest_hash p) ri s else (False, s))
     in if fresh \<and> tv_enabled v \<and> \<not> response then
          if blocked then s\<lparr>ts_rate_blocks := ts_rate_blocks s + 1\<rparr>
          else if \<not> announce_relay_possible (pk_dest_hash p) (Some ri) (pk_hops p) s then s
          else queue_announce v ri p share s
        else s)"

text \<open>A path request passed on for somebody is answered once, unless its asker sent the answer.\<close>

definition answer_discovery :: "tenv \<Rightarrow> packet \<Rightarrow> bool \<Rightarrow> tstate \<Rightarrow> tstate" where
  "answer_discovery v p fresh s =
    (case map_of (ts_discovery s) (pk_dest_hash p) of
       None \<Rightarrow> s
     | Some e \<Rightarrow>
         if fresh \<and> \<not> pe_answered e \<and>
            \<not> (pe_requestor e \<noteq> [] \<and> pk_transport_id p \<noteq> [] \<and> pk_transport_id p = pe_requestor e)
         then send_copy v (Some (pe_requesting e)) None
                (announce_copy v (pk_dest_hash p) (pk_data p) True (pk_context_flag p) (pk_hops p)
                  (s\<lparr>ts_discovery := amap_set (pk_dest_hash p) (e\<lparr>pe_answered := True\<rparr>) (ts_discovery s)\<rparr>))
         else s)"

definition directory_announce :: "tenv \<Rightarrow> nat \<Rightarrow> packet \<Rightarrow> bytes \<Rightarrow> tstate \<Rightarrow> announce" where
  "directory_announce v ri p received_from s =
    (let whole = length (pk_data p) \<ge> IDENT_KEYSIZE div 8 + NAME_HASH_LENGTH div 8;
         in_community = pk_hops p \<le> if_radius (ts_impl s ri)
     in \<lparr>a_pubkey = (if whole then Some (announce_key p) else None),
         a_name_hash = (if whole then Some (announce_name_hash p) else None),
         a_received_from = (if length received_from = DESTINATION_LENGTH then Some received_from else None),
         a_iface_hash = iface_prefix (Some ri) s,
         a_raw = Some (pk_raw p), a_raw_len = of_nat (length (pk_raw p)), a_hops = pk_hops p,
         a_edge = in_community, a_answer_for = in_community, a_timestamp = now32 v,
         a_expires = now32 v + path_ttl_for v (ts_impl s ri) (pk_hops p)\<rparr>)"

definition store_announce :: "tenv \<Rightarrow> nat \<Rightarrow> packet \<Rightarrow> bytes \<Rightarrow> tstate \<Rightarrow> tstate" where
  "store_announce v ri p received_from s =
    (let s = s\<lparr>ts_dir := rdir_ingest (now32 v) (pk_dest_hash p) (directory_announce v ri p received_from s) 3 (ts_dir s),
                ts_added := ts_added s + 1\<rparr>
     in cull_path_table v s)"

definition tell_handlers :: "tenv \<Rightarrow> nat \<Rightarrow> packet \<Rightarrow> tstate \<Rightarrow> tstate" where
  "tell_handlers v ri p s =
    (let whole = length (pk_data p) \<ge> announce_app_data_offset p;
         i = (if whole then load_public_key (tv_prims v) (announce_key p) identity_object else identity_object);
         nh = (if whole then announce_name_hash p else []);
         app = (if whole then announce_app_data p else []);
         rt = (if whole then announce_ratchet p else [])
     in fold (\<lambda>(k, flt). if flt = None \<or> flt = Some nh
          then t_out (Announced k (pk_dest_hash p) i app nh rt (pk_hops p) ri) else id)
          (enumerate 0 (tv_handlers v)) s)"

definition take_announce :: "tenv \<Rightarrow> nat \<Rightarrow> packet \<Rightarrow> bytes \<Rightarrow> secs option \<Rightarrow> verdict \<Rightarrow> tstate \<Rightarrow> tstate" where
  "take_announce v ri p received_from share d s =
    (let s = relay_announce v ri p share (vd_fresh d) s;
         s = answer_discovery v p (vd_fresh d) s;
         s = (if vd_retain d then store_announce v ri p received_from s else s);
         s = (if vd_novel d then mark_alive v (pk_dest_hash p) s else s)
     in if vd_fresh d \<and> (vd_requested d \<or> pk_context p \<noteq> PATH_RESPONSE) then tell_handlers v ri p s else s)"

definition announce_inbound :: "tenv \<Rightarrow> nat \<Rightarrow> packet \<Rightarrow> tstate \<Rightarrow> tstate" where
  "announce_inbound v ri p s =
    (if own_dest s (pk_dest_hash p) = None \<and> validate_announce (tv_prims v) (ts_dir s) p then
       let s = repeats_cancel (pk_dest_hash p) s;
           (share, s) = (case pk_snr p of
              Some snr \<Rightarrow> if if_p2p (ts_impl s ri) then (None, s)
                          else (let (x, s) = announce_radio_share ri snr s in (Some x, s))
            | None \<Rightarrow> (None, s));
           s = drop_own_answer ri p s;
           received_from = (if pk_transport_id p \<noteq> [] then pk_transport_id p else pk_dest_hash p);
           s = note_rebroadcast v ri p s
       in if unat (pk_hops p) < PATHFINDER_M + 1 then
            let (d, s) = announce_judged v ri p s in
            if vd_fresh d \<or> vd_retain d then take_announce v ri p received_from share d s else s
          else s
     else s)"

end
