(* ===== verification/TransPath.thy ===== *)
theory TransPath
  imports TransAnn
begin

text \<open>
  Transport, fifth part: path requests. Asking (with the cheap interfaces first), the requests of others
  and the short form a radio carries them in, the answer from a retained announce, the search on a
  community's behalf, and the repeats that walk a question toward a gateway.
\<close>

section \<open>Asking\<close>

definition APP_NAME :: bytes where
  "APP_NAME = [114, 110, 115, 116, 114, 97, 110, 115, 112, 111, 114, 116]"

definition PATH_REQUEST_ASPECTS :: bytes where
  "PATH_REQUEST_ASPECTS = [112, 97, 116, 104, 46, 114, 101, 113, 117, 101, 115, 116]"

text \<open>The packet a question is asked in; its destination is every transport node's \<open>path.request\<close>.\<close>

definition path_request_packet :: "tenv \<Rightarrow> bytes \<Rightarrow> bytes \<Rightarrow> packet res" where
  "path_request_packet v dest tag =
    rbind (destination_new (tv_prims v) [] [] None DIR_OUT PLAIN APP_NAME PATH_REQUEST_ASPECTS) (\<lambda>d.
      packet_new (Some (dest_of d))
        (if tv_enabled v then dest @ iy_hash (tv_identity v) @ tag else dest @ tag)
        DATA CONTEXT_NONE BROADCAST HEADER_1 [] True FLAG_UNSET)"

text \<open>The announce cap also holds back a question carried on for somebody else.\<close>

definition recursive_gate :: "tenv \<Rightarrow> nat \<Rightarrow> nat \<Rightarrow> tstate \<Rightarrow> bool \<times> tstate" where
  "recursive_gate v i n s =
    (let f = ts_impl s i in
     if if_queue f \<noteq> [] \<or> tv_now v < if_allowed_at f then (False, s)
     else (True, upd_impl i (\<lambda>f. f\<lparr>if_allowed_at := tv_now v + cap_wait f (n + HEADER_MINSIZE)\<rparr>) s))"

definition request_path :: "tenv \<Rightarrow> bytes \<Rightarrow> nat option \<Rightarrow> bytes \<Rightarrow> bool \<Rightarrow> tstate \<Rightarrow> tstate" where
  "request_path v dest on_iface tag recursive s =
    (let (echo, s) = (case on_iface of
        Some i \<Rightarrow> if if_p2p (ts_impl s i) then
            (let (j, s) = next_hop_interface v dest s in
             (case j of None \<Rightarrow> False | Some j \<Rightarrow> if_hash (ts_impl s j) = if_hash (ts_impl s i), s))
          else (False, s)
      | None \<Rightarrow> (False, s))
     in if echo then s
        else
          let request_tag = (if tag = [] then tv_hash v (length (ts_out s)) else tag) in
          case path_request_packet v dest request_tag of
            Inl _ \<Rightarrow> s
          | Inr p \<Rightarrow>
              let (go, s) = (case on_iface of
                  Some i \<Rightarrow> if recursive then recursive_gate v i (length (pk_data p)) s else (True, s)
                | None \<Rightarrow> (True, s))
              in if \<not> go then s
                 else
                   let s = transport_send v on_iface None p s
                   in if tag = [] then s\<lparr>ts_path_requests := amap_set dest (tv_now v) (ts_path_requests s)\<rparr> else s)"

definition interface_is_cheap :: "tenv \<Rightarrow> iface \<Rightarrow> bool" where
  "interface_is_cheap v f \<longleftrightarrow> if_bitrate f = 0 \<or> if_bitrate f \<ge> tv_cheap_bitrate v"

definition out_cheap :: "tenv \<Rightarrow> bool \<Rightarrow> tstate \<Rightarrow> nat list" where
  "out_cheap v cheap s = filter (\<lambda>i. if_out (ts_impl s i) \<and> interface_is_cheap v (ts_impl s i) = cheap)
     (map snd (ts_ifaces s))"

definition ask_each :: "tenv \<Rightarrow> bytes \<Rightarrow> nat list \<Rightarrow> tstate \<Rightarrow> tstate" where
  "ask_each v dest = fold (\<lambda>i. request_path v dest (Some i) [] False)"

definition escalate_later :: "tenv \<Rightarrow> bytes \<Rightarrow> tstate \<Rightarrow> tstate" where
  "escalate_later v dest s =
    (let due = tv_now v + tv_escalate_time v; es = ts_escalations s in
     case first_index (\<lambda>e. es_used e \<and> es_dest e = dest) es of
       Some k \<Rightarrow> s\<lparr>ts_escalations := es[k := (es ! k)\<lparr>es_due := due\<rparr>]\<rparr>
     | None \<Rightarrow>
        (case first_index (\<lambda>e. \<not> es_used e) es of
           Some k \<Rightarrow> s\<lparr>ts_escalations := es[k := \<lparr>es_dest = dest, es_due = due, es_used = True\<rparr>]\<rparr>
         | None \<Rightarrow> ask_each v dest (out_cheap v False s) s))"

definition request_path_any :: "tenv \<Rightarrow> bytes \<Rightarrow> tstate \<Rightarrow> tstate" where
  "request_path_any v dest s =
    (let cheap = out_cheap v True s; expensive = out_cheap v False s; s = ask_each v dest cheap s
     in if cheap = [] then request_path v dest None [] False s
        else if expensive = [] then s
        else escalate_later v dest s)"

definition escalate :: "tenv \<Rightarrow> nat \<Rightarrow> tstate \<Rightarrow> tstate" where
  "escalate v k s =
    (let e = ts_escalations s ! k; done = (\<lambda>s. s\<lparr>ts_escalations := (ts_escalations s)[k := e\<lparr>es_used := False\<rparr>]\<rparr>) in
     if \<not> es_used e then s
     else let (known, s) = has_path v (es_dest e) s in
       if known then done s
       else if tv_now v < es_due e then s
       else let s = done s in ask_each v (es_dest e) (out_cheap v False s) s)"

definition escalate_path_requests :: "tenv \<Rightarrow> tstate \<Rightarrow> tstate" where
  "escalate_path_requests v s = fold (escalate v) [0..<length (ts_escalations s)] s"

section \<open>Repeats toward a gateway\<close>

definition distance_of :: "tenv \<Rightarrow> bytes \<Rightarrow> u8" where
  "distance_of v tid = (if length tid < 16 then DISTANCE_UNKNOWN else tv_distance_of v tid)"

definition discovery_timeout :: secs where
  "discovery_timeout =
    max (2 * of_nat ESTABLISHMENT_TIMEOUT_PER_HOP * of_nat (unat DISTANCE_NONE)) PATH_REQUEST_TIMEOUT"

text \<open>The repeat due last: the first of those.\<close>

fun latest_repeat :: "pending_repeat list \<Rightarrow> nat \<Rightarrow> (nat \<times> secs) option \<Rightarrow> nat option" where
  "latest_repeat [] i b = map_option fst b"
| "latest_repeat (r # rs) i b =
    (if rp_used r \<and> (case b of None \<Rightarrow> True | Some (_, t) \<Rightarrow> rp_due r > t)
     then latest_repeat rs (Suc i) (Some (i, rp_due r)) else latest_repeat rs (Suc i) b)"

definition repeat_schedule :: "tenv \<Rightarrow> bytes \<Rightarrow> bytes \<Rightarrow> nat \<Rightarrow> secs \<Rightarrow> bytes \<Rightarrow> tstate \<Rightarrow> tstate" where
  "repeat_schedule v dest tag i delay asker s =
    (case iface_prefix (Some i) s of
       None \<Rightarrow> s
     | Some ih \<Rightarrow>
         if length dest \<noteq> DESTINATION_LENGTH \<or> list_ex (\<lambda>r. rp_used r \<and> rp_dest r = dest) (ts_repeats s) then s
         else
           case (case first_index (\<lambda>r. \<not> rp_used r) (ts_repeats s) of
                   Some k \<Rightarrow> Some k | None \<Rightarrow> latest_repeat (ts_repeats s) 0 None) of
             None \<Rightarrow> s
           | Some k \<Rightarrow> s\<lparr>ts_repeats := (ts_repeats s)[k := \<lparr>rp_dest = dest, rp_tag = take DESTINATION_LENGTH tag,
                 rp_iface = ih, rp_asker = (if length asker \<ge> DESTINATION_LENGTH
                   then Some (take DESTINATION_LENGTH asker) else None),
                 rp_due = tv_now v + delay, rp_used = True\<rparr>]\<rparr>)"

definition repeat_heard :: "tenv \<Rightarrow> bytes \<Rightarrow> bytes \<Rightarrow> bytes \<Rightarrow> tstate \<Rightarrow> tstate" where
  "repeat_heard v dest tag sender s =
    (case first_index (\<lambda>r. rp_used r \<and> rp_dest r = dest \<and> rp_tag r = take DESTINATION_LENGTH tag) (ts_repeats s) of
       None \<Rightarrow> s
     | Some k \<Rightarrow>
         let d = distance_of v sender in
         if d \<noteq> DISTANCE_UNKNOWN \<and> d \<le> tv_own_distance v
         then s\<lparr>ts_repeats := (ts_repeats s)[k := (ts_repeats s ! k)\<lparr>rp_used := False\<rparr>]\<rparr> else s)"

section \<open>Short path requests\<close>

definition SHORT_PR_LABEL_LEN :: nat where "SHORT_PR_LABEL_LEN = 4"
definition SHORT_PR_HINT_LEN :: nat where "SHORT_PR_HINT_LEN = 1"

definition short_pr_is_label :: "bytes \<Rightarrow> bool" where
  "short_pr_is_label h \<longleftrightarrow>
     length h = TRUNCATED_HASHLENGTH div 8 \<and> list_all (\<lambda>b. b = 0) (drop SHORT_PR_LABEL_LEN h)"

definition short_pr_names_node :: "bytes \<Rightarrow> bytes \<Rightarrow> bool" where
  "short_pr_names_node i tid \<longleftrightarrow>
    (if length tid \<noteq> length i \<or> length tid < SHORT_PR_HINT_LEN then i = tid
     else if \<not> list_all (\<lambda>b. b = 0) (drop SHORT_PR_HINT_LEN tid) then i = tid
     else tid ! 0 \<noteq> 0 \<and> take SHORT_PR_HINT_LEN i = take SHORT_PR_HINT_LEN tid)"

definition bears :: "bytes \<Rightarrow> bytes \<Rightarrow> bool" where
  "bears label h \<longleftrightarrow> take SHORT_PR_LABEL_LEN h = take SHORT_PR_LABEL_LEN label"

definition short_pr_resolve :: "bytes \<Rightarrow> tstate \<Rightarrow> bytes" where
  "short_pr_resolve label s =
    (case find (\<lambda>(d, _). length d = length label \<and> bears label d) (ts_dests s) of
       Some (d, _) \<Rightarrow> d
     | None \<Rightarrow>
        (case find (\<lambda>e. e_has_route e \<and> bears label (e_dest e)) (rdir_for_each (ts_dir s)) of
           Some e \<Rightarrow> e_dest e
         | None \<Rightarrow> []))"

section \<open>A path request of somebody else\<close>

definition path_search_possible :: "nat \<Rightarrow> tstate \<Rightarrow> bool" where
  "path_search_possible requestor s \<longleftrightarrow>
     if_radius (ts_impl s requestor) \<noteq> 0 \<and>
     list_ex (\<lambda>(_, i). if_out (ts_impl s i) \<and> i \<noteq> requestor) (ts_ifaces s)"

text \<open>\<open>Interface::DISCOVER_PATHS_FOR\<close>: access points and gateways.\<close>

definition discovers_paths :: "if_mode \<Rightarrow> bool" where
  "discovers_paths m \<longleftrightarrow> m = MODE_ACCESS_POINT \<or> m = MODE_GATEWAY"

text \<open>This node's own destination answers with an announce of its own.\<close>

definition answer_local :: "tenv \<Rightarrow> bytes \<Rightarrow> destination \<Rightarrow> nat \<Rightarrow> bytes \<Rightarrow> tstate \<Rightarrow> tstate" where
  "answer_local v dest d i tag s =
    (case destination_announce (tv_prims v) (tv_penv v) (tv_now v) (tv_hash v (length (ts_out s)))
            (tv_hash v (Suc (length (ts_out s)))) [] True tag False d of
       Inl _ \<Rightarrow> s
     | Inr (d, p) \<Rightarrow>
         let s = s\<lparr>ts_dests := amap_set dest d (ts_dests s)\<rparr>
         in case p of None \<Rightarrow> s | Some p \<Rightarrow> transport_send v (Some i) None p s)"

text \<open>A relay's answer is queued: nearer holders first, on a shared medium at a drawn moment.\<close>

definition answer_time :: "tenv \<Rightarrow> iface \<Rightarrow> route \<Rightarrow> nat \<Rightarrow> secs" where
  "answer_time v f r n =
    (if \<not> if_p2p f then
       tv_now v + PATH_REQUEST_GRACE + announce_radio_window f n / 2 *
         (if rt_hops r > 0 then of_nat (unat (rt_hops r - 1)) else 0) + tv_random v 0 * path_answer_window f n
     else tv_now v + PATH_REQUEST_GRACE)"

text \<open>The announce waiting to be repeated is held until the answer has gone out; only one can wait.\<close>

definition hold_pending :: "bytes \<Rightarrow> ann_rec list \<Rightarrow> ann_rec list" where
  "hold_pending dest ring =
    (case announce_find dest False ring of
       None \<Rightarrow> ring
     | Some k \<Rightarrow>
         let ring = (case announce_find dest True ring of None \<Rightarrow> ring | Some j \<Rightarrow> ring[j := ann_zero])
         in ring[k := (ring ! k)\<lparr>an_held := True\<rparr>])"

definition queue_answer :: "tenv \<Rightarrow> nat \<Rightarrow> route \<Rightarrow> packet \<Rightarrow> tstate \<Rightarrow> tstate" where
  "queue_answer v i r p s =
    (let (slot, ring) = announce_alloc (hold_pending (pk_dest_hash p) (ts_ring s));
         a = announce_rec_of (pk_dest_hash p) None p (tv_now v)
               (answer_time v (ts_impl s i) r (length (pk_data p))) PATHFINDER_R (pk_hops p) True (Some i) s;
         s = s\<lparr>ts_ring := (case slot of None \<Rightarrow> ring | Some k \<Rightarrow> ring[k := a])\<rparr>
     in cull_announce_table v s)"

definition answer_known :: "tenv \<Rightarrow> nat \<Rightarrow> bytes \<Rightarrow> route \<Rightarrow> nat \<Rightarrow> packet \<Rightarrow> tstate \<Rightarrow> tstate" where
  "answer_known v i requestor r j p s =
    (let p = p\<lparr>pk_hops := pk_hops p + 1\<rparr>; f = ts_impl s i in
     if if_mode f = MODE_ROAMING \<and> i = j then s
     else if requestor \<noteq> [] \<and> short_pr_names_node (rt_received_from r) requestor then s
     else if if_p2p f \<and> i = j \<and> rt_hops r > 1 then s
     else queue_answer v i r p s)"

definition downhill :: "tenv \<Rightarrow> bytes \<Rightarrow> nat \<Rightarrow> bytes \<Rightarrow> bytes \<Rightarrow> tstate \<Rightarrow> tstate" where
  "downhill v dest i requestor tag s =
    (let own = tv_own_distance v; f = ts_impl s i in
     if \<not> if_p2p f \<and> if_radius f > 0 \<and> own > 0 \<and> own < DISTANCE_NONE \<and> own < distance_of v requestor
     then repeat_schedule v dest tag i (of_nat (unat own) + tv_random v 0 / 2) requestor s else s)"

definition search :: "tenv \<Rightarrow> bytes \<Rightarrow> nat \<Rightarrow> bytes \<Rightarrow> bytes \<Rightarrow> tstate \<Rightarrow> tstate" where
  "search v dest i requestor tag s =
    (if (case map_of (ts_discovery s) dest of None \<Rightarrow> False
         | Some e \<Rightarrow> discovery_timeout - (pe_timeout e - tv_now v) < DISCOVERY_RETRY_AFTER) then s
     else if \<not> path_search_possible i s then s
     else
       let s = s\<lparr>ts_discovery := amap_insert dest \<lparr>pe_dest_hash = dest, pe_timeout = tv_now v + discovery_timeout,
             pe_requesting = i, pe_answered = False, pe_requestor = requestor\<rparr> (amap_erase dest (ts_discovery s))\<rparr>
       in fold (\<lambda>j. if j = i then id else request_path v dest (Some j) tag True) (map snd (ts_ifaces s)) s)"

definition path_request :: "tenv \<Rightarrow> bytes \<Rightarrow> nat \<Rightarrow> bytes \<Rightarrow> bytes \<Rightarrow> tstate \<Rightarrow> tstate" where
  "path_request v dest i requestor tag s =
    (let should_search = tv_enabled v \<and> discovers_paths (if_mode (ts_impl s i));
         (r, s) = peek_live_route v dest s
     in case own_dest s dest of
          Some d \<Rightarrow> answer_local v dest d i tag s
        | None \<Rightarrow>
           (case (if tv_enabled v then r else None) of
              Some (r, j) \<Rightarrow>
                (case rdir_copy_blob dest (unat MTU) (ts_dir s) of
                   Inr (b # bs) \<Rightarrow>
                     (case unpack (tv_penv v) (packet_from_raw (b # bs)) of
                        (p, True) \<Rightarrow> answer_known v i requestor r j p s
                      | (p, False) \<Rightarrow> s)
                 | _ \<Rightarrow> if should_search then search v dest i requestor tag (downhill v dest i requestor tag s) else s)
            | None \<Rightarrow> if should_search then search v dest i requestor tag (downhill v dest i requestor tag s) else s))"

text \<open>The request's data: the destination, the asker's transport id where there is room for it, the tag.\<close>

definition request_parts :: "bytes \<Rightarrow> bytes \<times> bytes \<times> bytes" where
  "request_parts d =
    (let n = TRUNCATED_HASHLENGTH div 8;
         requestor = (if length d > n * 2 then bmid_len n n d else []);
         tag = (if length d > n * 2 then bmid (n * 2) d else if length d > n then bmid n d else [])
     in (bleft n d, requestor, if length tag > n then bleft n tag else tag))"

definition path_request_handler :: "tenv \<Rightarrow> nat \<Rightarrow> bytes \<Rightarrow> tstate \<Rightarrow> tstate" where
  "path_request_handler v i d s =
    (if length d \<ge> TRUNCATED_HASHLENGTH div 8 then
       let (dest, requestor, tag) = request_parts d; unique_tag = dest @ tag in
       if tag = [] then s
       else if unique_tag \<in> set (ts_tags s) then repeat_heard v dest tag requestor s
       else
         let s = s\<lparr>ts_tags := ts_tags s @ [unique_tag]\<rparr>;
             full = (if short_pr_is_label dest then short_pr_resolve dest s else []);
             asked = (if full \<noteq> [] then full else dest)
         in path_request v asked i requestor tag s
     else s)"

text \<open>Oldest tags first, down to the limit.\<close>

definition cull_tags :: "tenv \<Rightarrow> tstate \<Rightarrow> tstate" where
  "cull_tags v s = s\<lparr>ts_tags := drop (length (ts_tags s) - tv_pr_tags_max v) (ts_tags s)\<rparr>"

section \<open>Timers\<close>

text \<open>One emission of a queued announce: the packet, and what it leaves in the ring.\<close>

definition announce_rec_emit :: "tenv \<Rightarrow> nat \<Rightarrow> tstate \<Rightarrow> (nat option \<times> nat option \<times> packet res) \<times> tstate" where
  "announce_rec_emit v k s =
    (let r = (ts_ring s ! k)\<lparr>an_retransmit_at := tv_now v + PATHFINDER_G + PATHFINDER_RW,
               an_retries := an_retries (ts_ring s ! k) + 1\<rparr>;
         att = (if an_attached r then find_interface_from_hash_prefix (an_attached_iface r) s else None);
         (p, s) = announce_copy v (an_dest r) (an_data r) (an_block r) (an_context_flag r) (an_hops r) s;
         rcv = find_interface_from_hash_prefix (an_recv_iface r) s;
         ring = (ts_ring s)[k := r];
         ring = (if announce_find (an_dest r) True ring \<noteq> None
                 then unhold (an_dest r) (ring[k := ann_zero]) else ring)
     in ((att, rcv, p), s\<lparr>ts_ring := ring\<rparr>))"

definition announce_rec_timed :: "ann_rec \<Rightarrow> bool" where
  "announce_rec_timed r \<longleftrightarrow> an_used r \<and> \<not> an_held r \<and>
    (if an_block r then \<not> (an_retries r > 0 \<and> an_retries r \<ge> LOCAL_REBROADCASTS_MAX) \<and> \<not> an_retries r > PATHFINDER_R
     else an_radio r \<and> an_retries r = 0)"

type_synonym emissions = "(nat option \<times> nat option \<times> packet res) list"

definition emit_timed :: "tenv \<Rightarrow> nat \<Rightarrow> emissions \<times> tstate \<Rightarrow> emissions \<times> tstate" where
  "emit_timed v k es =
    (let (out1, s) = es; r = ts_ring s ! k in
     if \<not> announce_rec_timed r \<or> tv_now v \<le> an_retransmit_at r then (out1, s)
     else let (e, s) = announce_rec_emit v k s in (out1 @ [e], s))"

definition send_emission :: "tenv \<Rightarrow> nat option \<times> nat option \<times> packet res \<Rightarrow> tstate \<Rightarrow> tstate" where
  "send_emission v e s = (case e of (att, rcv, p) \<Rightarrow> send_copy v att rcv (p, s))"

definition repeat_due :: "tenv \<Rightarrow> nat \<Rightarrow> tstate \<Rightarrow> tstate" where
  "repeat_due v k s =
    (let r = ts_repeats s ! k in
     if \<not> rp_used r \<or> tv_now v < rp_due r then s
     else
       let s = s\<lparr>ts_repeats := (ts_repeats s)[k := r\<lparr>rp_used := False\<rparr>]\<rparr> in
       case find_interface_from_hash_prefix (rp_iface r) s of
         None \<Rightarrow> s
       | Some i \<Rightarrow>
           let (known, s) = has_path v (rp_dest r) s in
           if known then s
           else
             let s = (if map_of (ts_discovery s) (rp_dest r) = None then
                   s\<lparr>ts_discovery := amap_insert (rp_dest r) \<lparr>pe_dest_hash = rp_dest r,
                       pe_timeout = tv_now v + discovery_timeout, pe_requesting = i, pe_answered = False,
                       pe_requestor = (case rp_asker r of Some a \<Rightarrow> a | None \<Rightarrow> [])\<rparr> (ts_discovery s)\<rparr>
                 else s)
             in request_path v (rp_dest r) (Some i) (rp_tag r) False s)"

definition timers :: "tenv \<Rightarrow> tstate \<Rightarrow> tstate" where
  "timers v s =
    (let (es, s) = fold (emit_timed v) [0..<length (ts_ring s)] ([], s);
         s = fold (send_emission v) es s
     in fold (repeat_due v) [0..<length (ts_repeats s)] s)"

end
