(* ===== verification/TransIn.thy ===== *)
theory TransIn
  imports TransPath
begin

text \<open>
  Transport, last part: \<open>inbound\<close>, the whole way of a received frame; the periodic \<open>jobs\<close>; and the
  operations the rest of the program calls. What \<open>jobs\<close> asks of the links is handed to them as outputs.
\<close>

section \<open>Inbound\<close>

definition request_inbound :: "tenv \<Rightarrow> packet \<Rightarrow> tstate \<Rightarrow> tstate" where
  "request_inbound v p s =
    (if pk_transport_id p = [] \<or> pk_transport_id p = iy_hash (tv_identity v) then
       (case own_dest s (pk_dest_hash p) of
          None \<Rightarrow> s
        | Some d \<Rightarrow> if dn_type d = pk_dest_type p
            then t_out (To_destination (pk_dest_hash p) (p\<lparr>pk_dest := Some (dest_of d)\<rparr>)) s else s)
     else s)"

definition path_request_hash :: "tenv \<Rightarrow> bytes" where
  "path_request_hash v = (case address_hash (tv_prims v) None APP_NAME PATH_REQUEST_ASPECTS of Inr h \<Rightarrow> h | Inl _ \<Rightarrow> [])"

text \<open>
  Data for a destination of this node. The one for path requests has \<open>path_request_handler\<close> as its
  callback and proves nothing; of the others the receipt is handed on.
\<close>

definition data_inbound :: "tenv \<Rightarrow> nat \<Rightarrow> packet \<Rightarrow> tstate \<Rightarrow> tstate" where
  "data_inbound v ri p s =
    (if pk_dest_type p = LINK then
       fold (\<lambda>l. t_out (To_link_rx (ln_id l) p)) (filter (\<lambda>l. ln_id l = pk_dest_hash p) (ts_active s)) s
     else
       case own_dest s (pk_dest_hash p) of
         None \<Rightarrow> s
       | Some d \<Rightarrow>
           if dn_type d \<noteq> pk_dest_type p then s
           else
             let p = p\<lparr>pk_dest := Some (dest_of d)\<rparr>;
                 s = t_out (To_destination (pk_dest_hash p) p) s;
                 s = (if pk_dest_hash p = path_request_hash v \<and> dn_type d = PLAIN \<and> pk_data p \<noteq> []
                      then path_request_handler v ri (pk_data p) s else s)
             in case dn_strategy d of
                  PROVE_ALL \<Rightarrow> t_out (Prove_packet p) s
                | PROVE_APP \<Rightarrow> t_out (Proof_asked (pk_dest_hash p) p) s
                | PROVE_NONE \<Rightarrow> s)"

definition local_handling :: "tenv \<Rightarrow> nat \<Rightarrow> packet \<Rightarrow> tstate \<Rightarrow> tstate" where
  "local_handling v ri p s =
    (case pk_packet_type p of
       ANNOUNCE \<Rightarrow> announce_inbound v ri p s
     | LINKREQUEST \<Rightarrow> request_inbound v p s
     | DATA \<Rightarrow> data_inbound v ri p s
     | PROOF \<Rightarrow> proof_inbound v ri p s)"

text \<open>The packet as it is handled: one hop further, with the signal it was received at.\<close>

definition received :: "iface \<Rightarrow> packet \<Rightarrow> packet" where
  "received f p = p\<lparr>pk_hops := pk_hops p + 1,
     pk_rssi := (case if_rssi f of Some x \<Rightarrow> Some x | None \<Rightarrow> pk_rssi p),
     pk_snr := (case if_snr f of Some x \<Rightarrow> Some x | None \<Rightarrow> pk_snr p)\<rparr>"

definition defers_hash :: "packet \<Rightarrow> tstate \<Rightarrow> bool" where
  "defers_hash p s \<longleftrightarrow> map_of (ts_links s) (pk_dest_hash p) \<noteq> None \<or> pk_packet_type p = PROOF \<and> pk_context p = LRPROOF"

definition accepted_packet :: "tenv \<Rightarrow> nat \<Rightarrow> packet \<Rightarrow> tstate \<Rightarrow> tstate" where
  "accepted_packet v ri p s =
    (let s = (if defers_hash p s then s else remember_hash (pk_packet_hash p) s);
         s = (if pk_packet_type p \<noteq> ANNOUNCE then repeats_cancel (pk_dest_hash p) s else s);
         (go, p, s) = transport_handling v ri p s
     in if go then local_handling v ri p s else s)"

definition inbound_packet :: "tenv \<Rightarrow> nat \<Rightarrow> packet \<Rightarrow> tstate \<Rightarrow> tstate" where
  "inbound_packet v ri p s =
    (let p = received (ts_impl s ri) p;
         s = (if pk_transport_id p \<noteq> [] \<and> pk_packet_type p = ANNOUNCE then mark_alive v (pk_transport_id p) s else s)
     in if tv_filter v p \<and> packet_filter v p s then accepted_packet v ri p s else s)"

definition transport_inbound :: "tenv \<Rightarrow> bytes \<Rightarrow> nat \<Rightarrow> tstate \<Rightarrow> tstate \<times> fault option" where
  "transport_inbound v raw ri s =
    (let s = s\<lparr>ts_received := ts_received s + 1\<rparr> in
     case ifac_unwrap (tv_prims v) (Some (ts_impl s ri)) raw of
       Inl x \<Rightarrow> (s, Some x)
     | Inr None \<Rightarrow> (s, None)
     | Inr (Some raw) \<Rightarrow>
         (case unpack (tv_penv v) (packet_from_raw (fst (route_trailer_strip raw))) of
            (p, False) \<Rightarrow> (s, None)
          | (p, True) \<Rightarrow> (inbound_packet v ri p s, None)))"

section \<open>The jobs\<close>

text \<open>
  Links. A closed link leaves its list; one not established within its timeout is torn down; an
  initiator's closed link on a node that is no relay has its path expired and asked for again. The result
  is the state, the destinations to ask for, and the links to tear down.
\<close>

definition half_open :: "tenv \<Rightarrow> link \<Rightarrow> bool" where
  "half_open v l \<longleftrightarrow> (ln_status l = PENDING \<or> ln_status l = HANDSHAKE) \<and> lk_establishment_timeout l > 0 \<and>
     tv_now v \<ge> lk_request_time l + lk_establishment_timeout l"

definition asked_lately :: "tenv \<Rightarrow> bytes \<Rightarrow> tstate \<Rightarrow> bool" where
  "asked_lately v dest s \<longleftrightarrow>
     \<not> tv_now v - (case map_of (ts_path_requests s) dest of Some t \<Rightarrow> t | None \<Rightarrow> 0) > PATH_REQUEST_MI"

text \<open>A set of destinations, in the order of their hashes.\<close>

definition note_ask :: "bytes \<Rightarrow> bytes list \<Rightarrow> bytes list" where
  "note_ask dest asks = map fst (amap_insert dest () (map (\<lambda>h. (h, ())) asks))"

definition lost_path :: "tenv \<Rightarrow> link \<Rightarrow> bytes list \<times> tstate \<Rightarrow> bytes list \<times> tstate" where
  "lost_path v l ps =
    (let (asks, s) = ps in
     case lk_dest l of
       None \<Rightarrow> (asks, s)
     | Some d \<Rightarrow>
         if ln_status l = CLOSED \<and> \<not> tv_enabled v then
           let s = remove_path (dn_hash d) s
           in (if asked_lately v (dn_hash d) s then asks else note_ask (dn_hash d) asks, s)
         else (asks, s))"

definition sweep_links :: "tenv \<Rightarrow> tstate \<Rightarrow> bytes list \<times> link list \<times> tstate" where
  "sweep_links v s =
    (let (asks, s) = fold (lost_path v) (ts_pending s) ([], s);
         gone = (\<lambda>l. ln_status l = CLOSED \<or> half_open v l);
         reaped = filter (\<lambda>l. ln_status l \<noteq> CLOSED \<and> half_open v l) (ts_pending s @ ts_active s)
     in (asks, reaped, s\<lparr>ts_pending := filter (\<lambda>l. \<not> gone l) (ts_pending s),
                         ts_active := filter (\<lambda>l. \<not> gone l) (ts_active s)\<rparr>))"

text \<open>The announces due, a few per pass from where the last pass stopped.\<close>

definition spent :: "ann_rec \<Rightarrow> bool" where
  "spent r \<longleftrightarrow> an_retries r > 0 \<and> an_retries r \<ge> LOCAL_REBROADCASTS_MAX \<or> an_retries r > PATHFINDER_R"

fun emit_due :: "tenv \<Rightarrow> nat list \<Rightarrow> nat \<Rightarrow> emissions \<Rightarrow> tstate \<Rightarrow> emissions \<times> tstate" where
  "emit_due v [] budget es s = (es, s)"
| "emit_due v (k # ks) budget es s =
    (if budget = 0 then (es, s)
     else let r = ts_ring s ! k in
       if \<not> an_used r \<or> an_held r then emit_due v ks budget es s
       else if spent r then emit_due v ks budget es (s\<lparr>ts_ring := (ts_ring s)[k := ann_zero]\<rparr>)
       else if tv_now v \<le> an_retransmit_at r then emit_due v ks budget es s
       else let (e, s) = announce_rec_emit v k s
            in emit_due v ks (budget - 1) (es @ [e]) (s\<lparr>ts_cursor := Suc k mod length (ts_ring s)\<rparr>))"

definition sweep_announces :: "tenv \<Rightarrow> tstate \<Rightarrow> emissions \<times> tstate" where
  "sweep_announces v s =
    (if \<not> tv_enabled v then ([], drop_announce_queues (s\<lparr>ts_ring := map (\<lambda>_. ann_zero) (ts_ring s)\<rparr>))
     else emit_due v (map (\<lambda>k. (ts_cursor s + k) mod length (ts_ring s)) [0..<length (ts_ring s)])
            ANNOUNCE_EMITS_PER_PASS [] s)"

section \<open>Culling the tables\<close>

definition link_stale :: "tenv \<Rightarrow> link_entry \<Rightarrow> bool" where
  "link_stale v e \<longleftrightarrow>
    (if le_validated e then tv_now v > le_timestamp e + LINK_TIMEOUT
     else case le_proof_timeout e of None \<Rightarrow> False | Some t \<Rightarrow> tv_now v > t)"

text \<open>Whether a link request that was never proved is reason to ask for the path again.\<close>

definition ask_again :: "tenv \<Rightarrow> link_entry \<Rightarrow> bytes list \<times> tstate \<Rightarrow> bytes list \<times> tstate" where
  "ask_again v e ps =
    (let (asks, s) = ps in
     if le_validated e \<or> \<not> link_stale v e then (asks, s)
     else
       let dest = le_dest_hash e;
           last = (case map_of (ts_path_requests s) dest of Some t \<Rightarrow> t | None \<Rightarrow> 0);
           throttle = tv_now v - last < PATH_REQUEST_MI;
           (known, s) = has_path v dest s;
           again = (\<not> known \<or> \<not> throttle \<and> (le_hops e = 0 \<or> hops_to dest s = 1 \<or> le_hops e = 1))
       in if again then (note_ask dest asks, if tv_enabled v then s else remove_path dest s) else (asks, s))"

definition cull_links :: "tenv \<Rightarrow> bytes list \<times> tstate \<Rightarrow> bytes list \<times> tstate" where
  "cull_links v ps =
    (let (asks, s) = fold (ask_again v) (map snd (ts_links (snd ps))) ps
     in (asks, s\<lparr>ts_links := filter (\<lambda>(_, e). \<not> link_stale v e) (ts_links s)\<rparr>))"

definition cull_reverse :: "tenv \<Rightarrow> tstate \<Rightarrow> tstate" where
  "cull_reverse v s =
    s\<lparr>ts_reverse := filter (\<lambda>(_, e). \<not> tv_now v > rv_timestamp e + REVERSE_TIMEOUT) (ts_reverse s)\<rparr>"

text \<open>The first so many entries that have expired go.\<close>

fun drop_some :: "nat \<Rightarrow> ('a \<Rightarrow> bool) \<Rightarrow> 'a list \<Rightarrow> 'a list" where
  "drop_some n P [] = []"
| "drop_some n P (x # xs) =
    (if n > 0 \<and> P x then drop_some (n - 1) P xs else x # drop_some n P xs)"

definition cull_discovery :: "tenv \<Rightarrow> tstate \<Rightarrow> tstate" where
  "cull_discovery v s =
    s\<lparr>ts_discovery := drop_some CULL_PER_PASS (\<lambda>(_, e). tv_now v > pe_timeout e) (ts_discovery s)\<rparr>"

definition cull_path_requests :: "tenv \<Rightarrow> tstate \<Rightarrow> tstate" where
  "cull_path_requests v s =
    s\<lparr>ts_path_requests := drop_some CULL_PER_PASS (\<lambda>(_, t). tv_now v > t + DESTINATION_TIMEOUT) (ts_path_requests s)\<rparr>"

definition cull_tables :: "tenv \<Rightarrow> bytes list \<times> tstate \<Rightarrow> bytes list \<times> tstate" where
  "cull_tables v ps =
    (let (asks, s) = cull_links v (fst ps, cull_reverse v (snd ps))
     in (asks, cull_path_requests v (cull_discovery v s)))"

section \<open>One run of the jobs\<close>

text \<open>Which of the periodic checks are due in this run.\<close>

record jobs_due =
  du_links :: bool
  du_receipts :: bool
  du_announces :: bool
  du_tables :: bool

definition ask_everywhere :: "tenv \<Rightarrow> bytes \<Rightarrow> tstate \<Rightarrow> tstate" where
  "ask_everywhere v dest s =
    fold (\<lambda>i s. if if_out (ts_impl s i) then request_path v dest (Some i) [] False s else s) (map snd (ts_ifaces s)) s"

definition transport_jobs :: "tenv \<Rightarrow> jobs_due \<Rightarrow> tstate \<Rightarrow> tstate" where
  "transport_jobs v d s =
    (let (asks, reaped, s) = (if du_links d then sweep_links v s else ([], [], s));
         (s, resends) = (if du_links d then sweep_repairs v s else (s, []));
         proofs = (if du_links d then filter (\<lambda>l. proof_repair_armed l \<and> tv_now v \<ge> lk_proof_sent_at l +
             (case lk_iface l of Some i \<Rightarrow> handshake_repair_wait (lk_request_hops l) (ts_impl s i)
              | None \<Rightarrow> 2 * of_nat ESTABLISHMENT_TIMEOUT_PER_HOP * of_nat (unat (max 1 (lk_request_hops l)))))
             (ts_active s) else []);
         watched = (if du_links d then ts_active s else []);
         s = (if du_receipts d then sweep_receipts v s else s);
         (es, s) = (if du_announces d then sweep_announces v s else ([], s));
         s = (if tv_enabled v then drain_queues v s else s);
         s = cull_tags v (cull_hashes v s);
         (asks, s) = (if du_tables d then cull_tables v (asks, s) else (asks, s));
         s = escalate_path_requests v s;
         s = fold (\<lambda>l. t_out (Tear_down (ln_id l))) reaped s;
         s = fold (\<lambda>l. t_out (Repair_proof (ln_id l))) proofs s;
         s = fold (resend_repair v) resends s;
         s = fold (\<lambda>l. t_out (Watch_link (ln_id l))) watched s;
         s = fold (send_emission v) es s
     in fold (ask_everywhere v) asks s)"

section \<open>Registration\<close>

definition register_destination :: "destination \<Rightarrow> tstate \<Rightarrow> tstate res" where
  "register_destination d s =
    (if dn_direction d = DIR_IN then
       (if own_dest s (dn_hash d) \<noteq> None then Inl Runtime_error
        else Inr (s\<lparr>ts_dests := amap_insert (dn_hash d) d (ts_dests s)\<rparr>))
     else Inr s)"

definition deregister_destination :: "destination \<Rightarrow> tstate \<Rightarrow> tstate" where
  "deregister_destination d s = s\<lparr>ts_dests := amap_erase (dn_hash d) (ts_dests s)\<rparr>"

definition register_link :: "link \<Rightarrow> tstate \<Rightarrow> tstate" where
  "register_link l s =
    (if lk_initiator l then s\<lparr>ts_pending := ts_pending s @ [l]\<rparr> else s\<lparr>ts_active := ts_active s @ [l]\<rparr>)"

definition find_active_link :: "bytes \<Rightarrow> tstate \<Rightarrow> link option" where
  "find_active_link h s = find (\<lambda>l. ln_id l = h) (ts_active s)"

text \<open>A pending link becomes an active one; it must have reached ACTIVE.\<close>

definition activate_link :: "link \<Rightarrow> tstate \<Rightarrow> tstate res" where
  "activate_link l s =
    (if l \<in> set (ts_pending s) then
       (if ln_status l \<noteq> ACTIVE then Inl Runtime_error
        else Inr (s\<lparr>ts_pending := removeAll l (ts_pending s), ts_active := ts_active s @ [l]\<rparr>))
     else Inr s)"

text \<open>The transport as it starts: every table empty, the fixed ones at their sizes.\<close>

definition transport_start :: "rdir \<Rightarrow> (nat \<Rightarrow> iface) \<Rightarrow> nat \<Rightarrow> nat \<Rightarrow> tstate" where
  "transport_start dir impl slots rates = \<lparr>ts_impl = impl, ts_ifaces = [], ts_dests = [], ts_dir = dir,
     ts_hashes = [], ts_reverse = [], ts_links = [], ts_repairs = replicate HANDSHAKE_REPAIR_SLOTS repair_object,
     ts_repairs_sent = 0, ts_repairs_helped = 0, ts_ring = replicate (max 1 slots) ann_zero, ts_cursor = 0,
     ts_rates = replicate rates \<lparr>rr_dest = zeros 16, rr_last = 0, rr_blocked_until = 0, rr_violations = 0,
       rr_used = False\<rparr>,
     ts_rate_blocks = 0, ts_queue_drops = 0, ts_path_requests = [], ts_discovery = [], ts_tags = [],
     ts_repeats = replicate 24 \<lparr>rp_dest = zeros 16, rp_tag = [], rp_iface = zeros 16, rp_asker = None,
       rp_due = 0, rp_used = False\<rparr>,
     ts_escalations = replicate 16 \<lparr>es_dest = zeros 16, es_due = 0, es_used = False\<rparr>,
     ts_receipts = [], ts_pending = [], ts_active = [], ts_sent = 0, ts_received = 0, ts_added = 0,
     ts_out = []\<rparr>"

end
