(* ===== verification/TransInv.thy ===== *)
theory TransInv
  imports TransIn DirProps
begin

text \<open>
  The well-formedness of the transport's tables, kept by every operation: one record per destination and
  state in the announce ring, one entry per key in every map, one waiting copy per destination in a
  bounded queue, the fixed tables at their sizes.
\<close>

named_theorems sane_intros

section \<open>Maps\<close>

lemma map_fst_place: "set (map fst (amap_place k v m)) = insert k (set (map fst m))"
  by (induction k v m rule: amap_place.induct) auto

lemma distinct_place: "k \<notin> set (map fst m) \<Longrightarrow> distinct (map fst m) \<Longrightarrow> distinct (map fst (amap_place k v m))"
  using map_fst_place by (induction k v m rule: amap_place.induct) (auto simp: map_fst_place [unfolded set_map])

lemma map_of_None: "map_of m k = None \<longleftrightarrow> k \<notin> set (map fst m)"
  by (simp add: map_of_eq_None_iff)

lemma distinct_insert: "distinct (map fst m) \<Longrightarrow> distinct (map fst (amap_insert k v m))"
  by (simp add: amap_insert_def map_of_None distinct_place del: set_map)

lemma map_fst_set: "map fst (map (\<lambda>(j, w). (j, if j = k then v else w)) m) = map fst m"
  by (induction m) auto

lemma distinct_set: "distinct (map fst m) \<Longrightarrow> distinct (map fst (amap_set k v m))"
  by (simp add: amap_set_def map_of_None distinct_place map_fst_set del: set_map map_map)

lemma distinct_fst_filter: "distinct (map fst m) \<Longrightarrow> distinct (map fst (filter P m))"
  by (induction m) auto

lemma distinct_erase: "distinct (map fst m) \<Longrightarrow> distinct (map fst (amap_erase k m))"
  unfolding amap_erase_def by (rule distinct_fst_filter)

lemma map_of_place: "map_of (amap_place k v m) j = (if j = k \<and> map_of m k = None then Some v
    else if j = k then map_of (amap_place k v m) k else map_of m j)"
  by (induction k v m rule: amap_place.induct) auto

lemma map_of_place_new: "map_of m k = None \<Longrightarrow> map_of (amap_place k v m) = (map_of m)(k \<mapsto> v)"
  by (rule ext) (simp add: map_of_place)

lemma map_of_insert: "map_of (amap_insert k v m) = (if map_of m k = None then (map_of m)(k \<mapsto> v) else map_of m)"
  by (simp add: amap_insert_def map_of_place_new)

lemma map_of_replace: "map_of (map (\<lambda>(j, w). (j, if j = k then v else w)) m) j =
    (if j = k then map_option (\<lambda>_. v) (map_of m k) else map_of m j)"
  by (induction m) auto

lemma map_of_set: "map_of (amap_set k v m) = (map_of m)(k \<mapsto> v)"
  by (rule ext) (auto simp: amap_set_def map_of_place_new map_of_replace)

lemma map_of_erase: "map_of (amap_erase k m) = (map_of m)(k := None)"
  by (rule ext, induction m) (auto simp: amap_erase_def)

lemma set_drop_some: "set (drop_some n P xs) \<subseteq> set xs"
  by (induction n P xs rule: drop_some.induct) auto

lemma distinct_drop_some: "distinct (map fst m) \<Longrightarrow> distinct (map fst (drop_some n P m))"
proof (induction n P m rule: drop_some.induct)
  case (2 n P x xs)
  have "fst x \<notin> fst ` set (drop_some n P xs)" using 2(3) set_drop_some [of n P xs] by auto
  with 2 show ?case by (simp add: image_iff)
qed simp

section \<open>The fixed tables as pools\<close>

abbreviation ann_key :: "ann_rec \<Rightarrow> bytes \<times> bool" where
  "ann_key r \<equiv> (an_dest r, an_held r)"

interpretation ring: slot_pool an_used ann_key "\<lambda>_. ann_zero"
  by unfold_locales (simp add: ann_zero_def)

interpretation repeats: slot_pool rp_used rp_dest "\<lambda>r. r\<lparr>rp_used := False\<rparr>"
  by unfold_locales simp

interpretation escal: slot_pool es_used es_dest "\<lambda>e. e\<lparr>es_used := False\<rparr>"
  by unfold_locales simp

interpretation rates: slot_pool rr_used rr_dest "\<lambda>r. r\<lparr>rr_used := False\<rparr>"
  by unfold_locales simp

definition slot_ok :: "ann_rec \<Rightarrow> bool" where
  "slot_ok r \<longleftrightarrow> (an_used r \<longrightarrow> length (an_dest r) = DESTINATION_LENGTH \<and> length (an_data r) \<le> ANNOUNCE_DATA_MAX \<and>
     an_retries r \<le> LOCAL_REBROADCASTS_MAX)"

definition ring_ok :: "ann_rec list \<Rightarrow> bool" where
  "ring_ok ring \<longleftrightarrow> uniq an_used ann_key ring \<and> (\<forall>r \<in> set ring. slot_ok r)"

definition queue_ok :: "iface \<Rightarrow> bool" where
  "queue_ok f \<longleftrightarrow> length (if_queue f) \<le> MAX_QUEUED_ANNOUNCES \<and> distinct (map qd_dest (if_queue f))"

text \<open>The sizes the fixed tables were allocated at.\<close>

definition shape :: "tstate \<Rightarrow> nat \<times> nat \<times> nat \<times> nat \<times> nat" where
  "shape s = (length (ts_ring s), length (ts_repairs s), length (ts_rates s), length (ts_repeats s),
     length (ts_escalations s))"

definition maps_ok :: "tstate \<Rightarrow> bool" where
  "maps_ok s \<longleftrightarrow> distinct (map fst (ts_ifaces s)) \<and> distinct (map fst (ts_dests s)) \<and>
     distinct (map fst (ts_reverse s)) \<and> distinct (map fst (ts_links s)) \<and>
     distinct (map fst (ts_discovery s)) \<and> distinct (map fst (ts_path_requests s)) \<and>
     distinct (ts_hashes s) \<and> distinct (ts_tags s)"

definition sane :: "nat \<times> nat \<times> nat \<times> nat \<times> nat \<Rightarrow> tstate \<Rightarrow> bool" where
  "sane z s \<longleftrightarrow> shape s = z \<and> ring_ok (ts_ring s) \<and> uniq rp_used rp_dest (ts_repeats s) \<and>
     uniq es_used es_dest (ts_escalations s) \<and> uniq rr_used rr_dest (ts_rates s) \<and> maps_ok s \<and>
     (\<forall>i. queue_ok (ts_impl s i))"

text \<open>An update of fields that the invariant does not read, or of a directory, keeps it.\<close>

lemma sane_updates [simp]:
  "sane z (s\<lparr>ts_dir := a\<rparr>) = sane z s" "sane z (s\<lparr>ts_out := b\<rparr>) = sane z s"
  "sane z (s\<lparr>ts_sent := c\<rparr>) = sane z s" "sane z (s\<lparr>ts_received := c\<rparr>) = sane z s"
  "sane z (s\<lparr>ts_added := c\<rparr>) = sane z s" "sane z (s\<lparr>ts_queue_drops := c\<rparr>) = sane z s"
  "sane z (s\<lparr>ts_rate_blocks := c\<rparr>) = sane z s" "sane z (s\<lparr>ts_repairs_sent := c\<rparr>) = sane z s"
  "sane z (s\<lparr>ts_repairs_helped := c\<rparr>) = sane z s" "sane z (s\<lparr>ts_receipts := d\<rparr>) = sane z s"
  "sane z (s\<lparr>ts_pending := e\<rparr>) = sane z s" "sane z (s\<lparr>ts_active := e\<rparr>) = sane z s"
  "sane z (s\<lparr>ts_cursor := n\<rparr>) = sane z s"
  by (simp_all add: sane_def shape_def maps_ok_def)

lemma sane_impl:
  "sane z s \<Longrightarrow> queue_ok (g (ts_impl s i)) \<Longrightarrow> sane z (upd_impl i g s)"
  by (simp add: sane_def shape_def maps_ok_def upd_impl_def)

lemma sane_queue: "sane z s \<Longrightarrow> queue_ok (ts_impl s i)"
  by (simp add: sane_def)

lemma sane_ring: "sane z s \<Longrightarrow> ring_ok r \<Longrightarrow> length r = length (ts_ring s) \<Longrightarrow> sane z (s\<lparr>ts_ring := r\<rparr>)"
  by (simp add: sane_def shape_def maps_ok_def)

lemma sane_ring_ok: "sane z s \<Longrightarrow> ring_ok (ts_ring s)"
  by (simp add: sane_def)

lemma sane_links: "sane z s \<Longrightarrow> distinct (map fst m) \<Longrightarrow> sane z (s\<lparr>ts_links := m\<rparr>)"
  "sane z s \<Longrightarrow> distinct (map fst m') \<Longrightarrow> sane z (s\<lparr>ts_reverse := m'\<rparr>)"
  "sane z s \<Longrightarrow> distinct (map fst m'') \<Longrightarrow> sane z (s\<lparr>ts_discovery := m''\<rparr>)"
  "sane z s \<Longrightarrow> distinct (map fst t) \<Longrightarrow> sane z (s\<lparr>ts_path_requests := t\<rparr>)"
  "sane z s \<Longrightarrow> distinct (map fst q) \<Longrightarrow> sane z (s\<lparr>ts_dests := q\<rparr>)"
  "sane z s \<Longrightarrow> distinct (map fst f) \<Longrightarrow> sane z (s\<lparr>ts_ifaces := f\<rparr>)"
  "sane z s \<Longrightarrow> distinct h \<Longrightarrow> sane z (s\<lparr>ts_hashes := h\<rparr>)"
  "sane z s \<Longrightarrow> distinct h \<Longrightarrow> sane z (s\<lparr>ts_tags := h\<rparr>)"
  by (simp_all add: sane_def shape_def maps_ok_def)

lemma sane_maps: "sane z s \<Longrightarrow> distinct (map fst (ts_links s))" "sane z s \<Longrightarrow> distinct (map fst (ts_reverse s))"
  "sane z s \<Longrightarrow> distinct (map fst (ts_discovery s))" "sane z s \<Longrightarrow> distinct (map fst (ts_path_requests s))"
  "sane z s \<Longrightarrow> distinct (map fst (ts_dests s))" "sane z s \<Longrightarrow> distinct (map fst (ts_ifaces s))"
  "sane z s \<Longrightarrow> distinct (ts_hashes s)" "sane z s \<Longrightarrow> distinct (ts_tags s)"
  by (simp_all add: sane_def maps_ok_def)

lemmas map_sane = distinct_insert distinct_set distinct_erase distinct_fst_filter distinct_drop_some sane_maps

lemma sane_slots:
  "sane z s \<Longrightarrow> length r = length (ts_repairs s) \<Longrightarrow> sane z (s\<lparr>ts_repairs := r\<rparr>)"
  "sane z s \<Longrightarrow> length p = length (ts_repeats s) \<Longrightarrow> uniq rp_used rp_dest p \<Longrightarrow> sane z (s\<lparr>ts_repeats := p\<rparr>)"
  "sane z s \<Longrightarrow> length e = length (ts_escalations s) \<Longrightarrow> uniq es_used es_dest e \<Longrightarrow> sane z (s\<lparr>ts_escalations := e\<rparr>)"
  "sane z s \<Longrightarrow> length t = length (ts_rates s) \<Longrightarrow> uniq rr_used rr_dest t \<Longrightarrow> sane z (s\<lparr>ts_rates := t\<rparr>)"
  by (simp_all add: sane_def shape_def maps_ok_def)

section \<open>Operations that touch no table\<close>

lemma sane_t_out [simp]: "sane z (t_out x s) = sane z s"
  by (simp add: t_out_def)

lemma sane_wire [simp]: "sane z (wire v i raw s) = sane z s"
  by (simp add: wire_def split: sum.split)

lemma sane_peek [simp]: "sane z (snd (peek_live_route v d s)) = sane z s"
  by (simp add: peek_live_route_def split: option.split)

lemma sane_lookups [simp]:
  "sane z (snd (has_path v d s)) = sane z s" "sane z (snd (next_hop_interface v d s)) = sane z s"
  "sane z (snd (first_hop_timeout v d s)) = sane z s" "sane z (remove_path d s) = sane z s"
  "sane z (mark_alive v d s) = sane z s" "sane z (touch_route v d x s) = sane z s"
  "sane z (cull_path_table v s) = sane z s" "sane z (snd (recall_identity v d s)) = sane z s"
  by (simp_all add: has_path_def next_hop_interface_def first_hop_timeout_def next_hop_per_byte_latency_def
      next_hop_per_bit_latency_def next_hop_interface_bitrate_def remove_path_def mark_alive_def
      touch_route_def cull_path_table_def recall_identity_def Let_def split_beta)

lemma sane_fold:
  "(\<And>x s. sane z s \<Longrightarrow> sane z (f x s)) \<Longrightarrow> sane z s \<Longrightarrow> sane z (fold f xs s)"
  by (induction xs arbitrary: s) auto

lemma sane_fold_snd:
  "(\<And>x b s. sane z s \<Longrightarrow> sane z (snd (f x (b, s)))) \<Longrightarrow> sane z s \<Longrightarrow> sane z (snd (fold f xs (b, s)))"
  by (induction xs arbitrary: b s) (auto, metis prod.collapse)

lemma sane_remember [sane_intros]: "sane z s \<Longrightarrow> sane z (remember_hash h s)"
  by (auto simp: remember_hash_def intro!: sane_links dest: sane_maps)

section \<open>Sending\<close>

lemma queue_okI [intro]: "queue_ok f \<Longrightarrow> queue_ok (f\<lparr>if_allowed_at := t\<rparr>)" "queue_ok f \<Longrightarrow> queue_ok (f\<lparr>if_snr_typical := x\<rparr>)"
  by (simp_all add: queue_ok_def)

lemma sane_send_routed [sane_intros]: "sane z s \<Longrightarrow> sane z (snd (send_routed v r i p s))"
  by (simp add: send_routed_def Let_def split_beta)

lemma queue_replace:
  assumes "queue_ok f" "first_index (\<lambda>e. qd_dest e = qd_dest n) (if_queue f) = Some k"
  shows "queue_ok (f\<lparr>if_queue := (if_queue f)[k := n]\<rparr>)"
proof -
  from first_index_Some [OF assms(2)] have k: "k < length (if_queue f)" "qd_dest (if_queue f ! k) = qd_dest n" by auto
  then have "map qd_dest ((if_queue f)[k := n]) = map qd_dest (if_queue f)"
    by (simp add: map_update) (metis length_map list_update_id nth_map)
  then show ?thesis using assms(1) by (simp add: queue_ok_def)
qed

lemma queue_append:
  assumes "queue_ok f" "length (if_queue f) < MAX_QUEUED_ANNOUNCES"
    "first_index (\<lambda>e. qd_dest e = qd_dest n) (if_queue f) = None"
  shows "queue_ok (f\<lparr>if_queue := if_queue f @ [n]\<rparr>)"
  using assms by (auto simp: queue_ok_def first_index_None)

lemma sane_hold [sane_intros]: "sane z s \<Longrightarrow> sane z (snd (hold_announce v p i s))"
  using sane_queue [of z s i]
  by (auto simp: hold_announce_def Let_def intro!: sane_impl queue_replace queue_append split: option.split)

lemma sane_cap [sane_intros]: "sane z s \<Longrightarrow> sane z (snd (snd (cap_verdict v rcv p i s)))"
  using sane_queue [of z s i] sane_hold [of z s]
  by (auto simp: cap_verdict_def Let_def split_beta intro!: sane_impl)

lemma sane_next_hop_allows [simp]: "sane z (snd (next_hop_allows v b p s)) = sane z s"
  by (simp add: next_hop_allows_def Let_def split_beta)

lemma sane_verdict [sane_intros]: "sane z s \<Longrightarrow> sane z (snd (snd (announce_verdict v rcv p i s)))"
  using sane_cap [of z s] by (simp add: announce_verdict_def Let_def split_beta)

lemma sane_broadcast_on [sane_intros]: "sane z s \<Longrightarrow> sane z (snd (broadcast_on v att rcv pinned p i (b, s)))"
  using sane_verdict [of z s] by (auto simp: broadcast_on_def Let_def split_beta intro: sane_remember)

lemma sane_broadcast_all [sane_intros]: "sane z s \<Longrightarrow> sane z (snd (broadcast_all v att rcv pinned p s))"
  unfolding broadcast_all_def by (erule sane_fold_snd [rotated]) (rule sane_broadcast_on)

lemma sane_receipt [simp]: "sane z (snd (snd (make_receipt v p d s))) = sane z s"
  by (simp add: make_receipt_def Let_def split_beta split: sum.split)

lemma sane_outbound [sane_intros]: "sane z s \<Longrightarrow> sane z (snd (snd (outbound v att rcv pin p s)))"
  by (auto simp: outbound_def Let_def split_beta split: option.split intro: sane_send_routed sane_broadcast_all)

lemma sane_send [sane_intros]: "sane z s \<Longrightarrow> sane z (transport_send v att rcv p s)"
  by (auto simp: transport_send_def split: prod.split option.split intro: sane_outbound)


lemma sane_send_copy [sane_intros]: "sane z (snd ps) \<Longrightarrow> sane z (send_copy v att rcv ps)"
  by (auto simp: send_copy_def split: prod.split sum.split intro: sane_send)

lemma queue_filter: "queue_ok f \<Longrightarrow> queue_ok (f\<lparr>if_queue := filter P (if_queue f)\<rparr>)"
  by (auto simp: queue_ok_def distinct_map intro: order.trans [OF length_filter_le] inj_on_subset)

lemma distinct_cut:
  assumes "distinct xs"
  shows "distinct (take i xs @ drop (Suc i) xs)"
proof (cases "i < length xs")
  case True
  have "distinct (take i xs @ xs ! i # drop (Suc i) xs)"
    by (subst id_take_nth_drop [OF True, symmetric]) (rule assms)
  then show ?thesis by simp
qed (use assms in simp)

lemma queue_cut: "queue_ok f \<Longrightarrow> if_queue g = take i (if_queue f) @ drop (Suc i) (if_queue f) \<Longrightarrow> queue_ok g"
  using distinct_cut [of "map qd_dest (if_queue f)" i] by (auto simp: queue_ok_def take_map drop_map)

lemma queue_drained: "queue_ok f \<Longrightarrow> queue_ok (fst (process_announce_queue now f))"
  using queue_filter [of f "\<lambda>q. \<not> now > qd_time q + QUEUED_ANNOUNCE_LIFE"]
  by (auto simp: process_announce_queue_def Let_def split: list.split intro: queue_cut)

lemma sane_drain [sane_intros]: "sane z s \<Longrightarrow> sane z (drain_queue v i s)"
  using queue_drained [OF sane_queue, of z s "tv_now v" i]
  by (auto simp: drain_queue_def Let_def split_beta intro: sane_impl split: option.split)

lemma sane_drains [sane_intros]: "sane z s \<Longrightarrow> sane z (drain_queues v s)"
  unfolding drain_queues_def by (rule sane_fold [OF sane_drain])

lemma sane_drop_queues [sane_intros]: "sane z s \<Longrightarrow> sane z (drop_announce_queues s)"
  unfolding drop_announce_queues_def by (rule sane_fold) (auto intro!: sane_impl simp: queue_ok_def)

section \<open>Relaying\<close>

lemma sane_keep [sane_intros]: "sane z s \<Longrightarrow> sane z (keep_for_repair v k lid raw i w s)"
  by (auto simp: keep_for_repair_def intro: sane_slots split: option.split)

lemma sane_answered [sane_intros]: "sane z s \<Longrightarrow> sane z (repair_answered v k lid s)"
  unfolding repair_answered_def by (intro sane_slots) simp_all

lemma sane_insert_links: "sane z s \<Longrightarrow> sane z (s\<lparr>ts_links := amap_insert k e (ts_links s)\<rparr>)"
    "sane z s \<Longrightarrow> sane z (s\<lparr>ts_links := amap_set k e (ts_links s)\<rparr>)"
    "sane z s \<Longrightarrow> sane z (s\<lparr>ts_reverse := amap_insert k r (ts_reverse s)\<rparr>)"
    "sane z s \<Longrightarrow> sane z (s\<lparr>ts_reverse := amap_erase k (ts_reverse s)\<rparr>)"
  by (auto intro!: sane_links map_sane)

lemma peek_sane: "peek_live_route v d s = (r, s') \<Longrightarrow> sane z s \<Longrightarrow> sane z s'"
  using sane_peek [of z v d s] by simp

lemma sane_forward [sane_intros]: "sane z s \<Longrightarrow> sane z (snd (forward_packet v ri p s))"
  using peek_sane [of v "pk_dest_hash p" s _ _ z]
  by (auto simp: forward_packet_def Let_def split: option.split prod.split
      intro!: sane_keep sane_insert_links)

lemma sane_link_transport [sane_intros]: "sane z s \<Longrightarrow> sane z (link_transport v ri p s)"
  unfolding link_transport_def Let_def
  by (auto split: option.split intro!: sane_answered sane_remember sane_insert_links
      sane_insert_links [of z "wire v i x s" for i x, unfolded])

lemma sane_transport_handling [sane_intros]: "sane z s \<Longrightarrow> sane z (snd (snd (transport_handling v ri p s)))"
  by (auto simp: transport_handling_def Let_def split_beta intro!: sane_link_transport sane_forward)

lemma sane_out_fold [simp]: "sane z (fold (\<lambda>l. t_out (f l)) ls s) = sane z s"
  by (induction ls arbitrary: s) auto

lemma sane_pass [sane_intros]: "sane z s \<Longrightarrow> sane z (pass_link_proof v p e s)"
  by (auto simp: pass_link_proof_def Let_def intro!: sane_keep sane_insert_links sane_answered)

lemma sane_link_proof [sane_intros]: "sane z s \<Longrightarrow> sane z (link_proof_inbound v ri p s)"
  by (auto simp: link_proof_inbound_def link_proof_transport_def Let_def split_beta
      intro!: sane_pass split: option.split sum.split)

lemma sane_proof_transport [sane_intros]: "sane z s \<Longrightarrow> sane z (proof_transport v ri p s)"
  by (auto simp: proof_transport_def Let_def intro!: sane_insert_links split: option.split)

lemma sane_alive_after [simp]: "sane z (alive_after_proof v p rc s) = sane z s"
  by (simp add: alive_after_proof_def split: option.split)

lemma sane_settle [sane_intros]: "sane z s \<Longrightarrow> sane z (settle_receipts v p s)"
  unfolding settle_receipts_def Let_def split_beta by (rule sane_fold) simp_all

lemma sane_proof [sane_intros]: "sane z s \<Longrightarrow> sane z (proof_inbound v ri p s)"
  by (auto simp: proof_inbound_def regular_proof_def Let_def intro!: sane_link_proof sane_settle sane_proof_transport)

section \<open>The announce ring\<close>

lemma slot_ok_zero [simp]: "slot_ok ann_zero"
  by (simp add: slot_ok_def ann_zero_def)

lemma ring_zero [intro]: "ring_ok ring \<Longrightarrow> ring_ok (ring[i := ann_zero])"
  using ring.uniq_wipe [of ring i] by (auto simp: ring_ok_def dest: set_update_subset_insert [THEN subsetD])

lemma ring_put:
  "ring_ok ring \<Longrightarrow> slot_ok r \<Longrightarrow> uniq an_used ann_key (ring[i := r]) \<Longrightarrow> ring_ok (ring[i := r])"
  by (auto simp: ring_ok_def dest: set_update_subset_insert [THEN subsetD])

lemma announce_find_Some:
  "announce_find d h ring = Some k \<Longrightarrow> k < length ring \<and> an_used (ring ! k) \<and> an_held (ring ! k) = h \<and>
     an_dest (ring ! k) = d \<and> length d = DESTINATION_LENGTH"
  using first_index_Some [of _ ring k] by (auto simp: announce_find_def split: if_splits)

lemma announce_find_None:
  "length d = DESTINATION_LENGTH \<Longrightarrow>
   announce_find d h ring = None \<longleftrightarrow> (\<forall>r \<in> set ring. an_used r \<longrightarrow> ann_key r \<noteq> (d, h))"
  by (auto simp: announce_find_def first_index_None)

lemma announce_find_slot:
  "length d = DESTINATION_LENGTH \<Longrightarrow> announce_find d h ring = None \<Longrightarrow> slot_find an_used ann_key (d, h) ring = None"
  by (simp add: announce_find_None slot_find_None)

lemma nth_shift: "Suc i \<le> k \<Longrightarrow> (x # xs) ! (k - i) = xs ! (k - Suc i)"
  by (simp add: nth_Cons')

lemma oldest_used_Some:
  "oldest_used rs i b = Some k \<Longrightarrow> (\<exists>t. b = Some (k, t)) \<or> i \<le> k \<and> k - i < length rs \<and> an_used (rs ! (k - i))"
proof (induction rs i b rule: oldest_used.induct)
  case (2 r rs i b)
  show ?case
  proof (cases "an_used r \<and> (case b of None \<Rightarrow> True | Some (_, t) \<Rightarrow> an_timestamp r < t)")
    case True
    with 2 have "k = i \<or> Suc i \<le> k \<and> k - Suc i < length rs \<and> an_used (rs ! (k - Suc i))" by auto
    then show ?thesis using True by (auto simp: nth_shift)
  next
    case False
    with 2(2) [OF False] 2(3) show ?thesis by (auto simp: nth_shift simp del: oldest_used.simps(1))
  qed
qed auto

lemma oldest_used_None: "oldest_used rs i b = None \<longleftrightarrow> b = None \<and> (\<forall>r \<in> set rs. \<not> an_used r)"
  by (induction rs i b rule: oldest_used.induct) (auto split: option.splits)

lemma alloc_ring:
  assumes "announce_alloc ring = (slot, ring')" "ring_ok ring"
  shows "ring_ok ring'" and "length ring' = length ring"
    and "slot = Some k \<Longrightarrow> k < length ring' \<and> \<not> an_used (ring' ! k)"
    and "\<And>r. r \<in> set ring' \<Longrightarrow> an_used r \<Longrightarrow> r \<in> set ring"
proof -
  have z: "r \<in> set ring" if "r \<in> set (ring[i := ann_zero])" "an_used r" for r i
    using set_update_subset_insert [THEN subsetD, OF that(1)] that(2) by (auto simp: ann_zero_def)
  from assms show "ring_ok ring'" "length ring' = length ring"
    "slot = Some k \<Longrightarrow> k < length ring' \<and> \<not> an_used (ring' ! k)"
    "\<And>r. r \<in> set ring' \<Longrightarrow> an_used r \<Longrightarrow> r \<in> set ring"
    using oldest_used_Some [of ring 0 None k] first_index_Some [of "\<lambda>r. \<not> an_used r" ring k] z
    by (auto simp: announce_alloc_def ann_zero_def [THEN arg_cong [of _ _ an_used]] split: option.splits)
qed

lemma ring_fresh:
  "ring_ok ring \<Longrightarrow> slot_ok r \<Longrightarrow> slot_find an_used ann_key (ann_key r) ring = None \<Longrightarrow> ring_ok (ring[i := r])"
  by (rule ring_put) (auto intro: ring.uniq_fresh simp: ring_ok_def)

lemma ring_same:
  "ring_ok ring \<Longrightarrow> slot_ok r \<Longrightarrow> i < length ring \<Longrightarrow> an_used (ring ! i) \<Longrightarrow> ann_key r = ann_key (ring ! i) \<Longrightarrow>
   ring_ok (ring[i := r])"
  by (rule ring_put) (auto intro: ring.uniq_same simp: ring_ok_def)

lemma cull_ring_ok: "ring_ok ring \<Longrightarrow> ring_ok (cull_ring n ring) \<and> length (cull_ring n ring) = length ring"
  by (induction n ring rule: cull_ring.induct) (auto split: option.split)

lemma sane_cull [sane_intros]: "sane z s \<Longrightarrow> sane z (cull_announce_table v s)"
  unfolding cull_announce_table_def by (rule sane_ring) (use cull_ring_ok sane_ring_ok in blast)+

lemma ring_nth: "ring_ok ring \<Longrightarrow> k < length ring \<Longrightarrow> slot_ok (ring ! k)"
  by (simp add: ring_ok_def)

lemma unhold_ok:
  assumes "ring_ok ring" "slot_find an_used ann_key (dest, False) ring = None"
  shows "ring_ok (unhold dest ring)"
proof (cases "announce_find dest True ring")
  case (Some j)
  note f = announce_find_Some [OF Some]
  from assms f have "ring_ok (ring[j := (ring ! j)\<lparr>an_held := False\<rparr>])"
    using ring_nth [of ring j] by (intro ring_fresh) (auto simp: slot_ok_def)
  with Some show ?thesis by (simp add: unhold_def)
qed (use assms in \<open>simp add: unhold_def\<close>)

lemma unhold_length [simp]: "length (unhold dest ring) = length ring"
  by (simp add: unhold_def split: option.split)

lemma zero_then_unhold:
  assumes "ring_ok ring" "k < length ring" "an_used (ring ! k)" "an_dest (ring ! k) = dest" "\<not> an_held (ring ! k)"
  shows "ring_ok (unhold dest (ring[k := ann_zero]))"
proof (rule unhold_ok)
  show "ring_ok (ring[k := ann_zero])" using assms(1) by blast
  show "slot_find an_used ann_key (dest, False) (ring[k := ann_zero]) = None"
    using ring.find_wiped [of ring k] assms by (simp add: ring_ok_def)
qed

section \<open>Announces\<close>

lemma ann_rec_ok: "length dest = DESTINATION_LENGTH \<Longrightarrow> retries \<le> LOCAL_REBROADCASTS_MAX \<Longrightarrow>
   slot_ok (announce_rec_of dest ri p t at1 retries hops block att s)"
  by (simp add: slot_ok_def announce_rec_of_def)

lemma ann_rec_key [simp]: "an_dest (announce_rec_of dest ri p t at1 retries hops block att s) = dest"
    "an_held (announce_rec_of dest ri p t at1 retries hops block att s) = False"
  by (simp_all add: announce_rec_of_def ann_zero_def)

lemma sane_radio [simp]: "sane z s \<Longrightarrow> sane z (snd (announce_radio_share i snr s))"
  using sane_queue [of z s i] by (auto simp: announce_radio_share_def Let_def intro!: sane_impl)

lemma sane_repeats_cancel [sane_intros]: "sane z s \<Longrightarrow> sane z (repeats_cancel d s)"
proof -
  assume s: "sane z s"
  have "uniq rp_used rp_dest (map (\<lambda>r. if rp_used r \<and> rp_dest r = d then r\<lparr>rp_used := False\<rparr> else r) (ts_repeats s))"
    using s by (auto simp: sane_def uniq_nth)
  with s show ?thesis by (simp add: repeats_cancel_def sane_slots)
qed

lemma sane_copy [simp]: "sane z (snd (announce_copy v d b r cf h s)) = sane z s"
  by (simp add: announce_copy_def split_beta)

lemma sane_own_answer [sane_intros]: "sane z s \<Longrightarrow> sane z (drop_own_answer ri p s)"
proof (cases "announce_find (pk_dest_hash p) False (ts_ring s)")
  case (Some k)
  assume s: "sane z s"
  have "ring_ok (unhold (pk_dest_hash p) ((ts_ring s)[k := ann_zero]))"
    using announce_find_Some [OF Some] s by (intro zero_then_unhold) (auto dest: sane_ring_ok)
  with s Some show ?thesis by (auto simp: drop_own_answer_def Let_def intro: sane_ring)
qed (simp add: drop_own_answer_def)

lemma sane_drop_deferred [sane_intros]: "sane z s \<Longrightarrow> sane z (drop_deferred ri p s)"
  unfolding drop_deferred_def by (rule sane_impl) (auto intro: queue_filter sane_queue)

lemma local_rebroadcast_ok:
  "slot_ok q \<Longrightarrow> slot_ok (local_rebroadcast v p q)"
  "an_used (local_rebroadcast v p q) \<Longrightarrow> ann_key (local_rebroadcast v p q) = ann_key q"
  by (auto simp: local_rebroadcast_def Let_def slot_ok_def ann_zero_def)

lemma ring_rebroadcast:
  assumes "ring_ok ring" "k < length ring" "an_used (ring ! k)"
  shows "ring_ok (ring[k := local_rebroadcast v p (ring ! k)])"
proof (rule ring_put [OF assms(1)])
  show "slot_ok (local_rebroadcast v p (ring ! k))" using assms ring_nth local_rebroadcast_ok by blast
  show "uniq an_used ann_key (ring[k := local_rebroadcast v p (ring ! k)])"
  proof (cases "an_used (local_rebroadcast v p (ring ! k))")
    case True
    then show ?thesis using assms local_rebroadcast_ok(2) [OF True] by (intro ring.uniq_same) (auto simp: ring_ok_def)
  next
    case False
    with assms show ?thesis by (auto simp: ring_ok_def uniq_nth nth_list_update)
  qed
qed

lemma sane_note_rebroadcast [sane_intros]: "sane z s \<Longrightarrow> sane z (note_rebroadcast v ri p s)"
  using sane_drop_deferred [of z s ri p]
  by (auto simp: note_rebroadcast_def Let_def dest!: announce_find_Some
      intro!: sane_ring ring_rebroadcast intro: sane_ring_ok split: option.split)

lemma sane_judged [simp]: "sane z (snd (announce_judged v ri p s)) = sane z s"
  by (simp add: announce_judged_def Let_def split_beta)

lemma rate_step_key: "rr_used (snd (rate_step t g p now r)) = rr_used r" "rr_dest (snd (rate_step t g p now r)) = rr_dest r"
  by (simp_all add: rate_step_def Let_def)

lemma sane_rate [sane_intros]: "sane z s \<Longrightarrow> sane z (snd (announce_rate_blocked v d i s))"
proof -
  assume s: "sane z s"
  then have u: "uniq rr_used rr_dest (ts_rates s)" by (simp add: sane_def)
  have new: "uniq rr_used rr_dest ((ts_rates s)[k := r])"
    if "first_index (\<lambda>r. rr_used r \<and> rr_dest r = d) (ts_rates s) = None" "rr_dest r = d" for k r
    using u that by (intro rates.uniq_fresh) (simp_all add: slot_find_def)
  have old: "uniq rr_used rr_dest ((ts_rates s)[k := snd (rate_step t g p now (ts_rates s ! k))])"
    if "first_index (\<lambda>r. rr_used r \<and> rr_dest r = d) (ts_rates s) = Some k" for k t g p now
    using u first_index_Some [OF that] by (intro rates.uniq_same) (simp_all add: rate_step_key)
  show ?thesis using s new old
    by (auto simp: announce_rate_blocked_def Let_def split_beta intro!: sane_slots split: option.split)
qed

lemma sane_queue_announce [sane_intros]:
  assumes s: "sane z s" and d: "length (pk_dest_hash p) = DESTINATION_LENGTH"
  shows "sane z (queue_announce v ri p share s)"
proof -
  let ?r = "\<lambda>t. (announce_rec_of (pk_dest_hash p) (Some ri) p (tv_now v) t 0 (pk_hops p) False None s)
               \<lparr>an_radio := (share \<noteq> None)\<rparr>"
  have ok: "slot_ok (?r t)" for t using ann_rec_ok [OF d, of 0] by (simp add: slot_ok_def)
  have r: "ring_ok (ts_ring s)" using s by (rule sane_ring_ok)
  show ?thesis
  proof (cases "announce_find (pk_dest_hash p) False (ts_ring s)")
    case (Some k)
    have "ring_ok ((ts_ring s)[k := ?r t])" for t
      using announce_find_Some [OF Some] r ok by (intro ring_same) auto
    with s Some show ?thesis by (auto simp: queue_announce_def Let_def intro!: sane_cull sane_ring)
  next
    case None
    obtain slot ring' where a: "announce_alloc (ts_ring s) = (slot, ring')" by fastforce
    note al = alloc_ring [OF a r]
    have "slot_find an_used ann_key (pk_dest_hash p, False) ring' = None"
      using announce_find_slot [OF d None] al(4) by (auto simp: slot_find_None)
    then have "ring_ok (ring'[k := ?r t])" for k t
      using ok by (intro ring_fresh [OF al(1)]) simp_all
    with s None a al show ?thesis
      by (auto simp: queue_announce_def Let_def split: option.split intro!: sane_cull sane_ring)
  qed
qed

lemma sane_relay_announce [sane_intros]:
  "sane z s \<Longrightarrow> length (pk_dest_hash p) = DESTINATION_LENGTH \<Longrightarrow> sane z (relay_announce v ri p share f s)"
  using sane_rate [of z s v "pk_dest_hash p" ri]
  by (auto simp: relay_announce_def Let_def split_beta intro!: sane_queue_announce)

lemma sane_answer_discovery [sane_intros]: "sane z s \<Longrightarrow> sane z (answer_discovery v p f s)"
  by (auto simp: answer_discovery_def intro!: sane_send_copy sane_links map_sane split: option.split)

lemma sane_store [sane_intros]: "sane z s \<Longrightarrow> sane z (store_announce v ri p r s)"
  by (simp add: store_announce_def)

lemma sane_tell [simp]: "sane z s \<Longrightarrow> sane z (tell_handlers v ri p s)"
  unfolding tell_handlers_def Let_def by (rule sane_fold) (auto split: prod.split)

lemma sane_accepted [sane_intros]:
  "sane z s \<Longrightarrow> length (pk_dest_hash p) = DESTINATION_LENGTH \<Longrightarrow> sane z (take_announce v ri p rf share d s)"
  by (auto simp: take_announce_def Let_def intro!: sane_tell sane_store sane_answer_discovery sane_relay_announce)

lemma sane_announce_inbound [sane_intros]:
  "sane z s \<Longrightarrow> length (pk_dest_hash p) = DESTINATION_LENGTH \<Longrightarrow> sane z (announce_inbound v ri p s)"
  unfolding announce_inbound_def Let_def split_beta
  by (auto intro!: sane_accepted sane_radio sane_note_rebroadcast sane_own_answer sane_repeats_cancel split: option.split)

section \<open>Path requests\<close>

lemma nh_iface_sane: "next_hop_interface v d s = (x, s') \<Longrightarrow> sane z s \<Longrightarrow> sane z s'"
  using sane_lookups(2) [of z v d s] by simp

lemma sane_gate [sane_intros]: "sane z s \<Longrightarrow> sane z (snd (recursive_gate v i n s))"
  using sane_queue [of z s i] by (auto simp: recursive_gate_def Let_def intro!: sane_impl)

lemma sane_asked: "sane z s \<Longrightarrow> sane z (s\<lparr>ts_path_requests := amap_set d t (ts_path_requests s)\<rparr>)"
  by (intro sane_links map_sane)

lemma sane_request_path [sane_intros]: "sane z s \<Longrightarrow> sane z (request_path v d oi tag r s)"
  unfolding request_path_def Let_def split_beta
  by (auto intro!: sane_asked sane_send sane_gate split: option.split sum.split)

lemma sane_ask_each [sane_intros]: "sane z s \<Longrightarrow> sane z (ask_each v d is s)"
  unfolding ask_each_def by (rule sane_fold [OF sane_request_path])

lemma sane_escalate_later [sane_intros]: "sane z s \<Longrightarrow> sane z (escalate_later v d s)"
proof -
  assume s: "sane z s"
  then have u: "uniq es_used es_dest (ts_escalations s)" by (simp add: sane_def)
  have new: "uniq es_used es_dest ((ts_escalations s)[k := r])"
    if "first_index (\<lambda>e. es_used e \<and> es_dest e = d) (ts_escalations s) = None" "es_dest r = d" for k r
    using u that by (intro escal.uniq_fresh) (simp_all add: slot_find_def)
  have old: "uniq es_used es_dest ((ts_escalations s)[k := (ts_escalations s ! k)\<lparr>es_due := t\<rparr>])"
    if "first_index (\<lambda>e. es_used e \<and> es_dest e = d) (ts_escalations s) = Some k" for k t
    using u first_index_Some [OF that] by (intro escal.uniq_same) simp_all
  show ?thesis using s new old
    by (auto simp: escalate_later_def Let_def intro!: sane_slots sane_ask_each split: option.split)
qed

lemma sane_request_any [sane_intros]: "sane z s \<Longrightarrow> sane z (request_path_any v d s)"
  by (auto simp: request_path_any_def Let_def intro!: sane_escalate_later sane_request_path sane_ask_each)

lemma sane_uniq:
  "sane z s \<Longrightarrow> uniq es_used es_dest (ts_escalations s)" "sane z s \<Longrightarrow> uniq rp_used rp_dest (ts_repeats s)"
  "sane z s \<Longrightarrow> uniq rr_used rr_dest (ts_rates s)"
  by (simp_all add: sane_def)

lemma sane_escalation_done:
  "sane z s \<Longrightarrow> sane z s' \<Longrightarrow> ts_escalations s' = ts_escalations s \<Longrightarrow>
   sane z (s'\<lparr>ts_escalations := (ts_escalations s')[k := (ts_escalations s ! k)\<lparr>es_used := False\<rparr>]\<rparr>)"
  using escal.uniq_wipe [OF sane_uniq(1), of z s k] by (intro sane_slots) simp_all

lemma peek_keeps [simp]:
  "ts_escalations (snd (peek_live_route v d s)) = ts_escalations s"
  "ts_repeats (snd (peek_live_route v d s)) = ts_repeats s"
  "ts_ring (snd (peek_live_route v d s)) = ts_ring s"
  by (simp_all add: peek_live_route_def split: option.split)

lemma has_path_keeps [simp]:
  "ts_escalations (snd (has_path v d s)) = ts_escalations s"
  "ts_repeats (snd (has_path v d s)) = ts_repeats s"
  by (simp_all add: has_path_def split_beta)

lemma sane_escalate [sane_intros]: "sane z s \<Longrightarrow> sane z (escalate v k s)"
  using sane_escalation_done [of z s "snd (has_path v (es_dest (ts_escalations s ! k)) s)" k]
  by (auto simp: escalate_def Let_def split_beta intro!: sane_ask_each)

lemma sane_escalates [sane_intros]: "sane z s \<Longrightarrow> sane z (escalate_path_requests v s)"
  unfolding escalate_path_requests_def by (rule sane_fold [OF sane_escalate])

lemma sane_schedule [sane_intros]: "sane z s \<Longrightarrow> sane z (repeat_schedule v d tag i delay asker s)"
proof -
  assume s: "sane z s"
  have "uniq rp_used rp_dest ((ts_repeats s)[k := r])"
    if "\<not> list_ex (\<lambda>r. rp_used r \<and> rp_dest r = d) (ts_repeats s)" "rp_dest r = d" for k r
    using s that by (intro repeats.uniq_fresh) (auto simp: slot_find_None list_ex_iff sane_def)
  with s show ?thesis by (auto simp: repeat_schedule_def intro!: sane_slots split: option.split)
qed

lemma sane_repeat_done:
  "sane z s \<Longrightarrow> sane z (s\<lparr>ts_repeats := (ts_repeats s)[k := (ts_repeats s ! k)\<lparr>rp_used := False\<rparr>]\<rparr>)"
  using repeats.uniq_wipe [OF sane_uniq(2), of z s k] by (intro sane_slots) simp_all

lemma sane_heard [sane_intros]: "sane z s \<Longrightarrow> sane z (repeat_heard v d tag sender s)"
  by (auto simp: repeat_heard_def Let_def intro: sane_repeat_done split: option.split)

lemma sane_answer_local [sane_intros]: "sane z s \<Longrightarrow> sane z (answer_local v d de i tag s)"
  by (auto simp: answer_local_def Let_def intro!: sane_send sane_links map_sane split: sum.split option.split)

lemma hold_pending_ok:
  assumes r: "ring_ok ring" and d: "length dest = DESTINATION_LENGTH"
  shows "ring_ok (hold_pending dest ring) \<and> length (hold_pending dest ring) = length ring \<and>
    slot_find an_used ann_key (dest, False) (hold_pending dest ring) = None"
proof (cases "announce_find dest False ring")
  case None
  with r announce_find_slot [OF d None] show ?thesis by (simp add: hold_pending_def)
next
  case (Some k)
  note k = announce_find_Some [OF Some]
  define ring' where "ring' = (case announce_find dest True ring of None \<Rightarrow> ring | Some j \<Rightarrow> ring[j := ann_zero])"
  have ok: "ring_ok ring'" using r by (auto simp: ring'_def split: option.split)
  have len: "length ring' = length ring" by (simp add: ring'_def split: option.split)
  have same: "ring' ! k = ring ! k"
  proof (cases "announce_find dest True ring")
    case (Some j)
    then have "j \<noteq> k" using k announce_find_Some [OF Some] by auto
    with Some show ?thesis by (simp add: ring'_def)
  qed (simp add: ring'_def)
  have no: "slot_find an_used ann_key (dest, True) ring' = None"
  proof (cases "announce_find dest True ring")
    case None
    then show ?thesis using announce_find_slot [OF d None] by (simp add: ring'_def)
  next
    case (Some j)
    note j = announce_find_Some [OF Some]
    then have "slot_find an_used ann_key (ann_key (ring ! j)) (ring[j := ann_zero]) = None"
      using ring.find_wiped [of ring j] r by (simp add: ring_ok_def)
    with j Some show ?thesis by (simp add: ring'_def)
  qed
  let ?h = "ring'[k := (ring' ! k)\<lparr>an_held := True\<rparr>]"
  have "ring_ok ?h"
    using ok no k same len ring_nth [OF ok, of k] by (intro ring_fresh) (auto simp: slot_ok_def)
  moreover have "slot_find an_used ann_key (dest, False) ?h = None"
    unfolding slot_find_None
  proof (intro ballI impI notI)
    fix y assume y: "y \<in> set ?h" "an_used y" "ann_key y = (dest, False)"
    then obtain i where i: "i < length ring'" "y = ?h ! i" by (auto simp: in_set_conv_nth)
    show False
    proof (cases "i = k")
      case False
      with i y have "an_used (ring' ! i)" "ann_key (ring' ! i) = ann_key (ring' ! k)" using k same by simp_all
      then show False
        using False uniqD [of an_used ann_key ring' i k] ok k same len i by (simp add: ring_ok_def)
    qed (use i y in simp)
  qed
  moreover have "hold_pending dest ring = ?h"
    using Some by (simp add: hold_pending_def ring'_def Let_def)
  ultimately show ?thesis using len by simp
qed

lemma sane_queue_answer [sane_intros]:
  assumes s: "sane z s" and d: "length (pk_dest_hash p) = DESTINATION_LENGTH"
  shows "sane z (queue_answer v i r p s)"
proof -
  let ?a = "announce_rec_of (pk_dest_hash p) None p (tv_now v)
      (answer_time v (ts_impl s i) r (length (pk_data p))) PATHFINDER_R (pk_hops p) True (Some i) s"
  note h = hold_pending_ok [OF sane_ring_ok [OF s] d]
  obtain slot ring' where a: "announce_alloc (hold_pending (pk_dest_hash p) (ts_ring s)) = (slot, ring')" by fastforce
  note al = alloc_ring [OF a]
  have ok: "ring_ok ring'" and len: "length ring' = length (ts_ring s)" using al h by auto
  have "slot_find an_used ann_key (pk_dest_hash p, False) ring' = None"
    using h al(4) by (auto simp: slot_find_None)
  then have "ring_ok (ring'[k := ?a])" for k
    using ok ann_rec_ok [OF d, of PATHFINDER_R] by (intro ring_fresh) (simp_all add: PATHFINDER_R_def LOCAL_REBROADCASTS_MAX_def)
  with s ok len a show ?thesis
    by (auto simp: queue_answer_def Let_def intro!: sane_cull sane_ring split: option.split)
qed

lemma sane_answer_known [sane_intros]:
  "sane z s \<Longrightarrow> length (pk_dest_hash p) = DESTINATION_LENGTH \<Longrightarrow> sane z (answer_known v i rq r j p s)"
  by (auto simp: answer_known_def Let_def intro!: sane_queue_answer)

lemma sane_downhill [sane_intros]: "sane z s \<Longrightarrow> sane z (downhill v d i rq tag s)"
  by (simp add: downhill_def Let_def sane_schedule)

lemma sane_search [sane_intros]: "sane z s \<Longrightarrow> sane z (search v d i rq tag s)"
  unfolding search_def Let_def
  by (auto intro!: sane_fold sane_request_path sane_links map_sane split: option.split)

lemma unpack_dest_length:
  "unpack e (packet_from_raw raw) = (p, True) \<Longrightarrow> length (pk_dest_hash p) = DESTINATION_LENGTH"
  by (auto simp: unpack_def packet_from_raw_def Let_def update_hash_def unpack_flags_def HEADER_MINSIZE_def
      HEADER_MAXSIZE_def DESTINATION_LENGTH_def rbind_def split: if_splits sum.splits)

lemma sane_path_request [sane_intros]: "sane z s \<Longrightarrow> sane z (path_request v d i rq tag s)"
  using peek_sane [of v d s _ _ z]
  by (auto simp: path_request_def Let_def split: prod.split option.split sum.split list.split bool.split
      intro!: sane_answer_local sane_answer_known sane_search sane_downhill dest: unpack_dest_length)

lemma sane_handler [sane_intros]: "sane z s \<Longrightarrow> sane z (path_request_handler v i d s)"
  by (auto simp: path_request_handler_def Let_def split_beta intro!: sane_heard sane_path_request sane_links
      intro: sane_maps)

section \<open>Timers\<close>

lemma copy_keeps [simp]: "ts_ring (snd (announce_copy v d b r cf h s)) = ts_ring s"
  by (simp add: announce_copy_def recall_identity_def split_beta)

lemma sane_emit:
  assumes s: "sane z s" and k: "k < length (ts_ring s)" "an_used (ts_ring s ! k)" "\<not> an_held (ts_ring s ! k)"
    and n: "an_retries (ts_ring s ! k) < LOCAL_REBROADCASTS_MAX"
  shows "sane z (snd (announce_rec_emit v k s))"
proof -
  let ?q = "ts_ring s ! k"
  let ?r = "?q\<lparr>an_retransmit_at := tv_now v + PATHFINDER_G + PATHFINDER_RW, an_retries := an_retries ?q + 1\<rparr>"
  have r: "ring_ok (ts_ring s)" using s by (rule sane_ring_ok)
  have "an_retries ?q + 1 \<le> LOCAL_REBROADCASTS_MAX" using n by (rule inc_le)
  then have "ring_ok ((ts_ring s)[k := ?r])"
    using k ring_nth [OF r k(1)] by (intro ring_same [OF r]) (auto simp: slot_ok_def)
  moreover have "ring_ok (unhold (an_dest ?q) ((ts_ring s)[k := ann_zero]))"
    using r k by (intro zero_then_unhold) auto
  ultimately show ?thesis using s
    by (auto simp: announce_rec_emit_def Let_def split_beta intro!: sane_ring)
qed

lemma sane_emit_timed: "sane z (snd es) \<Longrightarrow> k < length (ts_ring (snd es)) \<Longrightarrow> sane z (snd (emit_timed v k es))"
  using sane_emit [of z "snd es" k v]
  by (auto simp: emit_timed_def Let_def split_beta announce_rec_timed_def PATHFINDER_R_def LOCAL_REBROADCASTS_MAX_def
      word_less_nat_alt word_le_nat_alt)

lemma sane_size: "sane z s \<Longrightarrow> length (ts_ring s) = fst z"
  by (auto simp: sane_def shape_def)

lemma sane_emits:
  "\<forall>k \<in> set ks. k < fst z \<Longrightarrow> sane z (snd es) \<Longrightarrow> sane z (snd (fold (emit_timed v) ks es))"
  by (induction ks arbitrary: es) (simp_all add: sane_emit_timed sane_size)

lemma sane_send_emission [sane_intros]: "sane z s \<Longrightarrow> sane z (send_emission v e s)"
  by (auto simp: send_emission_def intro: sane_send_copy split: prod.split)

lemma sane_repeat_due [sane_intros]: "sane z s \<Longrightarrow> sane z (repeat_due v k s)"
  using sane_repeat_done [of z s k]
  by (auto simp: repeat_due_def Let_def split_beta intro!: sane_request_path sane_links map_sane split: option.split)

lemma sane_timers [sane_intros]: "sane z s \<Longrightarrow> sane z (timers v s)"
proof -
  assume s: "sane z s"
  obtain es s1 where e: "fold (emit_timed v) [0..<length (ts_ring s)] ([], s) = (es, s1)" by fastforce
  have "sane z s1" using sane_emits [of "[0..<length (ts_ring s)]" z "([], s)" v] s e sane_size [OF s] by simp
  then have "sane z (fold (send_emission v) es s1)" by (rule sane_fold [rotated]) (rule sane_send_emission)
  then show ?thesis unfolding timers_def Let_def e prod.case by (rule sane_fold [rotated]) (rule sane_repeat_due)
qed

section \<open>Inbound and the jobs\<close>

lemma sane_request [simp]: "sane z (request_inbound v p s) = sane z s"
  by (simp add: request_inbound_def split: option.split)

lemma sane_data [sane_intros]: "sane z s \<Longrightarrow> sane z (data_inbound v ri p s)"
  by (auto simp: data_inbound_def Let_def intro!: sane_handler split: option.split proof_strategy.split)

lemma sane_local [sane_intros]:
  "sane z s \<Longrightarrow> length (pk_dest_hash p) = DESTINATION_LENGTH \<Longrightarrow> sane z (local_handling v ri p s)"
  by (auto simp: local_handling_def intro: sane_announce_inbound sane_data sane_proof split: packet_type.split)

lemma handling_dest: "pk_dest_hash (fst (snd (transport_handling v ri p s))) = pk_dest_hash p"
  by (simp add: transport_handling_def Let_def split_beta)

lemma sane_inbound_packet [sane_intros]:
  "sane z s \<Longrightarrow> length (pk_dest_hash p) = DESTINATION_LENGTH \<Longrightarrow> sane z (inbound_packet v ri p s)"
  by (auto simp: inbound_packet_def accepted_packet_def Let_def split_beta received_def handling_dest
      intro!: sane_local sane_transport_handling sane_repeats_cancel sane_remember)

lemma sane_transport_inbound [sane_intros]: "sane z s \<Longrightarrow> sane z (fst (transport_inbound v raw ri s))"
  by (auto simp: transport_inbound_def Let_def split: sum.split option.split prod.split bool.split
      intro!: sane_inbound_packet dest: unpack_dest_length)

lemma sane_lost: "sane z (snd ps) \<Longrightarrow> sane z (snd (lost_path v l ps))"
  by (auto simp: lost_path_def Let_def split_beta split: option.split)

lemma sane_fold_pair: "(\<And>x q. sane z (snd q) \<Longrightarrow> sane z (snd (f x q))) \<Longrightarrow> sane z (snd q) \<Longrightarrow> sane z (snd (fold f xs q))"
  by (induction xs arbitrary: q) auto

lemma sane_sweep_links [sane_intros]: "sane z s \<Longrightarrow> sane z (snd (snd (sweep_links v s)))"
  using sane_fold_pair [OF sane_lost, where q = "([], s)"] by (simp add: sweep_links_def Let_def split_beta)

lemma sane_sweep_repairs [sane_intros]: "sane z s \<Longrightarrow> sane z (fst (sweep_repairs v s))"
  by (simp add: sweep_repairs_def Let_def sane_slots)

lemma sane_sweep_receipts [simp]: "sane z (sweep_receipts v s) = sane z s"
  by (simp add: sweep_receipts_def)

lemma sane_emit_due:
  "sane z s \<Longrightarrow> \<forall>k \<in> set ks. k < fst z \<Longrightarrow> sane z (snd (emit_due v ks b es s))"
proof (induction v ks b es s rule: emit_due.induct)
  case (2 v k ks b es s)
  let ?r = "ts_ring s ! k"
  have "sane z (snd (announce_rec_emit v k s))" if "an_used ?r" "\<not> an_held ?r" "\<not> spent ?r"
    using that 2(5,6) by (intro sane_emit) (auto simp: sane_size spent_def PATHFINDER_R_def LOCAL_REBROADCASTS_MAX_def
        word_less_nat_alt word_le_nat_alt)
  moreover have "sane z (s\<lparr>ts_ring := (ts_ring s)[k := ann_zero]\<rparr>)"
    using 2(5) by (intro sane_ring) (auto dest: sane_ring_ok)
  ultimately show ?case using 2 by (auto simp: Let_def split_beta)
qed simp

lemma ring_blank: "ring_ok ring \<Longrightarrow> ring_ok (map (\<lambda>_. ann_zero) ring)"
  by (auto simp: ring_ok_def uniq_nth) (simp add: ann_zero_def)

lemma mod_in: "x < n \<Longrightarrow> (m + x) mod n < (n :: nat)"
  by (rule mod_less_divisor) simp

lemma sane_sweep_announces [sane_intros]: "sane z s \<Longrightarrow> sane z (snd (sweep_announces v s))"
  by (auto simp: sweep_announces_def sane_size [symmetric] intro!: sane_emit_due sane_drop_queues sane_ring ring_blank
      mod_in dest: sane_ring_ok)

lemma sane_ask_again: "sane z (snd q) \<Longrightarrow> sane z (snd (ask_again v e q))"
  by (auto simp: ask_again_def Let_def split_beta)

lemma sane_cull_tables [sane_intros]: "sane z (snd q) \<Longrightarrow> sane z (snd (cull_tables v q))"
proof -
  assume q: "sane z (snd q)"
  have r: "sane z (cull_reverse v (snd q))" unfolding cull_reverse_def using q by (intro sane_links distinct_fst_filter sane_maps(2) [of z])
  have f: "sane z (snd (fold (ask_again v) xs (a, cull_reverse v (snd q))))" for xs a
    using r by (intro sane_fold_pair [where z = z]) (simp_all add: sane_ask_again)
  have d: "sane z t \<Longrightarrow> sane z (cull_path_requests v (cull_discovery v t))" for t
    unfolding cull_path_requests_def cull_discovery_def by (auto intro!: sane_links map_sane)
  show ?thesis using f by (auto simp: cull_tables_def cull_links_def Let_def split_beta intro!: d sane_links map_sane)
qed

lemma sane_jobs [sane_intros]:
  assumes s: "sane z s"
  shows "sane z (transport_jobs v d s)"
proof -
  have all: "sane z t \<Longrightarrow> sane z (ask_everywhere v h t)" for h t
    unfolding ask_everywhere_def by (rule sane_fold) (auto intro: sane_request_path)
  obtain a1 r1 s1 where 1: "(if du_links d then sweep_links v s else ([], [], s)) = (a1, r1, s1)" by (rule prod_cases3)
  obtain s2 rs where 2: "(if du_links d then sweep_repairs v s1 else (s1, [])) = (s2, rs)" by (rule prod.exhaust)
  define s3 where "s3 = (if du_receipts d then sweep_receipts v s2 else s2)"
  obtain es s4 where 4: "(if du_announces d then sweep_announces v s3 else ([], s3)) = (es, s4)" by (rule prod.exhaust)
  define s5 where "s5 = cull_tags v (cull_hashes v (if tv_enabled v then drain_queues v s4 else s4))"
  obtain a6 s6 where 6: "(if du_tables d then cull_tables v (a1, s5) else (a1, s5)) = (a6, s6)" by (rule prod.exhaust)
  have "sane z s1" using sane_sweep_links [OF s, of v] s 1 by (auto split: if_splits)
  then have "sane z s2" using sane_sweep_repairs [of z s1 v] 2 by (auto split: if_splits)
  then have "sane z s3" by (simp add: s3_def)
  then have "sane z s4" using sane_sweep_announces [of z s3 v] 4 by (auto split: if_splits)
  then have "sane z s5" by (auto simp: s5_def cull_tags_def cull_hashes_def intro!: sane_links sane_drains
      distinct_drop intro: sane_maps)
  then have "sane z s6" using sane_cull_tables [of z "(a1, s5)" v] 6 by (auto split: if_splits)
  moreover have "sane z t \<Longrightarrow> sane z (fold (resend_repair v) xs t)" for xs t
    by (rule sane_fold [rotated]) (simp_all add: resend_repair_def Let_def split: option.split)
  moreover have "sane z t \<Longrightarrow> sane z (fold (ask_everywhere v) xs t)" for xs t
    by (rule sane_fold [rotated]) (simp_all add: all)
  moreover have "sane z t \<Longrightarrow> sane z (fold (send_emission v) xs t)" for xs t
    by (rule sane_fold [rotated]) (simp_all add: sane_send_emission)
  ultimately show ?thesis
    unfolding transport_jobs_def Let_def 1 2 prod.case s3_def [symmetric] 4 s5_def [symmetric] 6
    by (simp add: sane_escalates)
qed

section \<open>Every reachable state\<close>

text \<open>
  One operation of the transport: a frame from an interface, a run of the jobs or of the timers, a path
  asked for, a packet sent, an interface or a destination registered or dropped. The links and receipts
  also change through their own components, and an interface through its driver, which leaves the queue of
  held announces alone.
\<close>

inductive tmove :: "tstate \<Rightarrow> tstate \<Rightarrow> bool" where
  frame: "tmove s (fst (transport_inbound v raw i s))"
| jobs: "tmove s (transport_jobs v d s)"
| timers: "tmove s (timers v s)"
| ask: "tmove s (request_path v dest oi tag recursive s)"
| ask_any: "tmove s (request_path_any v dest s)"
| send: "tmove s (transport_send v att None p s)"
| iface_up: "tmove s (register_interface i s)"
| iface_down: "tmove s (deregister_interface i s)"
| dest_up: "register_destination d s = Inr s' \<Longrightarrow> tmove s s'"
| dest_down: "tmove s (deregister_destination d s)"
| drop_queues: "tmove s (drop_announce_queues s)"
| forget: "tmove s (remove_path dest s)"
| links: "tmove s (s\<lparr>ts_pending := ps, ts_active := as, ts_receipts := rs\<rparr>)"
| driver: "(\<And>i. if_queue (f i) = if_queue (ts_impl s i)) \<Longrightarrow> tmove s (s\<lparr>ts_impl := f\<rparr>)"

inductive treach :: "nat \<Rightarrow> nat \<Rightarrow> tstate \<Rightarrow> bool" for slots rates where
  start: "(\<And>i. if_queue (impl i) = []) \<Longrightarrow> treach slots rates (transport_start dir impl slots rates)"
| step: "treach slots rates s \<Longrightarrow> tmove s s' \<Longrightarrow> treach slots rates s'"

lemma uniq_unused: "(\<And>r. r \<in> set xs \<Longrightarrow> \<not> used r) \<Longrightarrow> uniq used key xs"
  by (auto simp: uniq_nth)

lemma sane_start:
  "(\<And>i. if_queue (impl i) = []) \<Longrightarrow> sane (max 1 slots, HANDSHAKE_REPAIR_SLOTS, rates, 24, 16) (transport_start dir impl slots rates)"
  by (auto simp: sane_def transport_start_def shape_def ring_ok_def maps_ok_def queue_ok_def ann_zero_def [THEN arg_cong [of _ _ an_used]]
      intro!: uniq_unused split: if_splits)

lemma sane_driver: "(\<And>i. if_queue (f i) = if_queue (ts_impl s i)) \<Longrightarrow> sane z s \<Longrightarrow> sane z (s\<lparr>ts_impl := f\<rparr>)"
  by (simp add: sane_def shape_def maps_ok_def queue_ok_def)

lemma tmove_sane: "tmove s s' \<Longrightarrow> sane z s \<Longrightarrow> sane z s'"
proof (induction rule: tmove.induct)
  case (dest_up d s s')
  then show ?case by (auto simp: register_destination_def split: if_splits intro!: sane_links map_sane)
next
  case (driver f s)
  then show ?case by (rule sane_driver)
qed (auto simp: register_interface_def deregister_interface_def deregister_destination_def
      intro: sane_intros intro!: sane_links map_sane)


text \<open>A node with two interfaces, as it starts, for the examples.\<close>

definition sample_iface :: "nat \<Rightarrow> iface" where
  "sample_iface i = (interface_object [of_nat i] (replicate 32 (of_nat i)))
     \<lparr>if_out := True, if_radius := 8, if_mode := MODE_GATEWAY, if_bitrate := 8000\<rparr>"

definition sample_relay :: tstate where
  "sample_relay = register_interface 2 (register_interface 1 (transport_start sample_rdir sample_iface 4 2))"

definition sample_world :: tenv where
  "sample_world = \<lparr>tv_prims = toy_prims, tv_penv = sample_env, tv_now = 1000, tv_minutes = 16,
     tv_random = (\<lambda>_. 1 / 2), tv_hash = (\<lambda>_. replicate 16 9), tv_enabled = True,
     tv_identity = identity_object\<lparr>iy_hash := replicate 16 77\<rparr>, tv_destination_timeout = 604800, tv_ap_path_time = 86400,
     tv_roaming_path_time = 21600, tv_custody_path_time = 2592000, tv_escalate_time = 5, tv_cheap_bitrate = 62500,
     tv_hashlist_max = 100, tv_pr_tags_max = 32, tv_announce_max = 4, tv_path_max = 2, tv_filter = (\<lambda>_. True),
     tv_distance_of = (\<lambda>_. 255), tv_own_distance = 8, tv_handlers = []\<rparr>"

lemma sample_treach: "treach 4 2 sample_relay"
  unfolding sample_relay_def
  by (rule treach.step [OF treach.step [OF treach.start iface_up] iface_up])
     (simp add: sample_iface_def interface_object_def)


end
