(* ===== verification/TransKeep.thy ===== *)
theory TransKeep
  imports TransInv
begin

text \<open>
  What the transport's handling of announces, path requests and local deliveries leaves alone. A view of
  the state that no update outside the handshake tables changes, and that survives one more remembered
  packet hash, is kept by every operation that is not itself a relay's.
\<close>

locale bystander =
  fixes P :: "tstate \<Rightarrow> bool"
  assumes upd [simp]:
    "P (s\<lparr>ts_dir := a\<rparr>) = P s" "P (s\<lparr>ts_out := b\<rparr>) = P s" "P (s\<lparr>ts_impl := f\<rparr>) = P s"
    "P (s\<lparr>ts_sent := c\<rparr>) = P s" "P (s\<lparr>ts_received := c\<rparr>) = P s" "P (s\<lparr>ts_added := c\<rparr>) = P s"
    "P (s\<lparr>ts_queue_drops := c\<rparr>) = P s" "P (s\<lparr>ts_rate_blocks := c\<rparr>) = P s"
    "P (s\<lparr>ts_receipts := d\<rparr>) = P s" "P (s\<lparr>ts_active := e\<rparr>) = P s"
    "P (s\<lparr>ts_ring := r\<rparr>) = P s" "P (s\<lparr>ts_rates := rt\<rparr>) = P s" "P (s\<lparr>ts_dests := ds\<rparr>) = P s"
    "P (s\<lparr>ts_path_requests := pr\<rparr>) = P s" "P (s\<lparr>ts_discovery := di\<rparr>) = P s"
    "P (s\<lparr>ts_tags := tg\<rparr>) = P s" "P (s\<lparr>ts_repeats := rp\<rparr>) = P s" "P (s\<lparr>ts_escalations := es\<rparr>) = P s"
    and remember: "P s \<Longrightarrow> P (remember_hash h s)"
begin

lemma out_kept [simp]: "P (t_out x s) = P s" "P (upd_impl i g s) = P s"
  by (simp_all add: t_out_def upd_impl_def)

lemma wire_kept [simp]: "P (wire v i raw s) = P s"
  by (simp add: wire_def split: sum.split)

lemma lookups_kept [simp]:
  "P (snd (peek_live_route v d s)) = P s" "P (snd (has_path v d s)) = P s"
  "P (snd (next_hop_interface v d s)) = P s" "P (snd (first_hop_timeout v d s)) = P s"
  "P (mark_alive v d s) = P s" "P (touch_route v d x s) = P s" "P (cull_path_table v s) = P s"
  "P (snd (recall_identity v d s)) = P s" "P (remove_path d s) = P s"
  by (simp_all add: peek_live_route_def has_path_def next_hop_interface_def first_hop_timeout_def
      next_hop_per_byte_latency_def next_hop_per_bit_latency_def next_hop_interface_bitrate_def
      mark_alive_def touch_route_def cull_path_table_def recall_identity_def remove_path_def Let_def split_beta
      split: option.split)

lemma fold_kept: "(\<And>x s. P s \<Longrightarrow> P (f x s)) \<Longrightarrow> P s \<Longrightarrow> P (fold f xs s)"
  by (induction xs arbitrary: s) auto

lemma fold_snd_kept: "(\<And>x q. P (snd q) \<Longrightarrow> P (snd (f x q))) \<Longrightarrow> P (snd q) \<Longrightarrow> P (snd (fold f xs q))"
  by (induction xs arbitrary: q) auto

lemma routed_kept [simp]: "P (snd (send_routed v r i p s)) = P s"
  by (simp add: send_routed_def Let_def split_beta)

lemma verdict_kept [simp]: "P (snd (snd (announce_verdict v rcv p i s))) = P s"
  by (simp add: announce_verdict_def cap_verdict_def hold_announce_def next_hop_allows_def Let_def split_beta
      split: option.split)

lemma broadcast_kept: "P s \<Longrightarrow> P (snd (broadcast_all v att rcv pinned p s))"
  unfolding broadcast_all_def
  by (rule fold_snd_kept) (auto simp: broadcast_on_def Let_def split_beta intro: remember)

lemma receipt_kept [simp]: "P (snd (snd (make_receipt v p d s))) = P s"
  by (simp add: make_receipt_def Let_def split_beta split: sum.split)

lemma outbound_kept: "P s \<Longrightarrow> P (snd (snd (outbound v att rcv pin p s)))"
  by (auto simp: outbound_def Let_def split_beta split: option.split intro: broadcast_kept)

lemma send_kept: "P s \<Longrightarrow> P (transport_send v att rcv p s)"
  by (auto simp: transport_send_def split: prod.split option.split intro: outbound_kept)

lemma copy_kept: "P (snd ps) \<Longrightarrow> P (send_copy v att rcv ps)"
  by (auto simp: send_copy_def split: prod.split sum.split intro: send_kept)

lemma announce_parts_kept [simp]:
  "P (repeats_cancel d s) = P s" "P (snd (announce_radio_share i x s)) = P s"
  "P (drop_own_answer ri p s) = P s" "P (note_rebroadcast v ri p s) = P s"
  "P (snd (announce_judged v ri p s)) = P s" "P (snd (announce_copy v d b r cf h s)) = P s"
  "P (cull_announce_table v s) = P s" "P (queue_announce v ri p share s) = P s"
  "P (snd (announce_rate_blocked v d i s)) = P s" "P (relay_announce v ri p share f s) = P s"
  "P (store_announce v ri p rf s) = P s" "P (fold (\<lambda>l. t_out (g l)) ls s) = P s"
  subgoal by (simp add: repeats_cancel_def)
  subgoal by (simp add: announce_radio_share_def Let_def)
  subgoal by (simp add: drop_own_answer_def Let_def split: option.split)
  subgoal by (simp add: note_rebroadcast_def drop_deferred_def Let_def split: option.split)
  subgoal by (simp add: announce_judged_def Let_def split_beta)
  subgoal by (simp add: announce_copy_def split_beta)
  subgoal by (simp add: cull_announce_table_def)
  subgoal by (simp add: queue_announce_def cull_announce_table_def Let_def split_beta)
  subgoal by (simp add: announce_rate_blocked_def Let_def split_beta split: option.split)
  subgoal by (simp add: relay_announce_def queue_announce_def cull_announce_table_def announce_rate_blocked_def
        Let_def split_beta split: option.split)
  subgoal by (simp add: store_announce_def)
  subgoal by (induction ls arbitrary: s) simp_all
  done

lemma announce_kept: "P s \<Longrightarrow> P (announce_inbound v ri p s)"
proof -
  have t: "P s \<Longrightarrow> P (tell_handlers v ri p s)" for s
    unfolding tell_handlers_def Let_def by (rule fold_kept) (auto split: prod.split)
  have d: "P s \<Longrightarrow> P (answer_discovery v p f s)" for f s
    by (auto simp: answer_discovery_def intro!: copy_kept split: option.split)
  have a: "P s \<Longrightarrow> P (take_announce v ri p rf sh d' s)" for rf sh d' s
    by (auto simp: take_announce_def Let_def intro!: t d)
  show "P s \<Longrightarrow> P (announce_inbound v ri p s)"
    unfolding announce_inbound_def Let_def split_beta by (auto intro!: a split: option.split)
qed

lemma request_path_kept: "P s \<Longrightarrow> P (request_path v d oi tag r s)"
  by (auto simp: request_path_def recursive_gate_def Let_def split_beta intro!: send_kept split: option.split sum.split)

lemma path_parts_kept [simp]:
  "P (repeat_schedule v d tag i x asker s) = P s" "P (repeat_heard v d tag w s) = P s"
  "P (queue_answer v i r p s) = P s"
  by (simp_all add: repeat_schedule_def repeat_heard_def queue_answer_def Let_def split_beta split: option.split)

lemma handler_kept: "P s \<Longrightarrow> P (path_request_handler v i b s)"
proof -
  have l: "P s \<Longrightarrow> P (answer_local v d de i tag s)" for d de tag s
    by (auto simp: answer_local_def Let_def intro!: send_kept split: sum.split option.split)
  have k: "P s \<Longrightarrow> P (answer_known v i rq r j p s)" for rq r j p s
    by (simp add: answer_known_def Let_def)
  have f: "P s \<Longrightarrow> P (search v d i rq tag s)" for d rq tag s
    unfolding search_def Let_def by (auto intro!: fold_kept request_path_kept split: option.split)
  have w: "P s \<Longrightarrow> P (downhill v d i rq tag s)" for d rq tag s
    by (simp add: downhill_def Let_def)
  have pk: "P s'" if "peek_live_route v d s = (x, s')" "P s" for d s x s'
    using that lookups_kept(1) [of v d s] by simp
  have r: "P s \<Longrightarrow> P (path_request v d i rq tag s)" for d rq tag s
    by (auto simp: path_request_def Let_def split: prod.split option.split sum.split list.split bool.split
        intro!: l k f w dest: pk)
  show "P s \<Longrightarrow> P (path_request_handler v i b s)"
    by (auto simp: path_request_handler_def Let_def split_beta intro!: r)
qed

lemma data_kept: "P s \<Longrightarrow> P (data_inbound v ri p s)"
  by (auto simp: data_inbound_def Let_def intro!: handler_kept split: option.split proof_strategy.split)

lemma request_kept [simp]: "P (request_inbound v p s) = P s"
  by (simp add: request_inbound_def split: option.split)

lemma alive_kept [simp]: "P (alive_after_proof v p rc s) = P s"
  by (simp add: alive_after_proof_def split: option.split)

lemma settle_kept [simp]: "P (settle_receipts v p s) = P s"
proof -
  have "P (fold (alive_after_proof v p') rs s') = P s'" for p' rs s'
    by (induction rs arbitrary: s') simp_all
  then show ?thesis by (simp add: settle_receipts_def Let_def split_beta)
qed

end

section \<open>The hash list\<close>

interpretation seen: bystander "\<lambda>s. h \<in> set (ts_hashes s)" for h
  by unfold_locales (simp_all add: remember_hash_def)

section \<open>The tables of a relay\<close>

interpretation lnk: bystander "\<lambda>s. Q (map_of (ts_links s) l)" for l Q
  by unfold_locales (simp_all add: remember_hash_def)

interpretation rear: bystander "\<lambda>s. map_of (ts_reverse s) l = x" for l x
  by unfold_locales (simp_all add: remember_hash_def)

end
