(* ===== verification/TransProps.thy ===== *)
theory TransProps
  imports TransKeep IfaceProps IdentityProps
begin

text \<open>
  Properties of the relay: a packet is handled once, a proof goes back once, and a link is only established
  through a relay by its destination's own proof.
\<close>

section \<open>The hash list\<close>

abbreviation heard :: "bytes \<Rightarrow> tstate \<Rightarrow> bool" where
  "heard h s \<equiv> h \<in> set (ts_hashes s)"

lemma heard_repairs [simp]:
  "heard h (keep_for_repair v k l raw i w s) = heard h s" "heard h (repair_answered v k l s) = heard h s"
  by (simp_all add: keep_for_repair_def repair_answered_def split: option.split)

lemma heard_peek: "peek_live_route v d s = (x, s') \<Longrightarrow> heard h s' = heard h s"
  using seen.lookups_kept(1) [of h v d s] by simp

lemma heard_forward: "heard h s \<Longrightarrow> heard h (snd (forward_packet v ri p s))"
  using heard_peek [of v "pk_dest_hash p" s]
  by (auto simp: forward_packet_def Let_def split: prod.split option.split)

lemma heard_link_transport: "heard h s \<Longrightarrow> heard h (link_transport v ri p s)"
  by (auto simp: link_transport_def Let_def remember_hash_def split: option.split)

lemma heard_handling: "heard h s \<Longrightarrow> heard h (snd (snd (transport_handling v ri p s)))"
  by (auto simp: transport_handling_def Let_def split_beta intro!: heard_link_transport heard_forward)

lemma heard_recall [simp]: "heard h (snd (recall_identity v d s)) = heard h s"
  by (rule seen.lookups_kept)

lemma heard_proof: "heard h s \<Longrightarrow> heard h (proof_inbound v ri p s)"
  by (auto simp: proof_inbound_def regular_proof_def proof_transport_def link_proof_inbound_def
      link_proof_transport_def pass_link_proof_def Let_def split_beta split: option.split sum.split)

lemma heard_local: "heard h s \<Longrightarrow> heard h (local_handling v ri p s)"
  by (auto simp: local_handling_def intro: seen.announce_kept seen.data_kept heard_proof split: packet_type.split)

lemma heard_accepted: "heard h s \<Longrightarrow> heard h (accepted_packet v ri p s)"
  by (auto simp: accepted_packet_def Let_def split_beta intro!: heard_local heard_handling seen.remember)

lemma heard_inbound_packet: "heard h s \<Longrightarrow> heard h (inbound_packet v ri p s)"
  by (auto simp: inbound_packet_def Let_def intro!: heard_accepted)

lemma heard_inbound: "heard h s \<Longrightarrow> heard h (fst (transport_inbound v raw ri s))"
  by (auto simp: transport_inbound_def Let_def intro: heard_inbound_packet
      split: sum.split option.split prod.split bool.split)

lemma accepted_heard: "\<not> defers_hash p s \<Longrightarrow> heard (pk_packet_hash p) (accepted_packet v ri p s)"
  by (auto simp: accepted_packet_def Let_def split_beta remember_hash_def intro!: heard_local heard_handling)

definition frames :: "(tenv \<times> bytes \<times> nat) list \<Rightarrow> tstate \<Rightarrow> tstate" where
  "frames fs s = fold (\<lambda>(v, raw, i) s. fst (transport_inbound v raw i s)) fs s"

lemma heard_frames: "heard h s \<Longrightarrow> heard h (frames fs s)"
  unfolding frames_def by (induction fs arbitrary: s) (auto intro: heard_inbound)

text \<open>
  C12: A packet is handled once. When a packet for a SINGLE or LINK destination that is no announce and has no
  exempt context has been accepted by the embedder's filter and the duplicate filter (and is no packet of a
  link this node relays and no link proof, whose hashes are remembered later or not at all), a copy of it that
  comes back on any interface, with any hop count and by any way round, however many frames have been received
  in between, changes nothing and sends nothing, as long as the jobs have not trimmed the hash list.
\<close>

theorem replay_dropped:
  assumes "tv_filter v (received (ts_impl s ri) p)" "packet_filter v (received (ts_impl s ri) p) s"
    and "\<not> defers_hash (received (ts_impl s ri) p) s"
    and "pk_packet_hash q = pk_packet_hash p" "pk_packet_type q \<noteq> ANNOUNCE"
    and "pk_packet_type p \<noteq> ANNOUNCE" "pk_dest_type q = SINGLE \<or> pk_dest_type q = LINK" "\<not> exempt_context (pk_context q)"
  shows "inbound_packet w rj q (frames fs (inbound_packet v ri p s)) = frames fs (inbound_packet v ri p s)"
proof -
  have "heard (pk_packet_hash p) (inbound_packet v ri p s)"
    using assms(1-3,6) accepted_heard [of "received (ts_impl s ri) p" s v ri]
    by (simp add: inbound_packet_def Let_def received_def)
  then have h: "heard (pk_packet_hash q) (frames fs (inbound_packet v ri p s))"
    unfolding assms(4) by (rule heard_frames)
  then show ?thesis using assms(5,7,8)
    by (auto simp: inbound_packet_def [of w] Let_def received_def packet_filter_def)
qed

definition sample_parcel :: packet where
  "sample_parcel = packet_object\<lparr>pk_packet_hash := replicate 32 5\<rparr>"

lemma replay_dropped_witness:
  "inbound_packet sample_world 2 (sample_parcel\<lparr>pk_hops := 9\<rparr>)
     (frames [(sample_world, [1, 2, 3], 2)] (inbound_packet sample_world 1 sample_parcel sample_relay)) =
   frames [(sample_world, [1, 2, 3], 2)] (inbound_packet sample_world 1 sample_parcel sample_relay)"
  by (rule replay_dropped)
     (simp_all add: sample_world_def sample_parcel_def sample_relay_def packet_object_def received_def packet_filter_def
      defers_hash_def register_interface_def transport_start_def exempt_context_def const_values)

section \<open>Links through a relay\<close>

text \<open>A link entry but for the time it was last used.\<close>

definition le_core :: "link_entry \<Rightarrow> link_entry" where
  "le_core e = e\<lparr>le_timestamp := 0\<rparr>"

definition holds :: "bytes \<Rightarrow> link_entry \<Rightarrow> tstate \<Rightarrow> bool" where
  "holds l e s \<longleftrightarrow> map_option le_core (map_of (ts_links s) l) = Some (le_core e)"

lemma holds_eq: "ts_links s' = ts_links s \<Longrightarrow> holds l e s' = holds l e s"
  by (simp add: holds_def)

lemma holds_insert: "holds l e s \<Longrightarrow> holds l e (t\<lparr>ts_links := amap_insert k x (ts_links s)\<rparr>)"
  by (auto simp: holds_def map_of_insert)

lemma holds_set: "holds l e s \<Longrightarrow> k = l \<longrightarrow> le_core x = le_core e \<Longrightarrow> holds l e (t\<lparr>ts_links := amap_set k x (ts_links s)\<rparr>)"
  by (auto simp: holds_def map_of_set)

lemma core_time [simp]: "le_core (e\<lparr>le_timestamp := t\<rparr>) = le_core e"
  by (simp add: le_core_def)

lemma holds_repairs [simp]:
  "ts_links (keep_for_repair v k lid raw i w s) = ts_links s" "ts_links (repair_answered v k lid s) = ts_links s"
  by (simp_all add: keep_for_repair_def repair_answered_def split: option.split)

lemma links_wire [simp]: "ts_links (wire v i raw s) = ts_links s" "ts_links (remember_hash h s) = ts_links s"
    "ts_links (touch_route v d x s) = ts_links s" "ts_links (repeats_cancel d s) = ts_links s"
  by (simp_all add: wire_def t_out_def remember_hash_def touch_route_def repeats_cancel_def split: sum.split)

lemma links_peek: "peek_live_route v d s = (x, s') \<Longrightarrow> ts_links s' = ts_links s"
  by (auto simp: peek_live_route_def split: option.splits if_splits)

lemma holds_keeps [simp]:
  "holds l e (keep_for_repair v k lid raw i w s) = holds l e s" "holds l e (repair_answered v k lid s) = holds l e s"
  "holds l e (wire v i raw s) = holds l e s" "holds l e (remember_hash h s) = holds l e s"
  "holds l e (touch_route v d x s) = holds l e s" "holds l e (s\<lparr>ts_reverse := r\<rparr>) = holds l e s"
  by (rule holds_eq, simp)+

lemma holds_outs [simp]: "holds l e (fold (\<lambda>x. t_out (g x)) xs s) = holds l e s"
  by (rule holds_eq, induction xs arbitrary: s) (simp_all add: t_out_def)

lemma holds_forward: "holds l e s \<Longrightarrow> holds l e (snd (forward_packet v ri p s))"
proof -
  assume h: "holds l e s"
  obtain r s' where r: "peek_live_route v (pk_dest_hash p) s = (r, s')" by fastforce
  have "holds l e s'" using h holds_eq [OF links_peek [OF r]] by simp
  then show ?thesis
    by (auto simp: forward_packet_def r Let_def intro: holds_insert split: option.split)
qed

lemma holds_link_transport: "holds l e s \<Longrightarrow> holds l e (link_transport v ri p s)"
proof (cases "map_of (ts_links s) (pk_dest_hash p)")
  case (Some x)
  assume h: "holds l e s"
  then have "pk_dest_hash p = l \<longrightarrow> le_core (x\<lparr>le_timestamp := tv_now v\<rparr>) = le_core e"
    using Some by (auto simp: holds_def)
  from holds_set [OF _ this] h Some show ?thesis
    by (auto simp: link_transport_def Let_def split: option.split)
qed (simp add: link_transport_def)

lemma holds_handling: "holds l e s \<Longrightarrow> holds l e (snd (snd (transport_handling v ri p s)))"
  by (auto simp: transport_handling_def Let_def split_beta intro!: holds_link_transport holds_forward)

lemma holds_regular: "holds l e s \<Longrightarrow> holds l e (regular_proof v ri p s)"
proof -
  assume "holds l e s"
  then have "holds l e (proof_transport v ri q s)" for q
    by (simp add: proof_transport_def Let_def split: option.split)
  then show ?thesis
    using lnk.settle_kept [where Q = "\<lambda>x. map_option le_core x = Some (le_core e)" and l = l]
    by (simp add: regular_proof_def Let_def holds_def)
qed

text \<open>What passing a link proof takes: the destination's signature over the link and its own key.\<close>

definition proves_link :: "tenv \<Rightarrow> nat \<Rightarrow> packet \<Rightarrow> link_entry \<Rightarrow> tstate \<Rightarrow> bool" where
  "proves_link v ri p e s \<longleftrightarrow> pk_packet_type p = PROOF \<and> pk_context p = LRPROOF \<and> tv_enabled v \<and>
     ri = le_outbound e \<and> pk_hops p = le_remaining_hops e \<and>
     (\<exists>i sb. fst (recall_identity v (le_dest_hash e) s) = Some i \<and>
        identity_validate (tv_prims v) (bleft (SIGLENGTH div 8) (pk_data p)) (link_proof_data p i sb) i = Inr True)"

lemma pass_links: "ts_links (pass_link_proof v p e s) =
    amap_set (pk_dest_hash p) (e\<lparr>le_validated := True, le_proof_kept := True\<rparr>) (ts_links s)"
  by (simp add: pass_link_proof_def Let_def)

lemma links_recall [simp]: "ts_links (snd (recall_identity v d s)) = ts_links s"
  by (simp add: recall_identity_def split_beta)

lemma core_fields:
  "le_core a = le_core b \<Longrightarrow> le_outbound a = le_outbound b \<and> le_remaining_hops a = le_remaining_hops b \<and>
     le_dest_hash a = le_dest_hash b \<and> le_validated a = le_validated b"
  by (cases a; cases b) (simp add: le_core_def)

lemma link_proof_held:
  assumes h: "holds l e s" and n: "\<not> (pk_dest_hash p = l \<and> proves_link v ri p e s)"
    and t: "pk_packet_type p = PROOF" "pk_context p = LRPROOF"
  shows "holds l e (link_proof_inbound v ri p s)"
proof (cases "if tv_enabled v then map_of (ts_links s) (pk_dest_hash p) else None")
  case None
  then show ?thesis using h by (simp add: link_proof_inbound_def)
next
  case (Some x)
  have "holds l e (link_proof_transport v ri p x s)"
  proof (cases "pk_dest_hash p = l")
    case True
    then have "le_core x = le_core e" using h Some by (auto simp: holds_def split: if_splits)
    from core_fields [OF this] have "ts_links (link_proof_transport v ri p x s) = ts_links s"
      using n t True Some
      by (auto simp: link_proof_transport_def proves_link_def link_proof_verifies_def Let_def split_beta
          split: sum.split option.splits if_splits)
    then show ?thesis using h holds_eq by blast
  next
    case False
    then have "map_of (ts_links (link_proof_transport v ri p x s)) l = map_of (ts_links s) l"
      by (simp add: link_proof_transport_def pass_links map_of_set Let_def split_beta split: sum.split)
    then show ?thesis using h by (simp add: holds_def)
  qed
  then show ?thesis using Some by (simp add: link_proof_inbound_def)
qed

lemma holds_local:
  assumes h: "holds l e s" and n: "\<not> (pk_dest_hash p = l \<and> proves_link v ri p e s)"
  shows "holds l e (local_handling v ri p s)"
proof (cases "pk_packet_type p")
  case PROOF
  then show ?thesis using h n
    by (simp add: local_handling_def proof_inbound_def link_proof_held holds_regular)
next
  case ANNOUNCE
  then show ?thesis using h lnk.announce_kept [where Q = "\<lambda>x. map_option le_core x = Some (le_core e)" and l = l]
    by (simp add: local_handling_def holds_def)
next
  case LINKREQUEST
  then show ?thesis using h lnk.request_kept [where Q = "\<lambda>x. map_option le_core x = Some (le_core e)" and l = l]
    by (simp add: local_handling_def holds_def)
next
  case DATA
  then show ?thesis using h lnk.data_kept [where Q = "\<lambda>x. map_option le_core x = Some (le_core e)" and l = l]
    by (simp add: local_handling_def holds_def)
qed

text \<open>The state a proof of a relayed link is handled in: the frame went through the transport's part first.\<close>

definition after_transport :: "tenv \<Rightarrow> nat \<Rightarrow> packet \<Rightarrow> tstate \<Rightarrow> packet \<times> tstate" where
  "after_transport v ri p s =
    snd (transport_handling v ri (received (ts_impl s ri) p) (repeats_cancel (pk_dest_hash p) s))"

lemma holds_cancel [simp]: "holds l e (repeats_cancel d s) = holds l e s"
  by (rule holds_eq) simp

text \<open>
  C10: A relay only takes a link as established on its destination's own proof. A link entry turns validated by a
  received frame only if that is a link proof for it, from the interface and the distance the request was
  sent to, whose signature over the link id and the keys verifies under the identity known for the
  destination the link was requested of.
\<close>

theorem link_proved_by_destination:
  assumes "map_of (ts_links s) l = Some e" "\<not> le_validated e"
    and "map_of (ts_links (inbound_packet v ri p s)) l = Some e'" "le_validated e'"
  shows "pk_dest_hash p = l \<and>
    (case after_transport v ri p s of (q, t) \<Rightarrow> proves_link v ri q e t) \<and> pk_hops p + 1 = le_remaining_hops e"
proof -
  let ?q = "received (ts_impl s ri) p"
  define s1 where "s1 = (if pk_transport_id ?q \<noteq> [] \<and> pk_packet_type ?q = ANNOUNCE
    then mark_alive v (pk_transport_id ?q) s else s)"
  define s2 where "s2 = (if pk_packet_type ?q \<noteq> ANNOUNCE then repeats_cancel (pk_dest_hash ?q)
     (if defers_hash ?q s1 then s1 else remember_hash (pk_packet_hash ?q) s1)
     else if defers_hash ?q s1 then s1 else remember_hash (pk_packet_hash ?q) s1)"
  obtain go q t where t: "transport_handling v ri ?q s2 = (go, q, t)" by (rule prod_cases3)
  have h: "holds l e s" using assms(1) by (simp add: holds_def)
  have "holds l e s1" using h holds_eq [of "mark_alive v (pk_transport_id ?q) s" s l e]
    by (simp add: s1_def mark_alive_def)
  then have h2: "holds l e s2" by (simp add: s2_def)
  have "\<not> holds l e (inbound_packet v ri p s)"
    using assms(2-4) core_fields [of e' e] by (auto simp: holds_def)
  then have go: "go" "\<not> holds l e (local_handling v ri q t)"
    using h2 \<open>holds l e s1\<close> holds_handling [OF h2, of v ri ?q] t h
    by (auto simp: inbound_packet_def accepted_packet_def Let_def s1_def [symmetric] s2_def [symmetric] split: if_splits)
  have q: "q = ?q \<or> q = ?q\<lparr>pk_transport_id := iy_hash (tv_identity v)\<rparr>"
    using t by (auto simp: transport_handling_def Let_def split_beta split: if_splits)
  from go(2) holds_local [of l e t q v ri] holds_handling [OF h2, of v ri ?q] t
  have p: "pk_dest_hash q = l" "proves_link v ri q e t" by auto
  then have "pk_packet_type ?q = PROOF" "pk_dest_hash ?q = l" using q by (auto simp: proves_link_def)
  moreover from this have "s2 = repeats_cancel (pk_dest_hash p) s"
    using assms(1) by (simp add: s2_def s1_def defers_hash_def received_def)
  ultimately show ?thesis using p t q by (auto simp: after_transport_def received_def proves_link_def)
qed

text \<open>A relay that passed a request on from its first interface to its second, and the proof coming back.\<close>

definition sample_lid :: bytes where "sample_lid = replicate 16 6"

definition sample_entry :: link_entry where
  "sample_entry = \<lparr>le_timestamp = 990, le_next_hop = replicate 16 8, le_outbound = 2, le_remaining_hops = 2,
     le_receiving = 1, le_hops = 1, le_dest_hash = sample_dest1, le_validated = False, le_proof_timeout = Some 1100,
     le_proof_kept = False\<rparr>"

definition sample_relaying :: tstate where
  "sample_relaying = sample_relay\<lparr>ts_links := [(sample_lid, sample_entry)],
     ts_dests := [(sample_dest1, destination_object (Some sample_owner))]\<rparr>"

definition sample_lproof :: packet where
  "sample_lproof = packet_object\<lparr>pk_packet_type := PROOF, pk_dest_type := LINK, pk_context := LRPROOF,
     pk_dest_hash := sample_lid, pk_hops := 1, pk_raw := [15, 1] @ sample_lid @ [255],
     pk_data := pr_ed_sign toy_prims (replicate 32 7) (sample_lid @ replicate 32 4 @ replicate 32 7) @ replicate 32 4\<rparr>"

lemma lid_no_route: "rdir_peek_route sample_lid sample_rdir = None"
  by code_simp
lemma dest1_no_key: "fst (rdir_peek_pubkey sample_dest1 sample_rdir) = None"
  by code_simp


lemma lproof_verifies: "link_proof_verifies sample_world sample_lproof
    (Some (load_public_key toy_prims (get_public_key sample_owner) identity_object)) []"
  by code_simp

lemma lproof_size: "length (pk_data sample_lproof) = lp_size"
  by code_simp

lemma lproof_passed: "ts_links (inbound_packet sample_world 2 sample_lproof sample_relaying) =
    [(sample_lid, sample_entry\<lparr>le_validated := True, le_proof_kept := True\<rparr>)]"
proof -
  have s: "ts_links sample_relaying = [(sample_lid, sample_entry)]" "ts_hashes sample_relaying = []"
    "ts_dir sample_relaying = sample_rdir" "ts_dests sample_relaying = [(sample_dest1, destination_object (Some sample_owner))]"
    by (simp_all add: sample_relaying_def sample_relay_def register_interface_def transport_start_def)
  have w: "tv_prims sample_world = toy_prims" "tv_enabled sample_world" "tv_filter sample_world p"
      "iy_hash (tv_identity sample_world) = replicate 16 77" for p
    by (simp_all add: sample_world_def)
  have e: "le_remaining_hops sample_entry = 2" "le_outbound sample_entry = 2" "le_dest_hash sample_entry = sample_dest1"
    by (simp_all add: sample_entry_def)
  define q where "q = received (ts_impl sample_relaying 2) sample_lproof"
  define t where "t = repeats_cancel sample_lid sample_relaying"
  have q: "pk_packet_type q = PROOF" "pk_context q = LRPROOF" "pk_dest_hash q = sample_lid" "pk_hops q = 2"
      "pk_transport_id q = []" "pk_dest_type q = LINK" "pk_data q = pk_data sample_lproof"
    by (simp_all add: q_def received_def sample_lproof_def packet_object_def)
  have t: "ts_links t = ts_links sample_relaying" "ts_dir t = ts_dir sample_relaying" "ts_dests t = ts_dests sample_relaying"
    by (simp_all add: t_def repeats_cancel_def)
  have f: "packet_filter sample_world q sample_relaying"
    by (simp add: packet_filter_def q s exempt_context_def const_values)
  have h: "transport_handling sample_world 2 q t = (True, q, t)"
    by (simp add: transport_handling_def for_local_def link_transport_def q t s lid_no_route w)
  have "inbound_packet sample_world 2 sample_lproof sample_relaying = link_proof_inbound sample_world 2 q t"
    using f h by (simp add: inbound_packet_def q_def [symmetric] w q accepted_packet_def defers_hash_def s
        t_def [symmetric] local_handling_def proof_inbound_def Let_def)
  also have "\<dots> = link_proof_transport sample_world 2 q sample_entry t"
    by (simp add: link_proof_inbound_def w q t s)
  moreover have "fst (recall_identity sample_world sample_dest1 t) =
      Some (load_public_key toy_prims (get_public_key sample_owner) identity_object)"
    using dest1_no_key by (simp add: recall_identity_def recall_def split_beta t s w const_values local_key_def own_dest_def
      sample_dest1_def destination_object_def Let_def)
  moreover have "link_proof_verifies sample_world q
      (Some (load_public_key toy_prims (get_public_key sample_owner) identity_object)) []"
    using lproof_verifies by (simp add: link_proof_verifies_def link_proof_data_def q sample_lproof_def)
  ultimately show ?thesis
    by (simp add: link_proof_transport_def q lproof_size e LINK_MTU_SIZE_def pass_links t s amap_set_def split_beta Let_def)
qed


lemma link_proved_by_destination_witness:
  "le_validated (sample_entry\<lparr>le_validated := True, le_proof_kept := True\<rparr>) \<and>
   (case after_transport sample_world 2 sample_lproof sample_relaying of (q, t) \<Rightarrow>
      proves_link sample_world 2 q sample_entry t) \<and> pk_hops sample_lproof + 1 = le_remaining_hops sample_entry"
  using link_proved_by_destination [of sample_relaying sample_lid sample_entry sample_world 2 sample_lproof
      "sample_entry\<lparr>le_validated := True, le_proof_kept := True\<rparr>"]
  by (simp add: lproof_passed) (simp add: sample_relaying_def sample_entry_def)

section \<open>Proofs on their way back\<close>

lemma settle_rest [simp]:
  "ts_out (settle_receipts v p s) = ts_out s" "ts_impl (settle_receipts v p s) = ts_impl s"
  "ts_reverse (settle_receipts v p s) = ts_reverse s"
proof -
  have "ts_out (alive_after_proof v p rc s) = ts_out s \<and> ts_impl (alive_after_proof v p rc s) = ts_impl s \<and>
      ts_reverse (alive_after_proof v p rc s) = ts_reverse s" for p rc s
    by (simp add: alive_after_proof_def mark_alive_def split: option.split)
  then have "ts_out (fold (alive_after_proof v p) rs s) = ts_out s \<and> ts_impl (fold (alive_after_proof v p) rs s) = ts_impl s \<and>
      ts_reverse (fold (alive_after_proof v p) rs s) = ts_reverse s" for p rs s
    by (induction rs arbitrary: s) simp_all
  then show "ts_out (settle_receipts v p s) = ts_out s" "ts_impl (settle_receipts v p s) = ts_impl s"
    "ts_reverse (settle_receipts v p s) = ts_reverse s"
    by (simp_all add: settle_receipts_def Let_def split_beta)
qed

lemma wire_rest [simp]: "ts_reverse (wire v i raw s) = ts_reverse s" "ts_impl (wire v i raw s) = ts_impl s"
  by (simp_all add: wire_def t_out_def split: sum.split)

definition regular :: "packet \<Rightarrow> bool" where
  "regular p \<longleftrightarrow> pk_context p \<noteq> LRPROOF \<and> pk_context p \<noteq> RESOURCE_PRF"

lemma regular_inbound:
  assumes "regular p"
  shows "ts_impl (proof_inbound v i p s) = ts_impl s"
    and "map_of (ts_reverse s) (pk_dest_hash p) = None \<Longrightarrow> ts_reverse (proof_inbound v i p s) = ts_reverse s \<and>
           ts_out (proof_inbound v i p s) = ts_out s"
    and "tv_enabled v \<Longrightarrow> map_of (ts_reverse (proof_inbound v i p s)) (pk_dest_hash p) = None"
    and "\<not> tv_enabled v \<Longrightarrow> ts_reverse (proof_inbound v i p s) = ts_reverse s \<and> ts_out (proof_inbound v i p s) = ts_out s"
  using assms
  by (auto simp: proof_inbound_def regular_def regular_proof_def proof_transport_def map_of_erase Let_def
      split: option.split)

lemma regular_relayed:
  assumes "regular p" "map_of (ts_reverse s) (pk_dest_hash p) = Some e" "tv_enabled v"
  shows "ts_out (proof_inbound v i p s) = ts_out s \<or> i = rv_outbound e \<and>
    (\<exists>w. ifac_wrap (tv_prims v) (ts_impl s (rv_receiving e)) (relay_frame p) = Inr w \<and>
      ts_out (proof_inbound v i p s) = ts_out s @ [On_wire (rv_receiving e) w])"
  using assms
  by (auto simp: proof_inbound_def regular_def regular_proof_def proof_transport_def relay_frame_def wire_def t_out_def
      Let_def split: option.split sum.split)

abbreviation proofs :: "(tenv \<times> nat \<times> packet) list \<Rightarrow> tstate \<Rightarrow> tstate" where
  "proofs qs s \<equiv> fold (\<lambda>(v, i, q) s. proof_inbound v i q s) qs s"

lemma proofs_spent:
  "(\<And>v i q. (v, i, q) \<in> set qs \<Longrightarrow> pk_dest_hash q = h \<and> regular q) \<Longrightarrow> map_of (ts_reverse s) h = None \<Longrightarrow>
   ts_out (proofs qs s) = ts_out s"
proof (induction qs arbitrary: s)
  case (Cons x qs)
  obtain v i q where x: "x = (v, i, q)" by (rule prod_cases3)
  with Cons.prems(1) [of v i q] have q: "pk_dest_hash q = h" "regular q" by auto
  have n: "ts_reverse (proof_inbound v i q s) = ts_reverse s \<and> ts_out (proof_inbound v i q s) = ts_out s"
    by (rule regular_inbound(2) [OF q(2)]) (simp add: q(1) Cons.prems(2))
  have "ts_out (proofs qs (proof_inbound v i q s)) = ts_out (proof_inbound v i q s)"
    by (rule Cons.IH) (use Cons.prems n in auto)
  with n x show ?case by simp
qed simp

text \<open>
  C25: A proof goes back at most once, and only along the path its packet took. Whatever sequence of proofs for
  one packet (none of them a link's or a resource's proof) a relay's proof step gets, on any interfaces, it
  sends at most one of them on, one that came in on the interface the packet went out on, as received but
  for its hop count, to the interface the packet came from; with no entry for the packet it sends none.
\<close>

theorem proof_relayed_once:
  assumes "\<And>v i q. (v, i, q) \<in> set qs \<Longrightarrow> pk_dest_hash q = h \<and> regular q"
  shows "\<exists>xs. ts_out (proofs qs s) = ts_out s @ xs \<and> length xs \<le> 1 \<and>
    (\<forall>x \<in> set xs. \<exists>e v q w. map_of (ts_reverse s) h = Some e \<and> (v, rv_outbound e, q) \<in> set qs \<and>
       ifac_wrap (tv_prims v) (ts_impl s (rv_receiving e)) (relay_frame q) = Inr w \<and> x = On_wire (rv_receiving e) w)"
  using assms
proof (induction qs arbitrary: s)
  case (Cons x qs)
  obtain v i q where x: "x = (v, i, q)" by (rule prod_cases3)
  with Cons.prems [of v i q] have q: "pk_dest_hash q = h" "regular q" by auto
  let ?s = "proof_inbound v i q s"
  show ?case
  proof (cases "tv_enabled v \<and> ts_out ?s \<noteq> ts_out s")
    case False
    have "\<exists>xs. ts_out (proofs qs ?s) = ts_out ?s @ xs \<and> length xs \<le> 1 \<and>
        (\<forall>x \<in> set xs. \<exists>e v q w. map_of (ts_reverse ?s) h = Some e \<and> (v, rv_outbound e, q) \<in> set qs \<and>
           ifac_wrap (tv_prims v) (ts_impl ?s (rv_receiving e)) (relay_frame q) = Inr w \<and> x = On_wire (rv_receiving e) w)"
      proof (rule Cons.IH)
      show "pk_dest_hash q' = h \<and> regular q'" if "(v', i', q') \<in> set qs" for v' i' q'
        using Cons.prems [of v' i' q'] that by simp
    qed
    then obtain xs where xs: "ts_out (proofs qs ?s) = ts_out ?s @ xs" "length xs \<le> 1"
        "\<forall>x \<in> set xs. \<exists>e v q w. map_of (ts_reverse ?s) h = Some e \<and> (v, rv_outbound e, q) \<in> set qs \<and>
           ifac_wrap (tv_prims v) (ts_impl ?s (rv_receiving e)) (relay_frame q) = Inr w \<and> x = On_wire (rv_receiving e) w"
      by blast
    have o: "ts_out ?s = ts_out s" "ts_impl ?s = ts_impl s"
      using False regular_inbound(1,4) [OF q(2), of v i s] by auto
    have keep: "map_of (ts_reverse ?s) h = Some e \<Longrightarrow> map_of (ts_reverse s) h = Some e" for e
      using regular_inbound(3,4) [OF q(2), of v i s] q(1) by (cases "tv_enabled v") auto
    show ?thesis
    proof (intro exI [of _ xs] conjI ballI)
      show "ts_out (proofs (x # qs) s) = ts_out s @ xs" using xs(1) o x by simp
      show "length xs \<le> 1" by (rule xs(2))
      fix y assume "y \<in> set xs"
      with xs(3) obtain e v' q' w where "map_of (ts_reverse ?s) h = Some e" "(v', rv_outbound e, q') \<in> set qs"
          "ifac_wrap (tv_prims v') (ts_impl ?s (rv_receiving e)) (relay_frame q') = Inr w"
          "y = On_wire (rv_receiving e) w" by blast
      then show "\<exists>e v q w. map_of (ts_reverse s) h = Some e \<and> (v, rv_outbound e, q) \<in> set (x # qs) \<and>
          ifac_wrap (tv_prims v) (ts_impl s (rv_receiving e)) (relay_frame q) = Inr w \<and> y = On_wire (rv_receiving e) w"
        using keep o(2) by (intro exI [of _ e] exI [of _ v'] exI [of _ q'] exI [of _ w]) simp
    qed
  next
    case True
    then obtain e where e: "map_of (ts_reverse s) h = Some e"
      using regular_inbound(2) [OF q(2), of s v i] q(1) by fastforce
    with True regular_relayed [OF q(2), of s e v i] q(1) obtain w where w: "i = rv_outbound e"
        "ifac_wrap (tv_prims v) (ts_impl s (rv_receiving e)) (relay_frame q) = Inr w"
        "ts_out ?s = ts_out s @ [On_wire (rv_receiving e) w]" by auto
    have "ts_out (proofs qs ?s) = ts_out ?s"
      by (rule proofs_spent) (use Cons.prems regular_inbound(3) [OF q(2), of v i s] True q(1) in auto)
    with w e x show ?thesis
      by (intro exI [of _ "[On_wire (rv_receiving e) w]"] conjI ballI)
         (simp_all, intro exI [of _ e] exI [of _ v] exI [of _ q] exI [of _ w], simp)
  qed
qed simp

definition sample_prf :: packet where
  "sample_prf = sample_parcel\<lparr>pk_packet_type := PROOF\<rparr>"

lemma proof_relayed_once_witness:
  "\<exists>xs. ts_out (proofs [(sample_world, 2, sample_prf), (sample_world, 2, sample_prf)]
        (sample_relay\<lparr>ts_reverse := [([], \<lparr>rv_receiving = 1, rv_outbound = 2, rv_timestamp = 0\<rparr>)]\<rparr>)) =
      ts_out sample_relay @ xs \<and> length xs \<le> 1"
  using proof_relayed_once [of "[(sample_world, 2, sample_prf), (sample_world, 2, sample_prf)]" "[]"
      "sample_relay\<lparr>ts_reverse := [([], \<lparr>rv_receiving = 1, rv_outbound = 2, rv_timestamp = 0\<rparr>)]\<rparr>"]
  by (auto simp: sample_prf_def sample_parcel_def packet_object_def regular_def const_values)

end
