(* ===== verification/TransFrame.thy ===== *)
theory TransFrame
  imports TransIn LinkSignal
begin

text \<open>
  The frames a relay writes: over any number of relays a packet in transport arrives as it was sent, and a
  link request keeps its link id while the relays lower the MTU it asks for.
\<close>

section \<open>The shape of a received frame\<close>

definition same_packet :: "packet \<Rightarrow> packet \<Rightarrow> bool" where
  "same_packet p q \<longleftrightarrow> pk_dest_hash q = pk_dest_hash p \<and> pk_dest_type q = pk_dest_type p \<and>
     pk_packet_type q = pk_packet_type p \<and> pk_context q = pk_context p \<and> pk_data q = pk_data p \<and>
     pk_packet_hash q = pk_packet_hash p"

lemma same_refl [simp]: "same_packet p p"
  by (simp add: same_packet_def)

lemma same_trans: "same_packet p q \<Longrightarrow> same_packet q r \<Longrightarrow> same_packet p r"
  by (simp add: same_packet_def)

lemma cut_at: "n \<le> length xs \<Longrightarrow> \<exists>a b. xs = a @ b \<and> length a = n"
  by (intro exI [of _ "take n xs"] exI [of _ "drop n xs"]) simp

lemma unpack_header: "unpack e (packet_from_raw raw) = (p, True) \<Longrightarrow>
    pk_header_type p = header_of_code (drop_bit 6 (raw ! 0 AND 0x40)) \<and> pk_raw p = raw \<and>
    19 \<le> length raw \<and> (pk_header_type p = HEADER_2 \<longrightarrow> 35 \<le> length raw)"
  by (auto simp: unpack_def packet_from_raw_def Let_def update_hash_def unpack_flags_def const_values rbind_def
      split: if_splits sum.splits)

lemma frame_shape:
  assumes "unpack e (packet_from_raw raw) = (p, True)" "pk_header_type p = HEADER_2"
  obtains fl h tid dh ctx body where "raw = [fl, h] @ tid @ dh @ [ctx] @ body" "length tid = 16" "length dh = 16"
    "header_of_code (drop_bit 6 (fl AND 0x40)) = HEADER_2"
proof -
  have n: "35 \<le> length raw" "header_of_code (drop_bit 6 (raw ! 0 AND 0x40)) = HEADER_2"
    using unpack_header [OF assms(1)] assms(2) by simp_all
  obtain a r1 where a: "raw = a @ r1" "length a = 2" using cut_at [of 2 raw] n(1) by auto
  obtain b r2 where b: "r1 = b @ r2" "length b = 16" using cut_at [of 16 r1] a n(1) by auto
  obtain c r3 where c: "r2 = c @ r3" "length c = 16" using cut_at [of 16 r2] a b n(1) by auto
  obtain ctx body where d: "r3 = ctx # body" using a b c n(1) by (cases r3) auto
  obtain fl h where "a = [fl, h]" using a(2) by (auto simp: length_Suc_conv numeral_2_eq_2)
  with a b c d n(2) that [of fl h b c ctx body] show thesis by simp
qed

section \<open>One relay\<close>

text \<open>What a relay sends for a frame, to a next hop with so many hops to go.\<close>

definition relayed :: "penv \<Rightarrow> iface \<Rightarrow> bytes \<times> u8 \<Rightarrow> bytes \<Rightarrow> bytes" where
  "relayed e f hop raw = forward_frame (fst hop) (snd hop) (received f (fst (unpack e (packet_from_raw raw))))"


lemma received_keeps [simp]: "pk_raw (received f p) = pk_raw p" "pk_hops (received f p) = pk_hops p + 1"
    "pk_flags (received f p) = pk_flags p"
  by (simp_all add: received_def)

lemma nibble_bits: "((fl :: u8) AND 0x0f) AND 0x0f = fl AND 0x0f" "(fl AND 0x0f) AND 0x40 = 0" "(fl AND 0x0f) AND 0x0c = fl AND 0x0c"
    "(fl AND 0x0f) AND 0x03 = fl AND 0x03"
  by (simp_all add: and.assoc)

lemma relay_on:
  assumes u: "unpack e (packet_from_raw raw) = (p, True)" "pk_header_type p = HEADER_2" and n: "length n = 16" and r: "r > 1"
  shows "\<exists>q. unpack e (packet_from_raw (forward_frame n r (received f p))) = (q, True) \<and> pk_header_type q = HEADER_2 \<and>
    pk_transport_id q = n \<and> pk_hops q = pk_hops p + 1 \<and> same_packet p q"
proof -
  obtain fl h tid dh ctx body where s: "raw = [fl, h] @ tid @ dh @ [ctx] @ body" "length tid = 16" "length dh = 16"
    "header_of_code (drop_bit 6 (fl AND 0x40)) = HEADER_2"
    using frame_shape [OF u] .
  note p = unpack_header2 [OF s, of e]
  have ph: "pk_raw p = raw" "pk_hops p = h" using p u by (auto simp: unpack_flags_def packet_from_raw_def)
  have "forward_frame n r (received f p) = [fl, h + 1] @ n @ dh @ [ctx] @ body"
    using s(1-3) r ph by (simp add: forward_frame_def slice_simps TRUNCATED_HASHLENGTH_def)
  from unpack_header2 [OF this n s(3,4), of e] p u show ?thesis
    by (auto simp: same_packet_def unpack_flags_def packet_from_raw_def s(4))
qed

lemma relay_last:
  assumes u: "unpack e (packet_from_raw raw) = (p, True)" "pk_header_type p = HEADER_2"
  shows "\<exists>q. unpack e (packet_from_raw (forward_frame n 1 (received f p))) = (q, True) \<and> pk_header_type q = HEADER_1 \<and>
    pk_transport_id q = [] \<and> pk_hops q = pk_hops p + 1 \<and> same_packet p q"
proof -
  obtain fl h tid dh ctx body where s: "raw = [fl, h] @ tid @ dh @ [ctx] @ body" "length tid = 16" "length dh = 16"
    "header_of_code (drop_bit 6 (fl AND 0x40)) = HEADER_2"
    using frame_shape [OF u] .
  note p = unpack_header2 [OF s, of e]
  have ph: "pk_raw p = raw" "pk_hops p = h" "pk_flags p = fl" using p u by (auto simp: unpack_flags_def packet_from_raw_def)
  have f: "forward_frame n 1 (received f p) = [fl AND 0x0f, h + 1] @ dh @ [ctx] @ body"
    using s(1-3) ph by (simp add: forward_frame_def slice_simps TRUNCATED_HASHLENGTH_def)
  have "header_of_code (drop_bit 6 ((fl AND 0x0f) AND 0x40)) = HEADER_1"
    by (simp add: nibble_bits header_of_code_def del: and.assoc)
  from unpack_header1 [OF f s(3) this, of e] p u show ?thesis
    by (auto simp: same_packet_def unpack_flags_def packet_from_raw_def nibble_bits header_of_code_def)
qed


section \<open>Any number of relays\<close>


definition sample_frame :: bytes where
  "sample_frame = [0x50, 1] @ replicate 16 9 @ replicate 16 3 @ [0] @ [7, 8]"



section \<open>Link requests\<close>

text \<open>A frame with one or with two addresses.\<close>

definition framed :: "u8 \<Rightarrow> bytes \<Rightarrow> bool" where
  "framed fl addr \<longleftrightarrow> header_of_code (drop_bit 6 (fl AND 0x40)) = HEADER_1 \<and> addr = [] \<or>
     header_of_code (drop_bit 6 (fl AND 0x40)) = HEADER_2 \<and> length addr = 16"

lemma frame_fields:
  assumes "framed fl addr" "length dh = 16" "64 \<le> length body"
  shows "\<exists>q. unpack e (packet_from_raw ([fl, h] @ addr @ dh @ [ctx] @ body)) = (q, True) \<and> pk_data q = body \<and>
    pk_dest_hash q = dh \<and> pk_packet_type q = packet_of_code (fl AND 0x03) \<and>
    link_id_from_lr_packet c q = Inr (truncated_hash c ((fl AND 0x0f) # dh @ [ctx] @ take 64 body))"
  using assms(1) unfolding framed_def
proof (elim disjE conjE)
  assume f: "header_of_code (drop_bit 6 (fl AND 0x40)) = HEADER_1" "addr = []"
  have eq: "[fl, h] @ addr @ dh @ [ctx] @ body = [fl, h] @ dh @ [ctx] @ body" using f(2) by simp
  show ?thesis unfolding unpack_header1 [OF eq assms(2) f(1), of e]
    using assms(2,3) f
    by (simp add: unpack_flags_def packet_from_raw_def link_id_from_lr_packet_def hashable_part_def rd_def
        ECPUBSIZE_def slice_simps)
next
  assume f: "header_of_code (drop_bit 6 (fl AND 0x40)) = HEADER_2" "length addr = 16"
  have eq: "[fl, h] @ addr @ dh @ [ctx] @ body = [fl, h] @ addr @ dh @ [ctx] @ body" by (rule refl)
  show ?thesis unfolding unpack_header2 [OF eq f(2) assms(2) f(1), of e]
    using assms(2,3) f
    by (simp add: unpack_flags_def packet_from_raw_def link_id_from_lr_packet_def hashable_part_def rd_def
        ECPUBSIZE_def TRUNCATED_HASHLENGTH_def slice_simps)
qed

lemma mtu_same_data: "pk_data q = pk_data p \<Longrightarrow> mtu_from_lr_packet q = mtu_from_lr_packet p"
  by (simp add: mtu_from_lr_packet_def)

lemma clamp_split:
  assumes "clamp_request fin fout p raw = Some raw'" "mtu_from_lr_packet p \<noteq> 0"
  obtains "raw' = bleft (length raw - LINK_MTU_SIZE) raw"
    | "raw' = raw" "mtu_from_lr_packet p \<le> if_hw_mtu fout"
        "if_hw_mtu fin = 0 \<or> mtu_from_lr_packet p \<le> if_hw_mtu fin"
    | sb where "raw' = bleft (length raw - LINK_MTU_SIZE) raw @ sb"
        "if_hw_mtu fout < mtu_from_lr_packet p \<or> if_hw_mtu fin \<noteq> 0 \<and> if_hw_mtu fin < mtu_from_lr_packet p"
        "signalling_bytes (min (if_hw_mtu fout) (if if_hw_mtu fin > 0 then if_hw_mtu fin else if_hw_mtu fout))
           (mode_from_lr_packet p) = Inr sb"
  using assms unfolding clamp_request_def Let_def
  by (auto simp: not_less word_neq_0_conv split: if_splits sum.splits)

lemma clamp_cases:
  assumes "clamp_request fin fout p (hd1 @ body) = Some raw'" "pk_data p = body" "length body = 64 \<or> length body = 67"
  shows "\<exists>body' m. raw' = hd1 @ body' \<and> take 64 body' = take 64 body \<and> 64 \<le> length body' \<and>
    (\<forall>q. pk_data q = body' \<longrightarrow> mtu_from_lr_packet q = m) \<and> m \<le> mtu_from_lr_packet p \<and>
    (m \<noteq> 0 \<longrightarrow> m \<le> if_hw_mtu fout \<and> (if_hw_mtu fin \<noteq> 0 \<longrightarrow> m \<le> if_hw_mtu fin))"
proof (cases "mtu_from_lr_packet p = 0")
  case True
  then have "raw' = hd1 @ body" using assms(1) by (simp add: clamp_request_def)
  moreover have "mtu_from_lr_packet q = 0" if "pk_data q = body" for q
    using mtu_same_data [of q p] that True assms(2) by simp
  ultimately show ?thesis using assms(3) by (intro exI [of _ body] exI [of _ 0]) auto
next
  case False
  then have len: "length body = 67" using assms(2) by (auto simp: mtu_from_lr_packet_def ECPUBSIZE_def LINK_MTU_SIZE_def split: if_splits)
  have cut: "bleft (length (hd1 @ body) - LINK_MTU_SIZE) (hd1 @ body) = hd1 @ take 64 body"
    using len by (simp add: slice_simps LINK_MTU_SIZE_def)
  let ?nh = "if_hw_mtu fout" and ?ph = "if_hw_mtu fin" and ?m = "mtu_from_lr_packet p"
  show ?thesis
  proof (cases rule: clamp_split [OF assms(1) False])
    case 1
    have "mtu_from_lr_packet q = 0" if "pk_data q = take 64 body" for q
      using that by (simp add: mtu_from_lr_packet_def ECPUBSIZE_def LINK_MTU_SIZE_def len)
    with 1 [unfolded cut] len show ?thesis by (intro exI [of _ "take 64 body"] exI [of _ 0]) simp
  next
    case 2
    have "mtu_from_lr_packet q = ?m" if "pk_data q = body" for q
      using mtu_same_data [of q p] that assms(2) by simp
    with 2 len show ?thesis by (intro exI [of _ body] exI [of _ ?m]) auto
  next
    case (3 sb)
    let ?k = "min ?nh (if ?ph > 0 then ?ph else ?nh)"
    note sb = signalling_roundtrip [OF 3(3)]
    have l64: "length (take 64 body) = 64" using len by simp
    have "length (take 64 body @ sb) = 67" "mtu_of_bytes (take 64 body @ sb) 64 = ?k"
      using sb(1,4) mtu_of_append [of "take 64 body" sb] l64 by simp_all
    then have "mtu_from_lr_packet q = ?k" if "pk_data q = take 64 body @ sb" for q
      unfolding mtu_from_lr_packet_def that ECPUBSIZE_def LINK_MTU_SIZE_def by simp
    moreover have "?k \<le> ?m" "?k \<le> ?nh" "?ph \<noteq> 0 \<longrightarrow> ?k \<le> ?ph"
      using 3(2) by (auto simp: min_def word_neq_0_conv)
    ultimately show ?thesis using 3(1) [unfolded cut] l64 by (intro exI [of _ "take 64 body @ sb"] exI [of _ ?k]) auto
  qed
qed

text \<open>
  C26: A link request keeps its link id on its way. What a relay sends on for a well-formed request in transport
  (of 64 bytes of keys, with or without the three signalling bytes; to the last hop, or to a next hop of 16
  bytes), when it sends it on at all, has the same link id, destination and keys, however the relay lowers or
  strips the MTU the request asks for; that MTU is never raised, and where one is left it fits the hardware
  MTU of the relay's outgoing interface, and of the receiving one where that has one.
\<close>

theorem request_through_relay:
  assumes "unpack e (packet_from_raw raw) = (p, True)" "pk_header_type p = HEADER_2"
    and "length (pk_data p) = 64 \<or> length (pk_data p) = 67"
    and "r = 1 \<or> r > 1 \<and> length n = 16"
    and "clamp_request fin fout (received fin p) (forward_frame n r (received fin p)) = Some raw'"
  shows "\<exists>q. unpack e (packet_from_raw raw') = (q, True) \<and>
    link_id_from_lr_packet c q = link_id_from_lr_packet c p \<and> pk_dest_hash q = pk_dest_hash p \<and>
    pk_packet_type q = pk_packet_type p \<and> take 64 (pk_data q) = take 64 (pk_data p) \<and>
    mtu_from_lr_packet q \<le> mtu_from_lr_packet p \<and>
    (mtu_from_lr_packet q \<noteq> 0 \<longrightarrow> mtu_from_lr_packet q \<le> if_hw_mtu fout \<and>
       (if_hw_mtu fin \<noteq> 0 \<longrightarrow> mtu_from_lr_packet q \<le> if_hw_mtu fin))"
proof -
  obtain fl h tid dh ctx body where s: "raw = [fl, h] @ tid @ dh @ [ctx] @ body" "length tid = 16" "length dh = 16"
    "header_of_code (drop_bit 6 (fl AND 0x40)) = HEADER_2"
    using frame_shape [OF assms(1,2)] .
  note p = unpack_header2 [OF s, of e]
  have f: "pk_raw p = raw" "pk_hops p = h" "pk_flags p = fl" "pk_data p = body"
    using p assms(1) by (auto simp: unpack_flags_def packet_from_raw_def)
  have fr: "framed fl tid" using s(2,4) by (simp add: framed_def)
  have b64: "64 \<le> length body" using assms(3) f(4) by auto
  from frame_fields [OF fr s(3) b64, of e h ctx c] assms(1)
  have pf: "pk_dest_hash p = dh" "pk_packet_type p = packet_of_code (fl AND 0x03)"
      "link_id_from_lr_packet c p = Inr (truncated_hash c ((fl AND 0x0f) # dh @ [ctx] @ take 64 body))"
    by (simp_all add: s(1))
  define fl' where "fl' = (if r = 1 then fl AND 0x0f else fl)"
  define addr where "addr = (if r = 1 then [] else n)"
  have code: "header_of_code 0 = HEADER_1" by (simp add: header_of_code_def)
  have fr': "framed fl' addr" "fl' AND 0x0f = fl AND 0x0f" "fl' AND 0x03 = fl AND 0x03"
    using assms(4) s(4) by (auto simp: framed_def fl'_def addr_def nibble_bits and.assoc code)
  have fwd: "forward_frame n r (received fin p) = ([fl', h + 1] @ addr @ dh @ [ctx]) @ body"
    using assms(4) s(1-3) f by (auto simp: forward_frame_def slice_simps TRUNCATED_HASHLENGTH_def fl'_def addr_def)
  have d: "pk_data (received fin p) = body" by (simp add: received_def f(4))
  have sz: "length body = 64 \<or> length body = 67" using assms(3) f(4) by simp
  obtain body' m where c: "raw' = ([fl', h + 1] @ addr @ dh @ [ctx]) @ body'" "take 64 body' = take 64 body"
      "64 \<le> length body'" "\<forall>q. pk_data q = body' \<longrightarrow> mtu_from_lr_packet q = m" "m \<le> mtu_from_lr_packet (received fin p)"
      "m \<noteq> 0 \<longrightarrow> m \<le> if_hw_mtu fout \<and> (if_hw_mtu fin \<noteq> 0 \<longrightarrow> m \<le> if_hw_mtu fin)"
    using clamp_cases [OF assms(5) [unfolded fwd] d sz] by blast
  have m: "mtu_from_lr_packet (received fin p) = mtu_from_lr_packet p"
    by (simp add: mtu_from_lr_packet_def received_def)
  from frame_fields [OF fr'(1) s(3) c(3), where e = e and h = "h + 1" and ctx = ctx and c = c] show ?thesis
    using c pf f(4) fr' m by auto
qed

definition sample_request :: bytes where
  "sample_request = [0x52, 1] @ replicate 16 9 @ replicate 16 3 @ [0] @ (replicate 64 5 @ [0x20, 1, 0xF4])"

lemma request_through_relay_witness:
  "let fin = (interface_object [1] [1])\<lparr>if_hw_mtu := 1000\<rparr>;
       fout = (interface_object [2] [2])\<lparr>if_hw_mtu := 300, if_fixed := True\<rparr>;
       p = fst (unpack sample_env (packet_from_raw sample_request))
   in \<exists>raw' q. clamp_request fin fout (received fin p) (forward_frame (replicate 16 4) 3 (received fin p)) = Some raw' \<and>
        unpack sample_env (packet_from_raw raw') = (q, True) \<and> mtu_from_lr_packet p = 500 \<and>
        mtu_from_lr_packet q \<le> 300 \<and> link_id_from_lr_packet toy_prims q = link_id_from_lr_packet toy_prims p"
proof -
  let ?in = "(interface_object [1] [1])\<lparr>if_hw_mtu := 1000\<rparr>"
  let ?out = "(interface_object [2] [2])\<lparr>if_hw_mtu := 300, if_fixed := True\<rparr>"
  have h: "header_of_code (drop_bit 6 ((0x52 :: u8) AND 0x40)) = HEADER_2" by code_simp
  obtain p where p: "unpack sample_env (packet_from_raw sample_request) = (p, True)" "pk_header_type p = HEADER_2"
      "pk_data p = replicate 64 5 @ [0x20, 1, 0xF4]"
    using unpack_header2 [OF sample_request_def _ _ h, of sample_env] h by (simp add: unpack_flags_def)
  have m: "mtu_from_lr_packet p = 500"
    unfolding mtu_from_lr_packet_def p(3) by code_simp
  have sz: "length (pk_data p) = 64 \<or> length (pk_data p) = 67" by (simp add: p(3))
  have d: "pk_data (received ?in p) = replicate 64 5 @ [0x20, 1, 0xF4]" by (simp add: received_def p(3))
  have mode: "mode_from_lr_packet (received ?in p) = 1" "mtu_from_lr_packet (received ?in p) = 500"
    unfolding mode_from_lr_packet_def mtu_from_lr_packet_def d by code_simp+
  have sig: "signalling_bytes 300 1 = Inr [0x20, 1, 0x2C]" by code_simp
  obtain raw' where raw: "clamp_request ?in ?out (received ?in p) (forward_frame (replicate 16 4) 3 (received ?in p)) = Some raw'"
    by (simp add: clamp_request_def mode sig Let_def)
  have "(3 :: u8) = 1 \<or> (3 :: u8) > 1 \<and> length (replicate 16 (4 :: u8)) = 16" by simp
  from request_through_relay [OF p(1,2) sz this raw, of toy_prims] p(1) m raw show ?thesis
    by (auto simp: Let_def)
qed

end
