(* ===== verification/Spec2Isabelle.thy ===== *)
theory Spec2Isabelle
  imports MsgPack MsgPackObj ChannelOrder DirRestore DirSeqlock ResExchange ResWatch BytesCow DestProps LinkProps IfaceProps
    TransProps TransFrame
begin

text \<open>
  A model of the protocol core of the Reticulum daemon, the C++ library under
  \<open>esp-idf/components/microreticulum/src\<close>: what a node keeps, what it does with a frame, a
  packet, an announce, a link, a resource and a message, and what this promises to its peers and to the
  application. File and function names below are relative to that directory.

  \<^bold>\<open>The parts and how they meet.\<close>
  \<open>Transport::inbound\<close> takes a frame from an interface, removes its access code, unpacks it, filters
  duplicates, relays what is for others, and hands the rest to a destination, a link or the announce handling.
  Announces fill the directory (identity, route and retained frame per destination), which the transport asks
  for next hops and the identity layer for keys. A destination signs announces and decrypts packets; a link is
  a handshake between two destinations and then an encrypted session that carries requests, resources (large
  transfers) and a channel (ordered small messages). Packets leave through \<open>Packet::pack\<close> and
  \<open>Transport::outbound\<close>; receipts wait for their proofs. The components call each other through
  arguments: where one hands work to another that has a theory of its own, the model records it as an output
  (\<open>tout\<close>, the callback fields) and the other component's operations model what happens there.

  \<^bold>\<open>Conventions.\<close>
  Integers keep their width (\<open>u8\<close> to \<open>u64\<close> are words; \<open>usize\<close> is 32 bits, the
  target's \<open>size_t\<close>). Bytes are lists of \<open>u8\<close>. Doubles and floats are exact rationals
  (\<open>secs\<close>), so rounding is not modelled. A \<open>throw\<close> is \<open>Inl\<close> of a \<open>fault\<close>; reads out of range,
  undefined conversions and exhausted stacks are faults too, never arbitrary values. The clock is read once
  per operation and random bytes are arguments. Code that is not in the repository is a parameter with
  documented laws: the ciphers, hashes, key derivation (defined up to 255 blocks of output, as RFC 5869 says)
  and curves are the record \<open>prims\<close>, with \<open>toy_prims\<close> as an instance of all laws at once;
  compression, the heap and the link under a resource are in \<open>renv\<close>; what a packet needs of its
  surroundings is \<open>penv\<close>. Logging has no effect and is left out.

  \<^bold>\<open>Theories and the code they model.\<close>
  \<^item> \<open>Prelude\<close>: words, faults, slot searches, and the locale \<open>wire_codec\<close> (an encoder
    and a decoder that leaves the rest of the input), interpreted for every msgpack codec. \<open>RnsTypes\<close>:
    the enumerations and constants of \<open>Type.h\<close>.
  \<^item> \<open>BytesCow\<close>: \<open>Bytes.cpp\<close>, \<open>Bytes.h\<close>, the copy-on-write handles on a heap of
    shared vectors, refined to plain values.
  \<^item> \<open>MsgPack\<close>, \<open>MsgPackObj\<close>: \<open>MsgPack.h\<close>, every packer and reader, the request and
    response envelopes, \<open>MapReader\<close> and \<open>ArrayReader\<close>.
  \<^item> \<open>Packet\<close>, \<open>Receipt\<close>: \<open>Packet.cpp\<close>, flags, pack, unpack and hashes; the states of
    a \<open>PacketReceipt\<close>.
  \<^item> \<open>Channel\<close>, \<open>ChannelOrder\<close>: \<open>Channel.cpp\<close>, the window, retries and the receive ring;
    the specification of in-order delivery and its simulation.
  \<^item> \<open>Crypto\<close>: \<open>Cryptography/\<close> (padding, HMAC object, HKDF wrapper, Token, Fernet, key wrappers)
    and \<open>Utilities/Crc.cpp\<close>; the locale \<open>sealing\<close> states what both token formats promise.
  \<^item> \<open>Identity\<close>, \<open>IdentityProps\<close>: \<open>Identity.cpp\<close>, keys, signatures, encryption,
    validation of announces, recall. \<open>Destination\<close>, \<open>DestProps\<close>: \<open>Destination.cpp\<close>, names,
    announces, ratchets, request handlers.
  \<^item> \<open>DirRec\<close>, \<open>DirGuard\<close>, \<open>DirStore\<close>, \<open>DirSnapshot\<close>, \<open>DirImage\<close>,
    \<open>DirSeqlock\<close>: \<open>Directory.cpp\<close>, the packed records and their eviction rank, the replay guard,
    the pools and every writer and reader, the snapshot order, the stored image and the sequence lock. Their
    invariants and properties: \<open>DirInv\<close>, \<open>DirOps\<close>, \<open>DirProps\<close>, \<open>DirGuardSpec\<close>,
    \<open>DirRestore\<close>. The locale \<open>slot_pool\<close> (a table with at most one used slot per key) is
    interpreted for the three pools and for the transport's four; \<open>evictor\<close> for both evictions.
  \<^item> \<open>ResAdv\<close>, \<open>Resource\<close>: \<open>Resource.cpp\<close>, the advertisement and both ends of a
    transfer; \<open>ResInv\<close>, \<open>ResExchange\<close>, \<open>ResWatch\<close> hold what is proved of them.
  \<^item> \<open>LinkBase\<close>, \<open>Link\<close>, \<open>LinkRx\<close>: \<open>Link.cpp\<close>, the state, the handshake and the
    watchdog, requests, resources and \<open>Link::receive\<close>. \<open>LinkSignal\<close>, \<open>LinkInv\<close>,
    \<open>LinkReach\<close>, \<open>LinkShake\<close>, \<open>LinkProps\<close>: the signalling bytes, the step relation and its
    invariant, the four steps of a handshake, the properties.
  \<^item> \<open>Iface\<close>, \<open>IfaceProps\<close>: \<open>Interface.cpp\<close>, \<open>Interface.h\<close>, access codes and the
    route trailer. \<open>TransBase\<close>, \<open>TransOut\<close>, \<open>TransRelay\<close>, \<open>TransAnn\<close>,
    \<open>TransPath\<close>, \<open>TransIn\<close>: \<open>Transport.cpp\<close>, in this order the tables and route lookups,
    \<open>outbound\<close>, the relay, announces, path requests and timers, \<open>inbound\<close> and \<open>jobs\<close>.
    \<open>TransInv\<close>: the step relation \<open>tmove\<close> over all of them and the well-formedness of the
    tables. \<open>TransKeep\<close>: the locale \<open>bystander\<close>, what the local part of inbound leaves alone,
    interpreted for the hash list, the link table and the reverse table. \<open>TransProps\<close> and
    \<open>TransFrame\<close>: the properties of a relay.

  \<^bold>\<open>What is proved.\<close> The properties are numbered C1 to C40 where they stand.
  \<^item> Authenticity: a receipt is delivered only by a proof that verifies (C1), an announce is accepted only
    with its key's signature and address (C3), an active link has an authenticated peer and one key with it
    (C4), requests are answered for the listed only (C8), a decrypted token is the sender's (C13), an
    access-coded interface lets nothing else through (C21), a relay validates a link by its destination's own
    proof (C10). What the announce's signature does not cover is C35.
  \<^item> Delivery: the channel in order and exactly once (C2), a resource to the end (C5), the handshake to two
    active links (C6), an announce to acceptance (C9), with their conditions spelled out; the failures too: a
    silent link closes (C15), a silent receiver gives up (C34), the watchdog's packets are bounded (C37).
  \<^item> The relay: frames arrive unchanged over any number of relays (C11), a packet is handled once (C12), a
    proof goes back at most once along its path (C25), a link request keeps its id and only loses MTU (C26), the
    tables stay well formed under every operation (C27).
  \<^item> The store: invariant (C20), eviction (C24, C33), the replay guard against its specification, a full pool
    included (C28, C29), snapshot and restore (C14, C23), the sequence lock with wipes (C16).
  \<^item> Values and formats: copy-on-write is value semantics (C18); round trips of packets, identities, tokens,
    access codes and advertisements (C17, C22, C30, C32, C38); bounds (C7, C31, C40); ratchets (C19); two
    defects (C36, C39). Lemmas beside them show further behaviour on single inputs.

  \<^bold>\<open>Bounds and fuel.\<close>
  Loops are structural recursion, folds over slots, or \<open>function\<close> with a measure. The one recursion
  of the source without a bound, \<open>skip_value\<close>, takes the depth of the call stack as its argument;
  a value nested less deep than that is read in full, and C39 shows an input that exhausts every depth. The
  theorems over histories are inductions over step relations of any length and have no bound. C5 counts the
  rounds of the exchange from the number of parts, so that many rounds are enough, and not merely allowed.

  \<^bold>\<open>Not modelled.\<close>
  The shared instance and local clients of the transport (nothing in the repository sets them up), tunnels,
  the packet cache (its storage is compiled out) and the transport's statistics and files of the old path
  table; the operating system, log, heap and file layers; vendored code (microStore, bzip2, donna, TLSF); and
  the daemon around the core (\<open>rnsd.cpp\<close> and its peer table, gateway search and displays), which is glue
  over services outside the repository. Threads appear only where the code relies on them, as the
  interleaving of \<open>DirSeqlock\<close>; the other components run on one task.
\<close>

end
